(* ===== verification/Kernel_Prelude.thy ===== *)
theory Kernel_Prelude
  imports Main "HOL-Library.Word"
begin

text \<open>
  Shared vocabulary of the NoobKernel development: the fixed-width integer types of
  \<^verbatim>\<open>include/misc/stdint.h\<close>, the ways a kernel function can fail to return, the
  result type with its sequencing operator, and the generic lemmas on words, bits and
  lists that the component theories use.
\<close>

unbundle bit_operations_syntax

section \<open>Machine integers\<close>

type_synonym u8 = "8 word"
type_synonym u16 = "16 word"
type_synonym u32 = "32 word"
type_synonym u64 = "64 word"

text \<open>Addresses are 64-bit words; \<^verbatim>\<open>NULL\<close> is the word 0.\<close>

type_synonym addr = u64

abbreviation (input) NULL :: addr where
  "NULL \<equiv> 0"

section \<open>Outcomes of kernel code\<close>

text \<open>
  A call either returns, or the machine stops in one of these ways. \<open>Panic\<close> is the macro
  \<^verbatim>\<open>panic\<close> of \<^verbatim>\<open>include/misc/log.h\<close> (it shuts the machine down); \<open>Null_Deref\<close> is an
  access through a null or dangling pointer; \<open>Spin\<close> is a loop that waits for another hart
  or a device for ever; \<open>Bad_List\<close> is a \<^verbatim>\<open>list_del\<close> of a node that is on no list, whose
  stale links corrupt the neighbouring lists; \<open>Out_Of_Bounds\<close> is an access outside an array.
\<close>

datatype fault = Panic string | Null_Deref | Spin | Bad_List | Out_Of_Bounds

type_synonym 'a res = "fault + 'a"

definition rbind :: "'a res \<Rightarrow> ('a \<Rightarrow> 'b res) \<Rightarrow> 'b res" where
  "rbind m f = (case m of Inl e \<Rightarrow> Inl e | Inr x \<Rightarrow> f x)"

named_theorems res_simps \<open>evaluation of sequenced kernel code\<close>

lemma rbind_Inr [simp, res_simps]: "rbind (Inr x) f = f x"
  by (simp add: rbind_def)

lemma rbind_Inl [simp, res_simps]: "rbind (Inl e) f = Inl e"
  by (simp add: rbind_def)

lemma rbind_eq_Inr_iff [res_simps]:
  "rbind m f = Inr y \<longleftrightarrow> (\<exists>x. m = Inr x \<and> f x = Inr y)"
  by (cases m) auto

lemma rbind_InrE [elim]:
  assumes "rbind m f = Inr y"
  obtains x where "m = Inr x" and "f x = Inr y"
  using assms by (auto simp: rbind_eq_Inr_iff)

lemma rbind_assoc: "rbind (rbind m f) g = rbind m (\<lambda>x. rbind (f x) g)"
  by (cases m) auto

lemma rbind_cong [fundef_cong]:
  "m = m' \<Longrightarrow> (\<And>x. m' = Inr x \<Longrightarrow> f x = f' x) \<Longrightarrow> rbind m f = rbind m' f'"
  by (cases m') auto

text \<open>
  \<^verbatim>\<open>for (p = a; p < e; p += step)\<close> over addresses, with a body that may \<^verbatim>\<open>return\<close> an error code.
  An addition that wraps around would start the loop again from low addresses, for ever.
\<close>

function for_addr ::
  "u64 \<Rightarrow> u64 \<Rightarrow> u64 \<Rightarrow> (u64 \<Rightarrow> 's \<Rightarrow> (int \<times> 's) res) \<Rightarrow> 's \<Rightarrow> (int \<times> 's) res" where
  "for_addr p e step f s =
     (if p < e then
        rbind (f p s) (\<lambda>(r, s).
          if r \<noteq> 0 then Inr (r, s)
          else if p < p + step then for_addr (p + step) e step f s
          else Inl Spin)
      else Inr (0, s))"
  by pat_completeness auto

termination
  by (relation "measure (\<lambda>(p, e, step, f, s). unat e - unat p)")
     (auto simp: word_less_nat_alt intro: diff_less_mono2)

declare for_addr.simps [simp del]

lemma for_addr_total:
  assumes "I p s"
    and "\<And>q s. q < e \<Longrightarrow> I q s \<Longrightarrow> \<exists>t. f q s = Inr (0, t) \<and> q < q + step \<and> I (q + step) t"
  shows "\<exists>t q. for_addr p e step f s = Inr (0, t) \<and> \<not> q < e \<and> I q t"
  using assms
proof (induction p e step f s rule: for_addr.induct)
  case (1 p e step f s)
  show ?case
  proof (cases "p < e")
    case True
    then obtain t where "f p s = Inr (0, t)" "p < p + step" "I (p + step) t" using 1 by blast
    moreover from this have "\<exists>u q. for_addr (p + step) e step f t = Inr (0, u) \<and> \<not> q < e \<and> I q u"
      using True 1(3) by (intro 1(1) [OF True]) auto
    ultimately show ?thesis using True by (subst for_addr.simps) auto
  next
    case False
    then show ?thesis using 1(2) by (subst for_addr.simps) auto
  qed
qed

lemma for_addr_keeps:
  assumes "for_addr p e step f s = Inr (r, t)" and "I s" and "\<And>q s r t. f q s = Inr (r, t) \<Longrightarrow> I s \<Longrightarrow> I t"
  shows "I t"
  using assms
proof (induction p e step f s rule: for_addr.induct)
  case (1 p e step f s)
  show ?case
  proof (cases "p < e")
    case True
    then obtain r' u where u: "f p s = Inr (r', u)"
      "(if r' \<noteq> 0 then Inr (r', u) else if p < p + step then for_addr (p + step) e step f u else Inl Spin) = Inr (r, t)"
      using 1(2) by (subst (asm) for_addr.simps) (auto simp: rbind_eq_Inr_iff)
    have "I u" using 1(4) u(1) 1(3) by blast
    then show ?thesis using u 1(1) [OF True u(1) refl] 1(4) by (auto split: if_splits)
  next
    case False
    then show ?thesis using 1(2,3) by (subst (asm) for_addr.simps) simp
  qed
qed

section \<open>Words and bits\<close>

named_theorems word_bits \<open>bit-level facts on machine words\<close>

lemma unat_take_bit [word_bits]:
  fixes x :: "'a::len word"
  shows "unat (take_bit n x) = unat x mod 2 ^ n"
proof -
  have "unat (take_bit n x) = take_bit n (unat x)"
    by transfer (simp add: take_bit_nat_eq ac_simps)
  then show ?thesis by (simp add: take_bit_eq_mod)
qed

lemma unat_and_mask [word_bits]:
  fixes x :: "'a::len word"
  shows "unat (x AND mask n) = unat x mod 2 ^ n"
  by (simp flip: take_bit_eq_mask add: unat_take_bit)

lemma unat_drop_bit [word_bits]:
  fixes x :: "'a::len word"
  shows "unat (drop_bit n x) = unat x div 2 ^ n"
  by (simp only: unat_drop_bit_eq) (simp add: drop_bit_eq_div)

lemma unat_pow2 [word_bits]:
  assumes "n < LENGTH('a)"
  shows "unat (2 ^ n :: 'a::len word) = 2 ^ n"
  using assms by transfer simp

lemma unat_push_bit_1 [word_bits]:
  assumes "n < LENGTH('a)"
  shows "unat (push_bit n 1 :: 'a::len word) = 2 ^ n"
  using unat_pow2 [OF assms] by (simp add: push_bit_eq_mult)

lemma unat_of_nat_small:
  assumes "n < 2 ^ LENGTH('a)"
  shows "unat (of_nat n :: 'a::len word) = n"
  using assms by (simp add: unat_of_nat take_bit_nat_eq_self)

lemma ucast_of_unat: "(ucast (x :: 'a::len word) :: 'b::len word) = of_nat (unat x)"
  by (simp add: of_nat_unat)

lemma ucast_of_nat_small:
  assumes "n < 2 ^ LENGTH('a)"
  shows "(ucast (of_nat n :: 'a::len word) :: 'b::len word) = of_nat n"
  by (simp only: ucast_of_unat unat_of_nat_small [OF assms])

lemma unat_ucast_up:
  assumes "LENGTH('a) \<le> LENGTH('b)"
  shows "unat (ucast (x :: 'a::len word) :: 'b::len word) = unat x"
proof -
  have "unat x < 2 ^ LENGTH('b)"
    using unsigned_less [of x] assms by (meson less_le_trans one_le_numeral power_increasing)
  then show ?thesis by (simp only: ucast_of_unat unat_of_nat_small)
qed

lemma unat_ucast_le: "unat (ucast (x :: 'a::len word) :: 'b::len word) \<le> unat x"
  by (simp only: ucast_of_unat unat_of_nat mod_less_eq_dividend)

lemma unat_lt: "unat (x :: 'a::len word) < 2 ^ LENGTH('a)"
  by (rule unsigned_less)

lemma bit_iff_odd_unat:
  fixes x :: "'a::len word"
  shows "bit x n \<longleftrightarrow> odd (unat x div 2 ^ n)"
proof -
  have "bit x n \<longleftrightarrow> bit (unat x) n" by (simp add: bit_unsigned_iff)
  then show ?thesis by (simp only: bit_iff_odd)
qed

lemma drop_bit_le_word:
  fixes x :: "'a::len word"
  shows "drop_bit n x \<le> x"
  by (simp add: word_le_nat_alt unat_drop_bit)

lemma unat_plus_1:
  fixes x :: "'a::len word"
  assumes "x < y"
  shows "unat (x + 1) = Suc (unat x)"
proof -
  have "unat x < unat y" using assms by (simp add: word_less_nat_alt)
  moreover have "unat y < 2 ^ LENGTH('a)" by (rule unat_lt)
  ultimately have "unat x + 1 < 2 ^ LENGTH('a)" by linarith
  then show ?thesis by (simp add: unat_word_ariths)
qed

lemma and_split_add:
  fixes x :: "'a::len word"
  shows "(x AND m) + (x AND NOT m) = x"
proof -
  have "(x AND m) + (x AND NOT m) = (x AND m) OR (x AND NOT m)"
    by (rule disjunctive_add) (simp add: bit_simps)
  also have "\<dots> = x"
    by (rule bit_word_eqI) (auto simp: bit_simps)
  finally show ?thesis .
qed

lemma and_not_eq_diff:
  fixes x :: "'a::len word"
  shows "x AND NOT m = x - (x AND m)"
  using and_split_add [of x m] by (metis add_diff_cancel_left')

lemma unat_and_not [word_bits]:
  fixes x :: "'a::len word"
  shows "unat (x AND NOT m) = unat x - unat (x AND m)"
proof -
  have "x AND m \<le> x" by (rule word_and_le2)
  then show ?thesis by (simp add: and_not_eq_diff unat_sub)
qed

lemma unat_eq_0 [simp]: "unat (x :: 'a::len word) = 0 \<longleftrightarrow> x = 0"
  by (simp add: word_unat_eq_iff)

lemma div_eq_1_bounds:
  fixes n d :: nat
  assumes "n div d = 1"
  shows "d \<le> n" and "n < 2 * d"
proof -
  have "d \<noteq> 0" using assms by (intro notI) simp
  then have "n mod d < d" by simp
  moreover have "n = d + n mod d" using mult_div_mod_eq [of d n] assms by simp
  ultimately show "d \<le> n" and "n < 2 * d" by linarith+
qed

lemma pow2_le_unat_exp:
  fixes x :: "'a::len word"
  assumes "2 ^ r \<le> unat x"
  shows "r < LENGTH('a)"
proof -
  have "(2::nat) ^ r < 2 ^ LENGTH('a)" using assms unat_lt [of x] by linarith
  then show ?thesis by simp
qed

section \<open>Lists\<close>

lemma take_Suc_nth: "n < length xs \<Longrightarrow> take (Suc n) xs = take n xs @ [xs ! n]"
  by (rule take_Suc_conv_app_nth)

end
