(* ===== verification/Errno.thy ===== *)
theory Errno
  imports Kernel_Prelude
begin

text \<open>
  The error codes of \<^verbatim>\<open>include/misc/errno.h\<close>, error codes carried in pointers, and the messages of
  \<^verbatim>\<open>src/misc/errno.c\<close>. A function that fails returns the negated code.
\<close>

section \<open>Codes\<close>

definition ERR_OK :: int where "ERR_OK = 0"
definition EPERM :: int where "EPERM = 1"
definition ENOENT :: int where "ENOENT = 2"
definition ESRCH :: int where "ESRCH = 3"
definition EINTR :: int where "EINTR = 4"
definition EIO :: int where "EIO = 5"
definition ENXIO :: int where "ENXIO = 6"
definition E2BIG :: int where "E2BIG = 7"
definition ENOEXEC :: int where "ENOEXEC = 8"
definition EBADF :: int where "EBADF = 9"
definition ECHILD :: int where "ECHILD = 10"
definition EAGAIN :: int where "EAGAIN = 11"
definition ENOMEM :: int where "ENOMEM = 12"
definition EACCES :: int where "EACCES = 13"
definition EFAULT :: int where "EFAULT = 14"
definition ENOTBLK :: int where "ENOTBLK = 15"
definition EBUSY :: int where "EBUSY = 16"
definition EEXIST :: int where "EEXIST = 17"
definition EXDEV :: int where "EXDEV = 18"
definition ENODEV :: int where "ENODEV = 19"
definition ENOTDIR :: int where "ENOTDIR = 20"
definition EISDIR :: int where "EISDIR = 21"
definition EINVAL :: int where "EINVAL = 22"
definition ENFILE :: int where "ENFILE = 23"
definition EMFILE :: int where "EMFILE = 24"
definition ENOTTY :: int where "ENOTTY = 25"
definition ETXTBSY :: int where "ETXTBSY = 26"
definition EFBIG :: int where "EFBIG = 27"
definition ENOSPC :: int where "ENOSPC = 28"
definition ESPIPE :: int where "ESPIPE = 29"
definition EROFS :: int where "EROFS = 30"
definition EMLINK :: int where "EMLINK = 31"
definition EPIPE :: int where "EPIPE = 32"
definition EDOM :: int where "EDOM = 33"
definition ERANGE :: int where "ERANGE = 34"
definition EDEADLK :: int where "EDEADLK = 35"
definition ENAMETOOLONG :: int where "ENAMETOOLONG = 36"
definition ENOLCK :: int where "ENOLCK = 37"
definition ENOSYS :: int where "ENOSYS = 38"
definition ENOTEMPTY :: int where "ENOTEMPTY = 39"
definition ELOOP :: int where "ELOOP = 40"
definition EWOULDBLOCK :: int where "EWOULDBLOCK = EAGAIN"
definition ENOMSG :: int where "ENOMSG = 42"
definition EIDRM :: int where "EIDRM = 43"
definition ECHRNG :: int where "ECHRNG = 44"
definition EL2NSYNC :: int where "EL2NSYNC = 45"
definition EL3HLT :: int where "EL3HLT = 46"
definition EL3RST :: int where "EL3RST = 47"
definition ELNRNG :: int where "ELNRNG = 48"
definition EUNATCH :: int where "EUNATCH = 49"
definition ENOCSI :: int where "ENOCSI = 50"
definition EL2HLT :: int where "EL2HLT = 51"
definition EBADE :: int where "EBADE = 52"
definition EBADR :: int where "EBADR = 53"
definition EXFULL :: int where "EXFULL = 54"
definition ENOANO :: int where "ENOANO = 55"
definition EBADRQC :: int where "EBADRQC = 56"
definition EBADSLT :: int where "EBADSLT = 57"
definition EBFONT :: int where "EBFONT = 59"
definition ENOSTR :: int where "ENOSTR = 60"
definition ENODATA :: int where "ENODATA = 61"
definition ETIME :: int where "ETIME = 62"
definition ENOSR :: int where "ENOSR = 63"
definition ENONET :: int where "ENONET = 64"
definition ENOPKG :: int where "ENOPKG = 65"
definition EREMOTE :: int where "EREMOTE = 66"
definition ENOLINK :: int where "ENOLINK = 67"
definition EADV :: int where "EADV = 68"
definition ESRMNT :: int where "ESRMNT = 69"
definition ECOMM :: int where "ECOMM = 70"
definition EPROTO :: int where "EPROTO = 71"
definition EMULTIHOP :: int where "EMULTIHOP = 72"
definition EDOTDOT :: int where "EDOTDOT = 73"
definition EBADMSG :: int where "EBADMSG = 74"
definition EOVERFLOW :: int where "EOVERFLOW = 75"
definition ENOTUNIQ :: int where "ENOTUNIQ = 76"
definition EBADFD :: int where "EBADFD = 77"
definition EREMCHG :: int where "EREMCHG = 78"
definition ELIBACC :: int where "ELIBACC = 79"
definition ELIBBAD :: int where "ELIBBAD = 80"
definition ELIBSCN :: int where "ELIBSCN = 81"
definition ELIBMAX :: int where "ELIBMAX = 82"
definition ELIBEXEC :: int where "ELIBEXEC = 83"
definition EILSEQ :: int where "EILSEQ = 84"
definition ERESTART :: int where "ERESTART = 85"
definition ESTRPIPE :: int where "ESTRPIPE = 86"
definition EUSERS :: int where "EUSERS = 87"
definition ENOTSOCK :: int where "ENOTSOCK = 88"
definition EDESTADDRREQ :: int where "EDESTADDRREQ = 89"
definition EMSGSIZE :: int where "EMSGSIZE = 90"
definition EPROTOTYPE :: int where "EPROTOTYPE = 91"
definition ENOPROTOOPT :: int where "ENOPROTOOPT = 92"
definition EPROTONOSUPPORT :: int where "EPROTONOSUPPORT = 93"
definition ESOCKTNOSUPPORT :: int where "ESOCKTNOSUPPORT = 94"
definition EOPNOTSUPP :: int where "EOPNOTSUPP = 95"
definition EPFNOSUPPORT :: int where "EPFNOSUPPORT = 96"
definition EAFNOSUPPORT :: int where "EAFNOSUPPORT = 97"
definition EADDRINUSE :: int where "EADDRINUSE = 98"
definition EADDRNOTAVAIL :: int where "EADDRNOTAVAIL = 99"
definition ENETDOWN :: int where "ENETDOWN = 100"
definition ENETUNREACH :: int where "ENETUNREACH = 101"
definition ENETRESET :: int where "ENETRESET = 102"
definition ECONNABORTED :: int where "ECONNABORTED = 103"
definition ECONNRESET :: int where "ECONNRESET = 104"
definition ENOBUFS :: int where "ENOBUFS = 105"
definition EISCONN :: int where "EISCONN = 106"
definition ENOTCONN :: int where "ENOTCONN = 107"
definition ESHUTDOWN :: int where "ESHUTDOWN = 108"
definition ETOOMANYREFS :: int where "ETOOMANYREFS = 109"
definition ETIMEDOUT :: int where "ETIMEDOUT = 110"
definition ECONNREFUSED :: int where "ECONNREFUSED = 111"
definition EHOSTDOWN :: int where "EHOSTDOWN = 112"
definition EHOSTUNREACH :: int where "EHOSTUNREACH = 113"
definition EALREADY :: int where "EALREADY = 114"
definition EINPROGRESS :: int where "EINPROGRESS = 115"
definition ESTALE :: int where "ESTALE = 116"
definition EUCLEAN :: int where "EUCLEAN = 117"
definition ENOTNAM :: int where "ENOTNAM = 118"
definition ENAVAIL :: int where "ENAVAIL = 119"
definition EISNAM :: int where "EISNAM = 120"
definition EREMOTEIO :: int where "EREMOTEIO = 121"
definition EDQUOT :: int where "EDQUOT = 122"
definition ENOMEDIUM :: int where "ENOMEDIUM = 123"
definition EMEDIUMTYPE :: int where "EMEDIUMTYPE = 124"

section \<open>Error pointers\<close>

definition MAX_ERRNO :: int where "MAX_ERRNO = 4095"

definition IS_ERR :: "addr \<Rightarrow> bool" where
  "IS_ERR ptr \<longleftrightarrow> word_of_int (- MAX_ERRNO) \<le> ptr"

definition PTR_ERR :: "addr \<Rightarrow> int" where
  "PTR_ERR ptr = sint ptr"

definition PTR :: "int \<Rightarrow> addr" where
  "PTR err = word_of_int err"

definition PTR_ERR_OR_ZERO :: "addr \<Rightarrow> int" where
  "PTR_ERR_OR_ZERO ptr = (if IS_ERR ptr then PTR_ERR ptr else 0)"

section \<open>Messages\<close>

record error_info =
  err_code :: int
  err_name :: string
  err_desc :: string

definition error_table :: "error_info list" where
  "error_table =
    [\<lparr>err_code = ERR_OK, err_name = ''ERR_OK'', err_desc = ''Success''\<rparr>,
     \<lparr>err_code = EPERM, err_name = ''ERR_EPERM'', err_desc = ''Operation not permitted''\<rparr>,
     \<lparr>err_code = ENOENT, err_name = ''ERR_ENOENT'', err_desc = ''No such file or directory''\<rparr>,
     \<lparr>err_code = ESRCH, err_name = ''ERR_ESRCH'', err_desc = ''No such process''\<rparr>,
     \<lparr>err_code = EINTR, err_name = ''ERR_EINTR'', err_desc = ''Interrupted system call''\<rparr>,
     \<lparr>err_code = EIO, err_name = ''ERR_EIO'', err_desc = ''Input/output error''\<rparr>,
     \<lparr>err_code = ENXIO, err_name = ''ERR_ENXIO'', err_desc = ''No such device or address''\<rparr>,
     \<lparr>err_code = E2BIG, err_name = ''ERR_E2BIG'', err_desc = ''Argument list too long''\<rparr>,
     \<lparr>err_code = ENOEXEC, err_name = ''ERR_ENOEXEC'', err_desc = ''Exec format error''\<rparr>,
     \<lparr>err_code = EBADF, err_name = ''ERR_EBADF'', err_desc = ''Bad file descriptor''\<rparr>,
     \<lparr>err_code = ECHILD, err_name = ''ERR_ECHILD'', err_desc = ''No child processes''\<rparr>,
     \<lparr>err_code = EAGAIN, err_name = ''ERR_EAGAIN'', err_desc = ''Resource temporarily unavailable''\<rparr>,
     \<lparr>err_code = ENOMEM, err_name = ''ERR_ENOMEM'', err_desc = ''Cannot allocate memory''\<rparr>,
     \<lparr>err_code = EACCES, err_name = ''ERR_EACCES'', err_desc = ''Permission denied''\<rparr>,
     \<lparr>err_code = EFAULT, err_name = ''ERR_EFAULT'', err_desc = ''Bad address''\<rparr>,
     \<lparr>err_code = ENOTBLK, err_name = ''ERR_ENOTBLK'', err_desc = ''Block device required''\<rparr>,
     \<lparr>err_code = EBUSY, err_name = ''ERR_EBUSY'', err_desc = ''Device or resource busy''\<rparr>,
     \<lparr>err_code = EEXIST, err_name = ''ERR_EEXIST'', err_desc = ''File exists''\<rparr>,
     \<lparr>err_code = EXDEV, err_name = ''ERR_EXDEV'', err_desc = ''Invalid cross-device link''\<rparr>,
     \<lparr>err_code = ENODEV, err_name = ''ERR_ENODEV'', err_desc = ''No such device''\<rparr>,
     \<lparr>err_code = ENOTDIR, err_name = ''ERR_ENOTDIR'', err_desc = ''Not a directory''\<rparr>,
     \<lparr>err_code = EISDIR, err_name = ''ERR_EISDIR'', err_desc = ''Is a directory''\<rparr>,
     \<lparr>err_code = EINVAL, err_name = ''ERR_EINVAL'', err_desc = ''Invalid argument''\<rparr>,
     \<lparr>err_code = ENFILE, err_name = ''ERR_ENFILE'', err_desc = ''Too many open files in system''\<rparr>,
     \<lparr>err_code = EMFILE, err_name = ''ERR_EMFILE'', err_desc = ''Too many open files''\<rparr>,
     \<lparr>err_code = ENOTTY, err_name = ''ERR_ENOTTY'', err_desc = ''Inappropriate ioctl for device''\<rparr>,
     \<lparr>err_code = ETXTBSY, err_name = ''ERR_ETXTBSY'', err_desc = ''Text file busy''\<rparr>,
     \<lparr>err_code = EFBIG, err_name = ''ERR_EFBIG'', err_desc = ''File too large''\<rparr>,
     \<lparr>err_code = ENOSPC, err_name = ''ERR_ENOSPC'', err_desc = ''No space left on device''\<rparr>,
     \<lparr>err_code = ESPIPE, err_name = ''ERR_ESPIPE'', err_desc = ''Illegal seek''\<rparr>,
     \<lparr>err_code = EROFS, err_name = ''ERR_EROFS'', err_desc = ''Read-only file system''\<rparr>,
     \<lparr>err_code = EMLINK, err_name = ''ERR_EMLINK'', err_desc = ''Too many links''\<rparr>,
     \<lparr>err_code = EPIPE, err_name = ''ERR_EPIPE'', err_desc = ''Broken pipe''\<rparr>,
     \<lparr>err_code = EDOM, err_name = ''ERR_EDOM'', err_desc = ''Numerical argument out of domain''\<rparr>,
     \<lparr>err_code = ERANGE, err_name = ''ERR_ERANGE'', err_desc = ''Numerical result out of range''\<rparr>,
     \<lparr>err_code = EDEADLK, err_name = ''ERR_EDEADLK'', err_desc = ''Resource deadlock avoided''\<rparr>,
     \<lparr>err_code = ENAMETOOLONG, err_name = ''ERR_ENAMETOOLONG'', err_desc = ''File name too long''\<rparr>,
     \<lparr>err_code = ENOLCK, err_name = ''ERR_ENOLCK'', err_desc = ''No locks available''\<rparr>,
     \<lparr>err_code = ENOSYS, err_name = ''ERR_ENOSYS'', err_desc = ''Function not implemented''\<rparr>,
     \<lparr>err_code = ENOTEMPTY, err_name = ''ERR_ENOTEMPTY'', err_desc = ''Directory not empty''\<rparr>,
     \<lparr>err_code = ELOOP, err_name = ''ERR_ELOOP'', err_desc = ''Too many levels of symbolic links''\<rparr>,
     \<lparr>err_code = ENOMSG, err_name = ''ERR_ENOMSG'', err_desc = ''No message of desired type''\<rparr>,
     \<lparr>err_code = EIDRM, err_name = ''ERR_EIDRM'', err_desc = ''Identifier removed''\<rparr>]"

definition find_error :: "int \<Rightarrow> error_info option" where
  "find_error errnum =
     (let errnum = (if errnum < 0 then - errnum else errnum)
      in find (\<lambda>e. err_code e = errnum) error_table)"

definition strerror :: "int \<Rightarrow> string" where
  "strerror errnum = (case find_error errnum of Some e \<Rightarrow> err_desc e | None \<Rightarrow> ''Unknown error'')"

definition get_error_name :: "int \<Rightarrow> string" where
  "get_error_name errnum = (case find_error errnum of Some e \<Rightarrow> err_name e | None \<Rightarrow> ''ERR_UNKNOWN'')"

text \<open>The line that \<^verbatim>\<open>print_error\<close> passes to \<^verbatim>\<open>errorf\<close>; a null prefix is \<open>None\<close>.\<close>

definition print_error :: "string option \<Rightarrow> int \<Rightarrow> string" where
  "print_error prefix errnum =
     (let msg = strerror errnum @ '' ('' @ get_error_name errnum @ '')\<newline>''
      in case prefix of Some p \<Rightarrow> p @ '': '' @ msg | None \<Rightarrow> msg)"

section \<open>Facts\<close>

lemma MAX_ERRNO_word: "(word_of_int (- MAX_ERRNO) :: addr) = - 4095"
  by (simp add: MAX_ERRNO_def)

lemma IS_ERR_iff: "IS_ERR ptr \<longleftrightarrow> 2 ^ 64 - 4095 \<le> unat ptr"
  by (simp only: IS_ERR_def MAX_ERRNO_word word_le_nat_alt) simp

lemma IS_ERR_PTR:
  assumes "1 \<le> e" and "e \<le> MAX_ERRNO"
  shows "IS_ERR (PTR (- e))"
proof -
  have "uint (PTR (- e)) = 2 ^ 64 - e"
    unfolding PTR_def uint_word_of_int
    using assms by (simp add: MAX_ERRNO_def zmod_zminus1_eq_if)
  then have "unat (PTR (- e)) = nat (2 ^ 64 - e)" by (metis unat_eq_nat_uint)
  then show ?thesis using assms by (simp add: IS_ERR_iff MAX_ERRNO_def)
qed

lemma PTR_ERR_PTR:
  assumes "- (2 ^ 63) \<le> e" and "e < 2 ^ 63"
  shows "PTR_ERR (PTR e) = e"
  using assms by (simp add: PTR_ERR_def PTR_def signed_of_int signed_take_bit_int_eq_self)

lemma not_IS_ERR_NULL [simp]: "\<not> IS_ERR NULL"
  by (simp add: IS_ERR_iff)

end
