(* ===== verification/Align_Math.thy ===== *)
theory Align_Math
  imports Kernel_Prelude
begin

text \<open>
  The configuration constants of \<^verbatim>\<open>include/config.h\<close> and
  \<^verbatim>\<open>include/platform/qemu_virt.h\<close>, the alignment macros of \<^verbatim>\<open>include/misc/stddef.h\<close>
  and \<^verbatim>\<open>include/misc/align.h\<close>, \<^verbatim>\<open>log2_ceil\<close> of \<^verbatim>\<open>include/misc/math.h\<close>, the byte
  swaps of \<^verbatim>\<open>include/misc/endian.h\<close> and the time conversions of
  \<^verbatim>\<open>include/misc/cputime.h\<close>. The lemmas characterise alignment on the address space by
  division, and show that \<^verbatim>\<open>log2_ceil\<close> computes the rounded-up binary logarithm.
\<close>

section \<open>Configuration\<close>

definition CPU_NUM :: nat where "CPU_NUM = 1"
definition TIMEBASE_FREQ :: u64 where "TIMEBASE_FREQ = 10000000"
definition MEM_SIZE :: u64 where "MEM_SIZE = 128 * 1024 * 1024"
definition PM_START :: u64 where "PM_START = 0x80000000"
definition TIMER_IRQ_HZ :: u64 where "TIMER_IRQ_HZ = 100"
definition PAGE_SHIFT :: nat where "PAGE_SHIFT = 12"
definition PAGE_SIZE :: u64 where "PAGE_SIZE = push_bit PAGE_SHIFT 1"
definition PAGE_NUM :: u64 where "PAGE_NUM = MEM_SIZE div PAGE_SIZE"
definition PM_END :: u64 where "PM_END = PM_START + MEM_SIZE"
definition SLAB_BLOB_SIZE :: u64 where "SLAB_BLOB_SIZE = 16 * PAGE_SIZE"
definition EARLY_HEAP_SIZE :: u64 where "EARLY_HEAP_SIZE = PAGE_SIZE"
definition BUDDY_MAX_ORDER :: nat where "BUDDY_MAX_ORDER = 11"
definition BUDDY_BLOB_SIZE :: u64 where "BUDDY_BLOB_SIZE = push_bit BUDDY_MAX_ORDER 1 * PAGE_SIZE"
definition BLOCK_SIZE :: nat where "BLOCK_SIZE = 512"
definition BCACHE_SIZE :: nat where "BCACHE_SIZE = 128"
definition BCACHE_HASH_SIZE :: nat where "BCACHE_HASH_SIZE = 17"
definition VIRTQ_SIZE :: nat where "VIRTQ_SIZE = 32"

lemma config_values:
  "PAGE_SIZE = 4096" "PAGE_NUM = 32768" "PM_END = 0x88000000" "SLAB_BLOB_SIZE = 65536"
  "BUDDY_BLOB_SIZE = 8388608" "EARLY_HEAP_SIZE = 4096" "PM_START = 0x80000000"
  by (simp_all add: PAGE_SIZE_def PAGE_SHIFT_def PAGE_NUM_def MEM_SIZE_def PM_END_def
      PM_START_def SLAB_BLOB_SIZE_def BUDDY_BLOB_SIZE_def BUDDY_MAX_ORDER_def
      EARLY_HEAP_SIZE_def push_bit_eq_mult)

section \<open>Alignment\<close>

definition ALIGN_UP :: "u64 \<Rightarrow> u64 \<Rightarrow> u64" where
  "ALIGN_UP x n = (x + n - 1) AND NOT (n - 1)"

definition ALIGN_DOWN :: "u64 \<Rightarrow> u64 \<Rightarrow> u64" where
  "ALIGN_DOWN x n = x AND NOT (n - 1)"

definition ALIGNED :: "u64 \<Rightarrow> u64 \<Rightarrow> bool" where
  "ALIGNED x n \<longleftrightarrow> x AND (n - 1) = 0"

abbreviation PAGE_ALIGN_UP :: "u64 \<Rightarrow> u64" where
  "PAGE_ALIGN_UP a \<equiv> ALIGN_UP a PAGE_SIZE"

abbreviation PAGE_ALIGN_DOWN :: "u64 \<Rightarrow> u64" where
  "PAGE_ALIGN_DOWN a \<equiv> ALIGN_DOWN a PAGE_SIZE"

abbreviation PAGE_ALIGNED :: "u64 \<Rightarrow> bool" where
  "PAGE_ALIGNED a \<equiv> ALIGNED a PAGE_SIZE"

abbreviation SLAB_ALIGN_DOWN :: "u64 \<Rightarrow> u64" where
  "SLAB_ALIGN_DOWN a \<equiv> ALIGN_DOWN a SLAB_BLOB_SIZE"

abbreviation BUDDY_ALIGN_UP :: "u64 \<Rightarrow> u64" where
  "BUDDY_ALIGN_UP a \<equiv> ALIGN_UP a BUDDY_BLOB_SIZE"

abbreviation BUDDY_ALIGN_DOWN :: "u64 \<Rightarrow> u64" where
  "BUDDY_ALIGN_DOWN a \<equiv> ALIGN_DOWN a BUDDY_BLOB_SIZE"

text \<open>For a power of two the mask arithmetic is division by that power.\<close>

lemma pow2_minus_1_mask: "(2 ^ k - 1 :: u64) = mask k"
  by (simp add: mask_eq_exp_minus_1)

lemma ALIGN_DOWN_unat:
  "unat (ALIGN_DOWN x (2 ^ k)) = unat x div 2 ^ k * 2 ^ k"
  by (simp add: ALIGN_DOWN_def pow2_minus_1_mask unat_and_not unat_and_mask minus_mod_eq_div_mult)

lemma ALIGNED_iff_dvd: "ALIGNED x (2 ^ k) \<longleftrightarrow> 2 ^ k dvd unat x"
proof -
  have "x AND mask k = 0 \<longleftrightarrow> unat (x AND mask k) = 0" by (simp only: unat_eq_0)
  then show ?thesis
    by (simp add: ALIGNED_def pow2_minus_1_mask unat_and_mask mod_eq_0_iff_dvd)
qed

text \<open>
  Rounding up never goes below its argument, for any \<open>n\<close>, a power of two or not, as long as
  the addition does not wrap; it adds less than \<open>n\<close>.
\<close>

lemma ALIGN_UP_bounds:
  assumes "0 < n" and "unat x + unat n \<le> 2 ^ 64"
  shows "x \<le> ALIGN_UP x n" and "unat (ALIGN_UP x n) < unat x + unat n"
proof -
  define m where "m = n - 1"
  have m: "unat m = unat n - 1"
    using assms(1) by (simp add: m_def unat_sub word_less_nat_alt word_le_nat_alt)
  have n1: "1 \<le> unat n" using assms(1) by (simp add: word_less_nat_alt)
  have sum: "unat (x + m) = unat x + (unat n - 1)"
    using assms(2) n1 m by (subst unat_add_lem [THEN iffD1]) auto
  have up: "ALIGN_UP x n = (x + m) AND NOT m"
    by (simp add: ALIGN_UP_def m_def algebra_simps)
  have le: "unat ((x + m) AND m) \<le> unat n - 1"
    using word_and_le1 [of "x + m" m] m by (simp add: word_le_nat_alt)
  show "x \<le> ALIGN_UP x n"
    using le sum by (simp add: up word_le_nat_alt unat_and_not)
  show "unat (ALIGN_UP x n) < unat x + unat n"
    using sum n1 by (simp add: up unat_and_not)
qed

section \<open>The rounded-up binary logarithm\<close>

text \<open>
  \<^verbatim>\<open>log2_ceil\<close> halves the search range six times; each \<^verbatim>\<open>if\<close> of the source is one rebinding
  of the pair of the result so far and the shifted value.
\<close>

definition log2_ceil :: "u64 \<Rightarrow> int" where
  "log2_ceil sz =
     (if sz = 0 then - 1
      else
        let (r, value) = (0, sz);
            (r, value) = (if value \<ge> 0x100000000 then (r + 32, drop_bit 32 value) else (r, value));
            (r, value) = (if value \<ge> 0x10000 then (r + 16, drop_bit 16 value) else (r, value));
            (r, value) = (if value \<ge> 0x100 then (r + 8, drop_bit 8 value) else (r, value));
            (r, value) = (if value \<ge> 0x10 then (r + 4, drop_bit 4 value) else (r, value));
            (r, value) = (if value \<ge> 0x4 then (r + 2, drop_bit 2 value) else (r, value));
            r = (if value \<ge> 0x2 then r + 1 else r)
        in if sz AND (sz - 1) \<noteq> 0 then r + 1 else r)"

text \<open>One halving step, on naturals, keeps the position of the highest set bit.\<close>

definition halve :: "nat \<Rightarrow> nat \<times> u64 \<Rightarrow> nat \<times> u64" where
  "halve b = (\<lambda>(r, v). if 2 ^ b \<le> unat v then (r + b, drop_bit b v) else (r, v))"

definition top_at :: "u64 \<Rightarrow> nat \<Rightarrow> nat \<times> u64 \<Rightarrow> bool" where
  "top_at sz b = (\<lambda>(r, v). unat v = unat sz div 2 ^ r \<and> 0 < unat v \<and> unat v < 2 ^ b)"

lemma halve_top_at:
  assumes "top_at sz (2 * b) p"
  shows "top_at sz b (halve b p)"
proof -
  obtain r v where p: "p = (r, v)" by (cases p)
  have v: "unat v = unat sz div 2 ^ r" "0 < unat v" "unat v < 2 ^ (2 * b)"
    using assms by (auto simp: top_at_def p)
  show ?thesis
  proof (cases "2 ^ b \<le> unat v")
    case True
    have "unat v div 2 ^ b < 2 ^ b"
      using v(3) by (simp add: less_mult_imp_div_less mult_2 power_add)
    moreover have "0 < unat v div 2 ^ b" using True by (simp add: div_greater_zero_iff)
    moreover have "unat v div 2 ^ b = unat sz div 2 ^ (r + b)"
      by (simp add: v(1) power_add div_mult2_eq)
    ultimately show ?thesis using True
      by (simp add: top_at_def halve_def p unat_drop_bit)
  qed (use v in \<open>simp add: top_at_def halve_def p\<close>)
qed

lemma halve_int:
  assumes "halve b (r, v) = (r2, v2)" and "ri = int r" and "c = int b"
    and "k = (2 ^ b :: u64)" and "b < 64"
  shows "(if k \<le> v then (ri + c, drop_bit b v) else (ri, v)) = (int r2, v2)"
  using assms by (auto simp: halve_def word_le_nat_alt unat_pow2 split: if_splits)

lemma log2_ceil_halve:
  assumes "sz \<noteq> 0"
  shows "log2_ceil sz =
    (let r = fst (halve 1 (halve 2 (halve 4 (halve 8 (halve 16 (halve 32 (0, sz)))))))
     in if sz AND (sz - 1) \<noteq> 0 then int r + 1 else int r)"
proof -
  obtain r1 v1 where 1: "halve 32 (0, sz) = (r1, v1)" by (cases "halve 32 (0, sz)")
  obtain r2 v2 where 2: "halve 16 (r1, v1) = (r2, v2)" by (cases "halve 16 (r1, v1)")
  obtain r3 v3 where 3: "halve 8 (r2, v2) = (r3, v3)" by (cases "halve 8 (r2, v2)")
  obtain r4 v4 where 4: "halve 4 (r3, v3) = (r4, v4)" by (cases "halve 4 (r3, v3)")
  obtain r5 v5 where 5: "halve 2 (r4, v4) = (r5, v5)" by (cases "halve 2 (r4, v4)")
  note hs = halve_int [OF 1, of 0 32 "0x100000000"] halve_int [OF 2, of "int r1" 16 "0x10000"]
    halve_int [OF 3, of "int r2" 8 "0x100"] halve_int [OF 4, of "int r3" 4 "0x10"]
    halve_int [OF 5, of "int r4" 2 "0x4"]
  have last: "(if 0x2 \<le> v5 then int r5 + 1 else int r5) = int (fst (halve 1 (r5, v5)))"
    by (simp add: halve_def word_le_nat_alt)
  have "log2_ceil sz =
    (if sz AND (sz - 1) \<noteq> 0 then (if 0x2 \<le> v5 then int r5 + 1 else int r5) + 1
     else (if 0x2 \<le> v5 then int r5 + 1 else int r5))"
    unfolding log2_ceil_def using assms
    by (simp only: Let_def hs prod.case if_False simp_thms) (simp add: hs split del: if_split)
  then show ?thesis
    by (simp only: last 1 2 3 4 5 Let_def)
qed

lemma floor_part:
  assumes "sz \<noteq> 0"
    and "r = fst (halve 1 (halve 2 (halve 4 (halve 8 (halve 16 (halve 32 (0, sz)))))))"
  shows "unat sz div 2 ^ r = 1"
proof -
  have "top_at sz 64 (0, sz)"
    using assms(1) unat_lt [of sz] by (simp add: top_at_def unat_gt_0)
  then have "top_at sz 1 (halve 1 (halve 2 (halve 4 (halve 8 (halve 16 (halve 32 (0, sz)))))))"
    using halve_top_at [of sz 32] halve_top_at [of sz 16] halve_top_at [of sz 8]
      halve_top_at [of sz 4] halve_top_at [of sz 2] halve_top_at [of sz 1]
    by simp
  then show ?thesis
    by (auto simp: top_at_def assms(2) split: prod.splits)
qed

text \<open>The test \<^verbatim>\<open>size & (size - 1)\<close> recognises the powers of two.\<close>

lemma and_minus_1_eq_0_iff:
  fixes sz :: u64
  assumes "unat sz div 2 ^ r = 1"
  shows "sz AND (sz - 1) = 0 \<longleftrightarrow> unat sz = 2 ^ r"
proof -
  have le: "2 ^ r \<le> unat sz" and lt: "unat sz < 2 * 2 ^ r"
    using div_eq_1_bounds [OF assms] by auto
  have r: "r < 64" using pow2_le_unat_exp [OF le] by simp
  show ?thesis
  proof
    assume z: "sz AND (sz - 1) = 0"
    show "unat sz = 2 ^ r"
    proof (rule ccontr)
      assume "unat sz \<noteq> 2 ^ r"
      with le have gt: "2 ^ r < unat sz" by simp
      then have "unat (sz - 1) = unat sz - 1"
        by (subst unat_sub) (auto simp: word_le_nat_alt)
      with gt lt have "unat (sz - 1) div 2 ^ r = 1"
        by (intro div_nat_eqI) auto
      then have "bit (sz - 1) r" and "bit sz r"
        using assms by (simp_all add: bit_iff_odd_unat)
      then have "bit (sz AND (sz - 1)) r" by (simp add: bit_simps)
      with z show False by simp
    qed
  next
    assume "unat sz = 2 ^ r"
    then have "sz = 2 ^ r" using r by (simp add: word_unat_eq_iff unat_pow2)
    then show "sz AND (sz - 1) = 0"
      by (intro bit_word_eqI) (simp add: pow2_minus_1_mask bit_simps)
  qed
qed

lemma log2_ceil_0: "log2_ceil 0 = - 1"
  by (simp add: log2_ceil_def)

lemma log2_ceil_bounds:
  assumes "sz \<noteq> 0"
  obtains k where "log2_ceil sz = int k" and "unat sz \<le> 2 ^ k"
    and "k = 0 \<or> 2 ^ (k - 1) < unat sz" and "k \<le> 64"
proof -
  define r where "r = fst (halve 1 (halve 2 (halve 4 (halve 8 (halve 16 (halve 32 (0, sz)))))))"
  have d: "unat sz div 2 ^ r = 1"
    by (rule floor_part [OF assms r_def])
  have le: "2 ^ r \<le> unat sz" and lt: "unat sz < 2 * 2 ^ r"
    using div_eq_1_bounds [OF d] by auto
  have r: "r < 64" using pow2_le_unat_exp [OF le] by simp
  show thesis
  proof (cases "sz AND (sz - 1) = 0")
    case True
    then have "unat sz = 2 ^ r" using and_minus_1_eq_0_iff [OF d] by simp
    moreover have "log2_ceil sz = int r"
      using True by (simp add: log2_ceil_halve [OF assms] r_def)
    ultimately show thesis using r by (intro that [of r]) (auto simp: power_strict_increasing_iff)
  next
    case False
    then have "unat sz \<noteq> 2 ^ r" using and_minus_1_eq_0_iff [OF d] by simp
    with le have "2 ^ r < unat sz" by simp
    moreover have "log2_ceil sz = int (Suc r)"
      using False by (simp add: log2_ceil_halve [OF assms] r_def)
    moreover have "unat sz \<le> 2 ^ Suc r" using lt by simp
    ultimately show thesis using r by (intro that [of "Suc r"]) auto
  qed
qed

text \<open>\<open>log2_ceil\<close> returns the least exponent whose power of two is at least the size.\<close>

lemma log2_ceil_least:
  assumes "sz \<noteq> 0"
  shows "0 \<le> log2_ceil sz" and "unat sz \<le> 2 ^ nat (log2_ceil sz)"
    and "unat sz \<le> 2 ^ j \<Longrightarrow> log2_ceil sz \<le> int j"
proof -
  obtain k where k: "log2_ceil sz = int k" "unat sz \<le> 2 ^ k"
    "k = 0 \<or> 2 ^ (k - 1) < unat sz" "k \<le> 64"
    using log2_ceil_bounds [OF assms] by blast
  show "0 \<le> log2_ceil sz" and "unat sz \<le> 2 ^ nat (log2_ceil sz)" using k by auto
  assume j: "unat sz \<le> 2 ^ j"
  show "log2_ceil sz \<le> int j"
  proof (cases "k = 0")
    case False
    with k(3) j have "(2::nat) ^ (k - 1) < 2 ^ j" by linarith
    then have "k - 1 < j" by (simp add: power_strict_increasing_iff)
    with k(1) show ?thesis by simp
  qed (use k in simp)
qed

section \<open>Byte order\<close>

definition swap16 :: "u16 \<Rightarrow> u16" where
  "swap16 x = (push_bit 8 x AND 0xff00) OR (drop_bit 8 x AND 0x00ff)"

definition swap32 :: "u32 \<Rightarrow> u32" where
  "swap32 x = (push_bit 24 x AND 0xff000000) OR (push_bit 8 x AND 0x00ff0000) OR
     (drop_bit 8 x AND 0x0000ff00) OR (drop_bit 24 x AND 0x000000ff)"

definition swap64 :: "u64 \<Rightarrow> u64" where
  "swap64 x = (push_bit 56 x AND 0xff00000000000000) OR (push_bit 40 x AND 0x00ff000000000000) OR
     (push_bit 24 x AND 0x0000ff0000000000) OR (push_bit 8 x AND 0x000000ff00000000) OR
     (drop_bit 8 x AND 0x00000000ff000000) OR (drop_bit 24 x AND 0x0000000000ff0000) OR
     (drop_bit 40 x AND 0x000000000000ff00) OR (drop_bit 56 x AND 0x00000000000000ff)"

text \<open>The machine is little-endian, so the big-endian conversions are the swaps.\<close>

abbreviation be32_to_cpu :: "u32 \<Rightarrow> u32" where "be32_to_cpu \<equiv> swap32"
abbreviation be64_to_cpu :: "u64 \<Rightarrow> u64" where "be64_to_cpu \<equiv> swap64"

text \<open>A byte mask at position \<open>t\<close> selects bits \<open>t\<close> to \<open>t + 7\<close> of a shifted word.\<close>

lemma bit_byte_push:
  "bit (push_bit s y AND push_bit t (mask 8) :: 'a::len word) n \<longleftrightarrow>
     t \<le> n \<and> n < t + 8 \<and> n < LENGTH('a) \<and> s \<le> n \<and> bit y (n - s)"
  by (auto simp: bit_simps)

lemma bit_byte_drop:
  "bit (drop_bit s y AND push_bit t (mask 8) :: 'a::len word) n \<longleftrightarrow>
     t \<le> n \<and> n < t + 8 \<and> n < LENGTH('a) \<and> bit y (n + s)"
  by (auto simp: bit_simps ac_simps)

lemma bit_byte_low:
  "bit (drop_bit s y AND mask 8 :: 'a::len word) n \<longleftrightarrow> n < 8 \<and> n < LENGTH('a) \<and> bit y (n + s)"
  using bit_byte_drop [of s y 0 n] by simp

lemma swap32_masks:
  "swap32 x = (push_bit 24 x AND push_bit 24 (mask 8)) OR (push_bit 8 x AND push_bit 16 (mask 8)) OR
     (drop_bit 8 x AND push_bit 8 (mask 8)) OR (drop_bit 24 x AND push_bit 0 (mask 8))"
  by (simp add: swap32_def mask_eq_exp_minus_1 push_bit_eq_mult)

lemma bit_swap32:
  "bit (swap32 x) n \<longleftrightarrow>
     (if n < 8 then bit x (n + 24) else if n < 16 then bit x (n + 8)
      else if n < 24 then bit x (n - 8) else n < 32 \<and> bit x (n - 24))"
  by (auto simp: swap32_masks bit_simps ac_simps)

lemma swap64_masks:
  "swap64 x = (push_bit 56 x AND push_bit 56 (mask 8)) OR (push_bit 40 x AND push_bit 48 (mask 8)) OR
     (push_bit 24 x AND push_bit 40 (mask 8)) OR (push_bit 8 x AND push_bit 32 (mask 8)) OR
     (drop_bit 8 x AND push_bit 24 (mask 8)) OR (drop_bit 24 x AND push_bit 16 (mask 8)) OR
     (drop_bit 40 x AND push_bit 8 (mask 8)) OR (drop_bit 56 x AND push_bit 0 (mask 8))"
  by (simp add: swap64_def mask_eq_exp_minus_1 push_bit_eq_mult)

lemma bit_swap64:
  "bit (swap64 x) n \<longleftrightarrow>
     (if n < 8 then bit x (n + 56) else if n < 16 then bit x (n + 40)
      else if n < 24 then bit x (n + 24) else if n < 32 then bit x (n + 8)
      else if n < 40 then bit x (n - 8) else if n < 48 then bit x (n - 24)
      else if n < 56 then bit x (n - 40) else n < 64 \<and> bit x (n - 56))"
proof -
  consider "n < 8" | "8 \<le> n" "n < 16" | "16 \<le> n" "n < 24" | "24 \<le> n" "n < 32"
    | "32 \<le> n" "n < 40" | "40 \<le> n" "n < 48" | "48 \<le> n" "n < 56" | "56 \<le> n" by fastforce
  then show ?thesis
    by cases (simp_all add: swap64_masks bit_or_iff bit_byte_push bit_byte_drop bit_byte_low)
qed

lemma swap16_masks:
  "swap16 x = (push_bit 8 x AND push_bit 8 (mask 8)) OR (drop_bit 8 x AND push_bit 0 (mask 8))"
  by (simp add: swap16_def mask_eq_exp_minus_1 push_bit_eq_mult)

lemma bit_swap16:
  "bit (swap16 x) n \<longleftrightarrow> (if n < 8 then bit x (n + 8) else n < 16 \<and> bit x (n - 8))"
  by (auto simp: swap16_masks bit_simps ac_simps)

lemma swap16_swap16: "swap16 (swap16 x) = x"
proof (rule bit_word_eqI)
  fix n assume "n < LENGTH(16)"
  then consider "n < 8" | "8 \<le> n" "n < 16" by fastforce
  then show "bit (swap16 (swap16 x)) n \<longleftrightarrow> bit x n" by cases (auto simp: bit_swap16)
qed

lemma swap32_swap32: "swap32 (swap32 x) = x"
proof (rule bit_word_eqI)
  fix n assume "n < LENGTH(32)"
  then consider "n < 8" | "8 \<le> n" "n < 16" | "16 \<le> n" "n < 24" | "24 \<le> n" "n < 32"
    by fastforce
  then show "bit (swap32 (swap32 x)) n \<longleftrightarrow> bit x n" by cases (auto simp: bit_swap32)
qed

lemma swap64_swap64: "swap64 (swap64 x) = x"
proof (rule bit_word_eqI)
  fix n assume "n < LENGTH(64)"
  then consider "n < 8" | "8 \<le> n" "n < 16" | "16 \<le> n" "n < 24" | "24 \<le> n" "n < 32"
    | "32 \<le> n" "n < 40" | "40 \<le> n" "n < 48" | "48 \<le> n" "n < 56" | "56 \<le> n" "n < 64"
    by fastforce
  then show "bit (swap64 (swap64 x)) n \<longleftrightarrow> bit x n" by cases (auto simp: bit_swap64)
qed

section \<open>Time and device numbers\<close>

definition us_to_cputime :: "u64 \<Rightarrow> u64" where
  "us_to_cputime us = us * TIMEBASE_FREQ div 1000000"

definition ms_to_cputime :: "u64 \<Rightarrow> u64" where
  "ms_to_cputime ms = ms * TIMEBASE_FREQ div 1000"

definition cputime_to_us :: "u64 \<Rightarrow> u64" where
  "cputime_to_us cputime = cputime * 1000000 div TIMEBASE_FREQ"

end
