(* ===== verification/Phys_Mem.thy ===== *)
theory Phys_Mem
  imports Errno Align_Math
begin

text \<open>
  Physical memory: the page array and the address arithmetic of \<^verbatim>\<open>src/mm/pm.c\<close>, the layout
  macros of \<^verbatim>\<open>include/mm/layout.h\<close> and the early heap of \<^verbatim>\<open>src/mm/early.c\<close>. The link-time symbols
  \<^verbatim>\<open>skernel\<close>, \<^verbatim>\<open>ekernel\<close> and the address of the array \<^verbatim>\<open>pages\<close> are fields of the state that no
  operation changes. The state record is extended by the allocators built on it.
\<close>

section \<open>Pages and layout\<close>

record page =
  refs :: u32
  flags :: u16
  order :: u8
  priv :: addr

definition PM_BUDDY :: u16 where "PM_BUDDY = 0x01"
definition PM_SLAB :: u16 where "PM_SLAB = 0x02"
definition PM_STATIC :: u16 where "PM_STATIC = 0x04"

record pm =
  skernel :: addr
  ekernel :: addr
  pages_base :: addr
  pages :: "nat \<Rightarrow> page"
  early_brk :: addr
  kalloc_inited :: bool

definition KERNEL_BASE :: "('z) pm_scheme \<Rightarrow> addr" where
  "KERNEL_BASE st = PAGE_ALIGN_DOWN (skernel st)"

definition KERNEL_END :: "('z) pm_scheme \<Rightarrow> addr" where
  "KERNEL_END st = PAGE_ALIGN_UP (ekernel st)"

definition EARLY_HEAP_BASE :: "('z) pm_scheme \<Rightarrow> addr" where
  "EARLY_HEAP_BASE st = PAGE_ALIGN_UP (KERNEL_END st + PAGE_SIZE)"

definition EARLY_HEAP_END :: "('z) pm_scheme \<Rightarrow> addr" where
  "EARLY_HEAP_END st = EARLY_HEAP_BASE st + EARLY_HEAP_SIZE"

definition BUDDY_SYSTEM_BASE :: "('z) pm_scheme \<Rightarrow> addr" where
  "BUDDY_SYSTEM_BASE st = BUDDY_ALIGN_UP (EARLY_HEAP_END st)"

definition BUDDY_SYSTEM_END :: addr where
  "BUDDY_SYSTEM_END = BUDDY_ALIGN_DOWN PM_END"

definition addr2index :: "addr \<Rightarrow> int" where
  "addr2index a =
     (if PM_START \<le> a \<and> a < PM_END then uint ((a - PM_START) div PAGE_SIZE) else - 1)"

definition index2addr :: "int \<Rightarrow> addr" where
  "index2addr i =
     (if 0 \<le> i \<and> i < uint PAGE_NUM then PM_START + of_int i * PAGE_SIZE else NULL)"

text \<open>A page pointer is the index of the page; \<^verbatim>\<open>None\<close> is the null pointer.\<close>

definition addr2page :: "addr \<Rightarrow> nat option" where
  "addr2page a = (let i = addr2index a in if i = - 1 then None else Some (nat i))"

definition sizeof_page :: u64 where "sizeof_page = 16"

text \<open>\<^verbatim>\<open>page2addr\<close> works on the raw pointer into the array at \<^verbatim>\<open>pages_base\<close>.\<close>

definition page_ptr :: "('z) pm_scheme \<Rightarrow> nat \<Rightarrow> addr" where
  "page_ptr st i = pages_base st + of_nat i * sizeof_page"

definition page2addr :: "('z) pm_scheme \<Rightarrow> addr \<Rightarrow> addr" where
  "page2addr st p =
     (if p = NULL \<or> p < page_ptr st 0 \<or> page_ptr st (unat PAGE_NUM - 1) < p \<or>
         \<not> ALIGNED p sizeof_page then NULL
      else index2addr (uint ((p - page_ptr st 0) div sizeof_page)))"

definition upd_page :: "nat \<Rightarrow> (page \<Rightarrow> page) \<Rightarrow> ('z) pm_scheme \<Rightarrow> ('z) pm_scheme" where
  "upd_page i f st = st\<lparr>pages := (pages st)(i := f (pages st i))\<rparr>"

text \<open>A pointer returned by \<^verbatim>\<open>addr2page\<close> and used without a null check.\<close>

definition the_page :: "addr \<Rightarrow> nat res" where
  "the_page a = (case addr2page a of None \<Rightarrow> Inl Null_Deref | Some i \<Rightarrow> Inr i)"

section \<open>Initialisation of the page array\<close>


definition mark_page :: "(page \<Rightarrow> page) \<Rightarrow> addr \<Rightarrow> ('z) pm_scheme \<Rightarrow> (int \<times> ('z) pm_scheme) res" where
  "mark_page f a st =
     (let i = addr2index a
      in if i \<noteq> - 1 then Inr (0, upd_page (nat i) f st) else Inr (- EINVAL, st))"

definition and_then ::
  "(int \<times> 's) res \<Rightarrow> ('s \<Rightarrow> (int \<times> 's) res) \<Rightarrow> (int \<times> 's) res" where
  "and_then m f = rbind m (\<lambda>(r, s). if r \<noteq> 0 then Inr (r, s) else f s)"

definition pm_pages_init :: "('z) pm_scheme \<Rightarrow> (int \<times> ('z) pm_scheme) res" where
  "pm_pages_init st =
     (let st = st\<lparr>pages := (\<lambda>i. if i < unat PAGE_NUM then (pages st i)\<lparr>refs := 0, flags := 0\<rparr>
                              else pages st i)\<rparr>
      in and_then (for_addr PM_START (KERNEL_BASE st) PAGE_SIZE
                     (mark_page (\<lambda>p. p\<lparr>flags := PM_STATIC\<rparr>)) st) (\<lambda>st.
         and_then (for_addr (KERNEL_BASE st) (KERNEL_END st) PAGE_SIZE
                     (mark_page (\<lambda>p. p\<lparr>flags := PM_STATIC\<rparr>)) st) (\<lambda>st.
         and_then (for_addr (EARLY_HEAP_BASE st) (EARLY_HEAP_END st) PAGE_SIZE
                     (mark_page (\<lambda>p. p\<lparr>flags := PM_STATIC\<rparr>)) st) (\<lambda>st.
         for_addr (BUDDY_SYSTEM_BASE st) BUDDY_SYSTEM_END PAGE_SIZE
           (mark_page (\<lambda>p. p\<lparr>flags := PM_STATIC OR PM_BUDDY,
                             order := of_nat BUDDY_MAX_ORDER + 1, priv := NULL\<rparr>)) st))))"

definition page_alloc :: "u8 \<Rightarrow> addr res" where
  "page_alloc fl = Inl (Panic ''calling unimplemented function'')"

definition page_free :: "addr \<Rightarrow> int res" where
  "page_free a = Inl (Panic ''calling unimplemented function'')"

section \<open>The early heap\<close>

definition early_init :: "('z) pm_scheme \<Rightarrow> ('z) pm_scheme" where
  "early_init st = st\<lparr>early_brk := EARLY_HEAP_BASE st\<rparr>"

definition is_early_mem :: "('z) pm_scheme \<Rightarrow> addr \<Rightarrow> bool" where
  "is_early_mem st p \<longleftrightarrow> EARLY_HEAP_BASE st \<le> p \<and> p < early_brk st"

definition early_alloc :: "u64 \<Rightarrow> ('z) pm_scheme \<Rightarrow> (addr \<times> ('z) pm_scheme) res" where
  "early_alloc sz st =
     (if kalloc_inited st then Inl (Panic ''early heap not usable after buddy inited'')
      else
        let sz = ALIGN_UP sz 8
        in if EARLY_HEAP_END st \<le> early_brk st + sz then Inl (Panic ''early heap too small'')
           else Inr (early_brk st, st\<lparr>early_brk := early_brk st + sz\<rparr>))"

section \<open>Frame facts\<close>

named_theorems pm_simps \<open>what the page operations leave alone\<close>

lemma upd_page_frame [simp, pm_simps]:
  "skernel (upd_page i f st) = skernel st" "ekernel (upd_page i f st) = ekernel st"
  "pages_base (upd_page i f st) = pages_base st" "early_brk (upd_page i f st) = early_brk st"
  "kalloc_inited (upd_page i f st) = kalloc_inited st" "pm.more (upd_page i f st) = pm.more st"
  by (simp_all add: upd_page_def)

lemma pages_upd_page [simp, pm_simps]:
  "pages (upd_page i f st) j = (if j = i then f (pages st i) else pages st j)"
  by (simp add: upd_page_def)

lemma upd_page_idem [simp]:
  "upd_page i f (upd_page i g st) = upd_page i (\<lambda>p. f (g p)) st"
  by (simp add: upd_page_def)

section \<open>Address arithmetic\<close>

lemma uint_word_nat: "uint (x :: 'a::len word) = int (unat x)"
  by simp

lemma in_pm_iff: "PM_START \<le> a \<and> a < PM_END \<longleftrightarrow> 0x80000000 \<le> unat a \<and> unat a < 0x88000000"
  by (simp add: word_less_nat_alt word_le_nat_alt config_values)

lemma addr2index_unat:
  "addr2index a =
     (if 0x80000000 \<le> unat a \<and> unat a < 0x88000000 then int ((unat a - 0x80000000) div 4096) else - 1)"
proof (cases "PM_START \<le> a \<and> a < PM_END")
  case True
  then have "unat (a - PM_START) = unat a - 0x80000000"
    by (simp add: unat_sub) (simp add: config_values)
  then have "unat ((a - PM_START) div PAGE_SIZE) = (unat a - 0x80000000) div 4096"
    by (simp add: unat_div config_values)
  then have "uint ((a - PM_START) div PAGE_SIZE) = int ((unat a - 0x80000000) div 4096)"
    by (simp only: uint_word_nat)
  then show ?thesis using True in_pm_iff [of a] by (simp only: addr2index_def simp_thms if_True)
next
  case False
  then show ?thesis using in_pm_iff [of a] by (simp only: addr2index_def simp_thms if_False)
qed

lemma addr2page_unat:
  "addr2page a =
     (if 0x80000000 \<le> unat a \<and> unat a < 0x88000000 then Some ((unat a - 0x80000000) div 4096) else None)"
  by (simp add: addr2page_def addr2index_unat)

lemma unat_index2addr:
  assumes "0 \<le> i" and "i < 32768"
  shows "unat (index2addr i) = 0x80000000 + nat i * 4096"
proof -
  have "uint PAGE_NUM = 32768" by (simp add: config_values)
  then have e: "index2addr i = of_nat (0x80000000 + nat i * 4096)"
    using assms by (simp add: index2addr_def config_values)
  have "0x80000000 + nat i * 4096 < 2 ^ 64" using assms by simp
  then show ?thesis unfolding e by (intro unat_of_nat_small) simp
qed

text \<open>Index and address are inverse to each other on the managed range.\<close>

lemma addr2index_index2addr:
  assumes "0 \<le> i" and "i < 32768"
  shows "addr2index (index2addr i) = i"
  using assms by (simp add: addr2index_unat unat_index2addr)

lemma index2addr_addr2index:
  assumes "addr2index a \<noteq> - 1"
  shows "index2addr (addr2index a) = PAGE_ALIGN_DOWN a"
proof (rule word_unat_eq_iff [THEN iffD2])
  have r: "0x80000000 \<le> unat a" "unat a < 0x88000000"
    using assms by (auto simp: addr2index_unat split: if_splits)
  define d where "d = unat a - 0x80000000"
  have d: "unat a = 0x80000000 + d" "d < 0x8000000" unfolding d_def using r by linarith+
  then have i: "addr2index a = int (d div 4096)" by (simp add: addr2index_unat)
  have "unat (index2addr (addr2index a)) = 0x80000000 + d div 4096 * 4096"
    unfolding i using d(2) by (subst unat_index2addr) auto
  also have "\<dots> = unat a div 4096 * 4096"
  proof -
    have "(d + 524288 * 4096) div 4096 = 524288 + d div 4096" by (rule div_mult_self1) simp
    then show ?thesis unfolding d by (simp add: add.commute)
  qed
  also have "\<dots> = unat (PAGE_ALIGN_DOWN a)"
    using ALIGN_DOWN_unat [of a 12] by (simp add: config_values)
  finally show "unat (index2addr (addr2index a)) = unat (PAGE_ALIGN_DOWN a)" .
qed

end
