(* ===== verification/Spinlock.thy ===== *)
theory Spinlock
  imports Kernel_Prelude
begin

text \<open>
  Interrupt nesting (\<^verbatim>\<open>intr_off\<close>, \<^verbatim>\<open>intr_on\<close>, \<^verbatim>\<open>restore_intr\<close> of \<^verbatim>\<open>src/trap/trap.c\<close>) and
  the spinlocks of \<^verbatim>\<open>src/sync/spinlock.c\<close> with \<^verbatim>\<open>SPINLOCK_DEBUG\<close> on, as the sources define
  it. First the two functions as one hart runs them, then the protocol of any number of harts
  as an interleaving of their atomic steps.
\<close>

section \<open>Interrupt nesting\<close>

text \<open>
  \<open>hart\<close> is the part of \<^verbatim>\<open>struct cpu\<close> and of the control registers that the lock code reads
  and writes; \<open>tp\<close> is the register that holds the hart's number. \<^verbatim>\<open>intr_depth\<close> is a C
  \<^verbatim>\<open>int\<close>; nesting never comes near its limit.
\<close>

record hart =
  tp :: u64
  sstatus :: u64
  intr_state :: u64
  intr_depth :: int

definition SSTATUS_SIE :: u64 where
  "SSTATUS_SIE = push_bit 1 1"

definition intr_off :: "hart \<Rightarrow> hart" where
  "intr_off c =
     (let c = (if intr_depth c = 0
               then c\<lparr>intr_state := sstatus c, sstatus := sstatus c AND NOT SSTATUS_SIE\<rparr>
               else c)
      in c\<lparr>intr_depth := intr_depth c + 1\<rparr>)"

definition intr_on :: "hart \<Rightarrow> hart res" where
  "intr_on c =
     (if intr_depth c \<le> 0 then Inl (Panic ''intr_on: mismatch'')
      else
        let c = c\<lparr>intr_depth := intr_depth c - 1\<rparr>
        in Inr (if intr_depth c = 0 then c\<lparr>sstatus := intr_state c\<rparr> else c))"

definition restore_intr :: "u64 \<Rightarrow> hart \<Rightarrow> hart" where
  "restore_intr old c = c\<lparr>intr_depth := 0, intr_state := old, sstatus := old\<rparr>"

section \<open>Acquire and release\<close>

record spinlock =
  lock_name :: string
  locked :: u64
  owner :: u64

definition SPINLOCK_INITIALIZER :: "string \<Rightarrow> spinlock" where
  "SPINLOCK_INITIALIZER n = \<lparr>lock_name = n, locked = 0, owner = - 1\<rparr>"

text \<open>
  On one hart the exchange loop of \<^verbatim>\<open>spinlock_acquire_bare\<close> ends at once on a free lock and
  waits for ever on a lock that another hart holds (\<open>Spin\<close>).
\<close>

definition spinlock_acquire :: "hart \<times> spinlock \<Rightarrow> (hart \<times> spinlock) res" where
  "spinlock_acquire = (\<lambda>(c, lk).
     if locked lk \<noteq> 0 \<and> owner lk = tp c then Inl (Panic ''recursive lock acquire'')
     else
       let c = intr_off c
       in if locked lk = 0 then Inr (c, lk\<lparr>locked := 1, owner := tp c\<rparr>) else Inl Spin)"

definition spinlock_release :: "hart \<times> spinlock \<Rightarrow> (hart \<times> spinlock) res" where
  "spinlock_release = (\<lambda>(c, lk).
     if locked lk = 0 then Inl (Panic ''release unlocked lock'')
     else if owner lk \<noteq> tp c then Inl (Panic ''spinlock_release: wrong CPU'')
     else
       let lk = lk\<lparr>owner := - 1\<rparr>;
           lk = lk\<lparr>locked := 0\<rparr>
       in rbind (intr_on c) (\<lambda>c. Inr (c, lk)))"

definition spinlock_holding :: "hart \<Rightarrow> spinlock \<Rightarrow> bool" where
  "spinlock_holding c lk \<longleftrightarrow> locked lk \<noteq> 0 \<and> owner lk = tp c"

text \<open>
  A lock as its owner sees it: free, or held by this hart. \<open>intr_off\<close> and \<open>leave\<close> give the state
  of the hart inside and after a critical section; \<open>leave\<close> differs from the state before only
  in the saved copy of \<^verbatim>\<open>sstatus\<close>.
\<close>

definition lock_free :: "spinlock \<Rightarrow> bool" where
  "lock_free lk \<longleftrightarrow> locked lk = 0"

definition hold :: "hart \<Rightarrow> spinlock \<Rightarrow> spinlock" where
  "hold c lk = lk\<lparr>locked := 1, owner := tp c\<rparr>"

definition unhold :: "spinlock \<Rightarrow> spinlock" where
  "unhold lk = lk\<lparr>locked := 0, owner := - 1\<rparr>"

definition leave :: "hart \<Rightarrow> hart" where
  "leave c = (if intr_depth c = 0 then c\<lparr>intr_state := sstatus c\<rparr> else c)"

definition hart_ok :: "hart \<Rightarrow> bool" where
  "hart_ok c \<longleftrightarrow> 0 \<le> intr_depth c"

named_theorems lock_simps \<open>lock operations on a well-formed hart\<close>

lemma acquire_free [lock_simps]: "lock_free lk \<Longrightarrow> spinlock_acquire (c, lk) = Inr (intr_off c, hold c lk)"
  by (simp add: spinlock_acquire_def lock_free_def hold_def intr_off_def Let_def)

lemma acquire_held [lock_simps]:
  "spinlock_acquire (c, hold c lk) = Inl (Panic ''recursive lock acquire'')"
  by (simp add: spinlock_acquire_def hold_def)

lemma tp_intr_off [simp]: "tp (intr_off c) = tp c"
  by (simp add: intr_off_def Let_def)

lemma tp_leave [simp]: "tp (leave c) = tp c"
  by (simp add: leave_def)

lemma hart_ok_leave [simp]: "hart_ok (leave c) \<longleftrightarrow> hart_ok c"
  by (simp add: leave_def hart_ok_def)

lemma hart_ok_intr_off [simp]: "hart_ok c \<Longrightarrow> hart_ok (intr_off c)"
  by (simp add: intr_off_def hart_ok_def Let_def)

lemma leave_leave [simp]: "leave (leave c) = leave c"
  by (simp add: leave_def)

lemma hold_hold [simp]: "hold c (hold d lk) = hold c lk"
  by (simp add: hold_def)

lemma unhold_hold [simp]: "unhold (hold c lk) = unhold lk"
  by (simp add: hold_def unhold_def)

lemma unhold_unhold [simp]: "unhold (unhold lk) = unhold lk"
  by (simp add: unhold_def)

lemma hold_unhold [simp]: "hold c (unhold lk) = hold c lk"
  by (simp add: hold_def unhold_def)

lemma lock_free_unhold [simp]: "lock_free (unhold lk)"
  by (simp add: lock_free_def unhold_def)

lemma lock_free_hold [simp]: "\<not> lock_free (hold c lk)"
  by (simp add: lock_free_def hold_def)

lemma intr_on_off: "hart_ok c \<Longrightarrow> intr_on (intr_off c) = Inr (leave c)"
  by (auto simp: intr_on_def intr_off_def leave_def hart_ok_def Let_def)

lemma release_held [lock_simps]:
  "hart_ok c \<Longrightarrow> spinlock_release (intr_off c, hold c lk) = Inr (leave c, unhold lk)"
  by (simp add: spinlock_release_def hold_def unhold_def intr_on_off Let_def)

lemma holding_hold [simp]: "spinlock_holding (intr_off c) (hold c lk)" "spinlock_holding c (hold c lk)"
  by (simp_all add: spinlock_holding_def hold_def)

lemma holding_free [simp]: "lock_free lk \<Longrightarrow> \<not> spinlock_holding c lk"
  by (simp add: spinlock_holding_def lock_free_def)

text \<open>Two nested critical sections, released in the reverse order of acquisition.\<close>

lemma intr_off_leave: "hart_ok c \<Longrightarrow> intr_off (leave c) = intr_off c"
  by (simp add: intr_off_def leave_def Let_def)

lemma leave_intr_off [simp]: "hart_ok c \<Longrightarrow> leave (intr_off c) = intr_off c"
  by (simp add: intr_off_def leave_def hart_ok_def Let_def)

section \<open>The protocol of several harts\<close>

text \<open>
  Each hart runs \<^verbatim>\<open>spinlock_acquire_bare\<close> and \<^verbatim>\<open>spinlock_release_bare\<close> on one lock; a step is one
  of their accesses to shared memory. \<open>Idle\<close>: before the recursion check. \<open>Want\<close>: interrupts are
  off, about to exchange. \<open>Got\<close>: the exchange returned 0, \<^verbatim>\<open>owner\<close> not yet written. \<open>Crit\<close>: the
  critical section. \<open>Rel\<close>: \<^verbatim>\<open>owner\<close> reset, \<^verbatim>\<open>locked\<close> not yet cleared. \<open>Dead\<close>: one of the
  \<^verbatim>\<open>panic\<close> calls was reached. Harts are numbered from 0, so none has the number \<open>- 1\<close> that marks
  a free lock.
\<close>

datatype phase = Idle | Want | Got | Crit | Rel | Dead

record lock_sys =
  phase_of :: "u64 \<Rightarrow> phase"
  hart_of :: "u64 \<Rightarrow> hart"
  the_lock :: spinlock

definition goto_phase :: "u64 \<Rightarrow> phase \<Rightarrow> lock_sys \<Rightarrow> lock_sys" where
  "goto_phase i p s = s\<lparr>phase_of := (phase_of s)(i := p)\<rparr>"

definition set_hart :: "u64 \<Rightarrow> hart \<Rightarrow> lock_sys \<Rightarrow> lock_sys" where
  "set_hart i c s = s\<lparr>hart_of := (hart_of s)(i := c)\<rparr>"

inductive lock_step :: "lock_sys \<Rightarrow> lock_sys \<Rightarrow> bool" where
  recursive: "i \<noteq> - 1 \<Longrightarrow> phase_of s i = Idle \<Longrightarrow> locked (the_lock s) \<noteq> 0 \<Longrightarrow> owner (the_lock s) = i \<Longrightarrow>
    lock_step s (goto_phase i Dead s)"
| begin_acquire: "i \<noteq> - 1 \<Longrightarrow> phase_of s i = Idle \<Longrightarrow>
    \<not> (locked (the_lock s) \<noteq> 0 \<and> owner (the_lock s) = i) \<Longrightarrow>
    lock_step s (goto_phase i Want (set_hart i (intr_off (hart_of s i)) s))"
| exchange_fail: "phase_of s i = Want \<Longrightarrow> locked (the_lock s) \<noteq> 0 \<Longrightarrow>
    lock_step s (s\<lparr>the_lock := (the_lock s)\<lparr>locked := 1\<rparr>\<rparr>)"
| exchange_ok: "phase_of s i = Want \<Longrightarrow> locked (the_lock s) = 0 \<Longrightarrow>
    lock_step s (goto_phase i Got (s\<lparr>the_lock := (the_lock s)\<lparr>locked := 1\<rparr>\<rparr>))"
| set_owner: "phase_of s i = Got \<Longrightarrow>
    lock_step s (goto_phase i Crit (s\<lparr>the_lock := (the_lock s)\<lparr>owner := i\<rparr>\<rparr>))"
| bad_release: "phase_of s i = Crit \<Longrightarrow> locked (the_lock s) = 0 \<or> owner (the_lock s) \<noteq> i \<Longrightarrow>
    lock_step s (goto_phase i Dead s)"
| clear_owner: "phase_of s i = Crit \<Longrightarrow> locked (the_lock s) \<noteq> 0 \<Longrightarrow> owner (the_lock s) = i \<Longrightarrow>
    lock_step s (goto_phase i Rel (s\<lparr>the_lock := (the_lock s)\<lparr>owner := - 1\<rparr>\<rparr>))"
| clear_locked: "phase_of s i = Rel \<Longrightarrow> intr_on (hart_of s i) = Inr c \<Longrightarrow>
    lock_step s (goto_phase i Idle (set_hart i c (s\<lparr>the_lock := (the_lock s)\<lparr>locked := 0\<rparr>\<rparr>)))"
| bad_intr_on: "phase_of s i = Rel \<Longrightarrow> intr_on (hart_of s i) = Inl e \<Longrightarrow>
    lock_step s (goto_phase i Dead (s\<lparr>the_lock := (the_lock s)\<lparr>locked := 0\<rparr>\<rparr>))"

inductive_cases lock_stepE: "lock_step s t"

definition lock_init :: "lock_sys \<Rightarrow> bool" where
  "lock_init s \<longleftrightarrow> (\<forall>i. phase_of s i = Idle) \<and> (\<forall>i. intr_depth (hart_of s i) = 0) \<and>
     lock_free (the_lock s) \<and> owner (the_lock s) = - 1"

inductive lock_reachable :: "lock_sys \<Rightarrow> bool" where
  start: "lock_init s \<Longrightarrow> lock_reachable s"
| step: "lock_reachable s \<Longrightarrow> lock_step s t \<Longrightarrow> lock_reachable t"

text \<open>
  The invariant ties the lock word and the owner field to the phases: the word is set exactly
  while some hart is past its exchange, there is at most one such hart, the owner field names
  a hart exactly while that hart is in its critical section, and a hart has interrupts off
  from its first step to its last.
\<close>

definition holds_word :: "phase \<Rightarrow> bool" where
  "holds_word p \<longleftrightarrow> p = Got \<or> p = Crit \<or> p = Rel"

definition hart_inv :: "u64 \<Rightarrow> phase \<Rightarrow> hart \<Rightarrow> bool" where
  "hart_inv i p c \<longleftrightarrow> p \<noteq> Dead \<and> (p = Idle \<longrightarrow> intr_depth c = 0) \<and>
     (p \<noteq> Idle \<longrightarrow> intr_depth c = 1 \<and> i \<noteq> - 1 \<and> \<not> bit (sstatus c) 1)"

definition word_inv :: "(u64 \<Rightarrow> phase) \<Rightarrow> spinlock \<Rightarrow> bool" where
  "word_inv ph lk \<longleftrightarrow>
     (locked lk = 0 \<and> owner lk = - 1 \<and> (\<forall>i. \<not> holds_word (ph i))) \<or>
     (\<exists>h. locked lk \<noteq> 0 \<and> holds_word (ph h) \<and> (\<forall>i. i \<noteq> h \<longrightarrow> \<not> holds_word (ph i)) \<and>
        owner lk = (if ph h = Crit then h else - 1))"

definition lock_inv :: "lock_sys \<Rightarrow> bool" where
  "lock_inv s \<longleftrightarrow> (\<forall>i. hart_inv i (phase_of s i) (hart_of s i)) \<and> word_inv (phase_of s) (the_lock s)"

lemma lock_inv_init: "lock_init s \<Longrightarrow> lock_inv s"
  by (auto simp: lock_inv_def lock_init_def lock_free_def holds_word_def hart_inv_def word_inv_def)

lemma SIE_cleared: "intr_depth c = 0 \<Longrightarrow> \<not> bit (sstatus (intr_off c)) 1"
  by (simp add: intr_off_def SSTATUS_SIE_def bit_simps)

lemma depth_intr_off [simp]: "intr_depth (intr_off c) = intr_depth c + 1"
  by (simp add: intr_off_def Let_def)

text \<open>How the lock word invariant moves with the steps that touch the lock.\<close>

lemma word_inv_holder:
  assumes "word_inv ph lk" and "holds_word (ph i)"
  shows "locked lk \<noteq> 0" and "\<And>j. j \<noteq> i \<Longrightarrow> \<not> holds_word (ph j)"
    and "owner lk = (if ph i = Crit then i else - 1)"
proof -
  obtain h where h: "locked lk \<noteq> 0" "\<forall>j. j \<noteq> h \<longrightarrow> \<not> holds_word (ph j)"
    "owner lk = (if ph h = Crit then h else - 1)"
    using assms unfolding word_inv_def by blast
  have "i = h" using h(2) assms(2) by blast
  with h show "locked lk \<noteq> 0" and "\<And>j. j \<noteq> i \<Longrightarrow> \<not> holds_word (ph j)"
    and "owner lk = (if ph i = Crit then i else - 1)" by auto
qed

lemma word_inv_holderI:
  "locked lk \<noteq> 0 \<Longrightarrow> holds_word (ph i) \<Longrightarrow> (\<And>j. j \<noteq> i \<Longrightarrow> \<not> holds_word (ph j)) \<Longrightarrow>
   owner lk = (if ph i = Crit then i else - 1) \<Longrightarrow> word_inv ph lk"
  unfolding word_inv_def by blast

lemma word_inv_freeI:
  "locked lk = 0 \<Longrightarrow> owner lk = - 1 \<Longrightarrow> (\<And>i. \<not> holds_word (ph i)) \<Longrightarrow> word_inv ph lk"
  unfolding word_inv_def by blast

lemma word_inv_free: "word_inv ph lk \<Longrightarrow> locked lk = 0 \<Longrightarrow> owner lk = - 1 \<and> \<not> holds_word (ph i)"
  unfolding word_inv_def by blast

lemma word_inv_owner: "word_inv ph lk \<Longrightarrow> i \<noteq> - 1 \<Longrightarrow> owner lk = i \<Longrightarrow> ph i = Crit"
  by (auto simp: word_inv_def split: if_splits)

lemma word_inv_crit: "word_inv ph lk \<Longrightarrow> ph i = Crit \<Longrightarrow> locked lk \<noteq> 0 \<and> owner lk = i"
  using word_inv_holder [of ph lk i] by (simp add: holds_word_def)

lemma word_inv_same:
  assumes "word_inv ph lk" and "\<not> holds_word (ph i)" and "\<not> holds_word p"
  shows "word_inv (ph(i := p)) lk"
proof (cases "\<exists>h. holds_word (ph h)")
  case True
  then obtain h where h: "holds_word (ph h)" by blast
  with assms(2) have "h \<noteq> i" by blast
  then show ?thesis
    using assms h word_inv_holder [OF assms(1) h] by (intro word_inv_holderI [of _ _ h]) auto
next
  case False
  then have "locked lk = 0 \<and> owner lk = - 1" using assms(1) unfolding word_inv_def by blast
  with False assms(3) show ?thesis by (intro word_inv_freeI) auto
qed

lemma word_inv_take:
  "word_inv ph lk \<Longrightarrow> locked lk = 0 \<Longrightarrow> word_inv (ph(i := Got)) (lk\<lparr>locked := 1\<rparr>)"
  using word_inv_free [of ph lk] by (intro word_inv_holderI [of _ _ i]) (auto simp: holds_word_def)

lemma word_inv_own:
  "word_inv ph lk \<Longrightarrow> ph i = Got \<Longrightarrow> word_inv (ph(i := Crit)) (lk\<lparr>owner := i\<rparr>)"
  using word_inv_holder [of ph lk i] by (intro word_inv_holderI [of _ _ i]) (auto simp: holds_word_def)

lemma word_inv_disown:
  "word_inv ph lk \<Longrightarrow> ph i = Crit \<Longrightarrow> word_inv (ph(i := Rel)) (lk\<lparr>owner := - 1\<rparr>)"
  using word_inv_holder [of ph lk i] by (intro word_inv_holderI [of _ _ i]) (auto simp: holds_word_def)

lemma word_inv_clear:
  "word_inv ph lk \<Longrightarrow> ph i = Rel \<Longrightarrow> word_inv (ph(i := Idle)) (lk\<lparr>locked := 0\<rparr>)"
  using word_inv_holder [of ph lk i] by (intro word_inv_freeI) (auto simp: holds_word_def)

lemma lock_inv_updI:
  assumes "lock_inv s" and "hart_inv i p c" and "word_inv ((phase_of s)(i := p)) lk"
  shows "lock_inv (goto_phase i p (set_hart i c (s\<lparr>the_lock := lk\<rparr>)))"
  using assms by (simp add: lock_inv_def goto_phase_def set_hart_def)

lemma set_hart_id [simp]: "set_hart i (hart_of s i) s = s"
  by (simp add: set_hart_def)

lemma lock_inv_step: "lock_step s t \<Longrightarrow> lock_inv s \<Longrightarrow> lock_inv t"
proof (induction rule: lock_step.induct)
  case (recursive i s)
  then have "phase_of s i = Crit" by (intro word_inv_owner) (auto simp: lock_inv_def)
  with recursive show ?case by simp
next
  case (begin_acquire i s)
  have h: "hart_inv i Idle (hart_of s i)" and w: "word_inv (phase_of s) (the_lock s)"
    using begin_acquire by (metis lock_inv_def)+
  have "hart_inv i Want (intr_off (hart_of s i))"
    using h begin_acquire(1) SIE_cleared [of "hart_of s i"] by (simp add: hart_inv_def)
  moreover have "word_inv ((phase_of s)(i := Want)) (the_lock s)"
    using w begin_acquire(2) by (intro word_inv_same) (auto simp: holds_word_def)
  ultimately show ?case using lock_inv_updI [OF begin_acquire(4), of i Want _ "the_lock s"] by simp
next
  case (exchange_fail s i)
  then show ?case by (auto simp: lock_inv_def word_inv_def)
next
  case (exchange_ok s i)
  have h: "hart_inv i Got (hart_of s i)" and w: "word_inv (phase_of s) (the_lock s)"
    using exchange_ok by (auto simp: lock_inv_def hart_inv_def)
  show ?case
    using lock_inv_updI [OF exchange_ok(3) h word_inv_take [OF w exchange_ok(2)]]
    by (simp add: set_hart_def)
next
  case (set_owner s i)
  have h: "hart_inv i Crit (hart_of s i)" and w: "word_inv (phase_of s) (the_lock s)"
    using set_owner by (auto simp: lock_inv_def hart_inv_def)
  show ?case
    using lock_inv_updI [OF set_owner(2) h word_inv_own [OF w set_owner(1)]] by (simp add: set_hart_def)
next
  case (bad_release s i)
  then show ?case using word_inv_crit [of "phase_of s" "the_lock s" i] by (simp add: lock_inv_def)
next
  case (clear_owner s i)
  have h: "hart_inv i Rel (hart_of s i)" and w: "word_inv (phase_of s) (the_lock s)"
    using clear_owner by (auto simp: lock_inv_def hart_inv_def)
  show ?case
    using lock_inv_updI [OF clear_owner(4) h word_inv_disown [OF w clear_owner(1)]]
    by (simp add: set_hart_def)
next
  case (clear_locked s i c)
  have r: "hart_inv i Rel (hart_of s i)" and w: "word_inv (phase_of s) (the_lock s)"
    using clear_locked by (metis lock_inv_def)+
  have h: "hart_inv i Idle c"
    using r clear_locked(2) by (auto simp: hart_inv_def intr_on_def Let_def split: if_splits)
  show ?case
    using lock_inv_updI [OF clear_locked(3) h word_inv_clear [OF w clear_locked(1)]] by simp
next
  case (bad_intr_on s i e)
  then have "hart_inv i Rel (hart_of s i)" by (metis lock_inv_def)
  with bad_intr_on(2) show ?case by (simp add: hart_inv_def intr_on_def Let_def)
qed

lemma lock_reachable_inv: "lock_reachable s \<Longrightarrow> lock_inv s"
  by (induction rule: lock_reachable.induct) (auto intro: lock_inv_init lock_inv_step)

end
