(* ===== verification/Buddy.thy ===== *)
theory Buddy
  imports Phys_Mem Spinlock
begin

text \<open>
  The buddy allocator of \<^verbatim>\<open>src/mm/buddy.c\<close>. Its operations allocate and free their own list
  nodes (\<^verbatim>\<open>struct mem_block\<close>) through the two functions \<^verbatim>\<open>alloc_mem_block\<close> and
  \<^verbatim>\<open>free_mem_block\<close>, which go to the early heap during boot and to \<^verbatim>\<open>kmalloc\<close> afterwards; here
  they are the arguments \<open>AL\<close> and \<open>FR\<close> of the operations, and what the allocator relies on is the
  locale \<open>block_pool\<close>. The free lists are HOL lists of node addresses, as the theory \<open>Klist\<close>
  justifies; \<^verbatim>\<open>list_del\<close> of a node on no list is the fault \<open>Bad_List\<close>.
\<close>

section \<open>State\<close>

record buddy = pm +
  buddy_inited :: bool
  buddy_free_pages :: u64
  blk_start :: "addr \<Rightarrow> addr"
  free_list :: "nat \<Rightarrow> addr list"
  buddy_lock :: spinlock
  cpu :: hart

text \<open>\<open>blk_start st b\<close> is the field \<^verbatim>\<open>start\<close> of the \<^verbatim>\<open>struct mem_block\<close> at address \<open>b\<close>.\<close>

type_synonym 'z alloc_fn = "'z buddy_scheme \<Rightarrow> (addr \<times> 'z buddy_scheme) res"
type_synonym 'z free_fn = "addr \<Rightarrow> 'z buddy_scheme \<Rightarrow> 'z buddy_scheme res"

section \<open>Lists of free blocks\<close>

definition unlink :: "addr \<Rightarrow> 'z buddy_scheme \<Rightarrow> 'z buddy_scheme res" where
  "unlink b st =
     (if list_ex (\<lambda>k. b \<in> set (free_list st k)) [0..<Suc BUDDY_MAX_ORDER]
      then Inr (st\<lparr>free_list := (\<lambda>k. remove1 b (free_list st k))\<rparr>)
      else Inl Bad_List)"

definition push_front :: "nat \<Rightarrow> addr \<Rightarrow> 'z buddy_scheme \<Rightarrow> 'z buddy_scheme res" where
  "push_front k b st =
     (if k \<le> BUDDY_MAX_ORDER
      then Inr (st\<lparr>free_list := (free_list st)(k := b # free_list st k)\<rparr>) else Inl Out_Of_Bounds)"

definition push_back :: "nat \<Rightarrow> addr \<Rightarrow> 'z buddy_scheme \<Rightarrow> 'z buddy_scheme res" where
  "push_back k b st =
     (if k \<le> BUDDY_MAX_ORDER
      then Inr (st\<lparr>free_list := (free_list st)(k := free_list st k @ [b])\<rparr>) else Inl Out_Of_Bounds)"

definition list_at :: "nat \<Rightarrow> 'z buddy_scheme \<Rightarrow> addr list res" where
  "list_at k st = (if k \<le> BUDDY_MAX_ORDER then Inr (free_list st k) else Inl Out_Of_Bounds)"

definition first_entry :: "nat \<Rightarrow> 'z buddy_scheme \<Rightarrow> addr res" where
  "first_entry k st = rbind (list_at k st) (\<lambda>bs. case bs of [] \<Rightarrow> Inl Bad_List | b # _ \<Rightarrow> Inr b)"

section \<open>Operations\<close>

definition size2order :: "u64 \<Rightarrow> u8" where
  "size2order sz = word_of_int (log2_ceil sz - int PAGE_SHIFT)"

definition get_buddy_addr :: "addr \<Rightarrow> u8 \<Rightarrow> addr" where
  "get_buddy_addr a k = a XOR push_bit (unat k) PAGE_SIZE"

text \<open>
  The two sources of list nodes: \<open>KM\<close> and \<open>KF\<close> stand for \<^verbatim>\<open>kmalloc\<close> and \<^verbatim>\<open>kfree\<close>, which the theory
  \<open>Kalloc\<close> defines on top of this one.
\<close>

definition sizeof_mem_block :: u64 where "sizeof_mem_block = 24"

definition alloc_mem_block :: "(u64 \<Rightarrow> 'z alloc_fn) \<Rightarrow> 'z alloc_fn" where
  "alloc_mem_block KM st =
     (if kalloc_inited st then KM sizeof_mem_block st else early_alloc sizeof_mem_block st)"

definition free_mem_block :: "'z free_fn \<Rightarrow> 'z free_fn" where
  "free_mem_block KF p st = (if is_early_mem st p then Inr st else KF p st)"

definition buddy_init_step :: "'z alloc_fn \<Rightarrow> addr \<Rightarrow> 'z buddy_scheme \<Rightarrow> (int \<times> 'z buddy_scheme) res" where
  "buddy_init_step AL p st =
     (case addr2page p of
        None \<Rightarrow> Inr (- EINVAL, st)
      | Some pg \<Rightarrow>
          rbind (AL st) (\<lambda>(t, st).
            if t = NULL then Inl (Panic ''no enough early heap memory for buddy init'')
            else
              let st = st\<lparr>blk_start := (blk_start st)(t := p)\<rparr>;
                  st = upd_page pg (\<lambda>q. q\<lparr>priv := t, order := of_nat BUDDY_MAX_ORDER\<rparr>) st;
                  st = st\<lparr>buddy_free_pages := buddy_free_pages st + push_bit BUDDY_MAX_ORDER 1\<rparr>
              in rbind (push_back BUDDY_MAX_ORDER t st) (\<lambda>st. Inr (0, st))))"

definition buddy_init :: "'z alloc_fn \<Rightarrow> 'z buddy_scheme \<Rightarrow> (int \<times> 'z buddy_scheme) res" where
  "buddy_init AL st =
     (let st = st\<lparr>free_list := (\<lambda>k. if k \<le> BUDDY_MAX_ORDER then [] else free_list st k)\<rparr>
      in and_then (for_addr (BUDDY_SYSTEM_BASE st) BUDDY_SYSTEM_END BUDDY_BLOB_SIZE (buddy_init_step AL) st)
           (\<lambda>st. Inr (0, st\<lparr>buddy_inited := True\<rparr>)))"

text \<open>
  The inner loop of \<^verbatim>\<open>merge_blocks\<close>: the first block of the list whose buddy's page heads a free
  block of the same order, with the two pages.
\<close>

fun find_mergeable :: "nat \<Rightarrow> addr list \<Rightarrow> 'z buddy_scheme \<Rightarrow> (addr \<times> nat \<times> nat) option res" where
  "find_mergeable i [] st = Inr None"
| "find_mergeable i (b # bs) st =
     rbind (the_page (blk_start st b)) (\<lambda>pg.
     rbind (the_page (get_buddy_addr (blk_start st b) (order (pages st pg)))) (\<lambda>bpg.
       if priv (pages st bpg) = NULL \<or> unat (order (pages st bpg)) \<noteq> i
       then find_mergeable i bs st
       else Inr (Some (b, pg, bpg))))"

definition merge_pair ::
  "'z free_fn \<Rightarrow> addr \<Rightarrow> nat \<Rightarrow> nat \<Rightarrow> 'z buddy_scheme \<Rightarrow> 'z buddy_scheme res" where
  "merge_pair FR block pg bpg st =
     (let buddy_block = priv (pages st bpg)
      in rbind (unlink block st) (\<lambda>st.
         rbind (unlink buddy_block st) (\<lambda>st.
           if blk_start st buddy_block < blk_start st block then
             rbind (FR block st) (\<lambda>st.
               let st = upd_page pg (\<lambda>q. q\<lparr>priv := NULL, order := of_nat BUDDY_MAX_ORDER + 1\<rparr>) st;
                   st = upd_page bpg (\<lambda>q. q\<lparr>order := order q + 1\<rparr>) st
               in push_front (unat (order (pages st bpg))) buddy_block st)
           else
             rbind (FR buddy_block st) (\<lambda>st.
               let st = upd_page bpg (\<lambda>q. q\<lparr>priv := NULL, order := of_nat BUDDY_MAX_ORDER + 1\<rparr>) st;
                   st = upd_page pg (\<lambda>q. q\<lparr>order := order q + 1\<rparr>) st
               in push_front (unat (order (pages st pg))) block st))))"

text \<open>
  The \<^verbatim>\<open>while\<close> loop of one order. Every turn that merges takes two blocks off the list, so one
  turn more than the list is long is enough; \<open>merge_level_ok\<close> shows that it never runs out.
\<close>

fun merge_level :: "'z free_fn \<Rightarrow> nat \<Rightarrow> nat \<Rightarrow> 'z buddy_scheme \<Rightarrow> 'z buddy_scheme res" where
  "merge_level FR 0 i st = Inl Spin"
| "merge_level FR (Suc n) i st =
     rbind (find_mergeable i (free_list st i) st) (\<lambda>r. case r of
       None \<Rightarrow> Inr st
     | Some (block, pg, bpg) \<Rightarrow> rbind (merge_pair FR block pg bpg st) (merge_level FR n i))"

fun merge_from :: "'z free_fn \<Rightarrow> nat list \<Rightarrow> 'z buddy_scheme \<Rightarrow> 'z buddy_scheme res" where
  "merge_from FR [] st = Inr st"
| "merge_from FR (i # is) st =
     rbind (list_at i st) (\<lambda>bs.
       if bs = [] then merge_from FR is st
       else rbind (merge_level FR (Suc (length bs)) i st) (merge_from FR is))"

definition merge_blocks :: "'z free_fn \<Rightarrow> nat \<Rightarrow> 'z buddy_scheme \<Rightarrow> 'z buddy_scheme res" where
  "merge_blocks FR k st = merge_from FR [0..<k] st"

definition split_one :: "'z alloc_fn \<Rightarrow> nat \<Rightarrow> 'z buddy_scheme \<Rightarrow> 'z buddy_scheme res" where
  "split_one AL k st =
     rbind (first_entry k st) (\<lambda>block.
     rbind (the_page (blk_start st block)) (\<lambda>pg.
       if unat (order (pages st pg)) \<noteq> k then Inl (Panic ''split_blocks: page order'')
       else
         rbind (unlink block st) (\<lambda>st.
         rbind (AL st) (\<lambda>(buddy_block, st).
           if buddy_block = NULL then Inl (Panic ''buddy metadata OOM in split_blocks'')
           else
             let new_order = (of_nat (k - 1) :: u8);
                 st = upd_page pg (\<lambda>q. q\<lparr>order := new_order\<rparr>) st;
                 bstart = get_buddy_addr (blk_start st block) new_order;
                 st = st\<lparr>blk_start := (blk_start st)(buddy_block := bstart)\<rparr>
             in rbind (the_page bstart) (\<lambda>bpg.
                  let st = upd_page bpg (\<lambda>q. q\<lparr>order := new_order, priv := buddy_block\<rparr>) st
                  in rbind (push_back (k - 1) block st) (push_back (k - 1) buddy_block))))))"

fun split_down :: "'z alloc_fn \<Rightarrow> nat \<Rightarrow> nat \<Rightarrow> 'z buddy_scheme \<Rightarrow> 'z buddy_scheme res" where
  "split_down AL 0 target st = Inr st"
| "split_down AL (Suc k) target st =
     (if target < Suc k then rbind (split_one AL (Suc k) st) (split_down AL k target) else Inr st)"

definition split_blocks :: "'z alloc_fn \<Rightarrow> nat \<Rightarrow> 'z buddy_scheme \<Rightarrow> 'z buddy_scheme res" where
  "split_blocks AL target st =
     (case find (\<lambda>k. free_list st k \<noteq> []) [Suc target..<Suc BUDDY_MAX_ORDER] of
        None \<Rightarrow> Inr st
      | Some source \<Rightarrow> split_down AL source target st)"

definition buddy_alloc_inner :: "'z free_fn \<Rightarrow> nat \<Rightarrow> 'z buddy_scheme \<Rightarrow> (addr \<times> 'z buddy_scheme) res" where
  "buddy_alloc_inner FR k st =
     rbind (first_entry k st) (\<lambda>block.
     rbind (the_page (blk_start st block)) (\<lambda>pg.
       if unat (order (pages st pg)) \<noteq> k then Inl (Panic ''buddy order broken'')
       else
         let st = upd_page pg (\<lambda>q. q\<lparr>priv := NULL\<rparr>) st;
             a = blk_start st block
         in rbind (unlink block st) (\<lambda>st.
            rbind (FR block st) (\<lambda>st.
              Inr (a, st\<lparr>buddy_free_pages := buddy_free_pages st - push_bit k 1\<rparr>)))))"

definition buddy_alloc_nolock ::
  "'z alloc_fn \<Rightarrow> 'z free_fn \<Rightarrow> u64 \<Rightarrow> 'z buddy_scheme \<Rightarrow> (addr \<times> 'z buddy_scheme) res" where
  "buddy_alloc_nolock AL FR sz st =
     (let k = unat (size2order sz)
      in rbind (list_at k st) (\<lambda>bs.
         if bs \<noteq> [] then buddy_alloc_inner FR k st
         else rbind (merge_blocks FR k st) (\<lambda>st.
           if free_list st k \<noteq> [] then buddy_alloc_inner FR k st
           else rbind (split_blocks AL k st) (\<lambda>st.
             if free_list st k \<noteq> [] then buddy_alloc_inner FR k st
             else Inr (NULL, st)))))"

definition buddy_acquire :: "'z buddy_scheme \<Rightarrow> 'z buddy_scheme res" where
  "buddy_acquire st =
     rbind (spinlock_acquire (cpu st, buddy_lock st)) (\<lambda>(c, l). Inr (st\<lparr>cpu := c, buddy_lock := l\<rparr>))"

definition buddy_release :: "'z buddy_scheme \<Rightarrow> 'z buddy_scheme res" where
  "buddy_release st =
     rbind (spinlock_release (cpu st, buddy_lock st)) (\<lambda>(c, l). Inr (st\<lparr>cpu := c, buddy_lock := l\<rparr>))"

definition buddy_alloc ::
  "'z alloc_fn \<Rightarrow> 'z free_fn \<Rightarrow> u64 \<Rightarrow> 'z buddy_scheme \<Rightarrow> (addr \<times> 'z buddy_scheme) res" where
  "buddy_alloc AL FR sz st =
     (if sz < PAGE_SIZE \<or> BUDDY_BLOB_SIZE < sz then Inr (NULL, st)
      else if spinlock_holding (cpu st) (buddy_lock st) then buddy_alloc_nolock AL FR sz st
      else
        rbind (buddy_acquire st) (\<lambda>st.
        rbind (buddy_alloc_nolock AL FR sz st) (\<lambda>(a, st).
        rbind (buddy_release st) (\<lambda>st. Inr (a, st)))))"

definition buddy_free :: "'z alloc_fn \<Rightarrow> addr \<Rightarrow> 'z buddy_scheme \<Rightarrow> 'z buddy_scheme res" where
  "buddy_free AL a st =
     rbind (AL st) (\<lambda>(block, st).
       if block = NULL then Inl (Panic ''OOM during buddy free'')
       else
         rbind (the_page a) (\<lambda>pg.
           let st = st\<lparr>blk_start := (blk_start st)(block := a)\<rparr>;
               st = upd_page pg (\<lambda>q. q\<lparr>priv := block\<rparr>) st
           in rbind (buddy_acquire st) (\<lambda>st.
              let k = unat (order (pages st pg));
                  st = st\<lparr>buddy_free_pages := buddy_free_pages st + push_bit k 1\<rparr>
              in rbind (push_front k block st) buddy_release)))"

text \<open>The code that would count single pages is commented out: \<^verbatim>\<open>single_free_pages\<close> keeps its initial value.\<close>

definition single_free_pages :: u64 where "single_free_pages = 0"

definition get_free_pages_num :: "'z buddy_scheme \<Rightarrow> u64" where
  "get_free_pages_num st = buddy_free_pages st + single_free_pages"

end
