(* ===== verification/Bitmap.thy ===== *)
theory Bitmap
  imports Kernel_Prelude
begin

text \<open>
  The bitmap of \<^verbatim>\<open>include/misc/bitmap.h\<close>: a byte buffer and a length in bits. The buffer is
  the function from byte index to byte that the pointer \<^verbatim>\<open>data\<close> denotes; \<^verbatim>\<open>len\<close> and the bit
  indices are naturals (the sums \<^verbatim>\<open>len + 7\<close> of the source do not wrap for a bitmap that fits
  in memory). The locale \<open>bit_store\<close> is the contract that the slab allocator relies on; it
  is interpreted here on the bitmap operations.
\<close>

section \<open>Operations\<close>

record bitmap =
  data :: "nat \<Rightarrow> u8"
  len :: nat

definition bitmap_get :: "bitmap \<Rightarrow> nat \<Rightarrow> nat" where
  "bitmap_get bm bit_idx =
     (if bit_idx \<ge> len bm then 0
      else
        let byte_idx = drop_bit 3 bit_idx; bit_off = bit_idx AND 7
        in unat (drop_bit bit_off (data bm byte_idx) AND 1))"

definition bitmap_set :: "bitmap \<Rightarrow> nat \<Rightarrow> bitmap" where
  "bitmap_set bm bit_idx =
     (if bit_idx \<ge> len bm then bm
      else
        let byte_idx = drop_bit 3 bit_idx; bit_off = bit_idx AND 7
        in bm\<lparr>data := (data bm)(byte_idx := data bm byte_idx OR push_bit bit_off 1)\<rparr>)"

definition bitmap_clear :: "bitmap \<Rightarrow> nat \<Rightarrow> bitmap" where
  "bitmap_clear bm bit_idx =
     (if bit_idx \<ge> len bm then bm
      else
        let byte_idx = drop_bit 3 bit_idx; bit_off = bit_idx AND 7
        in bm\<lparr>data := (data bm)(byte_idx := data bm byte_idx AND NOT (push_bit bit_off 1))\<rparr>)"

definition bitmap_flip :: "bitmap \<Rightarrow> nat \<Rightarrow> bitmap" where
  "bitmap_flip bm bit_idx =
     (if bit_idx \<ge> len bm then bm
      else
        let byte_idx = drop_bit 3 bit_idx; bit_off = bit_idx AND 7
        in bm\<lparr>data := (data bm)(byte_idx := data bm byte_idx XOR push_bit bit_off 1)\<rparr>)"

definition bitmap_assign :: "bitmap \<Rightarrow> nat \<Rightarrow> int \<Rightarrow> bitmap" where
  "bitmap_assign bm bit_idx val =
     (if val \<noteq> 0 then bitmap_set bm bit_idx else bitmap_clear bm bit_idx)"

text \<open>
  The inner loop \<^verbatim>\<open>while ((b & 1) == 0) { b >>= 1; off++; }\<close>. Both callers enter it under
  \<^verbatim>\<open>if (b)\<close>; the loop would not end for 0, so the equation returns the counter there.
\<close>

function low_bit_loop :: "u8 \<Rightarrow> nat \<Rightarrow> nat" where
  "low_bit_loop b off =
     (if b = 0 \<or> b AND 1 \<noteq> 0 then off else low_bit_loop (drop_bit 1 b) (off + 1))"
  by pat_completeness auto
termination
proof (relation "measure (\<lambda>(b, off). unat b)", goal_cases)
  case (2 b off)
  then have "0 < unat b" by (simp add: unat_gt_0)
  then show ?case by (simp add: unat_drop_bit del: unat_gt_0)
qed simp

declare low_bit_loop.simps [simp del]

function find_set_bytes :: "bitmap \<Rightarrow> nat \<Rightarrow> nat" where
  "find_set_bytes bm i =
     (if i < drop_bit 3 (len bm + 7)
      then
        let b = data bm i
        in if b \<noteq> 0
           then (let pos = push_bit 3 i + low_bit_loop b 0 in if pos < len bm then pos else len bm)
           else find_set_bytes bm (i + 1)
      else len bm)"
  by pat_completeness auto
termination
  by (relation "measure (\<lambda>(bm, i). drop_bit 3 (len bm + 7) - i)") auto

declare find_set_bytes.simps [simp del]

definition bitmap_find_next_set :: "bitmap \<Rightarrow> nat \<Rightarrow> nat" where
  "bitmap_find_next_set bm bit_idx =
     (if bit_idx \<ge> len bm then len bm
      else
        let byte_idx = drop_bit 3 bit_idx;
            bit_off = bit_idx AND 7;
            m = push_bit bit_off (0xFF :: u8);
            b = data bm byte_idx AND m
        in if b \<noteq> 0 then push_bit 3 byte_idx + bit_off + low_bit_loop b 0
           else find_set_bytes bm (byte_idx + 1))"

function find_clear_bytes :: "bitmap \<Rightarrow> nat \<Rightarrow> nat" where
  "find_clear_bytes bm i =
     (let max_byte = drop_bit 3 (len bm + 7)
      in if i < max_byte
         then
           let b = NOT (data bm i);
               tail_bits = len bm AND 7;
               b = (if i = max_byte - 1 \<and> tail_bits \<noteq> 0
                    then b AND (push_bit tail_bits 1 - 1) else b)
           in if b \<noteq> 0 then push_bit 3 i + low_bit_loop b 0 else find_clear_bytes bm (i + 1)
         else len bm)"
  by pat_completeness auto
termination
  by (relation "measure (\<lambda>(bm, i). drop_bit 3 (len bm + 7) - i)") auto

declare find_clear_bytes.simps [simp del]

definition bitmap_find_next_clear :: "bitmap \<Rightarrow> nat \<Rightarrow> nat" where
  "bitmap_find_next_clear bm bit_idx =
     (if bit_idx \<ge> len bm then len bm
      else
        let byte_idx = drop_bit 3 bit_idx;
            bit_off = bit_idx AND 7;
            m = push_bit bit_off (0xFF :: u8);
            b = NOT (data bm byte_idx) AND m
        in if b \<noteq> 0 then push_bit 3 byte_idx + bit_off + low_bit_loop b 0
           else find_clear_bytes bm (byte_idx + 1))"

section \<open>The bits of a bitmap\<close>

definition bm_bit :: "bitmap \<Rightarrow> nat \<Rightarrow> bool" where
  "bm_bit bm i \<longleftrightarrow> bit (data bm (i div 8)) (i mod 8)"

lemma and_7: "(n::nat) AND 7 = n mod 8"
  using take_bit_eq_mask [of 3 n] by (simp add: take_bit_eq_mod mask_eq_exp_minus_1)

lemma byte_index [simp]:
  "drop_bit 3 (n::nat) = n div 8" "push_bit 3 (n::nat) = n * 8"
  by (simp_all add: drop_bit_eq_div push_bit_eq_mult)

lemma bit_eq_index_iff: "(j::nat) div 8 = i div 8 \<and> j mod 8 = i mod 8 \<longleftrightarrow> j = i"
  by (metis div_mult_mod_eq)

lemma bitmap_get_bit: "bitmap_get bm i = (if i < len bm \<and> bm_bit bm i then 1 else 0)"
  by (auto simp: bitmap_get_def bm_bit_def and_7 bit_iff_odd_drop_bit and_one_eq mod2_eq_if Let_def)

lemma len_ops [simp]:
  "len (bitmap_set bm i) = len bm" "len (bitmap_clear bm i) = len bm"
  "len (bitmap_flip bm i) = len bm" "len (bitmap_assign bm i v) = len bm"
  by (simp_all add: bitmap_set_def bitmap_clear_def bitmap_flip_def bitmap_assign_def Let_def)

lemma mod_8_less [simp]: "(i::nat) mod 8 < 8"
  by simp

lemma bm_bit_set: "bm_bit (bitmap_set bm i) j \<longleftrightarrow> (i < len bm \<and> j = i) \<or> bm_bit bm j"
  using bit_eq_index_iff [of j i]
  by (auto simp: bm_bit_def bitmap_set_def and_7 bit_simps Let_def)

lemma bm_bit_clear: "bm_bit (bitmap_clear bm i) j \<longleftrightarrow> bm_bit bm j \<and> \<not> (i < len bm \<and> j = i)"
  using bit_eq_index_iff [of j i]
  by (auto simp: bm_bit_def bitmap_clear_def and_7 bit_simps Let_def)

lemma bm_bit_flip: "bm_bit (bitmap_flip bm i) j \<longleftrightarrow> (bm_bit bm j \<noteq> (i < len bm \<and> j = i))"
  using bit_eq_index_iff [of j i]
  by (auto simp: bm_bit_def bitmap_flip_def and_7 bit_simps Let_def)

section \<open>Searching\<close>

text \<open>The loop finds the position of the lowest set bit.\<close>

lemma low_bit_loop_spec:
  "b \<noteq> 0 \<Longrightarrow> \<exists>k. low_bit_loop b off = off + k \<and> k < 8 \<and> bit b k \<and> (\<forall>j<k. \<not> bit b j)"
proof (induction b off rule: low_bit_loop.induct)
  case (1 b off)
  show ?case
  proof (cases "b AND 1 = 0")
    case True
    then have even: "\<not> bit b 0" by (simp add: bit_0 and_one_eq mod2_eq_if split: if_splits)
    have nz: "drop_bit 1 b \<noteq> 0"
    proof
      assume z: "drop_bit 1 b = 0"
      have "b = 0"
      proof (rule bit_word_eqI)
        fix n
        show "bit b n \<longleftrightarrow> bit 0 n"
        proof (cases n)
          case (Suc m)
          have "bit (drop_bit 1 b) m = bit b (Suc m)" by (simp add: bit_drop_bit_eq)
          with z Suc show ?thesis by simp
        qed (use even in simp)
      qed
      with "1.prems" show False by simp
    qed
    obtain k where k: "low_bit_loop (drop_bit 1 b) (off + 1) = off + 1 + k" "k < 8"
      "bit (drop_bit 1 b) k" "\<forall>j<k. \<not> bit (drop_bit 1 b) j"
      using "1.IH" "1.prems" True nz by auto
    have b: "bit b (Suc k)" using k(3) by (simp add: bit_drop_bit_eq)
    have "\<not> bit b j" if "j < Suc k" for j
      using that even k(4) by (cases j) (auto simp: bit_drop_bit_eq)
    moreover have "Suc k < 8" using bit_imp_le_length [OF b] by simp
    ultimately show ?thesis
      using "1.prems" True k(1) b by (intro exI [of _ "Suc k"]) (simp add: low_bit_loop.simps [of b])
  next
    case False
    then have "bit b 0" by (simp add: bit_0 and_one_eq mod2_eq_if split: if_splits)
    with False "1.prems" show ?thesis
      by (intro exI [of _ 0]) (simp add: low_bit_loop.simps [of b])
  qed
qed

lemma word8_eq_0_iff: "(b :: u8) = 0 \<longleftrightarrow> (\<forall>k<8. \<not> bit b k)"
  by (auto intro!: bit_word_eqI)

lemma bm_bit_byte: "k < 8 \<Longrightarrow> bm_bit bm (i * 8 + k) \<longleftrightarrow> bit (data bm i) k"
  by (simp add: bm_bit_def)

lemma byte_offset:
  fixes j n m :: nat
  assumes "n \<le> j" and "j < n + m"
  obtains k where "j = n + k" and "k < m"
  using assms by (intro that [of "j - n"]) auto

text \<open>
  The result of a search among the bits \<open>P\<close> from \<open>start\<close>: the least index that has the
  property, or the length.
\<close>

definition least_from :: "(nat \<Rightarrow> bool) \<Rightarrow> nat \<Rightarrow> nat \<Rightarrow> nat \<Rightarrow> bool" where
  "least_from P start n r \<longleftrightarrow>
     (r = n \<or> (start \<le> r \<and> r < n \<and> P r)) \<and> (\<forall>j. start \<le> j \<and> j < r \<longrightarrow> \<not> P j)"

lemma least_from_shift:
  assumes r: "least_from P (start + d) n r"
    and none: "\<And>j. start \<le> j \<Longrightarrow> j < start + d \<Longrightarrow> j < n \<Longrightarrow> \<not> P j"
  shows "least_from P start n r"
proof -
  have "r \<le> n" and "r = n \<or> start \<le> r \<and> r < n \<and> P r"
    using r by (auto simp: least_from_def)
  moreover have "\<not> P j" if "start \<le> j" "j < r" for j
  proof (cases "j < start + d")
    case True
    with none that \<open>r \<le> n\<close> show ?thesis by simp
  next
    case False
    with r that show ?thesis by (simp add: least_from_def)
  qed
  ultimately show ?thesis by (auto simp: least_from_def)
qed

lemma find_set_bytes_spec: "least_from (bm_bit bm) (i * 8) (len bm) (find_set_bytes bm i)"
proof (induction bm i rule: find_set_bytes.induct)
  case (1 bm i)
  show ?case
  proof (cases "i < (len bm + 7) div 8")
    case in_range: True
    show ?thesis
    proof (cases "data bm i = 0")
      case True
      with in_range "1.IH" have "least_from (bm_bit bm) (i * 8 + 8) (len bm) (find_set_bytes bm (i + 1))"
        by (simp add: algebra_simps)
      moreover have "\<not> bm_bit bm j" if "i * 8 \<le> j" "j < i * 8 + 8" for j
      proof -
        from that obtain k where "j = i * 8 + k" "k < 8" by (rule byte_offset)
        with True show ?thesis by (simp add: bm_bit_byte)
      qed
      ultimately have "least_from (bm_bit bm) (i * 8) (len bm) (find_set_bytes bm (i + 1))"
        by (rule least_from_shift)
      then show ?thesis using True in_range by (simp add: find_set_bytes.simps [of bm i] Let_def)
    next
      case False
      then obtain k where k: "low_bit_loop (data bm i) 0 = k" "k < 8" "bit (data bm i) k"
        "\<forall>j<k. \<not> bit (data bm i) j"
        using low_bit_loop_spec [of "data bm i" 0] by auto
      have low: "\<not> bm_bit bm j" if "i * 8 \<le> j" "j < i * 8 + k" for j
      proof -
        from that obtain l where "j = i * 8 + l" "l < k" by (rule byte_offset)
        with k show ?thesis by (simp add: bm_bit_byte)
      qed
      show ?thesis
        using False in_range k low
        by (auto simp: find_set_bytes.simps [of bm i] least_from_def bm_bit_byte Let_def)
    qed
  next
    case False
    then have "len bm \<le> i * 8" by simp
    then show ?thesis using False by (auto simp: find_set_bytes.simps [of bm i] least_from_def)
  qed
qed

text \<open>
  The bytes of the clear search: the last byte is masked to the bits below \<open>len\<close>.
\<close>

definition clear_byte :: "bitmap \<Rightarrow> nat \<Rightarrow> u8" where
  "clear_byte bm i =
     (if i = (len bm + 7) div 8 - 1 \<and> len bm mod 8 \<noteq> 0
      then NOT (data bm i) AND mask (len bm mod 8) else NOT (data bm i))"

lemma byte_count: "(n + 7) div 8 = n div 8 + (if n mod 8 = 0 then 0 else (1::nat))"
proof -
  have "(n + 7) div 8 = n div 8 + (n mod 8 + 7) div 8"
    using div_add1_eq [of n 7 8] by simp
  moreover have "(n mod 8 + 7) div 8 = 1" if "n mod 8 \<noteq> 0"
    using that mod_8_less [of n] by (intro div_nat_eqI) auto
  ultimately show ?thesis by simp
qed

lemma bit_clear_byte:
  assumes "i < (len bm + 7) div 8" and "k < 8"
  shows "bit (clear_byte bm i) k \<longleftrightarrow> i * 8 + k < len bm \<and> \<not> bm_bit bm (i * 8 + k)"
proof (cases "i = (len bm + 7) div 8 - 1 \<and> len bm mod 8 \<noteq> 0")
  case True
  then have "i = len bm div 8" by (simp add: byte_count)
  then have "i * 8 + len bm mod 8 = len bm" by simp
  then have "i * 8 + k < len bm \<longleftrightarrow> k < len bm mod 8" by linarith
  with True assms(2) show ?thesis
    by (auto simp: clear_byte_def bit_simps bm_bit_byte)
next
  case False
  have "i < len bm div 8"
  proof (cases "len bm mod 8 = 0")
    case True
    then show ?thesis using assms(1) byte_count [of "len bm"] by (simp only: refl if_True add_0_right)
  next
    case nz: False
    then have "(len bm + 7) div 8 = len bm div 8 + 1" using byte_count [of "len bm"] by (simp only: if_False)
    with False nz assms(1) show ?thesis by linarith
  qed
  then have "Suc i * 8 \<le> len bm div 8 * 8" by (intro mult_le_mono1) simp
  also have "\<dots> \<le> len bm" by simp
  finally have "Suc i * 8 \<le> len bm" .
  with assms(2) have "i * 8 + k < len bm" by simp
  with False assms(2) show ?thesis
    by (auto simp: clear_byte_def bit_simps bm_bit_byte)
qed

lemma find_clear_bytes_unfold:
  "find_clear_bytes bm i =
     (if i < (len bm + 7) div 8
      then if clear_byte bm i \<noteq> 0 then i * 8 + low_bit_loop (clear_byte bm i) 0
           else find_clear_bytes bm (i + 1)
      else len bm)"
  by (simp add: find_clear_bytes.simps [of bm i] clear_byte_def and_7 Let_def
      mask_eq_exp_minus_1 push_bit_eq_mult)

lemma find_clear_bytes_spec:
  "least_from (\<lambda>j. \<not> bm_bit bm j) (i * 8) (len bm) (find_clear_bytes bm i)"
proof (induction "(len bm + 7) div 8 - i" arbitrary: i rule: less_induct)
  case (less i)
  show ?case
  proof (cases "i < (len bm + 7) div 8")
    case in_range: True
    show ?thesis
    proof (cases "clear_byte bm i = 0")
      case True
      then have set: "i * 8 + k < len bm \<longrightarrow> bm_bit bm (i * 8 + k)" if "k < 8" for k
        using bit_clear_byte [OF in_range that] by auto
      have "least_from (\<lambda>j. \<not> bm_bit bm j) (i * 8 + 8) (len bm) (find_clear_bytes bm (i + 1))"
        using less [of "i + 1"] in_range by (simp add: algebra_simps)
      moreover have "\<not> \<not> bm_bit bm j" if j: "i * 8 \<le> j" "j < i * 8 + 8" "j < len bm" for j
      proof -
        from j(1,2) obtain k where "j = i * 8 + k" "k < 8" by (rule byte_offset)
        with set j(3) show ?thesis by simp
      qed
      ultimately have "least_from (\<lambda>j. \<not> bm_bit bm j) (i * 8) (len bm) (find_clear_bytes bm (i + 1))"
        by (rule least_from_shift)
      then show ?thesis using True in_range by (simp add: find_clear_bytes_unfold [of bm i])
    next
      case False
      then obtain k where k: "low_bit_loop (clear_byte bm i) 0 = k" "k < 8" "bit (clear_byte bm i) k"
        "\<forall>j<k. \<not> bit (clear_byte bm i) j"
        using low_bit_loop_spec [of "clear_byte bm i" 0] by auto
      have hit: "i * 8 + k < len bm" "\<not> bm_bit bm (i * 8 + k)"
        using bit_clear_byte [OF in_range k(2)] k(3) by auto
      have "bm_bit bm j" if "i * 8 \<le> j" "j < i * 8 + k" for j
      proof -
        from that obtain l where l: "j = i * 8 + l" "l < k" by (rule byte_offset)
        then have "l < 8" using k(2) by simp
        with bit_clear_byte [OF in_range this] k(4) l hit(1) show ?thesis by auto
      qed
      with hit show ?thesis
        using False in_range k(1) by (auto simp: find_clear_bytes_unfold [of bm i] least_from_def)
    qed
  next
    case False
    then have "len bm \<le> i * 8" by simp
    then show ?thesis using False by (auto simp: find_clear_bytes_unfold [of bm i] least_from_def)
  qed
qed

text \<open>
  The first byte of both searches. Its candidate bits are kept in place by the mask, so the
  loop counts from bit 0 of the byte, and the code adds \<^verbatim>\<open>bit_off\<close> to that count again.
\<close>

lemma first_byte_hit:
  assumes "b = c AND push_bit off 0xFF" and "b \<noteq> (0 :: u8)" and "off < 8"
  shows "\<exists>k. low_bit_loop b 0 = k \<and> k < 8 \<and> off \<le> k \<and> bit c k \<and> (\<forall>j<k. off \<le> j \<longrightarrow> \<not> bit c j)"
proof -
  have m: "push_bit off (0xFF :: u8) = push_bit off (mask 8)" by (simp add: mask_eq_exp_minus_1)
  obtain k where k: "low_bit_loop b 0 = k" "k < 8" "bit b k" "\<forall>j<k. \<not> bit b j"
    using low_bit_loop_spec [OF assms(2), of 0] by auto
  then show ?thesis
    unfolding assms(1) m by (intro exI [of _ k]) (auto simp: bit_simps)
qed

lemma first_byte_miss:
  assumes "c AND push_bit off 0xFF = (0 :: u8)" and "off \<le> k" and "k < 8"
  shows "\<not> bit c k"
proof
  assume "bit c k"
  moreover have "push_bit off (0xFF :: u8) = push_bit off (mask 8)" by (simp add: mask_eq_exp_minus_1)
  ultimately have "bit (c AND push_bit off 0xFF) k" using assms(2,3) by (simp add: bit_simps)
  with assms(1) show False by simp
qed

lemma byte_start: "8 dvd i \<Longrightarrow> i = i div 8 * 8 \<and> i mod 8 = (0::nat)"
  by auto

text \<open>
  The first byte of the clear search is not masked to the length: a padding bit set just after
  the last valid bit would be skipped. The buffers of the kernel are zeroed first.
\<close>

definition tail_clear :: "bitmap \<Rightarrow> bool" where
  "tail_clear bm \<longleftrightarrow> len bm mod 8 = 0 \<or> \<not> bm_bit bm (len bm)"

lemma bitmap_find_next_clear_least:
  assumes aligned: "8 dvd i" and tail: "tail_clear bm"
  shows "least_from (\<lambda>j. \<not> bm_bit bm j) i (len bm) (bitmap_find_next_clear bm i)"
proof (cases "len bm \<le> i")
  case True
  then show ?thesis by (auto simp: bitmap_find_next_clear_def least_from_def)
next
  case False
  obtain q where i: "i = q * 8" using aligned by (metis byte_start)
  let ?b = "NOT (data bm q) AND push_bit 0 0xFF"
  show ?thesis
  proof (cases "?b = 0")
    case True
    have none: "\<not> \<not> bm_bit bm j" if "q * 8 \<le> j" "j < q * 8 + 8" for j
    proof -
      from that obtain k where k: "j = q * 8 + k" "k < 8" by (rule byte_offset)
      then show ?thesis using first_byte_miss [OF True, of k] by (simp add: bm_bit_byte bit_simps)
    qed
    have "least_from (\<lambda>j. \<not> bm_bit bm j) (q * 8 + 8) (len bm) (find_clear_bytes bm (q + 1))"
      using find_clear_bytes_spec [of bm "q + 1"] by (simp add: algebra_simps)
    then have "least_from (\<lambda>j. \<not> bm_bit bm j) (q * 8) (len bm) (find_clear_bytes bm (q + 1))"
      by (rule least_from_shift) (rule none)
    then show ?thesis using False True by (simp add: bitmap_find_next_clear_def i and_7 Let_def)
  next
    case nz: False
    obtain k where k: "low_bit_loop ?b 0 = k" "k < 8" "bit (NOT (data bm q)) k"
      "\<forall>j<k. \<not> bit (NOT (data bm q)) j"
      using first_byte_hit [OF refl nz] by auto
    have set: "bm_bit bm j" if "q * 8 \<le> j" "j < q * 8 + k" for j
    proof -
      from that obtain l where l: "j = q * 8 + l" "l < k" by (rule byte_offset)
      then show ?thesis using k by (simp add: bm_bit_byte bit_simps)
    qed
    have clear: "\<not> bm_bit bm (q * 8 + k)" using k by (simp add: bm_bit_byte bit_simps)
    have val: "bitmap_find_next_clear bm i = q * 8 + k"
      using False nz k(1) by (simp add: bitmap_find_next_clear_def i and_7 Let_def)
    show ?thesis
    proof (cases "q * 8 + k < len bm")
      case True
      then show ?thesis using set clear unfolding val by (auto simp: i least_from_def)
    next
      case out: False
      have "q * 8 + k = len bm"
      proof (rule ccontr)
        assume "q * 8 + k \<noteq> len bm"
        with out have hi: "len bm < q * 8 + k" by simp
        have lo: "q * 8 < len bm" using False i by simp
        have "bm_bit bm (len bm)" using set lo hi by simp
        with tail have "8 dvd len bm" by (simp add: tail_clear_def mod_eq_0_iff_dvd)
        then obtain p where "len bm = p * 8" by (metis byte_start)
        with lo hi k(2) show False by simp
      qed
      then show ?thesis using set unfolding val by (auto simp: i least_from_def)
    qed
  qed
qed

lemma bitmap_find_next_set_least:
  assumes aligned: "8 dvd i" and tail: "\<And>j. len bm \<le> j \<Longrightarrow> j div 8 = len bm div 8 \<Longrightarrow> \<not> bm_bit bm j"
  shows "least_from (bm_bit bm) i (len bm) (bitmap_find_next_set bm i)"
proof (cases "len bm \<le> i")
  case True
  then show ?thesis by (auto simp: bitmap_find_next_set_def least_from_def)
next
  case False
  obtain q where i: "i = q * 8" using aligned by (metis byte_start)
  let ?b = "data bm q AND push_bit 0 0xFF"
  show ?thesis
  proof (cases "?b = 0")
    case True
    have none: "\<not> bm_bit bm j" if "q * 8 \<le> j" "j < q * 8 + 8" for j
    proof -
      from that obtain k where k: "j = q * 8 + k" "k < 8" by (rule byte_offset)
      then show ?thesis using first_byte_miss [OF True, of k] by (simp add: bm_bit_byte)
    qed
    have "least_from (bm_bit bm) (q * 8 + 8) (len bm) (find_set_bytes bm (q + 1))"
      using find_set_bytes_spec [of bm "q + 1"] by (simp add: algebra_simps)
    then have "least_from (bm_bit bm) (q * 8) (len bm) (find_set_bytes bm (q + 1))"
      by (rule least_from_shift) (rule none)
    then show ?thesis using False True by (simp add: bitmap_find_next_set_def i and_7 Let_def)
  next
    case nz: False
    obtain k where k: "low_bit_loop ?b 0 = k" "k < 8" "bit (data bm q) k" "\<forall>j<k. \<not> bit (data bm q) j"
      using first_byte_hit [OF refl nz] by auto
    have clear: "\<not> bm_bit bm j" if "q * 8 \<le> j" "j < q * 8 + k" for j
    proof -
      from that obtain l where l: "j = q * 8 + l" "l < k" by (rule byte_offset)
      then show ?thesis using k by (simp add: bm_bit_byte)
    qed
    have hit: "bm_bit bm (q * 8 + k)" using k by (simp add: bm_bit_byte)
    have "q * 8 + k < len bm"
    proof (rule ccontr)
      assume "\<not> q * 8 + k < len bm"
      moreover have "q * 8 < len bm" using False i by simp
      ultimately have "len bm div 8 = q" using k(2) by (intro div_nat_eqI) auto
      with tail [of "q * 8 + k"] \<open>\<not> q * 8 + k < len bm\<close> k(2) hit show False by simp
    qed
    moreover have "bitmap_find_next_set bm i = q * 8 + k"
      using False nz k(1) by (simp add: bitmap_find_next_set_def i and_7 Let_def)
    ultimately show ?thesis using clear hit by (auto simp: i least_from_def)
  qed
qed

text \<open>
  From an index inside a byte, a hit \<open>p\<close> in that byte is reported as \<open>p + bit_off\<close>.
\<close>

lemma find_next_set_unaligned:
  assumes "i < len bm" and "bm_bit bm p" and "i \<le> p" and "p div 8 = i div 8"
    and "\<And>j. i \<le> j \<Longrightarrow> j < p \<Longrightarrow> \<not> bm_bit bm j"
  shows "bitmap_find_next_set bm i = p + i mod 8"
proof -
  let ?c = "data bm (i div 8)"
  let ?b = "?c AND push_bit (i mod 8) 0xFF"
  have ids: "p = i div 8 * 8 + p mod 8" "i = i div 8 * 8 + i mod 8"
    using assms(4) by (metis div_mult_mod_eq)+
  have off: "i mod 8 \<le> p mod 8" using ids assms(3) by linarith
  have hit: "bit ?c (p mod 8)" using assms(2,4) by (simp add: bm_bit_def)
  have nz: "?b \<noteq> 0"
    using first_byte_miss [of ?c "i mod 8" "p mod 8"] off hit by auto
  obtain k where k: "low_bit_loop ?b 0 = k" "k < 8" "i mod 8 \<le> k" "bit ?c k"
    "\<forall>j<k. i mod 8 \<le> j \<longrightarrow> \<not> bit ?c j"
    using first_byte_hit [OF refl nz] by auto
  have "\<not> p mod 8 < k" using k(5) off hit by auto
  moreover have "\<not> k < p mod 8"
  proof
    assume "k < p mod 8"
    then have "\<not> bm_bit bm (i div 8 * 8 + k)"
      using assms(5) [of "i div 8 * 8 + k"] ids k(3) by linarith
    with k(2,4) show False by (simp add: bm_bit_byte)
  qed
  ultimately have "k = p mod 8" by simp
  then have "bitmap_find_next_set bm i = i div 8 * 8 + i mod 8 + p mod 8"
    using assms(1) nz k(1) by (simp add: bitmap_find_next_set_def and_7 Let_def)
  with ids show ?thesis by linarith
qed

section \<open>The contract of a set of bits\<close>

text \<open>
  What a client of the bitmap relies on: a fixed number of positions, reading after writing,
  and a search for a free position. Counting the taken positions is derived once from the laws.
\<close>

locale bit_store =
  fixes size_of :: "'b \<Rightarrow> nat"
    and get :: "'b \<Rightarrow> nat \<Rightarrow> bool"
    and take_pos :: "'b \<Rightarrow> nat \<Rightarrow> 'b"
    and free_pos :: "'b \<Rightarrow> nat \<Rightarrow> 'b"
    and search :: "'b \<Rightarrow> nat"
    and ok :: "'b \<Rightarrow> bool"
  assumes size_take: "size_of (take_pos b i) = size_of b"
    and size_free: "size_of (free_pos b i) = size_of b"
    and get_take: "i < size_of b \<Longrightarrow> get (take_pos b i) j \<longleftrightarrow> j = i \<or> get b j"
    and get_free: "i < size_of b \<Longrightarrow> get (free_pos b i) j \<longleftrightarrow> j \<noteq> i \<and> get b j"
    and search_clear: "ok b \<Longrightarrow> search b < size_of b \<Longrightarrow> \<not> get b (search b)"
    and search_full: "ok b \<Longrightarrow> i < size_of b \<Longrightarrow> \<not> get b i \<Longrightarrow> search b \<le> i"
    and ok_take: "ok b \<Longrightarrow> i < size_of b \<Longrightarrow> ok (take_pos b i)"
    and ok_free: "ok b \<Longrightarrow> i < size_of b \<Longrightarrow> ok (free_pos b i)"
begin

definition used :: "'b \<Rightarrow> nat set" where
  "used b = {i. i < size_of b \<and> get b i}"

lemma finite_used [simp]: "finite (used b)"
  by (simp add: used_def)

lemma used_take: "i < size_of b \<Longrightarrow> used (take_pos b i) = insert i (used b)"
  by (auto simp: used_def size_take get_take)

lemma used_free: "i < size_of b \<Longrightarrow> used (free_pos b i) = used b - {i}"
  by (auto simp: used_def size_free get_free)

lemma card_used_take:
  "i < size_of b \<Longrightarrow> \<not> get b i \<Longrightarrow> card (used (take_pos b i)) = Suc (card (used b))"
  by (simp add: used_take) (simp add: used_def)

lemma card_used_free:
  assumes "i < size_of b" and "get b i"
  shows "card (used b) = Suc (card (used (free_pos b i)))"
proof -
  have "i \<in> used b" using assms by (simp add: used_def)
  then show ?thesis using card_Suc_Diff1 [OF finite_used] assms(1) by (simp add: used_free)
qed

lemma card_used_le: "card (used b) \<le> size_of b"
proof -
  have "used b \<subseteq> {..<size_of b}" by (auto simp: used_def)
  then have "card (used b) \<le> card {..<size_of b}" by (intro card_mono) auto
  then show ?thesis by simp
qed

lemma search_succeeds:
  assumes "ok b" and "card (used b) < size_of b"
  shows "search b < size_of b" and "search b \<notin> used b"
proof -
  have "\<exists>i. i < size_of b \<and> \<not> get b i"
  proof (rule ccontr)
    assume "\<not> ?thesis"
    then have "used b = {..<size_of b}" by (auto simp: used_def)
    with assms(2) show False by simp
  qed
  then obtain i where "i < size_of b" "\<not> get b i" by blast
  then have "search b \<le> i" using search_full [OF assms(1)] by blast
  with \<open>i < size_of b\<close> show lt: "search b < size_of b" by simp
  then show "search b \<notin> used b" using search_clear [OF assms(1)] by (simp add: used_def)
qed

end

interpretation bmap: bit_store len bm_bit bitmap_set bitmap_clear
  "\<lambda>b. bitmap_find_next_clear b 0" tail_clear
proof (unfold_locales, goal_cases)
  case (5 b)
  then show ?case using bitmap_find_next_clear_least [of 0 b] by (auto simp: least_from_def)
next
  case (6 b i)
  then have "least_from (\<lambda>j. \<not> bm_bit b j) 0 (len b) (bitmap_find_next_clear b 0)"
    by (intro bitmap_find_next_clear_least) auto
  with 6 have "\<not> i < bitmap_find_next_clear b 0" by (auto simp: least_from_def)
  then show ?case by simp
qed (auto simp: bm_bit_set bm_bit_clear tail_clear_def)

end
