(* ===== verification/Slab.thy ===== *)
theory Slab
  imports Buddy Bitmap
begin

text \<open>
  The slab allocator of \<^verbatim>\<open>src/mm/slab.c\<close>. A slab is identified by the address of its blob, a cache
  by the address of its \<^verbatim>\<open>struct kmem_cache\<close>; the lists of a cache are HOL lists of slab addresses.
  The state extends the one of the buddy allocator. \<^verbatim>\<open>buddy_alloc\<close> and \<^verbatim>\<open>buddy_free\<close> are the
  arguments \<open>BA\<close> and \<open>BF\<close>, because the buddy allocator calls back into \<^verbatim>\<open>kmalloc\<close>; the theory
  \<open>Kalloc\<close> ties the knot.
\<close>

section \<open>State\<close>

record kmem_cache =
  c_name :: string
  obj_size :: u32
  alloc_size :: u32
  c_total :: u64
  c_free :: u64
  low :: u32
  high :: u32
  expanding :: bool
  c_lock :: spinlock
  slabs_full :: "addr list"
  slabs_partial :: "addr list"
  slabs_free :: "addr list"

record slab =
  s_kmem :: addr
  s_bm :: bitmap
  s_total :: u32
  s_free :: u32
  s_offset :: u32
  s_magic :: u16

record mm = buddy +
  kmem :: "addr \<Rightarrow> kmem_cache"
  slab_at :: "addr \<Rightarrow> slab"
  pool_base :: addr

text \<open>\<open>pool_base\<close> is the link-time address of the array \<^verbatim>\<open>kalloc_mem_pool\<close>.\<close>

type_synonym buddy_alloc_fn = "u64 \<Rightarrow> mm \<Rightarrow> (addr \<times> mm) res"
type_synonym buddy_free_fn = "addr \<Rightarrow> mm \<Rightarrow> mm res"

definition SLAB_MAGIC :: u16 where "SLAB_MAGIC = 0x51AB"
definition sizeof_slab :: u64 where "sizeof_slab = 56"

definition upd_cache :: "addr \<Rightarrow> (kmem_cache \<Rightarrow> kmem_cache) \<Rightarrow> mm \<Rightarrow> mm" where
  "upd_cache c f st = st\<lparr>kmem := (kmem st)(c := f (kmem st c))\<rparr>"

definition upd_slab :: "addr \<Rightarrow> (slab \<Rightarrow> slab) \<Rightarrow> mm \<Rightarrow> mm" where
  "upd_slab s f st = st\<lparr>slab_at := (slab_at st)(s := f (slab_at st s))\<rparr>"

text \<open>
  The node of a slab is on one of the three lists of its cache; unlinking takes it off, and a
  node on no list is the fault \<open>Bad_List\<close>.
\<close>

definition slab_unlink :: "addr \<Rightarrow> addr \<Rightarrow> mm \<Rightarrow> mm res" where
  "slab_unlink c s st =
     (let k = kmem st c
      in if s \<in> set (slabs_full k) \<or> s \<in> set (slabs_partial k) \<or> s \<in> set (slabs_free k)
         then Inr (upd_cache c (\<lambda>k. k\<lparr>slabs_full := remove1 s (slabs_full k),
                slabs_partial := remove1 s (slabs_partial k), slabs_free := remove1 s (slabs_free k)\<rparr>) st)
         else Inl Bad_List)"

section \<open>Slabs\<close>

definition object_num :: "u32 \<Rightarrow> u32" where
  "object_num osz =
     (let D = (ucast (8 * osz + 1) :: u64);
          N = 8 * (SLAB_BLOB_SIZE - sizeof_slab) - 7
      in ucast (N div D))"

definition slab_empty :: "slab \<Rightarrow> bool" where
  "slab_empty s \<longleftrightarrow> s_total s = s_free s"

definition bitmap_bytes :: "u32 \<Rightarrow> u64" where
  "bitmap_bytes n = ALIGN_UP (ucast n) 8 div 8"

definition slab_offset :: "u32 \<Rightarrow> u32 \<Rightarrow> u32" where
  "slab_offset n osz = ucast (ALIGN_UP (sizeof_slab + bitmap_bytes n) (ucast osz))"

text \<open>
  The pages of a blob get or lose the flag \<^verbatim>\<open>PM_SLAB\<close>, which \<^verbatim>\<open>kfree\<close> dispatches on. For an address without a page,
  \<^verbatim>\<open>slab_init\<close> follows the null pointer and \<^verbatim>\<open>slab_destroy\<close> panics: the fault \<open>e\<close>.
\<close>

definition mark_slab_pages :: "fault \<Rightarrow> (u16 \<Rightarrow> u16) \<Rightarrow> addr \<Rightarrow> mm \<Rightarrow> (int \<times> mm) res" where
  "mark_slab_pages e f blob st =
     for_addr 0 SLAB_BLOB_SIZE PAGE_SIZE
       (\<lambda>p st. case addr2page (p + blob) of
            None \<Rightarrow> Inl e
          | Some pg \<Rightarrow> Inr (0, upd_page pg (\<lambda>q. q\<lparr>flags := f (flags q)\<rparr>) st)) st"

definition slab_init :: "addr \<Rightarrow> addr \<Rightarrow> mm \<Rightarrow> mm res" where
  "slab_init c blob st =
     rbind (mark_slab_pages Null_Deref (\<lambda>fl. fl OR PM_SLAB) blob st) (\<lambda>(_, st).
       let n = object_num (alloc_size (kmem st c));
           off = slab_offset n (obj_size (kmem st c));
           st = upd_slab blob (\<lambda>_. \<lparr>s_kmem = c, s_bm = \<lparr>data = (\<lambda>_. 0), len = unat n\<rparr>,
                  s_total = n, s_free = n, s_offset = off, s_magic = SLAB_MAGIC\<rparr>) st
       in Inr (upd_cache c (\<lambda>k. k\<lparr>slabs_partial := slabs_partial k @ [blob]\<rparr>) st))"

definition slab_destroy :: "buddy_free_fn \<Rightarrow> addr \<Rightarrow> mm \<Rightarrow> mm res" where
  "slab_destroy BF blob st =
     rbind (mark_slab_pages (Panic ''invalid addr in slab_destroy'') (\<lambda>fl. fl AND NOT PM_SLAB) blob st) (\<lambda>(_, st).
       let st = upd_slab blob (\<lambda>s. s\<lparr>s_magic := 0\<rparr>) st
       in rbind (slab_unlink (s_kmem (slab_at st blob)) blob st) (BF blob))"

definition slab_alloc :: "addr \<Rightarrow> mm \<Rightarrow> (addr \<times> mm) res" where
  "slab_alloc s st =
     (let st = upd_slab s (\<lambda>x. x\<lparr>s_free := s_free x - 1\<rparr>) st;
          c = s_kmem (slab_at st s)
      in rbind (if s_free (slab_at st s) = 0
                then rbind (slab_unlink c s st)
                       (\<lambda>st. Inr (upd_cache c (\<lambda>k. k\<lparr>slabs_full := s # slabs_full k\<rparr>) st))
                else Inr st) (\<lambda>st.
           let bm = s_bm (slab_at st s);
               idx = bitmap_find_next_clear bm 0
           in if idx = len bm then Inl (Panic ''slab meta data error'')
              else
                let st = upd_slab s (\<lambda>x. x\<lparr>s_bm := bitmap_set (s_bm x) idx\<rparr>) st
                in Inr (s + ucast (s_offset (slab_at st s)) + ucast (of_nat idx * alloc_size (kmem st c)), st)))"

definition slab_free :: "addr \<Rightarrow> mm \<Rightarrow> mm res" where
  "slab_free a st =
     (let s = SLAB_ALIGN_DOWN a;
          x = slab_at st s;
          c = s_kmem x
      in if s_magic x \<noteq> SLAB_MAGIC then Inl (Panic ''trying free an address not in a slab'')
         else
           let obj_offset = (ucast (a - s) :: u32)
           in if obj_offset < s_offset x then Inl (Panic ''trying free slab meta data'')
              else
                let idx = (obj_offset - s_offset x) div alloc_size (kmem st c)
                in if s_total x \<le> idx then Inl (Panic ''trying free out-bounded block'')
                   else if bitmap_get (s_bm x) (unat idx) = 0 then Inr st
                   else if s_free x = s_total x then Inl (Panic ''meta data error in slab'')
                   else
                     rbind (if s_free x = 0
                            then rbind (slab_unlink c s st)
                                   (\<lambda>st. Inr (upd_cache c (\<lambda>k. k\<lparr>slabs_partial := s # slabs_partial k\<rparr>) st))
                            else Inr st) (\<lambda>st.
                       Inr (upd_slab s (\<lambda>x. x\<lparr>s_bm := bitmap_clear (s_bm x) (unat idx), s_free := s_free x + 1\<rparr>) st)))"

section \<open>Caches\<close>

definition kmem_cache_init ::
  "buddy_alloc_fn \<Rightarrow> addr \<Rightarrow> string \<Rightarrow> u64 \<Rightarrow> bool \<Rightarrow> mm \<Rightarrow> (int \<times> mm) res" where
  "kmem_cache_init BA c name osz with_initial_alloc st =
     (if c = NULL then Inl (Panic ''null pointer in kmem_cache_init'')
      else
        let asz = (ucast (ALIGN_UP osz 8) :: u32);
            lo = object_num asz;
            st = upd_cache c (\<lambda>_. \<lparr>c_name = name, obj_size = ucast osz, alloc_size = asz, c_total = 0, c_free = 0,
                   low = lo, high = 2 * lo, expanding = False, c_lock = SPINLOCK_INITIALIZER ''kmemcache'',
                   slabs_full = [], slabs_partial = [], slabs_free = []\<rparr>) st
        in if \<not> with_initial_alloc then Inr (0, st)
           else if \<not> buddy_inited st then Inl (Panic ''trying create slab without buddy inited'')
           else
             rbind (BA SLAB_BLOB_SIZE st) (\<lambda>(s, st).
               if s = NULL then Inr (- ENOMEM, st)
               else
                 rbind (slab_init c s st) (\<lambda>st.
                   Inr (0, upd_cache c (\<lambda>k. k\<lparr>c_total := c_total k + ucast (s_total (slab_at st s)),
                                            c_free := c_free k + ucast (s_free (slab_at st s))\<rparr>) st))))"

text \<open>The first part of \<^verbatim>\<open>kmem_cache_alloc_nolock\<close>; \<open>False\<close> is its early return of \<^verbatim>\<open>NULL\<close>.\<close>

definition add_counts :: "addr \<Rightarrow> addr \<Rightarrow> mm \<Rightarrow> mm" where
  "add_counts c s st =
     upd_cache c (\<lambda>k. k\<lparr>c_total := c_total k + ucast (s_total (slab_at st s)),
                        c_free := c_free k + ucast (s_free (slab_at st s))\<rparr>) st"

definition replenish :: "buddy_alloc_fn \<Rightarrow> addr \<Rightarrow> mm \<Rightarrow> (bool \<times> mm) res" where
  "replenish BA c st =
     (if \<not> expanding (kmem st c) \<and> c_free (kmem st c) < ucast (low (kmem st c)) then
        (case slabs_free (kmem st c) of
           s # _ \<Rightarrow>
             rbind (slab_unlink c s st) (\<lambda>st.
               let st = upd_cache c (\<lambda>k. k\<lparr>slabs_partial := s # slabs_partial k\<rparr>) st
               in Inr (True, add_counts c s st))
         | [] \<Rightarrow>
             let st = upd_cache c (\<lambda>k. k\<lparr>expanding := True\<rparr>) st
             in rbind (BA SLAB_BLOB_SIZE st) (\<lambda>(s, st).
                  let st = upd_cache c (\<lambda>k. k\<lparr>expanding := False\<rparr>) st
                  in if s = NULL then Inr (0 < c_free (kmem st c), st)
                     else rbind (slab_init c s st) (\<lambda>st. Inr (True, add_counts c s st))))
      else Inr (True, st))"

definition kmem_cache_alloc_nolock :: "buddy_alloc_fn \<Rightarrow> addr \<Rightarrow> mm \<Rightarrow> (addr \<times> mm) res" where
  "kmem_cache_alloc_nolock BA c st =
     rbind (replenish BA c st) (\<lambda>(go, st).
       if \<not> go \<or> c_free (kmem st c) = 0 then Inr (NULL, st)
       else case slabs_partial (kmem st c) of
              [] \<Rightarrow> Inl Bad_List
            | s # _ \<Rightarrow> rbind (slab_alloc s st) (\<lambda>(a, st).
                Inr (a, upd_cache c (\<lambda>k. k\<lparr>c_free := c_free k - 1\<rparr>) st)))"

definition cache_acquire :: "addr \<Rightarrow> mm \<Rightarrow> mm res" where
  "cache_acquire c st =
     rbind (spinlock_acquire (cpu st, c_lock (kmem st c)))
       (\<lambda>(h, l). Inr (upd_cache c (\<lambda>k. k\<lparr>c_lock := l\<rparr>) (st\<lparr>cpu := h\<rparr>)))"

definition cache_release :: "addr \<Rightarrow> mm \<Rightarrow> mm res" where
  "cache_release c st =
     rbind (spinlock_release (cpu st, c_lock (kmem st c)))
       (\<lambda>(h, l). Inr (upd_cache c (\<lambda>k. k\<lparr>c_lock := l\<rparr>) (st\<lparr>cpu := h\<rparr>)))"

definition kmem_cache_alloc :: "buddy_alloc_fn \<Rightarrow> addr \<Rightarrow> mm \<Rightarrow> (addr \<times> mm) res" where
  "kmem_cache_alloc BA c st =
     (if c = NULL then Inl (Panic ''null pointer in kmem_cache_alloc'')
      else if spinlock_holding (cpu st) (c_lock (kmem st c)) then kmem_cache_alloc_nolock BA c st
      else
        rbind (cache_acquire c st) (\<lambda>st.
        rbind (kmem_cache_alloc_nolock BA c st) (\<lambda>(a, st).
        rbind (cache_release c st) (\<lambda>st. Inr (a, st)))))"

definition kmem_cache_free :: "addr \<Rightarrow> mm \<Rightarrow> mm res" where
  "kmem_cache_free a st =
     (let c = s_kmem (slab_at st (SLAB_ALIGN_DOWN a))
      in if spinlock_holding (cpu st) (c_lock (kmem st c)) then
           rbind (slab_free a st) (\<lambda>st. Inr (upd_cache c (\<lambda>k. k\<lparr>c_free := c_free k + 1\<rparr>) st))
         else
           rbind (cache_acquire c st) (\<lambda>st.
           rbind (slab_free a st) (\<lambda>st.
             cache_release c (upd_cache c (\<lambda>k. k\<lparr>c_free := c_free k + 1\<rparr>) st))))"

definition kmem_cache_flush :: "addr \<Rightarrow> mm \<Rightarrow> mm res" where
  "kmem_cache_flush c st =
     (if c = NULL then Inl (Panic ''null pointer in kmem_cache_flush'')
      else
        rbind (cache_acquire c st) (\<lambda>st.
          if c_free (kmem st c) < ucast (high (kmem st c)) then Inr st
          else
            let k = kmem st c;
                e = filter (\<lambda>s. slab_empty (slab_at st s)) (slabs_partial k)
            in cache_release c (upd_cache c (\<lambda>k. k\<lparr>
                 slabs_partial := filter (\<lambda>s. \<not> slab_empty (slab_at st s)) (slabs_partial k),
                 slabs_free := rev e @ slabs_free k\<rparr>) st)))"

end
