(* ===== verification/Buddy_Blocks.thy ===== *)
theory Buddy_Blocks
  imports Kernel_Prelude
begin

text \<open>
  The abstract side of the buddy allocator: blocks as sets of addresses that agree above a bit
  position, the set of free memory, and the bookkeeping invariant over the four functions that
  the allocator's state consists of (order and head of each page, start of each node, free lists),
  with one lemma per change of that bookkeeping.
\<close>

section \<open>Blocks\<close>

definition blk :: "nat \<Rightarrow> addr \<Rightarrow> addr set" where
  "blk k a = {x. drop_bit (12 + k) x = drop_bit (12 + k) a}"

definition mate :: "nat \<Rightarrow> addr \<Rightarrow> addr" where
  "mate k a = a XOR push_bit (12 + k) 1"

definition aligned_to :: "nat \<Rightarrow> addr \<Rightarrow> bool" where
  "aligned_to k a \<longleftrightarrow> take_bit (12 + k) a = 0"

lemma blk_self [simp]: "a \<in> blk k a"
  by (simp add: blk_def)

lemma drop_bit_eq_mono:
  fixes x y :: "'a::len word"
  assumes "drop_bit m x = drop_bit m y" and "m \<le> n"
  shows "drop_bit n x = drop_bit n y"
proof -
  have "drop_bit n x = drop_bit (n - m) (drop_bit m x)" for x :: "'a word"
    using assms(2) by simp
  then show ?thesis using assms(1) by metis
qed

lemma blk_mono: "j \<le> k \<Longrightarrow> blk j a \<subseteq> blk k a"
  by (auto simp: blk_def elim!: drop_bit_eq_mono)

lemma blk_eqI: "x \<in> blk k a \<Longrightarrow> blk k x = blk k a"
  by (simp add: blk_def)

lemma blk_nested:
  assumes "j \<le> k" and "blk j a \<inter> blk k b \<noteq> {}"
  shows "blk j a \<subseteq> blk k b"
proof -
  obtain x where x: "x \<in> blk j a" "x \<in> blk k b" using assms(2) by auto
  have "blk j a = blk j x" using x(1) by (simp add: blk_eqI)
  also have "\<dots> \<subseteq> blk k x" by (rule blk_mono [OF assms(1)])
  also have "\<dots> = blk k b" using x(2) by (simp add: blk_eqI)
  finally show ?thesis .
qed

lemma bit_eq_drop_bit: "drop_bit n x = drop_bit n y \<longleftrightarrow> (\<forall>m\<ge>n. bit x m = bit y m)"
  for x y :: "'a::len word"
proof
  assume e: "drop_bit n x = drop_bit n y"
  show "\<forall>m\<ge>n. bit x m = bit y m"
  proof (intro allI impI)
    fix m assume "n \<le> m"
    then have "bit (drop_bit n z) (m - n) = bit z m" for z :: "'a word"
      by (simp add: bit_drop_bit_eq)
    then show "bit x m = bit y m" using e by metis
  qed
next
  assume "\<forall>m\<ge>n. bit x m = bit y m"
  then show "drop_bit n x = drop_bit n y"
    by (intro bit_word_eqI) (simp add: bit_drop_bit_eq)
qed

lemma bit_mate:
  assumes "k \<le> 51"
  shows "bit (mate k a) n \<longleftrightarrow> (bit a n \<noteq> (n = 12 + k))"
  using assms by (auto simp: mate_def bit_xor_iff bit_exp_iff)

lemma mate_mate [simp]: "mate k (mate k a) = a"
  by (simp add: mate_def xor.assoc)

lemma blk_Suc:
  assumes "k \<le> 51"
  shows "blk (Suc k) a = blk k a \<union> blk k (mate k a)"
proof (intro set_eqI)
  fix x
  have split: "(\<forall>m\<ge>12 + k. P m) \<longleftrightarrow> P (12 + k) \<and> (\<forall>m\<ge>Suc (12 + k). P m)" for P :: "nat \<Rightarrow> bool"
    by (metis Suc_leD le_antisym not_less_eq_eq order_refl)
  show "x \<in> blk (Suc k) a \<longleftrightarrow> x \<in> blk k a \<union> blk k (mate k a)"
    by (auto simp: blk_def bit_eq_drop_bit split bit_mate assms)
qed

lemma mate_disjoint:
  assumes "k \<le> 51"
  shows "blk k a \<inter> blk k (mate k a) = {}"
  by (auto simp: blk_def bit_eq_drop_bit bit_mate assms)

lemma mate_neq:
  assumes "k \<le> 51"
  shows "mate k a \<noteq> a"
  using mate_disjoint [OF assms, of a] by (metis blk_self disjoint_iff)

lemma aligned_to_iff_bit: "aligned_to k a \<longleftrightarrow> (\<forall>n<12 + k. \<not> bit a n)"
proof
  assume "aligned_to k a"
  then show "\<forall>n<12 + k. \<not> bit a n"
    using bit_take_bit_iff [of "12 + k" a] by (simp add: aligned_to_def)
next
  assume "\<forall>n<12 + k. \<not> bit a n"
  then show "aligned_to k a"
    unfolding aligned_to_def by (intro bit_word_eqI) (simp add: bit_take_bit_iff)
qed

lemma aligned_to_mono: "aligned_to k a \<Longrightarrow> j \<le> k \<Longrightarrow> aligned_to j a"
  by (simp add: aligned_to_iff_bit)

lemma aligned_to_mate [simp]: "k \<le> 51 \<Longrightarrow> aligned_to k (mate k a) \<longleftrightarrow> aligned_to k a"
  by (auto simp: aligned_to_iff_bit bit_mate)

text \<open>Of two mates the lower one is aligned to the double block.\<close>

lemma aligned_to_lower:
  assumes "aligned_to k a" and "k \<le> 51" and "a < mate k a"
  shows "aligned_to (Suc k) a"
proof -
  have "\<not> bit a (12 + k)"
  proof
    assume b: "bit a (12 + k)"
    have "mate k a = a AND NOT (push_bit (12 + k) 1)"
      by (rule bit_word_eqI) (use b assms(2) in \<open>auto simp: bit_mate bit_simps\<close>)
    then have "mate k a \<le> a" by (simp add: word_and_le2)
    then show False using assms(3) by simp
  qed
  moreover have "n < 12 + k \<or> n = 12 + k" if "n < 12 + Suc k" for n using that by linarith
  ultimately show ?thesis using assms(1) by (auto simp: aligned_to_iff_bit)
qed

lemma aligned_upper:
  assumes "aligned_to (Suc k) a" and "k \<le> 51"
  shows "a < mate k a"
proof -
  have b: "\<not> bit a (12 + k)" using assms(1) by (simp add: aligned_to_iff_bit)
  have "a = mate k a AND NOT (push_bit (12 + k) 1)"
    by (rule bit_word_eqI) (use b assms(2) in \<open>auto simp: bit_mate bit_simps\<close>)
  then have "a \<le> mate k a" by (metis word_and_le2)
  then show ?thesis using mate_neq [OF assms(2), of a] by (metis antisym_conv2)
qed

lemma aligned_blk_unique:
  assumes "aligned_to j a" and "aligned_to k b" and "blk j a = blk k b" and "j = k"
  shows "a = b"
proof (rule bit_word_eqI)
  fix n
  have "a \<in> blk k b" using assms by (metis blk_self)
  then have "bit a m = bit b m" if "12 + k \<le> m" for m
    using that by (simp add: blk_def bit_eq_drop_bit)
  then show "bit a n = bit b n" using assms by (cases "n < 12 + k") (auto simp: aligned_to_iff_bit)
qed

section \<open>Bookkeeping\<close>

text \<open>
  \<open>prv a\<close> is the list node of the free block that starts at \<open>a\<close> (0: none starts there), \<open>ord a\<close>
  its order, \<open>S b\<close> the start recorded in node \<open>b\<close>, \<open>fl k\<close> the free list of order \<open>k\<close>; \<open>G\<close> is the
  set of page addresses the allocator manages.
\<close>

definition binv ::
  "addr set \<Rightarrow> (addr \<Rightarrow> nat) \<Rightarrow> (addr \<Rightarrow> addr) \<Rightarrow> (addr \<Rightarrow> addr) \<Rightarrow> (nat \<Rightarrow> addr list) \<Rightarrow> bool" where
  "binv G ord prv S fl \<longleftrightarrow>
     (\<forall>k. distinct (fl k) \<and> set (fl k) = {b. b \<noteq> 0 \<and> prv (S b) = b \<and> ord (S b) = k}) \<and>
     (\<forall>a. prv a \<noteq> 0 \<longrightarrow> a \<in> G \<and> ord a \<le> 11 \<and> aligned_to (ord a) a \<and> S (prv a) = a) \<and>
     (\<forall>a a'. prv a \<noteq> 0 \<longrightarrow> prv a' \<noteq> 0 \<longrightarrow> a \<noteq> a' \<longrightarrow> blk (ord a) a \<inter> blk (ord a') a' = {})"

definition free_mem :: "(addr \<Rightarrow> nat) \<Rightarrow> (addr \<Rightarrow> addr) \<Rightarrow> addr set" where
  "free_mem ord prv = (\<Union>a \<in> {a. prv a \<noteq> 0}. blk (ord a) a)"

lemma binv_list:
  assumes "binv G ord prv S fl" and "b \<in> set (fl k)"
  shows "S b \<in> G" "k \<le> 11" "aligned_to k (S b)" "prv (S b) = b" "ord (S b) = k" "b \<noteq> 0"
  using assms unfolding binv_def by auto

lemma binv_head:
  assumes "binv G ord prv S fl" and "prv a \<noteq> 0"
  shows "a \<in> G" "ord a \<le> 11" "aligned_to (ord a) a" "S (prv a) = a" "prv a \<in> set (fl (ord a))"
  using assms unfolding binv_def by auto

lemma binv_disjoint:
  assumes "binv G ord prv S fl" and "prv a \<noteq> 0" and "prv a' \<noteq> 0" and "a \<noteq> a'"
  shows "blk (ord a) a \<inter> blk (ord a') a' = {}"
  using assms unfolding binv_def by blast

lemma binv_mem:
  assumes "binv G ord prv S fl"
  shows "b \<in> set (fl k) \<longleftrightarrow> b \<noteq> 0 \<and> prv (S b) = b \<and> ord (S b) = k"
  using assms by (simp add: binv_def)

lemma binv_distinct: "binv G ord prv S fl \<Longrightarrow> distinct (fl k)"
  by (simp add: binv_def)

lemma binv_big_empty: "binv G ord prv S fl \<Longrightarrow> 11 < k \<Longrightarrow> fl k = []"
  using binv_list(2) [of G ord prv S fl _ k] by (metis hd_in_set not_less)

lemma binv_inj: "binv G ord prv S fl \<Longrightarrow> prv a \<noteq> 0 \<Longrightarrow> prv a = prv a' \<Longrightarrow> a = a'"
  by (metis binv_head(4))

text \<open>A block is on the list of its own order only.\<close>

lemma binv_on_list_iff:
  assumes "binv G ord prv S fl"
  shows "prv a \<noteq> 0 \<Longrightarrow> prv a \<in> set (fl k) \<longleftrightarrow> ord a = k"
  using assms binv_head [OF assms] binv_list [OF assms] by metis

lemma binv_intro:
  assumes "\<And>k. distinct (fl k)"
    and "\<And>k b. b \<in> set (fl k) \<longleftrightarrow> b \<noteq> 0 \<and> prv (S b) = b \<and> ord (S b) = k"
    and "\<And>a. prv a \<noteq> 0 \<Longrightarrow> a \<in> G \<and> ord a \<le> 11 \<and> aligned_to (ord a) a \<and> S (prv a) = a"
    and "\<And>a a'. prv a \<noteq> 0 \<Longrightarrow> prv a' \<noteq> 0 \<Longrightarrow> a \<noteq> a' \<Longrightarrow> blk (ord a) a \<inter> blk (ord a') a' = {}"
  shows "binv G ord prv S fl"
  unfolding binv_def using assms by auto

subsection \<open>Taking a block out and putting one in\<close>

lemma binv_take:
  assumes "binv G ord prv S fl" and "prv a \<noteq> 0"
  shows "binv G ord (prv(a := 0)) S (fl(ord a := remove1 (prv a) (fl (ord a))))"
proof (rule binv_intro)
  fix k show "distinct ((fl(ord a := remove1 (prv a) (fl (ord a)))) k)"
    using binv_distinct [OF assms(1)] by simp
next
  fix k b
  show "b \<in> set ((fl(ord a := remove1 (prv a) (fl (ord a)))) k) \<longleftrightarrow>
    b \<noteq> 0 \<and> (prv(a := 0)) (S b) = b \<and> ord (S b) = k"
    using binv_mem [OF assms(1)] binv_distinct [OF assms(1)] binv_head(4) [OF assms]
    by (auto simp: set_remove1_eq)
qed (use assms binv_head [OF assms(1)] binv_disjoint [OF assms(1)] in \<open>auto split: if_splits\<close>)

lemma free_mem_take:
  assumes "binv G ord prv S fl" and "prv a \<noteq> 0"
  shows "free_mem ord (prv(a := 0)) = free_mem ord prv - blk (ord a) a"
proof -
  have "{x. (prv(a := 0)) x \<noteq> 0} = {x. prv x \<noteq> 0} - {a}" by auto
  moreover have "blk (ord x) x \<inter> blk (ord a) a = {}" if "prv x \<noteq> 0" "x \<noteq> a" for x
    by (rule binv_disjoint [OF assms(1) that(1) assms(2) that(2)])
  ultimately show ?thesis unfolding free_mem_def by blast
qed

lemma binv_put:
  assumes "binv G ord prv S fl" and "prv a = 0" and "b \<noteq> 0" and "\<And>k. b \<notin> set (fl k)"
    and "a \<in> G" and "k \<le> 11" and "aligned_to k a" and "blk k a \<inter> free_mem ord prv = {}"
    and "distinct xs" and "set xs = insert b (set (fl k))"
  shows "binv G (ord(a := k)) (prv(a := b)) (S(b := a)) (fl(k := xs))"
proof -
  have nb: "prv x \<noteq> b" for x using binv_head(5) [OF assms(1), of x] assms(3,4) by metis
  have dj: "blk k a \<inter> blk (ord x) x = {}" if "prv x \<noteq> 0" for x
    using assms(8) that by (auto simp: free_mem_def)
  show ?thesis
  proof (rule binv_intro)
    fix j show "distinct ((fl(k := xs)) j)" using assms(9) binv_distinct [OF assms(1)] by simp
  next
    fix j c
    show "c \<in> set ((fl(k := xs)) j) \<longleftrightarrow>
      c \<noteq> 0 \<and> (prv(a := b)) ((S(b := a)) c) = c \<and> (ord(a := k)) ((S(b := a)) c) = j"
      using assms(2,3,4,10) binv_mem [OF assms(1), of c] by auto
  next
    fix x assume "(prv(a := b)) x \<noteq> 0"
    then show "x \<in> G \<and> (ord(a := k)) x \<le> 11 \<and> aligned_to ((ord(a := k)) x) x \<and> (S(b := a)) ((prv(a := b)) x) = x"
      using assms binv_head [OF assms(1)] nb by auto
  next
    fix x y assume "(prv(a := b)) x \<noteq> 0" "(prv(a := b)) y \<noteq> 0" "x \<noteq> y"
    then show "blk ((ord(a := k)) x) x \<inter> blk ((ord(a := k)) y) y = {}"
      using dj binv_disjoint [OF assms(1)] by (auto split: if_splits)
  qed
qed

lemma free_mem_put:
  assumes "prv a = 0" and "b \<noteq> 0"
  shows "free_mem (ord(a := k)) (prv(a := b)) = free_mem ord prv \<union> blk k a"
proof -
  have "{x. (prv(a := b)) x \<noteq> 0} = insert a {x. prv x \<noteq> 0}" using assms(2) by auto
  moreover have "blk ((ord(a := k)) x) x = blk (ord x) x" if "prv x \<noteq> 0" for x
    using that assms(1) by auto
  ultimately show ?thesis unfolding free_mem_def by auto
qed

text \<open>The order recorded at a page that heads no free block is irrelevant.\<close>

lemma binv_ord_irrelevant:
  assumes "binv G ord prv S fl" and "prv a = 0"
  shows "binv G (ord(a := k)) prv S fl"
proof (rule binv_intro)
  fix j b
  show "b \<in> set (fl j) \<longleftrightarrow> b \<noteq> 0 \<and> prv (S b) = b \<and> (ord(a := k)) (S b) = j"
    using assms(2) binv_mem [OF assms(1)] by auto
qed (use assms binv_distinct [OF assms(1)] binv_head [OF assms(1)] binv_disjoint [OF assms(1)] in auto)

lemma free_mem_ord_irrelevant: "prv a = 0 \<Longrightarrow> free_mem (ord(a := k)) prv = free_mem ord prv"
  by (auto simp: free_mem_def split: if_splits)

subsection \<open>Merging two mates and splitting a block\<close>

lemma binv_merge:
  assumes I: "binv G ord prv S fl" and lo: "prv lo \<noteq> 0" "ord lo = i" and hi: "prv hi \<noteq> 0" "ord hi = i"
    and m: "hi = mate i lo" "lo < hi" and i: "i < 11"
  shows "binv G (ord(hi := 12, lo := Suc i)) (prv(hi := 0)) S
           (fl(i := remove1 (prv hi) (remove1 (prv lo) (fl i)), Suc i := prv lo # fl (Suc i)))" (is "binv G ?o ?p S ?f")
    and "free_mem (ord(hi := 12, lo := Suc i)) (prv(hi := 0)) = free_mem ord prv"
proof -
  have ne: "hi \<noteq> lo" using m(2) by auto
  let ?f1 = "fl(i := remove1 (prv lo) (fl i))"
  have I1: "binv G ord (prv(lo := 0)) S ?f1" using binv_take [OF I lo(1)] lo(2) by simp
  have hi1: "(prv(lo := 0)) hi \<noteq> 0" using hi(1) ne by simp
  let ?p2 = "(prv(lo := 0))(hi := 0)" and ?f2 = "fl(i := remove1 (prv hi) (remove1 (prv lo) (fl i)))"
  have I2: "binv G ord ?p2 S ?f2"
    using binv_take [of G ord "prv(lo := 0)" S ?f1 hi, OF I1 hi1] hi(2) ne by simp
  have fm2: "free_mem ord ?p2 = free_mem ord prv - blk i lo - blk i hi"
    using free_mem_take [of G ord "prv(lo := 0)" S ?f1 hi, OF I1 hi1] free_mem_take [OF I lo(1)] lo(2) hi(2) by simp
  have b: "\<And>k. prv lo \<notin> set (?f2 k)"
    using binv_mem [OF I2, of "prv lo"] binv_head(4) [OF I lo(1)] lo(1) ne by auto
  have al: "aligned_to (Suc i) lo"
    using binv_head(3) [OF I lo(1)] lo(2) m i by (intro aligned_to_lower) auto
  have dj: "blk (Suc i) lo \<inter> free_mem ord ?p2 = {}"
    using blk_Suc [of i lo] i m fm2 by auto
  have "binv G (ord(lo := Suc i)) (?p2(lo := prv lo)) (S(prv lo := lo)) (?f2(Suc i := prv lo # fl (Suc i)))"
    by (rule binv_put [OF I2 _ lo(1) b binv_head(1) [OF I lo(1)] _ al dj])
       (use ne i b binv_distinct [OF I] binv_on_list_iff [OF I lo(1)] lo(2) in \<open>auto\<close>)
  moreover have "S(prv lo := lo) = S" using binv_head(4) [OF I lo(1)] by (simp add: fun_upd_idem)
  moreover have "?p2(lo := prv lo) = ?p" using ne by auto
  ultimately have I3: "binv G (ord(lo := Suc i)) ?p S ?f" by simp
  show "binv G ?o ?p S ?f"
    using binv_ord_irrelevant [OF I3, of hi 12] ne by (simp add: fun_upd_twist)
  have "free_mem (ord(lo := Suc i)) (?p2(lo := prv lo)) = free_mem ord ?p2 \<union> blk (Suc i) lo"
    by (rule free_mem_put) (use lo in auto)
  also have "\<dots> = free_mem ord prv"
  proof -
    have "blk i lo \<subseteq> free_mem ord prv" "blk i hi \<subseteq> free_mem ord prv"
      using lo hi by (auto simp: free_mem_def)
    then show ?thesis using fm2 blk_Suc [of i lo] i m by auto
  qed
  finally have "free_mem (ord(lo := Suc i)) ?p = free_mem ord prv"
    using \<open>?p2(lo := prv lo) = ?p\<close> by simp
  then show "free_mem ?o ?p = free_mem ord prv"
    using free_mem_ord_irrelevant [of ?p hi "ord(lo := Suc i)" 12] ne by (simp add: fun_upd_twist)
qed

lemma binv_split:
  assumes I: "binv G ord prv S fl" and lo: "prv lo \<noteq> 0" "ord lo = Suc k"
    and c: "c \<noteq> 0" "\<And>j. c \<notin> set (fl j)" and G: "mate k lo \<in> G"
  shows "binv G (ord(lo := k, mate k lo := k)) (prv(mate k lo := c)) (S(c := mate k lo))
           (fl(Suc k := remove1 (prv lo) (fl (Suc k)), k := fl k @ [prv lo, c]))"
    and "free_mem (ord(lo := k, mate k lo := k)) (prv(mate k lo := c)) = free_mem ord prv"
proof -
  let ?hi = "mate k lo"
  have k: "k \<le> 51" "Suc k \<le> 11" using binv_head(2) [OF I lo(1)] lo(2) by auto
  have ne: "?hi \<noteq> lo" using mate_neq k by blast
  have al: "aligned_to (Suc k) lo" using binv_head(3) [OF I lo(1)] lo(2) by simp
  have alk: "aligned_to k lo" using aligned_to_mono [OF al] by simp
  let ?p1 = "prv(lo := 0)" and ?f1 = "fl(Suc k := remove1 (prv lo) (fl (Suc k)))"
  have I1: "binv G ord ?p1 S ?f1" using binv_take [OF I lo(1)] lo(2) by simp
  have fm1: "free_mem ord ?p1 = free_mem ord prv - (blk k lo \<union> blk k ?hi)"
    using free_mem_take [OF I lo(1)] lo(2) blk_Suc [OF k(1), of lo] by simp
  have b: "\<And>j. prv lo \<notin> set (?f1 j)"
    using binv_mem [OF I1, of "prv lo"] binv_head(4) [OF I lo(1)] lo(1) by simp
  have hi0: "prv ?hi = 0"
  proof (rule ccontr)
    assume "prv ?hi \<noteq> 0"
    then have "blk (ord ?hi) ?hi \<inter> blk (Suc k) lo = {}" using binv_disjoint [OF I _ lo(1) ne] lo(2) by simp
    moreover have "?hi \<in> blk (Suc k) lo" using blk_Suc [OF k(1), of lo] by simp
    ultimately show False using blk_self by blast
  qed
  let ?f2 = "?f1(k := fl k @ [prv lo])"
  have "binv G (ord(lo := k)) (?p1(lo := prv lo)) (S(prv lo := lo)) ?f2"
    by (rule binv_put [OF I1 _ lo(1) b binv_head(1) [OF I lo(1)] _ alk])
       (use fm1 k b binv_distinct [OF I] binv_on_list_iff [OF I lo(1), of k] lo(2) in auto)
  moreover have "S(prv lo := lo) = S" using binv_head(4) [OF I lo(1)] by (simp add: fun_upd_idem)
  ultimately have I2: "binv G (ord(lo := k)) prv S ?f2" by simp
  have fm2: "free_mem (ord(lo := k)) prv = free_mem ord ?p1 \<union> blk k lo"
    using free_mem_put [of ?p1 lo "prv lo" ord k] lo by simp
  have blc: "c \<noteq> prv lo" using c(2) binv_head(5) [OF I lo(1)] by metis
  have c2: "\<And>j. c \<notin> set (?f2 j)" using c(2) blc by (auto dest: notin_set_remove1 simp del: set_remove1_eq)
  have dj: "blk k ?hi \<inter> free_mem (ord(lo := k)) prv = {}"
    unfolding fm2 fm1 using mate_disjoint [OF k(1), of lo] by auto
  have "binv G (ord(lo := k, ?hi := k)) (prv(?hi := c)) (S(c := ?hi)) (?f2(k := fl k @ [prv lo, c]))"
    by (rule binv_put [OF I2 hi0 c(1) c2 G _ _ dj])
       (use k alk blc c(2) binv_distinct [OF I] binv_on_list_iff [OF I lo(1), of k] lo(2) in auto)
  then show "binv G (ord(lo := k, ?hi := k)) (prv(?hi := c)) (S(c := ?hi))
      (fl(Suc k := remove1 (prv lo) (fl (Suc k)), k := fl k @ [prv lo, c]))" by simp
  have "blk k lo \<union> blk k ?hi \<subseteq> free_mem ord prv"
    using lo blk_Suc [OF k(1), of lo] by (auto simp: free_mem_def)
  then show "free_mem (ord(lo := k, ?hi := k)) (prv(?hi := c)) = free_mem ord prv"
    using free_mem_put [of prv ?hi c "ord(lo := k)" k, OF hi0 c(1)] fm1 fm2 by auto
qed

section \<open>Counting\<close>

definition pages_on :: "(nat \<Rightarrow> addr list) \<Rightarrow> nat" where
  "pages_on fl = (\<Sum>k\<le>11. 2 ^ k * length (fl k))"

lemma pages_on_upd:
  assumes "k \<le> 11"
  shows "pages_on (fl(k := xs)) + 2 ^ k * length (fl k) = pages_on fl + 2 ^ k * length xs"
proof -
  have f: "k \<in> {..11}" using assms by simp
  have "pages_on (fl(k := xs)) = 2 ^ k * length xs + (\<Sum>j\<in>{..11} - {k}. 2 ^ j * length (fl j))"
    unfolding pages_on_def by (subst sum.remove [OF _ f]) (auto intro!: sum.cong)
  moreover have "pages_on fl = 2 ^ k * length (fl k) + (\<Sum>j\<in>{..11} - {k}. 2 ^ j * length (fl j))"
    unfolding pages_on_def by (subst sum.remove [OF _ f]) auto
  ultimately show ?thesis by simp
qed

lemma pages_on_take:
  assumes "b \<in> set (fl k)" and "k \<le> 11"
  shows "pages_on fl = pages_on (fl(k := remove1 b (fl k))) + 2 ^ k"
proof -
  have l: "length (fl k) = Suc (length (remove1 b (fl k)))"
    using assms(1) by (auto simp: length_remove1 dest: length_pos_if_in_set)
  show ?thesis using pages_on_upd [OF assms(2), of fl "remove1 b (fl k)"] l by simp
qed

lemma pages_on_merge:
  assumes "b \<in> set (fl i)" and "c \<in> set (fl i)" and "b \<noteq> c" and "i < 11"
  shows "pages_on (fl(i := remove1 c (remove1 b (fl i)), Suc i := d # fl (Suc i))) = pages_on fl"
proof -
  have "c \<in> set (remove1 b (fl i))" using assms by (simp add: in_set_remove1)
  then have "length (remove1 b (fl i)) = Suc (length (remove1 c (remove1 b (fl i))))"
    by (metis One_nat_def Suc_pred length_pos_if_in_set length_remove1)
  moreover have "length (fl i) = Suc (length (remove1 b (fl i)))"
    using assms(1) by (auto simp: length_remove1 dest: length_pos_if_in_set)
  ultimately have l: "length (fl i) = Suc (Suc (length (remove1 c (remove1 b (fl i)))))" by simp
  show ?thesis
    using pages_on_upd [of i fl "remove1 c (remove1 b (fl i))"]
      pages_on_upd [of "Suc i" "fl(i := remove1 c (remove1 b (fl i)))" "d # fl (Suc i)"] assms(4) l
    by simp
qed

lemma pages_on_split:
  assumes "b \<in> set (fl (Suc k))" and "Suc k \<le> 11"
  shows "pages_on (fl(Suc k := remove1 b (fl (Suc k)), k := fl k @ [d, c])) = pages_on fl"
proof -
  have l: "length (fl (Suc k)) = Suc (length (remove1 b (fl (Suc k))))"
    using assms(1) by (auto simp: length_remove1 dest: length_pos_if_in_set)
  show ?thesis
    using pages_on_upd [of "Suc k" fl "remove1 b (fl (Suc k))"]
      pages_on_upd [of k "fl(Suc k := remove1 b (fl (Suc k)))" "fl k @ [d, c]"] assms(2) l
    by simp
qed

end
