(* ===== verification/Buddy_Correct.thy ===== *)
theory Buddy_Correct
  imports Buddy Buddy_Blocks
begin

text \<open>
  Correctness of the buddy allocator: the views of the concrete state that the bookkeeping
  invariant of \<open>Buddy_Blocks\<close> is about, the contract \<open>block_pool\<close> of the source of list nodes, and
  under it that merging and splitting keep the free memory, that an allocation takes one
  aligned block out of it and that a free puts it back. The contract is interpreted on the early
  heap.
\<close>

section \<open>Views of the state\<close>

definition managed :: "'z pm_scheme \<Rightarrow> addr set" where
  "managed st = {a. aligned_to 0 a \<and> BUDDY_SYSTEM_BASE st \<le> a \<and> a < BUDDY_SYSTEM_END}"

definition pidx :: "addr \<Rightarrow> nat" where
  "pidx a = (unat a - 0x80000000) div 4096"

definition ord_of :: "'z pm_scheme \<Rightarrow> addr \<Rightarrow> nat" where
  "ord_of st a = (if a \<in> managed st then unat (order (pages st (pidx a))) else 12)"

definition prv_of :: "'z pm_scheme \<Rightarrow> addr \<Rightarrow> addr" where
  "prv_of st a = (if a \<in> managed st then priv (pages st (pidx a)) else 0)"

definition layout_ok :: "'z pm_scheme \<Rightarrow> bool" where
  "layout_ok st \<longleftrightarrow> PM_START \<le> BUDDY_SYSTEM_BASE st"

definition free_memory :: "'z pm_scheme \<Rightarrow> addr set" where
  "free_memory st = free_mem (ord_of st) (prv_of st)"

definition buddy_inv :: "'z buddy_scheme \<Rightarrow> bool" where
  "buddy_inv st \<longleftrightarrow> layout_ok st \<and>
     binv (managed st) (ord_of st) (prv_of st) (blk_start st) (free_list st) \<and>
     buddy_free_pages st = of_nat (pages_on (free_list st))"

text \<open>A block that a client holds.\<close>

definition owned :: "'z pm_scheme \<Rightarrow> addr \<Rightarrow> nat \<Rightarrow> bool" where
  "owned st a k \<longleftrightarrow> a \<in> managed st \<and> k \<le> 11 \<and> aligned_to k a \<and> ord_of st a = k \<and>
     blk k a \<inter> free_memory st = {}"

lemma BUDDY_SYSTEM_END_value: "BUDDY_SYSTEM_END = 0x88000000"
  by (simp add: BUDDY_SYSTEM_END_def ALIGN_DOWN_def config_values)

lemma buddy_base_aligned: "unat (BUDDY_SYSTEM_BASE st) mod 2 ^ 23 = 0"
proof -
  have "BUDDY_SYSTEM_BASE st = ALIGN_DOWN (EARLY_HEAP_END st + BUDDY_BLOB_SIZE - 1) (2 ^ 23)"
    by (simp add: BUDDY_SYSTEM_BASE_def ALIGN_UP_def ALIGN_DOWN_def config_values)
  then show ?thesis by (simp only: ALIGN_DOWN_unat) simp
qed

lemma managed_iff:
  "a \<in> managed st \<longleftrightarrow> aligned_to 0 a \<and>
     unat (BUDDY_SYSTEM_BASE st) div 2 ^ 23 \<le> unat a div 2 ^ 23 \<and> unat a div 2 ^ 23 < 272"
proof -
  define b where "b = unat (BUDDY_SYSTEM_BASE st)"
  have "b mod 8388608 = 0" using buddy_base_aligned [of st] by (simp add: b_def)
  then have "b div 8388608 * 8388608 = b" by (simp add: minus_mod_eq_div_mult [symmetric])
  then have "b \<le> unat a \<longleftrightarrow> b div 8388608 \<le> unat a div 8388608"
    using less_eq_div_iff_mult_less_eq [of 8388608 "b div 8388608" "unat a"] by simp
  moreover have "unat a < 2281701376 \<longleftrightarrow> unat a div 8388608 < 272"
    using div_less_iff_less_mult [of 8388608 "unat a" 272] by simp
  ultimately show ?thesis
    by (simp add: managed_def BUDDY_SYSTEM_END_value word_le_nat_alt word_less_nat_alt b_def)
qed

lemma mate_managed:
  assumes "a \<in> managed st" and "k < 11"
  shows "mate k a \<in> managed st"
proof -
  have "drop_bit 23 (mate k a) = drop_bit 23 a"
    using assms(2) by (simp add: bit_eq_drop_bit bit_mate)
  then have "unat (mate k a) div 2 ^ 23 = unat a div 2 ^ 23" by (metis unat_drop_bit)
  moreover have "aligned_to 0 (mate k a)"
    using assms by (auto simp: managed_def aligned_to_iff_bit bit_mate)
  ultimately show ?thesis using assms(1) by (simp add: managed_iff)
qed

lemma managed_range:
  assumes "layout_ok st" and "a \<in> managed st"
  shows "0x80000000 \<le> unat a" and "unat a < 0x88000000"
  using assms by (auto simp: layout_ok_def managed_def BUDDY_SYSTEM_END_value word_le_nat_alt
      word_less_nat_alt config_values)

lemma the_page_managed: "layout_ok st \<Longrightarrow> a \<in> managed st \<Longrightarrow> the_page a = Inr (pidx a)"
  using managed_range [of st a] by (simp add: the_page_def addr2page_unat pidx_def)

lemma aligned_page_dvd: "aligned_to 0 a \<Longrightarrow> 4096 dvd unat a"
  using unat_take_bit [of 12 a] by (simp add: aligned_to_def mod_eq_0_iff_dvd)

lemma pidx_inj:
  assumes "layout_ok st" and "a \<in> managed st" and "b \<in> managed st" and "pidx a = pidx b"
  shows "a = b"
proof -
  have "4096 dvd unat a" "4096 dvd unat b"
    using assms by (auto simp: managed_def intro: aligned_page_dvd)
  then obtain m n where "unat a = 4096 * m" "unat b = 4096 * n" by (auto elim!: dvdE)
  then have "unat a = unat b"
    using managed_range [OF assms(1,2)] managed_range [OF assms(1,3)] assms(4)
    by (simp add: pidx_def)
  then show ?thesis by (simp add: word_unat_eq_iff)
qed

subsection \<open>Effect of the state updates on the views\<close>

named_theorems views \<open>the views under the allocator's updates\<close>

lemma managed_frame: "skernel t = skernel st \<Longrightarrow> ekernel t = ekernel st \<Longrightarrow> managed t = managed st"
  by (simp add: managed_def BUDDY_SYSTEM_BASE_def EARLY_HEAP_END_def EARLY_HEAP_BASE_def KERNEL_END_def)

lemma layout_frame: "skernel t = skernel st \<Longrightarrow> ekernel t = ekernel st \<Longrightarrow> layout_ok t = layout_ok st"
  by (simp add: layout_ok_def BUDDY_SYSTEM_BASE_def EARLY_HEAP_END_def EARLY_HEAP_BASE_def KERNEL_END_def)

lemma managed_upd_page [simp, views]: "managed (upd_page i f st) = managed st"
  by (rule managed_frame; simp)

lemma layout_upd_page [simp, views]: "layout_ok (upd_page i f st) = layout_ok st"
  by (rule layout_frame; simp)

lemma managed_simps [simp, views]:
  "managed (st\<lparr>free_list := x1\<rparr>) = managed st" "managed (st\<lparr>blk_start := x2\<rparr>) = managed st"
  "managed (st\<lparr>buddy_free_pages := x3\<rparr>) = managed st" "managed (st\<lparr>buddy_inited := x4\<rparr>) = managed st"
  "managed (st\<lparr>cpu := x5\<rparr>) = managed st" "managed (st\<lparr>buddy_lock := x6\<rparr>) = managed st"
  by (rule managed_frame; simp)+

lemma layout_simps [simp, views]:
  "layout_ok (st\<lparr>free_list := x1\<rparr>) = layout_ok st" "layout_ok (st\<lparr>blk_start := x2\<rparr>) = layout_ok st"
  "layout_ok (st\<lparr>buddy_free_pages := x3\<rparr>) = layout_ok st" "layout_ok (st\<lparr>buddy_inited := x4\<rparr>) = layout_ok st"
  "layout_ok (st\<lparr>cpu := x5\<rparr>) = layout_ok st" "layout_ok (st\<lparr>buddy_lock := x6\<rparr>) = layout_ok st"
  by (rule layout_frame; simp)+

lemma ord_of_simps [simp, views]:
  "ord_of (st\<lparr>free_list := x1\<rparr>) = ord_of st" "ord_of (st\<lparr>blk_start := x2\<rparr>) = ord_of st"
  "ord_of (st\<lparr>buddy_free_pages := x3\<rparr>) = ord_of st" "ord_of (st\<lparr>buddy_inited := x4\<rparr>) = ord_of st"
  "ord_of (st\<lparr>cpu := x5\<rparr>) = ord_of st" "ord_of (st\<lparr>buddy_lock := x6\<rparr>) = ord_of st"
  by (simp_all add: ord_of_def fun_eq_iff)

lemma prv_of_simps [simp, views]:
  "prv_of (st\<lparr>free_list := x1\<rparr>) = prv_of st" "prv_of (st\<lparr>blk_start := x2\<rparr>) = prv_of st"
  "prv_of (st\<lparr>buddy_free_pages := x3\<rparr>) = prv_of st" "prv_of (st\<lparr>buddy_inited := x4\<rparr>) = prv_of st"
  "prv_of (st\<lparr>cpu := x5\<rparr>) = prv_of st" "prv_of (st\<lparr>buddy_lock := x6\<rparr>) = prv_of st"
  by (simp_all add: prv_of_def fun_eq_iff)

lemma views_upd_page:
  assumes "layout_ok st" and "a \<in> managed st"
  shows "ord_of (upd_page (pidx a) f st) = (ord_of st)(a := unat (order (f (pages st (pidx a)))))"
    and "prv_of (upd_page (pidx a) f st) = (prv_of st)(a := priv (f (pages st (pidx a))))"
  using assms pidx_inj [OF assms(1) _ assms(2)] by (auto simp: ord_of_def prv_of_def fun_eq_iff)

lemma page_views:
  assumes "a \<in> managed st"
  shows "unat (order (pages st (pidx a))) = ord_of st a" and "priv (pages st (pidx a)) = prv_of st a"
  using assms by (simp_all add: ord_of_def prv_of_def)

lemma upd_page_buddy_fields [simp]:
  "free_list (upd_page i f st) = free_list st" "blk_start (upd_page i f st) = blk_start st"
  "buddy_free_pages (upd_page i f st) = buddy_free_pages st" "buddy_lock (upd_page i f st) = buddy_lock st"
  "cpu (upd_page i f st) = cpu st" "buddy.more (upd_page i f st) = buddy.more st"
  "buddy_inited (upd_page i f st) = buddy_inited st"
  by (simp_all add: upd_page_def)

section \<open>The contract of the node allocator\<close>

text \<open>
  What a call of the node allocator leaves alone, and what the allocator's own updates leave alone
  of the node allocator's state.
\<close>

definition buddy_same :: "'z buddy_scheme \<Rightarrow> 'z buddy_scheme \<Rightarrow> bool" where
  "buddy_same st t \<longleftrightarrow> pages t = pages st \<and> blk_start t = blk_start st \<and> free_list t = free_list st \<and>
     buddy_free_pages t = buddy_free_pages st \<and> buddy_lock t = buddy_lock st \<and>
     skernel t = skernel st \<and> ekernel t = ekernel st \<and> (cpu t = cpu st \<or> cpu t = leave (cpu st))"

definition pool_same :: "'z buddy_scheme \<Rightarrow> 'z buddy_scheme \<Rightarrow> bool" where
  "pool_same st t \<longleftrightarrow> early_brk t = early_brk st \<and> kalloc_inited t = kalloc_inited st \<and>
     skernel t = skernel st \<and> ekernel t = ekernel st \<and> buddy.more t = buddy.more st \<and>
     tp (cpu t) = tp (cpu st) \<and> (hart_ok (cpu st) \<longrightarrow> hart_ok (cpu t)) \<and>
     (\<forall>i. flags (pages t i) = flags (pages st i))"

text \<open>What the internal steps keep: the free memory and every block that is not free.\<close>

definition kept :: "'z buddy_scheme \<Rightarrow> 'z buddy_scheme \<Rightarrow> bool" where
  "kept st t \<longleftrightarrow> free_memory t = free_memory st \<and> (\<forall>a. a \<notin> free_memory st \<longrightarrow> ord_of t a = ord_of st a) \<and>
     buddy_lock t = buddy_lock st \<and> (cpu t = cpu st \<or> cpu t = leave (cpu st)) \<and>
     skernel t = skernel st \<and> ekernel t = ekernel st"

lemma kept_refl [simp]: "kept st st"
  by (simp add: kept_def)

lemma kept_trans: "kept r s \<Longrightarrow> kept s t \<Longrightarrow> kept r t"
  by (auto simp: kept_def)

lemma kept_managed: "kept st t \<Longrightarrow> managed t = managed st"
  by (rule managed_frame) (simp_all add: kept_def)

lemma kept_owned:
  assumes "kept st t" and "owned st a k"
  shows "owned t a k"
proof -
  have "a \<notin> free_memory st" using assms(2) blk_self [of a k] unfolding owned_def by blast
  then show ?thesis using assms kept_managed [OF assms(1)] by (simp add: owned_def kept_def)
qed

definition ready ::
  "('z buddy_scheme \<Rightarrow> addr set \<Rightarrow> nat \<Rightarrow> bool) \<Rightarrow> nat \<Rightarrow> 'z buddy_scheme \<Rightarrow> bool" where
  "ready pool n st \<longleftrightarrow> buddy_inv st \<and> hart_ok (cpu st) \<and>
     (\<exists>L. pool st L n \<and> (\<forall>k. set (free_list st k) \<subseteq> L))"

text \<open>
  \<open>pool st L n\<close>: the nodes in \<open>L\<close> are allocated, and \<open>n\<close> more can be allocated without the node
  allocator calling the buddy allocator in turn.
\<close>

locale block_pool =
  fixes AL :: "'z alloc_fn"
    and FR :: "'z free_fn"
    and pool :: "'z buddy_scheme \<Rightarrow> addr set \<Rightarrow> nat \<Rightarrow> bool"
  assumes AL_ok: "pool st L (Suc n) \<Longrightarrow> hart_ok (cpu st) \<Longrightarrow>
      \<exists>b t. AL st = Inr (b, t) \<and> b \<noteq> NULL \<and> b \<notin> L \<and> pool t (insert b L) n \<and> buddy_same st t"
    and FR_ok: "pool st L n \<Longrightarrow> hart_ok (cpu st) \<Longrightarrow> b \<in> L \<Longrightarrow>
      \<exists>t. FR b st = Inr t \<and> pool t (L - {b}) n \<and> buddy_same st t"
    and pool_frame: "pool st L n \<Longrightarrow> pool_same st t \<Longrightarrow> pool t L n"
    and pool_less: "pool st L (Suc n) \<Longrightarrow> pool st L n"

section \<open>The single steps\<close>

lemma buddy_same_views:
  assumes "buddy_same st t"
  shows "ord_of t = ord_of st" "prv_of t = prv_of st" "managed t = managed st"
    "layout_ok t = layout_ok st" "free_memory t = free_memory st"
proof -
  show m: "managed t = managed st" and "layout_ok t = layout_ok st"
    using managed_frame [of t st] layout_frame [of t st] assms by (simp_all add: buddy_same_def)
  show o: "ord_of t = ord_of st" and p: "prv_of t = prv_of st"
    using m assms by (simp_all add: buddy_same_def ord_of_def prv_of_def fun_eq_iff)
  show "free_memory t = free_memory st" by (simp add: free_memory_def o p)
qed

lemma buddy_same_fields:
  assumes "buddy_same st t"
  shows "pages t = pages st" "blk_start t = blk_start st" "free_list t = free_list st"
    "buddy_free_pages t = buddy_free_pages st" "buddy_lock t = buddy_lock st"
    "skernel t = skernel st" "ekernel t = ekernel st"
  using assms by (auto simp: buddy_same_def)

lemma buddy_same_cpu: "buddy_same st t \<Longrightarrow> cpu t = cpu st \<or> cpu t = leave (cpu st)"
  by (simp add: buddy_same_def)

lemma unlink_mem:
  assumes "b \<in> set (free_list st k)" and "k \<le> 11"
  shows "unlink b st = Inr (st\<lparr>free_list := (\<lambda>k. remove1 b (free_list st k))\<rparr>)"
  using assms by (auto simp: unlink_def list_ex_iff BUDDY_MAX_ORDER_def)

lemma push_ok:
  "k \<le> 11 \<Longrightarrow> push_front k b st = Inr (st\<lparr>free_list := (free_list st)(k := b # free_list st k)\<rparr>)"
  "k \<le> 11 \<Longrightarrow> push_back k b st = Inr (st\<lparr>free_list := (free_list st)(k := free_list st k @ [b])\<rparr>)"
  "k \<le> 11 \<Longrightarrow> list_at k st = Inr (free_list st k)"
  by (simp_all add: push_front_def push_back_def list_at_def BUDDY_MAX_ORDER_def)

lemma get_buddy_addr_mate: "get_buddy_addr a k = mate (unat k) a"
proof -
  have "push_bit (unat k) PAGE_SIZE = push_bit (12 + unat k) (1 :: addr)"
    unfolding PAGE_SIZE_def PAGE_SHIFT_def by (simp only: push_bit_push_bit add.commute)
  then show ?thesis by (simp only: get_buddy_addr_def mate_def)
qed

lemma buddy_inv_binv:
  assumes "buddy_inv st"
  shows "layout_ok st" "binv (managed st) (ord_of st) (prv_of st) (blk_start st) (free_list st)"
    "buddy_free_pages st = of_nat (pages_on (free_list st))"
  using assms by (auto simp: buddy_inv_def)

text \<open>Removing a node from every list is removing it from its own.\<close>

lemma remove1_all:
  assumes "buddy_inv st" and "b \<in> set (free_list st i)"
  shows "(\<lambda>k. remove1 b (free_list st k)) = (free_list st)(i := remove1 b (free_list st i))"
proof
  fix k
  have "b \<notin> set (free_list st k)" if "k \<noteq> i"
    using that binv_mem [OF buddy_inv_binv(2) [OF assms(1)], of b] assms(2) by auto
  then show "remove1 b (free_list st k) = ((free_list st)(i := remove1 b (free_list st i))) k"
    by (simp add: remove1_idem)
qed

lemma order_Suc:
  assumes "unat (q :: u8) < 11"
  shows "unat (q + 1) = Suc (unat q)"
proof -
  have "unat q + unat (1 :: u8) < 2 ^ LENGTH(8)" using assms by simp
  then have "unat (q + 1) = unat q + unat (1 :: u8)" by (rule unat_add_lem [THEN iffD1])
  then show ?thesis by simp
qed

definition alloc_result :: "nat \<Rightarrow> 'z buddy_scheme \<Rightarrow> addr \<Rightarrow> 'z buddy_scheme \<Rightarrow> bool" where
  "alloc_result k st a t \<longleftrightarrow>
     (if a = NULL
      then free_memory t = free_memory st \<and> (\<forall>j. k \<le> j \<longrightarrow> free_list t j = [])
      else blk k a \<subseteq> free_memory st \<and> free_memory t = free_memory st - blk k a \<and> owned t a k) \<and>
     (\<forall>x. x \<notin> free_memory st \<longrightarrow> ord_of t x = ord_of st x) \<and>
     skernel t = skernel st \<and> ekernel t = ekernel st"

lemma alloc_result_owned:
  assumes "alloc_result k st a t" and "owned st x j"
  shows "owned t x j" and "a \<noteq> NULL \<Longrightarrow> blk j x \<inter> blk k a = {}"
proof -
  have "x \<notin> free_memory st" using assms(2) blk_self [of x j] unfolding owned_def by blast
  then have "ord_of t x = ord_of st x" using assms(1) by (simp add: alloc_result_def)
  moreover have "managed t = managed st" using assms(1) by (intro managed_frame) (simp_all add: alloc_result_def)
  moreover have "free_memory t \<subseteq> free_memory st" using assms(1) by (auto simp: alloc_result_def split: if_splits)
  ultimately show "owned t x j" using assms(2) unfolding owned_def by auto
  show "a \<noteq> NULL \<Longrightarrow> blk j x \<inter> blk k a = {}"
    using assms unfolding owned_def alloc_result_def by auto
qed

text \<open>The order chosen for a request is the least whose block holds it.\<close>

lemma size2order_spec:
  assumes "PAGE_SIZE \<le> sz" and "sz \<le> BUDDY_BLOB_SIZE" and "k = unat (size2order sz)"
  shows "k \<le> 11" and "unat sz \<le> 2 ^ (12 + k)" and "k = 0 \<or> 2 ^ (12 + k - 1) < unat sz"
proof -
  have sz: "4096 \<le> unat sz" "unat sz \<le> 2 ^ 23"
    using assms by (simp_all add: word_le_nat_alt config_values)
  then have nz: "sz \<noteq> 0" by auto
  obtain j where j: "log2_ceil sz = int j" "unat sz \<le> 2 ^ j" "j = 0 \<or> 2 ^ (j - 1) < unat sz"
    using log2_ceil_bounds [OF nz] by blast
  have "(2 :: nat) ^ 12 \<le> 2 ^ j" using sz j(2) by simp
  then have j12: "12 \<le> j" by (rule power_le_imp_le_exp [rotated]) simp
  have j23: "j \<le> 23" using log2_ceil_least(3) [OF nz, of 23] j(1) sz(2) by simp
  have "int j - int 12 = int (j - 12)" using j12 by (simp only: of_nat_diff)
  then have "size2order sz = of_nat (j - 12)"
    by (simp only: size2order_def PAGE_SHIFT_def j(1) of_int_of_nat_eq)
  then have k: "k = j - 12" using assms(3) j23 by (simp add: unat_of_nat_small)
  show "k \<le> 11" "unat sz \<le> 2 ^ (12 + k)" using k j12 j23 j(2) by simp_all
  show "k = 0 \<or> 2 ^ (12 + k - 1) < unat sz" using k j12 j(3) by auto
qed

context block_pool
begin

lemma ready_pool:
  assumes "ready pool n st" and "b \<in> set (free_list st k)"
  obtains L where "pool st L n" and "\<And>j. set (free_list st j) \<subseteq> L" and "b \<in> L"
  using assms by (auto simp: ready_def)

lemma merged_ok:
  assumes r: "ready pool n st" and L: "\<And>j. set (free_list st j) \<subseteq> L"
    and lo: "prv_of st lo \<noteq> 0" "ord_of st lo = i" and hi: "prv_of st hi \<noteq> 0" "ord_of st hi = i"
    and m: "hi = mate i lo" "lo < hi" and i: "i < 11"
    and p: "pool t (L - {prv_of st hi}) n"
    and v: "ord_of t = (ord_of st)(hi := 12, lo := Suc i)" "prv_of t = (prv_of st)(hi := 0)"
    and f: "blk_start t = blk_start st"
      "free_list t = (free_list st)(i := remove1 (prv_of st hi) (remove1 (prv_of st lo) (free_list st i)),
         Suc i := prv_of st lo # free_list st (Suc i))"
      "buddy_free_pages t = buddy_free_pages st" "buddy_lock t = buddy_lock st"
      "cpu t = cpu st \<or> cpu t = leave (cpu st)" "skernel t = skernel st" "ekernel t = ekernel st"
  shows "ready pool n t" and "kept st t"
    and "length (free_list t i) < length (free_list st i)"
proof -
  have I: "binv (managed st) (ord_of st) (prv_of st) (blk_start st) (free_list st)"
    and lay: "layout_ok st" and cnt: "buddy_free_pages st = of_nat (pages_on (free_list st))"
    using r by (simp_all add: ready_def buddy_inv_def)
  have mg: "managed t = managed st" and lay': "layout_ok t"
    using managed_frame [of t st] layout_frame [of t st] f lay by simp_all
  note core = binv_merge [OF I lo hi m i]
  have ne: "hi \<noteq> lo" using m by auto
  have mem: "prv_of st lo \<in> set (free_list st i)" "prv_of st hi \<in> set (free_list st i)"
    using binv_head(5) [OF I lo(1)] binv_head(5) [OF I hi(1)] lo hi by simp_all
  have nb: "prv_of st lo \<noteq> prv_of st hi" using binv_inj [OF I lo(1)] ne by metis
  have I': "binv (managed t) (ord_of t) (prv_of t) (blk_start t) (free_list t)"
    unfolding mg v f by (rule core(1))
  have "pages_on (free_list t) = pages_on (free_list st)"
    unfolding f using pages_on_merge mem nb i by blast
  then have inv: "buddy_inv t" using I' lay' cnt f by (simp add: buddy_inv_def)
  have sub: "set (free_list t k) \<subseteq> L - {prv_of st hi}" for k
  proof
    fix b assume b: "b \<in> set (free_list t k)"
    have "b \<noteq> prv_of st hi"
      using binv_list(4) [OF I' b] v f binv_head(4) [OF I hi(1)] binv_list(6) [OF I' b] by auto
    moreover have "b \<in> L"
      using b L mem unfolding f by (auto split: if_splits dest: set_mp [OF set_remove1_subset])
    ultimately show "b \<in> L - {prv_of st hi}" by simp
  qed
  have "hart_ok (cpu t)" using f(5) r by (auto simp: ready_def)
  then show "ready pool n t" using inv p sub unfolding ready_def by blast
  have fm: "free_memory t = free_memory st"
    unfolding free_memory_def v by (rule core(2))
  have "lo \<in> free_memory st" "hi \<in> free_memory st"
    using lo hi by (auto simp: free_memory_def free_mem_def)
  then show "kept st t" unfolding kept_def using fm f v by auto
  show "length (free_list t i) < length (free_list st i)"
    unfolding f using mem nb length_pos_if_in_set [OF mem(1)] by (simp add: length_remove1 in_set_remove1)
qed

lemma merge_finish:
  assumes r: "ready pool n st" and L: "pool st L n" "\<And>j. set (free_list st j) \<subseteq> L"
    and lo: "prv_of st lo \<noteq> 0" "ord_of st lo = i" and hi: "prv_of st hi \<noteq> 0" "ord_of st hi = i"
    and m: "hi = mate i lo" "lo < hi" and i: "i < 11"
    and st1: "st1 = st\<lparr>free_list := fl1\<rparr>"
      "fl1 = (free_list st)(i := remove1 (prv_of st hi) (remove1 (prv_of st lo) (free_list st i)))"
  shows "\<exists>t. rbind (FR (prv_of st hi) st1) (\<lambda>st'.
        let st' = upd_page (pidx hi) (\<lambda>q. q\<lparr>priv := NULL, order := of_nat BUDDY_MAX_ORDER + 1\<rparr>) st';
            st' = upd_page (pidx lo) (\<lambda>q. q\<lparr>order := order q + 1\<rparr>) st'
        in push_front (unat (order (pages st' (pidx lo)))) (prv_of st lo) st') = Inr t \<and>
      ready pool n t \<and> kept st t \<and> length (free_list t i) < length (free_list st i)"
proof -
  have inv: "buddy_inv st" and hok: "hart_ok (cpu st)" using r by (simp_all add: ready_def)
  note I = buddy_inv_binv(2) [OF inv] and lay = buddy_inv_binv(1) [OF inv]
  have mg: "lo \<in> managed st" "hi \<in> managed st" using binv_head(1) [OF I] lo hi by auto
  have ne: "pidx lo \<noteq> pidx hi" "lo \<noteq> hi" using pidx_inj [OF lay mg] m by auto
  have "prv_of st hi \<in> L" using binv_head(5) [OF I hi(1)] L(2) by blast
  moreover have "pool st1 L n" using pool_frame [OF L(1)] by (simp add: pool_same_def st1)
  ultimately obtain st2 where st2: "FR (prv_of st hi) st1 = Inr st2" "pool st2 (L - {prv_of st hi}) n"
      "buddy_same st1 st2"
    using FR_ok [of st1 L n "prv_of st hi"] hok by (auto simp: st1)
  note v2 = buddy_same_views [OF st2(3)] and f2 = buddy_same_fields [OF st2(3)]
  define st3 where "st3 = upd_page (pidx hi) (\<lambda>q. q\<lparr>priv := NULL, order := of_nat BUDDY_MAX_ORDER + 1\<rparr>) st2"
  define st4 where "st4 = upd_page (pidx lo) (\<lambda>q. q\<lparr>order := order q + 1\<rparr>) st3"
  have plo: "unat (order (pages st (pidx lo))) = i" "priv (pages st (pidx lo)) = prv_of st lo"
    using page_views [OF mg(1)] lo by simp_all
  have o: "unat (order (pages st4 (pidx lo))) = Suc i"
    using order_Suc [of "order (pages st (pidx lo))"] plo i ne f2 by (simp add: st4_def st3_def st1)
  define t where "t = st4\<lparr>free_list := (free_list st4)(Suc i := prv_of st lo # free_list st4 (Suc i))\<rparr>"
  have eval: "push_front (unat (order (pages st4 (pidx lo)))) (prv_of st lo) st4 = Inr t"
    using o i by (simp add: push_ok t_def)
  have lay2: "layout_ok st2" "managed st2 = managed st" using v2 lay by (simp_all add: st1)
  have w3: "ord_of st3 = (ord_of st)(hi := 12)" "prv_of st3 = (prv_of st)(hi := 0)"
    using views_upd_page [of st2 hi] lay2 mg v2 by (simp_all add: st3_def st1 BUDDY_MAX_ORDER_def)
  have w: "ord_of t = (ord_of st)(hi := 12, lo := Suc i)" "prv_of t = (prv_of st)(hi := 0)"
    using views_upd_page [of st3 lo] lay2 mg w3 o plo ne f2
    by (simp_all add: t_def st4_def st3_def st1 fun_upd_idem)
  have p: "pool t (L - {prv_of st hi}) n"
    by (rule pool_frame [OF st2(2)]) (simp add: pool_same_def t_def st4_def st3_def)
  have fs: "blk_start t = blk_start st" "buddy_free_pages t = buddy_free_pages st" "buddy_lock t = buddy_lock st"
    "skernel t = skernel st" "ekernel t = ekernel st"
    "free_list t = (free_list st)(i := remove1 (prv_of st hi) (remove1 (prv_of st lo) (free_list st i)),
         Suc i := prv_of st lo # free_list st (Suc i))"
    using f2 by (simp_all add: t_def st4_def st3_def st1)
  have fc: "cpu t = cpu st \<or> cpu t = leave (cpu st)"
    using buddy_same_cpu [OF st2(3)] by (simp add: t_def st4_def st3_def st1)
  note ok = merged_ok [OF r L(2) lo hi m i p w fs(1,6,2,3) fc fs(4,5)]
  show ?thesis
    using st2(1) eval ok by (simp add: Let_def st4_def st3_def)
qed

lemma merge_pair_ok:
  assumes r: "ready pool n st" and b: "b \<in> set (free_list st i)" and i: "i < 11"
    and s: "s = blk_start st b" and c: "prv_of st (mate i s) \<noteq> 0" "ord_of st (mate i s) = i"
  shows "\<exists>t. merge_pair FR b (pidx s) (pidx (mate i s)) st = Inr t \<and> ready pool n t \<and> kept st t \<and>
    length (free_list t i) < length (free_list st i)"
proof -
  have inv: "buddy_inv st" and hok: "hart_ok (cpu st)" using r by (simp_all add: ready_def)
  note I = buddy_inv_binv(2) [OF inv] and lay = buddy_inv_binv(1) [OF inv]
  define m where "m = mate i s"
  define d where "d = prv_of st m"
  have d: "d \<noteq> 0" "d \<in> set (free_list st i)" "blk_start st d = m" "m \<in> managed st"
    using binv_head [OF I c(1)] c by (simp_all add: d_def m_def)
  have sm: "s \<in> managed st" and ps: "prv_of st s = b" and os: "ord_of st s = i" and b0: "b \<noteq> 0"
    using binv_list [OF I b] s by simp_all
  have ne: "m \<noteq> s" using mate_neq i by (simp add: m_def)
  have bd: "b \<noteq> d" using d(3) s ne by auto
  have db: "d \<in> set (remove1 b (free_list st i))" using d(2) bd by (simp add: in_set_remove1)
  define st1 where "st1 = st\<lparr>free_list := (\<lambda>k. remove1 d (remove1 b (free_list st k)))\<rparr>"
  have u: "unlink b st = Inr (st\<lparr>free_list := (\<lambda>k. remove1 b (free_list st k))\<rparr>)"
    using unlink_mem [OF b] i by simp
  have u2: "unlink d (st\<lparr>free_list := (\<lambda>k. remove1 b (free_list st k))\<rparr>) = Inr st1"
    using unlink_mem [of d "st\<lparr>free_list := (\<lambda>k. remove1 b (free_list st k))\<rparr>" i] db i
    by (simp add: st1_def)
  have fl1: "free_list st1 = (free_list st)(i := remove1 d (remove1 b (free_list st i)))"
  proof
    fix k show "free_list st1 k = ((free_list st)(i := remove1 d (remove1 b (free_list st i)))) k"
      using fun_cong [OF remove1_all [OF inv b], of k] fun_cong [OF remove1_all [OF inv d(2)], of k]
      by (auto simp: st1_def)
  qed
  obtain L where L: "pool st L n" "\<And>j. set (free_list st j) \<subseteq> L" "b \<in> L" "d \<in> L"
    using r b d(2) by (auto simp: ready_def)
  have "pool st1 L n" using pool_frame [OF L(1)] by (simp add: pool_same_def st1_def)
  have hok1: "hart_ok (cpu st1)" using hok by (simp add: st1_def)
  have pd: "priv (pages st (pidx m)) = d" using page_views [OF d(4)] by (simp add: d_def)
  have st1_views: "ord_of st1 = ord_of st" "prv_of st1 = prv_of st" "managed st1 = managed st"
    "layout_ok st1" "blk_start st1 = blk_start st" "pages st1 = pages st"
    using lay by (simp_all add: st1_def)
  have unf: "merge_pair FR b (pidx s) (pidx m) st = rbind (Inr st1) (\<lambda>st.
      if blk_start st d < blk_start st b then
             rbind (FR b st) (\<lambda>st.
               let st = upd_page (pidx s) (\<lambda>q. q\<lparr>priv := NULL, order := of_nat BUDDY_MAX_ORDER + 1\<rparr>) st;
                   st = upd_page (pidx m) (\<lambda>q. q\<lparr>order := order q + 1\<rparr>) st
               in push_front (unat (order (pages st (pidx m)))) d st)
           else
             rbind (FR d st) (\<lambda>st.
               let st = upd_page (pidx m) (\<lambda>q. q\<lparr>priv := NULL, order := of_nat BUDDY_MAX_ORDER + 1\<rparr>) st;
                   st = upd_page (pidx s) (\<lambda>q. q\<lparr>order := order q + 1\<rparr>) st
               in push_front (unat (order (pages st (pidx s)))) b st))"
    unfolding merge_pair_def pd Let_def u rbind_Inr u2 ..
  have sm': "s = mate i m" by (simp add: m_def)
  have st1f: "st1 = st\<lparr>free_list := free_list st1\<rparr>" by (simp add: st1_def)
  have pm: "prv_of st m = d" "ord_of st m = i" using c by (simp_all add: d_def m_def)
  have "\<exists>t. merge_pair FR b (pidx s) (pidx m) st = Inr t \<and> ready pool n t \<and> kept st t \<and>
    length (free_list t i) < length (free_list st i)"
  proof (cases "m < s")
    case True
    have fl1': "free_list st1 = (free_list st)(i := remove1 (prv_of st s) (remove1 (prv_of st m) (free_list st i)))"
      unfolding fl1 pm ps by (simp only: remove1_commute)
    show ?thesis
      using merge_finish [OF r L(1,2) _ pm(2) _ os sm' True i st1f fl1'] d(1) b0 True
      unfolding unf rbind_Inr st1_views(5) d(3) s [symmetric] ps pm by simp
  next
    case False
    then have lt: "s < m" using ne by simp
    have fl1': "free_list st1 = (free_list st)(i := remove1 (prv_of st m) (remove1 (prv_of st s) (free_list st i)))"
      unfolding fl1 pm ps ..
    show ?thesis
      using merge_finish [OF r L(1,2) _ os _ pm(2) m_def lt i st1f fl1'] d(1) b0 False
      unfolding unf rbind_Inr st1_views(5) d(3) s [symmetric] ps pm by simp
  qed
  then show ?thesis by (simp only: m_def)
qed

lemma find_mergeable_ok:
  assumes r: "ready pool n st" and i: "i < 11" and bs: "set bs \<subseteq> set (free_list st i)"
  shows "find_mergeable i bs st = Inr None \<or>
    (\<exists>b s. b \<in> set bs \<and> s = blk_start st b \<and> prv_of st (mate i s) \<noteq> 0 \<and> ord_of st (mate i s) = i \<and>
       find_mergeable i bs st = Inr (Some (b, pidx s, pidx (mate i s))))"
  using bs
proof (induction bs)
  case (Cons b bs)
  have inv: "buddy_inv st" using r by (simp add: ready_def)
  note I = buddy_inv_binv(2) [OF inv] and lay = buddy_inv_binv(1) [OF inv]
  define s where "s = blk_start st b"
  have b: "b \<in> set (free_list st i)" using Cons.prems by simp
  have s: "s \<in> managed st" "ord_of st s = i" using binv_list [OF I b] by (simp_all add: s_def)
  have m: "mate i s \<in> managed st" using mate_managed [OF s(1) i] .
  have o: "unat (order (pages st (pidx s))) = i" using page_views [OF s(1)] s by simp
  show ?case
  proof (cases "prv_of st (mate i s) = 0 \<or> ord_of st (mate i s) \<noteq> i")
    case True
    then have "find_mergeable i (b # bs) st = find_mergeable i bs st"
      using the_page_managed [OF lay s(1)] the_page_managed [OF lay m] o page_views [OF m]
      by (simp add: s_def get_buddy_addr_mate)
    moreover have "set bs \<subseteq> set (free_list st i)" using Cons.prems by simp
    ultimately show ?thesis using Cons.IH by (metis list.set_intros(2))
  next
    case False
    then have "find_mergeable i (b # bs) st = Inr (Some (b, pidx s, pidx (mate i s)))"
      using the_page_managed [OF lay s(1)] the_page_managed [OF lay m] o page_views [OF m]
      by (simp add: s_def get_buddy_addr_mate)
    then show ?thesis using False s_def by (metis list.set_intros(1))
  qed
qed simp

lemma merge_level_ok:
  assumes "ready pool n st" and "i < 11" and "length (free_list st i) < fuel"
  shows "\<exists>t. merge_level FR fuel i st = Inr t \<and> ready pool n t \<and> kept st t"
  using assms(1,3)
proof (induction fuel arbitrary: st)
  case (Suc fuel)
  consider "find_mergeable i (free_list st i) st = Inr None"
    | b s where "b \<in> set (free_list st i)" "s = blk_start st b" "prv_of st (mate i s) \<noteq> 0"
      "ord_of st (mate i s) = i"
      "find_mergeable i (free_list st i) st = Inr (Some (b, pidx s, pidx (mate i s)))"
    using find_mergeable_ok [OF Suc.prems(1) assms(2) subset_refl] by blast
  then show ?case
  proof cases
    case 1
    then show ?thesis using Suc.prems by simp
  next
    case 2
    obtain t where t: "merge_pair FR b (pidx s) (pidx (mate i s)) st = Inr t" "ready pool n t" "kept st t"
        "length (free_list t i) < length (free_list st i)"
      using merge_pair_ok [OF Suc.prems(1) 2(1) assms(2) 2(2-4)] by blast
    then obtain u where "merge_level FR fuel i t = Inr u" "ready pool n u" "kept t u"
      using Suc.IH [of t] Suc.prems by auto
    then show ?thesis using t 2(5) kept_trans [OF t(3)] by simp
  qed
qed simp

lemma merge_from_ok:
  assumes "ready pool n st" and "\<forall>i\<in>set is. i < 11"
  shows "\<exists>t. merge_from FR is st = Inr t \<and> ready pool n t \<and> kept st t"
  using assms
proof (induction "is" arbitrary: st)
  case (Cons i "is")
  show ?case
  proof (cases "free_list st i = []")
    case True
    then show ?thesis using Cons by (simp add: push_ok)
  next
    case False
    obtain t where t: "merge_level FR (Suc (length (free_list st i))) i st = Inr t" "ready pool n t" "kept st t"
      using merge_level_ok [OF Cons.prems(1), of i "Suc (length (free_list st i))"] Cons.prems(2)
      by (auto simp del: merge_level.simps)
    then obtain u where "merge_from FR is t = Inr u" "ready pool n u" "kept t u"
      using Cons.IH [of t] Cons.prems by auto
    then show ?thesis using t False Cons.prems(2) kept_trans [OF t(3)]
      by (simp add: push_ok del: merge_level.simps)
  qed
qed simp

lemma merge_blocks_ok:
  assumes "ready pool n st" and "k \<le> 11"
  shows "\<exists>t. merge_blocks FR k st = Inr t \<and> ready pool n t \<and> kept st t"
  unfolding merge_blocks_def using assms by (intro merge_from_ok) auto

lemma split_one_ok:
  assumes r: "ready pool (Suc n) st" and ne: "free_list st (Suc k) \<noteq> []" and k: "Suc k \<le> 11"
  shows "\<exists>t. split_one AL (Suc k) st = Inr t \<and> ready pool n t \<and> kept st t \<and> free_list t k \<noteq> []"
proof -
  have inv: "buddy_inv st" and hok: "hart_ok (cpu st)" using r by (simp_all add: ready_def)
  note I = buddy_inv_binv(2) [OF inv] and lay = buddy_inv_binv(1) [OF inv]
  define b where "b = hd (free_list st (Suc k))"
  have b: "b \<in> set (free_list st (Suc k))" using ne by (simp add: b_def)
  define s where "s = blk_start st b"
  have s: "s \<in> managed st" "ord_of st s = Suc k" "prv_of st s = b" "b \<noteq> 0"
    using binv_list [OF I b] by (simp_all add: s_def)
  have m: "mate k s \<in> managed st" using mate_managed [OF s(1)] k by simp
  have nm: "mate k s \<noteq> s" using mate_neq k by simp
  then have np: "pidx (mate k s) \<noteq> pidx s" using pidx_inj [OF lay m s(1)] by auto
  obtain L where L: "pool st L (Suc n)" "\<And>j. set (free_list st j) \<subseteq> L" using r by (auto simp: ready_def)
  define fl1 where "fl1 = (free_list st)(Suc k := remove1 b (free_list st (Suc k)))"
  define st1 where "st1 = st\<lparr>free_list := fl1\<rparr>"
  have u: "unlink b st = Inr st1"
    using unlink_mem [OF b k] remove1_all [OF inv b] by (simp add: st1_def fl1_def)
  have "pool st1 L (Suc n)" using pool_frame [OF L(1)] by (simp add: pool_same_def st1_def)
  then obtain c st2 where c: "AL st1 = Inr (c, st2)" "c \<noteq> 0" "c \<notin> L" "pool st2 (insert c L) n" "buddy_same st1 st2"
    using AL_ok [of st1 L n] hok by (auto simp: st1_def)
  note v2 = buddy_same_views [OF c(5)] and f2 = buddy_same_fields [OF c(5)]
  define o' where "o' = (of_nat k :: u8)"
  have o': "unat o' = k" using k by (simp add: o'_def unat_of_nat_small)
  define st3 where "st3 = upd_page (pidx s) (\<lambda>q. q\<lparr>order := o'\<rparr>) st2"
  define st4 where "st4 = upd_page (pidx (mate k s)) (\<lambda>q. q\<lparr>order := o', priv := c\<rparr>)
      (st3\<lparr>blk_start := (blk_start st3)(c := mate k s)\<rparr>)"
  define t where "t = st4\<lparr>free_list := (free_list st4)(k := free_list st4 k @ [b, c])\<rparr>"
  have lay2: "layout_ok st2" "managed st2 = managed st" using v2 lay by (simp_all add: st1_def)
  have ps: "priv (pages st (pidx s)) = b" using page_views [OF s(1)] s by simp
  have w3: "ord_of st3 = (ord_of st)(s := k)" "prv_of st3 = prv_of st"
    using views_upd_page [of st2 s] lay2 s v2 f2 o' ps by (simp_all add: st3_def st1_def fun_upd_idem)
  have w: "ord_of t = (ord_of st)(s := k, mate k s := k)" "prv_of t = (prv_of st)(mate k s := c)"
    using views_upd_page [of "st3\<lparr>blk_start := (blk_start st3)(c := mate k s)\<rparr>" "mate k s"] lay2 m w3 o'
    by (simp_all add: t_def st4_def st3_def)
  have fs: "blk_start t = (blk_start st)(c := mate k s)" "buddy_free_pages t = buddy_free_pages st"
    "buddy_lock t = buddy_lock st" "skernel t = skernel st" "ekernel t = ekernel st"
    "free_list t = (free_list st)(Suc k := remove1 b (free_list st (Suc k)), k := free_list st k @ [b, c])"
    using f2 by (simp_all add: t_def st4_def st3_def st1_def fl1_def)
  have fc: "cpu t = cpu st \<or> cpu t = leave (cpu st)"
    using buddy_same_cpu [OF c(5)] by (simp add: t_def st4_def st3_def st1_def)
  have mg: "managed t = managed st" "layout_ok t"
    using managed_frame [of t st] layout_frame [of t st] fs lay by simp_all
  have cn: "\<And>j. c \<notin> set (free_list st j)" using L(2) c(3) by blast
  have s0: "prv_of st s \<noteq> 0" using s by simp
  note core = binv_split [OF I s0 s(2) c(2) cn m]
  have I': "binv (managed t) (ord_of t) (prv_of t) (blk_start t) (free_list t)"
    unfolding mg w fs using core(1) s(3) by simp
  have cnt: "pages_on (free_list t) = pages_on (free_list st)"
    unfolding fs by (rule pages_on_split [of b "free_list st" k, OF b k])
  have inv': "buddy_inv t" using I' mg cnt fs buddy_inv_binv(3) [OF inv] by (simp add: buddy_inv_def)
  have p: "pool t (insert c L) n"
    by (rule pool_frame [OF c(4)]) (simp add: pool_same_def t_def st4_def st3_def)
  have sub: "set (free_list t j) \<subseteq> insert c L" for j
    using L(2) b unfolding fs by (auto dest: set_mp [OF set_remove1_subset])
  have "ready pool n t" unfolding ready_def using inv' p sub fc hok by auto
  moreover have "kept st t"
  proof -
    have "free_memory t = free_memory st" unfolding free_memory_def w by (rule core(2))
    moreover have "s \<in> free_memory st" "mate k s \<in> free_memory st"
      using s(4) s(3) s(2) blk_Suc [of k s] k by (auto simp: free_memory_def free_mem_def intro!: exI [of _ s])
    ultimately show ?thesis unfolding kept_def using fs w fc by auto
  qed
  moreover have "split_one AL (Suc k) st = Inr t"
  proof -
    have "first_entry (Suc k) st = Inr b"
      using ne k by (auto simp: first_entry_def push_ok b_def split: list.split)
    moreover have "unat (order (pages st (pidx s))) = Suc k" using page_views [OF s(1)] s by simp
    moreover have "blk_start st2 b = s" "blk_start st3 = blk_start st2" "free_list st3 = free_list st2"
      using f2 by (simp_all add: st3_def st1_def s_def)
    ultimately show ?thesis
      using the_page_managed [OF lay s(1)] the_page_managed [OF lay m] u c(1,2) k o'
      by (simp add: split_one_def s_def [symmetric] Let_def get_buddy_addr_mate o'_def [symmetric]
          push_ok st3_def [symmetric]) (simp add: t_def st4_def)
  qed
  moreover have "free_list t k \<noteq> []" by (simp add: fs)
  ultimately show ?thesis by blast
qed

lemma split_down_ok:
  assumes "ready pool (n + (source - target)) st" and "free_list st source \<noteq> []"
    and "target \<le> source" and "source \<le> 11"
  shows "\<exists>t. split_down AL source target st = Inr t \<and> ready pool n t \<and> kept st t \<and> free_list t target \<noteq> []"
  using assms
proof (induction source arbitrary: st)
  case (Suc k)
  show ?case
  proof (cases "target = Suc k")
    case False
    then have le: "target \<le> k" and eq: "n + (Suc k - target) = Suc (n + (k - target))" using Suc.prems by auto
    obtain t where t: "split_one AL (Suc k) st = Inr t" "ready pool (n + (k - target)) t" "kept st t"
        "free_list t k \<noteq> []"
      using split_one_ok [of "n + (k - target)" st k] Suc.prems eq by auto
    then obtain u where "split_down AL k target t = Inr u" "ready pool n u" "kept t u" "free_list u target \<noteq> []"
      using Suc.IH [of t] le Suc.prems by auto
    then show ?thesis using t le kept_trans [OF t(3)] by auto
  qed (use Suc.prems in auto)
qed auto

lemma ready_less: "ready pool (n + m) st \<Longrightarrow> ready pool n st"
proof (induction m)
  case (Suc m)
  then obtain L where "buddy_inv st" "hart_ok (cpu st)" "pool st L (Suc (n + m))" "\<forall>k. set (free_list st k) \<subseteq> L"
    by (auto simp: ready_def)
  then have "ready pool (n + m) st" using pool_less [of st L "n + m"] unfolding ready_def by blast
  then show ?case by (rule Suc.IH)
qed simp

lemma split_blocks_ok:
  assumes "ready pool (n + 11) st" and "target \<le> 11"
  shows "\<exists>t. split_blocks AL target st = Inr t \<and> ready pool n t \<and> kept st t \<and>
    (free_list t target = [] \<longrightarrow> (\<forall>j. target < j \<longrightarrow> free_list st j = []) \<and> t = st)"
proof (cases "find (\<lambda>k. free_list st k \<noteq> []) [Suc target..<Suc BUDDY_MAX_ORDER]")
  case None
  then have "free_list st j = []" if "target < j" "j \<le> 11" for j
    using that by (auto simp: find_None_iff BUDDY_MAX_ORDER_def)
  moreover have "free_list st j = []" if "11 < j" for j
    using binv_big_empty [OF buddy_inv_binv(2)] assms(1) that by (auto simp: ready_def)
  ultimately have "free_list st j = []" if "target < j" for j using that by (meson not_less)
  then show ?thesis using None ready_less [OF assms(1)] by (auto simp: split_blocks_def)
next
  case (Some source)
  then have s: "free_list st source \<noteq> []" "target < source" "source \<le> 11"
    by (auto simp: find_Some_iff BUDDY_MAX_ORDER_def dest!: nth_mem)
  have "ready pool (n + (source - target)) st"
    by (rule ready_less [where m = "11 - (source - target)"]) (use assms s in simp)
  then show ?thesis using split_down_ok [OF _ s(1)] s Some by (force simp: split_blocks_def)
qed

text \<open>The block at the head of a list is taken out of the free memory and belongs to the caller.\<close>

lemma alloc_inner_ok:
  assumes r: "ready pool n st" and ne: "free_list st k \<noteq> []" and k: "k \<le> 11"
  shows "\<exists>a t. buddy_alloc_inner FR k st = Inr (a, t) \<and> ready pool n t \<and> a \<noteq> 0 \<and>
    blk k a \<subseteq> free_memory st \<and> free_memory t = free_memory st - blk k a \<and> owned t a k \<and>
    (\<forall>x. ord_of t x = ord_of st x) \<and> buddy_lock t = buddy_lock st \<and>
    (cpu t = cpu st \<or> cpu t = leave (cpu st)) \<and> skernel t = skernel st \<and> ekernel t = ekernel st"
proof -
  have inv: "buddy_inv st" and hok: "hart_ok (cpu st)" using r by (simp_all add: ready_def)
  note I = buddy_inv_binv(2) [OF inv] and lay = buddy_inv_binv(1) [OF inv]
  define b where "b = hd (free_list st k)"
  have b: "b \<in> set (free_list st k)" using ne by (simp add: b_def)
  define s where "s = blk_start st b"
  have s: "s \<in> managed st" "ord_of st s = k" "prv_of st s = b" "b \<noteq> 0" "aligned_to k s"
    using binv_list [OF I b] by (simp_all add: s_def)
  obtain L where L: "pool st L n" "\<And>j. set (free_list st j) \<subseteq> L" using r by (auto simp: ready_def)
  define st1 where "st1 = upd_page (pidx s) (\<lambda>q. q\<lparr>priv := NULL\<rparr>) st"
  define st2 where "st2 = st1\<lparr>free_list := (free_list st)(k := remove1 b (free_list st k))\<rparr>"
  have u: "unlink b st1 = Inr st2"
    using unlink_mem [of b st1 k] b k remove1_all [OF inv b] by (simp add: st2_def st1_def)
  have "pool st2 L n" using pool_frame [OF L(1)] by (simp add: pool_same_def st2_def st1_def)
  then obtain st3 where st3: "FR b st2 = Inr st3" "pool st3 (L - {b}) n" "buddy_same st2 st3"
    using FR_ok [of st2 L n b] hok b L(2) by (auto simp: st2_def st1_def)
  note v3 = buddy_same_views [OF st3(3)] and f3 = buddy_same_fields [OF st3(3)]
  define t where "t = st3\<lparr>buddy_free_pages := buddy_free_pages st3 - push_bit k 1\<rparr>"
  have w: "ord_of t = ord_of st" "prv_of t = (prv_of st)(s := 0)"
    using views_upd_page [OF lay s(1)] v3 page_views [OF s(1)] s
    by (simp_all add: t_def st2_def st1_def fun_upd_idem)
  have fs: "blk_start t = blk_start st" "buddy_lock t = buddy_lock st" "skernel t = skernel st" "ekernel t = ekernel st"
    "free_list t = (free_list st)(k := remove1 b (free_list st k))"
    "buddy_free_pages t = buddy_free_pages st - push_bit k 1"
    using f3 by (simp_all add: t_def st2_def st1_def)
  have fc: "cpu t = cpu st \<or> cpu t = leave (cpu st)"
    using buddy_same_cpu [OF st3(3)] by (simp add: t_def st2_def st1_def)
  have mg: "managed t = managed st" "layout_ok t"
    using managed_frame [of t st] layout_frame [of t st] fs lay by simp_all
  have s0: "prv_of st s \<noteq> 0" using s by simp
  have I': "binv (managed t) (ord_of t) (prv_of t) (blk_start t) (free_list t)"
    unfolding mg w fs using binv_take [OF I s0] s by simp
  have fm: "free_memory t = free_memory st - blk k s"
    unfolding free_memory_def w using free_mem_take [OF I s0] s by simp
  have "pages_on (free_list st) = pages_on (free_list t) + 2 ^ k"
    unfolding fs by (rule pages_on_take [of b "free_list st" k, OF b k])
  then have cnt: "buddy_free_pages t = of_nat (pages_on (free_list t))"
    using buddy_inv_binv(3) [OF inv] by (simp add: fs push_bit_eq_mult)
  have inv': "buddy_inv t" using I' mg cnt by (simp add: buddy_inv_def)
  have p: "pool t (L - {b}) n" by (rule pool_frame [OF st3(2)]) (simp add: pool_same_def t_def)
  have sub: "set (free_list t j) \<subseteq> L - {b}" for j
  proof -
    have "b \<notin> set (free_list t j)" using binv_mem [OF I', of b j] w fs s by (auto simp: s_def)
    then show ?thesis using L(2) [of j] unfolding fs by (auto dest: set_mp [OF set_remove1_subset] split: if_splits)
  qed
  have rd: "ready pool n t" unfolding ready_def using inv' p sub fc hok by auto
  have ow: "owned t s k" using s k w fm mg by (auto simp: owned_def)
  have sf: "blk k s \<subseteq> free_memory st" using s0 s by (auto simp: free_memory_def free_mem_def)
  have nz: "s \<noteq> 0" using managed_range(1) [OF lay s(1)] by auto
  have "first_entry k st = Inr b"
    using ne k by (auto simp: first_entry_def push_ok b_def split: list.split)
  then have "buddy_alloc_inner FR k st = Inr (s, t)"
    using the_page_managed [OF lay s(1)] page_views [OF s(1)] s u st3(1)
    by (simp add: buddy_alloc_inner_def s_def [symmetric] st1_def [symmetric] t_def Let_def)
       (simp add: st1_def s_def)
  then show ?thesis using rd nz sf fm ow w fs fc by auto
qed

text \<open>
  The result of an allocation: a block of the least sufficient order, taken out of the free
  memory, or no block at all when no list of that order or above has one.
\<close>

lemma alloc_nolock_ok:
  assumes r: "ready pool (n + 11) st" and sz: "PAGE_SIZE \<le> sz" "sz \<le> BUDDY_BLOB_SIZE"
    and k: "k = unat (size2order sz)"
  shows "\<exists>a t. buddy_alloc_nolock AL FR sz st = Inr (a, t) \<and> ready pool n t \<and>
    alloc_result k st a t \<and> buddy_lock t = buddy_lock st \<and> (cpu t = cpu st \<or> cpu t = leave (cpu st))"
proof -
  have k11: "k \<le> 11" using size2order_spec [OF sz k] by simp
  have fin: "\<exists>a t. buddy_alloc_inner FR k u = Inr (a, t) \<and> ready pool n t \<and>
    alloc_result k st a t \<and> buddy_lock t = buddy_lock st \<and> (cpu t = cpu st \<or> cpu t = leave (cpu st))"
    if u: "ready pool n u" "kept st u" "free_list u k \<noteq> []" for u
  proof -
    obtain a t where t: "buddy_alloc_inner FR k u = Inr (a, t)" "ready pool n t" "a \<noteq> 0"
      "blk k a \<subseteq> free_memory u" "free_memory t = free_memory u - blk k a" "owned t a k"
      "\<forall>x. ord_of t x = ord_of u x" "buddy_lock t = buddy_lock u"
      "cpu t = cpu u \<or> cpu t = leave (cpu u)" "skernel t = skernel u" "ekernel t = ekernel u"
      using alloc_inner_ok [OF u(1) u(3) k11] by blast
    have "alloc_result k st a t"
      unfolding alloc_result_def using t u(2) by (auto simp: kept_def)
    then show ?thesis using t(1,2,8,9) u(2) by (auto simp: kept_def)
  qed
  have at: "list_at k st = Inr (free_list st k)" using k11 by (simp add: push_ok)
  show ?thesis
  proof (cases "free_list st k = []")
    case False
    then show ?thesis using fin [of st] ready_less [OF r] at
      by (simp add: buddy_alloc_nolock_def k [symmetric])
  next
    case True
    obtain u where u: "merge_blocks FR k st = Inr u" "ready pool (n + 11) u" "kept st u"
      using merge_blocks_ok [OF r k11] by blast
    show ?thesis
    proof (cases "free_list u k = []")
      case False
      then show ?thesis using fin [of u] ready_less [OF u(2)] u True at
        by (simp add: buddy_alloc_nolock_def k [symmetric])
    next
      case ue: True
      obtain v where v: "split_blocks AL k u = Inr v" "ready pool n v" "kept u v"
          "free_list v k = [] \<longrightarrow> (\<forall>j. k < j \<longrightarrow> free_list u j = []) \<and> v = u"
        using split_blocks_ok [OF u(2) k11] by blast
      have sv: "kept st v" using kept_trans [OF u(3) v(3)] .
      show ?thesis
      proof (cases "free_list v k = []")
        case False
        then show ?thesis using fin [of v] v u True ue at sv
          by (simp add: buddy_alloc_nolock_def k [symmetric])
      next
        case ve: True
        have "free_list v j = []" if "k \<le> j" for j using that v(4) ve ue by (cases "j = k") auto
        then have "alloc_result k st 0 v"
          unfolding alloc_result_def using sv by (simp add: kept_def)
        then show ?thesis using v u True ue ve at sv
          by (simp add: buddy_alloc_nolock_def k [symmetric]) (simp add: kept_def)
      qed
    qed
  qed
qed

lemma ready_frame:
  assumes "ready pool n st" and "buddy_inv t" and "pool_same st t" and "free_list t = free_list st"
  shows "ready pool n t"
proof -
  obtain L where L: "pool st L n" "\<forall>k. set (free_list st k) \<subseteq> L" "hart_ok (cpu st)"
    using assms(1) by (auto simp: ready_def)
  have "hart_ok (cpu t)" using L(3) assms(3) by (simp add: pool_same_def)
  moreover have "pool t L n" by (rule pool_frame [OF L(1) assms(3)])
  ultimately show ?thesis using L(2) assms(2,4) unfolding ready_def by auto
qed

lemma alloc_ok:
  assumes r: "ready pool (n + 11) st" and fr: "lock_free (buddy_lock st)"
    and sz: "PAGE_SIZE \<le> sz" "sz \<le> BUDDY_BLOB_SIZE"
  shows "\<exists>a t. buddy_alloc AL FR sz st = Inr (a, t) \<and> ready pool n t \<and>
    alloc_result (unat (size2order sz)) st a t \<and> lock_free (buddy_lock t) \<and> cpu t = leave (cpu st)"
proof -
  have hok: "hart_ok (cpu st)" using r by (simp add: ready_def)
  define st1 where "st1 = st\<lparr>cpu := intr_off (cpu st), buddy_lock := hold (cpu st) (buddy_lock st)\<rparr>"
  have views1: "free_memory st1 = free_memory st" "ord_of st1 = ord_of st" "buddy_inv st1 = buddy_inv st"
    by (simp_all add: st1_def free_memory_def buddy_inv_def)
  have "ready pool (n + 11) st1"
    by (rule ready_frame [OF r]) (use r hok views1 in \<open>auto simp: ready_def pool_same_def st1_def\<close>)
  then obtain a u where u: "buddy_alloc_nolock AL FR sz st1 = Inr (a, u)" "ready pool n u"
      "alloc_result (unat (size2order sz)) st1 a u" "buddy_lock u = buddy_lock st1"
      "cpu u = cpu st1 \<or> cpu u = leave (cpu st1)"
    using alloc_nolock_ok [OF _ sz refl] by blast
  have cu: "cpu u = intr_off (cpu st)" using u(5) hok by (auto simp: st1_def)
  define t where "t = u\<lparr>cpu := leave (cpu st), buddy_lock := unhold (buddy_lock st)\<rparr>"
  have rel: "buddy_release u = Inr t"
    using release_held [OF hok, of "buddy_lock st"] cu u(4)
    by (simp add: buddy_release_def t_def st1_def)
  have "ready pool n t"
    by (rule ready_frame [OF u(2)])
       (use u(2) hok cu in \<open>auto simp: ready_def pool_same_def t_def buddy_inv_def\<close>)
  moreover have "alloc_result (unat (size2order sz)) st a t"
    using u(3) by (auto simp: alloc_result_def t_def st1_def owned_def free_memory_def)
  moreover have "buddy_alloc AL FR sz st = Inr (a, t)"
    using sz [unfolded linorder_not_less [symmetric]] fr rel u(1) acquire_free [OF fr, of "cpu st"]
    by (simp add: buddy_alloc_def buddy_acquire_def st1_def)
  ultimately show ?thesis by (auto simp: t_def)
qed

lemma free_ok:
  assumes r: "ready pool (Suc n) st" and fr: "lock_free (buddy_lock st)" and ow: "owned st a k"
  shows "\<exists>t. buddy_free AL a st = Inr t \<and> ready pool n t \<and> free_memory t = free_memory st \<union> blk k a \<and>
    ord_of t = ord_of st \<and> lock_free (buddy_lock t) \<and> cpu t = leave (cpu st) \<and> managed t = managed st"
proof -
  have inv: "buddy_inv st" and hok: "hart_ok (cpu st)" using r by (simp_all add: ready_def)
  note I = buddy_inv_binv(2) [OF inv] and lay = buddy_inv_binv(1) [OF inv]
  obtain L where L: "pool st L (Suc n)" "\<And>j. set (free_list st j) \<subseteq> L" using r by (auto simp: ready_def)
  obtain b st1 where b: "AL st = Inr (b, st1)" "b \<noteq> 0" "b \<notin> L" "pool st1 (insert b L) n" "buddy_same st st1"
    using AL_ok [OF L(1) hok] by blast
  note v1 = buddy_same_views [OF b(5)] and f1 = buddy_same_fields [OF b(5)]
  have a: "a \<in> managed st" "k \<le> 11" "aligned_to k a" "ord_of st a = k" "blk k a \<inter> free_memory st = {}"
    using ow by (simp_all add: owned_def)
  have a0: "prv_of st a = 0"
  proof (rule ccontr)
    assume "prv_of st a \<noteq> 0"
    then have "a \<in> free_memory st" using blk_self by (auto simp: free_memory_def free_mem_def)
    then show False using a(5) blk_self by blast
  qed
  define st2 where "st2 = upd_page (pidx a) (\<lambda>q. q\<lparr>priv := b\<rparr>) (st1\<lparr>blk_start := (blk_start st1)(b := a)\<rparr>)"
  have v2: "ord_of st2 = ord_of st" "prv_of st2 = (prv_of st)(a := b)"
    using views_upd_page [of "st1\<lparr>blk_start := (blk_start st1)(b := a)\<rparr>" a] v1 lay a page_views [of a st]
    by (simp_all add: st2_def f1 fun_upd_idem)
  have k2: "unat (order (pages st2 (pidx a))) = k" using page_views(1) [OF a(1)] a(4) f1 by (simp add: st2_def)
  have cpu1: "hart_ok (cpu st1)" "leave (cpu st1) = leave (cpu st)"
    using buddy_same_cpu [OF b(5)] hok by auto
  define t where "t = st2\<lparr>cpu := leave (cpu st), buddy_lock := unhold (buddy_lock st),
      buddy_free_pages := buddy_free_pages st + push_bit k 1, free_list := (free_list st)(k := b # free_list st k)\<rparr>"
  have fs: "blk_start t = (blk_start st)(b := a)" "free_list t = (free_list st)(k := b # free_list st k)"
    using f1 by (simp_all add: t_def st2_def)
  have mg: "managed t = managed st" "layout_ok t" using v1 lay by (simp_all add: t_def st2_def)
  have bn: "\<And>j. b \<notin> set (free_list st j)" using L(2) b(3) by blast
  have tv: "ord_of t = (ord_of st)(a := k)" "prv_of t = (prv_of st)(a := b)"
    using v2 a by (simp_all add: t_def fun_upd_idem)
  have I': "binv (managed t) (ord_of t) (prv_of t) (blk_start t) (free_list t)"
    unfolding mg tv fs
    by (rule binv_put [where ord = "ord_of st", OF I a0 b(2) bn a(1) a(2) a(3)])
       (use a(5) bn binv_distinct [OF I] in \<open>auto simp: free_memory_def\<close>)
  have cnt: "buddy_free_pages t = of_nat (pages_on (free_list t))"
    using pages_on_upd [OF a(2), of "free_list st" "b # free_list st k"] buddy_inv_binv(3) [OF inv]
    by (simp add: fs) (simp add: t_def push_bit_eq_mult)
  have inv': "buddy_inv t" using I' mg cnt by (simp add: buddy_inv_def)
  have tp1: "tp (cpu st1) = tp (cpu st)" using buddy_same_cpu [OF b(5)] by auto
  have p: "pool t (insert b L) n"
    by (rule pool_frame [OF b(4)]) (simp add: pool_same_def t_def st2_def f1 tp1 hok)
  have "set (free_list t j) \<subseteq> insert b L" for j using L(2) unfolding fs by auto
  moreover have "hart_ok (cpu t)" using hok by (simp add: t_def)
  ultimately have rd: "ready pool n t" unfolding ready_def using inv' p by blast
  have fm: "free_memory t = free_memory st \<union> blk k a"
    unfolding free_memory_def tv using free_mem_put [of "prv_of st" a b "ord_of st" k, OF a0 b(2)] .
  have fr1: "lock_free (buddy_lock st2)" using fr f1 by (simp add: st2_def)
  have acq: "spinlock_acquire (cpu st2, buddy_lock st2) = Inr (intr_off (cpu st1), hold (cpu st1) (buddy_lock st))"
    using acquire_free [OF fr1, of "cpu st2"] f1 by (simp add: st2_def)
  have "buddy_free AL a st = Inr t"
    using b(1,2) the_page_managed [OF lay a(1)] acq k2 a(2) release_held [OF cpu1(1), of "buddy_lock st"]
    by (simp add: buddy_free_def Let_def buddy_acquire_def st2_def [symmetric] push_ok buddy_release_def)
       (simp add: t_def st2_def f1 cpu1 push_ok buddy_release_def)
  moreover have "ord_of t = ord_of st" using tv a(4) by (simp add: fun_upd_idem)
  ultimately show ?thesis using rd fm mg by (auto simp: t_def)
qed

end

section \<open>Initialisation\<close>

definition region :: "'z pm_scheme \<Rightarrow> addr \<Rightarrow> addr set" where
  "region st p = {x. BUDDY_SYSTEM_BASE st \<le> x \<and> x < p}"

text \<open>The state in which \<^verbatim>\<open>buddy_init\<close> starts: the page array is initialised, no block is free.\<close>

definition boot_ready ::
  "('z buddy_scheme \<Rightarrow> addr set \<Rightarrow> nat \<Rightarrow> bool) \<Rightarrow> nat \<Rightarrow> 'z buddy_scheme \<Rightarrow> bool" where
  "boot_ready pool n st \<longleftrightarrow> layout_ok st \<and> BUDDY_SYSTEM_BASE st \<le> BUDDY_SYSTEM_END \<and>
     (\<forall>a. prv_of st a = 0) \<and> (\<forall>k>11. free_list st k = []) \<and> buddy_free_pages st = 0 \<and>
     hart_ok (cpu st) \<and> (\<exists>L. pool st L n)"

definition blobs_left :: "addr \<Rightarrow> nat" where
  "blobs_left p = 272 - unat p div 2 ^ 23"

lemma blob_block:
  assumes "unat p mod 2 ^ 23 = 0" and "unat p < 0x88000000"
  shows "blk 11 p = {x. p \<le> x \<and> x < p + BUDDY_BLOB_SIZE}"
proof -
  have nw: "unat (p + BUDDY_BLOB_SIZE) = unat p + 2 ^ 23"
    using assms(2) by (simp add: config_values unat_word_ariths)
  define q where "q = unat p div 2 ^ 23"
  have p: "unat p = q * 2 ^ 23" using assms(1) by (simp add: q_def minus_mod_eq_div_mult [symmetric])
  have "drop_bit 23 x = drop_bit 23 p \<longleftrightarrow> p \<le> x \<and> x < p + BUDDY_BLOB_SIZE" for x
  proof -
    have "drop_bit 23 x = drop_bit 23 p \<longleftrightarrow> unat x div 2 ^ 23 = q"
      by (simp only: word_unat_eq_iff unat_drop_bit q_def)
    also have "\<dots> \<longleftrightarrow> q * 2 ^ 23 \<le> unat x \<and> unat x < q * 2 ^ 23 + 2 ^ 23"
      using div_nat_eqI [of "2 ^ 23" q "unat x"] less_eq_div_iff_mult_less_eq [of "2 ^ 23" q "unat x"]
        div_less_iff_less_mult [of "2 ^ 23" "unat x" "Suc q"] by (auto simp: algebra_simps)
    also have "\<dots> \<longleftrightarrow> p \<le> x \<and> x < p + BUDDY_BLOB_SIZE"
      by (simp only: word_le_nat_alt word_less_nat_alt nw p)
    finally show ?thesis .
  qed
  then show ?thesis by (simp add: blk_def)
qed

context block_pool
begin

definition init_inv :: "nat \<Rightarrow> 'z buddy_scheme \<Rightarrow> addr \<Rightarrow> 'z buddy_scheme \<Rightarrow> bool" where
  "init_inv n st0 p st \<longleftrightarrow> ready pool (n + blobs_left p) st \<and> free_memory st = region st p \<and>
     BUDDY_SYSTEM_BASE st \<le> p \<and> p \<le> BUDDY_SYSTEM_END \<and> unat p mod 2 ^ 23 = 0 \<and>
     buddy_lock st = buddy_lock st0 \<and> skernel st = skernel st0 \<and> ekernel st = ekernel st0"

lemma init_step_ok:
  assumes J: "init_inv n st0 p st" and lt: "p < BUDDY_SYSTEM_END"
  shows "\<exists>t. buddy_init_step AL p st = Inr (0, t) \<and> p < p + BUDDY_BLOB_SIZE \<and>
    init_inv n st0 (p + BUDDY_BLOB_SIZE) t"
proof -
  have pl: "unat p < 0x88000000" using lt by (simp add: BUDDY_SYSTEM_END_value word_less_nat_alt)
  have pm: "unat p mod 2 ^ 23 = 0" and pb: "BUDDY_SYSTEM_BASE st \<le> p" using J by (simp_all add: init_inv_def)
  have nw: "unat (p + BUDDY_BLOB_SIZE) = unat p + 2 ^ 23"
    using pl by (simp add: config_values unat_word_ariths)
  have plt: "p < p + BUDDY_BLOB_SIZE" by (simp add: word_less_nat_alt nw)
  define q where "q = unat p div 2 ^ 23"
  have p: "unat p = q * 2 ^ 23" using pm by (simp add: q_def minus_mod_eq_div_mult [symmetric])
  have q: "q < 272" using pl p by simp
  have pe: "p + BUDDY_BLOB_SIZE \<le> BUDDY_SYSTEM_END"
    using q p by (simp add: word_le_nat_alt nw BUDDY_SYSTEM_END_value)
  have left: "n + blobs_left p = Suc (n + blobs_left (p + BUDDY_BLOB_SIZE))"
    using q by (simp add: blobs_left_def nw p)
  have r: "ready pool (Suc (n + blobs_left (p + BUDDY_BLOB_SIZE))) st" and fm: "free_memory st = region st p"
    using J left by (simp_all add: init_inv_def)
  have inv: "buddy_inv st" and hok: "hart_ok (cpu st)" using r by (simp_all add: ready_def)
  note I = buddy_inv_binv(2) [OF inv] and lay = buddy_inv_binv(1) [OF inv]
  have al: "aligned_to 11 p"
    using pm unat_take_bit [of 23 p] by (simp add: aligned_to_def flip: unat_eq_0)
  have mgd: "p \<in> managed st" using aligned_to_mono [OF al] pb lt by (simp add: managed_def)
  have blk: "blk 11 p = {x. p \<le> x \<and> x < p + BUDDY_BLOB_SIZE}" by (rule blob_block [OF pm pl])
  have p0: "prv_of st p = 0"
  proof (rule ccontr)
    assume "prv_of st p \<noteq> 0"
    then have "p \<in> free_memory st" using blk_self by (auto simp: free_memory_def free_mem_def)
    then show False using fm by (simp add: region_def)
  qed
  obtain L where L: "pool st L (Suc (n + blobs_left (p + BUDDY_BLOB_SIZE)))" "\<And>j. set (free_list st j) \<subseteq> L"
    using r by (auto simp: ready_def)
  obtain b st1 where b: "AL st = Inr (b, st1)" "b \<noteq> 0" "b \<notin> L"
      "pool st1 (insert b L) (n + blobs_left (p + BUDDY_BLOB_SIZE))" "buddy_same st st1"
    using AL_ok [OF L(1) hok] by blast
  note v1 = buddy_same_views [OF b(5)] and f1 = buddy_same_fields [OF b(5)]
  define t where "t = upd_page (pidx p) (\<lambda>q. q\<lparr>priv := b, order := 11\<rparr>) st1
      \<lparr>blk_start := (blk_start st)(b := p), buddy_free_pages := buddy_free_pages st + 2 ^ 11,
       free_list := (free_list st)(11 := free_list st 11 @ [b])\<rparr>"
  have tv: "ord_of t = (ord_of st)(p := 11)" "prv_of t = (prv_of st)(p := b)"
    using views_upd_page [of st1 p] v1 lay mgd by (simp_all add: t_def)
  have mg: "managed t = managed st" "layout_ok t" using v1 lay by (simp_all add: t_def)
  have bn: "\<And>j. b \<notin> set (free_list st j)" using L(2) b(3) by blast
  have fs: "blk_start t = (blk_start st)(b := p)" "free_list t = (free_list st)(11 := free_list st 11 @ [b])"
    "buddy_free_pages t = buddy_free_pages st + 2 ^ 11" "skernel t = skernel st" "ekernel t = ekernel st"
    "buddy_lock t = buddy_lock st"
    using f1 by (simp_all add: t_def)
  have I': "binv (managed t) (ord_of t) (prv_of t) (blk_start t) (free_list t)"
    unfolding mg tv fs
    by (rule binv_put [where ord = "ord_of st", OF I p0 b(2) bn mgd _ al])
       (use bn binv_distinct [OF I] fm blk in \<open>auto simp: free_memory_def region_def\<close>)
  have cnt: "buddy_free_pages t = of_nat (pages_on (free_list t))"
    using pages_on_upd [of 11 "free_list st" "free_list st 11 @ [b]"] buddy_inv_binv(3) [OF inv]
    by (simp add: fs)
  have inv': "buddy_inv t" using I' mg cnt by (simp add: buddy_inv_def)
  have c1: "hart_ok (cpu st1)" using buddy_same_cpu [OF b(5)] hok by auto
  have pl': "pool t (insert b L) (n + blobs_left (p + BUDDY_BLOB_SIZE))"
    by (rule pool_frame [OF b(4)]) (simp add: pool_same_def t_def)
  have "set (free_list t j) \<subseteq> insert b L" for j using L(2) unfolding fs by auto
  moreover have "hart_ok (cpu t)" using c1 by (simp add: t_def)
  ultimately have rd: "ready pool (n + blobs_left (p + BUDDY_BLOB_SIZE)) t"
    unfolding ready_def using inv' pl' by blast
  have base: "BUDDY_SYSTEM_BASE t = BUDDY_SYSTEM_BASE st"
    by (simp add: BUDDY_SYSTEM_BASE_def EARLY_HEAP_END_def EARLY_HEAP_BASE_def KERNEL_END_def fs)
  have "free_memory t = free_memory st \<union> blk 11 p"
    unfolding free_memory_def tv using free_mem_put [of "prv_of st" p b "ord_of st" 11, OF p0 b(2)] .
  then have fm': "free_memory t = region t (p + BUDDY_BLOB_SIZE)"
    using fm blk pb plt by (auto simp: region_def base)
  have "init_inv n st0 (p + BUDDY_BLOB_SIZE) t"
    using rd fm' base pb plt pe pm nw fs J p unfolding init_inv_def by auto
  moreover have "buddy_init_step AL p st = Inr (0, t)"
    using the_page_managed [OF lay mgd] b(1,2) f1
    by (simp add: buddy_init_step_def the_page_def Let_def push_ok BUDDY_MAX_ORDER_def upd_page_def t_def
        split: option.splits)
  ultimately show ?thesis using plt by blast
qed

text \<open>After \<^verbatim>\<open>buddy_init\<close> the whole region is free, in blocks of the largest order.\<close>

lemma init_ok:
  assumes b: "boot_ready pool (n + 16) st"
  shows "\<exists>t. buddy_init AL st = Inr (0, t) \<and> ready pool n t \<and> buddy_inited t \<and>
    free_memory t = region st BUDDY_SYSTEM_END \<and> buddy_lock t = buddy_lock st"
proof -
  define st0 where "st0 = st\<lparr>free_list := (\<lambda>k. if k \<le> BUDDY_MAX_ORDER then [] else free_list st k)\<rparr>"
  have fl0: "free_list st0 = (\<lambda>k. [])"
    using b by (auto simp: st0_def boot_ready_def BUDDY_MAX_ORDER_def fun_eq_iff not_le)
  have lay: "layout_ok st0" and be: "BUDDY_SYSTEM_BASE st0 \<le> BUDDY_SYSTEM_END" and p0: "\<And>a. prv_of st0 a = 0"
    and hok: "hart_ok (cpu st0)" and bfp: "buddy_free_pages st0 = 0"
    using b by (simp_all add: boot_ready_def st0_def BUDDY_SYSTEM_BASE_def EARLY_HEAP_END_def
        EARLY_HEAP_BASE_def KERNEL_END_def)
  have "binv (managed st0) (ord_of st0) (prv_of st0) (blk_start st0) (free_list st0)"
    by (rule binv_intro) (use p0 fl0 in auto)
  then have inv: "buddy_inv st0" using lay fl0 bfp by (simp add: buddy_inv_def pages_on_def)
  obtain L where L: "pool st L (n + 16)" using b by (auto simp: boot_ready_def)
  then have "pool st0 L (n + 16)" using pool_frame [OF L] by (simp add: pool_same_def st0_def)
  then have r0: "ready pool (n + 16) st0" using inv hok fl0 by (auto simp: ready_def)
  have "256 \<le> unat (BUDDY_SYSTEM_BASE st0) div 2 ^ 23"
    using lay less_eq_div_iff_mult_less_eq [of "2 ^ 23" 256 "unat (BUDDY_SYSTEM_BASE st0)"]
    by (simp add: layout_ok_def word_le_nat_alt config_values)
  then have le: "blobs_left (BUDDY_SYSTEM_BASE st0) \<le> 16" by (simp add: blobs_left_def)
  have "ready pool (n + blobs_left (BUDDY_SYSTEM_BASE st0)) st0"
    using ready_less [of "n + blobs_left (BUDDY_SYSTEM_BASE st0)" "16 - blobs_left (BUDDY_SYSTEM_BASE st0)" st0] r0 le
    by simp
  then have "init_inv n st0 (BUDDY_SYSTEM_BASE st0) st0"
    using be buddy_base_aligned [of st0] p0
    by (auto simp: init_inv_def region_def free_memory_def free_mem_def)
  then obtain t q where t: "for_addr (BUDDY_SYSTEM_BASE st0) BUDDY_SYSTEM_END BUDDY_BLOB_SIZE (buddy_init_step AL) st0 = Inr (0, t)"
      "\<not> q < BUDDY_SYSTEM_END" "init_inv n st0 q t"
    using for_addr_total [where I = "init_inv n st0" and f = "buddy_init_step AL"] init_step_ok by metis
  have q: "q = BUDDY_SYSTEM_END" using t(2,3) by (auto simp: init_inv_def)
  let ?u = "t\<lparr>buddy_inited := True\<rparr>"
  have "ready pool (n + blobs_left q) t" using t(3) by (simp add: init_inv_def)
  then have "ready pool n t" by (rule ready_less)
  then have "ready pool n ?u"
    by (rule ready_frame) (use \<open>ready pool n t\<close> in \<open>auto simp: ready_def pool_same_def buddy_inv_def\<close>)
  moreover have "free_memory ?u = region st BUDDY_SYSTEM_END"
    using t(3) q by (simp add: init_inv_def free_memory_def region_def st0_def BUDDY_SYSTEM_BASE_def
        EARLY_HEAP_END_def EARLY_HEAP_BASE_def KERNEL_END_def)
  moreover have "buddy_init AL st = Inr (0, ?u)"
    using t(1) by (simp add: buddy_init_def st0_def [symmetric] and_then_def)
  ultimately show ?thesis using t(3) by (auto simp: init_inv_def st0_def)
qed

end

section \<open>The early heap is such a pool\<close>

definition early_pool :: "'z buddy_scheme \<Rightarrow> addr set \<Rightarrow> nat \<Rightarrow> bool" where
  "early_pool st L n \<longleftrightarrow> \<not> kalloc_inited st \<and> EARLY_HEAP_BASE st \<noteq> 0 \<and> EARLY_HEAP_BASE st \<le> early_brk st \<and>
     unat (early_brk st) + 24 * n < unat (EARLY_HEAP_END st) \<and>
     (\<forall>b\<in>L. is_early_mem st b)"

lemma early_alloc_block:
  assumes "early_pool st L (Suc n)"
  shows "early_alloc 24 st = Inr (early_brk st, st\<lparr>early_brk := early_brk st + 24\<rparr>)"
    and "unat (early_brk st + 24) = unat (early_brk st) + 24"
proof -
  have lt: "unat (early_brk st) + 24 < unat (EARLY_HEAP_END st)" using assms by (simp add: early_pool_def)
  then have "unat (early_brk st) + 24 < 2 ^ 64" using unat_lt [of "EARLY_HEAP_END st"] by simp
  then show e: "unat (early_brk st + 24) = unat (early_brk st) + 24" by (simp add: unat_word_ariths)
  have "ALIGN_UP 24 8 = 24" by (simp add: ALIGN_UP_def)
  moreover have "\<not> EARLY_HEAP_END st \<le> early_brk st + 24" using lt e by (simp add: word_le_nat_alt)
  ultimately show "early_alloc 24 st = Inr (early_brk st, st\<lparr>early_brk := early_brk st + 24\<rparr>)"
    using assms by (simp add: early_alloc_def early_pool_def Let_def)
qed

lemma early_macros [simp]:
  "EARLY_HEAP_BASE (st\<lparr>early_brk := b\<rparr>) = EARLY_HEAP_BASE st"
  "EARLY_HEAP_END (st\<lparr>early_brk := b\<rparr>) = EARLY_HEAP_END st"
  by (simp_all add: EARLY_HEAP_BASE_def EARLY_HEAP_END_def KERNEL_END_def)

interpretation early: block_pool "alloc_mem_block KM" "free_mem_block KF" early_pool for KM KF
proof
  fix st :: "'a buddy_scheme" and L n
  assume p: "early_pool st L (Suc n)"
  note e = early_alloc_block [OF p]
  let ?t = "st\<lparr>early_brk := early_brk st + 24\<rparr>"
  have lt: "early_brk st < early_brk st + 24" by (simp add: word_less_nat_alt e(2))
  have "early_brk st \<noteq> 0" "early_brk st \<notin> L"
    using p by (auto simp: early_pool_def is_early_mem_def word_le_nat_alt)
  moreover have "early_pool ?t (insert (early_brk st) L) n"
    using p e(2) lt unfolding early_pool_def is_early_mem_def by (auto intro: order.trans less_trans)
  moreover have "buddy_same st ?t" by (simp add: buddy_same_def)
  moreover have "alloc_mem_block KM st = Inr (early_brk st, ?t)"
    using e(1) p by (simp add: alloc_mem_block_def sizeof_mem_block_def early_pool_def)
  ultimately show "\<exists>b t. alloc_mem_block KM st = Inr (b, t) \<and> b \<noteq> NULL \<and> b \<notin> L \<and>
      early_pool t (insert b L) n \<and> buddy_same st t" by blast
next
  fix st :: "'a buddy_scheme" and L n b
  assume "early_pool st L n" and "b \<in> L"
  then show "\<exists>t. free_mem_block KF b st = Inr t \<and> early_pool t (L - {b}) n \<and> buddy_same st t"
    by (auto simp: free_mem_block_def early_pool_def buddy_same_def)
next
  fix st t :: "'a buddy_scheme" and L n
  assume "early_pool st L n" and "pool_same st t"
  then show "early_pool t L n"
    by (simp add: early_pool_def pool_same_def is_early_mem_def EARLY_HEAP_BASE_def EARLY_HEAP_END_def KERNEL_END_def)
next
  fix st :: "'a buddy_scheme" and L n
  assume "early_pool st L (Suc n)"
  then show "early_pool st L n" by (simp add: early_pool_def)
qed

end
