(* ===== verification/Slab_Correct.thy ===== *)
theory Slab_Correct
  imports Slab Buddy_Correct
begin

text \<open>
  Correctness of the slab allocator: the geometry of a slab, the invariant of a cache, and that
  allocation and free add and remove exactly one object of the set of allocated objects; and where
  \<^verbatim>\<open>slab_alloc\<close> places the objects of a new slab until it is full (\<open>slab_fill\<close>).
\<close>

section \<open>Geometry of a slab\<close>

definition geom :: "kmem_cache \<Rightarrow> bool" where
  "geom k \<longleftrightarrow>
     (let n = unat (object_num (alloc_size k)); off = unat (slab_offset (object_num (alloc_size k)) (obj_size k))
      in 0 < n \<and> 0 < off \<and> 0 < unat (alloc_size k) \<and> off + (n - 1) * unat (alloc_size k) < 65536)"

definition obj_addr :: "kmem_cache \<Rightarrow> addr \<Rightarrow> nat \<Rightarrow> addr" where
  "obj_addr k s i = s + of_nat (unat (slab_offset (object_num (alloc_size k)) (obj_size k)) + i * unat (alloc_size k))"

lemma slab_align_of:
  assumes "take_bit 16 s = 0" and "x < 65536"
  shows "SLAB_ALIGN_DOWN (s + of_nat x) = s" and "unat (s + of_nat x - s) = x"
proof -
  have ux: "unat (of_nat x :: u64) = x" using assms(2) by (simp add: unat_of_nat_small)
  show "unat (s + of_nat x - s) = x" using ux by simp
  have "unat s mod 65536 = 0" using assms(1) unat_take_bit [of 16 s] by simp
  then obtain q where q: "unat s = 65536 * q" by (metis dvd_def mod_0_imp_dvd)
  have "65536 * q < 65536 * 281474976710656" using unat_lt [of s] q by simp
  then have "q < 281474976710656" by simp
  then have "unat s + x < 2 ^ 64" using q assms(2) by simp
  then have u: "unat (s + of_nat x) = 65536 * q + x" using ux q by (simp add: unat_word_ariths)
  have "unat (SLAB_ALIGN_DOWN (s + of_nat x)) = unat s"
    using ALIGN_DOWN_unat [of "s + of_nat x" 16] assms(2) by (simp add: config_values u q)
  then show "SLAB_ALIGN_DOWN (s + of_nat x) = s" by (simp add: word_unat_eq_iff)
qed

lemma obj_bound:
  assumes "geom k" and "i < unat (object_num (alloc_size k))"
  shows "unat (slab_offset (object_num (alloc_size k)) (obj_size k)) + i * unat (alloc_size k) < 65536"
proof -
  have "i * unat (alloc_size k) \<le> (unat (object_num (alloc_size k)) - 1) * unat (alloc_size k)"
    using assms(2) by (intro mult_le_mono1) simp
  moreover have "unat (slab_offset (object_num (alloc_size k)) (obj_size k)) +
      (unat (object_num (alloc_size k)) - 1) * unat (alloc_size k) < 65536"
    using assms(1) by (simp add: geom_def Let_def)
  ultimately show ?thesis by linarith
qed

text \<open>The address computed by \<^verbatim>\<open>slab_alloc\<close> in 32-bit arithmetic is the object's address.\<close>

lemma obj_addr_word:
  assumes "geom k" and "i < unat (object_num (alloc_size k))"
  shows "s + ucast (slab_offset (object_num (alloc_size k)) (obj_size k)) + ucast (of_nat i * alloc_size k) =
    obj_addr k s i"
proof -
  let ?off = "slab_offset (object_num (alloc_size k)) (obj_size k)"
  have b: "unat ?off + i * unat (alloc_size k) < 65536" by (rule obj_bound [OF assms])
  have "of_nat i * alloc_size k = (of_nat (i * unat (alloc_size k)) :: u32)" by simp
  moreover have "i * unat (alloc_size k) < 2 ^ LENGTH(32)" using b by simp
  ultimately have "unat (of_nat i * alloc_size k :: u32) = i * unat (alloc_size k)"
    by (simp only: unat_of_nat_small)
  then have "ucast (of_nat i * alloc_size k :: u32) = (of_nat (i * unat (alloc_size k)) :: u64)"
    by (simp only: ucast_of_unat)
  moreover have "ucast ?off = (of_nat (unat ?off) :: u64)" by (simp only: ucast_of_unat)
  ultimately show ?thesis unfolding obj_addr_def by (simp only: of_nat_add add.assoc)
qed

text \<open>An object's address determines its slab and its index, the way \<^verbatim>\<open>slab_free\<close> recovers them.\<close>

lemma obj_addr_inverse:
  assumes "geom k" and "i < unat (object_num (alloc_size k))" and "take_bit 16 s = 0"
  defines "off \<equiv> slab_offset (object_num (alloc_size k)) (obj_size k)"
  shows "SLAB_ALIGN_DOWN (obj_addr k s i) = s"
    and "off \<le> (ucast (obj_addr k s i - s) :: u32)"
    and "unat (((ucast (obj_addr k s i - s) :: u32) - off) div alloc_size k) = i"
proof -
  have b: "unat off + i * unat (alloc_size k) < 65536"
    using obj_bound [OF assms(1,2)] by (simp add: off_def)
  let ?x = "unat off + i * unat (alloc_size k)"
  show "SLAB_ALIGN_DOWN (obj_addr k s i) = s"
    using slab_align_of [OF assms(3) b] by (simp add: obj_addr_def off_def)
  have "obj_addr k s i - s = of_nat ?x" by (simp add: obj_addr_def off_def)
  moreover have "ucast (of_nat ?x :: u64) = (of_nat ?x :: u32)"
    using b by (intro ucast_of_nat_small) simp
  ultimately have o: "(ucast (obj_addr k s i - s) :: u32) = of_nat ?x" by simp
  have uo: "unat (of_nat ?x :: u32) = ?x" using b by (intro unat_of_nat_small) simp
  show le: "off \<le> ucast (obj_addr k s i - s)" unfolding o by (simp only: word_le_nat_alt uo)
  have "unat ((of_nat ?x :: u32) - off) = i * unat (alloc_size k)"
    using le unfolding o by (simp only: unat_sub uo)
  moreover have "0 < unat (alloc_size k)" using assms(1) by (simp add: geom_def Let_def)
  ultimately show "unat (((ucast (obj_addr k s i - s) :: u32) - off) div alloc_size k) = i"
    unfolding o by (simp only: unat_div) simp
qed

section \<open>The invariant of a cache\<close>

definition slab_ok :: "kmem_cache \<Rightarrow> addr \<Rightarrow> addr \<Rightarrow> slab \<Rightarrow> bool" where
  "slab_ok k c s x \<longleftrightarrow> take_bit 16 s = 0 \<and> s_kmem x = c \<and> s_magic x = SLAB_MAGIC \<and>
     s_total x = object_num (alloc_size k) \<and> len (s_bm x) = unat (s_total x) \<and> tail_clear (s_bm x) \<and>
     s_offset x = slab_offset (object_num (alloc_size k)) (obj_size k) \<and>
     unat (s_free x) + card (bmap.used (s_bm x)) = unat (s_total x)"

definition slabs_of :: "kmem_cache \<Rightarrow> addr set" where
  "slabs_of k = set (slabs_full k) \<union> set (slabs_partial k)"

definition cache_wf :: "kmem_cache \<Rightarrow> (addr \<Rightarrow> slab) \<Rightarrow> addr \<Rightarrow> bool" where
  "cache_wf k sl c \<longleftrightarrow> c \<noteq> 0 \<and> geom k \<and> low k = object_num (alloc_size k) \<and> slabs_free k = [] \<and>
     distinct (slabs_full k) \<and> distinct (slabs_partial k) \<and>
     (\<forall>s\<in>slabs_of k. slab_ok k c s (sl s)) \<and>
     (\<forall>s\<in>set (slabs_full k). s_free (sl s) = 0) \<and> (\<forall>s\<in>set (slabs_partial k). s_free (sl s) \<noteq> 0) \<and>
     unat (c_free k) = (\<Sum>s\<in>slabs_of k. unat (s_free (sl s))) \<and>
     unat (c_total k) = (\<Sum>s\<in>slabs_of k. unat (s_total (sl s)))"

definition cache_inv :: "addr \<Rightarrow> mm \<Rightarrow> bool" where
  "cache_inv c st \<longleftrightarrow> cache_wf (kmem st c) (slab_at st) c"

definition objects :: "kmem_cache \<Rightarrow> (addr \<Rightarrow> slab) \<Rightarrow> addr set" where
  "objects k sl = {obj_addr k s i | s i. s \<in> slabs_of k \<and> i \<in> bmap.used (s_bm (sl s))}"

definition allocated :: "addr \<Rightarrow> mm \<Rightarrow> addr set" where
  "allocated c st = objects (kmem st c) (slab_at st)"

lemma finite_slabs_of [simp]: "finite (slabs_of k)"
  by (simp add: slabs_of_def)

text \<open>
  One slab of the cache changes, and the lists are rearranged so that the full ones are exactly
  those without a free object: the invariant is kept and only this slab's objects change.
\<close>

lemma cache_wf_update:
  assumes wf: "cache_wf k sl c" and s: "s \<in> slabs_of k" and ok: "slab_ok k c s x"
    and k': "alloc_size k' = alloc_size k" "obj_size k' = obj_size k" "low k' = low k" "slabs_free k' = []"
      "distinct (slabs_full k')" "distinct (slabs_partial k')" "slabs_of k' = slabs_of k"
      "set (slabs_full k') - {s} = set (slabs_full k) - {s}"
      "set (slabs_partial k') - {s} = set (slabs_partial k) - {s}"
      "s \<in> set (slabs_full k') \<longrightarrow> s_free x = 0" "s \<in> set (slabs_partial k') \<longrightarrow> s_free x \<noteq> 0"
      "c_total k' = c_total k"
    and cnt: "unat (c_free k') + unat (s_free (sl s)) = unat (c_free k) + unat (s_free x)"
  shows "cache_wf k' (sl(s := x)) c"
proof -
  have g: "geom k' = geom k" and so: "\<And>s x. slab_ok k' c s x = slab_ok k c s x"
    using k' by (simp_all add: geom_def slab_ok_def)
  have full: "s_free ((sl(s := x)) y) = 0" if "y \<in> set (slabs_full k')" for y
  proof (cases "y = s")
    case False
    then have "y \<in> set (slabs_full k)" using that k'(8) by blast
    then show ?thesis using wf False by (simp add: cache_wf_def)
  qed (use that k' in simp)
  have part: "s_free ((sl(s := x)) y) \<noteq> 0" if "y \<in> set (slabs_partial k')" for y
  proof (cases "y = s")
    case False
    then have "y \<in> set (slabs_partial k)" using that k'(9) by blast
    then show ?thesis using wf False by (simp add: cache_wf_def)
  qed (use that k' in simp)
  have rest: "(\<Sum>y\<in>slabs_of k - {s}. unat (s_free ((sl(s := x)) y))) = (\<Sum>y\<in>slabs_of k - {s}. unat (s_free (sl y)))"
    by (rule sum.cong) auto
  have "(\<Sum>y\<in>slabs_of k. unat (s_free ((sl(s := x)) y))) + unat (s_free (sl s)) =
      (\<Sum>y\<in>slabs_of k. unat (s_free (sl y))) + unat (s_free x)"
    using sum.remove [OF finite_slabs_of s, of "\<lambda>y. unat (s_free ((sl(s := x)) y))"]
      sum.remove [OF finite_slabs_of s, of "\<lambda>y. unat (s_free (sl y))"] rest by simp
  then have "unat (c_free k') = (\<Sum>y\<in>slabs_of k'. unat (s_free ((sl(s := x)) y)))"
    using cnt wf k'(7) by (simp add: cache_wf_def)
  moreover have "(\<Sum>y\<in>slabs_of k'. unat (s_total ((sl(s := x)) y))) = (\<Sum>y\<in>slabs_of k. unat (s_total (sl y)))"
    unfolding k'(7) by (rule sum.cong) (use wf ok s in \<open>auto simp: cache_wf_def slab_ok_def\<close>)
  ultimately show ?thesis
    using wf ok k' full part unfolding cache_wf_def by (auto simp: so g)
qed

lemma objects_update:
  assumes wf: "cache_wf k sl c" and s: "s \<in> slabs_of k"
    and k': "alloc_size k' = alloc_size k" "obj_size k' = obj_size k" "slabs_of k' = slabs_of k"
  shows "objects k' (sl(s := x)) = (objects k sl - obj_addr k s ` bmap.used (s_bm (sl s))) \<union> obj_addr k s ` bmap.used (s_bm x)"
proof -
  have oa: "obj_addr k' = obj_addr k" using k' by (simp add: obj_addr_def fun_eq_iff)
  have al: "SLAB_ALIGN_DOWN (obj_addr k y i) = y" if "y \<in> slabs_of k" "i \<in> bmap.used (s_bm (sl y))" for y i
    using that wf by (intro obj_addr_inverse) (auto simp: cache_wf_def slab_ok_def bmap.used_def)
  have "objects k sl - obj_addr k s ` bmap.used (s_bm (sl s)) =
      {obj_addr k y i | y i. y \<in> slabs_of k \<and> y \<noteq> s \<and> i \<in> bmap.used (s_bm (sl y))}"
  proof (intro subset_antisym subsetI)
    fix a assume "a \<in> {obj_addr k y i | y i. y \<in> slabs_of k \<and> y \<noteq> s \<and> i \<in> bmap.used (s_bm (sl y))}"
    then obtain y i where a: "a = obj_addr k y i" "y \<in> slabs_of k" "y \<noteq> s" "i \<in> bmap.used (s_bm (sl y))" by blast
    then have "a \<notin> obj_addr k s ` bmap.used (s_bm (sl s))" using al s by (metis imageE)
    then show "a \<in> objects k sl - obj_addr k s ` bmap.used (s_bm (sl s))" using a by (auto simp: objects_def)
  qed (auto simp: objects_def)
  moreover have "objects k' (sl(s := x)) =
      {obj_addr k y i | y i. y \<in> slabs_of k \<and> y \<noteq> s \<and> i \<in> bmap.used (s_bm (sl y))} \<union> obj_addr k s ` bmap.used (s_bm x)"
    unfolding objects_def k' oa using s by (auto split: if_splits)
  ultimately show ?thesis by simp
qed

lemma wf_slab: "cache_wf k sl c \<Longrightarrow> s \<in> slabs_of k \<Longrightarrow> slab_ok k c s (sl s)"
  by (simp add: cache_wf_def)

section \<open>Allocating and freeing one object\<close>

lemma slab_alloc_eval:
  assumes wf: "cache_wf (kmem st c) (slab_at st) c" and s: "s \<in> set (slabs_partial (kmem st c))"
  defines "k \<equiv> kmem st c" and "x \<equiv> slab_at st s"
  defines "i \<equiv> bitmap_find_next_clear (s_bm x) 0"
  defines "x' \<equiv> x\<lparr>s_free := s_free x - 1, s_bm := bitmap_set (s_bm x) i\<rparr>"
    and "k' \<equiv> (if s_free x = 1 then k\<lparr>slabs_partial := remove1 s (slabs_partial k), slabs_free := [], slabs_full := s # remove1 s (slabs_full k)\<rparr> else k)"
  shows "slab_alloc s st = Inr (obj_addr k s i, st\<lparr>kmem := (kmem st)(c := k'), slab_at := (slab_at st)(s := x')\<rparr>)"
    and "i < len (s_bm x)" and "i \<notin> bmap.used (s_bm x)"
proof -
  have sk: "s \<in> slabs_of k" using s by (simp add: slabs_of_def k_def)
  have ok: "slab_ok k c s x" using wf_slab [OF wf] sk by (simp add: k_def x_def)
  have nz: "s_free x \<noteq> 0" using wf s by (simp add: cache_wf_def x_def k_def)
  then have "0 < unat (s_free x)" by (simp add: unat_gt_0)
  moreover have "unat (s_free x) + card (bmap.used (s_bm x)) = len (s_bm x)" using ok by (simp add: slab_ok_def)
  ultimately have "card (bmap.used (s_bm x)) < len (s_bm x)" by linarith
  then show i: "i < len (s_bm x)" and "i \<notin> bmap.used (s_bm x)"
    using bmap.search_succeeds [of "s_bm x"] ok by (simp_all add: slab_ok_def i_def)
  have g: "geom k" using wf by (simp add: cache_wf_def k_def)
  have addr: "s + ucast (s_offset x) + ucast (of_nat i * alloc_size k) = obj_addr k s i"
    using obj_addr_word [OF g, of i s] i ok by (simp add: slab_ok_def)
  define st1 where "st1 = upd_slab s (\<lambda>x. x\<lparr>s_free := s_free x - 1\<rparr>) st"
  have x1: "slab_at st1 s = x\<lparr>s_free := s_free x - 1\<rparr>" and k1: "kmem st1 = kmem st"
    by (simp_all add: st1_def upd_slab_def x_def)
  have one: "s_free x - 1 = 0 \<longleftrightarrow> s_free x = 1" by auto
  have c: "s_kmem x = c" using ok by (simp add: slab_ok_def)
  have part: "rbind (slab_unlink c s st1) (\<lambda>st. Inr (upd_cache c (\<lambda>k. k\<lparr>slabs_full := s # slabs_full k\<rparr>) st)) =
      Inr (st1\<lparr>kmem := (kmem st)(c := k\<lparr>slabs_partial := remove1 s (slabs_partial k), slabs_free := [], slabs_full := s # remove1 s (slabs_full k)\<rparr>)\<rparr>)"
    using s wf k1 by (simp add: slab_unlink_def upd_cache_def k_def cache_wf_def Let_def)
  show "slab_alloc s st = Inr (obj_addr k s i, st\<lparr>kmem := (kmem st)(c := k'), slab_at := (slab_at st)(s := x')\<rparr>)"
  proof (cases "s_free x = 1")
    case True
    then show ?thesis
      using i addr unfolding slab_alloc_def Let_def st1_def [symmetric] x1
      by (simp add: c part i_def [symmetric] x1 upd_slab_def k'_def x'_def) (simp add: st1_def upd_slab_def k_def)
  next
    case False
    then show ?thesis
      using i addr one unfolding slab_alloc_def Let_def st1_def [symmetric] x1
      by (simp add: c i_def [symmetric] x1 upd_slab_def k'_def x'_def k1 fun_upd_idem k_def)
         (simp add: st1_def upd_slab_def k_def)
  qed
qed

text \<open>What an operation on cache \<open>c\<close> leaves alone: everything but \<open>c\<close> and its own slabs.\<close>

definition buddy_part :: "'z buddy_scheme \<Rightarrow> _" where
  "buddy_part st = (skernel st, ekernel st, pages_base st, pages st, early_brk st, kalloc_inited st,
     buddy_inited st, buddy_free_pages st, blk_start st, free_list st, buddy_lock st)"

lemma buddy_part_simps [simp]:
  "buddy_part (st\<lparr>kmem := x\<rparr>) = buddy_part st" "buddy_part (st\<lparr>slab_at := y\<rparr>) = buddy_part st"
  "buddy_part (st\<lparr>cpu := z\<rparr>) = buddy_part st"
  by (simp_all add: buddy_part_def)

definition only_cache :: "addr \<Rightarrow> mm \<Rightarrow> mm \<Rightarrow> bool" where
  "only_cache c st t \<longleftrightarrow>
     buddy_part t = buddy_part st \<and> pool_base t = pool_base st \<and>
     (\<forall>d. d \<noteq> c \<longrightarrow> kmem t d = kmem st d) \<and>
     (\<forall>s. s \<notin> slabs_of (kmem st c) \<longrightarrow> slab_at t s = slab_at st s) \<and>
     slabs_of (kmem t c) = slabs_of (kmem st c) \<and> alloc_size (kmem t c) = alloc_size (kmem st c) \<and>
     obj_size (kmem t c) = obj_size (kmem st c) \<and> expanding (kmem t c) = expanding (kmem st c)"

lemma partial_nonempty:
  assumes "cache_wf k sl c" and "c_free k \<noteq> 0"
  shows "slabs_partial k \<noteq> []"
proof
  assume "slabs_partial k = []"
  then have "unat (c_free k) = 0" using assms(1) by (simp add: cache_wf_def slabs_of_def)
  then show False using assms(2) by simp
qed

lemma unat_Suc_pred: "(x :: 'a::len word) \<noteq> 0 \<Longrightarrow> unat x = Suc (unat (x - 1))"
  using unat_minus_one [of x] unat_gt_0 [of x] by linarith

text \<open>
  With objects in reserve the allocator hands out an object that was not allocated and adds
  exactly this one to the set of allocated objects.
\<close>

lemma cache_alloc_nolock_ok:
  assumes inv: "cache_inv c st" and nz: "c_free (kmem st c) \<noteq> 0"
    and no: "expanding (kmem st c) \<or> \<not> c_free (kmem st c) < ucast (low (kmem st c))"
  shows "\<exists>a t. kmem_cache_alloc_nolock BA c st = Inr (a, t) \<and> cache_inv c t \<and> a \<noteq> 0 \<and>
    a \<notin> allocated c st \<and> allocated c t = insert a (allocated c st) \<and> only_cache c st t \<and> cpu t = cpu st \<and>
    c_free (kmem t c) = c_free (kmem st c) - 1 \<and> c_lock (kmem t c) = c_lock (kmem st c)"
proof -
  define k where "k = kmem st c"
  have wf: "cache_wf k (slab_at st) c" using inv by (simp add: cache_inv_def k_def)
  have "slabs_partial k \<noteq> []" using partial_nonempty [OF wf] nz by (simp add: k_def)
  then obtain s ss where ss: "slabs_partial k = s # ss" by (cases "slabs_partial k") auto
  have sp: "s \<in> set (slabs_partial k)" and sk: "s \<in> slabs_of k" using ss by (simp_all add: slabs_of_def)
  have ns: "s \<notin> set (slabs_full k)" using wf sp by (auto simp: cache_wf_def)
  define x where "x = slab_at st s"
  define i where "i = bitmap_find_next_clear (s_bm x) 0"
  define x' where "x' = x\<lparr>s_free := s_free x - 1, s_bm := bitmap_set (s_bm x) i\<rparr>"
  define k' where "k' = (if s_free x = 1 then k\<lparr>slabs_partial := remove1 s (slabs_partial k), slabs_free := [],
      slabs_full := s # remove1 s (slabs_full k)\<rparr> else k)"
  define k2 where "k2 = k'\<lparr>c_free := c_free k' - 1\<rparr>"
  define t where "t = st\<lparr>kmem := (kmem st)(c := k2), slab_at := (slab_at st)(s := x')\<rparr>"
  have ok: "slab_ok k c s x" using wf_slab [OF wf sk] by (simp add: x_def)
  have fx: "s_free x \<noteq> 0" using wf sp by (simp add: cache_wf_def x_def)
  note ev = slab_alloc_eval [of st c s, folded k_def, OF wf sp, folded x_def, folded i_def, folded x'_def k'_def]
  have il: "i < unat (object_num (alloc_size k))" using ev(2) ok by (simp add: slab_ok_def)
  have nu: "\<not> bm_bit (s_bm x) i" using ev(2,3) by (simp add: bmap.used_def)
  have used: "bmap.used (s_bm x') = insert i (bmap.used (s_bm x))"
    using ev(2) by (simp add: x'_def bmap.used_take)
  have ok': "slab_ok k c s x'"
    using ok fx bmap.card_used_take [OF ev(2) nu] bmap.ok_take [OF _ ev(2)] bmap.size_take [of "s_bm x" i]
      unat_Suc_pred [OF fx] by (auto simp: slab_ok_def x'_def)
  have of: "slabs_of k2 = slabs_of k"
    using ss sp ns by (auto simp: k2_def k'_def slabs_of_def)
  have fr: "c_free k2 = c_free k - 1" by (simp add: k2_def k'_def)
  have wf': "cache_wf k2 ((slab_at st)(s := x')) c"
  proof (rule cache_wf_update [OF wf sk ok'])
    show "unat (c_free k2) + unat (s_free (slab_at st s)) = unat (c_free k) + unat (s_free x')"
      using unat_Suc_pred [OF fx] unat_Suc_pred [OF nz] fr by (simp add: x'_def x_def [symmetric] k_def)
  qed (use ss ns wf of fx in \<open>auto simp: k2_def k'_def cache_wf_def x'_def\<close>)
  have obj: "objects k2 ((slab_at st)(s := x')) = insert (obj_addr k s i) (objects k (slab_at st))"
  proof -
    have "obj_addr k s ` bmap.used (s_bm (slab_at st s)) \<subseteq> objects k (slab_at st)"
      using sk by (auto simp: objects_def)
    moreover have "objects k2 ((slab_at st)(s := x')) = (objects k (slab_at st) - obj_addr k s ` bmap.used (s_bm (slab_at st s))) \<union> obj_addr k s ` bmap.used (s_bm x')"
      by (rule objects_update [OF wf sk _ _ of]) (simp_all add: k2_def k'_def)
    ultimately show ?thesis by (auto simp: used x_def)
  qed
  have g: "geom k" using wf by (simp add: cache_wf_def)
  have al: "take_bit 16 s = 0" using ok by (simp add: slab_ok_def)
  have fresh: "obj_addr k s i \<notin> objects k (slab_at st)"
  proof
    assume "obj_addr k s i \<in> objects k (slab_at st)"
    then obtain y j where y: "obj_addr k s i = obj_addr k y j" "y \<in> slabs_of k" "j \<in> bmap.used (s_bm (slab_at st y))"
      by (auto simp: objects_def)
    have yk: "take_bit 16 y = 0" "j < unat (object_num (alloc_size k))"
      using wf_slab [OF wf y(2)] y(3) by (auto simp: slab_ok_def bmap.used_def)
    have "y = s" using obj_addr_inverse(1) [OF g il al] obj_addr_inverse(1) [OF g yk(2,1)] y(1) by simp
    moreover have "j = i"
      using obj_addr_inverse(3) [OF g il al] obj_addr_inverse(3) [OF g yk(2,1)] y(1) \<open>y = s\<close> by simp
    ultimately show False using y(3) ev(3) by (simp add: x_def)
  qed
  have nz0: "obj_addr k s i \<noteq> 0"
  proof
    assume z: "obj_addr k s i = 0"
    have "s = 0" using obj_addr_inverse(1) [OF g il al] z by (simp add: ALIGN_DOWN_def)
    then have "unat (obj_addr k s i) = unat (slab_offset (object_num (alloc_size k)) (obj_size k)) + i * unat (alloc_size k)"
      using slab_align_of(2) [OF al obj_bound [OF g il]] by (simp add: obj_addr_def)
    then show False using z g by (simp add: geom_def Let_def)
  qed
  have "replenish BA c st = Inr (True, st)" using no by (auto simp: replenish_def)
  then have "kmem_cache_alloc_nolock BA c st = Inr (obj_addr k s i, t)"
    using nz ss ev(1) by (simp add: kmem_cache_alloc_nolock_def k_def [symmetric])
      (simp add: upd_cache_def t_def k2_def)
  moreover have kf: "alloc_size k2 = alloc_size k" "obj_size k2 = obj_size k" "expanding k2 = expanding k"
    "c_lock k2 = c_lock k" by (simp_all add: k2_def k'_def)
  moreover have "only_cache c st t"
    using sk of kf by (auto simp: only_cache_def t_def k_def [symmetric])
  ultimately show ?thesis
    using wf' obj fresh nz0 fr
    by (simp add: t_def cache_inv_def allocated_def k_def [symmetric])
qed

lemma bitmap_get_used:
  "i < len b \<Longrightarrow> bitmap_get b i = 0 \<longleftrightarrow> i \<notin> bmap.used b"
  by (simp add: bitmap_get_bit bmap.used_def)

text \<open>Freeing an allocated object removes exactly this one from the set.\<close>

lemma slab_free_ok:
  assumes inv: "cache_inv c st" and a: "a \<in> allocated c st"
  shows "\<exists>t. slab_free a st = Inr t \<and> cache_inv c (upd_cache c (\<lambda>k. k\<lparr>c_free := c_free k + 1\<rparr>) t) \<and>
    allocated c t = allocated c st - {a} \<and> only_cache c st t \<and> cpu t = cpu st \<and>
    c_free (kmem t c) = c_free (kmem st c) \<and> c_lock (kmem t c) = c_lock (kmem st c) \<and>
    unat (c_free (kmem st c) + 1) = Suc (unat (c_free (kmem st c)))"
proof -
  define k where "k = kmem st c"
  have wf: "cache_wf k (slab_at st) c" using inv by (simp add: cache_inv_def k_def)
  obtain s i where si: "a = obj_addr k s i" "s \<in> slabs_of k" "i \<in> bmap.used (s_bm (slab_at st s))"
    using a by (auto simp: allocated_def objects_def k_def)
  define x where "x = slab_at st s"
  have ok: "slab_ok k c s x" using wf_slab [OF wf si(2)] by (simp add: x_def)
  have g: "geom k" using wf by (simp add: cache_wf_def)
  have al: "take_bit 16 s = 0" and il: "i < unat (object_num (alloc_size k))" and ib: "i < len (s_bm x)"
    and bi: "bm_bit (s_bm x) i"
    using ok si(3) by (auto simp: slab_ok_def bmap.used_def x_def)
  note inv3 = obj_addr_inverse [OF g il al]
  have cu: "card (bmap.used (s_bm x)) = Suc (card (bmap.used (bitmap_clear (s_bm x) i)))"
    using bmap.card_used_free [OF ib bi] .
  have sum: "unat (s_free x) + card (bmap.used (s_bm x)) = unat (s_total x)" using ok by (simp add: slab_ok_def)
  then have lt: "unat (s_free x) < unat (s_total x)" using cu by linarith
  have ne: "s_free x \<noteq> s_total x" using lt by auto
  have s1: "unat (s_free x + 1) = Suc (unat (s_free x))"
    using lt unat_plus_1 [of "s_free x" "s_total x"] by (simp add: word_less_nat_alt)
  define x' where "x' = x\<lparr>s_bm := bitmap_clear (s_bm x) i, s_free := s_free x + 1\<rparr>"
  define k' where "k' = (if s_free x = 0 then k\<lparr>slabs_full := remove1 s (slabs_full k),
      slabs_free := [], slabs_partial := s # remove1 s (slabs_partial k)\<rparr> else k)"
  define t where "t = st\<lparr>kmem := (kmem st)(c := k'), slab_at := (slab_at st)(s := x')\<rparr>"
  define k2 where "k2 = k'\<lparr>c_free := c_free k' + 1\<rparr>"
  have kf: "alloc_size k2 = alloc_size k" "obj_size k2 = obj_size k" "expanding k2 = expanding k"
    "c_lock k2 = c_lock k" "low k2 = low k" "c_free k2 = c_free k + 1" "slabs_of k2 = slabs_of k'"
    "alloc_size k' = alloc_size k" "obj_size k' = obj_size k" "expanding k' = expanding k"
    "c_lock k' = c_lock k" "c_free k' = c_free k" "obj_addr k' = obj_addr k" "obj_addr k2 = obj_addr k"
    by (simp_all add: k2_def k'_def slabs_of_def obj_addr_def fun_eq_iff)
  have dis: "distinct (slabs_full k)" "distinct (slabs_partial k)" using wf by (simp_all add: cache_wf_def)
  have of: "slabs_of k' = slabs_of k" using si(2) dis by (auto simp: k'_def slabs_of_def)
  have disj: "s \<in> set (slabs_full k) \<longleftrightarrow> s_free x = 0" "s \<in> set (slabs_partial k) \<longleftrightarrow> s_free x \<noteq> 0"
    using wf si(2) by (auto simp: cache_wf_def slabs_of_def x_def)
  have ok': "slab_ok k c s x'"
    using ok cu s1 sum bmap.ok_free [OF _ ib] bmap.size_free [of "s_bm x" i]
    by (auto simp: slab_ok_def x'_def)
  have no: "unat (c_free k + 1) = Suc (unat (c_free k))"
  proof -
    have "(\<Sum>y\<in>slabs_of k. unat (s_free (slab_at st y))) < (\<Sum>y\<in>slabs_of k. unat (s_total (slab_at st y)))"
    proof (rule sum_strict_mono_ex1)
      show "\<forall>y\<in>slabs_of k. unat (s_free (slab_at st y)) \<le> unat (s_total (slab_at st y))"
        using wf by (auto simp: cache_wf_def slab_ok_def)
      show "\<exists>y\<in>slabs_of k. unat (s_free (slab_at st y)) < unat (s_total (slab_at st y))"
        using lt si(2) by (auto simp: x_def)
    qed simp
    then have "unat (c_free k) < unat (c_total k)" using wf by (simp add: cache_wf_def)
    then show ?thesis
      using unat_plus_1 [of "c_free k" "c_total k"] by (simp add: word_less_nat_alt)
  qed
  have wf': "cache_wf k2 ((slab_at st)(s := x')) c"
  proof (rule cache_wf_update [OF wf si(2) ok'])
    show "unat (c_free k2) + unat (s_free (slab_at st s)) = unat (c_free k) + unat (s_free x')"
      using s1 no by (simp add: kf x'_def x_def)
    have "s_free x + 1 \<noteq> 0" using s1 by auto
    then show "s \<in> set (slabs_full k2) \<longrightarrow> s_free x' = 0" "s \<in> set (slabs_partial k2) \<longrightarrow> s_free x' \<noteq> 0"
      using disj wf by (auto simp: k2_def k'_def x'_def cache_wf_def)
  qed (use disj wf of kf in \<open>auto simp: k2_def k'_def cache_wf_def\<close>)
  have obj: "objects k2 ((slab_at st)(s := x')) = objects k (slab_at st) - {a}"
  proof -
    have sub: "obj_addr k s ` bmap.used (s_bm x) \<subseteq> objects k (slab_at st)"
      using si(2) by (auto simp: objects_def x_def)
    have "objects k2 ((slab_at st)(s := x')) = (objects k (slab_at st) - obj_addr k s ` bmap.used (s_bm x)) \<union> obj_addr k s ` bmap.used (s_bm x')"
      using objects_update [OF wf si(2), of k2 x'] kf of by (simp add: x_def)
    moreover have "bmap.used (s_bm x') = bmap.used (s_bm x) - {i}" by (simp add: x'_def bmap.used_free [OF ib])
    moreover have "obj_addr k s j \<noteq> a" if "j \<in> bmap.used (s_bm x) - {i}" for j
    proof -
      have "j < unat (object_num (alloc_size k))" using that ok by (auto simp: bmap.used_def slab_ok_def)
      then show ?thesis using obj_addr_inverse(3) [OF g _ al] inv3(3) that si(1) by (metis DiffD2 singletonI)
    qed
    ultimately show ?thesis using sub si(1,3) by (auto simp: x_def)
  qed
  have idx: "unat (((ucast (a - s) :: u32) - s_offset x) div alloc_size k) = i"
    and off: "\<not> (ucast (a - s) :: u32) < s_offset x"
    using inv3 ok si(1) by (simp_all add: slab_ok_def)
  have c: "s_kmem x = c" "s_magic x = SLAB_MAGIC" using ok by (simp_all add: slab_ok_def)
  have "\<not> s_total x \<le> ((ucast (a - s) :: u32) - s_offset x) div alloc_size k"
    using idx ok ib by (simp add: word_le_nat_alt slab_ok_def)
  moreover have "bitmap_get (s_bm x) i \<noteq> 0" using bitmap_get_used [OF ib] si(3) by (simp add: x_def)
  moreover have "rbind (slab_unlink c s st) (\<lambda>st. Inr (upd_cache c (\<lambda>k. k\<lparr>slabs_partial := s # slabs_partial k\<rparr>) st)) =
      Inr (st\<lparr>kmem := (kmem st)(c := k\<lparr>slabs_full := remove1 s (slabs_full k), slabs_free := [], slabs_partial := s # remove1 s (slabs_partial k)\<rparr>)\<rparr>)"
    using si(2) wf by (auto simp: slab_unlink_def upd_cache_def k_def [symmetric] cache_wf_def Let_def slabs_of_def)
  ultimately have "slab_free a st = Inr t"
    using inv3(1) si(1) c off ne idx unfolding slab_free_def Let_def
    by (simp add: x_def [symmetric] k_def [symmetric])
       (simp add: upd_slab_def t_def k'_def x'_def x_def [symmetric] k_def fun_upd_idem)
  moreover have "allocated c t = allocated c st - {a}"
  proof -
    have "objects k' ((slab_at st)(s := x')) = objects k2 ((slab_at st)(s := x'))"
      by (simp add: objects_def kf)
    then show ?thesis using obj by (simp add: allocated_def t_def k_def)
  qed
  moreover have "cache_inv c (upd_cache c (\<lambda>k. k\<lparr>c_free := c_free k + 1\<rparr>) t)"
    using wf' by (simp add: cache_inv_def t_def upd_cache_def k2_def)
  moreover have "only_cache c st t"
    using si(2) of kf by (auto simp: only_cache_def t_def k_def [symmetric])
  ultimately show ?thesis using kf no by (simp add: t_def k_def [symmetric])
qed

section \<open>The public operations\<close>

definition with_lock :: "addr \<Rightarrow> hart \<Rightarrow> spinlock \<Rightarrow> mm \<Rightarrow> mm" where
  "with_lock c h l st = upd_cache c (\<lambda>k. k\<lparr>c_lock := l\<rparr>) (st\<lparr>cpu := h\<rparr>)"

lemma wf_lock [simp]: "cache_wf (k\<lparr>c_lock := l\<rparr>) sl c = cache_wf k sl c"
  by (simp add: cache_wf_def geom_def slabs_of_def slab_ok_def)

lemma objects_lock [simp]: "objects (k\<lparr>c_lock := l\<rparr>) sl = objects k sl"
  by (simp add: objects_def slabs_of_def obj_addr_def)

lemma with_lock_simps [simp]:
  "cache_inv c (with_lock c h l st) = cache_inv c st" "allocated c (with_lock c h l st) = allocated c st"
  "cpu (with_lock c h l st) = h" "c_lock (kmem (with_lock c h l st) c) = l"
  "c_free (kmem (with_lock c h l st) c) = c_free (kmem st c)"
  "expanding (kmem (with_lock c h l st) c) = expanding (kmem st c)"
  "low (kmem (with_lock c h l st) c) = low (kmem st c)"
  "slab_at (with_lock c h l st) = slab_at st"
  by (simp_all add: with_lock_def upd_cache_def cache_inv_def allocated_def)

lemma only_cache_with_lock:
  "only_cache c (with_lock c h l st) t \<Longrightarrow> only_cache c st (with_lock c h' l' t)"
  unfolding only_cache_def by (auto simp: with_lock_def upd_cache_def slabs_of_def)

lemma cache_acquire_alt:
  "cache_acquire c st = rbind (spinlock_acquire (cpu st, c_lock (kmem st c))) (\<lambda>(h, l). Inr (with_lock c h l st))"
  "cache_release c st = rbind (spinlock_release (cpu st, c_lock (kmem st c))) (\<lambda>(h, l). Inr (with_lock c h l st))"
  by (simp_all add: cache_acquire_def cache_release_def with_lock_def)

definition reserve :: "addr \<Rightarrow> mm \<Rightarrow> bool" where
  "reserve c st \<longleftrightarrow> c_free (kmem st c) \<noteq> 0 \<and>
     (expanding (kmem st c) \<or> \<not> c_free (kmem st c) < ucast (low (kmem st c)))"

lemma cache_alloc_ok:
  assumes inv: "cache_inv c st" and fr: "lock_free (c_lock (kmem st c))" and hok: "hart_ok (cpu st)"
    and res: "reserve c st"
  shows "\<exists>a t. kmem_cache_alloc BA c st = Inr (a, t) \<and> cache_inv c t \<and> a \<noteq> 0 \<and>
    a \<notin> allocated c st \<and> allocated c t = insert a (allocated c st) \<and> only_cache c st t \<and>
    cpu t = leave (cpu st) \<and> c_free (kmem t c) = c_free (kmem st c) - 1 \<and> lock_free (c_lock (kmem t c))"
proof -
  let ?l = "c_lock (kmem st c)"
  define st1 where "st1 = with_lock c (intr_off (cpu st)) (hold (cpu st) ?l) st"
  have r1: "c_free (kmem st1 c) \<noteq> 0" "expanding (kmem st1 c) \<or> \<not> c_free (kmem st1 c) < ucast (low (kmem st1 c))"
    "cache_inv c st1" using res inv by (auto simp: st1_def reserve_def)
  obtain a u where u: "kmem_cache_alloc_nolock BA c st1 = Inr (a, u)" "cache_inv c u" "a \<noteq> 0"
      "a \<notin> allocated c st1" "allocated c u = insert a (allocated c st1)" "only_cache c st1 u" "cpu u = cpu st1"
      "c_free (kmem u c) = c_free (kmem st1 c) - 1" "c_lock (kmem u c) = c_lock (kmem st1 c)"
    using cache_alloc_nolock_ok [OF r1(3,1,2), of BA] by blast
  define t where "t = with_lock c (leave (cpu st)) (unhold ?l) u"
  have acq: "cache_acquire c st = Inr st1"
    using acquire_free [OF fr, of "cpu st"] by (simp add: cache_acquire_alt st1_def)
  have rel: "cache_release c u = Inr t"
    using release_held [OF hok, of ?l] u(7,9) by (simp add: cache_acquire_alt st1_def t_def)
  have "c \<noteq> 0" using inv by (simp add: cache_inv_def cache_wf_def)
  then have "kmem_cache_alloc BA c st = Inr (a, t)"
    using acq rel u(1) fr by (simp add: kmem_cache_alloc_def)
  moreover have "only_cache c st t" using only_cache_with_lock [OF u(6) [unfolded st1_def]] by (simp add: t_def)
  ultimately show ?thesis using u by (auto simp: t_def st1_def)
qed

lemma cache_free_ok:
  assumes inv: "cache_inv c st" and fr: "lock_free (c_lock (kmem st c))" and hok: "hart_ok (cpu st)"
    and a: "a \<in> allocated c st"
  shows "\<exists>t. kmem_cache_free a st = Inr t \<and> cache_inv c t \<and> allocated c t = allocated c st - {a} \<and>
    only_cache c st t \<and> cpu t = leave (cpu st) \<and> c_free (kmem t c) = c_free (kmem st c) + 1 \<and>
    lock_free (c_lock (kmem t c)) \<and> unat (c_free (kmem st c) + 1) = Suc (unat (c_free (kmem st c)))"
proof -
  let ?l = "c_lock (kmem st c)"
  define st1 where "st1 = with_lock c (intr_off (cpu st)) (hold (cpu st) ?l) st"
  have pre: "cache_inv c st1" "a \<in> allocated c st1" using inv a by (simp_all add: st1_def)
  have own: "s_kmem (slab_at st (SLAB_ALIGN_DOWN a)) = c"
  proof -
    have wf: "cache_wf (kmem st c) (slab_at st) c" using inv by (simp add: cache_inv_def)
    obtain s i where si: "a = obj_addr (kmem st c) s i" "s \<in> slabs_of (kmem st c)" "i \<in> bmap.used (s_bm (slab_at st s))"
      using a by (auto simp: allocated_def objects_def)
    have ok: "slab_ok (kmem st c) c s (slab_at st s)" using wf_slab [OF wf si(2)] .
    then have "SLAB_ALIGN_DOWN a = s"
      using obj_addr_inverse(1) [of "kmem st c" i s] wf si by (auto simp: cache_wf_def slab_ok_def bmap.used_def)
    then show ?thesis using ok by (simp add: slab_ok_def)
  qed
  obtain u where u: "slab_free a st1 = Inr u" "cache_inv c (upd_cache c (\<lambda>k. k\<lparr>c_free := c_free k + 1\<rparr>) u)"
      "allocated c u = allocated c st1 - {a}" "only_cache c st1 u" "cpu u = cpu st1"
      "c_free (kmem u c) = c_free (kmem st1 c)" "c_lock (kmem u c) = c_lock (kmem st1 c)"
      "unat (c_free (kmem st1 c) + 1) = Suc (unat (c_free (kmem st1 c)))"
    using slab_free_ok [OF pre] by blast
  define v where "v = upd_cache c (\<lambda>k. k\<lparr>c_free := c_free k + 1\<rparr>) u"
  define t where "t = with_lock c (leave (cpu st)) (unhold ?l) v"
  have vf: "kmem v c = (kmem u c)\<lparr>c_free := c_free (kmem u c) + 1\<rparr>" "cpu v = cpu u" "slab_at v = slab_at u"
    by (simp_all add: v_def upd_cache_def)
  have acq: "cache_acquire c st = Inr st1"
    using acquire_free [OF fr, of "cpu st"] by (simp add: cache_acquire_alt st1_def)
  have rel: "cache_release c v = Inr t"
    using release_held [OF hok, of ?l] u(5,7) by (simp add: cache_acquire_alt vf st1_def t_def)
  have "only_cache c st1 v"
    using u(4) unfolding only_cache_def vf slabs_of_def by (auto simp: v_def upd_cache_def)
  then have "only_cache c st t" using only_cache_with_lock by (simp add: t_def st1_def)
  moreover have "kmem_cache_free a st = Inr t"
    using acq rel u(1) fr own by (simp add: kmem_cache_free_def v_def)
  moreover have "allocated c v = allocated c u"
    by (simp add: allocated_def vf objects_def slabs_of_def obj_addr_def)
  ultimately show ?thesis using u(2,3,6,8) vf by (auto simp: t_def st1_def v_def)
qed

text \<open>
  A second free of the same object leaves the slab alone but still counts the cache's free
  objects up.
\<close>

lemma cache_double_free:
  assumes inv: "cache_inv c st" and fr: "lock_free (c_lock (kmem st c))" and hok: "hart_ok (cpu st)"
    and s: "s \<in> slabs_of (kmem st c)" and i: "i < unat (object_num (alloc_size (kmem st c)))"
    and nu: "i \<notin> bmap.used (s_bm (slab_at st s))"
  shows "\<exists>t. kmem_cache_free (obj_addr (kmem st c) s i) st = Inr t \<and> slab_at t = slab_at st \<and>
    c_free (kmem t c) = c_free (kmem st c) + 1 \<and> \<not> cache_inv c t"
proof -
  define k where "k = kmem st c"
  define a where "a = obj_addr k s i"
  let ?l = "c_lock k"
  have wf: "cache_wf k (slab_at st) c" using inv by (simp add: cache_inv_def k_def)
  have ok: "slab_ok k c s (slab_at st s)" using wf_slab [OF wf] s by (simp add: k_def)
  have g: "geom k" and al: "take_bit 16 s = 0" using wf ok by (auto simp: cache_wf_def slab_ok_def)
  note inv3 = obj_addr_inverse [OF g i [folded k_def] al, folded a_def]
  have len: "i < len (s_bm (slab_at st s))" using ok i by (simp add: slab_ok_def k_def)
  define st1 where "st1 = with_lock c (intr_off (cpu st)) (hold (cpu st) ?l) st"
  have k1: "kmem st1 c = k\<lparr>c_lock := hold (cpu st) ?l\<rparr>" "slab_at st1 = slab_at st"
    by (simp_all add: st1_def with_lock_def upd_cache_def k_def)
  have off: "\<not> (ucast (a - s) :: u32) < s_offset (slab_at st s)" using inv3(2) ok by (simp add: slab_ok_def)
  have idx: "unat (((ucast (a - s) :: u32) - s_offset (slab_at st s)) div alloc_size k) = i"
    using inv3(3) ok by (simp add: slab_ok_def)
  have "\<not> s_total (slab_at st s) \<le> ((ucast (a - s) :: u32) - s_offset (slab_at st s)) div alloc_size k"
    using idx ok i by (simp add: word_le_nat_alt slab_ok_def k_def)
  then have sf: "slab_free a st1 = Inr st1"
    using inv3(1) ok off idx bitmap_get_used [OF len] nu unfolding slab_free_def Let_def
    by (simp add: k1 slab_ok_def)
  define v where "v = upd_cache c (\<lambda>k. k\<lparr>c_free := c_free k + 1\<rparr>) st1"
  define t where "t = with_lock c (leave (cpu st)) (unhold ?l) v"
  have vf: "kmem v c = (kmem st1 c)\<lparr>c_free := c_free (kmem st1 c) + 1\<rparr>" "cpu v = cpu st1" "slab_at v = slab_at st1"
    by (simp_all add: v_def upd_cache_def)
  have acq: "cache_acquire c st = Inr st1"
    using acquire_free [OF fr, of "cpu st"] by (simp add: cache_acquire_alt st1_def k_def)
  have rel: "cache_release c v = Inr t"
    using release_held [OF hok, of ?l] by (simp add: cache_acquire_alt vf st1_def t_def k_def)
  have "kmem_cache_free a st = Inr t"
    using acq rel sf fr inv3(1) ok by (simp add: kmem_cache_free_def v_def slab_ok_def)
  moreover have "c_free (kmem t c) = c_free k + 1" "slab_at t = slab_at st"
    by (simp_all add: t_def vf k1)
  moreover have "\<not> cache_inv c t"
  proof
    assume "cache_inv c t"
    then have "cache_wf (k\<lparr>c_free := c_free k + 1\<rparr>) (slab_at st) c"
      by (simp add: cache_inv_def t_def with_lock_def upd_cache_def vf k1)
    then have "unat (c_free k + 1) = unat (c_free k)"
      using wf by (simp add: cache_wf_def slabs_of_def)
    then show False by (simp add: word_unat_eq_iff [symmetric])
  qed
  ultimately show ?thesis by (simp add: a_def k_def)
qed

section \<open>Filling a slab\<close>

text \<open>\<open>n\<close> calls of \<^verbatim>\<open>slab_alloc\<close> in a row. On a slab whose first \<open>j\<close> objects are taken they return the next ones.\<close>

fun slab_fill :: "nat \<Rightarrow> addr \<Rightarrow> mm \<Rightarrow> (addr list \<times> mm) res" where
  "slab_fill 0 s st = Inr ([], st)"
| "slab_fill (Suc n) s st =
     rbind (slab_alloc s st) (\<lambda>(a, st). rbind (slab_fill n s st) (\<lambda>(as, st). Inr (a # as, st)))"

definition filled :: "addr \<Rightarrow> addr \<Rightarrow> nat \<Rightarrow> mm \<Rightarrow> bool" where
  "filled c s j st \<longleftrightarrow>
     (let x = slab_at st s
      in s_kmem x = c \<and> tail_clear (s_bm x) \<and> (\<forall>i<len (s_bm x). bm_bit (s_bm x) i \<longleftrightarrow> i < j) \<and>
         unat (s_free x) + j = len (s_bm x) \<and> (j < len (s_bm x) \<longrightarrow> s \<in> set (slabs_partial (kmem st c))))"

lemma slab_alloc_next:
  assumes f: "filled c s j st" and j: "j < len (s_bm (slab_at st s))"
  obtains t where "slab_alloc s st = Inr (s + ucast (s_offset (slab_at st s)) + ucast (of_nat j * alloc_size (kmem st c)), t)"
    and "filled c s (Suc j) t" and "alloc_size (kmem t c) = alloc_size (kmem st c)"
    and "s_offset (slab_at t s) = s_offset (slab_at st s)" and "len (s_bm (slab_at t s)) = len (s_bm (slab_at st s))"
proof -
  let ?x = "slab_at st s"
  have x: "s_kmem ?x = c" "tail_clear (s_bm ?x)" "\<And>i. i < len (s_bm ?x) \<Longrightarrow> bm_bit (s_bm ?x) i \<longleftrightarrow> i < j"
    "unat (s_free ?x) + j = len (s_bm ?x)" "s \<in> set (slabs_partial (kmem st c))"
    using f j by (auto simp: filled_def Let_def)
  have idx: "bitmap_find_next_clear (s_bm ?x) 0 = j" (is "?r = j")
  proof (rule order_antisym)
    have "\<not> bm_bit (s_bm ?x) j" using x(3) j by simp
    then show "?r \<le> j" using bmap.search_full [OF x(2)] j by blast
    show "j \<le> ?r" using bmap.search_clear [OF x(2)] x(3) [of ?r] j by (meson le_less_linear less_trans)
  qed
  have nz: "s_free ?x \<noteq> 0" using x(4) j by auto
  define st1 where "st1 = upd_slab s (\<lambda>x. x\<lparr>s_free := s_free x - 1\<rparr>) st"
  define st2 where "st2 = (if s_free ?x - 1 = 0 then upd_cache c (\<lambda>k. k\<lparr>slabs_full := s # slabs_full k\<rparr>)
      (upd_cache c (\<lambda>k. k\<lparr>slabs_full := remove1 s (slabs_full k), slabs_partial := remove1 s (slabs_partial k),
         slabs_free := remove1 s (slabs_free k)\<rparr>) st1) else st1)"
  define t where "t = upd_slab s (\<lambda>x. x\<lparr>s_bm := bitmap_set (s_bm x) j\<rparr>) st2"
  have s1: "slab_at st1 s = ?x\<lparr>s_free := s_free ?x - 1\<rparr>" "kmem st1 = kmem st" by (simp_all add: st1_def upd_slab_def)
  have ck: "s_kmem (slab_at st1 s) = c" by (simp add: s1(1) x(1))
  have s2: "slab_at st2 s = ?x\<lparr>s_free := s_free ?x - 1\<rparr>" "alloc_size (kmem st2 c) = alloc_size (kmem st c)"
    "s_free ?x \<noteq> 1 \<longrightarrow> kmem st2 = kmem st"
    by (simp_all add: st2_def s1 upd_cache_def)
  have unl: "rbind (if s_free (slab_at st1 s) = 0
      then rbind (slab_unlink c s st1) (\<lambda>st. Inr (upd_cache c (\<lambda>k. k\<lparr>slabs_full := s # slabs_full k\<rparr>) st)) else Inr st1) g = g st2" for g :: "mm \<Rightarrow> (addr \<times> mm) res"
    using x(5) by (simp add: s1 slab_unlink_def st2_def Let_def)
  have t: "slab_at t s = ?x\<lparr>s_free := s_free ?x - 1, s_bm := bitmap_set (s_bm ?x) j\<rparr>" "kmem t = kmem st2"
    by (simp_all add: t_def upd_slab_def s2(1))
  have "slab_alloc s st = Inr (s + ucast (s_offset ?x) + ucast (of_nat j * alloc_size (kmem st c)), t)"
    using j unfolding slab_alloc_def Let_def st1_def [symmetric] ck unl
    by (simp add: s2(1) idx t_def [symmetric]) (simp add: t_def upd_slab_def s2(1,2))
  moreover have "filled c s (Suc j) t"
  proof -
    have "unat (s_free ?x - 1) + Suc j = len (s_bm ?x)" using x(4) unat_Suc_pred [OF nz] by simp
    moreover have "s_free ?x \<noteq> 1" if "Suc j < len (s_bm ?x)" using that x(4) by auto
    ultimately show ?thesis
      using x j s2(3) bmap.ok_take [OF x(2) j] unfolding filled_def t Let_def by (auto simp: bm_bit_set)
  qed
  ultimately show ?thesis using t s2(2) by (intro that [of t]) simp_all
qed

lemma slab_fill_ok:
  assumes "filled c s j st" and "j + m \<le> len (s_bm (slab_at st s))"
  shows "\<exists>t. slab_fill m s st =
    Inr (map (\<lambda>i. s + ucast (s_offset (slab_at st s)) + ucast (of_nat i * alloc_size (kmem st c))) [j..<j + m], t) \<and>
    filled c s (j + m) t"
  using assms
proof (induction m arbitrary: j st)
  case (Suc m)
  have "j < len (s_bm (slab_at st s))" using Suc(3) by simp
  then obtain u where u: "slab_alloc s st = Inr (s + ucast (s_offset (slab_at st s)) + ucast (of_nat j * alloc_size (kmem st c)), u)"
    "filled c s (Suc j) u" "alloc_size (kmem u c) = alloc_size (kmem st c)"
    "s_offset (slab_at u s) = s_offset (slab_at st s)" "len (s_bm (slab_at u s)) = len (s_bm (slab_at st s))"
    by (rule slab_alloc_next [OF Suc(2)])
  obtain t where "slab_fill m s u = Inr (map (\<lambda>i. s + ucast (s_offset (slab_at u s)) + ucast (of_nat i * alloc_size (kmem u c))) [Suc j..<Suc j + m], t)"
    "filled c s (Suc j + m) t"
    using Suc(1) [OF u(2)] Suc(3) u(5) by auto
  moreover have "[j..<j + Suc m] = j # [Suc j..<Suc j + m]" by (simp add: upt_conv_Cons del: upt_Suc)
  ultimately show ?case using u by simp
qed simp

text \<open>A slab that \<^verbatim>\<open>kmem_cache_init\<close> creates.\<close>

lemma kmem_cache_init_slab:
  assumes init: "kmem_cache_init BA c name sz True st = Inr (0, t)"
    and frame: "\<And>v s u. BA SLAB_BLOB_SIZE v = Inr (s, u) \<Longrightarrow> kmem u c = kmem v c"
  defines "n \<equiv> object_num (ucast (ALIGN_UP sz 8))"
  obtains s where "slabs_partial (kmem t c) = [s]" and "alloc_size (kmem t c) = ucast (ALIGN_UP sz 8)"
    and "obj_size (kmem t c) = ucast sz" and "s_total (slab_at t s) = n" and "s_free (slab_at t s) = n"
    and "s_offset (slab_at t s) = slab_offset n (ucast sz)" and "filled c s 0 t" and "len (s_bm (slab_at t s)) = unat n"
    and "c_free (kmem t c) = ucast n" and "c_total (kmem t c) = ucast n"
proof -
  define k where "k = \<lparr>c_name = name, obj_size = ucast sz, alloc_size = ucast (ALIGN_UP sz 8), c_total = 0, c_free = 0,
     low = n, high = 2 * n, expanding = False, c_lock = SPINLOCK_INITIALIZER ''kmemcache'',
     slabs_full = [], slabs_partial = [], slabs_free = []\<rparr>"
  let ?v = "upd_cache c (\<lambda>_. k) st"
  obtain s u where u: "BA SLAB_BLOB_SIZE ?v = Inr (s, u)" "s \<noteq> NULL"
    and t: "rbind (slab_init c s u) (\<lambda>st. Inr (0, add_counts c s st)) = Inr (0, t)"
    using init unfolding kmem_cache_init_def Let_def k_def n_def add_counts_def
    by (auto simp: rbind_eq_Inr_iff ENOMEM_def split: if_splits)
  have ku: "kmem u c = k" using frame [OF u(1)] by (simp add: upd_cache_def)
  obtain r w where w: "mark_slab_pages Null_Deref (\<lambda>fl. fl OR PM_SLAB) s u = Inr (r, w)"
    using t by (auto simp: slab_init_def rbind_eq_Inr_iff Let_def)
  have "kmem w = kmem u"
    using w unfolding mark_slab_pages_def
    by (rule for_addr_keeps [where I = "\<lambda>x. kmem x = kmem u"]) (auto simp: upd_page_def split: option.splits)
  then have kw: "kmem w c = k" by (simp add: ku)
  have "t = add_counts c s (upd_cache c (\<lambda>k. k\<lparr>slabs_partial := slabs_partial k @ [s]\<rparr>)
      (upd_slab s (\<lambda>_. \<lparr>s_kmem = c, s_bm = \<lparr>data = (\<lambda>_. 0), len = unat n\<rparr>, s_total = n, s_free = n,
         s_offset = slab_offset n (ucast sz), s_magic = SLAB_MAGIC\<rparr>) w))"
    using t w kw by (simp add: slab_init_def n_def k_def Let_def)
  then have v: "kmem t c = k\<lparr>slabs_partial := [s], c_total := ucast n, c_free := ucast n\<rparr>"
    "slab_at t s = \<lparr>s_kmem = c, s_bm = \<lparr>data = (\<lambda>_. 0), len = unat n\<rparr>, s_total = n, s_free = n,
       s_offset = slab_offset n (ucast sz), s_magic = SLAB_MAGIC\<rparr>"
    by (simp_all add: add_counts_def upd_cache_def upd_slab_def kw k_def)
  then have "filled c s 0 t" by (simp add: filled_def tail_clear_def bm_bit_def k_def)
  then show ?thesis using v by (intro that [of s]) (simp_all add: k_def)
qed

end
