(* ===== verification/Kalloc.thy ===== *)
theory Kalloc
  imports Slab_Correct
begin

text \<open>
  The kernel heap of \<^verbatim>\<open>src/mm/kalloc.c\<close> and the boot sequence \<^verbatim>\<open>pm_init\<close> of \<^verbatim>\<open>src/mm/pm.c\<close>.
  \<^verbatim>\<open>kmalloc\<close> calls the slab and buddy allocators, and the buddy allocator calls \<^verbatim>\<open>kmalloc\<close> and
  \<^verbatim>\<open>kfree\<close> for its list nodes: the bodies take the inner calls as arguments, and \<open>kops n\<close> is the pair
  of functions whose calls nest at most \<open>n\<close> deep (\<open>Spin\<close> stands for a deeper nesting). The contents
  of the allocated memory are not part of the state, so \<^verbatim>\<open>kzalloc\<close> differs from \<^verbatim>\<open>kmalloc\<close> only there.
\<close>

section \<open>Operations\<close>

definition MEM_OBJ_SIZES :: "u64 list" where
  "MEM_OBJ_SIZES = [8, 16, 24, 32, 48, 64, 96, 128, 192, 256, 384, 512, 768, 1024, 1536, 2048, 3072, 4096]"

definition KALLOC_MEM_POOL_NUM :: nat where "KALLOC_MEM_POOL_NUM = length MEM_OBJ_SIZES"

definition KALLOC_MAX_MEM_OBJ_SIZE :: u64 where
  "KALLOC_MAX_MEM_OBJ_SIZE = MEM_OBJ_SIZES ! (KALLOC_MEM_POOL_NUM - 1)"

fun size2index_from :: "u64 \<Rightarrow> u64 list \<Rightarrow> nat \<Rightarrow> nat" where
  "size2index_from sz (x # y # xs) i = (if sz \<le> x then i else size2index_from sz (y # xs) (Suc i))"
| "size2index_from sz _ i = i"

definition size2index :: "u64 \<Rightarrow> nat" where
  "size2index sz = size2index_from sz MEM_OBJ_SIZES 0"

text \<open>The element \<^verbatim>\<open>kalloc_mem_pool[j][i]\<close> of the array of caches.\<close>

definition sizeof_kmem_cache :: u64 where "sizeof_kmem_cache = 136"

definition pool_addr :: "mm \<Rightarrow> nat \<Rightarrow> nat \<Rightarrow> addr" where
  "pool_addr st j i = pool_base st + of_nat (j * CPU_NUM + i) * sizeof_kmem_cache"

definition kmalloc_body ::
  "(u64 \<Rightarrow> mm \<Rightarrow> (addr \<times> mm) res) \<Rightarrow> (addr \<Rightarrow> mm \<Rightarrow> mm res) \<Rightarrow> u64 \<Rightarrow> mm \<Rightarrow> (addr \<times> mm) res" where
  "kmalloc_body KM KF sz st =
     (let BA = buddy_alloc (alloc_mem_block KM) (free_mem_block KF)
      in if sz = 0 then Inr (NULL, st)
         else if sz \<le> KALLOC_MAX_MEM_OBJ_SIZE
         then kmem_cache_alloc BA (pool_addr st (size2index sz) (unat (tp (cpu st)))) st
         else if sz \<le> push_bit BUDDY_MAX_ORDER PAGE_SIZE then BA sz st
         else Inr (NULL, st))"

definition kfree_body :: "(u64 \<Rightarrow> mm \<Rightarrow> (addr \<times> mm) res) \<Rightarrow> addr \<Rightarrow> mm \<Rightarrow> mm res" where
  "kfree_body KM a st =
     (case addr2page (PAGE_ALIGN_DOWN a) of
        None \<Rightarrow> Inr st
      | Some pg \<Rightarrow>
          if flags (pages st pg) AND PM_BUDDY = 0 then Inr st
          else if flags (pages st pg) AND PM_SLAB \<noteq> 0 then kmem_cache_free a st
          else buddy_free (alloc_mem_block KM) a st)"

primrec kops :: "nat \<Rightarrow> (u64 \<Rightarrow> mm \<Rightarrow> (addr \<times> mm) res) \<times> (addr \<Rightarrow> mm \<Rightarrow> mm res)" where
  "kops 0 = ((\<lambda>_ _. Inl Spin), (\<lambda>_ _. Inl Spin))"
| "kops (Suc n) = (kmalloc_body (fst (kops n)) (snd (kops n)), kfree_body (fst (kops n)))"

definition kmalloc :: "nat \<Rightarrow> u64 \<Rightarrow> mm \<Rightarrow> (addr \<times> mm) res" where
  "kmalloc n = fst (kops n)"

definition kfree :: "nat \<Rightarrow> addr \<Rightarrow> mm \<Rightarrow> mm res" where
  "kfree n = snd (kops n)"

definition kzalloc :: "nat \<Rightarrow> u64 \<Rightarrow> mm \<Rightarrow> (addr \<times> mm) res" where
  "kzalloc n sz st = kmalloc n sz st"

definition kcalloc :: "nat \<Rightarrow> u64 \<Rightarrow> u64 \<Rightarrow> mm \<Rightarrow> (addr \<times> mm) res" where
  "kcalloc n nitems sz st =
     (if nitems \<noteq> 0 \<and> (- 1) div nitems < sz then Inr (NULL, st) else kzalloc n (nitems * sz) st)"

definition krealloc :: "nat \<Rightarrow> addr \<Rightarrow> u64 \<Rightarrow> mm \<Rightarrow> (addr \<times> mm) res" where
  "krealloc n p sz st = rbind (kfree n p st) (kmalloc n sz)"

section \<open>Boot\<close>

fun dec_digits :: "nat \<Rightarrow> string" where
  "dec_digits n = (if n < 10 then [char_of (48 + n)] else dec_digits (n div 10) @ [char_of (48 + n mod 10)])"

definition pool_name :: "u64 \<Rightarrow> nat \<Rightarrow> string" where
  "pool_name sz i = ''kmalloc-'' @ dec_digits (unat sz) @ ''<'' @ dec_digits i @ ''>''"

fun kalloc_init_from :: "nat \<Rightarrow> (nat \<times> nat) list \<Rightarrow> mm \<Rightarrow> mm res" where
  "kalloc_init_from n [] st = Inr st"
| "kalloc_init_from n ((i, j) # ps) st =
     rbind (early_alloc 24 st) (\<lambda>(_, st).
     rbind (kmem_cache_init (buddy_alloc (alloc_mem_block (kmalloc n)) (free_mem_block (kfree n)))
              (pool_addr st j i) (pool_name (MEM_OBJ_SIZES ! j) i) (MEM_OBJ_SIZES ! j) True st) (\<lambda>(_, st).
       kalloc_init_from n ps st))"

definition kalloc_init :: "nat \<Rightarrow> mm \<Rightarrow> mm res" where
  "kalloc_init n st =
     rbind (kalloc_init_from n [(i, j). i \<leftarrow> [0..<CPU_NUM], j \<leftarrow> [0..<KALLOC_MEM_POOL_NUM]] st)
       (\<lambda>st. Inr (st\<lparr>kalloc_inited := True\<rparr>))"

definition pm_init :: "nat \<Rightarrow> mm \<Rightarrow> (int \<times> mm) res" where
  "pm_init n st =
     and_then (pm_pages_init st) (\<lambda>st.
     and_then (buddy_init (alloc_mem_block (kmalloc n)) (early_init st)) (\<lambda>st.
     rbind (kalloc_init n st) (\<lambda>st. Inr (0, st))))"

lemma kmalloc_Suc:
  "kmalloc (Suc n) = kmalloc_body (kmalloc n) (kfree n)" "kfree (Suc n) = kfree_body (kmalloc n)"
  by (simp_all add: kmalloc_def kfree_def)

section \<open>Size classes\<close>

text \<open>A request is served from the first class that is large enough.\<close>

lemma size2index_from_ok:
  assumes "xs \<noteq> []" and "sorted xs" and "sz \<le> last xs" and "r = size2index_from sz xs i"
  shows "i \<le> r" and "r - i < length xs" and "sz \<le> xs ! (r - i)" and "\<And>m. m < r - i \<Longrightarrow> xs ! m < sz"
proof -
  have "i \<le> r \<and> r - i < length xs \<and> sz \<le> xs ! (r - i) \<and> (\<forall>m. m < r - i \<longrightarrow> xs ! m < sz)"
    using assms
  proof (induction sz xs i arbitrary: r rule: size2index_from.induct)
    case (1 sz x y xs i)
    show ?case
    proof (cases "sz \<le> x")
      case False
      define r' where "r' = size2index_from sz (y # xs) (Suc i)"
      have IH: "Suc i \<le> r' \<and> r' - Suc i < length (y # xs) \<and> sz \<le> (y # xs) ! (r' - Suc i) \<and>
          (\<forall>m. m < r' - Suc i \<longrightarrow> (y # xs) ! m < sz)"
        using 1 False by (simp add: r'_def)
      have r: "r = r'" using 1(5) False by (simp add: r'_def)
      have e: "r - i = Suc (r' - Suc i)" using conjunct1 [OF IH] r by arith
      have "(x # y # xs) ! m < sz" if "m < r - i" for m
        using that False IH e by (cases m) auto
      then show ?thesis using IH e r by auto
    qed (use 1 in simp)
  qed auto
  then show "i \<le> r" and "r - i < length xs" and "sz \<le> xs ! (r - i)" and "\<And>m. m < r - i \<Longrightarrow> xs ! m < sz"
    by auto
qed

lemma size2index_ok:
  assumes "sz \<le> KALLOC_MAX_MEM_OBJ_SIZE"
  shows "size2index sz < KALLOC_MEM_POOL_NUM" and "sz \<le> MEM_OBJ_SIZES ! size2index sz"
    and "m < size2index sz \<Longrightarrow> MEM_OBJ_SIZES ! m < sz"
proof -
  have l: "sz \<le> last MEM_OBJ_SIZES"
    using assms by (simp add: KALLOC_MAX_MEM_OBJ_SIZE_def KALLOC_MEM_POOL_NUM_def MEM_OBJ_SIZES_def)
  have s: "MEM_OBJ_SIZES \<noteq> []" "sorted MEM_OBJ_SIZES" by (simp_all add: MEM_OBJ_SIZES_def)
  note ok = size2index_from_ok [OF s l, of "size2index sz" 0]
  show "size2index sz < KALLOC_MEM_POOL_NUM" and "sz \<le> MEM_OBJ_SIZES ! size2index sz"
    and "m < size2index sz \<Longrightarrow> MEM_OBJ_SIZES ! m < sz"
    using ok by (simp_all add: size2index_def KALLOC_MEM_POOL_NUM_def)
qed

end
