(* ===== verification/Kalloc_Correct.thy ===== *)
theory Kalloc_Correct
  imports Kalloc
begin

text \<open>
  The kernel heap as the source of the buddy allocator's list nodes once the system is up: the
  contract \<open>block_pool\<close> holds of \<^verbatim>\<open>kmalloc\<close> and \<^verbatim>\<open>kfree\<close> as long as the cache for 24-byte objects has
  nodes above its low mark. Then the layout of the \<^verbatim>\<open>kmalloc\<close> caches.
\<close>

section \<open>The heap as a pool of list nodes\<close>

definition slab_page :: "mm \<Rightarrow> addr \<Rightarrow> bool" where
  "slab_page st a \<longleftrightarrow> \<not> is_early_mem st a \<and>
     (case addr2page (PAGE_ALIGN_DOWN a) of
        None \<Rightarrow> False
      | Some pg \<Rightarrow> flags (pages st pg) AND PM_BUDDY \<noteq> 0 \<and> flags (pages st pg) AND PM_SLAB \<noteq> 0)"

definition node_cache :: "mm \<Rightarrow> addr" where
  "node_cache st = pool_addr st 2 (unat (tp (cpu st)))"

definition kheap_pool :: "mm \<Rightarrow> addr set \<Rightarrow> nat \<Rightarrow> bool" where
  "kheap_pool st L n \<longleftrightarrow> kalloc_inited st \<and>
     (let c = node_cache st
      in cache_inv c st \<and> lock_free (c_lock (kmem st c)) \<and>
         unat (low (kmem st c)) + n \<le> unat (c_free (kmem st c)) \<and> L \<subseteq> allocated c st \<and>
         (\<forall>s\<in>slabs_of (kmem st c). \<forall>x<65536. slab_page st (s + of_nat x)))"

lemma size2index_24: "size2index 24 = 2"
  by (simp add: size2index_def MEM_OBJ_SIZES_def)

lemma kmalloc_node:
  "kmalloc (Suc n) 24 st =
     kmem_cache_alloc (buddy_alloc (alloc_mem_block (kmalloc n)) (free_mem_block (kfree n))) (node_cache st) st"
  by (simp add: kmalloc_Suc kmalloc_body_def KALLOC_MAX_MEM_OBJ_SIZE_def KALLOC_MEM_POOL_NUM_def
      MEM_OBJ_SIZES_def size2index_24 node_cache_def)

lemma kfree_slab: "slab_page st a \<Longrightarrow> kfree (Suc n) a st = kmem_cache_free a st"
  by (auto simp: kmalloc_Suc kfree_body_def slab_page_def split: option.splits)

lemma only_cache_same:
  assumes "only_cache c st t" and "cpu t = leave (cpu st)"
  shows "buddy_same st t" and "node_cache t = node_cache st" and "kalloc_inited t = kalloc_inited st"
    and "slab_page t a = slab_page st a" and "slabs_of (kmem t c) = slabs_of (kmem st c)"
  using assms by (simp_all add: only_cache_def buddy_part_def buddy_same_def node_cache_def pool_addr_def
      slab_page_def is_early_mem_def EARLY_HEAP_BASE_def KERNEL_END_def cong: option.case_cong)

lemma allocated_slab_page:
  assumes "cache_inv c st" and "a \<in> allocated c st"
    and "\<forall>s\<in>slabs_of (kmem st c). \<forall>x<65536. slab_page st (s + of_nat x)"
  shows "slab_page st a"
proof -
  obtain s i where si: "a = obj_addr (kmem st c) s i" "s \<in> slabs_of (kmem st c)" "i \<in> bmap.used (s_bm (slab_at st s))"
    using assms(2) by (auto simp: allocated_def objects_def)
  have "geom (kmem st c)" "i < unat (object_num (alloc_size (kmem st c)))"
    using assms(1) si wf_slab [of "kmem st c" "slab_at st" c s]
    by (auto simp: cache_inv_def cache_wf_def slab_ok_def bmap.used_def)
  then have "unat (slab_offset (object_num (alloc_size (kmem st c))) (obj_size (kmem st c))) + i * unat (alloc_size (kmem st c)) < 65536"
    by (rule obj_bound)
  then show ?thesis using assms(3) si(1,2) unfolding obj_addr_def by blast
qed

lemma mm_more_fields:
  assumes "buddy.more (t :: mm) = buddy.more st"
  shows "kmem t = kmem st" "slab_at t = slab_at st" "pool_base t = pool_base st"
  using assms by (cases t, cases st, simp)+

lemma cpool_frame:
  assumes "kheap_pool st L n" and "pool_same st t"
  shows "kheap_pool t L n"
proof -
  note f = mm_more_fields [of t st]
  have m: "buddy.more t = buddy.more st" using assms(2) by (simp add: pool_same_def)
  have c: "node_cache t = node_cache st" using assms(2) f(3) [OF m] by (simp add: pool_same_def node_cache_def pool_addr_def)
  have "slab_page t a = slab_page st a" for a
    using assms(2) by (auto simp: slab_page_def pool_same_def is_early_mem_def EARLY_HEAP_BASE_def KERNEL_END_def
        split: option.splits)
  then show ?thesis
    using assms f [OF m] by (simp add: kheap_pool_def c Let_def cache_inv_def allocated_def pool_same_def)
qed

interpretation kheap: block_pool "alloc_mem_block (kmalloc (Suc n))" "free_mem_block (kfree (Suc n))" kheap_pool for n
proof
  fix st :: mm and L m
  assume p: "kheap_pool st L (Suc m)" and hok: "hart_ok (cpu st)"
  let ?c = "node_cache st" and ?k = "kmem st (node_cache st)"
  have inv: "cache_inv ?c st" and fr: "lock_free (c_lock ?k)" and up: "kalloc_inited st"
    and cnt: "unat (low ?k) + Suc m \<le> unat (c_free ?k)" and L: "L \<subseteq> allocated ?c st"
    and pg: "\<forall>s\<in>slabs_of ?k. \<forall>x<65536. slab_page st (s + of_nat x)"
    using p by (simp_all add: kheap_pool_def Let_def)
  have nz: "c_free ?k \<noteq> 0" using cnt by auto
  have "\<not> c_free ?k < ucast (low ?k)" using cnt by (simp add: word_less_nat_alt unat_ucast_up)
  then have res: "reserve ?c st" using nz by (simp add: reserve_def)
  obtain a t where t: "kmem_cache_alloc (buddy_alloc (alloc_mem_block (kmalloc n)) (free_mem_block (kfree n))) ?c st = Inr (a, t)"
    "cache_inv ?c t" "a \<noteq> 0" "a \<notin> allocated ?c st" "allocated ?c t = insert a (allocated ?c st)" "only_cache ?c st t"
    "cpu t = leave (cpu st)" "c_free (kmem t ?c) = c_free ?k - 1" "lock_free (c_lock (kmem t ?c))"
    using cache_alloc_ok [OF inv fr hok res] by blast
  note same = only_cache_same [OF t(6,7)]
  have "low (kmem t ?c) = low ?k"
    using inv t(2,6) by (simp add: cache_inv_def cache_wf_def only_cache_def)
  then have "kheap_pool t (insert a L) m"
    using t same cnt L pg up unat_Suc_pred [OF nz] by (auto simp: kheap_pool_def Let_def)
  moreover have "alloc_mem_block (kmalloc (Suc n)) st = Inr (a, t)"
    using up t(1) by (simp add: alloc_mem_block_def sizeof_mem_block_def kmalloc_node)
  moreover have "a \<notin> L" using L t(4) by blast
  ultimately show "\<exists>b u. alloc_mem_block (kmalloc (Suc n)) st = Inr (b, u) \<and> b \<noteq> NULL \<and> b \<notin> L \<and>
      kheap_pool u (insert b L) m \<and> buddy_same st u"
    using t(3) same(1) by blast
next
  fix st :: mm and L m b
  assume p: "kheap_pool st L m" and hok: "hart_ok (cpu st)" and b: "b \<in> L"
  let ?c = "node_cache st" and ?k = "kmem st (node_cache st)"
  have inv: "cache_inv ?c st" and fr: "lock_free (c_lock ?k)" and up: "kalloc_inited st"
    and cnt: "unat (low ?k) + m \<le> unat (c_free ?k)" and L: "L \<subseteq> allocated ?c st"
    and pg: "\<forall>s\<in>slabs_of ?k. \<forall>x<65536. slab_page st (s + of_nat x)"
    using p by (simp_all add: kheap_pool_def Let_def)
  have ba: "b \<in> allocated ?c st" using b L by blast
  obtain t where t: "kmem_cache_free b st = Inr t" "cache_inv ?c t" "allocated ?c t = allocated ?c st - {b}"
    "only_cache ?c st t" "cpu t = leave (cpu st)" "c_free (kmem t ?c) = c_free ?k + 1" "lock_free (c_lock (kmem t ?c))"
    "unat (c_free ?k + 1) = Suc (unat (c_free ?k))"
    using cache_free_ok [OF inv fr hok ba] by blast
  note same = only_cache_same [OF t(4,5)]
  have sp: "slab_page st b" by (rule allocated_slab_page [OF inv ba pg])
  have lo: "low (kmem t ?c) = low ?k"
    using inv t(2,4) by (simp add: cache_inv_def cache_wf_def only_cache_def)
  have "unat (c_free ?k) \<le> unat (c_free ?k + 1)" using t(8) by simp
  then have "kheap_pool t (L - {b}) m"
    using t same cnt L pg up lo by (auto simp: kheap_pool_def Let_def)
  moreover have "free_mem_block (kfree (Suc n)) b st = Inr t"
    using t(1) sp kfree_slab [OF sp] by (simp add: free_mem_block_def slab_page_def)
  ultimately show "\<exists>u. free_mem_block (kfree (Suc n)) b st = Inr u \<and> kheap_pool u (L - {b}) m \<and> buddy_same st u"
    using same(1) by blast
next
  fix st t :: mm and L m
  assume "kheap_pool st L m" and "pool_same st t"
  then show "kheap_pool t L m" by (rule cpool_frame)
next
  fix st :: mm and L m
  assume "kheap_pool st L (Suc m)"
  then show "kheap_pool st L m" by (simp add: kheap_pool_def Let_def)
qed

end
