(* ===== verification/Memory_Properties.thy ===== *)
theory Memory_Properties
  imports Kalloc_Correct
begin

text \<open>
  The properties of the memory allocators, stated on the definitions of \<open>Buddy\<close>, \<open>Slab\<close> and \<open>Kalloc\<close>
  with the node allocators the kernel uses: the early heap during boot and \<^verbatim>\<open>kmalloc\<close> afterwards.
  Two concrete states, one before \<^verbatim>\<open>buddy_init\<close> and one of a running system, show that the
  hypotheses can hold.
\<close>

section \<open>Two concrete states\<close>

definition plain_page :: page where
  "plain_page = \<lparr>refs = 0, flags = PM_STATIC OR PM_BUDDY OR PM_SLAB, order = 4, priv = NULL\<rparr>"

definition boot_hart :: hart where
  "boot_hart = \<lparr>tp = 0, sstatus = 0, intr_state = 0, intr_depth = 0\<rparr>"

definition no_cache :: kmem_cache where
  "no_cache = \<lparr>c_name = '''', obj_size = 0, alloc_size = 0, c_total = 0, c_free = 0, low = 0, high = 0,
     expanding = False, c_lock = SPINLOCK_INITIALIZER '''', slabs_full = [], slabs_partial = [], slabs_free = []\<rparr>"

definition no_slab :: slab where
  "no_slab = \<lparr>s_kmem = NULL, s_bm = \<lparr>data = (\<lambda>_. 0), len = 0\<rparr>, s_total = 0, s_free = 0, s_offset = 0, s_magic = 0\<rparr>"

definition boot_mm :: mm where
  "boot_mm = \<lparr>skernel = 0x80200000, ekernel = 0x80300000, pages_base = 0x80280000, pages = (\<lambda>_. plain_page),
     early_brk = 0x80301000, kalloc_inited = False, buddy_inited = False, buddy_free_pages = 0,
     blk_start = (\<lambda>_. NULL), free_list = (\<lambda>_. []), buddy_lock = SPINLOCK_INITIALIZER ''buddy'', cpu = boot_hart,
     kmem = (\<lambda>_. no_cache), slab_at = (\<lambda>_. no_slab), pool_base = 0x80290000\<rparr>"

lemma boot_layout:
  "EARLY_HEAP_BASE boot_mm = 0x80301000" "EARLY_HEAP_END boot_mm = 0x80302000"
  "BUDDY_SYSTEM_BASE boot_mm = 0x80800000"
  by (simp_all add: EARLY_HEAP_BASE_def EARLY_HEAP_END_def BUDDY_SYSTEM_BASE_def KERNEL_END_def boot_mm_def
      ALIGN_UP_def config_values)

lemma boot_mm_ready: "n \<le> 150 \<Longrightarrow> boot_ready early_pool (n + 16) boot_mm"
  unfolding boot_ready_def layout_ok_def boot_layout BUDDY_SYSTEM_END_value early_pool_def
  by (intro conjI exI [of _ "{}"])
     (simp_all add: config_values prv_of_def boot_mm_def plain_page_def hart_ok_def boot_hart_def)

text \<open>
  A running system: the cache of list nodes has two slabs, at \<^verbatim>\<open>0x80800000\<close> and \<^verbatim>\<open>0x80810000\<close>; the
  rest of the first blob and every other blob are handed out, except one page that is free.
\<close>

definition node_slab :: slab where
  "node_slab = \<lparr>s_kmem = 0x80290110, s_bm = \<lparr>data = (\<lambda>_. 0), len = 2714\<rparr>, s_total = 2714, s_free = 2714,
     s_offset = 416, s_magic = SLAB_MAGIC\<rparr>"

definition used_slab :: slab where
  "used_slab = node_slab\<lparr>s_free := 2713, s_bm := bitmap_set (s_bm node_slab) 0\<rparr>"

definition node_pool :: kmem_cache where
  "node_pool = \<lparr>c_name = ''kmalloc-24<0>'', obj_size = 24, alloc_size = 24, c_total = 5428, c_free = 5427,
     low = 2714, high = 5428, expanding = False, c_lock = SPINLOCK_INITIALIZER ''kmemcache'', slabs_full = [],
     slabs_partial = [0x80800000, 0x80810000], slabs_free = []\<rparr>"

definition free_node :: addr where "free_node = 0x808001a0"

definition run_mm :: mm where
  "run_mm = boot_mm\<lparr>kalloc_inited := True, buddy_inited := True, buddy_free_pages := 1,
     pages := (\<lambda>_. plain_page)(pidx 0x81000000 := plain_page\<lparr>order := 0, priv := free_node\<rparr>),
     blk_start := (\<lambda>_. NULL)(free_node := 0x81000000), free_list := (\<lambda>_. [])(0 := [free_node]),
     kmem := (\<lambda>_. no_cache)(0x80290110 := node_pool),
     slab_at := (\<lambda>_. no_slab)(0x80800000 := used_slab, 0x80810000 := node_slab)\<rparr>"

lemma object_num_24: "object_num 24 = 2714"
  by (simp add: object_num_def config_values sizeof_slab_def)

lemma slab_offset_24: "slab_offset 2714 24 = 416"
  by (simp add: slab_offset_def bitmap_bytes_def ALIGN_UP_def sizeof_slab_def)

lemma run_node_cache: "node_cache run_mm = 0x80290110" "kmem run_mm 0x80290110 = node_pool"
  by (simp_all add: node_cache_def pool_addr_def run_mm_def boot_mm_def CPU_NUM_def sizeof_kmem_cache_def boot_hart_def)

lemma run_geom: "geom node_pool"
  by (simp add: geom_def node_pool_def object_num_24 slab_offset_24 Let_def)

lemma empty_used: "bmap.used \<lparr>data = (\<lambda>_. 0), len = n\<rparr> = {}"
  by (simp add: bmap.used_def bm_bit_def)

lemma run_slabs: "slab_at run_mm 0x80800000 = used_slab" "slab_at run_mm 0x80810000 = node_slab"
  by (simp_all add: run_mm_def)

lemma run_slab_ok: "slab_ok node_pool 0x80290110 0x80810000 node_slab"
  by (simp add: slab_ok_def node_slab_def node_pool_def object_num_24 slab_offset_24 empty_used tail_clear_def
      bm_bit_def take_bit_eq_mask mask_eq_exp_minus_1)

lemma run_used: "bmap.used (s_bm used_slab) = {0}"
  by (simp add: used_slab_def node_slab_def bmap.used_take empty_used)

lemma run_slab_ok_used: "slab_ok node_pool 0x80290110 0x80800000 used_slab"
proof -
  have "tail_clear (s_bm used_slab)"
    unfolding used_slab_def node_slab_def
    by (simp, rule bmap.ok_take) (simp_all add: tail_clear_def bm_bit_def)
  then show ?thesis
    by (simp add: slab_ok_def run_used) 
       (simp add: used_slab_def node_slab_def node_pool_def object_num_24 slab_offset_24 take_bit_eq_mask
        mask_eq_exp_minus_1 bmap.size_take)
qed

lemma run_cache: "cache_inv 0x80290110 run_mm"
proof -
  have s: "slabs_of node_pool = {0x80800000, 0x80810000}" by (simp add: slabs_of_def node_pool_def)
  show ?thesis
    unfolding cache_inv_def cache_wf_def run_node_cache s
    using run_geom run_slab_ok run_slab_ok_used
    by (simp add: run_slabs) (simp add: node_pool_def object_num_24 run_slabs used_slab_def node_slab_def)
qed

lemma run_free_node: "free_node \<in> allocated 0x80290110 run_mm"
proof -
  have "obj_addr node_pool 0x80800000 0 = free_node"
    by (simp add: obj_addr_def node_pool_def object_num_24 slab_offset_24 free_node_def)
  moreover have "0x80800000 \<in> slabs_of node_pool" by (simp add: slabs_of_def node_pool_def)
  moreover have "0 \<in> bmap.used (s_bm (slab_at run_mm 0x80800000))" by (simp add: run_slabs run_used)
  ultimately show ?thesis unfolding allocated_def objects_def run_node_cache by force
qed

lemma run_slab_page:
  assumes "0x80800000 \<le> unat a" and "unat a < 0x88000000"
  shows "slab_page run_mm a"
proof -
  have d: "unat (PAGE_ALIGN_DOWN a) = unat a div 4096 * 4096"
    using ALIGN_DOWN_unat [of a 12] by (simp add: config_values)
  have "0x80000000 \<le> unat (PAGE_ALIGN_DOWN a)" "unat (PAGE_ALIGN_DOWN a) < 0x88000000"
    unfolding d using assms by linarith+
  then obtain pg where pg: "addr2page (PAGE_ALIGN_DOWN a) = Some pg" by (simp add: addr2page_unat)
  have f: "flags (pages run_mm pg) = PM_STATIC OR PM_BUDDY OR PM_SLAB"
    by (simp add: run_mm_def plain_page_def)
  have "EARLY_HEAP_BASE run_mm = early_brk run_mm"
    using boot_layout(1) by (simp add: EARLY_HEAP_BASE_def KERNEL_END_def run_mm_def boot_mm_def)
  then show ?thesis
    by (auto simp: slab_page_def pg f is_early_mem_def PM_STATIC_def PM_BUDDY_def PM_SLAB_def)
qed

lemma run_pool: "kheap_pool run_mm {free_node} 2000"
proof -
  have pg: "slab_page run_mm (s + of_nat x)" if "s \<in> {0x80800000, 0x80810000}" "x < 65536" for s x
  proof -
    have "unat (s + of_nat x) = unat s + x"
      using that by (auto simp: unat_word_ariths unat_of_nat_small)
    then show ?thesis using that by (intro run_slab_page) auto
  qed
  have s: "slabs_of node_pool = {0x80800000, 0x80810000}" by (simp add: slabs_of_def node_pool_def)
  show ?thesis
    unfolding kheap_pool_def Let_def run_node_cache
    using run_cache run_free_node pg s
    by (simp add: node_pool_def lock_free_def SPINLOCK_INITIALIZER_def run_mm_def)
qed

lemma run_views:
  "managed run_mm = managed boot_mm" "layout_ok run_mm" "0x81000000 \<in> managed run_mm"
  "prv_of run_mm = (\<lambda>_. 0)(0x81000000 := free_node)" "ord_of run_mm 0x81000000 = 0"
proof -
  have l: "skernel run_mm = skernel boot_mm" "ekernel run_mm = ekernel boot_mm" by (simp_all add: run_mm_def)
  show mg: "managed run_mm = managed boot_mm" by (rule managed_frame [OF l])
  show lay: "layout_ok run_mm"
    using layout_frame [OF l] by (simp add: layout_ok_def boot_layout config_values)
  show m: "0x81000000 \<in> managed run_mm"
    unfolding mg by (simp add: managed_def boot_layout BUDDY_SYSTEM_END_value aligned_to_def take_bit_eq_mask
        mask_eq_exp_minus_1)
  show "ord_of run_mm 0x81000000 = 0" using m by (simp add: ord_of_def) (simp add: run_mm_def)
  show "prv_of run_mm = (\<lambda>_. 0)(0x81000000 := free_node)"
  proof
    fix a
    show "prv_of run_mm a = ((\<lambda>_. 0)(0x81000000 := free_node)) a"
      using m pidx_inj [OF lay _ m, of a]
      by (auto simp: prv_of_def) (auto simp: run_mm_def plain_page_def)
  qed
qed

lemma run_ready: "ready kheap_pool 2000 run_mm"
proof -
  have f: "free_node \<noteq> 0" by (simp add: free_node_def)
  have fl: "free_list run_mm = (\<lambda>_. [])(0 := [free_node])" "blk_start run_mm = (\<lambda>_. 0)(free_node := 0x81000000)"
    "buddy_free_pages run_mm = 1" "hart_ok (cpu run_mm)"
    by (simp_all add: run_mm_def boot_mm_def boot_hart_def hart_ok_def)
  have al: "aligned_to 0 0x81000000" using run_views(3) by (simp add: managed_def)
  have "binv (managed run_mm) (ord_of run_mm) (prv_of run_mm) (blk_start run_mm) (free_list run_mm)"
    unfolding run_views(4) fl
    by (rule binv_intro) (use f al run_views(3,5) in \<open>auto split: if_splits\<close>)
  moreover have "pages_on (free_list run_mm) = 1" using pages_on_upd [of 0 "\<lambda>_. []" "[free_node]"] by (simp add: fl) (simp add: pages_on_def)
  ultimately have "buddy_inv run_mm" using run_views(2) fl by (simp add: buddy_inv_def)
  then show ?thesis using run_pool fl by (auto simp: ready_def intro!: exI [of _ "{free_node}"])
qed

section \<open>The buddy allocator\<close>

text \<open>
  C28: During boot \<^verbatim>\<open>buddy_init\<close> returns 0, keeps the allocator's invariant, leaves every address of
  the region between \<^verbatim>\<open>BUDDY_SYSTEM_BASE\<close> and \<^verbatim>\<open>BUDDY_SYSTEM_END\<close> free and nothing else, and leaves room
  for \<open>n\<close> more list nodes in the early heap; it neither panics nor runs over the early heap.
\<close>

theorem buddy_init_frees_region:
  assumes "boot_ready early_pool (n + 16) st"
  shows "\<exists>t. buddy_init (alloc_mem_block KM) st = Inr (0, t) \<and> ready early_pool n t \<and> buddy_inited t \<and>
    free_memory t = region st BUDDY_SYSTEM_END"
  using early.init_ok [OF assms, of KM] by blast

theorem buddy_init_frees_region_witness:
  "\<exists>t. buddy_init (alloc_mem_block (kmalloc 0)) boot_mm = Inr (0, t) \<and> ready early_pool 100 t \<and> buddy_inited t \<and>
    free_memory t = region boot_mm BUDDY_SYSTEM_END"
  by (rule buddy_init_frees_region) (rule boot_mm_ready, simp)

text \<open>
  C1: In a running system a request between one page and one blob returns without a panic. Either
  the result is \<^verbatim>\<open>NULL\<close>, the free memory is unchanged and no list of the requested order or above has
  a block; or the result is a block aligned to its own size and large enough for the request,
  which was free before, is not free afterwards, and overlaps no block handed out earlier. Every
  block handed out earlier stays handed out, the lock is released and interrupts are as before.
\<close>

theorem buddy_alloc_correct:
  assumes "ready kheap_pool (n + 11) st" and "lock_free (buddy_lock st)"
    and "PAGE_SIZE \<le> sz" and "sz \<le> BUDDY_BLOB_SIZE" and "k = unat (size2order sz)"
  shows "\<exists>a t. buddy_alloc (alloc_mem_block (kmalloc (Suc d))) (free_mem_block (kfree (Suc d))) sz st = Inr (a, t) \<and>
    ready kheap_pool n t \<and> lock_free (buddy_lock t) \<and> cpu t = leave (cpu st) \<and>
    (if a = NULL then free_memory t = free_memory st \<and> (\<forall>j\<ge>k. free_list t j = [])
     else unat sz \<le> 2 ^ (12 + k) \<and> owned t a k \<and> blk k a \<subseteq> free_memory st \<and>
       free_memory t = free_memory st - blk k a) \<and>
    (\<forall>x j. owned st x j \<longrightarrow> owned t x j \<and> (a \<noteq> NULL \<longrightarrow> blk j x \<inter> blk k a = {}))"
proof -
  obtain a t where t: "buddy_alloc (alloc_mem_block (kmalloc (Suc d))) (free_mem_block (kfree (Suc d))) sz st = Inr (a, t)"
      "ready kheap_pool n t" "alloc_result k st a t" "lock_free (buddy_lock t)" "cpu t = leave (cpu st)"
    using kheap.alloc_ok [OF assms(1-4)] assms(5) by blast
  have "owned t x j \<and> (a \<noteq> NULL \<longrightarrow> blk j x \<inter> blk k a = {})" if "owned st x j" for x j
    using alloc_result_owned [OF t(3) that] by blast
  then show ?thesis using t size2order_spec(2) [OF assms(3-5)] unfolding alloc_result_def by auto
qed

theorem buddy_alloc_correct_witness:
  "\<exists>a t. buddy_alloc (alloc_mem_block (kmalloc 1)) (free_mem_block (kfree 1)) 4096 run_mm = Inr (a, t) \<and>
    ready kheap_pool 1989 t \<and> lock_free (buddy_lock t) \<and> cpu t = leave (cpu run_mm) \<and>
    (if a = NULL then free_memory t = free_memory run_mm \<and> (\<forall>j\<ge>0. free_list t j = [])
     else unat (4096 :: u64) \<le> 2 ^ (12 + 0) \<and> owned t a 0 \<and> blk 0 a \<subseteq> free_memory run_mm \<and>
       free_memory t = free_memory run_mm - blk 0 a) \<and>
    (\<forall>x j. owned run_mm x j \<longrightarrow> owned t x j \<and> (a \<noteq> NULL \<longrightarrow> blk j x \<inter> blk 0 a = {}))"
proof -
  have "ready kheap_pool (1989 + 11) run_mm" using run_ready by simp
  moreover have "lock_free (buddy_lock run_mm)"
    by (simp add: run_mm_def boot_mm_def lock_free_def SPINLOCK_INITIALIZER_def)
  moreover have "0 = unat (size2order 4096)"
    by (simp add: size2order_def log2_ceil_def PAGE_SHIFT_def Let_def word_le_nat_alt)
  ultimately show ?thesis
    using buddy_alloc_correct [of 1989 run_mm 4096 0 0] by (simp add: config_values)
qed

text \<open>
  C2: Freeing a block that was handed out returns without a panic, adds exactly this block to the
  free memory, keeps the allocator's invariant and every other block that is handed out, and
  releases the lock.
\<close>

theorem buddy_free_correct:
  assumes "ready kheap_pool (Suc n) st" and "lock_free (buddy_lock st)" and "owned st a k"
  shows "\<exists>t. buddy_free (alloc_mem_block (kmalloc (Suc d))) a st = Inr t \<and> ready kheap_pool n t \<and>
    free_memory t = free_memory st \<union> blk k a \<and> lock_free (buddy_lock t) \<and> cpu t = leave (cpu st) \<and>
    (\<forall>x j. owned st x j \<and> blk j x \<inter> blk k a = {} \<longrightarrow> owned t x j)"
proof -
  obtain t where t: "buddy_free (alloc_mem_block (kmalloc (Suc d))) a st = Inr t" "ready kheap_pool n t"
      "free_memory t = free_memory st \<union> blk k a" "ord_of t = ord_of st" "lock_free (buddy_lock t)"
      "cpu t = leave (cpu st)" "managed t = managed st"
    using kheap.free_ok [OF assms] by blast
  have "owned t x j" if "owned st x j" "blk j x \<inter> blk k a = {}" for x j
    using that t unfolding owned_def by auto
  then show ?thesis using t by auto
qed

lemma run_owned: "owned run_mm 0x82000000 4"
proof -
  have m: "0x82000000 \<in> managed run_mm"
    unfolding run_views(1) by (simp add: managed_def boot_layout BUDDY_SYSTEM_END_value aligned_to_def
        take_bit_eq_mask mask_eq_exp_minus_1)
  have "pidx 0x82000000 \<noteq> pidx 0x81000000" by (simp add: pidx_def)
  then have o: "ord_of run_mm 0x82000000 = 4"
    using m by (simp add: ord_of_def) (simp add: run_mm_def plain_page_def)
  have "aligned_to 4 0x82000000" by (simp add: aligned_to_def take_bit_eq_mask mask_eq_exp_minus_1)
  moreover have "free_memory run_mm = blk 0 0x81000000"
    using run_views(5) by (auto simp: free_memory_def free_mem_def run_views(4) free_node_def)
  moreover have "blk 4 0x82000000 \<inter> blk 0 0x81000000 = {}"
  proof -
    have "blk 0 0x81000000 \<subseteq> blk 4 0x81000000" by (rule blk_mono) simp
    moreover have "drop_bit 16 (0x82000000 :: addr) \<noteq> drop_bit 16 0x81000000"
      by (simp add: drop_bit_eq_div)
    ultimately show ?thesis by (auto simp: blk_def)
  qed
  ultimately show ?thesis using m o by (simp add: owned_def)
qed

theorem buddy_free_correct_witness:
  "\<exists>t. buddy_free (alloc_mem_block (kmalloc 1)) 0x82000000 run_mm = Inr t \<and> ready kheap_pool 1999 t \<and>
    free_memory t = free_memory run_mm \<union> blk 4 0x82000000 \<and> lock_free (buddy_lock t) \<and> cpu t = leave (cpu run_mm) \<and>
    (\<forall>x j. owned run_mm x j \<and> blk j x \<inter> blk 4 0x82000000 = {} \<longrightarrow> owned t x j)"
proof -
  have "ready kheap_pool (Suc 1999) run_mm" using run_ready by simp
  moreover have "lock_free (buddy_lock run_mm)"
    by (simp add: run_mm_def boot_mm_def lock_free_def SPINLOCK_INITIALIZER_def)
  ultimately show ?thesis using buddy_free_correct [OF _ _ run_owned, of 1999 0] by simp
qed

section \<open>The slab allocator\<close>

text \<open>
  C18: While a cache has objects in reserve, an allocation from it returns an object that is not
  allocated, is not \<^verbatim>\<open>NULL\<close> and becomes the only new one; the cache's invariant is kept, its counter of
  free objects goes down by one, its lock is released, and nothing but this cache and its own
  slabs changes.
\<close>

theorem kmem_cache_alloc_fresh:
  assumes "cache_inv c st" and "lock_free (c_lock (kmem st c))" and "hart_ok (cpu st)" and "reserve c st"
  shows "\<exists>a t. kmem_cache_alloc BA c st = Inr (a, t) \<and> a \<noteq> NULL \<and> a \<notin> allocated c st \<and>
    allocated c t = insert a (allocated c st) \<and> cache_inv c t \<and> lock_free (c_lock (kmem t c)) \<and>
    c_free (kmem t c) = c_free (kmem st c) - 1 \<and> only_cache c st t \<and> cpu t = leave (cpu st)"
  using cache_alloc_ok [OF assms, of BA] by blast

lemma run_reserve: "reserve 0x80290110 run_mm" "lock_free (c_lock (kmem run_mm 0x80290110))" "hart_ok (cpu run_mm)"
  unfolding reserve_def run_node_cache
  by (simp_all add: node_pool_def lock_free_def SPINLOCK_INITIALIZER_def)
     (simp add: run_mm_def boot_mm_def boot_hart_def hart_ok_def)

theorem kmem_cache_alloc_fresh_witness:
  "\<exists>a t. kmem_cache_alloc (\<lambda>_ st. Inr (NULL, st)) 0x80290110 run_mm = Inr (a, t) \<and> a \<noteq> NULL \<and>
    a \<notin> allocated 0x80290110 run_mm \<and> allocated 0x80290110 t = insert a (allocated 0x80290110 run_mm) \<and>
    cache_inv 0x80290110 t \<and> lock_free (c_lock (kmem t 0x80290110)) \<and>
    c_free (kmem t 0x80290110) = c_free (kmem run_mm 0x80290110) - 1 \<and> only_cache 0x80290110 run_mm t \<and>
    cpu t = leave (cpu run_mm)"
  by (rule kmem_cache_alloc_fresh [OF run_cache run_reserve(2,3,1)])

text \<open>
  C19: Freeing an allocated object takes exactly this one out of the set of allocated objects, keeps
  the cache's invariant, counts the free objects up by one and releases the lock: a free undoes
  the allocation that returned the object.
\<close>

theorem kmem_cache_free_inverse:
  assumes "cache_inv c st" and "lock_free (c_lock (kmem st c))" and "hart_ok (cpu st)" and "a \<in> allocated c st"
  shows "\<exists>t. kmem_cache_free a st = Inr t \<and> allocated c t = allocated c st - {a} \<and> cache_inv c t \<and>
    lock_free (c_lock (kmem t c)) \<and> unat (c_free (kmem t c)) = Suc (unat (c_free (kmem st c))) \<and>
    only_cache c st t \<and> cpu t = leave (cpu st)"
  using cache_free_ok [OF assms] by force

theorem kmem_cache_free_inverse_witness:
  "\<exists>t. kmem_cache_free free_node run_mm = Inr t \<and>
    allocated 0x80290110 t = allocated 0x80290110 run_mm - {free_node} \<and> cache_inv 0x80290110 t \<and>
    lock_free (c_lock (kmem t 0x80290110)) \<and>
    unat (c_free (kmem t 0x80290110)) = Suc (unat (c_free (kmem run_mm 0x80290110))) \<and>
    only_cache 0x80290110 run_mm t \<and> cpu t = leave (cpu run_mm)"
  by (rule kmem_cache_free_inverse [OF run_cache run_reserve(2,3) run_free_node])

text \<open>
  A second free of an object is recognised by the slab, which stays as it is, but
  \<^verbatim>\<open>kmem_cache_free\<close> counts the cache's free objects up all the same, so the counter no longer agrees
  with the slabs and the invariant is lost.
\<close>

theorem kmem_cache_double_free:
  assumes "cache_inv c st" and "lock_free (c_lock (kmem st c))" and "hart_ok (cpu st)"
    and "s \<in> slabs_of (kmem st c)" and "i < unat (object_num (alloc_size (kmem st c)))"
    and "i \<notin> bmap.used (s_bm (slab_at st s))"
  shows "\<exists>t. kmem_cache_free (obj_addr (kmem st c) s i) st = Inr t \<and> slab_at t = slab_at st \<and>
    c_free (kmem t c) = c_free (kmem st c) + 1 \<and> \<not> cache_inv c t"
  using cache_double_free [OF assms] .

theorem kmem_cache_double_free_witness:
  "\<exists>t. kmem_cache_free (obj_addr (kmem run_mm 0x80290110) 0x80810000 5) run_mm = Inr t \<and> slab_at t = slab_at run_mm \<and>
    c_free (kmem t 0x80290110) = c_free (kmem run_mm 0x80290110) + 1 \<and> \<not> cache_inv 0x80290110 t"
proof (rule kmem_cache_double_free [OF run_cache run_reserve(2,3)])
  show "0x80810000 \<in> slabs_of (kmem run_mm 0x80290110)"
    unfolding run_node_cache by (simp add: slabs_of_def node_pool_def)
  show "5 < unat (object_num (alloc_size (kmem run_mm 0x80290110)))"
    unfolding run_node_cache by (simp add: node_pool_def object_num_24)
  show "5 \<notin> bmap.used (s_bm (slab_at run_mm 0x80810000))"
    by (simp add: run_slabs node_slab_def empty_used)
qed

text \<open>The numbers behind the layout of a slab: the objects, the offset of the first and the size of each.\<close>

definition layout_facts :: "u64 \<Rightarrow> bool" where
  "layout_facts sz \<longleftrightarrow>
     (let asz = (ucast (ALIGN_UP sz 8) :: u32); n = object_num asz; off = slab_offset n (ucast sz)
      in unat asz = unat sz \<and> 0 < unat sz \<and> 0 < unat n \<and> 0 < unat off \<and> unat (sizeof_slab + bitmap_bytes n) \<le> unat off \<and>
         unat off + (unat n - 1) * unat sz < unat SLAB_BLOB_SIZE \<and>
         unat off + unat n * unat sz \<le> unat SLAB_BLOB_SIZE + (if sz = 24 \<or> sz = 48 then 16 else 0) \<and>
         (sz = 24 \<or> sz = 48 \<longrightarrow> unat off + unat n * unat sz = unat SLAB_BLOB_SIZE + 16))"

lemma pool_layout_facts: "list_all layout_facts MEM_OBJ_SIZES"
  by (simp add: layout_facts_def MEM_OBJ_SIZES_def object_num_def slab_offset_def bitmap_bytes_def
      ALIGN_UP_def sizeof_slab_def config_values Let_def)

text \<open>
  C39: The slab that \<^verbatim>\<open>kmem_cache_init\<close> creates for one of the eighteen \<^verbatim>\<open>kmalloc\<close> sizes, when \<^verbatim>\<open>slab_alloc\<close> has been
  called as often as it has objects: the objects start behind the header and the bitmap, lie one
  after the other without overlapping, and all start inside the blob. For every size but 24 and 48 they also end
  inside it; for these two the last one ends 16 bytes past the end of the blob, in memory that belongs to
  another block: \<^verbatim>\<open>object_num\<close> does not account for the rounding of the first object's offset.
\<close>

theorem slab_layout_overrun:
  assumes "sz \<in> set MEM_OBJ_SIZES" and "kmem_cache_init BA c name sz True st = Inr (0, t)"
    and "\<forall>v s u. BA SLAB_BLOB_SIZE v = Inr (s, u) \<longrightarrow> kmem u c = kmem v c"
  shows "\<exists>s as u. slabs_partial (kmem t c) = [s] \<and> slab_fill (unat (s_total (slab_at t s))) s t = Inr (as, u) \<and> as \<noteq> [] \<and>
    unat (sizeof_slab + bitmap_bytes (s_total (slab_at t s))) \<le> unat (hd as - s) \<and>
    (\<forall>i<length as. unat (as ! i - s) = unat (hd as - s) + i * unat sz \<and> unat (as ! i - s) < unat SLAB_BLOB_SIZE) \<and>
    (sz \<noteq> 24 \<and> sz \<noteq> 48 \<longrightarrow> unat (last as - s) + unat sz \<le> unat SLAB_BLOB_SIZE) \<and>
    (sz = 24 \<or> sz = 48 \<longrightarrow> unat (last as - s) + unat sz = unat SLAB_BLOB_SIZE + 16)"
proof -
  define n where "n = object_num (ucast (ALIGN_UP sz 8))"
  define off where "off = unat (slab_offset n (ucast sz))"
  have frame: "\<And>v s u. BA SLAB_BLOB_SIZE v = Inr (s, u) \<Longrightarrow> kmem u c = kmem v c" using assms(3) by blast
  obtain s where s: "slabs_partial (kmem t c) = [s]" "alloc_size (kmem t c) = ucast (ALIGN_UP sz 8)"
    "obj_size (kmem t c) = ucast sz" "s_total (slab_at t s) = n" "s_offset (slab_at t s) = slab_offset n (ucast sz)"
    "filled c s 0 t" "len (s_bm (slab_at t s)) = unat n"
    by (rule kmem_cache_init_slab [OF assms(2) frame, folded n_def]) blast
  let ?k = "kmem t c"
  have f: "unat (alloc_size ?k) = unat sz" "0 < unat n" "unat (sizeof_slab + bitmap_bytes n) \<le> off"
    "off + (unat n - 1) * unat sz < 65536"
    "off + unat n * unat sz \<le> unat SLAB_BLOB_SIZE + (if sz = 24 \<or> sz = 48 then 16 else 0)"
    "sz = 24 \<or> sz = 48 \<longrightarrow> off + unat n * unat sz = unat SLAB_BLOB_SIZE + 16"
    using assms(1) pool_layout_facts
    by (simp_all add: list_all_iff layout_facts_def s(2) n_def off_def Let_def config_values)
  have num: "object_num (alloc_size ?k) = n" by (simp add: s(2) n_def)
  have "0 < unat sz" "0 < off"
    using assms(1) pool_layout_facts by (simp_all add: list_all_iff layout_facts_def n_def off_def Let_def)
  then have g: "geom ?k" using f by (simp add: geom_def num s(3) off_def Let_def)
  let ?as = "map (obj_addr ?k s) [0..<unat n]"
  have "\<exists>u. slab_fill (unat n) s t = Inr (map (\<lambda>i. s + ucast (s_offset (slab_at t s)) + ucast (of_nat i * alloc_size ?k)) [0..<unat n], u)"
    using slab_fill_ok [OF s(6), of "unat n"] s(7) by auto
  moreover have "s + ucast (s_offset (slab_at t s)) + ucast (of_nat i * alloc_size ?k) = obj_addr ?k s i" if "i < unat n" for i
    using obj_addr_word [OF g, of i s] that by (simp add: num s(3,5))
  ultimately obtain u where fill: "slab_fill (unat n) s t = Inr (?as, u)"
    by (metis (no_types, lifting) atLeastLessThan_iff map_cong set_upt)
  have at: "unat (obj_addr ?k s i - s) = off + i * unat sz" "off + i * unat sz < 65536" if "i < unat n" for i
  proof -
    show b: "off + i * unat sz < 65536" using obj_bound [OF g, of i] that by (simp add: num s(3) f(1) off_def)
    show "unat (obj_addr ?k s i - s) = off + i * unat sz"
      using b by (simp add: obj_addr_def num s(3) f(1) off_def unat_of_nat_small flip: of_nat_mult of_nat_add)
  qed
  have ends: "hd ?as = obj_addr ?k s 0" "last ?as = obj_addr ?k s (unat n - 1)"
    using f(2) unat_gt_0 [of n] by (simp_all add: hd_map last_map del: unat_gt_0)
  have "off + (unat n - 1) * unat sz + unat sz = off + unat n * unat sz" using f(2) by (cases "unat n") simp_all
  then have "unat (last ?as - s) + unat sz = off + unat n * unat sz" using at(1) [of "unat n - 1"] f(2) ends(2) by simp
  then show ?thesis
    using s(1,4) fill f at ends(1)
    by (intro exI [of _ s] exI [of _ ?as] exI [of _ u]) (auto simp: config_values)
qed

text \<open>A cache for 24 bytes at boot, on a blob at the start of the memory that the buddy allocator manages.\<close>

theorem slab_layout_overrun_witness:
  "\<exists>t s as u. kmem_cache_init (\<lambda>_ v. Inr (0x80800000, v)) 0x80290000 ''kmalloc-24'' 24 True run_mm = Inr (0, t) \<and>
     slabs_partial (kmem t 0x80290000) = [s] \<and> slab_fill (unat (s_total (slab_at t s))) s t = Inr (as, u) \<and>
     unat (last as - s) + 24 = 65552"
proof -
  let ?BA = "\<lambda>_ v. Inr (0x80800000, v) :: (addr \<times> mm) res"
  have page: "\<exists>pg. addr2page (q + 0x80800000) = Some pg" "q < q + PAGE_SIZE" if "q < SLAB_BLOB_SIZE" for q
  proof -
    have q: "unat q < 65536" using that by (simp add: config_values word_less_nat_alt)
    have "unat (q + 0x80800000) = unat q + 0x80800000" using q by (simp add: unat_word_ariths)
    then show "\<exists>pg. addr2page (q + 0x80800000) = Some pg" using q by (simp add: addr2page_unat)
    show "q < q + PAGE_SIZE" using q by (simp add: config_values word_less_nat_alt unat_word_ariths)
  qed
  have "\<exists>w q. mark_slab_pages Null_Deref f 0x80800000 st = Inr (0, w) \<and> \<not> q < SLAB_BLOB_SIZE \<and> True" for f st
    unfolding mark_slab_pages_def by (rule for_addr_total) (use page in \<open>auto split: option.split\<close>)
  then have "\<exists>w. slab_init c 0x80800000 st = Inr w" for c st by (simp add: slab_init_def Let_def) (metis prod.case rbind_Inr)
  moreover have "buddy_inited (upd_cache c f run_mm)" for c f by (simp add: upd_cache_def run_mm_def)
  ultimately have "\<exists>t. kmem_cache_init ?BA 0x80290000 ''kmalloc-24'' 24 True run_mm = Inr (0, t)"
    by (simp add: kmem_cache_init_def Let_def) (metis rbind_Inr)
  then obtain t where t: "kmem_cache_init ?BA 0x80290000 ''kmalloc-24'' 24 True run_mm = Inr (0, t)" by blast
  have "24 \<in> set MEM_OBJ_SIZES" by (simp add: MEM_OBJ_SIZES_def)
  from slab_layout_overrun [OF this t] show ?thesis using t by (auto simp: config_values)
qed

text \<open>
  \<^verbatim>\<open>kmem_cache_flush\<close> of a cache below its high mark returns with the cache's lock held, so the
  next flush of the same cache panics.
\<close>

theorem kmem_cache_flush_keeps_lock:
  assumes "c \<noteq> NULL" and "lock_free (c_lock (kmem st c))" and "c_free (kmem st c) < ucast (high (kmem st c))"
  shows "\<exists>t. kmem_cache_flush c st = Inr t \<and> spinlock_holding (cpu t) (c_lock (kmem t c)) \<and>
    kmem_cache_flush c t = Inl (Panic ''recursive lock acquire'')"
proof -
  let ?h = "hold (cpu st) (c_lock (kmem st c))"
  let ?t = "with_lock c (intr_off (cpu st)) ?h st"
  have "kmem_cache_flush c st = Inr ?t"
    using assms acquire_free [OF assms(2), of "cpu st"]
    by (simp add: kmem_cache_flush_def cache_acquire_alt) (simp add: with_lock_def upd_cache_def)
  moreover have "spinlock_acquire (intr_off (cpu st), ?h) = Inl (Panic ''recursive lock acquire'')"
    by (simp add: spinlock_acquire_def hold_def)
  ultimately show ?thesis using assms(1) by (intro exI [of _ ?t]) (simp add: kmem_cache_flush_def cache_acquire_alt)
qed

theorem kmem_cache_flush_keeps_lock_witness:
  "\<exists>t. kmem_cache_flush 0x80290110 run_mm = Inr t \<and> spinlock_holding (cpu t) (c_lock (kmem t 0x80290110)) \<and>
    kmem_cache_flush 0x80290110 t = Inl (Panic ''recursive lock acquire'')"
proof (rule kmem_cache_flush_keeps_lock [OF _ run_reserve(2)])
  show "c_free (kmem run_mm 0x80290110) < ucast (high (kmem run_mm 0x80290110))"
    unfolding run_node_cache by (simp add: node_pool_def)
qed simp

text \<open>
  A request of at most 4096 bytes is served from the smallest size class that holds it.
\<close>

theorem kmalloc_size_class:
  assumes "sz \<le> KALLOC_MAX_MEM_OBJ_SIZE"
  shows "size2index sz < KALLOC_MEM_POOL_NUM \<and> sz \<le> MEM_OBJ_SIZES ! size2index sz \<and>
    (\<forall>m < size2index sz. MEM_OBJ_SIZES ! m < sz)"
  using size2index_ok [OF assms] by blast

theorem kmalloc_size_class_witness:
  "size2index 100 = 7 \<and> 100 \<le> MEM_OBJ_SIZES ! 7 \<and> MEM_OBJ_SIZES ! 6 < 100"
proof -
  have e: "size2index 100 = 7" by (simp add: size2index_def MEM_OBJ_SIZES_def)
  have "100 \<le> KALLOC_MAX_MEM_OBJ_SIZE"
    by (simp add: KALLOC_MAX_MEM_OBJ_SIZE_def KALLOC_MEM_POOL_NUM_def MEM_OBJ_SIZES_def)
  from kmalloc_size_class [OF this] show ?thesis by (simp add: e)
qed

end
