(* ===== verification/Klist.thy ===== *)
theory Klist
  imports Kernel_Prelude
begin

text \<open>
  The circular doubly-linked lists of \<^verbatim>\<open>include/misc/list.h\<close> on an explicit memory of
  \<^verbatim>\<open>next\<close> and \<^verbatim>\<open>prev\<close> pointers, with every store in the order of the source. \<open>list_rep\<close>
  relates a head node to the HOL list of its members; the lemmas show that each operation
  acts on that list as its name says and leaves other lists alone. The other theories hold
  kernel lists as HOL lists of node addresses on the strength of these lemmas.
\<close>

section \<open>Operations\<close>

record list_mem =
  nxt :: "addr \<Rightarrow> addr"
  prv :: "addr \<Rightarrow> addr"

definition set_next :: "addr \<Rightarrow> addr \<Rightarrow> list_mem \<Rightarrow> list_mem" where
  "set_next a v h = h\<lparr>nxt := (nxt h)(a := v)\<rparr>"

definition set_prev :: "addr \<Rightarrow> addr \<Rightarrow> list_mem \<Rightarrow> list_mem" where
  "set_prev a v h = h\<lparr>prv := (prv h)(a := v)\<rparr>"

definition INIT_LIST_HEAD :: "addr \<Rightarrow> list_mem \<Rightarrow> list_mem" where
  "INIT_LIST_HEAD head h =
     (let h = set_next head head h
      in set_prev head head h)"

definition list_empty :: "addr \<Rightarrow> list_mem \<Rightarrow> bool" where
  "list_empty head h \<longleftrightarrow> nxt h head = head"

definition list_add_between :: "addr \<Rightarrow> addr \<Rightarrow> addr \<Rightarrow> list_mem \<Rightarrow> list_mem" where
  "list_add_between new prev next h =
     (let h = set_prev next new h;
          h = set_next new next h;
          h = set_prev new prev h
      in set_next prev new h)"

definition list_add :: "addr \<Rightarrow> addr \<Rightarrow> list_mem \<Rightarrow> list_mem" where
  "list_add new head h = list_add_between new head (nxt h head) h"

definition list_add_tail :: "addr \<Rightarrow> addr \<Rightarrow> list_mem \<Rightarrow> list_mem" where
  "list_add_tail new head h = list_add_between new (prv h head) head h"

definition list_del_between :: "addr \<Rightarrow> addr \<Rightarrow> list_mem \<Rightarrow> list_mem" where
  "list_del_between prev next h =
     (let h = set_prev next prev h
      in set_next prev next h)"

definition list_del :: "addr \<Rightarrow> list_mem \<Rightarrow> list_mem" where
  "list_del entry h = list_del_between (prv h entry) (nxt h entry) h"

definition list_move :: "addr \<Rightarrow> addr \<Rightarrow> list_mem \<Rightarrow> list_mem" where
  "list_move new head h =
     (let h = list_del new h
      in list_add new head h)"

text \<open>
  The traversals \<^verbatim>\<open>list_for_each\<close> and \<^verbatim>\<open>list_for_each_entry_reverse\<close>, as the sequence of
  nodes they visit. On a corrupt list they need not end, which is \<open>None\<close>.
\<close>

partial_function (option) list_walk :: "addr \<Rightarrow> addr \<Rightarrow> list_mem \<Rightarrow> addr list option" where
  "list_walk head pos h =
     (if pos = head then Some []
      else Option.bind (list_walk head (nxt h pos) h) (\<lambda>ps. Some (pos # ps)))"

definition list_for_each :: "addr \<Rightarrow> list_mem \<Rightarrow> addr list option" where
  "list_for_each head h = list_walk head (nxt h head) h"

partial_function (option) list_walk_reverse :: "addr \<Rightarrow> addr \<Rightarrow> list_mem \<Rightarrow> addr list option" where
  "list_walk_reverse head pos h =
     (if pos = head then Some []
      else Option.bind (list_walk_reverse head (prv h pos) h) (\<lambda>ps. Some (pos # ps)))"

definition list_for_each_reverse :: "addr \<Rightarrow> list_mem \<Rightarrow> addr list option" where
  "list_for_each_reverse head h = list_walk_reverse head (prv h head) h"

lemmas list_ops_defs = INIT_LIST_HEAD_def list_add_between_def list_add_def list_add_tail_def
  list_del_between_def list_del_def list_move_def set_next_def set_prev_def Let_def

section \<open>The list a head represents\<close>

fun links :: "list_mem \<Rightarrow> addr \<Rightarrow> addr list \<Rightarrow> addr \<Rightarrow> bool" where
  "links h a [] b \<longleftrightarrow> nxt h a = b \<and> prv h b = a"
| "links h a (x # xs) b \<longleftrightarrow> nxt h a = x \<and> prv h x = a \<and> links h x xs b"

definition list_rep :: "list_mem \<Rightarrow> addr \<Rightarrow> addr list \<Rightarrow> bool" where
  "list_rep h head xs \<longleftrightarrow> distinct (head # xs) \<and> links h head xs head"

lemma links_append: "links h a (xs @ y # ys) b \<longleftrightarrow> links h a xs y \<and> links h y ys b"
  by (induction xs arbitrary: a) auto

lemma links_cong:
  assumes "\<And>n. n \<in> insert a (set xs) \<Longrightarrow> nxt h' n = nxt h n"
    and "\<And>n. n \<in> insert b (set xs) \<Longrightarrow> prv h' n = prv h n"
  shows "links h' a xs b \<longleftrightarrow> links h a xs b"
  using assms by (induction xs arbitrary: a) auto

lemma links_next: "links h a xs b \<Longrightarrow> nxt h a = (case xs of [] \<Rightarrow> b | x # _ \<Rightarrow> x)"
  by (cases xs) auto

lemma links_prev: "links h a xs b \<Longrightarrow> prv h b = (if xs = [] then a else last xs)"
  by (induction xs arbitrary: a) auto

lemma list_rep_frame:
  assumes "list_rep h head xs"
    and "\<And>n. n \<in> set (head # xs) \<Longrightarrow> nxt h' n = nxt h n \<and> prv h' n = prv h n"
  shows "list_rep h' head xs"
  using assms links_cong [of head xs h' h head] by (auto simp: list_rep_def)

lemma list_rep_init: "list_rep (INIT_LIST_HEAD head h) head []"
  by (simp add: list_rep_def list_ops_defs)

lemma list_rep_empty: "list_rep h head xs \<Longrightarrow> list_empty head h \<longleftrightarrow> xs = []"
  by (cases xs) (auto simp: list_rep_def list_empty_def)

lemma list_rep_first: "list_rep h head (x # xs) \<Longrightarrow> nxt h head = x"
  by (simp add: list_rep_def)

lemma nxt_add_between:
  "nxt (list_add_between new a b h) n = (if n = a then new else if n = new then b else nxt h n)"
  by (simp add: list_ops_defs)

lemma prv_add_between:
  "prv (list_add_between new a b h) n = (if n = new then a else if n = b then new else prv h n)"
  by (simp add: list_ops_defs)

text \<open>Linking a new node between two neighbours \<open>a\<close> and the first of \<open>ys @ [b]\<close>.\<close>

lemma list_add_between_links:
  assumes rep: "list_rep h head (xs @ ys)" and new: "new \<notin> set (head # xs @ ys)"
    and a: "a = (if xs = [] then head else last xs)" and b: "b = hd (ys @ [head])"
  shows "list_rep (list_add_between new a b h) head (xs @ new # ys)"
proof -
  let ?h = "list_add_between new a b h"
  have dist: "distinct (head # xs @ new # ys)" using rep new by (auto simp: list_rep_def)
  note nxt = nxt_add_between and prv = prv_add_between
  have "links h head (xs @ ys) head" using rep by (simp add: list_rep_def)
  then have "links ?h head xs new \<and> links ?h new ys head"
  proof (cases ys)
    case Nil
    with \<open>links h head (xs @ ys) head\<close> have l: "links h head xs head" by simp
    show ?thesis
    proof (cases xs rule: rev_cases)
      case Nil
      with \<open>ys = []\<close> a b new show ?thesis by (auto simp: nxt prv)
    next
      case (snoc us u)
      have "links ?h head us u \<longleftrightarrow> links h head us u"
        using snoc dist a b \<open>ys = []\<close> by (intro links_cong) (auto simp: nxt prv)
      moreover have "links h head us u" using l by (simp add: snoc links_append)
      ultimately show ?thesis using snoc \<open>ys = []\<close> a b new by (auto simp: links_append nxt prv)
    qed
  next
    case (Cons y zs)
    with \<open>links h head (xs @ ys) head\<close> have l: "links h head xs y" "links h y zs head"
      by (auto simp: links_append)
    have b': "b = y" using b Cons by simp
    have "a \<in> set (head # xs)" using a by auto
    then have "a \<notin> set (y # zs) \<and> a \<noteq> new" using Cons dist by auto
    then have "links ?h y zs head \<longleftrightarrow> links h y zs head"
      using Cons dist b' by (intro links_cong) (auto simp: nxt prv)
    then have right: "links ?h new ys head" using l(2) Cons dist a b' by (auto simp: nxt prv)
    have left: "links ?h head xs new"
    proof (cases xs rule: rev_cases)
      case Nil
      then show ?thesis using a by (simp add: nxt prv)
    next
      case (snoc us u)
      have "links ?h head us u \<longleftrightarrow> links h head us u"
        using snoc dist a b' Cons by (intro links_cong) (auto simp: nxt prv)
      moreover have "links h head us u" using l(1) by (simp add: snoc links_append)
      ultimately show ?thesis using snoc a new by (auto simp: links_append nxt prv)
    qed
    from left right show ?thesis by simp
  qed
  with dist show ?thesis by (simp add: list_rep_def links_append)
qed

lemma list_rep_last: "list_rep h head xs \<Longrightarrow> prv h head = (if xs = [] then head else last xs)"
  using links_prev [of h head xs head] by (simp add: list_rep_def)

lemma list_rep_hd: "list_rep h head xs \<Longrightarrow> nxt h head = hd (xs @ [head])"
  by (cases xs) (auto simp: list_rep_def)

lemma list_add_rep:
  assumes "list_rep h head xs" and "new \<notin> set (head # xs)"
  shows "list_rep (list_add new head h) head (new # xs)"
  using list_add_between_links [of h head "[]" xs new head "nxt h head"] assms
  by (simp add: list_add_def list_rep_hd)

lemma list_add_tail_rep:
  assumes "list_rep h head xs" and "new \<notin> set (head # xs)"
  shows "list_rep (list_add_tail new head h) head (xs @ [new])"
  using list_add_between_links [of h head xs "[]" new "prv h head" head] assms
  by (simp add: list_add_tail_def list_rep_last)

text \<open>Unlinking.\<close>

lemma links_neighbours:
  assumes "links h head (us @ e # vs) head"
  shows "prv h e = (if us = [] then head else last us)" and "nxt h e = hd (vs @ [head])"
  using assms links_prev [of h head us e] links_next [of h e vs head]
  by (auto simp: links_append split: list.splits)

lemma list_del_rep:
  assumes rep: "list_rep h head (us @ e # vs)"
  shows "list_rep (list_del e h) head (us @ vs)"
proof -
  have l: "links h head us e" "links h e vs head" and dist: "distinct (head # us @ e # vs)"
    using rep by (auto simp: list_rep_def links_append)
  define a b where "a = (if us = [] then head else last us)" and "b = hd (vs @ [head])"
  have ab: "prv h e = a" "nxt h e = b"
    using links_neighbours [of h head us e vs] rep by (auto simp: a_def b_def list_rep_def)
  have nxt: "nxt (list_del e h) n = (if n = a then b else nxt h n)"
    and prv: "prv (list_del e h) n = (if n = b then a else prv h n)" for n
    by (auto simp: list_del_def list_del_between_def set_next_def set_prev_def Let_def ab)
  have "links (list_del e h) head us b"
  proof (cases us rule: rev_cases)
    case Nil
    then show ?thesis by (simp add: nxt prv a_def)
  next
    case (snoc ws w)
    have "links (list_del e h) head ws w \<longleftrightarrow> links h head ws w"
      using snoc dist by (intro links_cong)
        (auto simp: nxt prv a_def b_def hd_append dest: hd_in_set split: if_splits)
    then show ?thesis using l(1) snoc by (auto simp: links_append nxt prv a_def)
  qed
  then have "links (list_del e h) head (us @ vs) head"
  proof (cases vs)
    case (Cons v zs)
    have "links (list_del e h) v zs head \<longleftrightarrow> links h v zs head"
      using Cons dist by (intro links_cong)
        (auto simp: nxt prv a_def b_def dest: last_in_set split: if_splits)
    then show ?thesis
      using \<open>links (list_del e h) head us b\<close> l(2) Cons by (auto simp: links_append b_def)
  qed (simp add: b_def)
  with dist show ?thesis by (simp add: list_rep_def)
qed

lemma list_del_twice: "nxt h e \<noteq> e \<Longrightarrow> prv h e \<noteq> e \<Longrightarrow> list_del e (list_del e h) = list_del e h"
  by (simp add: list_del_def list_del_between_def set_next_def set_prev_def Let_def)

text \<open>Operations on one list keep every list that shares no node with it.\<close>

lemma list_add_frame:
  assumes "list_rep h head xs" and "list_rep h other ys"
    and "set (other # ys) \<inter> set (new # head # xs) = {}"
  shows "list_rep (list_add new head h) other ys" and "list_rep (list_add_tail new head h) other ys"
proof -
  have ends: "nxt h head \<in> set (head # xs)" "prv h head \<in> set (head # xs)"
    using assms(1) by (auto simp: list_rep_hd list_rep_last hd_append dest: last_in_set)
  show "list_rep (list_add new head h) other ys"
    using assms(3) ends by (intro list_rep_frame [OF assms(2)]) (auto simp: list_ops_defs)
  show "list_rep (list_add_tail new head h) other ys"
    using assms(3) ends by (intro list_rep_frame [OF assms(2)]) (auto simp: list_ops_defs)
qed

lemma list_del_frame:
  assumes "list_rep h head (us @ e # vs)" and "list_rep h other ys"
    and "set (other # ys) \<inter> set (head # us @ e # vs) = {}"
  shows "list_rep (list_del e h) other ys"
proof -
  have "prv h e \<in> set (head # us)" "nxt h e \<in> set (head # vs)"
    using links_neighbours [of h head us e vs] assms(1)
    by (auto simp: list_rep_def hd_append dest: last_in_set)
  then show ?thesis
    using assms(3) by (intro list_rep_frame [OF assms(2)]) (auto simp: list_ops_defs)
qed

section \<open>Traversal\<close>

lemma list_walk_links:
  assumes "links h a xs head" and "head \<notin> set xs"
  shows "list_walk head (nxt h a) h = Some xs"
  using assms
proof (induction xs arbitrary: a)
  case Nil
  then show ?case by (simp add: list_walk.simps [of head head])
next
  case (Cons x xs)
  then show ?case by (auto simp: list_walk.simps [of head x])
qed

lemma list_for_each_rep: "list_rep h head xs \<Longrightarrow> list_for_each head h = Some xs"
  using list_walk_links [of h head xs head] by (simp add: list_rep_def list_for_each_def)

lemma list_walk_reverse_links:
  assumes "links h head xs b" and "head \<notin> set xs"
  shows "list_walk_reverse head (prv h b) h = Some (rev xs)"
  using assms
proof (induction xs arbitrary: b rule: rev_induct)
  case Nil
  then show ?case by (simp add: list_walk_reverse.simps [of head head])
next
  case (snoc x xs)
  then have "prv h b = x" "links h head xs x" by (auto simp: links_append)
  with snoc show ?case by (auto simp: list_walk_reverse.simps [of head x])
qed

lemma list_for_each_reverse_rep: "list_rep h head xs \<Longrightarrow> list_for_each_reverse head h = Some (rev xs)"
  using list_walk_reverse_links [of h head xs head] by (simp add: list_rep_def list_for_each_reverse_def)

end
