(* ===== verification/Foundation_Properties.thy ===== *)
theory Foundation_Properties
  imports Align_Math Bitmap Klist Spinlock
begin

text \<open>
  The properties of the helper layers: integer and address arithmetic, bitmaps, intrusive lists and
  spinlocks, each with a concrete instance.
\<close>

section \<open>Spinlocks\<close>

text \<open>
  C3: However any number of harts interleave the memory accesses of \<^verbatim>\<open>spinlock_acquire\<close> and
  \<^verbatim>\<open>spinlock_release\<close> on one lock, at most one of them is in the critical section, it runs with
  interrupts disabled and is the recorded owner, and no hart ever reaches one of the panics.
\<close>

theorem spinlock_mutual_exclusion:
  assumes "lock_reachable s"
  shows "(\<forall>i j. phase_of s i = Crit \<longrightarrow> phase_of s j = Crit \<longrightarrow> i = j) \<and>
    (\<forall>i. phase_of s i = Crit \<longrightarrow> \<not> bit (sstatus (hart_of s i)) 1 \<and> owner (the_lock s) = i) \<and>
    (\<forall>i. phase_of s i \<noteq> Dead)"
proof -
  have inv: "lock_inv s" by (rule lock_reachable_inv [OF assms])
  then have w: "word_inv (phase_of s) (the_lock s)" and h: "\<And>i. hart_inv i (phase_of s i) (hart_of s i)"
    by (auto simp: lock_inv_def)
  have "i = j" if "phase_of s i = Crit" "phase_of s j = Crit" for i j
    using word_inv_holder(2) [OF w, of i j] that by (auto simp: holds_word_def)
  moreover have "\<not> bit (sstatus (hart_of s i)) 1" "owner (the_lock s) = i" if "phase_of s i = Crit" for i
    using h [of i] that word_inv_crit [OF w that] by (auto simp: hart_inv_def)
  moreover have "phase_of s i \<noteq> Dead" for i using h [of i] by (simp add: hart_inv_def)
  ultimately show ?thesis by blast
qed

definition calm_hart :: "u64 \<Rightarrow> hart" where
  "calm_hart i = \<lparr>tp = i, sstatus = SSTATUS_SIE, intr_state = 0, intr_depth = 0\<rparr>"

definition calm_sys :: lock_sys where
  "calm_sys = \<lparr>phase_of = (\<lambda>_. Idle), hart_of = calm_hart, the_lock = SPINLOCK_INITIALIZER ''l''\<rparr>"

definition want_sys :: lock_sys where
  "want_sys = goto_phase 0 Want (set_hart 0 (intr_off (calm_hart 0)) calm_sys)"

definition got_sys :: lock_sys where
  "got_sys = goto_phase 0 Got (want_sys\<lparr>the_lock := (the_lock want_sys)\<lparr>locked := 1\<rparr>\<rparr>)"

definition crit_sys :: lock_sys where
  "crit_sys = goto_phase 0 Crit (got_sys\<lparr>the_lock := (the_lock got_sys)\<lparr>owner := 0\<rparr>\<rparr>)"

lemma crit_sys_reachable: "lock_reachable crit_sys" "phase_of crit_sys 0 = Crit"
proof -
  have "lock_init calm_sys"
    by (simp add: lock_init_def calm_sys_def calm_hart_def SPINLOCK_INITIALIZER_def lock_free_def)
  then have 0: "lock_reachable calm_sys" by (rule lock_reachable.start)
  have "lock_step calm_sys want_sys"
    using begin_acquire [of 0 calm_sys] by (simp add: want_sys_def calm_sys_def SPINLOCK_INITIALIZER_def)
  then have 1: "lock_reachable want_sys" by (rule lock_reachable.step [OF 0])
  have "lock_step want_sys got_sys"
    using exchange_ok [of want_sys 0]
    by (simp add: got_sys_def want_sys_def calm_sys_def SPINLOCK_INITIALIZER_def goto_phase_def set_hart_def)
  then have 2: "lock_reachable got_sys" by (rule lock_reachable.step [OF 1])
  have "lock_step got_sys crit_sys"
    using set_owner [of got_sys 0] by (simp add: crit_sys_def got_sys_def goto_phase_def)
  then show "lock_reachable crit_sys" by (rule lock_reachable.step [OF 2])
  show "phase_of crit_sys 0 = Crit" by (simp add: crit_sys_def goto_phase_def)
qed

theorem spinlock_mutual_exclusion_witness:
  "phase_of crit_sys 0 = Crit \<and> phase_of crit_sys 1 \<noteq> Crit \<and> \<not> bit (sstatus (hart_of crit_sys 0)) 1"
  using spinlock_mutual_exclusion [OF crit_sys_reachable(1)] crit_sys_reachable(2)
  by (metis zero_neq_one)

text \<open>
  On one hart, acquiring a free lock and releasing it again leaves the lock free and the hart
  as it was, except for the saved copy of \<^verbatim>\<open>sstatus\<close>; in between the hart holds the lock with
  interrupts disabled, and a second acquire of the held lock is caught.
\<close>

theorem spinlock_acquire_release:
  assumes "hart_ok c" and "lock_free lk"
  shows "spinlock_acquire (c, lk) = Inr (intr_off c, hold c lk) \<and>
    spinlock_holding (intr_off c) (hold c lk) \<and>
    (intr_depth c = 0 \<longrightarrow> \<not> bit (sstatus (intr_off c)) 1) \<and>
    spinlock_acquire (intr_off c, hold c lk) = Inl (Panic ''recursive lock acquire'') \<and>
    spinlock_release (intr_off c, hold c lk) = Inr (leave c, unhold lk) \<and>
    sstatus (leave c) = sstatus c \<and> intr_depth (leave c) = intr_depth c"
proof -
  have "spinlock_acquire (intr_off c, hold c lk) = Inl (Panic ''recursive lock acquire'')"
    by (simp add: spinlock_acquire_def hold_def)
  moreover have "sstatus (leave c) = sstatus c \<and> intr_depth (leave c) = intr_depth c" by (simp add: leave_def)
  moreover have "intr_depth c = 0 \<longrightarrow> \<not> bit (sstatus (intr_off c)) 1" using SIE_cleared by blast
  ultimately show ?thesis using assms by (simp add: lock_simps)
qed

theorem spinlock_acquire_release_witness:
  "spinlock_release (intr_off (calm_hart 3), hold (calm_hart 3) (SPINLOCK_INITIALIZER ''l'')) =
     Inr (leave (calm_hart 3), unhold (SPINLOCK_INITIALIZER ''l'')) \<and> sstatus (leave (calm_hart 3)) = SSTATUS_SIE"
  using spinlock_acquire_release [of "calm_hart 3" "SPINLOCK_INITIALIZER ''l''"]
  by (simp add: hart_ok_def calm_hart_def lock_free_def SPINLOCK_INITIALIZER_def)

section \<open>Intrusive lists\<close>

text \<open>
  C11: The pointer operations of \<^verbatim>\<open>list.h\<close> refine operations on sequences: on memory that represents
  a list with element \<open>e\<close>, a traversal after \<^verbatim>\<open>list_add\<close>, \<^verbatim>\<open>list_add_tail\<close>, \<^verbatim>\<open>list_del\<close> and \<^verbatim>\<open>list_move\<close>
  ends and visits exactly the nodes of the list with the new node in front, at the end, with \<open>e\<close>
  removed and with \<open>e\<close> in front; the reverse traversal visits them in reverse.
\<close>

theorem klist_refines_sequences:
  assumes "list_rep h head (us @ e # vs)" and "new \<notin> set (head # us @ e # vs)"
  shows "list_for_each head (list_add new head h) = Some (new # us @ e # vs) \<and>
    list_for_each head (list_add_tail new head h) = Some (us @ e # vs @ [new]) \<and>
    list_for_each head (list_del e h) = Some (us @ vs) \<and>
    list_for_each head (list_move e head h) = Some (e # us @ vs) \<and>
    list_for_each_reverse head h = Some (rev (us @ e # vs)) \<and>
    (list_empty head (list_del e h) \<longleftrightarrow> us @ vs = [])"
proof -
  have d: "list_rep (list_del e h) head (us @ vs)" by (rule list_del_rep [OF assms(1)])
  have "e \<notin> set (head # us @ vs)" using assms(1) by (auto simp: list_rep_def)
  then have "list_rep (list_move e head h) head (e # us @ vs)"
    unfolding list_move_def Let_def by (rule list_add_rep [OF d])
  then show ?thesis
    using list_for_each_rep [OF list_add_rep [OF assms]] list_for_each_rep [OF list_add_tail_rep [OF assms]]
      list_for_each_rep [OF d] list_for_each_rep list_for_each_reverse_rep [OF assms(1)] list_rep_empty [OF d]
    by simp
qed

definition two_nodes :: list_mem where
  "two_nodes = list_add_tail 24 8 (list_add_tail 16 8 (INIT_LIST_HEAD 8 \<lparr>nxt = (\<lambda>_. 0), prv = (\<lambda>_. 0)\<rparr>))"

theorem klist_refines_sequences_witness:
  "list_for_each 8 (list_add_tail 32 8 two_nodes) = Some [16, 24, 32] \<and>
   list_for_each 8 (list_del 24 two_nodes) = Some [16] \<and> list_for_each 8 (list_move 24 8 two_nodes) = Some [24, 16]"
proof -
  let ?m = "\<lparr>nxt = (\<lambda>_. 0), prv = (\<lambda>_. 0)\<rparr>"
  have "list_rep (INIT_LIST_HEAD 8 ?m) 8 []" by (rule list_rep_init)
  then have "list_rep (list_add_tail 16 8 (INIT_LIST_HEAD 8 ?m)) 8 ([] @ [16])" by (rule list_add_tail_rep) simp
  then have "list_rep two_nodes 8 (([] @ [16]) @ [24])" unfolding two_nodes_def by (rule list_add_tail_rep) simp
  then show ?thesis using klist_refines_sequences [of two_nodes 8 "[16]" 24 "[]" 32] by simp
qed

section \<open>Bitmaps\<close>

text \<open>
  Setting a bit of a bitmap sets that bit and no other, and a search for a clear bit from a
  byte boundary returns the least clear position at or after the start, or the length when there is
  none.
\<close>

theorem bitmap_search_and_set:
  assumes "8 dvd i" and "tail_clear bm" and "k < len bm"
  shows "least_from (\<lambda>j. \<not> bm_bit bm j) i (len bm) (bitmap_find_next_clear bm i) \<and>
    (\<forall>j. bm_bit (bitmap_set bm k) j \<longleftrightarrow> j = k \<or> bm_bit bm j) \<and>
    (\<forall>j. bm_bit (bitmap_clear bm k) j \<longleftrightarrow> j \<noteq> k \<and> bm_bit bm j)"
  using bitmap_find_next_clear_least [OF assms(1,2)] bmap.get_take [OF assms(3)] bmap.get_free [OF assms(3)] by blast

theorem bitmap_search_and_set_witness:
  "bitmap_find_next_clear \<lparr>data = (\<lambda>_. 0)(0 := 7), len = 10\<rparr> 0 = 3 \<and>
   least_from (\<lambda>j. \<not> bm_bit \<lparr>data = (\<lambda>_. 0)(0 := 7), len = 10\<rparr> j) 0 10 3"
proof -
  let ?b = "\<lparr>data = (\<lambda>_. 0)(0 := 7), len = 10\<rparr>"
  have e: "bitmap_find_next_clear ?b 0 = 3"
    by (simp add: bitmap_find_next_clear_def Let_def low_bit_loop.simps drop_bit_eq_div)
  have "tail_clear ?b" by (simp add: tail_clear_def bm_bit_def)
  then show ?thesis using bitmap_search_and_set [of 0 ?b 1] by (simp add: e)
qed

text \<open>
  From a start inside a byte, \<^verbatim>\<open>bitmap_find_next_set\<close> reports a set bit of that byte too high by
  the start's offset in the byte: the offset is added to a position that already counts it.
\<close>

theorem bitmap_find_unaligned_start:
  assumes "i < len bm" and "bm_bit bm p" and "i \<le> p" and "p div 8 = i div 8"
    and "\<And>j. i \<le> j \<Longrightarrow> j < p \<Longrightarrow> \<not> bm_bit bm j"
  shows "bitmap_find_next_set bm i = p + i mod 8"
  using find_next_set_unaligned [OF assms(1-4)] assms(5) by blast

theorem bitmap_find_unaligned_start_witness:
  "bitmap_find_next_set \<lparr>data = (\<lambda>_. 0)(0 := 8), len = 16\<rparr> 2 = 5"
proof -
  let ?b = "\<lparr>data = (\<lambda>_. 0)(0 := 8 :: u8), len = 16\<rparr>"
  have b: "bm_bit ?b j \<longleftrightarrow> j = 3" if "j < 8" for j
    using that bit_exp_iff [of 3 j, where ?'a = "8 word"] by (auto simp: bm_bit_def)
  have "bitmap_find_next_set ?b 2 = 3 + 2 mod 8"
    by (rule bitmap_find_unaligned_start) (auto simp: b)
  then show ?thesis by simp
qed

section \<open>Arithmetic\<close>

text \<open>
  \<^verbatim>\<open>log2_ceil\<close> of a nonzero size is the least exponent whose power of two is at least the size.
\<close>

theorem log2_ceil_exact:
  assumes "sz \<noteq> 0"
  shows "0 \<le> log2_ceil sz \<and> unat sz \<le> 2 ^ nat (log2_ceil sz) \<and> (\<forall>j. unat sz \<le> 2 ^ j \<longrightarrow> log2_ceil sz \<le> int j)"
  using log2_ceil_least [OF assms] by blast

theorem log2_ceil_exact_witness: "log2_ceil 4097 = 13 \<and> unat (4097 :: u64) \<le> 2 ^ nat 13"
  using log2_ceil_exact [of 4097] by (simp add: log2_ceil_def Let_def word_le_nat_alt)

text \<open>
  The byte swaps of \<^verbatim>\<open>endian.h\<close> are their own inverses, so converting to big-endian order and
  back is the identity.
\<close>

theorem byte_swaps_involutive:
  "swap16 (swap16 a) = a \<and> swap32 (swap32 b) = b \<and> swap64 (swap64 c) = c"
  by (simp add: swap16_swap16 swap32_swap32 swap64_swap64)

end
