(* ===== verification/Kv_Store.thy ===== *)
theory Kv_Store
  imports Phys_Mem
begin

text \<open>
  The contract of the kernel's two key-value stores, the chained hash table of
  \<^verbatim>\<open>src/misc/hashtable.c\<close> and the radix tree of \<^verbatim>\<open>src/misc/radix_tree.c\<close>: a partial map from keys to
  pointers, read through a lookup that returns \<^verbatim>\<open>NULL\<close> for an absent key. An insertion needs memory;
  the state of the allocator is part of the state of the store, and an insertion that returns an
  error code leaves every lookup alone.
\<close>

locale kv_store =
  fixes lookup :: "'s \<Rightarrow> u64 \<Rightarrow> addr"
    and insert :: "u64 \<Rightarrow> addr \<Rightarrow> 's \<Rightarrow> int \<times> 's"
    and delete :: "u64 \<Rightarrow> 's \<Rightarrow> 's"
    and ok :: "'s \<Rightarrow> bool"
  assumes lookup_insert: "ok s \<Longrightarrow> insert k v s = (0, t) \<Longrightarrow> lookup t j = (if j = k then v else lookup s j)"
    and insert_fail: "ok s \<Longrightarrow> insert k v s = (r, t) \<Longrightarrow> r \<noteq> 0 \<Longrightarrow> lookup t j = lookup s j"
    and insert_ok: "ok s \<Longrightarrow> insert k v s = (r, t) \<Longrightarrow> ok t"
    and lookup_delete: "ok s \<Longrightarrow> lookup (delete k s) j = (if j = k then NULL else lookup s j)"
    and delete_ok: "ok s \<Longrightarrow> ok (delete k s)"
begin

text \<open>A run of insertions and deletions, and the map it leaves behind.\<close>

fun run_ops :: "(u64 \<times> addr option) list \<Rightarrow> 's \<Rightarrow> 's" where
  "run_ops [] s = s"
| "run_ops ((k, Some v) # ops) s = run_ops ops (snd (insert k v s))"
| "run_ops ((k, None) # ops) s = run_ops ops (delete k s)"

fun all_stored :: "(u64 \<times> addr option) list \<Rightarrow> 's \<Rightarrow> bool" where
  "all_stored [] s \<longleftrightarrow> True"
| "all_stored ((k, Some v) # ops) s \<longleftrightarrow> fst (insert k v s) = 0 \<and> all_stored ops (snd (insert k v s))"
| "all_stored ((k, None) # ops) s \<longleftrightarrow> all_stored ops (delete k s)"

fun last_value :: "(u64 \<times> addr option) list \<Rightarrow> u64 \<Rightarrow> addr \<Rightarrow> addr" where
  "last_value [] j d = d"
| "last_value ((k, Some v) # ops) j d = last_value ops j (if j = k then v else d)"
| "last_value ((k, None) # ops) j d = last_value ops j (if j = k then NULL else d)"

lemma run_ops_lookup:
  assumes "ok s" and "all_stored ops s"
  shows "ok (run_ops ops s) \<and> lookup (run_ops ops s) j = last_value ops j (lookup s j)"
  using assms
proof (induction ops s arbitrary: rule: run_ops.induct)
  case (2 k v ops s)
  obtain r t where t: "insert k v s = (r, t)" by (cases "insert k v s")
  then show ?case using 2 insert_ok [OF 2(2) t] lookup_insert [of s k v t j] by simp
next
  case (3 k ops s)
  then show ?case using delete_ok lookup_delete by simp
qed simp

end

end
