(* ===== verification/Hashtable.thy ===== *)
theory Hashtable
  imports Kv_Store
begin

text \<open>
  The chained hash table of \<^verbatim>\<open>src/misc/hashtable.c\<close>. A bucket is the list of its nodes in order; the
  allocator is the argument \<open>KM\<close> (state to address and state, \<^verbatim>\<open>NULL\<close> when it fails) and \<open>KF\<close>. Keys and
  values are pointers, that is 64-bit words.
\<close>

section \<open>Operations\<close>

record hash_node =
  hn_addr :: addr
  hn_key :: u64
  hn_value :: addr

record hashtable =
  buckets :: "nat \<Rightarrow> hash_node list"
  ht_size :: u64
  ht_count :: u64

fun hash_loop :: "nat \<Rightarrow> u64 \<Rightarrow> u32 \<Rightarrow> u32" where
  "hash_loop 0 k h = h"
| "hash_loop (Suc n) k h = hash_loop n (drop_bit 8 k) ((h XOR ucast (k AND 0xFF)) * 0x01000193)"

definition hash_ptr :: "u64 \<Rightarrow> u64 \<Rightarrow> u32" where
  "hash_ptr key sz = ucast ((ucast (hash_loop 8 key 0x811C9DC5) :: u64) AND (sz - 1))"

definition hashtable_init ::
  "(u64 \<Rightarrow> u64 \<Rightarrow> 'h \<Rightarrow> addr \<times> 'h) \<Rightarrow> u64 \<Rightarrow> 'h \<times> hashtable \<Rightarrow> int \<times> 'h \<times> hashtable" where
  "hashtable_init KC sz = (\<lambda>(h, ht).
     if sz = 0 \<or> sz AND (sz - 1) \<noteq> 0 then (- EINVAL, h, ht)
     else
       let (b, h) = KC sz 16 h
       in if b = NULL then (- ENOMEM, h, ht)
          else (0, h, \<lparr>buckets = (\<lambda>_. []), ht_size = sz, ht_count = 0\<rparr>))"

fun update_node :: "u64 \<Rightarrow> addr \<Rightarrow> hash_node list \<Rightarrow> hash_node list option" where
  "update_node key v [] = None"
| "update_node key v (n # ns) =
     (if hn_key n = key then Some (n\<lparr>hn_value := v\<rparr> # ns) else map_option (Cons n) (update_node key v ns))"

definition hashtable_insert ::
  "('h \<Rightarrow> addr \<times> 'h) \<Rightarrow> u64 \<Rightarrow> addr \<Rightarrow> 'h \<times> hashtable \<Rightarrow> int \<times> 'h \<times> hashtable" where
  "hashtable_insert KM key v = (\<lambda>(h, ht).
     let idx = unat (hash_ptr key (ht_size ht))
     in case update_node key v (buckets ht idx) of
          Some ns \<Rightarrow> (0, h, ht\<lparr>buckets := (buckets ht)(idx := ns)\<rparr>)
        | None \<Rightarrow>
            let (node, h) = KM h
            in if node = NULL then (- ENOMEM, h, ht)
               else (0, h, ht\<lparr>buckets := (buckets ht)(idx := \<lparr>hn_addr = node, hn_key = key, hn_value = v\<rparr> # buckets ht idx),
                              ht_count := ht_count ht + 1\<rparr>))"

fun find_node :: "u64 \<Rightarrow> hash_node list \<Rightarrow> hash_node option" where
  "find_node key [] = None"
| "find_node key (n # ns) = (if hn_key n = key then Some n else find_node key ns)"

definition hashtable_lookup :: "'h \<times> hashtable \<Rightarrow> u64 \<Rightarrow> addr" where
  "hashtable_lookup = (\<lambda>(h, ht) key.
     case find_node key (buckets ht (unat (hash_ptr key (ht_size ht)))) of
       Some n \<Rightarrow> hn_value n | None \<Rightarrow> NULL)"

fun remove_node :: "u64 \<Rightarrow> hash_node list \<Rightarrow> hash_node list" where
  "remove_node key [] = []"
| "remove_node key (n # ns) = (if hn_key n = key then ns else n # remove_node key ns)"

definition hashtable_delete ::
  "(addr \<Rightarrow> 'h \<Rightarrow> 'h) \<Rightarrow> u64 \<Rightarrow> 'h \<times> hashtable \<Rightarrow> addr \<times> 'h \<times> hashtable" where
  "hashtable_delete KF key = (\<lambda>(h, ht).
     let idx = unat (hash_ptr key (ht_size ht))
     in case find_node key (buckets ht idx) of
          Some n \<Rightarrow> (hn_value n, KF (hn_addr n) h,
            ht\<lparr>buckets := (buckets ht)(idx := remove_node key (buckets ht idx)), ht_count := ht_count ht - 1\<rparr>)
        | None \<Rightarrow> (NULL, h, ht))"

definition hashtable_destroy ::
  "(addr \<Rightarrow> 'h \<Rightarrow> 'h) \<Rightarrow> addr \<Rightarrow> 'h \<times> hashtable \<Rightarrow> 'h \<times> hashtable" where
  "hashtable_destroy KF array = (\<lambda>(h, ht).
     (KF array (fold (\<lambda>i h. fold (\<lambda>n. KF (hn_addr n)) (buckets ht i) h) [0..<unat (ht_size ht)] h),
      \<lparr>buckets = (\<lambda>_. []), ht_size = 0, ht_count = 0\<rparr>))"

section \<open>Invariant\<close>

text \<open>Every node is in the bucket of its key, no bucket holds a key twice, and the count is right.\<close>

definition ht_ok :: "hashtable \<Rightarrow> bool" where
  "ht_ok ht \<longleftrightarrow> ht_size ht \<noteq> 0 \<and>
     (\<forall>i. distinct (map hn_key (buckets ht i)) \<and>
       (\<forall>n\<in>set (buckets ht i). unat (hash_ptr (hn_key n) (ht_size ht)) = i)) \<and>
     ht_count ht = of_nat (\<Sum>i<unat (ht_size ht). length (buckets ht i))"

lemma find_update:
  assumes "update_node k v ns = Some ms"
  shows "find_node j ms = (if j = k then map_option (\<lambda>n. n\<lparr>hn_value := v\<rparr>) (find_node k ns) else find_node j ns)"
    and "find_node k ns \<noteq> None" and "map hn_key ms = map hn_key ns"
  using assms by (induction ns arbitrary: ms) (auto split: if_splits)

lemma update_None: "update_node k v ns = None \<longleftrightarrow> find_node k ns = None"
  by (induction ns) auto

lemma find_None: "find_node k ns = None \<longleftrightarrow> k \<notin> hn_key ` set ns"
  by (induction ns) auto

lemma find_remove:
  "distinct (map hn_key ns) \<Longrightarrow> find_node j (remove_node k ns) = (if j = k then None else find_node j ns)"
  by (induction ns) (auto simp: find_None)

lemma remove_keys:
  "set (remove_node k ns) \<subseteq> set ns"
  "distinct (map hn_key ns) \<Longrightarrow> distinct (map hn_key (remove_node k ns))"
  "find_node k ns \<noteq> None \<Longrightarrow> length ns = Suc (length (remove_node k ns))"
proof -
  show s: "set (remove_node k ns) \<subseteq> set ns" for ns by (induction ns) auto
  show "distinct (map hn_key ns) \<Longrightarrow> distinct (map hn_key (remove_node k ns))"
    using s by (induction ns) auto
  show "find_node k ns \<noteq> None \<Longrightarrow> length ns = Suc (length (remove_node k ns))"
    by (induction ns) (auto split: if_splits)
qed

lemma hash_ptr_bound:
  assumes "sz \<noteq> 0"
  shows "unat (hash_ptr k sz) < unat sz"
proof -
  let ?w = "(ucast (hash_loop 8 k 0x811C9DC5) :: u64) AND (sz - 1)"
  have "?w \<le> sz - 1" by (rule word_and_le1)
  moreover have "unat (ucast ?w :: u32) \<le> unat ?w"
    by (rule unat_ucast_le)
  ultimately show ?thesis
    using assms unat_minus_one [of sz] unat_gt_0 [of sz] by (simp add: hash_ptr_def word_le_nat_alt)
qed

lemma sum_bucket_upd:
  assumes "i < (n :: nat)"
  shows "(\<Sum>j<n. length ((b(i := xs)) j)) + length (b i) = (\<Sum>j<n. length (b j)) + length xs"
proof -
  have f: "i \<in> {..<n}" using assms by simp
  have "(\<Sum>j<n. length ((b(i := xs)) j)) = length xs + (\<Sum>j\<in>{..<n} - {i}. length (b j))"
    by (subst sum.remove [OF _ f]) (auto intro!: sum.cong)
  moreover have "(\<Sum>j<n. length (b j)) = length (b i) + (\<Sum>j\<in>{..<n} - {i}. length (b j))"
    by (subst sum.remove [OF _ f]) auto
  ultimately show ?thesis by simp
qed

section \<open>The table is a key-value store\<close>

lemma hashtable_init_ok:
  "hashtable_init KC sz (h, ht) = (0, h', ht') \<Longrightarrow> ht_ok ht' \<and> hashtable_lookup (h', ht') j = NULL"
  by (auto simp: hashtable_init_def ht_ok_def hashtable_lookup_def EINVAL_def ENOMEM_def split: if_splits prod.splits)

lemma bucket_lookup:
  "hashtable_lookup (h, ht) j =
     (case find_node j (buckets ht (unat (hash_ptr j (ht_size ht)))) of Some n \<Rightarrow> hn_value n | None \<Rightarrow> NULL)"
  by (simp add: hashtable_lookup_def)

lemma ht_okI:
  assumes "ht_ok ht" and "i < unat (ht_size ht)" and "distinct (map hn_key ns)"
    and "\<And>n. n \<in> set ns \<Longrightarrow> unat (hash_ptr (hn_key n) (ht_size ht)) = i"
    and "c + of_nat (length (buckets ht i)) = ht_count ht + of_nat (length ns)"
  shows "ht_ok (ht\<lparr>buckets := (buckets ht)(i := ns), ht_count := c\<rparr>)"
proof -
  let ?S = "\<lambda>b. \<Sum>j<unat (ht_size ht). length (b j)"
  have "(of_nat (?S ((buckets ht)(i := ns)) + length (buckets ht i)) :: u64) = of_nat (?S (buckets ht) + length ns)"
    using sum_bucket_upd [OF assms(2), of "buckets ht" ns] by simp
  then have "(of_nat (?S ((buckets ht)(i := ns))) :: u64) + of_nat (length (buckets ht i)) = c + of_nat (length (buckets ht i))"
    using assms(1,5) by (simp add: ht_ok_def)
  then have "c = of_nat (?S ((buckets ht)(i := ns)))" by simp
  then show ?thesis using assms(1,3,4) by (auto simp: ht_ok_def)
qed

lemma insert_cases:
  assumes "ht_ok ht" and "hashtable_insert KM k v (h, ht) = (r, h', ht')"
  shows "ht_ok ht'" and "r = 0 \<Longrightarrow> hashtable_lookup (h', ht') j = (if j = k then v else hashtable_lookup (h, ht) j)"
    and "r \<noteq> 0 \<Longrightarrow> ht' = ht \<and> r = - ENOMEM"
proof -
  define i where "i = unat (hash_ptr k (ht_size ht))"
  have i: "i < unat (ht_size ht)" using assms(1) by (simp add: i_def ht_ok_def hash_ptr_bound)
  have "ht_ok ht' \<and> (r = 0 \<longrightarrow> hashtable_lookup (h', ht') j = (if j = k then v else hashtable_lookup (h, ht) j)) \<and>
    (r \<noteq> 0 \<longrightarrow> ht' = ht \<and> r = - ENOMEM)"
  proof (cases "update_node k v (buckets ht i)")
    case (Some ns)
    note u = find_update [OF Some]
    have e: "r = 0" "h' = h" "ht' = ht\<lparr>buckets := (buckets ht)(i := ns), ht_count := ht_count ht\<rparr>"
      using assms(2) Some by (auto simp: hashtable_insert_def i_def Let_def)
    have len: "length ns = length (buckets ht i)" using arg_cong [OF u(3), of length] by simp
    have "unat (hash_ptr (hn_key n) (ht_size ht)) = i" if n: "n \<in> set ns" for n
    proof -
      have "hn_key n \<in> hn_key ` set (buckets ht i)" using n u(3) by (metis image_eqI image_set)
      then show ?thesis using assms(1) by (auto simp: ht_ok_def)
    qed
    then have "ht_ok ht'"
      unfolding e using assms(1) u(3) len by (intro ht_okI [OF assms(1) i]) (auto simp: ht_ok_def)
    moreover have "hashtable_lookup (h', ht') j = (if j = k then v else hashtable_lookup (h, ht) j)"
      using u(2) by (auto simp: bucket_lookup e u(1) i_def split: option.splits)
    ultimately show ?thesis using e by simp
  next
    case None
    then have nk: "find_node k (buckets ht i) = None" by (simp add: update_None)
    obtain nd h1 where km: "KM h = (nd, h1)" by (cases "KM h")
    show ?thesis
    proof (cases "nd = NULL")
      case True
      then show ?thesis using assms None km
        by (auto simp: hashtable_insert_def i_def [symmetric] ENOMEM_def)
    next
      case False
      let ?n = "\<lparr>hn_addr = nd, hn_key = k, hn_value = v\<rparr>"
      have e: "r = 0" "h' = h1" "ht' = ht\<lparr>buckets := (buckets ht)(i := ?n # buckets ht i), ht_count := ht_count ht + 1\<rparr>"
        using assms(2) None km False by (auto simp: hashtable_insert_def i_def [symmetric])
      have "ht_ok ht'"
        unfolding e using assms(1) nk
        by (intro ht_okI [OF assms(1) i]) (auto simp: ht_ok_def find_None i_def)
      moreover have "hashtable_lookup (h', ht') j = (if j = k then v else hashtable_lookup (h, ht) j)"
        by (auto simp: bucket_lookup e i_def)
      ultimately show ?thesis using e by simp
    qed
  qed
  then show "ht_ok ht'" and "r = 0 \<Longrightarrow> hashtable_lookup (h', ht') j = (if j = k then v else hashtable_lookup (h, ht) j)"
    and "r \<noteq> 0 \<Longrightarrow> ht' = ht \<and> r = - ENOMEM" by auto
qed

lemma delete_cases:
  assumes "ht_ok ht" and "hashtable_delete KF k (h, ht) = (w, h', ht')"
  shows "ht_ok ht'" and "w = hashtable_lookup (h, ht) k"
    and "hashtable_lookup (h', ht') j = (if j = k then NULL else hashtable_lookup (h, ht) j)"
proof -
  define i where "i = unat (hash_ptr k (ht_size ht))"
  have i: "i < unat (ht_size ht)" using assms(1) by (simp add: i_def ht_ok_def hash_ptr_bound)
  have dis: "distinct (map hn_key (buckets ht i))" using assms(1) by (simp add: ht_ok_def)
  have "ht_ok ht' \<and> w = hashtable_lookup (h, ht) k \<and>
    hashtable_lookup (h', ht') j = (if j = k then NULL else hashtable_lookup (h, ht) j)"
  proof (cases "find_node k (buckets ht i)")
    case None
    then show ?thesis using assms by (auto simp: hashtable_delete_def i_def bucket_lookup)
  next
    case (Some n)
    have e: "w = hn_value n" "ht' = ht\<lparr>buckets := (buckets ht)(i := remove_node k (buckets ht i)), ht_count := ht_count ht - 1\<rparr>"
      using assms(2) Some by (auto simp: hashtable_delete_def i_def Let_def)
    have len: "length (buckets ht i) = Suc (length (remove_node k (buckets ht i)))"
      using remove_keys(3) [of k "buckets ht i"] Some by simp
    have "ht_ok ht'"
      unfolding e using assms(1) remove_keys(1) [of k "buckets ht i"] remove_keys(2) [OF dis] len
      by (intro ht_okI [OF assms(1) i]) (auto simp: ht_ok_def)
    then show ?thesis
      using Some find_remove [OF dis, of j k] by (auto simp: bucket_lookup e i_def split: option.splits)
  qed
  then show "ht_ok ht'" and "w = hashtable_lookup (h, ht) k"
    and "hashtable_lookup (h', ht') j = (if j = k then NULL else hashtable_lookup (h, ht) j)" by auto
qed

interpretation htab: kv_store hashtable_lookup "hashtable_insert KM"
  "\<lambda>k s. snd (hashtable_delete KF k s)" "\<lambda>(h, ht). ht_ok ht" for KM KF
proof (unfold_locales, goal_cases)
  case (1 s k v t j)
  then show ?case using insert_cases(2) [of "snd s" KM k v "fst s" 0 "fst t" "snd t" j] by (simp add: case_prod_beta)
next
  case (2 s k v r t j)
  then show ?case using insert_cases(3) [of "snd s" KM k v "fst s" r "fst t" "snd t"]
    by (simp add: case_prod_beta hashtable_lookup_def)
next
  case (3 s k v r t)
  then show ?case using insert_cases(1) [of "snd s" KM k v "fst s" r "fst t" "snd t"] by (simp add: case_prod_beta)
next
  case (4 s k j)
  then show ?case
    using delete_cases(3) [of "snd s" KF k "fst s" _ "fst (snd (hashtable_delete KF k s))" "snd (snd (hashtable_delete KF k s))"]
    by (simp add: case_prod_beta) (metis prod.collapse)
next
  case (5 s k)
  then show ?case
    using delete_cases(1) [of "snd s" KF k "fst s" _ "fst (snd (hashtable_delete KF k s))" "snd (snd (hashtable_delete KF k s))"]
    by (simp add: case_prod_beta) (metis prod.collapse)
qed

end
