(* ===== verification/Radix_Tree.thy ===== *)
theory Radix_Tree
  imports Kv_Store
begin

text \<open>
  The radix tree of \<^verbatim>\<open>src/misc/radix_tree.c\<close>, with two bits of the key per level. A node is a value of
  the datatype below, with the fields of \<^verbatim>\<open>struct rxtree_node\<close>; a null pointer is \<open>None\<close>. The allocator
  is \<open>KM\<close>, which tells whether it succeeds, and \<open>KF\<close>; both act on the allocator's state. A level below
  the last bit of the key would shift by a negative amount: that is the fault \<open>Out_Of_Bounds\<close>, and
  \<open>rx_insert_ok\<close> shows that it does not happen.
\<close>

section \<open>Operations\<close>

datatype rxnode = RxNode (prefix: u64) (is_leaf: bool) (rx_value: addr) (children: "rxnode option list")

definition RADIX_TREE_MAP_SHIFT :: nat where "RADIX_TREE_MAP_SHIFT = 2"
definition RADIX_TREE_MAP_SIZE :: nat where "RADIX_TREE_MAP_SIZE = 4"

definition rx_index :: "nat \<Rightarrow> u64 \<Rightarrow> nat" where
  "rx_index depth key =
     (let shift = 64 - (depth + 1) * RADIX_TREE_MAP_SHIFT;
          m = push_bit shift (of_nat RADIX_TREE_MAP_SIZE - 1)
      in unat (drop_bit shift (key AND m)))"

definition no_children :: "rxnode option list" where
  "no_children = replicate RADIX_TREE_MAP_SIZE None"

definition rxtree_node_alloc ::
  "('h \<Rightarrow> bool \<times> 'h) \<Rightarrow> u64 \<Rightarrow> bool \<Rightarrow> addr \<Rightarrow> 'h \<Rightarrow> rxnode option \<times> 'h" where
  "rxtree_node_alloc KM p leaf v h =
     (let (b, h) = KM h in (if b then Some (RxNode p leaf v no_children) else None, h))"

fun rxtree_node_free :: "('h \<Rightarrow> 'h) \<Rightarrow> rxnode option \<Rightarrow> 'h \<Rightarrow> 'h" where
  "rxtree_node_free KF None h = h"
| "rxtree_node_free KF (Some (RxNode p leaf v cs)) h = KF (fold (rxtree_node_free KF) cs h)"

function rxtree_insert_node ::
  "('h \<Rightarrow> bool \<times> 'h) \<Rightarrow> ('h \<Rightarrow> 'h) \<Rightarrow> u64 \<Rightarrow> addr \<Rightarrow> nat \<Rightarrow> rxnode option \<Rightarrow> 'h \<Rightarrow> (int \<times> rxnode option \<times> 'h) res" where
  "rxtree_insert_node KM KF key v depth None h =
     (let (n, h) = rxtree_node_alloc KM key True v h
      in Inr (if n \<noteq> None then 0 else - ENOMEM, n, h))"
| "rxtree_insert_node KM KF key v depth (Some (RxNode p leaf val cs)) h =
     (let current = RxNode p leaf val cs
      in if leaf then
           if p = key then Inr (0, Some (RxNode p leaf v cs), h)
           else
             let (parent, h) = rxtree_node_alloc KM 0 False NULL h
             in if parent = None then Inr (- ENOMEM, Some current, h)
                else if 32 \<le> depth then Inl Out_Of_Bounds
                else
                  let idx1 = rx_index depth key; idx2 = rx_index depth p
                  in if idx1 = idx2 then
                       rbind (rxtree_insert_node KM KF key v (depth + 1) None h) (\<lambda>(r1, c1, h).
                         if r1 \<noteq> 0 then
                           Inr (- ENOMEM, Some current,
                                rxtree_node_free KF (Some (RxNode 0 False NULL (no_children[idx1 := c1]))) h)
                         else
                           rbind (rxtree_insert_node KM KF p val (depth + 1) c1 h) (\<lambda>(r2, c2, h).
                             if r2 \<noteq> 0 then
                               Inr (- ENOMEM, Some current,
                                    rxtree_node_free KF (Some (RxNode 0 False NULL (no_children[idx1 := c2]))) h)
                             else Inr (0, Some (RxNode p False NULL (no_children[idx1 := c2])), KF h)))
                     else
                       let (n1, h) = rxtree_node_alloc KM key True v h;
                           (n2, h) = rxtree_node_alloc KM p True val h;
                           parent = RxNode 0 False NULL (no_children[idx1 := n1, idx2 := n2])
                       in if n1 = None \<or> n2 = None
                          then Inr (- ENOMEM, Some current, rxtree_node_free KF (Some parent) h)
                          else Inr (0, Some parent, h)
         else if 32 \<le> depth then Inl Out_Of_Bounds
         else
           rbind (rxtree_insert_node KM KF key v (depth + 1) (cs ! rx_index depth key) h) (\<lambda>(r, c, h).
             Inr (r, Some (RxNode p leaf val (cs[rx_index depth key := c])), h)))"
  by pat_completeness auto
termination by (relation "measure (\<lambda>(KM, KF, key, v, depth, n, h). 32 - depth)") auto

declare rxtree_insert_node.simps [simp del]

definition rxtree_insert ::
  "('h \<Rightarrow> bool \<times> 'h) \<Rightarrow> ('h \<Rightarrow> 'h) \<Rightarrow> u64 \<Rightarrow> addr \<Rightarrow> 'h \<times> rxnode option \<Rightarrow> (int \<times> 'h \<times> rxnode option) res" where
  "rxtree_insert KM KF key v = (\<lambda>(h, n).
     rbind (rxtree_insert_node KM KF key v 0 n h) (\<lambda>(r, n, h). Inr (r, h, n)))"

function rx_lookup_loop :: "u64 \<Rightarrow> nat \<Rightarrow> rxnode option \<Rightarrow> addr res" where
  "rx_lookup_loop key depth None = Inr NULL"
| "rx_lookup_loop key depth (Some (RxNode p leaf v cs)) =
     (if leaf then Inr (if p = key then v else NULL)
      else if 32 \<le> depth then Inl Out_Of_Bounds
      else rx_lookup_loop key (depth + 1) (cs ! rx_index depth key))"
  by pat_completeness auto
termination by (relation "measure (\<lambda>(key, depth, n). 32 - depth)") auto

definition rxtree_lookup :: "'h \<times> rxnode option \<Rightarrow> u64 \<Rightarrow> addr res" where
  "rxtree_lookup = (\<lambda>(h, n) key. rx_lookup_loop key 0 n)"

text \<open>The last non-null child and the number of children, as the loop of \<^verbatim>\<open>rxtree_delete_node\<close> counts them.\<close>

definition child_count :: "rxnode option list \<Rightarrow> nat" where
  "child_count cs = length (filter (\<lambda>c. c \<noteq> None) cs)"

definition last_child :: "rxnode option list \<Rightarrow> rxnode option" where
  "last_child cs = fold (\<lambda>c a. if c \<noteq> None then c else a) cs None"

definition collapse :: "('h \<Rightarrow> 'h) \<Rightarrow> rxnode \<Rightarrow> 'h \<Rightarrow> rxnode option \<times> 'h" where
  "collapse KF n h =
     (case last_child (children n) of
        Some c \<Rightarrow> if child_count (children n) = 1 \<and> is_leaf c then (Some c, KF h) else (Some n, h)
      | None \<Rightarrow> if child_count (children n) = 0 then (None, KF h) else (Some n, h))"

function rxtree_delete_node ::
  "('h \<Rightarrow> 'h) \<Rightarrow> u64 \<Rightarrow> nat \<Rightarrow> rxnode option \<Rightarrow> 'h \<Rightarrow> (int \<times> rxnode option \<times> 'h) res" where
  "rxtree_delete_node KF key depth None h = Inr (- EINVAL, None, h)"
| "rxtree_delete_node KF key depth (Some (RxNode p leaf v cs)) h =
     (if leaf then
        if p = key then Inr (0, None, KF h) else Inr (- EINVAL, Some (RxNode p leaf v cs), h)
      else if 32 \<le> depth then Inl Out_Of_Bounds
      else
        rbind (rxtree_delete_node KF key (depth + 1) (cs ! rx_index depth key) h) (\<lambda>(r, c, h).
          let n = RxNode p leaf v (cs[rx_index depth key := c])
          in if r = 0 then (let (n', h) = collapse KF n h in Inr (r, n', h)) else Inr (r, Some n, h)))"
  by pat_completeness auto
termination by (relation "measure (\<lambda>(KF, key, depth, n, h). 32 - depth)") auto

declare rxtree_delete_node.simps [simp del]

definition rxtree_delete ::
  "('h \<Rightarrow> 'h) \<Rightarrow> u64 \<Rightarrow> 'h \<times> rxnode option \<Rightarrow> (int \<times> 'h \<times> rxnode option) res" where
  "rxtree_delete KF key = (\<lambda>(h, n).
     rbind (rxtree_delete_node KF key 0 n h) (\<lambda>(r, n, h). Inr (r, h, n)))"

definition rxtree_free :: "('h \<Rightarrow> 'h) \<Rightarrow> 'h \<times> rxnode option \<Rightarrow> 'h \<times> rxnode option" where
  "rxtree_free KF = (\<lambda>(h, n). (rxtree_node_free KF n h, None))"

section \<open>Keys as sequences of digits\<close>

lemma rx_index_bit:
  assumes "d < 32"
  shows "rx_index d key = unat (take_bit 2 (drop_bit (62 - 2 * d) key))"
proof -
  have "64 - (d + 1) * 2 = 62 - 2 * d" by simp
  moreover have "(of_nat 4 - 1 :: u64) = mask 2" by (simp add: mask_eq_exp_minus_1)
  moreover have "drop_bit s (key AND push_bit s (mask 2)) = take_bit 2 (drop_bit s key)" for s
    by (rule bit_word_eqI) (auto simp: bit_simps dest: bit_imp_le_length)
  ultimately show ?thesis by (simp add: rx_index_def RADIX_TREE_MAP_SHIFT_def RADIX_TREE_MAP_SIZE_def)
qed

lemma rx_index_bound: "d < 32 \<Longrightarrow> rx_index d key < 4"
  using unat_take_bit [of 2 "drop_bit (62 - 2 * d) key"] by (simp add: rx_index_bit)

definition digits :: "u64 \<Rightarrow> nat list" where
  "digits key = map (\<lambda>d. rx_index d key) [0..<32]"

lemma length_digits [simp]: "length (digits key) = 32"
  by (simp add: digits_def)

lemma digits_nth: "d < 32 \<Longrightarrow> digits key ! d = rx_index d key"
  by (simp add: digits_def)

lemma digits_inj:
  assumes "digits a = digits b"
  shows "a = b"
proof (rule bit_word_eqI)
  fix n assume "n < LENGTH(64)"
  define d where "d = 31 - n div 2"
  have d: "d < 32" "62 - 2 * d = 2 * (n div 2)" using \<open>n < LENGTH(64)\<close> by (auto simp: d_def)
  have "rx_index d a = rx_index d b" using assms d(1) by (metis digits_nth)
  then have "take_bit 2 (drop_bit (2 * (n div 2)) a) = take_bit 2 (drop_bit (2 * (n div 2)) b)"
    using d by (simp add: rx_index_bit word_unat_eq_iff)
  then have "bit (take_bit 2 (drop_bit (2 * (n div 2)) a)) (n mod 2) = bit (take_bit 2 (drop_bit (2 * (n div 2)) b)) (n mod 2)"
    by simp
  then show "bit a n = bit b n" by (simp add: bit_simps)
qed

lemma take_digits_Suc: "d < 32 \<Longrightarrow> take (Suc d) (digits k) = take d (digits k) @ [rx_index d k]"
  by (simp add: take_Suc_conv_app_nth digits_nth)

section \<open>Invariant\<close>

text \<open>
  The path \<open>ps\<close> to a node is a prefix of the digits of every key stored below it, and inner nodes
  stay above the last digit.
\<close>

inductive rx_wf :: "nat list \<Rightarrow> rxnode option \<Rightarrow> bool" where
  wf_None: "rx_wf ps None"
| wf_leaf: "take (length ps) (digits p) = ps \<Longrightarrow> rx_wf ps (Some (RxNode p True v cs))"
| wf_inner: "length ps < 32 \<Longrightarrow> length cs = 4 \<Longrightarrow> (\<forall>i<4. rx_wf (ps @ [i]) (cs ! i)) \<Longrightarrow>
    rx_wf ps (Some (RxNode p False v cs))"

inductive_simps rx_wf_None [simp]: "rx_wf ps None"
inductive_simps rx_wf_leaf [simp]: "rx_wf ps (Some (RxNode p True v cs))"
inductive_simps rx_wf_inner [simp]: "rx_wf ps (Some (RxNode p False v cs))"

abbreviation on_path :: "nat list \<Rightarrow> u64 \<Rightarrow> bool" where
  "on_path ps k \<equiv> take (length ps) (digits k) = ps"

lemma on_path_Suc:
  assumes "on_path ps k" and "length ps < 32"
  shows "on_path (ps @ [i]) k \<longleftrightarrow> rx_index (length ps) k = i"
  using assms take_digits_Suc [of "length ps" k] by simp

lemma on_path_child: "on_path ps k \<Longrightarrow> length ps < 32 \<Longrightarrow> on_path (ps @ [rx_index (length ps) k]) k"
  using on_path_Suc by blast

lemma distinct_paths:
  assumes "on_path ps k" and "on_path ps p" and "k \<noteq> p"
  shows "length ps < 32"
proof (rule ccontr)
  assume "\<not> length ps < 32"
  then have "take (length ps) (digits k) = digits k" "take (length ps) (digits p) = digits p" by simp_all
  then show False using assms digits_inj by metis
qed

lemma no_children_simps [simp]:
  "length no_children = 4" "i < 4 \<Longrightarrow> no_children ! i = None"
  by (simp_all add: no_children_def RADIX_TREE_MAP_SIZE_def)

lemma lookup_inner:
  "d < 32 \<Longrightarrow> rx_lookup_loop j d (Some (RxNode p False v cs)) = rx_lookup_loop j (Suc d) (cs ! rx_index d j)"
  by simp

lemma rx_alloc_cases:
  obtains h' where "rxtree_node_alloc KM p l v h = (Some (RxNode p l v no_children), h')"
    | h' where "rxtree_node_alloc KM p l v h = (None, h')"
  by (cases "fst (KM h)") (auto simp: rxtree_node_alloc_def case_prod_beta)

section \<open>Insertion\<close>

definition ins_spec ::
  "nat list \<Rightarrow> u64 \<Rightarrow> addr \<Rightarrow> rxnode option \<Rightarrow> (int \<times> rxnode option \<times> 'h) res \<Rightarrow> bool" where
  "ins_spec ps key v n out \<longleftrightarrow> (\<exists>r n' h'. out = Inr (r, n', h') \<and> (r = 0 \<or> r = - ENOMEM) \<and> rx_wf ps n' \<and>
     (\<forall>j. on_path ps j \<longrightarrow> rx_lookup_loop j (length ps) n' =
        (if r = 0 \<and> j = key then Inr v else rx_lookup_loop j (length ps) n)))"

lemma ins_specI:
  "out = Inr (r, n', h') \<Longrightarrow> r = 0 \<or> r = - ENOMEM \<Longrightarrow> rx_wf ps n' \<Longrightarrow>
   (\<And>j. on_path ps j \<Longrightarrow> rx_lookup_loop j (length ps) n' =
      (if r = 0 \<and> j = key then Inr v else rx_lookup_loop j (length ps) n)) \<Longrightarrow> ins_spec ps key v n out"
  unfolding ins_spec_def by blast

lemma ENOMEM_pos [simp]: "ENOMEM \<noteq> 0" "- ENOMEM \<noteq> 0"
  by (simp_all add: ENOMEM_def)

lemma insert_empty: "on_path ps key \<Longrightarrow> ins_spec ps key v None (rxtree_insert_node KM KF key v d None h)"
  by (cases rule: rx_alloc_cases [of KM key True v h])
     (auto simp: ins_spec_def rxtree_insert_node.simps)

text \<open>Splitting a leaf whose next digit agrees with the new key's, once the two subtrees are built.\<close>

lemma split_same_ok:
  assumes ps: "length ps < 32" "on_path ps key" "on_path ps p" "p \<noteq> key"
    and i: "rx_index (length ps) key = i" "rx_index (length ps) p = i"
    and c: "rx_wf (ps @ [i]) c2"
    and look: "\<And>j. on_path (ps @ [i]) j \<Longrightarrow> rx_lookup_loop j (Suc (length ps)) c2 =
      Inr (if j = p then val else if j = key then v else 0)"
  shows "rx_wf ps (Some (RxNode p False NULL (no_children[i := c2])))"
    and "on_path ps j \<Longrightarrow> rx_lookup_loop j (length ps) (Some (RxNode p False NULL (no_children[i := c2]))) =
      (if j = key then Inr v else rx_lookup_loop j (length ps) (Some (RxNode p True val cs)))"
proof -
  have i4: "i < 4" using rx_index_bound [OF ps(1)] i by metis
  show "rx_wf ps (Some (RxNode p False NULL (no_children[i := c2])))"
    using ps(1) i4 c by (auto simp: nth_list_update)
  assume j: "on_path ps j"
  show "rx_lookup_loop j (length ps) (Some (RxNode p False NULL (no_children[i := c2]))) =
      (if j = key then Inr v else rx_lookup_loop j (length ps) (Some (RxNode p True val cs)))"
  proof (cases "rx_index (length ps) j = i")
    case True
    then have "on_path (ps @ [i]) j" using on_path_Suc [OF j ps(1)] by simp
    then show ?thesis using True i4 ps(1,4) look by auto
  next
    case False
    then have "j \<noteq> key" "j \<noteq> p" using i by auto
    then show ?thesis using False i4 ps(1) rx_index_bound [OF ps(1), of j] by auto
  qed
qed

lemma split_differ_ok:
  assumes ps: "length ps < 32" "on_path ps key" "on_path ps p"
    and i: "rx_index (length ps) key = i1" "rx_index (length ps) p = i2" "i1 \<noteq> i2"
    and n_def: "n = RxNode 0 False NULL (no_children[i1 := Some (RxNode key True v no_children), i2 := Some (RxNode p True val no_children)])"
  shows "rx_wf ps (Some n)"
    and "on_path ps j \<Longrightarrow> rx_lookup_loop j (length ps) (Some n) =
      (if j = key then Inr v else rx_lookup_loop j (length ps) (Some (RxNode p True val cs)))"
proof -
  have i4: "i1 < 4" "i2 < 4" using rx_index_bound [OF ps(1)] i by metis+
  have "on_path (ps @ [i1]) key" "on_path (ps @ [i2]) p" using on_path_Suc ps i by auto
  then show "rx_wf ps (Some n)"
    using ps(1) i4 i(3) by (auto simp: n_def nth_list_update)
  assume j: "on_path ps j"
  have j4: "rx_index (length ps) j < 4" using rx_index_bound [OF ps(1)] .
  show "rx_lookup_loop j (length ps) (Some n) =
      (if j = key then Inr v else rx_lookup_loop j (length ps) (Some (RxNode p True val cs)))"
    using ps(1) i i4 j4 by (auto simp: n_def nth_list_update)
qed

lemma rx_insert_ok:
  "rx_wf ps n \<Longrightarrow> on_path ps key \<Longrightarrow> d = length ps \<Longrightarrow>
   ins_spec ps key v n (rxtree_insert_node KM KF key v d n h)"
proof (induction KM KF key v d n h arbitrary: ps rule: rxtree_insert_node.induct)
  case (1 KM KF key v depth h)
  then show ?case by (simp add: insert_empty)
next
  case (2 KM KF key v depth p leaf val cs h)
  show ?case
  proof (cases leaf)
    case False
    then have wf: "length ps < 32" "length cs = 4" "\<forall>i<4. rx_wf (ps @ [i]) (cs ! i)"
      using 2(4) by auto
    define i where "i = rx_index depth key"
    have i4: "i < 4" using rx_index_bound wf(1) 2(6) by (simp add: i_def)
    have "ins_spec (ps @ [i]) key v (cs ! i) (rxtree_insert_node KM KF key v (depth + 1) (cs ! i) h)"
      using 2(3) [of "RxNode p leaf val cs" "ps @ [i]"] False wf i4 on_path_child [OF 2(5) wf(1)] 2(6)
      by (simp add: i_def)
    then obtain r c h' where c: "rxtree_insert_node KM KF key v (depth + 1) (cs ! i) h = Inr (r, c, h')"
      "r = 0 \<or> r = - ENOMEM" "rx_wf (ps @ [i]) c"
      "\<And>j. on_path (ps @ [i]) j \<Longrightarrow> rx_lookup_loop j (Suc (length ps)) c =
         (if r = 0 \<and> j = key then Inr v else rx_lookup_loop j (Suc (length ps)) (cs ! i))"
      by (auto simp: ins_spec_def)
    have look: "rx_lookup_loop j (length ps) (Some (RxNode p False val (cs[i := c]))) =
        (if r = 0 \<and> j = key then Inr v else rx_lookup_loop j (length ps) (Some (RxNode p False val cs)))"
      if j: "on_path ps j" for j
    proof (cases "rx_index (length ps) j = i")
      case True
      then have "on_path (ps @ [i]) j" using on_path_Suc [OF j wf(1)] by simp
      then show ?thesis using True c(4) i4 wf by simp
    next
      case False
      then have "j \<noteq> key" using 2(6) by (auto simp: i_def)
      then show ?thesis using False wf by simp
    qed
    have "rx_wf ps (Some (RxNode p False val (cs[i := c])))"
      using wf c(3) i4 by (auto simp: nth_list_update)
    then show ?thesis
      using False c(1,2) look 2(6) wf(1)
      by (intro ins_specI [of _ r "Some (RxNode p False val (cs[i := c]))" h'])
         (auto simp: rxtree_insert_node.simps i_def)
  next
    case True
    then have pp: "on_path ps p" using 2(4) by simp
    show ?thesis
    proof (cases "p = key")
      case eq: True
      then show ?thesis using True pp
        by (intro ins_specI [of _ 0 "Some (RxNode p True v cs)" h]) (auto simp: rxtree_insert_node.simps)
    next
      case ne: False
      have lt: "length ps < 32" using distinct_paths [OF 2(5) pp] ne by auto
      have keep: "ins_spec ps key v (Some (RxNode p True val cs)) (Inr (- ENOMEM, Some (RxNode p True val cs), h0))" for h0 :: 'a
        using pp by (intro ins_specI) auto
      show ?thesis
      proof (cases rule: rx_alloc_cases [of KM 0 False NULL h])
        case (2 h1)
        then show ?thesis using True ne keep by (simp add: rxtree_insert_node.simps)
      next
        case parent: (1 h1)
        define i1 i2 where "i1 = rx_index depth key" and "i2 = rx_index depth p"
        show ?thesis
        proof (cases "i1 = i2")
          case False
          define n where "n = RxNode 0 False NULL (no_children[i1 := Some (RxNode key True v no_children), i2 := Some (RxNode p True val no_children)])"
          have idx: "rx_index (length ps) key = i1" "rx_index (length ps) p = i2" using 2(6) by (simp_all add: i1_def i2_def)
          note ok = split_differ_ok [OF lt 2(5) pp idx False n_def]
          show ?thesis
          proof (cases rule: rx_alloc_cases [of KM key True v h1])
            case n1: (1 h2)
            show ?thesis
            proof (cases rule: rx_alloc_cases [of KM p True val h2])
              case n2: (1 h3)
              have "rxtree_insert_node KM KF key v depth (Some (RxNode p leaf val cs)) h = Inr (0, Some n, h3)"
                using True ne lt parent False n1 n2 2(6)
                by (simp add: rxtree_insert_node.simps(2) i1_def i2_def n_def Let_def)
              then show ?thesis
                by (rule ins_specI) (use ok(1) ok(2) [where cs = cs] True in simp_all)
            qed (use True ne lt parent False n1 2(6) keep in \<open>auto simp: rxtree_insert_node.simps i1_def i2_def Let_def\<close>)
          next
            case n1: (2 h2)
            show ?thesis
              using True ne lt parent False n1 2(6) keep
              by (cases rule: rx_alloc_cases [of KM p True val h2])
                 (auto simp: rxtree_insert_node.simps i1_def i2_def Let_def)
          qed
        next
          case same: True
          have "ins_spec (ps @ [i1]) key v None (rxtree_insert_node KM KF key v (depth + 1) None h1)"
            using on_path_child [OF 2(5) lt] 2(6) by (intro insert_empty) (simp add: i1_def)
          then obtain r1 c1 h2 where c1: "rxtree_insert_node KM KF key v (depth + 1) None h1 = Inr (r1, c1, h2)"
            "r1 = 0 \<or> r1 = - ENOMEM" "rx_wf (ps @ [i1]) c1"
            "\<And>j. on_path (ps @ [i1]) j \<Longrightarrow> rx_lookup_loop j (Suc (length ps)) c1 = (if r1 = 0 \<and> j = key then Inr v else Inr 0)"
            by (auto simp: ins_spec_def)
          show ?thesis
          proof (cases "r1 = 0")
            case False
            then show ?thesis
              using True ne lt parent same c1(1,2) 2(6) keep
              by (auto simp: rxtree_insert_node.simps(2) i1_def i2_def Let_def)
          next
            case r1: True
            have "ins_spec (ps @ [i1]) p val c1 (rxtree_insert_node KM KF p val (depth + 1) c1 h2)"
            proof (rule 2(2))
              show "RxNode p leaf val cs = RxNode p leaf val cs" "leaf" "p \<noteq> key" "\<not> 32 \<le> depth" "i1 = i2"
                "i1 = rx_index depth key" "i2 = rx_index depth p"
                using True ne lt 2(6) same by (simp_all add: i1_def i2_def)
              show "(Some (RxNode 0 False 0 no_children), h1) = rxtree_node_alloc KM 0 False 0 h" using parent by simp
              show "rxtree_insert_node KM KF key v (depth + 1) None h1 = Inr (r1, c1, h2)" by (rule c1(1))
              show "on_path (ps @ [i1]) p" using on_path_child [OF pp lt] same 2(6) by (simp add: i2_def)
            qed (use r1 c1 2(6) in auto)
            then obtain r2 c2 h3 where c2: "rxtree_insert_node KM KF p val (depth + 1) c1 h2 = Inr (r2, c2, h3)"
              "r2 = 0 \<or> r2 = - ENOMEM" "rx_wf (ps @ [i1]) c2"
              "\<And>j. on_path (ps @ [i1]) j \<Longrightarrow> rx_lookup_loop j (Suc (length ps)) c2 =
                 (if r2 = 0 \<and> j = p then Inr val else rx_lookup_loop j (Suc (length ps)) c1)"
              by (auto simp: ins_spec_def)
            show ?thesis
            proof (cases "r2 = 0")
              case False
              then show ?thesis
                using True ne lt parent same c1(1) r1 c2(1) 2(6) keep
                by (auto simp: rxtree_insert_node.simps(2) i1_def i2_def Let_def)
            next
              case r2: True
              have look: "\<And>j. on_path (ps @ [i1]) j \<Longrightarrow> rx_lookup_loop j (Suc (length ps)) c2 =
                  Inr (if j = p then val else if j = key then v else 0)"
                using c1(4) c2(4) r1 r2 by auto
              have idx: "rx_index (length ps) key = i1" "rx_index (length ps) p = i1"
                using 2(6) same by (simp_all add: i1_def i2_def)
              note ok = split_same_ok [OF lt 2(5) pp ne idx c2(3) look]
              have "rxtree_insert_node KM KF key v depth (Some (RxNode p leaf val cs)) h =
                  Inr (0, Some (RxNode p False 0 (no_children[i1 := c2])), KF h3)"
                using True ne lt parent same c1(1) r1 c2(1) r2 2(6)
                by (simp add: rxtree_insert_node.simps(2) i1_def i2_def Let_def)
              then show ?thesis
                by (rule ins_specI) (use ok(1) ok(2) [where cs = cs] True in simp_all)
            qed
          qed
        qed
      qed
    qed
  qed
qed

section \<open>Deletion\<close>

lemma last_child_filter:
  "last_child cs = (case filter (\<lambda>c. c \<noteq> None) cs of [] \<Rightarrow> None | ds \<Rightarrow> last ds)"
proof (induction cs rule: rev_induct)
  case (snoc c cs)
  then show ?case by (cases "filter (\<lambda>c. c \<noteq> None) cs") (auto simp: last_child_def)
qed (simp add: last_child_def)

lemma only_child:
  assumes "child_count cs = 1" and "last_child cs = Some c"
  obtains i where "i < length cs" "cs ! i = Some c" "\<And>j. j < length cs \<Longrightarrow> j \<noteq> i \<Longrightarrow> cs ! j = None"
proof -
  from assms(1) obtain d where "filter (\<lambda>c. c \<noteq> None) cs = [d]"
    by (auto simp: child_count_def length_Suc_conv)
  moreover from this have "d = Some c" using assms(2) by (simp add: last_child_filter)
  ultimately obtain us vs where cs: "cs = us @ Some c # vs" "\<forall>u\<in>set us. u = None" "filter (\<lambda>c. c \<noteq> None) vs = []"
    by (auto simp: filter_eq_Cons_iff)
  have "cs ! j = None" if "j < length cs" "j \<noteq> length us" for j
    using cs that by (auto simp: nth_append nth_Cons' filter_empty_conv)
  then show ?thesis using that [of "length us"] cs(1) by auto
qed

lemma no_child: "child_count cs = 0 \<Longrightarrow> i < length cs \<Longrightarrow> cs ! i = None"
  by (auto simp: child_count_def filter_empty_conv)

lemma collapse_ok:
  assumes wf: "rx_wf ps (Some (RxNode p False v cs))"
    and n: "collapse KF (RxNode p False v cs) h = (n', h')"
  shows "rx_wf ps n'"
    and "on_path ps j \<Longrightarrow> rx_lookup_loop j (length ps) n' = rx_lookup_loop j (length ps) (Some (RxNode p False v cs))"
proof -
  have len: "length ps < 32" "length cs = 4" using wf by auto
  consider (keep) "n' = Some (RxNode p False v cs)" | (none) "child_count cs = 0" "n' = None"
    | (one) c where "child_count cs = 1" "last_child cs = Some c" "is_leaf c" "n' = Some c"
    using n by (auto simp: collapse_def split: option.splits if_splits)
  then have "rx_wf ps n' \<and> (on_path ps j \<longrightarrow> rx_lookup_loop j (length ps) n' = rx_lookup_loop j (length ps) (Some (RxNode p False v cs)))"
  proof cases
    case none
    then show ?thesis using no_child len rx_index_bound [OF len(1), of j] by simp
  next
    case one
    then obtain i where i: "i < 4" "cs ! i = Some c" "\<And>j. j < 4 \<Longrightarrow> j \<noteq> i \<Longrightarrow> cs ! j = None"
      using only_child len by metis
    obtain q w ds where c: "c = RxNode q True w ds" using one(3) by (cases c) auto
    have q: "on_path (ps @ [i]) q" using wf i(1,2) c by auto
    then have q': "on_path ps q" by (metis append_take_drop_id append_eq_append_conv_if length_append take_append take_take append_eq_conv_conj)
    have idx: "rx_index (length ps) q = i" using on_path_Suc [OF q' len(1)] q by simp
    show ?thesis
    proof (cases "rx_index (length ps) j = i")
      case True
      then show ?thesis using one(4) c q' i len by simp
    next
      case False
      then have "q \<noteq> j" using idx by auto
      then show ?thesis using False one(4) c q' i(3) len rx_index_bound [OF len(1), of j] by simp
    qed
  qed (use wf in simp)
  then show "rx_wf ps n'"
    and "on_path ps j \<Longrightarrow> rx_lookup_loop j (length ps) n' = rx_lookup_loop j (length ps) (Some (RxNode p False v cs))"
    by blast+
qed

definition del_spec :: "nat list \<Rightarrow> u64 \<Rightarrow> rxnode option \<Rightarrow> (int \<times> rxnode option \<times> 'h) res \<Rightarrow> bool" where
  "del_spec ps key n out \<longleftrightarrow> (\<exists>r n' h'. out = Inr (r, n', h') \<and> (r = 0 \<or> r = - EINVAL \<and> n' = n) \<and> rx_wf ps n' \<and>
     (\<forall>j. on_path ps j \<longrightarrow> rx_lookup_loop j (length ps) n' =
        (if j = key then Inr NULL else rx_lookup_loop j (length ps) n)))"

lemma del_specI:
  "out = Inr (r, n', h') \<Longrightarrow> r = 0 \<or> r = - EINVAL \<and> n' = n \<Longrightarrow> rx_wf ps n' \<Longrightarrow>
   (\<And>j. on_path ps j \<Longrightarrow> rx_lookup_loop j (length ps) n' =
      (if j = key then Inr NULL else rx_lookup_loop j (length ps) n)) \<Longrightarrow> del_spec ps key n out"
  unfolding del_spec_def by blast

lemma child_update_lookup:
  assumes wf: "rx_wf ps (Some (RxNode p False v cs))" and i: "i = rx_index (length ps) key"
    and look: "\<And>j. on_path (ps @ [i]) j \<Longrightarrow> rx_lookup_loop j (Suc (length ps)) c =
      (if j = key then x else rx_lookup_loop j (Suc (length ps)) (cs ! i))"
    and j: "on_path ps j"
  shows "rx_lookup_loop j (length ps) (Some (RxNode p False v (cs[i := c]))) =
    (if j = key then x else rx_lookup_loop j (length ps) (Some (RxNode p False v cs)))"
proof (cases "rx_index (length ps) j = i")
  case True
  have len: "length ps < 32" "length cs = 4" using wf by auto
  have "i < 4" using rx_index_bound [OF len(1)] i by simp
  moreover have "on_path (ps @ [i]) j" using True on_path_Suc [OF j len(1)] by simp
  ultimately show ?thesis using True look len by simp
next
  case False
  then have "j \<noteq> key" using i by auto
  then show ?thesis using False wf by simp
qed

lemma child_update_wf:
  "rx_wf ps (Some (RxNode p False v cs)) \<Longrightarrow> rx_wf (ps @ [i]) c \<Longrightarrow> i < 4 \<Longrightarrow> rx_wf ps (Some (RxNode p False v (cs[i := c])))"
  by (auto simp: nth_list_update)

lemma rx_delete_ok:
  "rx_wf ps n \<Longrightarrow> on_path ps key \<Longrightarrow> d = length ps \<Longrightarrow> del_spec ps key n (rxtree_delete_node KF key d n h)"
proof (induction KF key d n h arbitrary: ps rule: rxtree_delete_node.induct)
  case (2 KF key depth p leaf v cs h)
  show ?case
  proof (cases leaf)
    case True
    then show ?thesis using 2(2) by (auto simp: del_spec_def rxtree_delete_node.simps)
  next
    case False
    then have wf: "rx_wf ps (Some (RxNode p False v cs))" "length ps < 32" "length cs = 4" "\<forall>i<4. rx_wf (ps @ [i]) (cs ! i)"
      using 2(2) by auto
    define i where "i = rx_index depth key"
    have i4: "i < 4" using rx_index_bound wf(2) 2(4) by (simp add: i_def)
    have len1: "length (ps @ [i]) = Suc (length ps)" by simp
    have "del_spec (ps @ [i]) key (cs ! i) (rxtree_delete_node KF key (depth + 1) (cs ! i) h)"
      using 2(1) [of "ps @ [i]"] False wf i4 on_path_child [OF 2(3) wf(2)] 2(4) by (simp add: i_def)
    then obtain r c h' where c: "rxtree_delete_node KF key (depth + 1) (cs ! i) h = Inr (r, c, h')"
      "r = 0 \<or> r = - EINVAL \<and> c = cs ! i" "rx_wf (ps @ [i]) c"
      "\<And>j. take (Suc (length ps)) (digits j) = ps @ [i] \<Longrightarrow> rx_lookup_loop j (Suc (length ps)) c =
         (if j = key then Inr NULL else rx_lookup_loop j (Suc (length ps)) (cs ! i))"
      unfolding del_spec_def len1 by blast
    note wf' = child_update_wf [OF wf(1) c(3) i4]
    have look: "on_path ps j \<Longrightarrow> rx_lookup_loop j (length ps) (Some (RxNode p False v (cs[i := c]))) =
        (if j = key then Inr NULL else rx_lookup_loop j (length ps) (Some (RxNode p False v cs)))" for j
      by (rule child_update_lookup [OF wf(1)]) (use c(4) 2(4) in \<open>simp_all add: i_def\<close>)
    obtain n' h2 where n': "collapse KF (RxNode p False v (cs[i := c])) h' = (n', h2)" by fastforce
    show ?thesis
    proof (cases "r = 0")
      case True
      have "rxtree_delete_node KF key depth (Some (RxNode p leaf v cs)) h = Inr (0, n', h2)"
        using True False c(1) n' wf(2) 2(4) by (simp add: rxtree_delete_node.simps i_def)
      then show ?thesis
        by (rule del_specI) (use collapse_ok [OF wf' n'] look False in simp_all)
    next
      case r: False
      then have out: "rxtree_delete_node KF key depth (Some (RxNode p leaf v cs)) h = Inr (- EINVAL, Some (RxNode p False v cs), h')"
        using False c(1,2) wf(2) 2(4) by (simp add: rxtree_delete_node.simps i_def)
      have upd: "cs[i := c] = cs" using r c(2) by simp
      have leaf: "leaf = False" using False by simp
      show ?thesis using out unfolding leaf
        by (rule del_specI) (use wf(1) look [unfolded upd] in \<open>blast | simp\<close>)+
    qed
  qed
qed (simp add: del_spec_def rxtree_delete_node.simps)

section \<open>The key-value contract\<close>

text \<open>Neither operation faults from a well-formed tree.\<close>

lemma rxtree_insert_total:
  assumes "rx_wf [] n"
  obtains r h' n' where "rxtree_insert KM KF k v (h, n) = Inr (r, h', n')" "r = 0 \<or> r = - ENOMEM" "rx_wf [] n'"
    "\<And>j. rxtree_lookup (h', n') j = (if r = 0 \<and> j = k then Inr v else rxtree_lookup (h, n) j)"
proof -
  have "ins_spec [] k v n (rxtree_insert_node KM KF k v 0 n h)" using assms by (simp add: rx_insert_ok)
  then obtain r n' h' where "rxtree_insert_node KM KF k v 0 n h = Inr (r, n', h')" "r = 0 \<or> r = - ENOMEM" "rx_wf [] n'"
    "\<And>j. rx_lookup_loop j 0 n' = (if r = 0 \<and> j = k then Inr v else rx_lookup_loop j 0 n)"
    unfolding ins_spec_def list.size take0 by blast
  then show ?thesis using that [of r h' n'] by (simp add: rxtree_insert_def rxtree_lookup_def)
qed

lemma rxtree_delete_total:
  assumes "rx_wf [] n"
  obtains r h' n' where "rxtree_delete KF k (h, n) = Inr (r, h', n')" "r = 0 \<or> r = - EINVAL \<and> n' = n" "rx_wf [] n'"
    "\<And>j. rxtree_lookup (h', n') j = (if j = k then Inr NULL else rxtree_lookup (h, n) j)"
proof -
  have "del_spec [] k n (rxtree_delete_node KF k 0 n h)" using assms by (simp add: rx_delete_ok)
  then obtain r n' h' where "rxtree_delete_node KF k 0 n h = Inr (r, n', h')" "r = 0 \<or> r = - EINVAL \<and> n' = n" "rx_wf [] n'"
    "\<And>j. rx_lookup_loop j 0 n' = (if j = k then Inr NULL else rx_lookup_loop j 0 n)"
    unfolding del_spec_def list.size take0 by blast
  then show ?thesis using that [of r h' n'] unfolding rxtree_delete_def rxtree_lookup_def prod.case by simp
qed

lemma rx_lookup_total: "rx_wf ps n \<Longrightarrow> d = length ps \<Longrightarrow> \<exists>v. rx_lookup_loop k d n = Inr v"
proof (induction k d n arbitrary: ps rule: rx_lookup_loop.induct)
  case (2 key depth p leaf v cs)
  show ?case
  proof (cases leaf)
    case False
    then have "length ps < 32" "\<forall>i<4. rx_wf (ps @ [i]) (cs ! i)" using 2(2) by auto
    then show ?thesis
      using 2(1) [of "ps @ [rx_index depth key]"] 2(3) False rx_index_bound [of depth key] by simp
  qed simp
qed simp

text \<open>The result of a call that returns, read as a total function of the state.\<close>

definition returned :: "'a \<Rightarrow> 'a res \<Rightarrow> 'a" where
  "returned d x = (case x of Inl e \<Rightarrow> d | Inr y \<Rightarrow> y)"

lemma returned_Inr [simp]: "returned d (Inr y) = y"
  by (simp add: returned_def)

lemma rx_ret_insert:
  assumes "rx_wf [] (snd s)" and "returned (0, s) (rxtree_insert KM KF k v s) = (r, t)"
  shows "rx_wf [] (snd t)"
    and "returned NULL (rxtree_lookup t j) = (if r = 0 \<and> j = k then v else returned NULL (rxtree_lookup s j))"
proof -
  obtain r' h' n' where "rxtree_insert KM KF k v (fst s, snd s) = Inr (r', h', n')" "rx_wf [] n'"
    "\<And>j. rxtree_lookup (h', n') j = (if r' = 0 \<and> j = k then Inr v else rxtree_lookup (fst s, snd s) j)"
    using rxtree_insert_total [OF assms(1)] by metis
  then show "rx_wf [] (snd t)"
    and "returned NULL (rxtree_lookup t j) = (if r = 0 \<and> j = k then v else returned NULL (rxtree_lookup s j))"
    using assms(2) by auto
qed

lemma rx_ret_delete:
  assumes "rx_wf [] (snd s)" and "t = snd (returned (0, s) (rxtree_delete KF k s))"
  shows "rx_wf [] (snd t)"
    and "returned NULL (rxtree_lookup t j) = (if j = k then NULL else returned NULL (rxtree_lookup s j))"
proof -
  obtain r' h' n' where "rxtree_delete KF k (fst s, snd s) = Inr (r', h', n')" "rx_wf [] n'"
    "\<And>j. rxtree_lookup (h', n') j = (if j = k then Inr NULL else rxtree_lookup (fst s, snd s) j)"
    using rxtree_delete_total [OF assms(1)] by metis
  then show "rx_wf [] (snd t)"
    and "returned NULL (rxtree_lookup t j) = (if j = k then NULL else returned NULL (rxtree_lookup s j))"
    using assms(2) by auto
qed

interpretation rxt: kv_store "\<lambda>s k. returned NULL (rxtree_lookup s k)"
  "\<lambda>k v s. returned (0, s) (rxtree_insert KM KF k v s)"
  "\<lambda>k s. snd (returned (0, s) (rxtree_delete KF k s))" "\<lambda>s. rx_wf [] (snd s)" for KM KF
  by unfold_locales
     (simp_all add: rx_ret_insert(1) rx_ret_insert(2) [of _ KM KF] rx_ret_delete [OF _ refl])

end
