(* ===== verification/Store_Properties.thy ===== *)
theory Store_Properties
  imports Hashtable Radix_Tree
begin

text \<open>
  The two key-value stores of the kernel meet the contract \<open>kv_store\<close>: any sequence of insertions and
  deletions leaves the map that the sequence describes, and neither store ever faults.
\<close>

section \<open>Hash table\<close>

text \<open>
  C7: A hash table that \<^verbatim>\<open>hashtable_init\<close> set up with a power-of-two size answers, after any sequence of
  insertions that found memory and deletions, every lookup with the value the sequence stored last
  under that key, and with \<^verbatim>\<open>NULL\<close> for a key never stored or deleted since; its chains stay in the right
  buckets without duplicates and its element count stays exact.
\<close>

theorem hashtable_refines_map:
  assumes "hashtable_init KC sz (h, t0) = (0, h1, t1)"
    and "htab.all_stored KM KF ops (h1, t1)"
    and "htab.run_ops KM KF ops (h1, t1) = (h2, t2)"
  shows "ht_ok t2 \<and> hashtable_lookup (h2, t2) k = htab.last_value ops k NULL"
proof -
  have "ht_ok t1" and "hashtable_lookup (h1, t1) k = NULL"
    using assms(1) by (auto simp: hashtable_init_def ht_ok_def hashtable_lookup_def EINVAL_def ENOMEM_def split: if_splits prod.splits)
  then show ?thesis using htab.run_ops_lookup [of "(h1, t1)" KM KF ops k] assms(2,3) by simp
qed

definition bump :: "addr \<Rightarrow> addr \<times> addr" where
  "bump h = (h, h + 32)"

definition demo_ops :: "(u64 \<times> addr option) list" where
  "demo_ops = [(0x1000, Some 7), (0x2000, Some 8), (0x1000, Some 9), (0x2000, None)]"

lemma demo_hash: "hash_ptr 0x1000 4 = 1" "hash_ptr 0x2000 4 = 1"
  by code_simp+

abbreviation empty4 :: hashtable where
  "empty4 \<equiv> \<lparr>buckets = (\<lambda>_. []), ht_size = 4, ht_count = 0\<rparr>"

lemma demo_stored: "htab.all_stored bump (\<lambda>_ h. h) demo_ops (80, empty4)"
  unfolding demo_ops_def htab.all_stored.simps
  by (simp add: hashtable_insert_def hashtable_delete_def demo_hash bump_def Let_def)

theorem hashtable_refines_map_witness:
  "ht_ok (snd (htab.run_ops bump (\<lambda>_ h. h) demo_ops (80, empty4))) \<and>
   hashtable_lookup (htab.run_ops bump (\<lambda>_ h. h) demo_ops (80, empty4)) 0x1000 = 9"
proof -
  obtain h2 t2 where run: "htab.run_ops bump (\<lambda>_ h. h) demo_ops (80, empty4) = (h2, t2)" by fastforce
  have "hashtable_init (\<lambda>n sz h. (h, h + n * sz)) 4 (16, empty4) = (0, 80, empty4)"
    by (simp add: hashtable_init_def)
  from hashtable_refines_map [OF this demo_stored run, of "0x1000"] run show ?thesis
    by (simp add: demo_ops_def)
qed

section \<open>Radix tree\<close>

text \<open>
  C8: From an empty radix tree, after any sequence of insertions that found memory and deletions, a
  lookup returns the value stored last under the key and \<^verbatim>\<open>NULL\<close> for the others, without any access
  past the last two bits of the key, although leaves are split, shared prefixes expanded and inner
  nodes collapsed on the way.
\<close>

theorem rxtree_refines_map:
  assumes "rxt.all_stored KM KF ops (h, None)"
    and "rxt.run_ops KM KF ops (h, None) = (h', n')"
  shows "rx_wf [] n' \<and> rxtree_lookup (h', n') k = Inr (rxt.last_value ops k NULL)"
proof -
  have "rx_wf [] n'" and v: "returned NULL (rxtree_lookup (h', n') k) = rxt.last_value ops k NULL"
    using rxt.run_ops_lookup [of "(h, None)" KM KF ops k] assms by (simp_all add: rxtree_lookup_def)
  moreover obtain v where "rxtree_lookup (h', n') k = Inr v"
    using rx_lookup_total [OF \<open>rx_wf [] n'\<close>] by (fastforce simp: rxtree_lookup_def)
  ultimately show ?thesis by simp
qed

definition quota :: "nat \<Rightarrow> bool \<times> nat" where
  "quota n = (n \<noteq> 0, n - 1)"

lemma demo_index: "rx_index 0 0x1000 = 0" "rx_index 0 0x8000000000001000 = 2" "rx_index 0 0x2000 = 0"
  by (simp_all add: rx_index_def RADIX_TREE_MAP_SHIFT_def RADIX_TREE_MAP_SIZE_def)

definition demo_rx_ops :: "(u64 \<times> addr option) list" where
  "demo_rx_ops = [(0x1000, Some 7), (0x8000000000001000, Some 8), (0x1000, Some 9), (0x8000000000001000, None)]"

lemma demo_rx_stored: "rxt.all_stored quota (\<lambda>h. h) demo_rx_ops (9, None)"
  unfolding demo_rx_ops_def rxt.all_stored.simps
  by (simp add: rxtree_insert_def rxtree_delete_def rxtree_insert_node.simps rxtree_delete_node.simps
      rxtree_node_alloc_def quota_def demo_index Let_def collapse_def child_count_def last_child_def)

theorem rxtree_refines_map_witness:
  "rxtree_lookup (rxt.run_ops quota (\<lambda>h. h) demo_rx_ops (9, None)) 0x1000 = Inr 9"
proof -
  obtain h2 t2 where run: "rxt.run_ops quota (\<lambda>h. h) demo_rx_ops (9, None) = (h2, t2)" by fastforce
  from rxtree_refines_map [OF demo_rx_stored run, of "0x1000"] run show ?thesis
    by (simp add: demo_rx_ops_def)
qed

text \<open>
  The radix tree reports its errors and does not fault: an insertion returns 0 or \<^verbatim>\<open>-ENOMEM\<close>, a
  deletion 0 or \<^verbatim>\<open>-EINVAL\<close>, and a failed call leaves every lookup as it was; in particular a split that
  runs out of memory half-way gives the old leaf back.
\<close>

theorem rxtree_errors:
  assumes "rx_wf [] n"
  shows "(\<exists>r h' n'. rxtree_insert KM KF k v (h, n) = Inr (r, h', n') \<and> (r = 0 \<or> r = - ENOMEM) \<and> rx_wf [] n' \<and>
      (r \<noteq> 0 \<longrightarrow> (\<forall>j. rxtree_lookup (h', n') j = rxtree_lookup (h, n) j))) \<and>
    (\<exists>r h' n'. rxtree_delete KF' k (h, n) = Inr (r, h', n') \<and> (r = 0 \<or> r = - EINVAL \<and> n' = n) \<and> rx_wf [] n')"
proof
  show "\<exists>r h' n'. rxtree_insert KM KF k v (h, n) = Inr (r, h', n') \<and> (r = 0 \<or> r = - ENOMEM) \<and> rx_wf [] n' \<and>
      (r \<noteq> 0 \<longrightarrow> (\<forall>j. rxtree_lookup (h', n') j = rxtree_lookup (h, n) j))"
    by (rule rxtree_insert_total [OF assms, of KM KF k v h]) auto
  show "\<exists>r h' n'. rxtree_delete KF' k (h, n) = Inr (r, h', n') \<and> (r = 0 \<or> r = - EINVAL \<and> n' = n) \<and> rx_wf [] n'"
    by (rule rxtree_delete_total [OF assms, of KF' k h]) blast
qed

theorem rxtree_errors_witness:
  "\<exists>r h' n'. rxtree_insert quota (\<lambda>h. h) 0x2000 5 (1, Some (RxNode 0x1000 True 7 no_children)) = Inr (r, h', n') \<and>
     (r = 0 \<or> r = - ENOMEM)"
  using rxtree_errors [of "Some (RxNode 0x1000 True 7 no_children)" quota "\<lambda>h. h" "0x2000" 5 1 "\<lambda>h. h"] by auto

end
