(* ===== verification/Cstring.thy ===== *)
theory Cstring
  imports Kernel_Prelude "HOL-Library.While_Combinator"
begin

text \<open>
  The memory and string routines of \<^verbatim>\<open>src/misc/string.c\<close>, on a byte-addressed memory. Pointer arithmetic
  wraps at 64 bits as it does on the machine. A loop over a string that holds no zero byte does not
  end: such a call is \<open>None\<close>. The static variable of \<^verbatim>\<open>strtok\<close> is an argument and a result.
\<close>

type_synonym mem = "addr \<Rightarrow> u8"

section \<open>Memory blocks\<close>

abbreviation at :: "addr \<Rightarrow> nat \<Rightarrow> addr" where
  "at p i \<equiv> p + of_nat i"

definition copy_byte :: "addr \<Rightarrow> addr \<Rightarrow> nat \<Rightarrow> mem \<Rightarrow> mem" where
  "copy_byte d s i m = m(at d i := m (at s i))"

definition memcpy :: "addr \<Rightarrow> addr \<Rightarrow> u64 \<Rightarrow> mem \<Rightarrow> mem" where
  "memcpy d s n m = fold (copy_byte d s) [0..<unat n] m"

definition memmove :: "addr \<Rightarrow> addr \<Rightarrow> u64 \<Rightarrow> mem \<Rightarrow> mem" where
  "memmove d s n m =
     (if d < s then fold (copy_byte d s) [0..<unat n] m
      else if d > s then fold (copy_byte d s) (rev [0..<unat n]) m
      else m)"

definition memset :: "addr \<Rightarrow> u32 \<Rightarrow> u64 \<Rightarrow> mem \<Rightarrow> mem" where
  "memset s c n m = fold (\<lambda>i m. m(at s i := ucast c)) [0..<unat n] m"

definition memcmp :: "mem \<Rightarrow> addr \<Rightarrow> addr \<Rightarrow> u64 \<Rightarrow> int" where
  "memcmp m p1 p2 n =
     (case find (\<lambda>i. m (at p1 i) \<noteq> m (at p2 i)) [0..<unat n] of
        Some i \<Rightarrow> uint (m (at p1 i)) - uint (m (at p2 i))
      | None \<Rightarrow> 0)"

definition memchr :: "mem \<Rightarrow> addr \<Rightarrow> u32 \<Rightarrow> u64 \<Rightarrow> addr" where
  "memchr m p c n =
     (case find (\<lambda>i. m (at p i) = ucast c) [0..<unat n] of Some i \<Rightarrow> at p i | None \<Rightarrow> NULL)"

section \<open>Strings\<close>

definition strlen :: "mem \<Rightarrow> addr \<Rightarrow> u64 option" where
  "strlen m s = while_option (\<lambda>len. m (s + len) \<noteq> 0) (\<lambda>len. len + 1) 0"

definition strnlen :: "mem \<Rightarrow> addr \<Rightarrow> u64 \<Rightarrow> u64 option" where
  "strnlen m s maxlen = while_option (\<lambda>len. len < maxlen \<and> m (s + len) \<noteq> 0) (\<lambda>len. len + 1) 0"

definition str_append_at :: "addr \<Rightarrow> addr \<Rightarrow> mem \<Rightarrow> mem option" where
  "str_append_at d src m =
     map_option (\<lambda>(i, m). m(d + i := 0))
       (while_option (\<lambda>(i, m). m (src + i) \<noteq> 0) (\<lambda>(i, m). (i + 1, m(d + i := m (src + i)))) (0, m))"

definition strcpy :: "addr \<Rightarrow> addr \<Rightarrow> mem \<Rightarrow> mem option" where
  "strcpy dest src m = str_append_at dest src m"

definition strncpy :: "addr \<Rightarrow> addr \<Rightarrow> u64 \<Rightarrow> mem \<Rightarrow> mem option" where
  "strncpy dest src n m =
     Option.bind
       (while_option (\<lambda>(i, m). i < n \<and> m (src + i) \<noteq> 0) (\<lambda>(i, m). (i + 1, m(dest + i := m (src + i)))) (0, m))
       (\<lambda>st. map_option snd (while_option (\<lambda>(i, m). i < n) (\<lambda>(i, m). (i + 1, m(dest + i := 0))) st))"

definition strcat :: "addr \<Rightarrow> addr \<Rightarrow> mem \<Rightarrow> mem option" where
  "strcat dest src m = Option.bind (strlen m dest) (\<lambda>dest_len. str_append_at (dest + dest_len) src m)"

definition strncat :: "addr \<Rightarrow> addr \<Rightarrow> u64 \<Rightarrow> mem \<Rightarrow> mem option" where
  "strncat dest src n m =
     Option.bind (strlen m dest) (\<lambda>dest_len.
       map_option (\<lambda>(i, m). m(dest + dest_len + i := 0))
         (while_option (\<lambda>(i, m). i < n \<and> m (src + i) \<noteq> 0)
            (\<lambda>(i, m). (i + 1, m(dest + dest_len + i := m (src + i)))) (0, m)))"

definition byte_diff :: "mem \<Rightarrow> addr \<Rightarrow> addr \<Rightarrow> int" where
  "byte_diff m p q = uint (m p) - uint (m q)"

definition strcmp :: "mem \<Rightarrow> addr \<Rightarrow> addr \<Rightarrow> int option" where
  "strcmp m s1 s2 =
     map_option (\<lambda>(s1, s2). byte_diff m s1 s2)
       (while_option (\<lambda>(s1, s2). m s1 \<noteq> 0 \<and> m s1 = m s2) (\<lambda>(s1, s2). (s1 + 1, s2 + 1)) (s1, s2))"

definition strncmp :: "mem \<Rightarrow> addr \<Rightarrow> addr \<Rightarrow> u64 \<Rightarrow> int option" where
  "strncmp m s1 s2 n =
     (if n = 0 then Some 0
      else map_option (\<lambda>(s1, s2, n). byte_diff m s1 s2)
             (while_option (\<lambda>(s1, s2, n). 1 < n \<and> m s1 \<noteq> 0 \<and> m s1 = m s2)
                (\<lambda>(s1, s2, n). (s1 + 1, s2 + 1, n - 1)) (s1, s2, n)))"

definition strchr :: "mem \<Rightarrow> addr \<Rightarrow> u32 \<Rightarrow> addr option" where
  "strchr m s c =
     map_option (\<lambda>s. if m s \<noteq> ucast c then NULL else s)
       (while_option (\<lambda>s. m s \<noteq> ucast c \<and> m s \<noteq> 0) (\<lambda>s. s + 1) s)"

definition strrchr :: "mem \<Rightarrow> addr \<Rightarrow> u32 \<Rightarrow> addr option" where
  "strrchr m s c =
     (let visit = (\<lambda>(s, last). if m s = ucast c then s else last)
      in map_option visit
           (while_option (\<lambda>(s, last). m s \<noteq> 0) (\<lambda>(s, last). (s + 1, visit (s, last))) (s, NULL)))"

definition strstr :: "mem \<Rightarrow> addr \<Rightarrow> addr \<Rightarrow> addr option" where
  "strstr m haystack needle =
     (if m needle = 0 then Some haystack
      else
        Option.bind (strlen m needle) (\<lambda>needle_len.
        Option.bind (strlen m haystack) (\<lambda>haystack_len.
          if needle_len > haystack_len then Some NULL
          else case find (\<lambda>i. memcmp m (at haystack i) needle needle_len = 0)
                      [0..<Suc (unat (haystack_len - needle_len))] of
                 Some i \<Rightarrow> Some (at haystack i)
               | None \<Rightarrow> Some NULL)))"

text \<open>The loops that call \<^verbatim>\<open>strchr\<close> on the current byte while it is (\<open>want\<close>) or is not in the set; the number
  of bytes they count is the distance they move.\<close>

partial_function (option) span_loop :: "mem \<Rightarrow> bool \<Rightarrow> addr \<Rightarrow> addr \<Rightarrow> addr option" where
  "span_loop m want chars s =
     (if m s = 0 then Some s
      else Option.bind (strchr m chars (ucast (m s))) (\<lambda>p.
             if (p \<noteq> NULL) = want then span_loop m want chars (s + 1) else Some s))"

definition strspn :: "mem \<Rightarrow> addr \<Rightarrow> addr \<Rightarrow> u64 option" where
  "strspn m s accept = map_option (\<lambda>e. e - s) (span_loop m True accept s)"

definition strcspn :: "mem \<Rightarrow> addr \<Rightarrow> addr \<Rightarrow> u64 option" where
  "strcspn m s reject = map_option (\<lambda>e. e - s) (span_loop m False reject s)"

definition strpbrk :: "mem \<Rightarrow> addr \<Rightarrow> addr \<Rightarrow> addr option" where
  "strpbrk m s accept = map_option (\<lambda>e. if m e = 0 then NULL else e) (span_loop m False accept s)"

definition strtok :: "addr \<Rightarrow> addr \<Rightarrow> addr \<Rightarrow> mem \<Rightarrow> (addr \<times> addr \<times> mem) option" where
  "strtok str delim saved m =
     (if str = NULL \<and> saved = NULL then Some (NULL, saved, m)
      else
        Option.bind (span_loop m True delim (if str \<noteq> NULL then str else saved)) (\<lambda>token.
          if m token = 0 then Some (NULL, NULL, m)
          else
            Option.bind (span_loop m False delim token) (\<lambda>e.
              if m e \<noteq> 0 then Some (token, e + 1, m(e := 0)) else Some (token, NULL, m))))"

section \<open>Blocks\<close>

text \<open>A block of \<open>n\<close> bytes at \<open>p\<close> that does not run past the end of the address space.\<close>

definition fits :: "addr \<Rightarrow> nat \<Rightarrow> bool" where
  "fits p n \<longleftrightarrow> unat p + n \<le> 2 ^ 64"

lemma unat_at: "fits p n \<Longrightarrow> i < n \<Longrightarrow> unat (at p i) = unat p + i"
proof -
  assume "fits p n" "i < n"
  then have "unat p + i < 2 ^ LENGTH(64)" "i < 2 ^ LENGTH(64)" by (auto simp: fits_def)
  then show ?thesis by (simp only: unat_word_ariths unat_of_nat_small mod_less)
qed

lemma of_nat_inj64:
  assumes "i < 2 ^ 64" and "j < 2 ^ 64" and "(of_nat i :: u64) = of_nat j"
  shows "i = j"
proof -
  have "unat (of_nat i :: u64) = unat (of_nat j :: u64)" using assms(3) by (rule arg_cong)
  moreover have "i < 2 ^ LENGTH(64)" "j < 2 ^ LENGTH(64)" using assms(1,2) by simp_all
  ultimately show ?thesis by (simp only: unat_of_nat_small)
qed

lemma at_inj: "i < 2 ^ 64 \<Longrightarrow> j < 2 ^ 64 \<Longrightarrow> at p i = at p j \<longleftrightarrow> i = j"
  by (metis add_left_imp_eq of_nat_inj64)

lemma at_at: "at (at p i) j = at p (i + j)"
  by (simp add: add.assoc)

lemma fits_bound: "fits p n \<Longrightarrow> i < n \<Longrightarrow> i < 2 ^ 64"
  by (simp add: fits_def)

text \<open>A run of byte copies whose later sources are not overwritten by earlier targets.\<close>

lemma fold_copy_other: "a \<notin> at d ` set is \<Longrightarrow> fold (copy_byte d s) is m a = m a"
  by (induction "is" arbitrary: m) (auto simp: copy_byte_def)

lemma fold_copy:
  assumes "distinct is" and "inj_on (at d) (set is)"
    and "\<And>xs i ys j. is = xs @ i # ys \<Longrightarrow> j \<in> set xs \<Longrightarrow> at s i \<noteq> at d j"
  shows "i \<in> set is \<Longrightarrow> fold (copy_byte d s) is m (at d i) = m (at s i)"
  using assms
proof (induction "is" arbitrary: m)
  case (Cons k "is")
  have later: "at s i \<noteq> at d j" if "is = xs @ i # ys" "j \<in> set xs" for xs i ys j
    using Cons.prems(4) [of "k # xs" i ys j] that by simp
  have first: "at s j \<noteq> at d k" if j: "j \<in> set is" for j
  proof -
    obtain xs ys where "is = xs @ j # ys" using j by (meson split_list)
    then show ?thesis using Cons.prems(4) [of "k # xs" j ys k] by simp
  qed
  show ?case
  proof (cases "i = k")
    case True
    have "at d k \<notin> at d ` set is" using Cons.prems(2,3) by (auto simp: inj_on_def)
    then show ?thesis using True by (simp add: fold_copy_other) (simp add: copy_byte_def)
  next
    case False
    then have i: "i \<in> set is" using Cons.prems(1) by simp
    have "fold (copy_byte d s) is (copy_byte d s k m) (at d i) = copy_byte d s k m (at s i)"
      by (rule Cons.IH [OF i]) (use Cons.prems later in auto)
    also have "\<dots> = m (at s i)" using first [OF i] by (simp add: copy_byte_def)
    finally show ?thesis by simp
  qed
qed simp

lemma upt_split_less:
  "[0..<n] = xs @ i # ys \<Longrightarrow> j \<in> set xs \<Longrightarrow> j < i \<and> i < n"
proof -
  assume e: "[0..<n] = xs @ i # ys" and j: "j \<in> set xs"
  have "sorted (xs @ i # ys)" "distinct (xs @ i # ys)" using e by (metis sorted_upt, metis distinct_upt)
  then have "j \<le> i" "j \<noteq> i" using j by (auto simp: sorted_append)
  moreover have "i \<in> set [0..<n]" unfolding e by simp
  ultimately show ?thesis by simp
qed

lemma rev_upt_split_less:
  assumes "rev [0..<n] = xs @ i # ys" and "j \<in> set xs"
  shows "i < j \<and> j < n"
proof -
  have e: "[0..<n] = rev ys @ i # rev xs" using arg_cong [OF assms(1), of rev] by simp
  obtain us vs where "rev xs = us @ j # vs" using assms(2) by (metis set_rev split_list)
  then show ?thesis using upt_split_less [of n "rev ys @ i # us" j vs i] e by simp
qed

lemma inj_at: "fits d n \<Longrightarrow> inj_on (at d) {0..<n}"
  by (rule inj_onI) (metis at_inj atLeastLessThan_iff fits_bound)

lemma memmove_copies:
  assumes fd: "fits d (unat n)" and fs: "fits s (unat n)" and i: "i < unat n"
  shows "memmove d s n m (at d i) = m (at s i)"
proof -
  have u: "unat (at d j) = unat d + j" "unat (at s j) = unat s + j" if "j < unat n" for j
    using unat_at fd fs that by blast+
  consider "d < s" | "s < d" | "d = s" by force
  then show ?thesis
  proof cases
    case 1
    have "fold (copy_byte d s) [0..<unat n] m (at d i) = m (at s i)"
    proof (rule fold_copy)
      fix xs k ys j assume "[0..<unat n] = xs @ k # ys" "j \<in> set xs"
      then have "j < k" "k < unat n" using upt_split_less by auto
      then show "at s k \<noteq> at d j" using u [of j] u [of k] 1 by (auto simp: word_less_nat_alt)
    qed (use i inj_at [OF fd] in auto)
    then show ?thesis using 1 by (simp add: memmove_def)
  next
    case 2
    have "fold (copy_byte d s) (rev [0..<unat n]) m (at d i) = m (at s i)"
    proof (rule fold_copy)
      fix xs k ys j assume "rev [0..<unat n] = xs @ k # ys" "j \<in> set xs"
      then have "k < j" "j < unat n" using rev_upt_split_less by auto
      then show "at s k \<noteq> at d j" using u [of j] u [of k] 2 by (auto simp: word_less_nat_alt)
    qed (use i inj_at [OF fd] in auto)
    then show ?thesis using 2 by (auto simp: memmove_def)
  next
    case 3
    then show ?thesis by (simp add: memmove_def)
  qed
qed

lemma memmove_frame: "a \<notin> at d ` {..<unat n} \<Longrightarrow> memmove d s n m a = m a"
  by (auto simp: memmove_def fold_copy_other lessThan_atLeast0)

section \<open>Strings as byte sequences\<close>

text \<open>The zero-terminated string at \<open>s\<close> is \<open>xs\<close>; its object is not null and does not wrap around.\<close>

definition cstr :: "mem \<Rightarrow> addr \<Rightarrow> u8 list \<Rightarrow> bool" where
  "cstr m s xs \<longleftrightarrow> s \<noteq> NULL \<and> fits s (length xs + 1) \<and>
     (\<forall>i<length xs. m (at s i) = xs ! i \<and> xs ! i \<noteq> 0) \<and> m (at s (length xs)) = 0"

lemma while_option_trace:
  assumes "\<And>k. k < n \<Longrightarrow> b (f k) \<and> c (f k) = f (Suc k)" and "\<not> b (f n)" and "f 0 = s"
  shows "while_option b c s = Some (f n)"
  using assms
proof (induction n arbitrary: f s)
  case 0
  then show ?case by (subst while_option_unfold) auto
next
  case (Suc n)
  have "while_option b c (f (Suc 0)) = Some (f (Suc n))"
    using Suc.prems by (intro Suc.IH [of "\<lambda>k. f (Suc k)"]) auto
  then show ?case using Suc.prems(1) [of 0] Suc.prems(3) by (subst while_option_unfold) auto
qed

lemma cstr_nth: "cstr m s xs \<Longrightarrow> i < length xs \<Longrightarrow> m (at s i) = xs ! i \<and> xs ! i \<noteq> 0"
  by (simp add: cstr_def)

lemma cstr_end: "cstr m s xs \<Longrightarrow> m (at s (length xs)) = 0"
  by (simp add: cstr_def)

lemma cstr_len: "cstr m s xs \<Longrightarrow> length xs < 2 ^ 64"
  by (simp add: cstr_def fits_def)

lemma cstr_not_null:
  assumes "cstr m s xs" and "i \<le> length xs"
  shows "at s i \<noteq> NULL"
proof -
  have "unat (at s i) = unat s + i" using assms by (intro unat_at) (auto simp: cstr_def)
  moreover have "unat s \<noteq> 0" using assms by (simp add: cstr_def)
  ultimately show ?thesis by (metis add_is_0 unat_0)
qed

lemma cstr_drop:
  assumes "cstr m s xs" and "i \<le> length xs"
  shows "cstr m (at s i) (drop i xs)"
proof -
  have "unat (at s i) = unat s + i" using assms by (intro unat_at) (auto simp: cstr_def)
  then have "fits (at s i) (length (drop i xs) + 1)" using assms by (simp add: cstr_def fits_def)
  moreover have "m (at (at s i) j) = drop i xs ! j \<and> drop i xs ! j \<noteq> 0" if "j < length (drop i xs)" for j
    using that cstr_nth [OF assms(1), of "i + j"] by (simp add: add.assoc)
  moreover have "m (at (at s i) (length (drop i xs))) = 0"
    using cstr_end [OF assms(1)] assms(2) by (simp add: of_nat_diff)
  ultimately show ?thesis using cstr_not_null [OF assms] by (simp add: cstr_def)
qed

lemma cstr_head: "cstr m s xs \<Longrightarrow> m s = (case xs of [] \<Rightarrow> 0 | x # _ \<Rightarrow> x)"
  by (cases xs) (auto simp: cstr_def)

lemma cstr_Cons: "cstr m s (x # xs) \<Longrightarrow> m s = x \<and> x \<noteq> 0 \<and> cstr m (s + 1) xs"
  using cstr_drop [of m s "x # xs" 1] cstr_nth [of m s "x # xs" 0] by auto

lemma cstr_Nil: "cstr m s [] \<Longrightarrow> m s = 0"
  by (simp add: cstr_def)

lemma cstr_nonzero: "cstr m s xs \<Longrightarrow> x \<in> set xs \<Longrightarrow> x \<noteq> 0"
  by (auto simp: cstr_def in_set_conv_nth)

lemma cstr_cong: "cstr m s xs \<Longrightarrow> (\<And>i. i \<le> length xs \<Longrightarrow> m' (at s i) = m (at s i)) \<Longrightarrow> cstr m' s xs"
  by (simp add: cstr_def)

text \<open>Lengths.\<close>

lemma strlen_cstr: "cstr m s xs \<Longrightarrow> strlen m s = Some (of_nat (length xs))"
  unfolding strlen_def by (rule while_option_trace) (auto simp: cstr_nth cstr_end add.commute)

lemma strnlen_cstr:
  assumes "cstr m s xs"
  shows "strnlen m s n = Some (of_nat (min (length xs) (unat n)))"
  unfolding strnlen_def
proof (rule while_option_trace)
  fix k assume k: "k < min (length xs) (unat n)"
  then have "unat (of_nat k :: u64) = k" using cstr_len [OF assms] by (intro unat_of_nat_small) simp
  then show "(of_nat k < n \<and> m (s + of_nat k) \<noteq> 0) \<and> of_nat k + 1 = (of_nat (Suc k) :: u64)"
    using k cstr_nth [OF assms] by (simp add: word_less_nat_alt add.commute)
next
  show "\<not> (of_nat (min (length xs) (unat n)) < n \<and> m (at s (min (length xs) (unat n))) \<noteq> 0)"
    using cstr_end [OF assms] by (auto simp: min_def)
qed simp

text \<open>Copies into a region that does not overlap the source.\<close>

definition apart :: "addr \<Rightarrow> nat \<Rightarrow> addr \<Rightarrow> nat \<Rightarrow> bool" where
  "apart p n q k \<longleftrightarrow> (\<forall>i<n. \<forall>j<k. at p i \<noteq> at q j)"

lemma apartD: "apart p n q k \<Longrightarrow> i < n \<Longrightarrow> j < k \<Longrightarrow> at p i \<noteq> at q j"
  by (simp add: apart_def)

lemma fold_copy_step:
  "fold (copy_byte d s) [0..<Suc k] m = (fold (copy_byte d s) [0..<k] m)(at d k := fold (copy_byte d s) [0..<k] m (at s k))"
  by (simp add: copy_byte_def [of d s k])

lemma fold_copy_apart:
  assumes "apart d n s k" and "j < k" and "l \<le> n"
  shows "fold (copy_byte d s) [0..<l] m (at s j) = m (at s j)"
proof (rule fold_copy_other, rule notI)
  assume "at s j \<in> at d ` set [0..<l]"
  then obtain i where "i < l" "at s j = at d i" by auto
  then show False using apartD [OF assms(1), of i j] assms(2,3) by simp
qed

lemma fold_copy_target:
  assumes "apart d n s n" and "fits d n" and "i < n"
  shows "fold (copy_byte d s) [0..<n] m (at d i) = m (at s i)"
proof (rule fold_copy)
  fix xs k ys j assume "[0..<n] = xs @ k # ys" "j \<in> set xs"
  then show "at s k \<noteq> at d j" using upt_split_less [of n xs k ys j] apartD [OF assms(1), of j k] by fastforce
qed (use assms inj_at [OF assms(2)] in auto)

lemma str_append_at_trace:
  assumes "cstr m src xs" and "apart d (length xs + 1) src (length xs + 1)"
  shows "str_append_at d src m = Some ((fold (copy_byte d src) [0..<length xs] m)(at d (length xs) := 0))"
proof -
  let ?f = "\<lambda>k. (of_nat k :: u64, fold (copy_byte d src) [0..<k] m)"
  have src: "snd (?f k) (at src j) = m (at src j)" if "j \<le> length xs" "k \<le> length xs" for j k
    using fold_copy_apart [OF assms(2), of j k] that by simp
  have "while_option (\<lambda>(i, m). m (src + i) \<noteq> 0) (\<lambda>(i, m). (i + 1, m(d + i := m (src + i)))) (0, m) = Some (?f (length xs))"
    by (rule while_option_trace)
       (use src cstr_nth [OF assms(1)] cstr_end [OF assms(1)] in
         \<open>auto simp del: upt_Suc simp: fold_copy_step add.commute\<close>)
  then show ?thesis by (simp add: str_append_at_def)
qed

lemma str_append_at_cstr:
  assumes "cstr m src xs" and "apart d (length xs + 1) src (length xs + 1)" and "d \<noteq> NULL" and "fits d (length xs + 1)"
  obtains m' where "str_append_at d src m = Some m'" "cstr m' d xs"
    "\<And>a. a \<notin> at d ` {..length xs} \<Longrightarrow> m' a = m a"
proof
  let ?c = "fold (copy_byte d src) [0..<length xs] m"
  show "str_append_at d src m = Some (?c(at d (length xs) := 0))" by (rule str_append_at_trace [OF assms(1,2)])
  have "at d i \<noteq> at d (length xs)" if "i < length xs" for i
    using at_inj [of i "length xs" d] that cstr_len [OF assms(1)] by simp
  moreover have "?c (at d i) = xs ! i" if "i < length xs" for i
    using fold_copy_target [of d "length xs" src i m] assms(2,4) that cstr_nth [OF assms(1) that]
    by (simp add: apart_def fits_def)
  ultimately show "cstr (?c(at d (length xs) := 0)) d xs"
    using assms(3,4) cstr_nth [OF assms(1)] by (auto simp: cstr_def)
  show "(?c(at d (length xs) := 0)) a = m a" if "a \<notin> at d ` {..length xs}" for a
  proof -
    have "a \<notin> at d ` set [0..<length xs]" "a \<noteq> at d (length xs)" using that by auto
    then show ?thesis by (simp add: fold_copy_other)
  qed
qed

lemma cstr_append:
  assumes "cstr m d xs" and "cstr m' (at d (length xs)) ys" and "fits d (length xs + length ys + 1)"
    and "\<And>i. i < length xs \<Longrightarrow> m' (at d i) = m (at d i)"
  shows "cstr m' d (xs @ ys)"
proof -
  have "m' (at d i) = (xs @ ys) ! i \<and> (xs @ ys) ! i \<noteq> 0" if i: "i < length (xs @ ys)" for i
  proof (cases "i < length xs")
    case True
    then show ?thesis using assms(4) cstr_nth [OF assms(1)] by (simp add: nth_append)
  next
    case False
    then have "at d i = at (at d (length xs)) (i - length xs)" by (simp flip: of_nat_add add: add.assoc)
    then show ?thesis using False i cstr_nth [OF assms(2), of "i - length xs"] by (simp add: nth_append)
  qed
  moreover have "m' (at d (length (xs @ ys))) = 0" using cstr_end [OF assms(2)] by (simp add: add.assoc)
  ultimately show ?thesis using assms(1,3) by (simp add: cstr_def add.assoc)
qed

lemma strcat_cstr:
  assumes d: "cstr m d xs" and s: "cstr m src ys" and room: "fits d (length xs + length ys + 1)"
    and "apart d (length xs + length ys + 1) src (length ys + 1)"
  obtains m' where "strcat d src m = Some m'" "cstr m' d (xs @ ys)"
proof -
  let ?e = "at d (length xs)"
  have e: "unat ?e = unat d + length xs" by (rule unat_at [OF room]) simp
  have "apart ?e (length ys + 1) src (length ys + 1)"
    unfolding apart_def
  proof (intro allI impI)
    fix i j assume "i < length ys + 1" "j < length ys + 1"
    then have "at d (length xs + i) \<noteq> at src j" by (intro apartD [OF assms(4)]) simp_all
    then show "at ?e i \<noteq> at src j" unfolding at_at .
  qed
  moreover have "fits ?e (length ys + 1)" using e room by (simp add: fits_def)
  ultimately obtain m' where m': "str_append_at ?e src m = Some m'" "cstr m' ?e ys"
    "\<And>a. a \<notin> at ?e ` {..length ys} \<Longrightarrow> m' a = m a"
    using str_append_at_cstr [OF s _ cstr_not_null [OF d order.refl]] by metis
  have "m' (at d i) = m (at d i)" if "i < length xs" for i
  proof (rule m'(3))
    have "at d i \<noteq> at d (length xs + j)" if "j \<le> length ys" for j
      using at_inj [of i "length xs + j" d] that \<open>i < length xs\<close> fits_bound [OF room] by simp
    then show "at d i \<notin> at ?e ` {..length ys}" unfolding image_iff at_at by blast
  qed
  then have "cstr m' d (xs @ ys)" using cstr_append [OF d m'(2) room] by blast
  then show ?thesis using that m'(1) strlen_cstr [OF d] by (simp add: strcat_def)
qed

section \<open>Comparison\<close>

text \<open>The order of byte strings, with the end of a string below every byte.\<close>

fun str_order :: "u8 list \<Rightarrow> u8 list \<Rightarrow> int" where
  "str_order [] [] = 0"
| "str_order [] (y # ys) = - uint y"
| "str_order (x # xs) [] = uint x"
| "str_order (x # xs) (y # ys) = (if x = y then str_order xs ys else uint x - uint y)"

lemma str_order_eq_0:
  "\<forall>x\<in>set xs. x \<noteq> 0 \<Longrightarrow> \<forall>y\<in>set ys. y \<noteq> 0 \<Longrightarrow> str_order xs ys = 0 \<longleftrightarrow> xs = ys"
proof (induction xs ys rule: str_order.induct)
  case (4 x xs y ys)
  have "uint x = uint y \<longleftrightarrow> x = y" by (simp add: word_uint_eq_iff)
  then show ?case using 4 by auto
qed (auto simp: uint_0_iff)

lemma str_order_antisym: "str_order ys xs = - str_order xs ys"
  by (induction xs ys rule: str_order.induct) auto

lemma strcmp_step:
  "strcmp m s t = (if m s \<noteq> 0 \<and> m s = m t then strcmp m (s + 1) (t + 1) else Some (byte_diff m s t))"
  unfolding strcmp_def by (subst while_option_unfold) simp

lemma strcmp_cstr: "cstr m s xs \<Longrightarrow> cstr m t ys \<Longrightarrow> strcmp m s t = Some (str_order xs ys)"
proof (induction xs ys arbitrary: s t rule: str_order.induct)
  case (4 x xs y ys)
  then have "m s = x" "x \<noteq> 0" "m t = y" "cstr m (s + 1) xs" "cstr m (t + 1) ys" using cstr_Cons by blast+
  moreover from this have "strcmp m (s + 1) (t + 1) = Some (str_order xs ys)" if "x = y" using 4 that by simp
  ultimately show ?case by (subst strcmp_step) (simp add: byte_diff_def)
next
  case 1
  then show ?case using cstr_Nil [OF 1(1)] cstr_Nil [OF 1(2)] by (subst strcmp_step) (simp add: byte_diff_def)
next
  case (2 y ys)
  then show ?case using cstr_Nil [OF 2(1)] cstr_Cons [OF 2(2)] by (subst strcmp_step) (simp add: byte_diff_def)
next
  case (3 x xs)
  then show ?case using cstr_Nil [OF 3(2)] cstr_Cons [OF 3(1)] by (subst strcmp_step) (simp add: byte_diff_def)
qed

lemma strncmp_step:
  "strncmp m s t n = (if n = 0 then Some 0
     else if 1 < n \<and> m s \<noteq> 0 \<and> m s = m t then strncmp m (s + 1) (t + 1) (n - 1) else Some (byte_diff m s t))"
proof -
  have "n - 1 \<noteq> 0" if "1 < n" using that by auto
  then show ?thesis unfolding strncmp_def by (subst while_option_unfold) auto
qed

lemma strncmp_cstr:
  "cstr m s xs \<Longrightarrow> cstr m t ys \<Longrightarrow> strncmp m s t n = Some (str_order (take (unat n) xs) (take (unat n) ys))"
proof (induction xs ys arbitrary: s t n rule: str_order.induct)
  case (4 x xs y ys)
  then have c: "m s = x" "x \<noteq> 0" "m t = y" "cstr m (s + 1) xs" "cstr m (t + 1) ys" using cstr_Cons by blast+
  show ?case
  proof (cases "n = 0")
    case False
    then have n: "unat n = Suc (unat (n - 1))" using unat_eq_0 [of n] by (simp add: unat_minus_one del: unat_eq_0)
    have "strncmp m (s + 1) (t + 1) (n - 1) = Some (str_order (take (unat (n - 1)) xs) (take (unat (n - 1)) ys))" if "x = y"
      using 4 that c by simp
    moreover have "n = 1" if "\<not> 1 < n" using that False by (meson linorder_neqE word_less_1)
    ultimately show ?thesis
      using c n False by (subst strncmp_step) (auto simp: byte_diff_def)
  qed (subst strncmp_step, simp)
next
  case 1
  then show ?case using cstr_Nil [OF 1(1)] cstr_Nil [OF 1(2)] by (subst strncmp_step) (simp add: byte_diff_def)
next
  case (2 y ys)
  then show ?case using cstr_Nil [OF 2(1)] cstr_Cons [OF 2(2)]
    by (subst strncmp_step) (simp add: byte_diff_def take_Cons')
next
  case (3 x xs)
  then show ?case using cstr_Nil [OF 3(2)] cstr_Cons [OF 3(1)]
    by (subst strncmp_step) (simp add: byte_diff_def take_Cons')
qed

lemma memcmp_eq_0: "memcmp m p q n = 0 \<longleftrightarrow> (\<forall>i<unat n. m (at p i) = m (at q i))"
proof (cases "find (\<lambda>i. m (at p i) \<noteq> m (at q i)) [0..<unat n]")
  case None
  then have "\<forall>i<unat n. m (at p i) = m (at q i)" by (auto simp: find_None_iff)
  then show ?thesis using None by (simp add: memcmp_def)
next
  case (Some i)
  then have "i < unat n" "m (at p i) \<noteq> m (at q i)" by (auto simp: find_Some_iff)
  moreover from this have "uint (m (at p i)) - uint (m (at q i)) \<noteq> 0" by (simp add: word_uint_eq_iff)
  ultimately show ?thesis using Some by (auto simp: memcmp_def)
qed

section \<open>Searching\<close>

lemma strchr_step:
  "strchr m s c = (if m s \<noteq> ucast c \<and> m s \<noteq> 0 then strchr m (s + 1) c else Some (if m s \<noteq> ucast c then NULL else s))"
  unfolding strchr_def by (subst while_option_unfold) simp

lemma strchr_cstr:
  "cstr m s xs \<Longrightarrow> strchr m s c =
    (let n = length (takeWhile (\<lambda>x. x \<noteq> ucast c) xs)
     in Some (if n < length xs \<or> ucast c = (0 :: u8) then at s n else NULL))"
proof (induction xs arbitrary: s)
  case Nil
  then show ?case using cstr_Nil [OF Nil] by (subst strchr_step) auto
next
  case (Cons x xs)
  then have c: "m s = x" "x \<noteq> 0" "cstr m (s + 1) xs" using cstr_Cons by blast+
  then show ?case using Cons.IH [OF c(3)] by (subst strchr_step) (auto simp: Let_def add.assoc)
qed

lemma strchr_member:
  assumes "cstr m s xs" and "x \<noteq> 0"
  obtains p where "strchr m s (ucast (x :: u8)) = Some p" "p \<noteq> NULL \<longleftrightarrow> x \<in> set xs"
proof -
  have u: "ucast (ucast x :: u32) = x" by (simp add: ucast_up_ucast_id is_up)
  let ?n = "length (takeWhile (\<lambda>y. y \<noteq> x) xs)"
  have mem: "?n < length xs \<longleftrightarrow> x \<in> set xs"
    by (induction xs) auto
  have "at s ?n \<noteq> NULL" by (rule cstr_not_null [OF assms(1) length_takeWhile_le])
  then have "strchr m s (ucast x) = Some (if ?n < length xs then at s ?n else NULL)"
    and "(if ?n < length xs then at s ?n else NULL) \<noteq> NULL \<longleftrightarrow> x \<in> set xs"
    using strchr_cstr [OF assms(1), of "ucast x"] assms(2) mem by (simp_all add: u Let_def)
  then show ?thesis by (rule that)
qed

lemma span_loop_cstr:
  assumes "cstr m cs ds"
  shows "cstr m s xs \<Longrightarrow> span_loop m want cs s = Some (at s (length (takeWhile (\<lambda>x. (x \<in> set ds) = want) xs)))"
proof (induction xs arbitrary: s)
  case Nil
  then show ?case using cstr_Nil [OF Nil] by (subst span_loop.simps) simp
next
  case (Cons x xs)
  then have c: "m s = x" "x \<noteq> 0" "cstr m (s + 1) xs" using cstr_Cons by blast+
  obtain p where p: "strchr m cs (ucast x) = Some p" "p \<noteq> NULL \<longleftrightarrow> x \<in> set ds" by (rule strchr_member [OF assms c(2)])
  show ?case
  proof (cases "(x \<in> set ds) = want")
    case True
    then have "span_loop m want cs s = span_loop m want cs (s + 1)" using c p by (subst span_loop.simps) simp
    then show ?thesis using True Cons.IH [OF c(3)] by (simp add: add.assoc)
  next
    case False
    then have "span_loop m want cs s = Some s" using c p by (subst span_loop.simps) auto
    then show ?thesis using False by auto
  qed
qed

lemma strspn_cstr:
  "cstr m s xs \<Longrightarrow> cstr m cs ds \<Longrightarrow> strspn m s cs = Some (of_nat (length (takeWhile (\<lambda>x. x \<in> set ds) xs)))"
  "cstr m s xs \<Longrightarrow> cstr m cs ds \<Longrightarrow> strcspn m s cs = Some (of_nat (length (takeWhile (\<lambda>x. x \<notin> set ds) xs)))"
  by (simp_all add: strspn_def strcspn_def span_loop_cstr)

lemma occurrence_iff:
  assumes h: "cstr m h xs" and n: "cstr m p ys" and i: "i + length ys \<le> length xs"
  shows "memcmp m (at h i) p (of_nat (length ys)) = 0 \<longleftrightarrow> take (length ys) (drop i xs) = ys"
proof -
  have "unat (of_nat (length ys) :: u64) = length ys" using cstr_len [OF n] by (intro unat_of_nat_small) simp
  moreover have "m (at (at h i) j) = xs ! (i + j)" "m (at p j) = ys ! j" if "j < length ys" for j
    using that i cstr_nth [OF h, of "i + j"] cstr_nth [OF n that] unfolding at_at by simp_all
  ultimately show ?thesis using i by (auto simp: memcmp_eq_0 list_eq_iff_nth_eq)
qed

text \<open>The first position at which \<open>ys\<close> occurs in \<open>xs\<close>.\<close>

definition first_occurrence :: "u8 list \<Rightarrow> u8 list \<Rightarrow> nat option" where
  "first_occurrence xs ys = find (\<lambda>i. take (length ys) (drop i xs) = ys) [0..<Suc (length xs)]"

lemma find_cong_on: "(\<And>x. x \<in> set xs \<Longrightarrow> P x = Q x) \<Longrightarrow> find P xs = find Q xs"
  by (induction xs) auto

lemma find_append: "find P (xs @ ys) = (case find P xs of None \<Rightarrow> find P ys | Some x \<Rightarrow> Some x)"
  by (induction xs) auto

lemma first_occurrence_short:
  "first_occurrence xs ys = (if length xs < length ys then None
     else find (\<lambda>i. take (length ys) (drop i xs) = ys) [0..<Suc (length xs - length ys)])"
proof -
  have no: "take (length ys) (drop i xs) \<noteq> ys" if "length xs < i + length ys" "i \<le> length xs" for i
  proof
    assume "take (length ys) (drop i xs) = ys"
    then have "min (length xs - i) (length ys) = length ys" by (metis length_drop length_take min.commute)
    then show False using that by linarith
  qed
  show ?thesis
  proof (cases "length xs < length ys")
    case True
    then show ?thesis using no by (auto simp: first_occurrence_def find_None_iff simp del: upt_Suc)
  next
    case False
    then have "[0..<Suc (length xs)] = [0..<Suc (length xs - length ys)] @ [Suc (length xs - length ys)..<Suc (length xs)]"
      using upt_add_eq_append [of 0 "Suc (length xs - length ys)" "length ys"] by simp
    moreover have "find (\<lambda>i. take (length ys) (drop i xs) = ys) [Suc (length xs - length ys)..<Suc (length xs)] = None"
      using no by (auto simp: find_None_iff simp del: upt_Suc)
    ultimately show ?thesis using False by (simp add: first_occurrence_def find_append del: upt_Suc split: option.splits)
  qed
qed

lemma strstr_cstr:
  assumes h: "cstr m h xs" and n: "cstr m p ys"
  shows "strstr m h p = Some (case first_occurrence xs ys of Some i \<Rightarrow> at h i | None \<Rightarrow> NULL)"
proof (cases "ys = []")
  case True
  then show ?thesis using cstr_Nil [of m p] n by (simp add: strstr_def first_occurrence_def upt_conv_Cons del: upt_Suc)
next
  case False
  have u: "unat (of_nat (length xs) :: u64) = length xs" "unat (of_nat (length ys) :: u64) = length ys"
    using cstr_len [OF h] cstr_len [OF n] by (intro unat_of_nat_small; simp)+
  have gt: "(of_nat (length ys) :: u64) > of_nat (length xs) \<longleftrightarrow> length xs < length ys"
    by (simp only: word_less_nat_alt u)
  have "m p \<noteq> 0" using False n cstr_Cons [of m p] by (cases ys) auto
  moreover have "unat (of_nat (length xs) - of_nat (length ys) :: u64) = length xs - length ys" if "\<not> length xs < length ys"
    using that u by (subst unat_sub) (simp_all only: not_less word_le_nat_alt)
  moreover have "find (\<lambda>i. memcmp m (at h i) p (of_nat (length ys)) = 0) [0..<Suc (length xs - length ys)] =
      find (\<lambda>i. take (length ys) (drop i xs) = ys) [0..<Suc (length xs - length ys)]" if "\<not> length xs < length ys"
    by (rule find_cong_on, rule occurrence_iff [OF h n]) (use that in auto)
  ultimately show ?thesis
    unfolding strstr_def strlen_cstr [OF h] strlen_cstr [OF n] first_occurrence_short Option.bind.bind_lunit gt
    by (simp del: upt_Suc split: option.splits)
qed

section \<open>Tokens\<close>

text \<open>The next token of \<open>xs\<close> for the delimiters \<open>ds\<close>: how much is skipped, the token, and what is left.\<close>

definition tok_skip :: "u8 list \<Rightarrow> u8 list \<Rightarrow> nat" where
  "tok_skip ds xs = length (takeWhile (\<lambda>x. x \<in> set ds) xs)"

definition tok_word :: "u8 list \<Rightarrow> u8 list \<Rightarrow> u8 list" where
  "tok_word ds xs = takeWhile (\<lambda>x. x \<notin> set ds) (dropWhile (\<lambda>x. x \<in> set ds) xs)"

definition tok_rest :: "u8 list \<Rightarrow> u8 list \<Rightarrow> u8 list option" where
  "tok_rest ds xs = (case dropWhile (\<lambda>x. x \<notin> set ds) (dropWhile (\<lambda>x. x \<in> set ds) xs) of [] \<Rightarrow> None | _ # r \<Rightarrow> Some r)"

lemma cstr_cut:
  assumes "cstr m s xs" and "n \<le> length xs"
  shows "cstr (m(at s n := 0)) s (take n xs)"
proof -
  have "at s i \<noteq> at s n" if "i < n" for i
    using at_inj [of i n s] that assms(2) cstr_len [OF assms(1)] by simp
  then show ?thesis using assms by (auto simp: cstr_def fits_def)
qed

lemma cstr_beyond:
  assumes "cstr m s xs" and "n < length xs"
  shows "cstr (m(at s n := x)) (at s (Suc n)) (drop (Suc n) xs)"
proof (rule cstr_cong [OF cstr_drop [OF assms(1)]])
  fix i assume "i \<le> length (drop (Suc n) xs)"
  then have "at s (Suc n + i) \<noteq> at s n"
    using at_inj [of "Suc n + i" n s] assms cstr_len [OF assms(1)] by simp
  then show "(m(at s n := x)) (at (at s (Suc n)) i) = m (at (at s (Suc n)) i)" unfolding at_at by simp
qed (use assms in simp)

lemma strtok_cstr:
  assumes s: "cstr m s xs" and d: "cstr m delim ds"
    and start: "str = s \<or> str = NULL \<and> saved = s"
  shows "\<exists>saved' m'. strtok str delim saved m =
      Some (if tok_word ds xs = [] then NULL else at s (tok_skip ds xs), saved', m') \<and>
    (tok_word ds xs \<noteq> [] \<longrightarrow> cstr m' (at s (tok_skip ds xs)) (tok_word ds xs)) \<and>
    (case tok_rest ds xs of None \<Rightarrow> saved' = NULL | Some r \<Rightarrow> cstr m' saved' r) \<and>
    (\<forall>a. a \<notin> at s ` {..<length xs} \<longrightarrow> m' a = m a)"
proof -
  have nn: "s \<noteq> NULL" using s by (simp add: cstr_def)
  define k where "k = tok_skip ds xs"
  have k: "k \<le> length xs" and dk: "dropWhile (\<lambda>x. x \<in> set ds) xs = drop k xs"
    by (simp_all add: k_def tok_skip_def length_takeWhile_le dropWhile_eq_drop)
  have t: "cstr m (at s k) (drop k xs)" by (rule cstr_drop [OF s k])
  define n where "n = length (takeWhile (\<lambda>x. x \<notin> set ds) (drop k xs))"
  have n: "n \<le> length (drop k xs)" and w: "tok_word ds xs = take n (drop k xs)"
    and rest: "tok_rest ds xs = (case drop n (drop k xs) of [] \<Rightarrow> None | _ # r \<Rightarrow> Some r)"
    unfolding tok_word_def tok_rest_def dk n_def
    by (rule length_takeWhile_le, rule takeWhile_eq_take, simp only: dropWhile_eq_drop)
  have sp: "span_loop m True delim s = Some (at s k)"
    using span_loop_cstr [OF d s, of True] by (simp add: k_def tok_skip_def)
  have sp2: "span_loop m False delim (at s k) = Some (at (at s k) n)"
    using span_loop_cstr [OF d t, of False] by (simp add: n_def)
  show ?thesis
  proof (cases "drop k xs")
    case Nil
    then have "m (at s k) = 0" using t cstr_Nil by simp
    then show ?thesis using start nn sp Nil w rest by (auto simp: strtok_def)
  next
    case (Cons x zs)
    then have x: "m (at s k) \<noteq> 0" using t cstr_Cons by metis
    have "x \<notin> set ds" using dk Cons by (metis dropWhile_eq_Cons_conv)
    then have w0: "tok_word ds xs \<noteq> []" using Cons dk by (simp add: tok_word_def)
    show ?thesis
    proof (cases "n = length (drop k xs)")
      case True
      then have "m (at (at s k) n) = 0" using cstr_end [OF t] by simp
      then have "strtok str delim saved m = Some (at s k, NULL, m)"
        using start nn sp sp2 x by (auto simp: strtok_def)
      then show ?thesis using w0 w rest True t by (simp add: k_def)
    next
      case False
      then have lt: "n < length (drop k xs)" using n by simp
      let ?m = "m(at (at s k) n := 0)"
      have "m (at (at s k) n) \<noteq> 0" using cstr_nth [OF t lt] by simp
      then have out: "strtok str delim saved m = Some (at s k, at (at s k) n + 1, ?m)"
        using start nn sp sp2 x by (auto simp: strtok_def)
      have "cstr ?m (at s k) (tok_word ds xs)" unfolding w by (rule cstr_cut [OF t n])
      moreover have "cstr ?m (at (at s k) n + 1) (drop (Suc n) (drop k xs))"
        using cstr_beyond [OF t lt, of 0] by (simp add: add.assoc add.commute)
      moreover have "tok_rest ds xs = Some (drop (Suc n) (drop k xs))"
        unfolding rest using lt by (metis Cons_nth_drop_Suc list.simps(5))
      moreover have "at (at s k) n \<in> at s ` {..<length xs}"
        using lt unfolding at_at by (intro imageI) simp
      ultimately show ?thesis using out w0 by (auto simp: k_def)
    qed
  qed
qed

end
