(* ===== verification/String_Properties.thy ===== *)
theory String_Properties
  imports Cstring
begin

text \<open>The properties of the memory and string routines, with concrete instances.\<close>

text \<open>
  C32: \<^verbatim>\<open>memmove\<close> copies correctly however source and destination overlap: every byte of the destination
  gets the byte the source had before the call, and no other byte changes.
\<close>

theorem memmove_overlap:
  assumes "fits d (unat n)" and "fits s (unat n)"
  shows "(\<forall>i<unat n. memmove d s n m (at d i) = m (at s i)) \<and>
    (\<forall>a. a \<notin> at d ` {..<unat n} \<longrightarrow> memmove d s n m a = m a)"
  using memmove_copies [OF assms] memmove_frame by blast

theorem memmove_overlap_witness:
  "memmove 0x102 0x100 4 (\<lambda>a. ucast a) 0x105 = 3"
proof -
  have "fits 0x102 (unat (4 :: u64))" "fits 0x100 (unat (4 :: u64))" by (simp_all add: fits_def)
  from memmove_overlap [OF this, of "\<lambda>a. ucast a"]
  have "\<forall>i<unat (4 :: u64). memmove 0x102 0x100 4 (\<lambda>a. ucast a) (at 0x102 i) = (ucast (at 0x100 i :: u64) :: u8)" by blast
  from this [rule_format, of 3] show ?thesis by simp
qed

text \<open>
  Copying one string and appending another builds the concatenation, in a buffer with room for it
  that does not overlap the sources; \<^verbatim>\<open>strlen\<close> of the result is the sum of the lengths. The calls return.
\<close>

theorem strcpy_strcat_concat:
  assumes "cstr m a xs" and "cstr m b ys" and "d \<noteq> NULL" and "fits d (length xs + length ys + 1)"
    and "apart d (length xs + length ys + 1) a (length xs + 1)"
    and "apart d (length xs + length ys + 1) b (length ys + 1)"
  shows "\<exists>m1 m2. strcpy d a m = Some m1 \<and> strcat d b m1 = Some m2 \<and> cstr m2 d (xs @ ys) \<and>
    strlen m2 d = Some (of_nat (length xs + length ys))"
proof -
  have "apart d (length xs + 1) a (length xs + 1)" using assms(5) by (simp add: apart_def)
  moreover have "fits d (length xs + 1)" using assms(4) by (simp add: fits_def)
  ultimately obtain m1 where m1: "strcpy d a m = Some m1" "cstr m1 d xs" "\<And>p. p \<notin> at d ` {..length xs} \<Longrightarrow> m1 p = m p"
    using str_append_at_cstr [OF assms(1) _ assms(3)] unfolding strcpy_def by metis
  have "cstr m1 b ys"
  proof (rule cstr_cong [OF assms(2)], rule m1(3), rule notI)
    fix i assume i: "i \<le> length ys" "at b i \<in> at d ` {..length xs}"
    then obtain j where "j \<le> length xs" "at d j = at b i" by auto
    then show False using apartD [OF assms(6), of j i] i(1) by simp
  qed
  then obtain m2 where "strcat d b m1 = Some m2" "cstr m2 d (xs @ ys)"
    using strcat_cstr [OF m1(2) _ assms(4,6)] by blast
  then show ?thesis using m1(1) strlen_cstr by fastforce
qed

definition demo_mem :: mem where
  "demo_mem a = (if a = 0x100 then 0x61 else if a = 0x200 then 0x62 else if a = 0x201 then 0x63 else 0)"

lemma demo_strings: "cstr demo_mem 0x100 [0x61]" "cstr demo_mem 0x200 [0x62, 0x63]"
  by (auto simp: cstr_def demo_mem_def fits_def less_Suc_eq)

theorem strcpy_strcat_concat_witness:
  "\<exists>m1 m2. strcpy 0x300 0x100 demo_mem = Some m1 \<and> strcat 0x300 0x200 m1 = Some m2 \<and>
     cstr m2 0x300 [0x61, 0x62, 0x63] \<and> strlen m2 0x300 = Some 3"
proof -
  have "fits 0x300 (length [0x61 :: u8] + length [0x62 :: u8, 0x63] + 1)" by (simp add: fits_def)
  moreover have "apart 0x300 (length [0x61 :: u8] + length [0x62 :: u8, 0x63] + 1) 0x100 (length [0x61 :: u8] + 1)"
    "apart 0x300 (length [0x61 :: u8] + length [0x62 :: u8, 0x63] + 1) 0x200 (length [0x62 :: u8, 0x63] + 1)"
    by (auto simp: apart_def less_Suc_eq)
  ultimately show ?thesis using strcpy_strcat_concat [OF demo_strings, of "0x300"] by simp
qed

text \<open>
  \<^verbatim>\<open>strcmp\<close> returns on any two strings and decides equality: it is 0 exactly when they are equal, its
  sign flips when the arguments are exchanged, and \<^verbatim>\<open>strncmp\<close> compares the first bytes in the same way.
\<close>

theorem strcmp_decides_equality:
  assumes "cstr m s xs" and "cstr m t ys"
  shows "\<exists>r. strcmp m s t = Some r \<and> (r = 0 \<longleftrightarrow> xs = ys) \<and> strcmp m t s = Some (- r) \<and>
    (\<exists>r'. strncmp m s t n = Some r' \<and> (r' = 0 \<longleftrightarrow> take (unat n) xs = take (unat n) ys))"
proof -
  have "\<forall>x\<in>set xs. x \<noteq> 0" "\<forall>y\<in>set ys. y \<noteq> 0" using cstr_nonzero assms by blast+
  moreover from this have "\<forall>x\<in>set (take (unat n) xs). x \<noteq> 0" "\<forall>y\<in>set (take (unat n) ys). y \<noteq> 0"
    by (auto dest: in_set_takeD)
  ultimately show ?thesis
    using assms by (simp add: strcmp_cstr strncmp_cstr str_order_eq_0 str_order_antisym [of ys xs])
qed

theorem strcmp_decides_equality_witness: "\<exists>r. strcmp demo_mem 0x100 0x200 = Some r \<and> r \<noteq> 0"
  using strcmp_decides_equality [OF demo_strings, of 1] by auto

text \<open>
  \<^verbatim>\<open>strstr\<close> returns a pointer to the first occurrence of the needle, the haystack itself for an empty
  needle, and \<^verbatim>\<open>NULL\<close> when there is no occurrence; it never reads past the end of the haystack into a match.
\<close>

theorem strstr_first:
  assumes "cstr m h xs" and "cstr m p ys"
  shows "\<exists>r. strstr m h p = Some r \<and>
    (r = NULL \<longleftrightarrow> \<not> (\<exists>i\<le>length xs. take (length ys) (drop i xs) = ys)) \<and>
    (r \<noteq> NULL \<longrightarrow> (\<exists>i\<le>length xs. r = at h i \<and> take (length ys) (drop i xs) = ys \<and>
       (\<forall>j<i. take (length ys) (drop j xs) \<noteq> ys)))"
proof (cases "first_occurrence xs ys")
  case None
  then have "\<not> (\<exists>i\<le>length xs. take (length ys) (drop i xs) = ys)"
    by (auto simp: first_occurrence_def find_None_iff less_Suc_eq_le simp del: upt_Suc)
  then show ?thesis using strstr_cstr [OF assms] None by simp
next
  case (Some i)
  then have i: "i \<le> length xs" "take (length ys) (drop i xs) = ys" "\<forall>j<i. take (length ys) (drop j xs) \<noteq> ys"
    by (auto simp: first_occurrence_def find_Some_iff less_Suc_eq_le simp del: upt_Suc)
  then show ?thesis using strstr_cstr [OF assms] Some cstr_not_null [OF assms(1) i(1)] by auto
qed

theorem strstr_first_witness: "strstr demo_mem 0x200 0x100 = Some NULL"
proof -
  have "\<not> (\<exists>i\<le>length [0x62 :: u8, 0x63]. take (length [0x61 :: u8]) (drop i [0x62 :: u8, 0x63]) = [0x61])"
    by (auto simp: le_Suc_eq drop_Cons split: nat.splits)
  then show ?thesis using strstr_first [OF demo_strings(2,1)] by auto
qed

text \<open>
  A call of \<^verbatim>\<open>strtok\<close> skips the leading delimiters and returns the next token as a terminated string in
  place, or \<^verbatim>\<open>NULL\<close> when only delimiters are left; the saved pointer then stands at the string that
  follows the delimiter, and only the bytes of the string were written.
\<close>

theorem strtok_next_token:
  assumes "cstr m s xs" and "cstr m delim ds" and "str = s \<or> str = NULL \<and> saved = s"
  shows "\<exists>saved' m'. strtok str delim saved m =
      Some (if tok_word ds xs = [] then NULL else at s (tok_skip ds xs), saved', m') \<and>
    (tok_word ds xs \<noteq> [] \<longrightarrow> cstr m' (at s (tok_skip ds xs)) (tok_word ds xs)) \<and>
    (case tok_rest ds xs of None \<Rightarrow> saved' = NULL | Some r \<Rightarrow> cstr m' saved' r) \<and>
    (\<forall>a. a \<notin> at s ` {..<length xs} \<longrightarrow> m' a = m a)"
  by (rule strtok_cstr [OF assms])

theorem strtok_next_token_witness:
  "\<exists>saved m. strtok 0x200 0x100 NULL demo_mem = Some (0x200, saved, m) \<and> saved = NULL \<and> cstr m 0x200 [0x62, 0x63]"
  using strtok_next_token [OF demo_strings(2,1), of "0x200" NULL]
  by (auto simp: tok_word_def tok_skip_def tok_rest_def)

end
