(* ===== verification/Pagetable.thy ===== *)
theory Pagetable
  imports Phys_Mem
begin

text \<open>
  Sv39 page tables: \<^verbatim>\<open>src/mm/pagetable.c\<close> and \<^verbatim>\<open>src/mm/vm.c\<close>. The memory of the page tables is a map from
  addresses to 64-bit entries. The allocator \<^verbatim>\<open>kzalloc(PAGE_SIZE)\<close> is the argument \<open>KZ\<close> on the state \<open>'h\<close>
  of the heap, \<^verbatim>\<open>NULL\<close> when memory is out; a page it returns is zeroed here. \<^verbatim>\<open>kfree\<close> is \<open>KF\<close>.
\<close>

section \<open>Operations\<close>

type_synonym ptmem = "addr \<Rightarrow> u64"

definition PTE_V :: u64 where "PTE_V = 1"
definition PTE_R :: u64 where "PTE_R = 2"
definition PTE_W :: u64 where "PTE_W = 4"
definition PTE_X :: u64 where "PTE_X = 8"
definition PTE_U :: u64 where "PTE_U = 16"
definition PTE_G :: u64 where "PTE_G = 32"
definition PTE_M :: u64 where "PTE_M = 256"
definition VM_START :: u64 where "VM_START = 0"
definition VM_END :: u64 where "VM_END = push_bit (9 + 9 + 9 + 12 - 1) 1"
definition TRAMPOLINE :: u64 where "TRAMPOLINE = VM_END - PAGE_SIZE"

definition PA2PTE :: "u64 \<Rightarrow> u64" where
  "PA2PTE pa = push_bit 10 (drop_bit PAGE_SHIFT pa)"

definition PTE2PA :: "u64 \<Rightarrow> u64" where
  "PTE2PA pte = push_bit PAGE_SHIFT (drop_bit 10 pte)"

definition PX :: "nat \<Rightarrow> u64 \<Rightarrow> nat" where
  "PX level va = unat (drop_bit (PAGE_SHIFT + 9 * level) va AND 0x1FF)"

definition MAKE_SATP :: "addr \<Rightarrow> u64" where
  "MAKE_SATP pt = push_bit 60 8 OR drop_bit 12 pt"

definition entry :: "addr \<Rightarrow> nat \<Rightarrow> addr" where
  "entry pt i = pt + 8 * of_nat i"

definition zero_page :: "addr \<Rightarrow> ptmem \<Rightarrow> ptmem" where
  "zero_page a m = (\<lambda>p. if unat a \<le> unat p \<and> unat p < unat a + unat PAGE_SIZE then 0 else m p)"

fun va2pte_loop ::
  "('h \<Rightarrow> addr \<times> 'h) \<Rightarrow> u64 \<Rightarrow> bool \<Rightarrow> nat \<Rightarrow> addr \<Rightarrow> ptmem \<times> 'h \<Rightarrow> addr \<times> ptmem \<times> 'h" where
  "va2pte_loop KZ va alloc 0 pt s = (entry pt (PX 0 va), s)"
| "va2pte_loop KZ va alloc (Suc l) pt (m, h) =
     (let pte = entry pt (PX (Suc l) va)
      in if m pte AND PTE_V \<noteq> 0 then va2pte_loop KZ va alloc l (PTE2PA (m pte)) (m, h)
         else if \<not> alloc then (NULL, m, h)
         else
           let (pt', h) = KZ h
           in if pt' = NULL then (NULL, m, h)
              else va2pte_loop KZ va alloc l pt' ((zero_page pt' m)(pte := PA2PTE pt' OR PTE_V), h))"

definition va2pte ::
  "('h \<Rightarrow> addr \<times> 'h) \<Rightarrow> addr \<Rightarrow> u64 \<Rightarrow> bool \<Rightarrow> ptmem \<times> 'h \<Rightarrow> addr \<times> ptmem \<times> 'h" where
  "va2pte KZ pt va alloc s = va2pte_loop KZ va alloc 2 pt s"

definition walkaddr :: "('h \<Rightarrow> addr \<times> 'h) \<Rightarrow> addr \<Rightarrow> u64 \<Rightarrow> ptmem \<times> 'h \<Rightarrow> u64" where
  "walkaddr KZ pt va s =
     (if VM_END \<le> va then 0
      else
        let (pte, m, h) = va2pte KZ pt va False s
        in if pte = NULL then 0
           else if m pte AND PTE_M = 0 then 0
           else PTE2PA (m pte))"

definition va2pa :: "('h \<Rightarrow> addr \<times> 'h) \<Rightarrow> addr \<Rightarrow> u64 \<Rightarrow> ptmem \<times> 'h \<Rightarrow> u64" where
  "va2pa KZ pt va s = (let page = walkaddr KZ pt va s in if page = 0 then 0 else page OR (va AND 0xFFF))"

definition pagetable_create :: "('h \<Rightarrow> addr \<times> 'h) \<Rightarrow> ptmem \<times> 'h \<Rightarrow> addr \<times> ptmem \<times> 'h" where
  "pagetable_create KZ = (\<lambda>(m, h).
     let (p, h) = KZ h in (p, if p = NULL then m else zero_page p m, h))"

fun pagetable_destroy_level :: "(addr \<Rightarrow> 'h \<Rightarrow> 'h) \<Rightarrow> ptmem \<Rightarrow> nat \<Rightarrow> addr \<Rightarrow> 'h \<Rightarrow> 'h" where
  "pagetable_destroy_level KF m 0 pt h = (if pt = NULL then h else KF pt h)"
| "pagetable_destroy_level KF m (Suc l) pt h =
     (if pt = NULL then h
      else KF pt (fold (\<lambda>i h. if m (entry pt i) AND PTE_V \<noteq> 0
                              then pagetable_destroy_level KF m l (PTE2PA (m (entry pt i))) h else h) [0..<512] h))"

definition pagetable_destroy :: "(addr \<Rightarrow> 'h \<Rightarrow> 'h) \<Rightarrow> ptmem \<Rightarrow> addr \<Rightarrow> 'h \<Rightarrow> 'h" where
  "pagetable_destroy KF m pt h = (if pt = NULL then h else pagetable_destroy_level KF m 2 pt h)"

text \<open>The loop of \<^verbatim>\<open>mappages\<close>, with \<open>n\<close> pages left; the result of \<^verbatim>\<open>va2pte\<close> is used without a null check.\<close>

fun map_loop ::
  "('h \<Rightarrow> addr \<times> 'h) \<Rightarrow> addr \<Rightarrow> u64 \<Rightarrow> u64 \<Rightarrow> u64 \<Rightarrow> nat \<Rightarrow> ptmem \<times> 'h \<Rightarrow> (int \<times> ptmem \<times> 'h) res" where
  "map_loop KZ pt va pa perm 0 s = Inr (0, s)"
| "map_loop KZ pt va pa perm (Suc n) s =
     (let (pte, m, h) = va2pte KZ pt va True s
      in if pte = NULL then Inl Null_Deref
         else if m pte AND PTE_M \<noteq> 0 then Inr (- EADDRINUSE, m, h)
         else map_loop KZ pt (va + PAGE_SIZE) (pa + PAGE_SIZE) perm n
                (m(pte := PA2PTE pa OR perm OR PTE_M), h))"

definition mappages ::
  "('h \<Rightarrow> addr \<times> 'h) \<Rightarrow> addr \<Rightarrow> u64 \<Rightarrow> u64 \<Rightarrow> u64 \<Rightarrow> u32 \<Rightarrow> ptmem \<times> 'h \<Rightarrow> (int \<times> ptmem \<times> 'h) res" where
  "mappages KZ pt va pa npages perm s =
     (if pt = NULL then Inr (- EINVAL, s)
      else if \<not> PAGE_ALIGNED va \<or> \<not> PAGE_ALIGNED pa then Inr (- EINVAL, s)
      else if npages = 0 then Inr (0, s)
      else if VM_END < va + npages * PAGE_SIZE then Inr (- ERANGE, s)
      else if PM_END < pa + npages * PAGE_SIZE then Inr (- ERANGE, s)
      else map_loop KZ pt va pa (ucast (perm AND 0x3F)) (unat npages) s)"

definition unmap_step :: "addr \<Rightarrow> u64 \<Rightarrow> ptmem \<times> 'h \<Rightarrow> (int \<times> ptmem \<times> 'h) res" where
  "unmap_step pt a s =
     (let (pte, m, h) = va2pte (\<lambda>h. (NULL, h)) pt a False s
      in if pte = NULL then Inr (0, m, h)
         else if m pte AND PTE_M \<noteq> 0 then Inr (0, m(pte := 0), h)
         else Inr (0, m, h))"

definition unmappages :: "addr \<Rightarrow> u64 \<Rightarrow> u64 \<Rightarrow> ptmem \<times> 'h \<Rightarrow> (int \<times> ptmem \<times> 'h) res" where
  "unmappages pt vm npages s =
     (let start = PAGE_ALIGN_DOWN vm
      in for_addr start (start + npages * PAGE_SIZE) PAGE_SIZE (unmap_step pt) s)"

section \<open>The kernel address space\<close>

text \<open>The linker symbols of \<^verbatim>\<open>vm.c\<close>.\<close>

record ksyms =
  s_text :: addr
  e_text :: addr
  s_rodata :: addr
  e_rodata :: addr
  s_data :: addr
  e_bss :: addr
  k_end :: addr
  trampoline :: addr

definition kmappages ::
  "('h \<Rightarrow> addr \<times> 'h) \<Rightarrow> addr \<Rightarrow> u64 \<Rightarrow> u64 \<Rightarrow> u64 \<Rightarrow> u64 \<Rightarrow> ptmem \<times> 'h \<Rightarrow> (int \<times> ptmem \<times> 'h) res" where
  "kmappages KZ pt va pa npages perm s = mappages KZ pt va pa npages (ucast ((perm AND NOT PTE_U) OR PTE_V)) s"

definition or_panic :: "string \<Rightarrow> (int \<times> 's) res \<Rightarrow> ('s \<Rightarrow> 'b res) \<Rightarrow> 'b res" where
  "or_panic msg x f = rbind x (\<lambda>(r, s). if r \<noteq> 0 then Inl (Panic msg) else f s)"

definition devminit :: "('h \<Rightarrow> addr \<times> 'h) \<Rightarrow> addr \<Rightarrow> ptmem \<times> 'h \<Rightarrow> (ptmem \<times> 'h) res" where
  "devminit KZ kpt s =
     or_panic ''mapping device memory'' (kmappages KZ kpt 0 0 (PM_START div PAGE_SIZE) (PTE_R OR PTE_W) s) Inr"

text \<open>The result is the new \<^verbatim>\<open>satp\<close>, the kernel page table and the memory.\<close>

definition kvminit :: "('h \<Rightarrow> addr \<times> 'h) \<Rightarrow> ksyms \<Rightarrow> ptmem \<times> 'h \<Rightarrow> (u64 \<times> addr \<times> ptmem \<times> 'h) res" where
  "kvminit KZ y s =
     (let (kpt, s) = pagetable_create KZ s
      in rbind (devminit KZ kpt s) (\<lambda>s.
         or_panic ''mapping kernel text seg''
           (kmappages KZ kpt (s_text y) (s_text y) ((e_text y - s_text y) div PAGE_SIZE) (PTE_R OR PTE_X) s) (\<lambda>s.
         or_panic ''mapping kernel rodata seg''
           (kmappages KZ kpt (s_rodata y) (s_rodata y) ((e_rodata y - s_rodata y) div PAGE_SIZE) PTE_R s) (\<lambda>s.
         or_panic ''mapping kernel data&bss seg''
           (kmappages KZ kpt (s_data y) (s_data y) ((e_bss y - s_data y) div PAGE_SIZE) (PTE_R OR PTE_W) s) (\<lambda>s.
         or_panic ''mapping kernel trampoline''
           (kmappages KZ kpt TRAMPOLINE (trampoline y) 1 (PTE_R OR PTE_X OR PTE_G) s) (\<lambda>s.
         or_panic ''mapping remeaing memory''
           (kmappages KZ kpt (k_end y) (k_end y) ((PM_END - k_end y) div PAGE_SIZE) (PTE_R OR PTE_W) s) (\<lambda>s.
         Inr (MAKE_SATP kpt, kpt, s))))))))"

end
