(* ===== verification/Pagetable_Correct.thy ===== *)
theory Pagetable_Correct
  imports Pagetable
begin

text \<open>
  Page tables as maps: the tables reachable from a root form a tree of distinct pages, and the
  operations of \<^verbatim>\<open>pagetable.c\<close> change the map from virtual pages to leaf entries, and nothing else of it.
\<close>

section \<open>Entries of distinct tables\<close>

abbreviation pg :: "addr \<Rightarrow> nat" where
  "pg p \<equiv> unat p div 4096"

lemma PAGE_ALIGNED_iff: "PAGE_ALIGNED a \<longleftrightarrow> 4096 dvd unat a"
  using ALIGNED_iff_dvd [of a 12] by (simp add: config_values)

lemma aligned_eq: "PAGE_ALIGNED a \<Longrightarrow> unat a = 4096 * pg a"
  by (simp add: PAGE_ALIGNED_iff)

lemma unat_entry:
  assumes "PAGE_ALIGNED a" and "i < 512"
  shows "unat (entry a i) = 4096 * pg a + 8 * i"
proof -
  have a: "unat a = 4096 * pg a" by (rule aligned_eq [OF assms(1)])
  have "unat a < 2 ^ 64" using unat_lt [of a] by simp
  then have "pg a < 2 ^ 52" using a by simp
  then have lt: "unat a + 8 * i < 2 ^ LENGTH(64)" using a assms(2) by simp
  have "unat (8 * of_nat i :: u64) = 8 * i"
    using unat_of_nat_small [of "8 * i", where 'a = 64] assms(2) by simp
  then show ?thesis using a lt unfolding entry_def by (simp only: unat_word_ariths mod_less)
qed

lemma pg_entry: "PAGE_ALIGNED a \<Longrightarrow> i < 512 \<Longrightarrow> pg (entry a i) = pg a"
  by (simp add: unat_entry)

lemma entry_inj:
  assumes "PAGE_ALIGNED a" "PAGE_ALIGNED b" "i < 512" "j < 512" and e: "entry a i = entry b j"
  shows "a = b \<and> i = j"
proof -
  have "pg a = pg b" using pg_entry assms by metis
  then have "unat a = unat b" using aligned_eq assms(1,2) by metis
  then have "a = b" by (simp add: word_unat_eq_iff)
  moreover have "i = j" using unat_entry [OF assms(1,3)] unat_entry [OF assms(2,4)] e \<open>pg a = pg b\<close> by simp
  ultimately show ?thesis by simp
qed

lemma zero_page_pg: "PAGE_ALIGNED a \<Longrightarrow> zero_page a m p = (if pg p = pg a then 0 else m p)"
proof -
  assume "PAGE_ALIGNED a"
  then have "unat a = 4096 * pg a" by (rule aligned_eq)
  then have "unat a \<le> unat p \<and> unat p < unat a + 4096 \<longleftrightarrow> pg p = pg a"
    by (metis add.commute div_nat_eqI dividend_less_times_div mult.commute mult_Suc_right times_div_less_eq_dividend zero_less_numeral)
  then show ?thesis by (simp add: zero_page_def config_values)
qed

lemma PX_bound: "PX l va < 512"
proof -
  have "(0x1FF :: u64) = mask 9" by (simp add: mask_eq_exp_minus_1)
  then show ?thesis using unat_and_mask [of "drop_bit (PAGE_SHIFT + 9 * l) va" 9] by (simp add: PX_def)
qed

lemma PTE2PA_link:
  assumes "PAGE_ALIGNED a"
  shows "PTE2PA (PA2PTE a OR PTE_V) = a"
proof (rule bit_word_eqI)
  fix n assume "n < LENGTH(64)"
  have "\<not> bit a n" if "n < 12"
  proof -
    have "a AND mask 12 = 0" using assms by (simp add: ALIGNED_def config_values mask_eq_exp_minus_1)
    then have "\<not> bit (a AND mask 12) n" by simp
    then show ?thesis using that by (simp add: bit_simps)
  qed
  then show "bit (PTE2PA (PA2PTE a OR PTE_V)) n = bit a n"
    using \<open>n < LENGTH(64)\<close>
    by (cases "n < 12") (auto simp: PTE2PA_def PA2PTE_def PTE_V_def PAGE_SHIFT_def bit_simps dest: bit_imp_le_length)
qed

lemma link_valid: "(PA2PTE a OR PTE_V) AND PTE_V \<noteq> 0"
proof -
  have "bit ((PA2PTE a OR PTE_V) AND PTE_V) 0" by (simp add: PTE_V_def bit_simps)
  then show ?thesis by auto
qed

section \<open>The tree of tables\<close>

definition child :: "ptmem \<Rightarrow> addr \<Rightarrow> nat \<Rightarrow> addr option" where
  "child m a i = (if m (entry a i) AND PTE_V \<noteq> 0 then Some (PTE2PA (m (entry a i))) else None)"

fun tbl :: "ptmem \<Rightarrow> addr \<Rightarrow> nat list \<Rightarrow> addr option" where
  "tbl m a [] = Some a"
| "tbl m a (i # is) = Option.bind (child m a i) (\<lambda>b. tbl m b is)"

definition path :: "nat list \<Rightarrow> bool" where
  "path is \<longleftrightarrow> length is \<le> 2 \<and> (\<forall>i\<in>set is. i < 512)"

definition pt_wf :: "ptmem \<Rightarrow> addr \<Rightarrow> bool" where
  "pt_wf m root \<longleftrightarrow>
     (\<forall>is a. path is \<longrightarrow> tbl m root is = Some a \<longrightarrow> PAGE_ALIGNED a \<and> a \<noteq> NULL) \<and>
     (\<forall>is js a. path is \<longrightarrow> path js \<longrightarrow> tbl m root is = Some a \<longrightarrow> tbl m root js = Some a \<longrightarrow> is = js)"

definition tables :: "ptmem \<Rightarrow> addr \<Rightarrow> addr set" where
  "tables m root = {a. \<exists>is. path is \<and> tbl m root is = Some a}"

definition leaf :: "ptmem \<Rightarrow> addr \<Rightarrow> u64 \<Rightarrow> u64" where
  "leaf m root va = (case tbl m root [PX 2 va, PX 1 va] of Some a \<Rightarrow> m (entry a (PX 0 va)) | None \<Rightarrow> 0)"

lemma tbl_append: "tbl m a (is @ js) = Option.bind (tbl m a is) (\<lambda>b. tbl m b js)"
  by (induction "is" arbitrary: a) (auto simp: bind_assoc)

lemma tbl_snoc: "tbl m a (is @ [i]) = Option.bind (tbl m a is) (\<lambda>b. child m b i)"
  by (simp add: tbl_append)

lemma tbl_cong:
  assumes "\<And>k a. k < length js \<Longrightarrow> tbl m r (take k js) = Some a \<Longrightarrow> m' (entry a (js ! k)) = m (entry a (js ! k))"
  shows "tbl m' r js = tbl m r js"
  using assms
proof (induction js rule: rev_induct)
  case (snoc i js)
  have "tbl m' r js = tbl m r js"
  proof (rule snoc.IH)
    fix k a assume "k < length js" "tbl m r (take k js) = Some a"
    then show "m' (entry a (js ! k)) = m (entry a (js ! k))" using snoc.prems [of k a] by (simp add: nth_append)
  qed
  moreover have "m' (entry a i) = m (entry a i)" if "tbl m r js = Some a" for a
    using snoc.prems [of "length js" a] that by simp
  ultimately show ?case by (auto simp: tbl_snoc child_def bind_eq_Some_conv split: bind_splits)
qed simp

lemma pt_wfD:
  assumes "pt_wf m root" and "path is" and "tbl m root is = Some a"
  shows "PAGE_ALIGNED a" and "a \<noteq> NULL" and "path js \<Longrightarrow> tbl m root js = Some a \<Longrightarrow> is = js"
  using assms unfolding pt_wf_def by blast+

lemma path_take: "path is \<Longrightarrow> path (take k is)"
  by (auto simp: path_def dest: in_set_takeD)

lemma path_PX [simp]: "path []" "path [PX 2 va]" "path [PX 2 va, PX 1 va]"
  by (simp_all add: path_def PX_bound)

lemma path_prefix: "path (is @ js) \<Longrightarrow> path is"
  by (auto simp: path_def)

lemma tbl_prefix_Some: "tbl m r (is @ js) = Some b \<Longrightarrow> \<exists>a. tbl m r is = Some a"
  by (auto simp: tbl_append bind_eq_Some_conv)

section \<open>Linking a fresh table\<close>

text \<open>What the walk writes when the table at path \<open>is\<close> lacks the next level: a zeroed page \<open>n\<close> linked at \<open>i\<close>.\<close>

definition link :: "addr \<Rightarrow> nat \<Rightarrow> addr \<Rightarrow> ptmem \<Rightarrow> ptmem" where
  "link a i n m = (zero_page n m)(entry a i := PA2PTE n OR PTE_V)"

definition fresh_link :: "ptmem \<Rightarrow> addr \<Rightarrow> nat list \<Rightarrow> addr \<Rightarrow> nat \<Rightarrow> addr \<Rightarrow> bool" where
  "fresh_link m root is a i n \<longleftrightarrow> pt_wf m root \<and> path (is @ [i]) \<and> tbl m root is = Some a \<and>
     child m a i = None \<and> PAGE_ALIGNED n \<and> n \<noteq> NULL \<and> n \<notin> tables m root"

lemma fresh_linkD:
  assumes "fresh_link m root is a i n"
  shows "pt_wf m root" "path (is @ [i])" "tbl m root is = Some a" "child m a i = None"
    "PAGE_ALIGNED n" "n \<noteq> NULL" "n \<notin> tables m root" "i < 512" "path is"
  using assms by (auto simp: fresh_link_def path_def)

lemma link_other:
  assumes fl: "fresh_link m root is a i n" and h: "path ks" "tbl m root ks = Some b" "j < 512" "ks \<noteq> is \<or> j \<noteq> i"
  shows "link a i n m (entry b j) = m (entry b j)"
proof -
  note wf = fresh_linkD(1) [OF fl] and p = fresh_linkD(2) [OF fl] and a = fresh_linkD(3) [OF fl]
    and none = fresh_linkD(4) [OF fl] and n = fresh_linkD(5-7) [OF fl]
  have i: "i < 512" "path is" using p by (auto simp: path_def)
  have b: "PAGE_ALIGNED b" and a': "PAGE_ALIGNED a" using pt_wfD wf h(1,2) a i(2) by blast+
  have "entry b j \<noteq> entry a i"
    using entry_inj [OF b a' h(3) i(1)] pt_wfD(3) [OF wf h(1,2) i(2)] a h(4) by auto
  moreover have "pg b \<noteq> pg n"
  proof
    assume "pg b = pg n"
    then have "b = n" using aligned_eq [OF b] aligned_eq [OF n(1)] by (simp add: word_unat_eq_iff)
    then show False using h(1,2) n(3) by (auto simp: tables_def)
  qed
  ultimately show ?thesis using pg_entry [OF b h(3)] by (simp add: link_def zero_page_pg [OF n(1)])
qed

lemma link_tbl_old:
  assumes fl: "fresh_link m root is a i n" and h: "path js" "\<not> (\<exists>ks. js = is @ [i] @ ks)"
  shows "tbl (link a i n m) root js = tbl m root js"
proof (rule tbl_cong)
  fix k b assume k: "k < length js" "tbl m root (take k js) = Some b"
  have "js ! k < 512" using h(1) k(1) by (auto simp: path_def)
  moreover have "take k js \<noteq> is \<or> js ! k \<noteq> i"
    using h(2) k(1) id_take_nth_drop [of k js] by auto
  ultimately show "link a i n m (entry b (js ! k)) = m (entry b (js ! k))"
    using link_other [OF fl path_take [OF h(1)] k(2)] by blast
qed

lemma link_tbl_new:
  assumes fl: "fresh_link m root is a i n"
  shows "tbl (link a i n m) root (is @ [i]) = Some n"
proof -
  note wf = fresh_linkD(1) [OF fl] and p = fresh_linkD(2) [OF fl] and a = fresh_linkD(3) [OF fl]
    and none = fresh_linkD(4) [OF fl] and n = fresh_linkD(5-7) [OF fl]
  have "tbl (link a i n m) root is = Some a"
    using link_tbl_old [OF fl path_prefix [OF p]] a by simp
  then show ?thesis using link_valid PTE2PA_link [OF n(1)] by (simp add: tbl_snoc child_def link_def)
qed

lemma link_new_empty:
  assumes fl: "fresh_link m root is a i n" and h: "j < 512"
  shows "link a i n m (entry n j) = 0"
proof -
  note wf = fresh_linkD(1) [OF fl] and p = fresh_linkD(2) [OF fl] and a = fresh_linkD(3) [OF fl]
    and none = fresh_linkD(4) [OF fl] and n = fresh_linkD(5-7) [OF fl]
  have i: "i < 512" "path is" using p by (auto simp: path_def)
  have a': "PAGE_ALIGNED a" using pt_wfD(1) [OF wf i(2) a] .
  have "a \<noteq> n" using a i(2) n(3) by (auto simp: tables_def)
  then have "entry n j \<noteq> entry a i" using entry_inj [OF n(1) a' h i(1)] by auto
  then show ?thesis using pg_entry [OF n(1) h] by (simp add: link_def zero_page_pg [OF n(1)])
qed

lemma link_tbl_beyond:
  assumes fl: "fresh_link m root is a i n"
  shows "path (is @ [i] @ j # ks) \<Longrightarrow> tbl (link a i n m) root (is @ [i] @ j # ks) = None"
  using link_new_empty [OF fl, of j] link_tbl_new [OF fl] unfolding append_assoc [symmetric]
  by (subst tbl_append) (simp add: child_def path_def)

lemma link_cases:
  assumes fl: "fresh_link m root is a i n" and h: "path js" "tbl (link a i n m) root js = Some b"
  shows "js = is @ [i] \<and> b = n \<or> tbl m root js = Some b"
proof (cases "\<exists>ks. js = is @ [i] @ ks")
  case True
  then obtain ks where js: "js = is @ [i] @ ks" by blast
  then show ?thesis using h link_tbl_new [OF fl] link_tbl_beyond [OF fl] by (cases ks) auto
next
  case False
  then show ?thesis using link_tbl_old [OF fl h(1)] h(2) by simp
qed

lemma link_wf:
  assumes fl: "fresh_link m root is a i n"
  shows "pt_wf (link a i n m) root"
proof -
  note wf = fresh_linkD(1) [OF fl] and p = fresh_linkD(2) [OF fl] and a = fresh_linkD(3) [OF fl]
    and none = fresh_linkD(4) [OF fl] and n = fresh_linkD(5-7) [OF fl]
  have new: "tbl m root js \<noteq> Some n" if "path js" for js using n(3) that by (auto simp: tables_def)
  have "PAGE_ALIGNED b \<and> b \<noteq> NULL" if "path js" "tbl (link a i n m) root js = Some b" for js b
    using link_cases [OF fl that] pt_wfD [OF wf that(1)] n by blast
  moreover have "js = ks" if "path js" "path ks" "tbl (link a i n m) root js = Some b" "tbl (link a i n m) root ks = Some b" for js ks b
    using link_cases [OF fl that(1,3)] link_cases [OF fl that(2,4)] pt_wfD(3) [OF wf that(1)] new that by blast
  ultimately show ?thesis unfolding pt_wf_def by blast
qed

lemma link_tables:
  assumes fl: "fresh_link m root is a i n"
  shows "tables (link a i n m) root \<subseteq> insert n (tables m root)"
  using link_cases [OF fl] by (auto simp: tables_def)

lemma link_leaf:
  assumes fl: "fresh_link m root is a i n"
  shows "leaf (link a i n m) root va = leaf m root va"
proof -
  note wf = fresh_linkD(1) [OF fl] and p = fresh_linkD(2) [OF fl] and a = fresh_linkD(3) [OF fl]
    and none = fresh_linkD(4) [OF fl] and n = fresh_linkD(5-7) [OF fl]
  let ?js = "[PX 2 va, PX 1 va]"
  have ip: "length is < 2" using p by (simp add: path_def)
  have old: "tbl m root (is @ [i] @ ks) = None" for ks
    using a none by (simp add: tbl_append)
  show ?thesis
  proof (cases "\<exists>ks. ?js = is @ [i] @ ks")
    case True
    then obtain ks where js: "?js = is @ [i] @ ks" by blast
    have "leaf m root va = 0" using old [of ks] js by (simp add: leaf_def)
    moreover have "leaf (link a i n m) root va = 0"
    proof (cases ks)
      case Nil
      then have "tbl (link a i n m) root ?js = Some n" using link_tbl_new [OF fl] unfolding js by simp
      then show ?thesis using link_new_empty [OF fl PX_bound] by (simp add: leaf_def)
    next
      case (Cons j ls)
      then have "tbl (link a i n m) root ?js = None"
        using link_tbl_beyond [OF fl, of j ls] js path_PX(3) [of va] by simp
      then show ?thesis by (simp add: leaf_def)
    qed
    ultimately show ?thesis by simp
  next
    case False
    then have t: "tbl (link a i n m) root ?js = tbl m root ?js" by (rule link_tbl_old [OF fl path_PX(3)])
    have "link a i n m (entry b (PX 0 va)) = m (entry b (PX 0 va))" if "tbl m root ?js = Some b" for b
      by (rule link_other [OF fl path_PX(3) that PX_bound]) (use ip in auto)
    then show ?thesis using t by (simp add: leaf_def split: option.splits)
  qed
qed

section \<open>Walks\<close>

abbreviation vpath :: "u64 \<Rightarrow> nat list" where
  "vpath va \<equiv> [PX 2 va, PX 1 va]"

text \<open>
  What the walk relies on of \<^verbatim>\<open>kzalloc\<close>: the pages it hands out are aligned, were available, and are not
  available any more.
\<close>

definition fresh_pages :: "('h \<Rightarrow> addr \<times> 'h) \<Rightarrow> ('h \<Rightarrow> addr set) \<Rightarrow> bool" where
  "fresh_pages KZ avail \<longleftrightarrow> (\<forall>h a h'. KZ h = (a, h') \<longrightarrow> avail h' \<subseteq> avail h \<and>
     (a \<noteq> NULL \<longrightarrow> a \<in> avail h \<and> a \<notin> avail h' \<and> PAGE_ALIGNED a))"

definition pt_inv :: "('h \<Rightarrow> addr set) \<Rightarrow> addr \<Rightarrow> ptmem \<times> 'h \<Rightarrow> bool" where
  "pt_inv avail root = (\<lambda>(m, h). pt_wf m root \<and> tables m root \<inter> avail h = {})"

lemma entry_not_null:
  assumes "PAGE_ALIGNED a" "a \<noteq> NULL" "i < 512"
  shows "entry a i \<noteq> NULL"
proof -
  have "unat (entry a i) = 4096 * pg a + 8 * i" by (rule unat_entry [OF assms(1,3)])
  moreover have "pg a \<noteq> 0" using aligned_eq [OF assms(1)] assms(2) by (metis mult_0_right unat_eq_0)
  ultimately show ?thesis by (metis add_is_0 mult_is_0 unat_eq_0 zero_neq_numeral)
qed

lemma leaf_table:
  assumes "pt_wf m root" and "tbl m root (vpath va) = Some b"
  shows "entry b (PX 0 va) \<noteq> NULL" and "leaf m root va = m (entry b (PX 0 va))"
  using entry_not_null [OF pt_wfD(1,2) [OF assms(1) path_PX(3) assms(2)] PX_bound] assms(2) by (simp_all add: leaf_def)

lemma walk_find:
  "va2pte KZ root va False (m, h) =
     (case tbl m root (vpath va) of Some b \<Rightarrow> entry b (PX 0 va) | None \<Rightarrow> NULL, m, h)"
  by (simp add: va2pte_def numeral_2_eq_2 child_def Let_def)

lemma walkaddr_leaf:
  assumes "pt_wf m root"
  shows "walkaddr KZ root va (m, h) =
    (if VM_END \<le> va \<or> leaf m root va AND PTE_M = 0 then 0 else PTE2PA (leaf m root va))"
proof (cases "tbl m root (vpath va)")
  case None
  then show ?thesis by (simp add: walkaddr_def walk_find leaf_def)
next
  case (Some b)
  then show ?thesis using leaf_table [OF assms Some] by (simp add: walkaddr_def walk_find)
qed

lemma walk_alloc_loop:
  assumes "fresh_pages KZ avail"
  shows "pt_inv avail root (m, h) \<Longrightarrow> tbl m root is = Some a \<Longrightarrow> length is + l = 2 \<Longrightarrow> is = take (length is) (vpath va) \<Longrightarrow>
    va2pte_loop KZ va True l a (m, h) = (p, m', h') \<Longrightarrow>
    pt_inv avail root (m', h') \<and> (\<forall>w. leaf m' root w = leaf m root w) \<and>
    (p = NULL \<or> (\<exists>b. tbl m' root (vpath va) = Some b \<and> p = entry b (PX 0 va)))"
proof (induction l arbitrary: "is" a m h)
  case 0
  then have "is = vpath va" by simp
  then show ?case using 0 by simp
next
  case (Suc l)
  let ?i = "PX (Suc l) va"
  have wf: "pt_wf m root" "tables m root \<inter> avail h = {}" using Suc.prems(1) by (auto simp: pt_inv_def)
  have isi: "is @ [?i] = take (length (is @ [?i])) (vpath va)"
  proof -
    consider "length is = 0" "l = 1" | "length is = 1" "l = 0" using Suc.prems(3) by linarith
    then show ?thesis using Suc.prems(4) by cases (auto simp: numeral_2_eq_2)
  qed
  have p2: "path (is @ [?i])" using path_take [OF path_PX(3), of "length (is @ [?i])" va] isi by simp
  show ?case
  proof (cases "m (entry a ?i) AND PTE_V \<noteq> 0")
    case True
    then have "tbl m root (is @ [?i]) = Some (PTE2PA (m (entry a ?i)))" using Suc.prems(2) by (simp add: tbl_snoc child_def)
    then show ?thesis using Suc.IH [OF Suc.prems(1) _ _ isi] Suc.prems(3,5) True by simp
  next
    case False
    obtain n h1 where kz: "KZ h = (n, h1)" by (cases "KZ h")
    then have av: "avail h1 \<subseteq> avail h" using assms by (auto simp: fresh_pages_def)
    show ?thesis
    proof (cases "n = NULL")
      case True
      then show ?thesis using False kz Suc.prems(1,5) av by (auto simp: pt_inv_def)
    next
      case ok: False
      then have n: "PAGE_ALIGNED n" "n \<in> avail h" "n \<notin> avail h1" using kz assms by (auto simp: fresh_pages_def)
      have fl: "fresh_link m root is a ?i n"
        using wf p2 Suc.prems(2) False n ok by (auto simp: fresh_link_def child_def)
      have "pt_inv avail root (link a ?i n m, h1)"
        using link_wf [OF fl] link_tables [OF fl] wf(2) av n(3) by (auto simp: pt_inv_def)
      moreover have "va2pte_loop KZ va True l n (link a ?i n m, h1) = (p, m', h')"
        using Suc.prems(5) False kz ok by (simp add: link_def)
      ultimately show ?thesis
        using Suc.IH [OF _ link_tbl_new [OF fl] _ isi] Suc.prems(3) link_leaf [OF fl] by simp
    qed
  qed
qed

lemma walk_alloc:
  assumes "fresh_pages KZ avail" and "pt_inv avail root (m, h)" and "va2pte KZ root va True (m, h) = (p, m', h')"
  shows "pt_inv avail root (m', h')" and "leaf m' root w = leaf m root w"
    and "p \<noteq> NULL \<Longrightarrow> \<exists>b. tbl m' root (vpath va) = Some b \<and> p = entry b (PX 0 va)"
  using walk_alloc_loop [OF assms(1,2), of "[]" root 2 va p m' h'] assms(3) by (auto simp: va2pte_def)

section \<open>Virtual page numbers\<close>

definition vpn :: "u64 \<Rightarrow> nat" where
  "vpn va = pg va mod 2 ^ 27"

lemma PX_vpn: "PX l va = unat va div 2 ^ (12 + 9 * l) mod 512"
proof -
  have "(0x1FF :: u64) = mask 9" by (simp add: mask_eq_exp_minus_1)
  then show ?thesis
    using unat_and_mask [of "drop_bit (PAGE_SHIFT + 9 * l) va" 9] by (simp add: PX_def unat_drop_bit PAGE_SHIFT_def)
qed

lemma vpn_digits: "vpn va = (PX 2 va * 512 + PX 1 va) * 512 + PX 0 va"
proof -
  define q where "q = pg va"
  have "PX 0 va = q mod 512" "PX 1 va = q div 512 mod 512" "PX 2 va = q div 512 div 512 mod 512"
    unfolding PX_vpn q_def by (simp_all add: div_mult2_eq [symmetric])
  moreover have "q mod 2 ^ 27 = (q div 512 div 512 mod 512 * 512 + q div 512 mod 512) * 512 + q mod 512"
    using mod_mult2_eq [of q 512 "512 * 512"] mod_mult2_eq [of "q div 512" 512 512] by (simp add: algebra_simps)
  ultimately show ?thesis by (simp add: vpn_def q_def)
qed

lemma digit_eq:
  fixes x y :: nat
  assumes "a * 512 + x = b * 512 + y" and "x < 512" and "y < 512"
  shows "a = b \<and> x = y"
proof -
  have "(a * 512 + x) div 512 = a" "(b * 512 + y) div 512 = b" using assms(2,3) by simp_all
  then have "a = b" using assms(1) by simp
  then show ?thesis using assms(1) by simp
qed

lemma same_vpn: "vpn v = vpn w \<longleftrightarrow> PX 2 v = PX 2 w \<and> PX 1 v = PX 1 w \<and> PX 0 v = PX 0 w"
proof
  assume "vpn v = vpn w"
  then have "(PX 2 v * 512 + PX 1 v) * 512 + PX 0 v = (PX 2 w * 512 + PX 1 w) * 512 + PX 0 w"
    by (simp only: vpn_digits)
  then show "PX 2 v = PX 2 w \<and> PX 1 v = PX 1 w \<and> PX 0 v = PX 0 w"
    using digit_eq PX_bound by blast
qed (simp add: vpn_digits)

lemma leaf_vpn: "vpn v = vpn w \<Longrightarrow> leaf m root v = leaf m root w"
  unfolding leaf_def same_vpn by (elim conjE) (simp only:)

section \<open>Writing a leaf entry\<close>

lemma store_leaf:
  fixes x :: u64
  assumes wf: "pt_wf m root" and b: "tbl m root (vpath va) = Some b"
  defines "m' \<equiv> m(entry b (PX 0 va) := x)"
  shows "path js \<Longrightarrow> tbl m' root js = tbl m root js"
    and "pt_wf m' root" and "tables m' root = tables m root"
    and "leaf m' root w = (if vpn w = vpn va then x else leaf m root w)"
proof -
  have bal: "PAGE_ALIGNED b" by (rule pt_wfD(1) [OF wf path_PX(3) b])
  have other: "m' (entry c j) = m (entry c j)"
    if "path ks" "tbl m root ks = Some c" "j < 512" "ks \<noteq> vpath va \<or> j \<noteq> PX 0 va" for ks c j
    using entry_inj [OF pt_wfD(1) [OF wf that(1,2)] bal that(3) PX_bound] pt_wfD(3) [OF wf that(1,2) path_PX(3)] b that(4)
    by (auto simp: m'_def)
  show t: "tbl m' root js = tbl m root js" if "path js" for js
  proof (rule tbl_cong)
    fix k c assume k: "k < length js" "tbl m root (take k js) = Some c"
    have "js ! k < 512" "length (take k js) < 2" using that k(1) by (auto simp: path_def)
    then show "m' (entry c (js ! k)) = m (entry c (js ! k))"
      using other [OF path_take [OF that] k(2)] by fastforce
  qed
  show "pt_wf m' root" using wf unfolding pt_wf_def by (simp add: t)
  show "tables m' root = tables m root" using t by (auto simp: tables_def)
  show "leaf m' root w = (if vpn w = vpn va then x else leaf m root w)"
  proof (cases "vpn w = vpn va")
    case True
    then have "leaf m' root w = leaf m' root va" by (rule leaf_vpn)
    also have "\<dots> = m' (entry b (PX 0 va))" unfolding leaf_def t [OF path_PX(3)] b by simp
    finally show ?thesis using True by (simp add: m'_def)
  next
    case False
    have "m' (entry c (PX 0 w)) = m (entry c (PX 0 w))" if "tbl m root (vpath w) = Some c" for c
      by (rule other [OF path_PX(3) that PX_bound]) (use False in \<open>auto simp: same_vpn\<close>)
    then show ?thesis using False unfolding leaf_def t [OF path_PX(3)] by (auto split: option.splits)
  qed
qed

section \<open>Mapping\<close>

abbreviation nth_page :: "u64 \<Rightarrow> nat \<Rightarrow> u64" where
  "nth_page va k \<equiv> va + of_nat k * PAGE_SIZE"

lemma nth_page_Suc: "nth_page va (Suc k) = nth_page (va + PAGE_SIZE) k"
  by (simp add: algebra_simps)

lemma leaf_entry_M: "(x OR PTE_M) AND PTE_M \<noteq> 0"
proof -
  have "bit ((x OR PTE_M) AND PTE_M) 8" by (simp add: PTE_M_def bit_simps)
  then show ?thesis by auto
qed

lemma map_loop_ok:
  assumes "fresh_pages KZ avail"
  shows "pt_inv avail root (m, h) \<Longrightarrow> map_loop KZ root va pa perm n (m, h) = Inr (r, m', h') \<Longrightarrow>
    pt_inv avail root (m', h') \<and> (r = 0 \<or> r = - EADDRINUSE) \<and>
    (\<forall>w. (\<forall>k<n. vpn w \<noteq> vpn (nth_page va k)) \<longrightarrow> leaf m' root w = leaf m root w) \<and>
    (\<forall>w. leaf m root w AND PTE_M \<noteq> 0 \<longrightarrow> leaf m' root w = leaf m root w) \<and>
    (r = 0 \<longrightarrow> (\<forall>k<n. leaf m' root (nth_page va k) = PA2PTE (nth_page pa k) OR perm OR PTE_M))"
proof (induction n arbitrary: va pa m h)
  case (Suc n)
  obtain p m1 h1 where p: "va2pte KZ root va True (m, h) = (p, m1, h1)" by (cases "va2pte KZ root va True (m, h)") auto
  note w = walk_alloc [OF assms Suc.prems(1) p]
  have nn: "p \<noteq> NULL" using Suc.prems(2) p by auto
  then obtain b where b: "tbl m1 root (vpath va) = Some b" "p = entry b (PX 0 va)" using w(3) by blast
  have wf1: "pt_wf m1 root" "tables m1 root \<inter> avail h1 = {}" using w(1) by (auto simp: pt_inv_def)
  have lv: "m1 p = leaf m root va" using leaf_table(2) [OF wf1(1) b(1)] b(2) w(2) by simp
  show ?case
  proof (cases "m1 p AND PTE_M \<noteq> 0")
    case True
    then show ?thesis using Suc.prems(2) p nn w(1,2) by (auto simp: EADDRINUSE_def)
  next
    case False
    define x where "x = PA2PTE pa OR perm OR PTE_M"
    have xM: "x AND PTE_M \<noteq> 0" unfolding x_def by (metis leaf_entry_M or.assoc)
    note st = store_leaf [OF wf1(1) b(1), where x = x]
    define m2 where "m2 = m1(p := x)"
    have inv2: "pt_inv avail root (m2, h1)" using st(2,3) wf1(2) b(2) by (simp add: pt_inv_def m2_def)
    have run: "map_loop KZ root (va + PAGE_SIZE) (pa + PAGE_SIZE) perm n (m2, h1) = Inr (r, m', h')"
      using Suc.prems(2) p nn False by (simp add: x_def m2_def)
    note ih = Suc.IH [OF inv2 run]
    have l2: "leaf m2 root v = (if vpn v = vpn va then x else leaf m root v)" for v
      using st(4) b(2) w(2) by (simp add: m2_def)
    have "leaf m' root v = leaf m root v" if "\<forall>k<Suc n. vpn v \<noteq> vpn (nth_page va k)" for v
    proof -
      have "vpn v \<noteq> vpn va" using that [rule_format, of 0] by simp
      moreover have "\<forall>k<n. vpn v \<noteq> vpn (nth_page (va + PAGE_SIZE) k)" using that nth_page_Suc by (metis Suc_mono)
      ultimately show ?thesis using ih l2 by simp
    qed
    moreover have "leaf m' root v = leaf m root v" if "leaf m root v AND PTE_M \<noteq> 0" for v
    proof -
      have "vpn v \<noteq> vpn va" using that False lv leaf_vpn by metis
      then show ?thesis using ih l2 that by simp
    qed
    moreover have "leaf m' root (nth_page va k) = PA2PTE (nth_page pa k) OR perm OR PTE_M" if "r = 0" "k < Suc n" for k
    proof (cases k)
      case 0
      then show ?thesis using ih l2 [of va] xM by (simp add: x_def)
    next
      case (Suc j)
      then show ?thesis using ih that by (simp only: nth_page_Suc)
    qed
    ultimately show ?thesis using ih by blast
  qed
qed (auto simp: pt_inv_def)

lemma PTE2PA_leaf:
  assumes "PAGE_ALIGNED pa" and "perm < 0x400"
  shows "PTE2PA (PA2PTE pa OR perm OR PTE_M) = pa"
proof (rule bit_word_eqI)
  fix n assume n: "n < LENGTH(64)"
  have "\<not> bit pa n" if "n < 12"
  proof -
    have "pa AND mask 12 = 0" using assms(1) by (simp add: ALIGNED_def config_values mask_eq_exp_minus_1)
    then have "\<not> bit (pa AND mask 12) n" by simp
    then show ?thesis using that by (simp add: bit_simps)
  qed
  moreover have "\<not> bit perm k" if "10 \<le> k" for k
  proof -
    have "unat perm < 2 ^ 10" using assms(2) by (simp add: word_less_nat_alt)
    then have "unat perm div 2 ^ k = 0" using that by (meson div_less less_le_trans one_le_numeral power_increasing)
    then show ?thesis by (simp only: bit_iff_odd_unat) simp
  qed
  moreover have "\<not> bit PTE_M k" if "10 \<le> k" for k
    using that bit_iff_odd_unat [of PTE_M k] power_increasing [of 10 k "2 :: nat"] by (simp add: PTE_M_def)
  ultimately show "bit (PTE2PA (PA2PTE pa OR perm OR PTE_M)) n = bit pa n"
    using n by (cases "n < 12") (auto simp: PTE2PA_def PA2PTE_def PAGE_SHIFT_def bit_simps)
qed

lemma aligned_nth_page: "PAGE_ALIGNED pa \<Longrightarrow> PAGE_ALIGNED (nth_page pa k)"
proof (induction k arbitrary: pa)
  case (Suc k)
  have "PAGE_ALIGNED (pa + PAGE_SIZE)"
  proof -
    have "4096 dvd unat pa" using Suc.prems by (simp add: PAGE_ALIGNED_iff)
    then have "4096 dvd (unat pa + 4096) mod 2 ^ LENGTH(64)" by (intro dvd_mod) (auto simp: dvd_add_right_iff)
    moreover have "unat (pa + PAGE_SIZE) = (unat pa + 4096) mod 2 ^ LENGTH(64)"
      by (simp only: unat_word_ariths config_values) simp
    ultimately show ?thesis by (simp only: PAGE_ALIGNED_iff)
  qed
  then show ?case using Suc.IH nth_page_Suc by metis
qed simp

lemma perm_small: "(ucast (perm AND 0x3F :: u32) :: u64) < 0x400"
proof -
  have "(perm AND 0x3F) \<le> (0x3F :: u32)" by (rule word_and_le1)
  then have "unat (perm AND 0x3F) \<le> 0x3F" by (simp add: word_le_nat_alt)
  moreover have "unat (ucast (perm AND 0x3F) :: u64) = unat (perm AND 0x3F)" by (rule unat_ucast_up) simp
  ultimately show ?thesis by (simp add: word_less_nat_alt)
qed

section \<open>Unmapping\<close>

lemma unmap_step_ok:
  assumes "pt_inv avail root (m, h)"
  obtains m' where "unmap_step root va (m, h) = Inr (0, m', h)" "pt_inv avail root (m', h)"
    "\<And>w. leaf m' root w = (if vpn w = vpn va \<and> leaf m root w AND PTE_M \<noteq> 0 then 0 else leaf m root w)"
proof -
  have wf: "pt_wf m root" "tables m root \<inter> avail h = {}" using assms by (auto simp: pt_inv_def)
  show ?thesis
  proof (cases "tbl m root (vpath va)")
    case None
    have "leaf m root w = 0" if "vpn w = vpn va" for w using leaf_vpn [OF that] None by (simp add: leaf_def)
    then show ?thesis using that [of m] None assms by (auto simp: unmap_step_def walk_find)
  next
    case (Some b)
    note l = leaf_table [OF wf(1) Some] and st = store_leaf [OF wf(1) Some, where x = 0]
    show ?thesis
    proof (cases "leaf m root va AND PTE_M = 0")
      case True
      have "leaf m root w AND PTE_M = 0" if "vpn w = vpn va" for w using True leaf_vpn [OF that] by simp
      moreover have "unmap_step root va (m, h) = Inr (0, m, h)" using True Some l by (simp add: unmap_step_def walk_find)
      ultimately show ?thesis using that [of m] assms by metis
    next
      case False
      have "unmap_step root va (m, h) = Inr (0, m(entry b (PX 0 va) := 0), h)"
        using False Some l by (simp add: unmap_step_def walk_find)
      moreover have "pt_inv avail root (m(entry b (PX 0 va) := 0), h)" using st(2,3) wf(2) by (simp add: pt_inv_def)
      moreover have "leaf m root w AND PTE_M \<noteq> 0" if "vpn w = vpn va" for w using False leaf_vpn [OF that] by simp
      ultimately show ?thesis using that st(4) by simp
    qed
  qed
qed

lemma unmap_loop:
  assumes "pt_inv avail root (m, h)" and "unat a + n * 4096 < 2 ^ 64"
  obtains m' where "for_addr a (nth_page a n) PAGE_SIZE (unmap_step root) (m, h) = Inr (0, m', h)" "pt_inv avail root (m', h)"
    "\<And>w. leaf m' root w = (if (\<exists>k<n. vpn w = vpn (nth_page a k)) \<and> leaf m root w AND PTE_M \<noteq> 0 then 0 else leaf m root w)"
  using assms
proof (induction n arbitrary: a m thesis)
  case 0
  then show ?case by (auto simp: for_addr.simps)
next
  case (Suc n)
  have s: "unat (a + PAGE_SIZE) = unat a + 4096"
    using Suc.prems(3) by (simp add: unat_word_ariths config_values)
  have e: "unat (nth_page a (Suc n)) = unat a + Suc n * 4096"
  proof -
    have "unat (of_nat (Suc n) * PAGE_SIZE :: u64) = Suc n * 4096"
      using Suc.prems(3) unat_of_nat_small [of "Suc n * 4096", where 'a = 64] by (simp add: config_values)
    then show ?thesis using Suc.prems(3) by (simp only: unat_word_ariths) simp
  qed
  obtain m1 where m1: "unmap_step root a (m, h) = Inr (0, m1, h)" "pt_inv avail root (m1, h)"
    "\<And>w. leaf m1 root w = (if vpn w = vpn a \<and> leaf m root w AND PTE_M \<noteq> 0 then 0 else leaf m root w)"
    using unmap_step_ok [OF Suc.prems(2), of a] by metis
  have "unat (a + PAGE_SIZE) + n * 4096 < 2 ^ 64" using s Suc.prems(3) by simp
  from Suc.IH [OF _ m1(2) this] obtain m2 where m2:
    "for_addr (a + PAGE_SIZE) (nth_page (a + PAGE_SIZE) n) PAGE_SIZE (unmap_step root) (m1, h) = Inr (0, m2, h)"
    "pt_inv avail root (m2, h)"
    "\<And>w. leaf m2 root w = (if (\<exists>k<n. vpn w = vpn (nth_page (a + PAGE_SIZE) k)) \<and> leaf m1 root w AND PTE_M \<noteq> 0 then 0 else leaf m1 root w)"
    by blast
  have lt: "a < nth_page a (Suc n)" "a < a + PAGE_SIZE" unfolding word_less_nat_alt e s by simp_all
  have run: "for_addr a (nth_page a (Suc n)) PAGE_SIZE (unmap_step root) (m, h) = Inr (0, m2, h)"
    using lt m1(1) m2(1) by (subst for_addr.simps) (simp only: nth_page_Suc if_True rbind_Inr prod.case, simp)
  have "(\<exists>k<Suc n. vpn w = vpn (nth_page a k)) \<longleftrightarrow> vpn w = vpn a \<or> (\<exists>k<n. vpn w = vpn (nth_page (a + PAGE_SIZE) k))" for w
    by (auto simp: Ex_less_Suc2 nth_page_Suc simp del: of_nat_Suc)
  then have "leaf m2 root w =
      (if (\<exists>k<Suc n. vpn w = vpn (nth_page a k)) \<and> leaf m root w AND PTE_M \<noteq> 0 then 0 else leaf m root w)" for w
    unfolding m2(3) m1(3) by auto
  then show ?case using Suc.prems(1) [OF run m2(2)] by blast
qed

end
