(* ===== verification/Vma.thy ===== *)
theory Vma
  imports Pagetable_Correct
begin

text \<open>
  The memory areas of a process, \<^verbatim>\<open>src/mm/vma.c\<close>. The list of the process is the sequence of its node
  addresses, in order. A node whose links were never set (a fresh \<^verbatim>\<open>kzalloc\<close>) has null links, and
  \<^verbatim>\<open>list_del\<close> on it is a null dereference; \<^verbatim>\<open>list_del\<close> of a node that was just unlinked rewrites the
  links its neighbours already have. \<^verbatim>\<open>kzalloc(sizeof(struct vma))\<close> and \<^verbatim>\<open>kfree\<close> are \<open>KZ\<close> and \<open>KF\<close>.
\<close>

section \<open>Operations\<close>

record vma =
  v_start :: u64
  v_length :: u64
  v_perm :: u32
  v_type :: int
  v_linked :: bool

record 'h vm_proc =
  areas :: "addr list"
  vma_at :: "addr \<Rightarrow> vma"
  pagetable :: addr
  pt_mem :: ptmem
  heap :: 'h

definition VMA_TYPE_START :: int where "VMA_TYPE_START = 0"
definition VMA_TYPE_END :: int where "VMA_TYPE_END = 3"

definition vma_create ::
  "('h \<Rightarrow> addr \<times> 'h) \<Rightarrow> u64 \<Rightarrow> u64 \<Rightarrow> u32 \<Rightarrow> int \<Rightarrow> 'h vm_proc \<Rightarrow> addr \<times> 'h vm_proc" where
  "vma_create KZ start len perm type p =
     (if start < VM_START \<or> VM_END \<le> start + len \<or> VMA_TYPE_START \<le> type \<or> type \<le> VMA_TYPE_END
      then (NULL, p)
      else
        let (v, h) = KZ (heap p); p = p\<lparr>heap := h\<rparr>
        in if v = NULL then (NULL, p)
           else (v, p\<lparr>vma_at := (vma_at p)(v := \<lparr>v_start = start, v_length = len, v_perm = perm,
                                              v_type = type, v_linked = False\<rparr>)\<rparr>))"

definition vma_unlink :: "addr \<Rightarrow> 'h vm_proc \<Rightarrow> 'h vm_proc res" where
  "vma_unlink v p = (if v_linked (vma_at p v) then Inr (p\<lparr>areas := remove1 v (areas p)\<rparr>) else Inl Null_Deref)"

definition vma_destroy :: "(addr \<Rightarrow> 'h \<Rightarrow> 'h) \<Rightarrow> addr \<Rightarrow> 'h vm_proc \<Rightarrow> 'h vm_proc res" where
  "vma_destroy KF v p = rbind (vma_unlink v p) (\<lambda>p. Inr (p\<lparr>heap := KF v (heap p)\<rparr>))"

fun find_area :: "(addr \<Rightarrow> vma) \<Rightarrow> u64 \<Rightarrow> addr list \<Rightarrow> addr" where
  "find_area at va [] = NULL"
| "find_area at va (v # vs) =
     (if va < v_start (at v) then NULL
      else if va < v_start (at v) + v_length (at v) then v
      else find_area at va vs)"

definition vma_find :: "'h vm_proc \<Rightarrow> u64 \<Rightarrow> addr" where
  "vma_find p va = find_area (vma_at p) va (areas p)"

text \<open>The scan of \<^verbatim>\<open>vma_insert\<close>: \<open>None\<close> when an area overlaps, otherwise the list with the node put before \<^verbatim>\<open>pos\<close>.\<close>

fun insert_area :: "(addr \<Rightarrow> vma) \<Rightarrow> addr \<Rightarrow> addr list \<Rightarrow> addr list option" where
  "insert_area at n [] = Some [n]"
| "insert_area at n (v # vs) =
     (if \<not> (v_start (at n) + v_length (at n) \<le> v_start (at v) \<or>
             v_start (at v) + v_length (at v) \<le> v_start (at n)) then None
      else if v_start (at n) < v_start (at v) then Some (n # v # vs)
      else map_option (Cons v) (insert_area at n vs))"

definition vma_insert :: "addr \<Rightarrow> 'h vm_proc \<Rightarrow> int \<times> 'h vm_proc" where
  "vma_insert n p =
     (case insert_area (vma_at p) n (areas p) of
        None \<Rightarrow> (- EEXIST, p)
      | Some vs \<Rightarrow> (0, p\<lparr>areas := vs, vma_at := (vma_at p)(n := (vma_at p n)\<lparr>v_linked := True\<rparr>)\<rparr>))"

definition vma_map_pages :: "('h \<Rightarrow> addr \<times> 'h) \<Rightarrow> addr \<Rightarrow> 'h vm_proc \<Rightarrow> (int \<times> 'h vm_proc) res" where
  "vma_map_pages KZ v p =
     rbind (mappages KZ (pagetable p) (v_start (vma_at p v)) 0 (v_length (vma_at p v) div PAGE_SIZE)
              (v_perm (vma_at p v)) (pt_mem p, heap p))
       (\<lambda>(r, m, h). Inr (r, p\<lparr>pt_mem := m, heap := h\<rparr>))"

definition vma_unmap_pages :: "u64 \<Rightarrow> u64 \<Rightarrow> 'h vm_proc \<Rightarrow> (int \<times> 'h vm_proc) res" where
  "vma_unmap_pages start len p =
     rbind (unmappages (pagetable p) start (len div PAGE_SIZE) (pt_mem p, heap p))
       (\<lambda>(r, m, h). Inr (r, p\<lparr>pt_mem := m, heap := h\<rparr>))"

definition vma_remove :: "(addr \<Rightarrow> 'h \<Rightarrow> 'h) \<Rightarrow> u64 \<Rightarrow> u64 \<Rightarrow> 'h vm_proc \<Rightarrow> (int \<times> 'h vm_proc) res" where
  "vma_remove KF start len p =
     (let v = vma_find p start
      in if v = NULL \<or> v_start (vma_at p v) \<noteq> start \<or> v_length (vma_at p v) \<noteq> len then Inr (- ENOENT, p)
         else
           rbind (vma_unmap_pages start len p) (\<lambda>(_, p).
           rbind (vma_unlink v p) (\<lambda>p.
           rbind (vma_destroy KF v p) (\<lambda>p. Inr (0, p)))))"

section \<open>Invariant\<close>

text \<open>Areas of the list do not wrap around, are not null, linked, sorted and pairwise disjoint.\<close>

definition area_end :: "vma \<Rightarrow> nat" where
  "area_end v = unat (v_start v) + unat (v_length v)"

definition area_ok :: "(addr \<Rightarrow> vma) \<Rightarrow> addr \<Rightarrow> bool" where
  "area_ok at v \<longleftrightarrow> v \<noteq> NULL \<and> area_end (at v) < 2 ^ 64 \<and> v_length (at v) \<noteq> 0"

definition areas_ok :: "(addr \<Rightarrow> vma) \<Rightarrow> addr list \<Rightarrow> bool" where
  "areas_ok at vs \<longleftrightarrow> (\<forall>v\<in>set vs. area_ok at v) \<and> sorted_wrt (\<lambda>v w. area_end (at v) \<le> unat (v_start (at w))) vs"

definition vma_inv :: "'h vm_proc \<Rightarrow> bool" where
  "vma_inv p \<longleftrightarrow> areas_ok (vma_at p) (areas p) \<and> distinct (areas p) \<and> (\<forall>v\<in>set (areas p). v_linked (vma_at p v))"

definition covers :: "vma \<Rightarrow> u64 \<Rightarrow> bool" where
  "covers v va \<longleftrightarrow> unat (v_start v) \<le> unat va \<and> unat va < area_end v"

lemma unat_end: "area_ok at v \<Longrightarrow> unat (v_start (at v) + v_length (at v)) = area_end (at v)"
  by (simp add: area_ok_def area_end_def unat_word_ariths)

lemma areas_ok_Cons:
  "areas_ok at (v # vs) \<longleftrightarrow> area_ok at v \<and> areas_ok at vs \<and> (\<forall>w\<in>set vs. area_end (at v) \<le> unat (v_start (at w)))"
  by (auto simp: areas_ok_def)

lemma find_area_ok:
  assumes "areas_ok at vs"
  shows "(find_area at va vs = NULL \<longleftrightarrow> (\<forall>v\<in>set vs. \<not> covers (at v) va)) \<and>
    (find_area at va vs \<noteq> NULL \<longrightarrow> find_area at va vs \<in> set vs \<and> covers (at (find_area at va vs)) va)"
  using assms
proof (induction vs)
  case (Cons v vs)
  then have v: "area_ok at v" and vs: "areas_ok at vs" "\<forall>w\<in>set vs. area_end (at v) \<le> unat (v_start (at w))"
    by (auto simp: areas_ok_Cons)
  have e: "va < v_start (at v) + v_length (at v) \<longleftrightarrow> unat va < area_end (at v)"
    by (simp add: word_less_nat_alt unat_end [OF v])
  have nv: "v \<noteq> NULL" using v by (simp add: area_ok_def)
  show ?case
  proof (cases "va < v_start (at v)")
    case True
    then have "\<not> covers (at w) va" if "w \<in> set (v # vs)" for w
      using that vs(2) by (fastforce simp: covers_def area_end_def word_less_nat_alt)
    then show ?thesis using True by simp
  next
    case False
    then have "covers (at v) va \<longleftrightarrow> unat va < area_end (at v)" by (auto simp: covers_def word_less_nat_alt)
    then show ?thesis using False e nv Cons.IH [OF vs(1)] by simp
  qed
qed simp

text \<open>A covering area is unique, so \<^verbatim>\<open>vma_find\<close> is a function of the covered addresses.\<close>

lemma covers_unique:
  assumes "areas_ok at vs" "v \<in> set vs" "w \<in> set vs" "covers (at v) va" "covers (at w) va"
  shows "v = w"
  using assms
proof (induction vs)
  case (Cons u vs)
  have "\<not> covers (at x) va" if "x \<in> set vs" "covers (at u) va" for x
    using that Cons.prems(1) by (fastforce simp: areas_ok_Cons covers_def)
  then show ?case using Cons by (auto simp: areas_ok_Cons)
qed simp

lemma insert_area_ok:
  assumes "areas_ok at vs" and "area_ok at n"
  shows "(insert_area at n vs = None \<longleftrightarrow> (\<exists>v\<in>set vs. \<exists>va. covers (at v) va \<and> covers (at n) va)) \<and>
    (\<forall>ws. insert_area at n vs = Some ws \<longrightarrow> areas_ok at ws \<and> set ws = insert n (set vs) \<and> (\<exists>xs ys. vs = xs @ ys \<and> ws = xs @ n # ys))"
  using assms
proof (induction vs)
  case Nil
  then show ?case by (simp add: areas_ok_def)
next
  case (Cons v vs)
  then have v: "area_ok at v" and vs: "areas_ok at vs" "\<forall>w\<in>set vs. area_end (at v) \<le> unat (v_start (at w))"
    by (auto simp: areas_ok_Cons)
  have pos: "unat (v_start (at x)) < area_end (at x)" if "area_ok at x" for x
    using that by (simp add: area_ok_def area_end_def word_neq_0_conv [symmetric] unat_gt_0)
  have overlap: "(\<exists>va. covers (at v) va \<and> covers (at n) va) \<longleftrightarrow>
      \<not> (area_end (at n) \<le> unat (v_start (at v)) \<or> area_end (at v) \<le> unat (v_start (at n)))"
  proof
    assume r: "\<not> (area_end (at n) \<le> unat (v_start (at v)) \<or> area_end (at v) \<le> unat (v_start (at n)))"
    have "covers (at v) (max (v_start (at v)) (v_start (at n)))" "covers (at n) (max (v_start (at v)) (v_start (at n)))"
      using r pos [OF v] pos [OF Cons.prems(2)] by (auto simp: covers_def max_def word_le_nat_alt)
    then show "\<exists>va. covers (at v) va \<and> covers (at n) va" by blast
  qed (auto simp: covers_def)
  have c: "v_start (at n) + v_length (at n) \<le> v_start (at v) \<longleftrightarrow> area_end (at n) \<le> unat (v_start (at v))"
    "v_start (at v) + v_length (at v) \<le> v_start (at n) \<longleftrightarrow> area_end (at v) \<le> unat (v_start (at n))"
    by (simp_all add: word_le_nat_alt unat_end [OF v] unat_end [OF Cons.prems(2)])
  note ih = Cons.IH [OF vs(1) Cons.prems(2)]
  show ?case
  proof (cases "area_end (at n) \<le> unat (v_start (at v)) \<or> area_end (at v) \<le> unat (v_start (at n))")
    case False
    then show ?thesis using overlap c by auto
  next
    case sep: True
    then have no: "\<not> (\<exists>va. covers (at v) va \<and> covers (at n) va)" using overlap by blast
    show ?thesis
    proof (cases "v_start (at n) < v_start (at v)")
      case True
      then have le: "area_end (at n) \<le> unat (v_start (at v))"
        using sep pos [OF v] by (auto simp: word_less_nat_alt)
      have "area_end (at n) \<le> unat (v_start (at w))" if "w \<in> set vs" for w
        using le pos [OF v] vs(2) that by fastforce
      moreover from this have "\<not> (\<exists>va. covers (at w) va \<and> covers (at n) va)" if "w \<in> set vs" for w
        using that by (fastforce simp: covers_def)
      moreover have "insert_area at n (v # vs) = Some (n # v # vs)" using True sep c by simp
      moreover have "\<exists>xs ys. v # vs = xs @ ys \<and> n # v # vs = xs @ n # ys" by (rule exI [of _ "[]"]) simp
      ultimately show ?thesis using Cons.prems le no
        by (auto simp: areas_ok_Cons simp del: insert_area.simps)
    next
      case False
      then have "area_end (at v) \<le> unat (v_start (at n))"
        using sep pos [OF Cons.prems(2)] by (auto simp: word_less_nat_alt)
      moreover have "insert_area at n (v # vs) = map_option (Cons v) (insert_area at n vs)" using False sep c by simp
      moreover have "\<exists>xs' ys. v # vs = xs' @ ys \<and> v # ws = xs' @ n # ys" if "vs = xs @ ys" "ws = xs @ n # ys" for ws xs ys
        using that by (intro exI [of _ "v # xs"] exI [of _ ys]) simp
      ultimately show ?thesis using ih no v vs(2) by (auto simp: areas_ok_Cons simp del: insert_area.simps)
    qed
  qed
qed

lemma areas_ok_cong:
  assumes "areas_ok at vs" and "\<And>v. v \<in> set vs \<Longrightarrow> v_start (at' v) = v_start (at v) \<and> v_length (at' v) = v_length (at v)"
  shows "areas_ok at' vs"
proof -
  have "area_end (at' v) = area_end (at v)" if "v \<in> set vs" for v using assms(2) [OF that] by (simp add: area_end_def)
  then show ?thesis using assms by (auto simp: areas_ok_def area_ok_def elim!: sorted_wrt_mono_rel [rotated])
qed

lemma areas_ok_remove1: "areas_ok at vs \<Longrightarrow> areas_ok at (remove1 v vs)"
proof (induction vs)
  case (Cons u vs)
  then show ?case using set_remove1_subset [of v vs] by (auto simp: areas_ok_Cons)
qed (simp add: areas_ok_def)

end
