(* ===== verification/Vm_Properties.thy ===== *)
theory Vm_Properties
  imports Vma
begin

text \<open>The properties of page tables and memory areas, with concrete instances.\<close>

section \<open>Page tables\<close>

text \<open>
  C9: A call of \<^verbatim>\<open>mappages\<close> that returns 0 maps exactly the requested range: every page of it is then found
  by \<^verbatim>\<open>walkaddr\<close> at its physical page, every page that was mapped before stays mapped as it was, the
  other virtual pages are untouched although tables were allocated on the way, and the tables still
  form a tree of distinct pages. The only error after the argument checks is \<^verbatim>\<open>-EADDRINUSE\<close>.
\<close>

theorem mappages_maps_range:
  assumes "fresh_pages KZ avail" and "pt_inv avail root (m, h)"
    and "mappages KZ root va pa npages perm (m, h) = Inr (r, m', h')"
  shows "pt_inv avail root (m', h') \<and> r \<in> {0, - EINVAL, - ERANGE, - EADDRINUSE} \<and>
    (\<forall>w. leaf m root w AND PTE_M \<noteq> 0 \<longrightarrow> leaf m' root w = leaf m root w) \<and>
    (\<forall>w. (\<forall>k<unat npages. vpn w \<noteq> vpn (nth_page va k)) \<longrightarrow> walkaddr KZ root w (m', h') = walkaddr KZ root w (m, h)) \<and>
    (r = 0 \<longrightarrow> (\<forall>k<unat npages. nth_page va k < VM_END \<longrightarrow> walkaddr KZ root (nth_page va k) (m', h') = nth_page pa k))"
proof (cases "r \<in> {- EINVAL, - ERANGE} \<or> npages = 0")
  case True
  then have "m' = m \<and> h' = h \<and> (r = 0 \<longrightarrow> npages = 0) \<and> (r = 0 \<or> r = - EINVAL \<or> r = - ERANGE)"
    using assms(3) map_loop_ok [OF assms(1,2), of va pa "ucast (perm AND 0x3F)" "unat npages" r m' h']
    by (auto simp: mappages_def EINVAL_def ERANGE_def EADDRINUSE_def split: if_splits)
  then show ?thesis using assms(2) by auto
next
  case False
  have pa: "PAGE_ALIGNED pa" and run: "map_loop KZ root va pa (ucast (perm AND 0x3F)) (unat npages) (m, h) = Inr (r, m', h')"
    using assms(3) False by (auto simp: mappages_def split: if_splits)
  note ok = map_loop_ok [OF assms(1,2) run]
  have wf: "pt_wf m root" "pt_wf m' root" using assms(2) ok by (auto simp: pt_inv_def)
  have "walkaddr KZ root (nth_page va k) (m', h') = nth_page pa k"
    if "r = 0" "k < unat npages" "nth_page va k < VM_END" for k
  proof -
    let ?e = "PA2PTE (nth_page pa k) OR ucast (perm AND 0x3F) OR PTE_M"
    have "leaf m' root (nth_page va k) = ?e" using ok that by blast
    moreover have "?e AND PTE_M \<noteq> 0" by (metis leaf_entry_M or.assoc)
    moreover have "PTE2PA ?e = nth_page pa k" by (rule PTE2PA_leaf [OF aligned_nth_page [OF pa] perm_small])
    moreover have "\<not> VM_END \<le> nth_page va k" using that(3) by simp
    ultimately show ?thesis by (simp only: walkaddr_leaf [OF wf(2)] if_False de_Morgan_disj simp_thms)
  qed
  moreover have "walkaddr KZ root w (m', h') = walkaddr KZ root w (m, h)" if "\<forall>k<unat npages. vpn w \<noteq> vpn (nth_page va k)" for w
    using ok that by (simp add: walkaddr_leaf [OF wf(1)] walkaddr_leaf [OF wf(2)])
  ultimately show ?thesis using ok by blast
qed

text \<open>A page source that hands out the pages from an address upwards, and an empty page table.\<close>

definition bump_page :: "u64 \<Rightarrow> u64 \<times> u64" where
  "bump_page h = (if PAGE_ALIGNED h \<and> h \<noteq> 0 \<and> h < 0x88000000 then (h, h + 4096) else (0, h))"

definition bump_avail :: "u64 \<Rightarrow> addr set" where
  "bump_avail h = {a. h \<le> a \<and> a < 0x88000000}"

lemma bump_fresh: "fresh_pages bump_page bump_avail"
  unfolding fresh_pages_def
proof (intro allI impI)
  fix h a h' assume k: "bump_page h = (a, h')"
  show "bump_avail h' \<subseteq> bump_avail h \<and> (a \<noteq> NULL \<longrightarrow> a \<in> bump_avail h \<and> a \<notin> bump_avail h' \<and> PAGE_ALIGNED a)"
  proof (cases "PAGE_ALIGNED h \<and> h \<noteq> 0 \<and> h < 0x88000000")
    case True
    then have lt: "h < h + 4096" by (simp add: word_less_nat_alt unat_word_ariths)
    then have "bump_avail (h + 4096) \<subseteq> bump_avail h" by (auto simp: bump_avail_def)
    moreover have "h \<notin> bump_avail (h + 4096)" using lt by (simp add: bump_avail_def not_le)
    moreover have "h \<in> bump_avail h" using True by (simp add: bump_avail_def)
    moreover have "a = h" "h' = h + 4096" using k True by (auto simp: bump_page_def)
    ultimately show ?thesis using True by simp
  qed (use k in \<open>auto simp: bump_page_def\<close>)
qed

lemma empty_table_inv: "pt_inv bump_avail 0x80400000 ((\<lambda>_. 0), 0x80401000)"
proof -
  have t: "tbl (\<lambda>_. 0) (0x80400000 :: addr) is = Some a \<longleftrightarrow> is = [] \<and> a = 0x80400000" for "is" a
    by (cases "is") (auto simp: child_def)
  then show ?thesis
    by (auto simp: pt_inv_def pt_wf_def tables_def bump_avail_def ALIGNED_def config_values)
qed

lemma empty_map:
  "\<exists>m' h'. mappages bump_page 0x80400000 0x10000000 0x80200000 1 6 ((\<lambda>_. 0), 0x80401000) = Inr (0, m', h')"
proof -
  have px: "PX (Suc (Suc 0)) 0x10000000 = 0" "PX (Suc 0) 0x10000000 = 128" "PX 0 0x10000000 = 0"
    by (simp_all add: PX_def PAGE_SHIFT_def)
  have two: "va2pte_loop KZ va al 2 pt s = va2pte_loop KZ va al (Suc (Suc 0)) pt s" for KZ va al pt and s :: "ptmem \<times> u64"
    by (simp add: numeral_2_eq_2)
  have zp: "m p = 0 \<Longrightarrow> zero_page a m p = 0" for m p a by (simp add: zero_page_def)
  have kz: "bump_page 0x80401000 = (0x80401000, 0x80402000)" "bump_page 0x80402000 = (0x80402000, 0x80403000)"
    by (simp_all add: bump_page_def ALIGNED_def config_values)
  have "\<exists>m' h'. va2pte bump_page 0x80400000 0x10000000 True ((\<lambda>_. 0), 0x80401000) = (0x80402000, m', h') \<and> m' 0x80402000 = 0"
    unfolding va2pte_def two by (simp add: px kz entry_def zp Let_def)
  then obtain m' h' where w: "va2pte bump_page 0x80400000 0x10000000 True ((\<lambda>_. 0), 0x80401000) = (0x80402000, m', h')" "m' 0x80402000 = 0"
    by blast
  have "unat (1 :: u64) = Suc 0" by simp
  then show ?thesis using w by (simp add: mappages_def ALIGNED_def config_values VM_END_def del: unsigned_1)
qed

theorem mappages_maps_range_witness:
  "\<exists>m' h'. mappages bump_page 0x80400000 0x10000000 0x80200000 1 6 ((\<lambda>_. 0), 0x80401000) = Inr (0, m', h') \<and>
     walkaddr bump_page 0x80400000 0x10000000 (m', h') = 0x80200000"
proof -
  obtain m' h' where run: "mappages bump_page 0x80400000 0x10000000 0x80200000 1 6 ((\<lambda>_. 0), 0x80401000) = Inr (0, m', h')"
    using empty_map by blast
  from mappages_maps_range [OF bump_fresh empty_table_inv run]
  have "\<forall>k<unat (1 :: u64). nth_page 0x10000000 k < VM_END \<longrightarrow>
      walkaddr bump_page 0x80400000 (nth_page 0x10000000 k) (m', h') = nth_page 0x80200000 k" by blast
  from this [rule_format, of 0] show ?thesis using run by (simp add: VM_END_def)
qed

text \<open>
  C27: \<^verbatim>\<open>unmappages\<close> always returns 0, frees exactly the virtual pages of its range and leaves the others
  alone; after mapping a range of unmapped pages and unmapping it again, every address translates as
  it did before.
\<close>

theorem unmappages_undoes_mappages:
  assumes "fresh_pages KZ avail" and "pt_inv avail root (m, h)"
    and "mappages KZ root va pa npages perm (m, h) = Inr (0, m1, h1)"
    and "PAGE_ALIGNED va" and "unat va + unat npages * 4096 < 2 ^ 64"
    and "\<forall>k<unat npages. leaf m root (nth_page va k) AND PTE_M = 0"
  shows "\<exists>m2. unmappages root va npages (m1, h1) = Inr (0, m2, h1) \<and> pt_inv avail root (m2, h1) \<and>
    (\<forall>w. walkaddr KZ root w (m2, h1) = walkaddr KZ root w (m, h))"
proof -
  have al: "PAGE_ALIGN_DOWN va = va" using assms(4) and_split_add [of va "PAGE_SIZE - 1"] by (simp add: ALIGNED_def ALIGN_DOWN_def)
  have m1: "pt_inv avail root (m1, h1)"
    "\<And>w. (\<forall>k<unat npages. vpn w \<noteq> vpn (nth_page va k)) \<Longrightarrow> leaf m1 root w = leaf m root w"
    using assms(3) map_loop_ok [OF assms(1,2), of va pa "ucast (perm AND 0x3F)" "unat npages" 0 m1 h1]
    by (auto simp: mappages_def EINVAL_def ERANGE_def assms(2) split: if_splits)
  obtain m2 where m2: "for_addr va (nth_page va (unat npages)) PAGE_SIZE (unmap_step root) (m1, h1) = Inr (0, m2, h1)"
    "pt_inv avail root (m2, h1)"
    "\<And>w. leaf m2 root w = (if (\<exists>k<unat npages. vpn w = vpn (nth_page va k)) \<and> leaf m1 root w AND PTE_M \<noteq> 0 then 0 else leaf m1 root w)"
    using unmap_loop [OF m1(1) assms(5)] by metis
  have run: "unmappages root va npages (m1, h1) = Inr (0, m2, h1)" using m2(1) by (simp add: unmappages_def al)
  have wf: "pt_wf m root" "pt_wf m2 root" using assms(2) m2(2) by (auto simp: pt_inv_def)
  have "walkaddr KZ root w (m2, h1) = walkaddr KZ root w (m, h)" for w
  proof (cases "\<exists>k<unat npages. vpn w = vpn (nth_page va k)")
    case True
    then have "leaf m root w AND PTE_M = 0" using assms(6) leaf_vpn by metis
    moreover have "leaf m2 root w AND PTE_M = 0" using m2(3) True by simp
    ultimately show ?thesis by (simp add: walkaddr_leaf [OF wf(1)] walkaddr_leaf [OF wf(2)])
  next
    case False
    then have "leaf m2 root w = leaf m root w" using m1(2) m2(3) by auto
    then show ?thesis by (simp add: walkaddr_leaf [OF wf(1)] walkaddr_leaf [OF wf(2)])
  qed
  then show ?thesis using run m2(2) by blast
qed

theorem unmappages_undoes_mappages_witness:
  "\<exists>m1 h1 m2. mappages bump_page 0x80400000 0x10000000 0x80200000 1 6 ((\<lambda>_. 0), 0x80401000) = Inr (0, m1, h1) \<and>
     unmappages 0x80400000 0x10000000 1 (m1, h1) = Inr (0, m2, h1) \<and>
     walkaddr bump_page 0x80400000 0x10000000 (m2, h1) = 0"
proof -
  obtain m1 h1 where run: "mappages bump_page 0x80400000 0x10000000 0x80200000 1 6 ((\<lambda>_. 0), 0x80401000) = Inr (0, m1, h1)"
    using empty_map by blast
  have l: "leaf (\<lambda>_. 0) 0x80400000 w = 0" for w by (simp add: leaf_def child_def)
  have "PAGE_ALIGNED 0x10000000" "unat (0x10000000 :: u64) + unat (1 :: u64) * 4096 < 2 ^ 64"
    by (simp_all add: ALIGNED_def config_values)
  from unmappages_undoes_mappages [OF bump_fresh empty_table_inv run this] l
  obtain m2 where "unmappages 0x80400000 0x10000000 1 (m1, h1) = Inr (0, m2, h1)"
    "walkaddr bump_page 0x80400000 0x10000000 (m2, h1) = walkaddr bump_page 0x80400000 0x10000000 ((\<lambda>_. 0), 0x80401000)" by auto
  moreover have "walkaddr bump_page 0x80400000 0x10000000 ((\<lambda>_. 0), 0x80401000) = 0"
    using empty_table_inv l by (simp add: walkaddr_leaf pt_inv_def)
  ultimately show ?thesis using run by auto
qed

text \<open>
  \<^verbatim>\<open>mappages\<close> uses the entry returned by \<^verbatim>\<open>va2pte\<close> without a null check: on a table that lacks a level, an
  allocation failure is a null dereference instead of \<^verbatim>\<open>-ENOMEM\<close>. And its range checks wrap around: a
  request for two to the power 52 pages passes both of them.
\<close>

theorem mappages_unchecked:
  assumes "root \<noteq> NULL" and "PAGE_ALIGNED va" and "PAGE_ALIGNED pa" and "va < VM_END - PAGE_SIZE" and "pa < PM_END - PAGE_SIZE"
    and "child m root (PX 2 va) = None" and "fst (KZ h) = NULL"
  shows "mappages KZ root va pa 1 perm (m, h) = Inl Null_Deref \<and>
    mappages KZ root va pa (2 ^ 52) perm (m, h) \<notin> {Inr (- ERANGE, m, h), Inr (- EINVAL, m, h)}"
proof -
  have lt: "\<not> VM_END < va + PAGE_SIZE" "\<not> PM_END < pa + PAGE_SIZE"
    using assms(4,5) by (auto simp: word_less_nat_alt VM_END_def config_values unat_word_ariths)
  have "va2pte KZ root va True (m, h) = (NULL, m, snd (KZ h))"
    using assms(6,7) by (cases "KZ h") (auto simp: va2pte_def numeral_2_eq_2 child_def split: if_splits)
  then have loop: "map_loop KZ root va pa p (Suc n) (m, h) = Inl Null_Deref" for p n by simp
  have big: "(2 ^ 52 :: u64) * PAGE_SIZE = 0" "unat (2 ^ 52 :: u64) = Suc (2 ^ 52 - 1)" by (simp_all add: config_values)
  have small: "\<not> VM_END < va" "\<not> PM_END < pa"
    using assms(4,5) by (auto simp: word_less_nat_alt VM_END_def config_values)
  have "map_loop KZ root va pa (ucast (perm AND 0x3F)) (unat (2 ^ 52 :: u64)) (m, h) = Inl Null_Deref"
    unfolding big(2) by (rule loop)
  then have "mappages KZ root va pa (2 ^ 52) perm (m, h) = Inl Null_Deref"
    using assms(1-3) small unfolding mappages_def big(1) by simp
  moreover have "mappages KZ root va pa 1 perm (m, h) = Inl Null_Deref"
    using assms(1-3) lt loop [of _ 0] by (simp add: mappages_def)
  ultimately show ?thesis by simp
qed

theorem mappages_unchecked_witness:
  "mappages (\<lambda>h. (NULL, h)) 0x80400000 0x10000000 0x80200000 1 6 ((\<lambda>_. 0), ()) = Inl Null_Deref"
  using mappages_unchecked [of "0x80400000" "0x10000000" "0x80200000" "\<lambda>_. 0" "\<lambda>h. (NULL, h)" "()" 6]
  by (simp add: ALIGNED_def config_values VM_END_def child_def)

section \<open>Memory areas\<close>

text \<open>
  C24: The list of areas of a process stays sorted and free of overlaps: \<^verbatim>\<open>vma_insert\<close> refuses with
  \<^verbatim>\<open>-EEXIST\<close> exactly when the new area shares an address with an old one and otherwise adds it at its place. It merges
  nothing: no area changes its start or its length, also where the new one touches an old one. So says the comment in
  \<^verbatim>\<open>vma.c\<close>, against the one in \<^verbatim>\<open>vma.h\<close>, which asks for adjacent areas to be merged. After it,
  and after a refusal, \<^verbatim>\<open>vma_find\<close>, although it stops at the first area above the address, returns the only area that
  covers it, or \<^verbatim>\<open>NULL\<close> when there is none.
\<close>

theorem vma_insert_find:
  assumes "vma_inv p" and "area_ok (vma_at p) n" and "n \<notin> set (areas p)" and "vma_insert n p = (r, q)"
  shows "vma_inv q \<and> (r = 0 \<or> r = - EEXIST \<and> q = p) \<and>
    (r = - EEXIST \<longleftrightarrow> (\<exists>v\<in>set (areas p). \<exists>va. covers (vma_at p v) va \<and> covers (vma_at p n) va)) \<and>
    (r = 0 \<longrightarrow> set (areas q) = insert n (set (areas p))) \<and>
    (\<forall>v. v_start (vma_at q v) = v_start (vma_at p v) \<and> v_length (vma_at q v) = v_length (vma_at p v)) \<and>
    (\<forall>va. if \<exists>v\<in>set (areas q). covers (vma_at q v) va
          then vma_find q va \<in> set (areas q) \<and> covers (vma_at q (vma_find q va)) va else vma_find q va = NULL)"
proof -
  have ok: "areas_ok (vma_at p) (areas p)" and d: "distinct (areas p)" and l: "\<forall>v\<in>set (areas p). v_linked (vma_at p v)"
    using assms(1) by (auto simp: vma_inv_def)
  note ins = insert_area_ok [OF ok assms(2)]
  have q: "vma_inv q \<and> (r = 0 \<or> r = - EEXIST \<and> q = p) \<and>
    (r = - EEXIST \<longleftrightarrow> (\<exists>v\<in>set (areas p). \<exists>va. covers (vma_at p v) va \<and> covers (vma_at p n) va)) \<and>
    (r = 0 \<longrightarrow> set (areas q) = insert n (set (areas p))) \<and>
    (\<forall>v. v_start (vma_at q v) = v_start (vma_at p v) \<and> v_length (vma_at q v) = v_length (vma_at p v))"
  proof (cases "insert_area (vma_at p) n (areas p)")
    case None
    then have "r = - EEXIST" "q = p" using assms(4) by (simp_all add: vma_insert_def)
    then show ?thesis using conjunct1 [OF ins] None assms(1) by (simp add: EEXIST_def)
  next
    case (Some ws)
    then obtain xs ys where ws: "areas_ok (vma_at p) ws" "set ws = insert n (set (areas p))" "areas p = xs @ ys" "ws = xs @ n # ys"
      using ins by blast
    have e: "r = 0" "q = p\<lparr>areas := ws, vma_at := (vma_at p)(n := (vma_at p n)\<lparr>v_linked := True\<rparr>)\<rparr>"
      using assms(4) Some by (auto simp: vma_insert_def)
    have "areas_ok (vma_at q) ws" unfolding e by (rule areas_ok_cong [OF ws(1)]) simp
    moreover have "distinct ws" using ws(3,4) d assms(3) by auto
    ultimately have "vma_inv q" using l ws(2) by (auto simp: vma_inv_def e(2))
    moreover have "areas q = ws" "- EEXIST \<noteq> 0" by (simp_all add: e(2) EEXIST_def)
    moreover have "\<forall>v. v_start (vma_at q v) = v_start (vma_at p v) \<and> v_length (vma_at q v) = v_length (vma_at p v)"
      by (simp add: e(2))
    ultimately show ?thesis using e(1) ws(2) conjunct1 [OF ins] Some by simp
  qed
  then have "areas_ok (vma_at q) (areas q)" by (simp add: vma_inv_def)
  then have "if \<exists>v\<in>set (areas q). covers (vma_at q v) va
      then vma_find q va \<in> set (areas q) \<and> covers (vma_at q (vma_find q va)) va else vma_find q va = NULL" for va
    using find_area_ok [of "vma_at q" "areas q" va] unfolding vma_find_def by auto
  then show ?thesis using q by blast
qed

text \<open>An area from \<^verbatim>\<open>0x4000\<close>, and a new one that ends where it starts.\<close>

definition demo_areas :: "unit vm_proc" where
  "demo_areas = \<lparr>areas = [0x100], vma_at = (\<lambda>a. \<lparr>v_start = if a = 0x100 then 0x4000 else 0x3000, v_length = 0x1000, v_perm = 6, v_type = 0, v_linked = True\<rparr>),
     pagetable = NULL, pt_mem = (\<lambda>_. 0), heap = ()\<rparr>"

theorem vma_insert_find_witness:
  "areas (snd (vma_insert 0x200 demo_areas)) = [0x200, 0x100] \<and> vma_find (snd (vma_insert 0x200 demo_areas)) 0x3800 = 0x200"
proof -
  obtain r q where q: "vma_insert 0x200 demo_areas = (r, q)" by fastforce
  then have rq: "areas q = [0x200, 0x100]" "vma_at q 0x200 = \<lparr>v_start = 0x3000, v_length = 0x1000, v_perm = 6, v_type = 0, v_linked = True\<rparr>"
    "vma_at q 0x100 = \<lparr>v_start = 0x4000, v_length = 0x1000, v_perm = 6, v_type = 0, v_linked = True\<rparr>"
    by (auto simp: vma_insert_def demo_areas_def)
  have "vma_inv demo_areas" "area_ok (vma_at demo_areas) 0x200" "0x200 \<notin> set (areas demo_areas)"
    by (simp_all add: vma_inv_def demo_areas_def areas_ok_def area_ok_def area_end_def)
  from vma_insert_find [OF this q]
  have "if \<exists>v\<in>set (areas q). covers (vma_at q v) 0x3800
      then vma_find q 0x3800 \<in> set (areas q) \<and> covers (vma_at q (vma_find q 0x3800)) 0x3800 else vma_find q 0x3800 = NULL" by blast
  moreover have "covers (vma_at q 0x200) 0x3800" "\<not> covers (vma_at q 0x100) 0x3800"
    unfolding rq by (simp_all add: covers_def area_end_def)
  ultimately have "vma_find q 0x3800 = 0x200" unfolding rq(1) by (auto split: if_splits)
  then show ?thesis using q rq(1) by simp
qed

text \<open>
  \<^verbatim>\<open>vma_create\<close> never creates an area: the type check uses \<^verbatim>\<open>||\<close>, so it holds for every type and the
  function returns \<^verbatim>\<open>NULL\<close> whatever its arguments.
\<close>

theorem vma_create_always_null: "vma_create KZ start len perm type p = (NULL, p)"
  by (auto simp: vma_create_def VMA_TYPE_START_def VMA_TYPE_END_def)

end
