(* ===== verification/Blk.thy ===== *)
theory Blk
  imports Spinlock
begin

text \<open>
  The registry of block devices, \<^verbatim>\<open>src/hal/blk.c\<close>. A driver is a record of optional operations on the
  state \<open>'d\<close> of the hardware; a missing \<^verbatim>\<open>ops\<close> table and a missing entry are both \<open>None\<close>. A transfer gets
  the current bytes of the buffer and returns the new ones. The registry lock and the device locks are
  acquired and released as in the code, by the hart \<open>io_cpu\<close>.
\<close>

record 'd block_device =
  devno :: int
  op_read :: "(u64 \<Rightarrow> u8 list \<Rightarrow> u32 \<Rightarrow> 'd \<Rightarrow> int \<times> u8 list \<times> 'd) option"
  op_write :: "(u64 \<Rightarrow> u8 list \<Rightarrow> u32 \<Rightarrow> 'd \<Rightarrow> int \<times> 'd) option"
  op_flush :: "('d \<Rightarrow> int \<times> 'd) option"
  op_capacity :: "('d \<Rightarrow> u64) option"
  op_block_size :: "('d \<Rightarrow> u32) option"
  dev_lock :: spinlock

record 'd blk =
  io_cpu :: hart
  devices :: "addr list"
  dev_at :: "addr \<Rightarrow> 'd block_device"
  registry_lock :: spinlock
  hw :: 'd

definition BLK_MAX_DEVICES :: nat where "BLK_MAX_DEVICES = 16"
definition BLOCK_BYTES :: u32 where "BLOCK_BYTES = 512"

definition blk_init :: "('d, 'z) blk_scheme \<Rightarrow> ('d, 'z) blk_scheme" where
  "blk_init st = st\<lparr>devices := [], registry_lock := SPINLOCK_INITIALIZER ''blk_registry''\<rparr>"

definition lock_registry :: "('d, 'z) blk_scheme \<Rightarrow> ('d, 'z) blk_scheme res" where
  "lock_registry st =
     rbind (spinlock_acquire (io_cpu st, registry_lock st)) (\<lambda>(c, l). Inr (st\<lparr>io_cpu := c, registry_lock := l\<rparr>))"

definition unlock_registry :: "('d, 'z) blk_scheme \<Rightarrow> ('d, 'z) blk_scheme res" where
  "unlock_registry st =
     rbind (spinlock_release (io_cpu st, registry_lock st)) (\<lambda>(c, l). Inr (st\<lparr>io_cpu := c, registry_lock := l\<rparr>))"

definition upd_dev :: "addr \<Rightarrow> ('d block_device \<Rightarrow> 'd block_device) \<Rightarrow> ('d, 'z) blk_scheme \<Rightarrow> ('d, 'z) blk_scheme" where
  "upd_dev d f st = st\<lparr>dev_at := (dev_at st)(d := f (dev_at st d))\<rparr>"

definition lock_dev :: "addr \<Rightarrow> ('d, 'z) blk_scheme \<Rightarrow> ('d, 'z) blk_scheme res" where
  "lock_dev d st =
     rbind (spinlock_acquire (io_cpu st, dev_lock (dev_at st d)))
       (\<lambda>(c, l). Inr (upd_dev d (\<lambda>x. x\<lparr>dev_lock := l\<rparr>) (st\<lparr>io_cpu := c\<rparr>)))"

definition unlock_dev :: "addr \<Rightarrow> ('d, 'z) blk_scheme \<Rightarrow> ('d, 'z) blk_scheme res" where
  "unlock_dev d st =
     rbind (spinlock_release (io_cpu st, dev_lock (dev_at st d)))
       (\<lambda>(c, l). Inr (upd_dev d (\<lambda>x. x\<lparr>dev_lock := l\<rparr>) (st\<lparr>io_cpu := c\<rparr>)))"

definition blk_register :: "addr \<Rightarrow> ('d, 'z) blk_scheme \<Rightarrow> (int \<times> ('d, 'z) blk_scheme) res" where
  "blk_register dev st =
     rbind (lock_registry st) (\<lambda>st.
       if BLK_MAX_DEVICES \<le> length (devices st) then rbind (unlock_registry st) (\<lambda>st. Inr (- 1, st))
       else if \<exists>d\<in>set (devices st). devno (dev_at st d) = devno (dev_at st dev)
       then rbind (unlock_registry st) (\<lambda>st. Inr (- 1, st))
       else
         let st = st\<lparr>devices := devices st @ [dev]\<rparr>
         in rbind (unlock_registry st) (\<lambda>st. Inr (0, st)))"

definition blk_lookup :: "int \<Rightarrow> ('d, 'z) blk_scheme \<Rightarrow> (addr \<times> ('d, 'z) blk_scheme) res" where
  "blk_lookup no st =
     rbind (lock_registry st) (\<lambda>st.
     rbind (unlock_registry st) (\<lambda>st'.
       Inr (case find (\<lambda>d. devno (dev_at st d) = no) (devices st) of Some d \<Rightarrow> d | None \<Rightarrow> NULL, st')))"

definition blk_get :: "int \<Rightarrow> ('d, 'z) blk_scheme \<Rightarrow> (addr \<times> ('d, 'z) blk_scheme) res" where
  "blk_get no st = blk_lookup no st"

definition blk_read ::
  "int \<Rightarrow> u64 \<Rightarrow> u8 list \<Rightarrow> u32 \<Rightarrow> ('d, 'z) blk_scheme \<Rightarrow> (int \<times> u8 list \<times> ('d, 'z) blk_scheme) res" where
  "blk_read no sector buf n st =
     rbind (blk_lookup no st) (\<lambda>(d, st).
       if d = NULL then Inr (- 1, buf, st)
       else case op_read (dev_at st d) of
          None \<Rightarrow> Inr (- 1, buf, st)
        | Some f \<Rightarrow>
            rbind (lock_dev d st) (\<lambda>st.
              let (ret, buf, h) = f sector buf n (hw st)
              in rbind (unlock_dev d (st\<lparr>hw := h\<rparr>)) (\<lambda>st. Inr (ret, buf, st))))"

definition blk_write ::
  "int \<Rightarrow> u64 \<Rightarrow> u8 list \<Rightarrow> u32 \<Rightarrow> ('d, 'z) blk_scheme \<Rightarrow> (int \<times> ('d, 'z) blk_scheme) res" where
  "blk_write no sector buf n st =
     rbind (blk_lookup no st) (\<lambda>(d, st).
       if d = NULL then Inr (- 1, st)
       else case op_write (dev_at st d) of
          None \<Rightarrow> Inr (- 1, st)
        | Some f \<Rightarrow>
            rbind (lock_dev d st) (\<lambda>st.
              let (ret, h) = f sector buf n (hw st)
              in rbind (unlock_dev d (st\<lparr>hw := h\<rparr>)) (\<lambda>st. Inr (ret, st))))"

definition blk_flush :: "int \<Rightarrow> ('d, 'z) blk_scheme \<Rightarrow> (int \<times> ('d, 'z) blk_scheme) res" where
  "blk_flush no st =
     rbind (blk_lookup no st) (\<lambda>(d, st).
       if d = NULL then Inr (- 1, st)
       else case op_flush (dev_at st d) of
          None \<Rightarrow> Inr (0, st)
        | Some f \<Rightarrow>
            rbind (lock_dev d st) (\<lambda>st.
              let (ret, h) = f (hw st)
              in rbind (unlock_dev d (st\<lparr>hw := h\<rparr>)) (\<lambda>st. Inr (ret, st))))"

definition blk_capacity :: "int \<Rightarrow> ('d, 'z) blk_scheme \<Rightarrow> (u64 \<times> ('d, 'z) blk_scheme) res" where
  "blk_capacity no st =
     rbind (blk_lookup no st) (\<lambda>(d, st).
       Inr (if d = NULL then 0 else case op_capacity (dev_at st d) of None \<Rightarrow> 0 | Some f \<Rightarrow> f (hw st), st))"

definition blk_block_size :: "int \<Rightarrow> ('d, 'z) blk_scheme \<Rightarrow> (u32 \<times> ('d, 'z) blk_scheme) res" where
  "blk_block_size no st =
     rbind (blk_lookup no st) (\<lambda>(d, st).
       Inr (if d = NULL then BLOCK_BYTES
            else case op_block_size (dev_at st d) of None \<Rightarrow> BLOCK_BYTES | Some f \<Rightarrow> f (hw st), st))"

section \<open>Locks are balanced\<close>

text \<open>
  The registry lock and the locks of the devices are free, and the hart counts its nesting properly. An
  operation returns with this state; of the rest it changes only the hardware.
\<close>

definition quiet :: "('d, 'z) blk_scheme \<Rightarrow> bool" where
  "quiet st \<longleftrightarrow> 0 \<le> intr_depth (io_cpu st) \<and> lock_free (registry_lock st) \<and> (\<forall>d. lock_free (dev_lock (dev_at st d)))"

definition found :: "int \<Rightarrow> ('d, 'z) blk_scheme \<Rightarrow> addr" where
  "found no st = (case find (\<lambda>d. devno (dev_at st d) = no) (devices st) of Some d \<Rightarrow> d | None \<Rightarrow> NULL)"

definition same_hart :: "hart \<Rightarrow> hart \<Rightarrow> bool" where
  "same_hart c d \<longleftrightarrow> tp d = tp c \<and> intr_depth d = intr_depth c"

definition nolock :: "'d block_device \<Rightarrow> 'd block_device" where
  "nolock d = d\<lparr>dev_lock := SPINLOCK_INITIALIZER []\<rparr>"

lemma nolock_upd [simp]: "nolock (d\<lparr>dev_lock := l\<rparr>) = nolock d"
  by (simp add: nolock_def)

lemma nolock_eqD: "nolock d = nolock e \<Longrightarrow> devno d = devno e \<and> op_read d = op_read e \<and> op_write d = op_write e"
  by (cases d; cases e) (simp add: nolock_def)

definition same_but_hw :: "('d, 'z) blk_scheme \<Rightarrow> ('d, 'z) blk_scheme \<Rightarrow> bool" where
  "same_but_hw st st' \<longleftrightarrow> devices st' = devices st \<and> same_hart (io_cpu st) (io_cpu st') \<and>
     (\<forall>d. nolock (dev_at st' d) = nolock (dev_at st d)) \<and> blk.more st' = blk.more st"

lemma acquire_ok:
  assumes "lock_free lk" and "0 \<le> intr_depth c"
  obtains c' where "spinlock_acquire (c, lk) = Inr (c', hold c lk)" "tp c' = tp c" "intr_depth c' = intr_depth c + 1"
  using that [of "intr_off c"] acquire_free [OF assms(1)] by (simp add: intr_off_def Let_def)

lemma release_ok:
  assumes "spinlock_holding c lk" and "0 < intr_depth c"
  obtains c' where "spinlock_release (c, lk) = Inr (c', unhold lk)" "tp c' = tp c" "intr_depth c' = intr_depth c - 1"
proof -
  obtain c' where "intr_on c = Inr c'" "tp c' = tp c" "intr_depth c' = intr_depth c - 1"
    using assms(2) by (cases "intr_depth c = 1") (auto simp: intr_on_def Let_def)
  then show ?thesis using that [of c'] assms(1)
    by (simp add: spinlock_release_def spinlock_holding_def unhold_def)
qed

lemma same_hart_refl [simp]: "same_hart c c"
  by (simp add: same_hart_def)

lemma holding_tp: "tp c = tp d \<Longrightarrow> spinlock_holding c (hold d lk)"
  by (simp add: spinlock_holding_def hold_def)

lemma blk_lookup_ok:
  assumes "quiet st"
  obtains st' where "blk_lookup no st = Inr (found no st, st')" "quiet st'" "same_but_hw st st'" "hw st' = hw st"
    "\<And>n. found n st' = found n st" "dev_at st' = dev_at st"
proof -
  have q: "lock_free (registry_lock st)" "0 \<le> intr_depth (io_cpu st)" using assms by (auto simp: quiet_def)
  obtain c where c: "spinlock_acquire (io_cpu st, registry_lock st) = Inr (c, hold (io_cpu st) (registry_lock st))"
    "tp c = tp (io_cpu st)" "intr_depth c = intr_depth (io_cpu st) + 1" by (rule acquire_ok [OF q])
  have "0 < intr_depth c" using c(3) q(2) by simp
  then obtain c' where c': "spinlock_release (c, hold (io_cpu st) (registry_lock st)) = Inr (c', unhold (hold (io_cpu st) (registry_lock st)))"
    "tp c' = tp c" "intr_depth c' = intr_depth c - 1" using release_ok [OF holding_tp [OF c(2)]] by metis
  show ?thesis
    by (rule that [of "st\<lparr>io_cpu := c', registry_lock := unhold (registry_lock st)\<rparr>"])
       (use assms c c' in \<open>simp_all add: blk_lookup_def lock_registry_def unlock_registry_def found_def quiet_def
          same_but_hw_def same_hart_def\<close>)
qed

text \<open>A critical section of a device around an action on the hardware.\<close>

lemma dev_section:
  assumes "quiet st"
  obtains st1 st' where "lock_dev d st = Inr st1" "hw st1 = hw st" "unlock_dev d (st1\<lparr>hw := h\<rparr>) = Inr st'"
    "quiet st'" "same_but_hw st st'" "hw st' = h"
proof -
  let ?l = "dev_lock (dev_at st d)"
  have q: "lock_free ?l" "0 \<le> intr_depth (io_cpu st)" using assms by (auto simp: quiet_def)
  obtain c where c: "spinlock_acquire (io_cpu st, ?l) = Inr (c, hold (io_cpu st) ?l)"
    "tp c = tp (io_cpu st)" "intr_depth c = intr_depth (io_cpu st) + 1" by (rule acquire_ok [OF q])
  have "0 < intr_depth c" using c(3) q(2) by simp
  then obtain c' where c': "spinlock_release (c, hold (io_cpu st) ?l) = Inr (c', unhold (hold (io_cpu st) ?l))"
    "tp c' = tp c" "intr_depth c' = intr_depth c - 1" using release_ok [OF holding_tp [OF c(2)]] by metis
  let ?s1 = "upd_dev d (\<lambda>x. x\<lparr>dev_lock := hold (io_cpu st) ?l\<rparr>) (st\<lparr>io_cpu := c\<rparr>)"
  let ?s2 = "upd_dev d (\<lambda>x. x\<lparr>dev_lock := unhold ?l\<rparr>) (?s1\<lparr>hw := h, io_cpu := c'\<rparr>)"
  show ?thesis
    by (rule that [of ?s1 ?s2])
       (use assms c c' in \<open>simp_all add: lock_dev_def unlock_dev_def upd_dev_def quiet_def same_but_hw_def same_hart_def\<close>)
qed

lemma same_but_hw_trans: "same_but_hw a b \<Longrightarrow> same_but_hw b c \<Longrightarrow> same_but_hw a c"
  by (simp add: same_but_hw_def same_hart_def)

lemma blk_read_ok:
  assumes "quiet st"
  obtains ret buf' st' where "blk_read no sector buf n st = Inr (ret, buf', st')" "quiet st'" "same_but_hw st st'"
    "if found no st = NULL \<or> op_read (dev_at st (found no st)) = None then ret = - 1 \<and> buf' = buf \<and> hw st' = hw st
     else the (op_read (dev_at st (found no st))) sector buf n (hw st) = (ret, buf', hw st')"
proof -
  obtain s1 where s1: "blk_lookup no st = Inr (found no st, s1)" "quiet s1" "same_but_hw st s1" "hw s1 = hw st"
    "dev_at s1 = dev_at st" using blk_lookup_ok [OF assms] by metis
  show ?thesis
  proof (cases "found no st = NULL \<or> op_read (dev_at st (found no st)) = None")
    case True
    then show ?thesis using that [of "- 1" buf s1] s1 by (auto simp: blk_read_def)
  next
    case False
    then obtain f where f: "op_read (dev_at st (found no st)) = Some f" by blast
    obtain r b h where r: "f sector buf n (hw st) = (r, b, h)" by (metis prod_cases3)
    obtain s2 s3 where s: "lock_dev (found no st) s1 = Inr s2" "hw s2 = hw s1" "unlock_dev (found no st) (s2\<lparr>hw := h\<rparr>) = Inr s3"
      "quiet s3" "same_but_hw s1 s3" "hw s3 = h" by (rule dev_section [OF s1(2)])
    show ?thesis
      by (rule that [of r b s3]) (use False f r s1 s same_but_hw_trans [OF s1(3) s(5)] in \<open>auto simp: blk_read_def\<close>)
  qed
qed

lemma blk_write_ok:
  assumes "quiet st"
  obtains ret st' where "blk_write no sector buf n st = Inr (ret, st')" "quiet st'" "same_but_hw st st'"
    "if found no st = NULL \<or> op_write (dev_at st (found no st)) = None then ret = - 1 \<and> hw st' = hw st
     else the (op_write (dev_at st (found no st))) sector buf n (hw st) = (ret, hw st')"
proof -
  obtain s1 where s1: "blk_lookup no st = Inr (found no st, s1)" "quiet s1" "same_but_hw st s1" "hw s1 = hw st"
    "dev_at s1 = dev_at st" using blk_lookup_ok [OF assms] by metis
  show ?thesis
  proof (cases "found no st = NULL \<or> op_write (dev_at st (found no st)) = None")
    case True
    then show ?thesis using that [of "- 1" s1] s1 by (auto simp: blk_write_def)
  next
    case False
    then obtain f where f: "op_write (dev_at st (found no st)) = Some f" by blast
    obtain r h where r: "f sector buf n (hw st) = (r, h)" by fastforce
    obtain s2 s3 where s: "lock_dev (found no st) s1 = Inr s2" "hw s2 = hw s1" "unlock_dev (found no st) (s2\<lparr>hw := h\<rparr>) = Inr s3"
      "quiet s3" "same_but_hw s1 s3" "hw s3 = h" by (rule dev_section [OF s1(2)])
    show ?thesis
      by (rule that [of r s3]) (use False f r s1 s same_but_hw_trans [OF s1(3) s(5)] in \<open>auto simp: blk_write_def\<close>)
  qed
qed

lemma found_same: "same_but_hw st st' \<Longrightarrow> found no st' = found no st"
proof -
  assume s: "same_but_hw st st'"
  have "devno (dev_at st' d) = devno (dev_at st d)" for d
    using s nolock_eqD unfolding same_but_hw_def by blast
  then show ?thesis using s by (simp add: found_def same_but_hw_def)
qed

end
