(* ===== verification/Bcache.thy ===== *)
theory Bcache
  imports Blk
begin

text \<open>
  The block cache, \<^verbatim>\<open>src/mm/bcache.c\<close>, on top of the block layer. Buffers are numbered; the hash chains
  and the LRU list are sequences of buffer numbers, head first. \<^verbatim>\<open>list_del\<close> of a hash node that
  \<^verbatim>\<open>bcache_init\<close> linked to itself changes nothing, so removal from the chains cannot fail.
\<close>

section \<open>Operations\<close>

record buf =
  b_data :: "u8 list"
  b_blockno :: u64
  b_dev :: int
  b_refcnt :: u32
  b_dirty :: bool
  b_valid :: bool
  b_lock :: spinlock

record 'd bcache = "'d blk" +
  bufs :: "nat \<Rightarrow> buf"
  hash_table :: "nat \<Rightarrow> nat list"
  lru_list :: "nat list"
  bc_lock :: spinlock

definition BCACHE_SIZE :: nat where "BCACHE_SIZE = 128"
definition BCACHE_HASH_SIZE :: nat where "BCACHE_HASH_SIZE = 17"

definition bcache_hash :: "int \<Rightarrow> u64 \<Rightarrow> nat" where
  "bcache_hash dev blockno = unat (word_of_int dev + blockno) mod BCACHE_HASH_SIZE"

definition upd_buf :: "nat \<Rightarrow> (buf \<Rightarrow> buf) \<Rightarrow> 'd bcache \<Rightarrow> 'd bcache" where
  "upd_buf i f st = st\<lparr>bufs := (bufs st)(i := f (bufs st i))\<rparr>"

definition bc_acquire :: "'d bcache \<Rightarrow> 'd bcache res" where
  "bc_acquire st =
     rbind (spinlock_acquire (io_cpu st, bc_lock st)) (\<lambda>(c, l). Inr (st\<lparr>io_cpu := c, bc_lock := l\<rparr>))"

definition bc_release :: "'d bcache \<Rightarrow> 'd bcache res" where
  "bc_release st =
     rbind (spinlock_release (io_cpu st, bc_lock st)) (\<lambda>(c, l). Inr (st\<lparr>io_cpu := c, bc_lock := l\<rparr>))"

definition buf_acquire :: "nat \<Rightarrow> 'd bcache \<Rightarrow> 'd bcache res" where
  "buf_acquire i st =
     rbind (spinlock_acquire (io_cpu st, b_lock (bufs st i)))
       (\<lambda>(c, l). Inr (upd_buf i (\<lambda>b. b\<lparr>b_lock := l\<rparr>) (st\<lparr>io_cpu := c\<rparr>)))"

definition buf_release :: "nat \<Rightarrow> 'd bcache \<Rightarrow> 'd bcache res" where
  "buf_release i st =
     rbind (spinlock_release (io_cpu st, b_lock (bufs st i)))
       (\<lambda>(c, l). Inr (upd_buf i (\<lambda>b. b\<lparr>b_lock := l\<rparr>) (st\<lparr>io_cpu := c\<rparr>)))"

definition bcache_init :: "'d bcache \<Rightarrow> 'd bcache res" where
  "bcache_init st =
     rbind (bc_acquire st) (\<lambda>st.
       let st = st\<lparr>bufs := (\<lambda>i. if i < BCACHE_SIZE
                 then \<lparr>b_data = b_data (bufs st i), b_blockno = 0, b_dev = 0, b_refcnt = 0, b_dirty = False,
                       b_valid = False, b_lock = SPINLOCK_INITIALIZER ''bcache_buf''\<rparr>
                 else bufs st i),
               hash_table := (\<lambda>_. []), lru_list := rev [0..<BCACHE_SIZE]\<rparr>
       in bc_release st)"

definition bcache_lookup :: "int \<Rightarrow> u64 \<Rightarrow> 'd bcache \<Rightarrow> nat option" where
  "bcache_lookup dev blockno st =
     find (\<lambda>i. b_dev (bufs st i) = dev \<and> b_blockno (bufs st i) = blockno) (hash_table st (bcache_hash dev blockno))"

definition hash_unlink :: "nat \<Rightarrow> 'd bcache \<Rightarrow> 'd bcache" where
  "hash_unlink i st = st\<lparr>hash_table := (\<lambda>k. remove1 i (hash_table st k))\<rparr>"

text \<open>\<^verbatim>\<open>list_del\<close> from the LRU list followed by \<^verbatim>\<open>list_add\<close> at its head.\<close>

definition lru_to_front :: "nat \<Rightarrow> 'd bcache \<Rightarrow> 'd bcache" where
  "lru_to_front i st = st\<lparr>lru_list := i # remove1 i (lru_list st)\<rparr>"

text \<open>The loop of \<^verbatim>\<open>bcache_evict\<close>, \<^verbatim>\<open>list_for_each_entry_reverse\<close>: the first buffer without references from the tail.\<close>

definition victim :: "'d bcache \<Rightarrow> nat option" where
  "victim st = find (\<lambda>i. b_refcnt (bufs st i) = 0) (rev (lru_list st))"

definition bcache_evict :: "'d bcache \<Rightarrow> (nat option \<times> 'd bcache) res" where
  "bcache_evict st =
     (case victim st of
        None \<Rightarrow> Inr (None, st)
      | Some i \<Rightarrow>
          rbind (if b_dirty (bufs st i)
                 then rbind (blk_write (b_dev (bufs st i)) (b_blockno (bufs st i)) (b_data (bufs st i)) 1 st)
                        (\<lambda>(_, st). Inr (upd_buf i (\<lambda>b. b\<lparr>b_dirty := False\<rparr>) st))
                 else Inr st)
            (\<lambda>st. Inr (Some i, upd_buf i (\<lambda>b. b\<lparr>b_valid := False\<rparr>) (hash_unlink i st))))"

definition bcache_get :: "int \<Rightarrow> u64 \<Rightarrow> 'd bcache \<Rightarrow> (nat \<times> 'd bcache) res" where
  "bcache_get dev blockno st =
     rbind (bc_acquire st) (\<lambda>st.
       case bcache_lookup dev blockno st of
         Some i \<Rightarrow>
           let st = lru_to_front i (upd_buf i (\<lambda>b. b\<lparr>b_refcnt := b_refcnt b + 1\<rparr>) st)
           in rbind (bc_release st) (\<lambda>st. rbind (buf_acquire i st) (\<lambda>st. Inr (i, st)))
       | None \<Rightarrow>
           rbind (bcache_evict st) (\<lambda>(b, st).
             case b of
               None \<Rightarrow> Inl (Panic ''bcache: no free buffers'')
             | Some i \<Rightarrow>
                 let st = upd_buf i (\<lambda>b. b\<lparr>b_dev := dev, b_blockno := blockno, b_refcnt := 1,
                                          b_valid := False, b_dirty := False\<rparr>) st;
                     k = bcache_hash dev blockno;
                     st = st\<lparr>hash_table := (hash_table st)(k := i # hash_table st k)\<rparr>;
                     st = lru_to_front i st
                 in rbind (bc_release st) (\<lambda>st. rbind (buf_acquire i st) (\<lambda>st. Inr (i, st)))))"

definition bread :: "int \<Rightarrow> u64 \<Rightarrow> 'd bcache \<Rightarrow> (nat \<times> 'd bcache) res" where
  "bread dev blockno st =
     rbind (bcache_get dev blockno st) (\<lambda>(i, st).
       if \<not> b_valid (bufs st i) then
         rbind (blk_read dev blockno (b_data (bufs st i)) 1 st) (\<lambda>(_, d, st).
           Inr (i, upd_buf i (\<lambda>b. b\<lparr>b_data := d, b_valid := True\<rparr>) st))
       else Inr (i, st))"

definition bwrite :: "nat \<Rightarrow> 'd bcache \<Rightarrow> 'd bcache res" where
  "bwrite i st =
     (if \<not> b_valid (bufs st i) then Inr st
      else
        let st = upd_buf i (\<lambda>b. b\<lparr>b_dirty := True\<rparr>) st
        in rbind (blk_write (b_dev (bufs st i)) (b_blockno (bufs st i)) (b_data (bufs st i)) 1 st)
             (\<lambda>(_, st). Inr (upd_buf i (\<lambda>b. b\<lparr>b_dirty := False\<rparr>) st)))"

definition brelse :: "nat \<Rightarrow> 'd bcache \<Rightarrow> 'd bcache res" where
  "brelse i st =
     rbind (buf_release i st) (\<lambda>st.
     rbind (bc_acquire st) (\<lambda>st.
       let st = upd_buf i (\<lambda>b. b\<lparr>b_refcnt := b_refcnt b - 1\<rparr>) st;
           st = (if b_refcnt (bufs st i) = 0 then st\<lparr>lru_list := remove1 i (lru_list st) @ [i]\<rparr> else st)
       in bc_release st))"

text \<open>The loop of \<^verbatim>\<open>bcache_flush\<close> and \<^verbatim>\<open>bcache_sync\<close> over the LRU list; \<open>P\<close> tells which devices are written.\<close>

fun flush_loop :: "(int \<Rightarrow> bool) \<Rightarrow> nat list \<Rightarrow> 'd bcache \<Rightarrow> 'd bcache res" where
  "flush_loop P [] st = Inr st"
| "flush_loop P (i # is) st =
     (if P (b_dev (bufs st i)) \<and> b_dirty (bufs st i) then
        rbind (buf_acquire i st) (\<lambda>st.
        rbind (blk_write (b_dev (bufs st i)) (b_blockno (bufs st i)) (b_data (bufs st i)) 1 st) (\<lambda>(_, st).
        rbind (buf_release i (upd_buf i (\<lambda>b. b\<lparr>b_dirty := False\<rparr>) st)) (flush_loop P is)))
      else flush_loop P is st)"

definition bcache_flush :: "int \<Rightarrow> 'd bcache \<Rightarrow> 'd bcache res" where
  "bcache_flush dev st =
     rbind (bc_acquire st) (\<lambda>st. rbind (flush_loop (\<lambda>d. d = dev) (lru_list st) st) bc_release)"

definition bcache_sync :: "'d bcache \<Rightarrow> 'd bcache res" where
  "bcache_sync st =
     rbind (bc_acquire st) (\<lambda>st. rbind (flush_loop (\<lambda>_. True) (lru_list st) st) bc_release)"

section \<open>Invariant\<close>

text \<open>
  Every buffer is on the LRU list once and on at most one hash chain, the one of its block; no block has
  two buffers; buffers in use and valid buffers are hashed; between calls no buffer is dirty.
\<close>

definition hashed :: "'d bcache \<Rightarrow> nat \<Rightarrow> bool" where
  "hashed st i \<longleftrightarrow> (\<exists>k. i \<in> set (hash_table st k))"

definition buf_key :: "buf \<Rightarrow> int \<times> u64" where
  "buf_key b = (b_dev b, b_blockno b)"

definition bc_inv :: "'d bcache \<Rightarrow> bool" where
  "bc_inv st \<longleftrightarrow> distinct (lru_list st) \<and> set (lru_list st) = {..<BCACHE_SIZE} \<and>
     (\<forall>k. distinct (hash_table st k) \<and> (\<forall>i\<in>set (hash_table st k). i < BCACHE_SIZE \<and>
        k = bcache_hash (b_dev (bufs st i)) (b_blockno (bufs st i)))) \<and>
     (\<forall>i j. hashed st i \<longrightarrow> hashed st j \<longrightarrow> buf_key (bufs st i) = buf_key (bufs st j) \<longrightarrow> i = j) \<and>
     (\<forall>i<BCACHE_SIZE. b_refcnt (bufs st i) \<noteq> 0 \<or> b_valid (bufs st i) \<longrightarrow> hashed st i) \<and>
     (\<forall>i. \<not> b_dirty (bufs st i))"

text \<open>The cache's lock is free and the block layer is quiet.\<close>

definition bc_calm :: "'d bcache \<Rightarrow> bool" where
  "bc_calm st \<longleftrightarrow> quiet st \<and> lock_free (bc_lock st)"

lemma find_SomeD: "find P xs = Some x \<Longrightarrow> x \<in> set xs \<and> P x"
  by (auto simp: find_Some_iff)

lemma bc_inv_chain:
  "bc_inv st \<Longrightarrow> i \<in> set (hash_table st k) \<Longrightarrow> i < BCACHE_SIZE \<and> k = bcache_hash (b_dev (bufs st i)) (b_blockno (bufs st i))"
  unfolding bc_inv_def by blast

lemma hashed_key:
  assumes "bc_inv st" and "hashed st i"
  shows "i \<in> set (hash_table st (bcache_hash (b_dev (bufs st i)) (b_blockno (bufs st i))))" and "i < BCACHE_SIZE"
  using assms bc_inv_chain [OF assms(1)] by (auto simp: hashed_def)

lemma lookup_Some:
  assumes "bc_inv st" and "bcache_lookup dev n st = Some i"
  shows "hashed st i" "buf_key (bufs st i) = (dev, n)" "i < BCACHE_SIZE"
proof -
  have "i \<in> set (hash_table st (bcache_hash dev n))" "buf_key (bufs st i) = (dev, n)"
    using find_SomeD [OF assms(2) [unfolded bcache_lookup_def]] by (auto simp: buf_key_def)
  then show "hashed st i" "buf_key (bufs st i) = (dev, n)" "i < BCACHE_SIZE"
    using bc_inv_chain [OF assms(1)] by (auto simp: hashed_def)
qed

lemma lookup_None:
  assumes "bc_inv st" and "bcache_lookup dev n st = None" and "hashed st i"
  shows "buf_key (bufs st i) \<noteq> (dev, n)"
  using assms(2) hashed_key [OF assms(1,3)] by (auto simp: bcache_lookup_def find_None_iff buf_key_def)

lemma lookup_hashed:
  assumes "bc_inv st" and "hashed st i" and "buf_key (bufs st i) = (dev, n)"
  shows "bcache_lookup dev n st = Some i"
proof (cases "bcache_lookup dev n st")
  case None
  then show ?thesis using lookup_None [OF assms(1) None assms(2)] assms(3) by simp
next
  case (Some j)
  then have "j = i" using lookup_Some [OF assms(1) Some] assms unfolding bc_inv_def by metis
  then show ?thesis using Some by simp
qed

section \<open>The bookkeeping of a hit, a miss and a release\<close>

definition get_hit :: "nat \<Rightarrow> 'd bcache \<Rightarrow> 'd bcache" where
  "get_hit i st = lru_to_front i (upd_buf i (\<lambda>b. b\<lparr>b_refcnt := b_refcnt b + 1\<rparr>) st)"

definition claim :: "int \<Rightarrow> u64 \<Rightarrow> buf \<Rightarrow> buf" where
  "claim dev n b = b\<lparr>b_dev := dev, b_blockno := n, b_refcnt := 1, b_valid := False, b_dirty := False\<rparr>"

definition get_miss :: "int \<Rightarrow> u64 \<Rightarrow> nat \<Rightarrow> 'd bcache \<Rightarrow> 'd bcache" where
  "get_miss dev n i st =
     (let k = bcache_hash dev n; h = (\<lambda>j. remove1 i (hash_table st j))
      in st\<lparr>bufs := (bufs st)(i := claim dev n (bufs st i)), hash_table := h(k := i # h k),
            lru_list := i # remove1 i (lru_list st)\<rparr>)"

definition put_ref :: "nat \<Rightarrow> 'd bcache \<Rightarrow> 'd bcache" where
  "put_ref i st =
     (let st = upd_buf i (\<lambda>b. b\<lparr>b_refcnt := b_refcnt b - 1\<rparr>) st
      in if b_refcnt (bufs st i) = 0 then st\<lparr>lru_list := remove1 i (lru_list st) @ [i]\<rparr> else st)"

lemma bc_invI:
  assumes "distinct (lru_list st)" "set (lru_list st) = {..<BCACHE_SIZE}"
    and "\<And>k. distinct (hash_table st k)"
    and "\<And>k i. i \<in> set (hash_table st k) \<Longrightarrow> i < BCACHE_SIZE \<and> k = bcache_hash (b_dev (bufs st i)) (b_blockno (bufs st i))"
    and "\<And>i j. hashed st i \<Longrightarrow> hashed st j \<Longrightarrow> buf_key (bufs st i) = buf_key (bufs st j) \<Longrightarrow> i = j"
    and "\<And>i. i < BCACHE_SIZE \<Longrightarrow> b_refcnt (bufs st i) \<noteq> 0 \<or> b_valid (bufs st i) \<Longrightarrow> hashed st i"
    and "\<And>i. \<not> b_dirty (bufs st i)"
  shows "bc_inv st"
  using assms unfolding bc_inv_def by blast

lemma bc_invD:
  assumes "bc_inv st"
  shows "distinct (lru_list st)" "set (lru_list st) = {..<BCACHE_SIZE}" "distinct (hash_table st k)"
    "hashed st i \<Longrightarrow> hashed st j \<Longrightarrow> buf_key (bufs st i) = buf_key (bufs st j) \<Longrightarrow> i = j"
    "i < BCACHE_SIZE \<Longrightarrow> b_refcnt (bufs st i) \<noteq> 0 \<or> b_valid (bufs st i) \<Longrightarrow> hashed st i"
    "\<not> b_dirty (bufs st i)"
  using assms unfolding bc_inv_def by blast+

text \<open>Steps that keep the keys, the chains and the flags of all buffers, up to the given changes.\<close>

lemma bc_inv_step:
  assumes inv: "bc_inv st" and h: "hash_table st' = hash_table st"
    and key: "\<And>i. buf_key (bufs st' i) = buf_key (bufs st i)"
    and use: "\<And>i. i < BCACHE_SIZE \<Longrightarrow> b_refcnt (bufs st' i) \<noteq> 0 \<or> b_valid (bufs st' i) \<Longrightarrow> hashed st i"
    and dirty: "\<And>i. \<not> b_dirty (bufs st' i)"
    and lru: "distinct (lru_list st')" "set (lru_list st') = set (lru_list st)"
  shows "bc_inv st'"
proof -
  have hh: "hashed st' = hashed st" by (rule ext) (simp add: hashed_def h)
  have k: "b_dev (bufs st' i) = b_dev (bufs st i)" "b_blockno (bufs st' i) = b_blockno (bufs st i)" for i
    using key [of i] by (simp_all add: buf_key_def)
  show ?thesis
    by (rule bc_invI) (use bc_invD [OF inv] bc_inv_chain [OF inv] h k hh use dirty lru key in \<open>simp_all\<close>)
qed

lemma get_hit_inv:
  assumes "bc_inv st" and "hashed st i"
  shows "bc_inv (get_hit i st)"
  by (rule bc_inv_step [OF assms(1)])
     (use bc_invD [OF assms(1)] hashed_key(2) [OF assms] assms(2) in
       \<open>auto simp: get_hit_def upd_buf_def lru_to_front_def buf_key_def split: if_splits\<close>)

lemma put_ref_inv:
  assumes "bc_inv st" and "i < BCACHE_SIZE" and "b_refcnt (bufs st i) \<noteq> 0"
  shows "bc_inv (put_ref i st)"
  by (rule bc_inv_step [OF assms(1)])
     (use bc_invD [OF assms(1)] assms(2,3) in
       \<open>auto simp: put_ref_def upd_buf_def buf_key_def Let_def split: if_splits\<close>)

lemma get_miss_inv:
  assumes inv: "bc_inv st" and i: "i < BCACHE_SIZE" and none: "bcache_lookup dev n st = None"
  shows "bc_inv (get_miss dev n i st)"
proof -
  let ?s = "get_miss dev n i st"
  have chain: "j \<in> set (hash_table ?s k) \<longleftrightarrow> (if j = i then k = bcache_hash dev n else j \<in> set (hash_table st k))" for j k
    using bc_invD(3) [OF inv, of k] by (auto simp: get_miss_def Let_def)
  have hs: "hashed ?s j \<longleftrightarrow> j = i \<or> hashed st j" for j
    using chain by (auto simp: hashed_def)
  have b: "bufs ?s j = (if j = i then claim dev n (bufs st i) else bufs st j)" for j
    by (simp add: get_miss_def Let_def)
  show ?thesis
  proof (rule bc_invI)
    show "distinct (lru_list ?s)" "set (lru_list ?s) = {..<BCACHE_SIZE}"
      using bc_invD(1,2) [OF inv] i by (auto simp: get_miss_def Let_def)
    show "distinct (hash_table ?s k)" for k
      using bc_invD(3) [OF inv, of k] by (auto simp: get_miss_def Let_def)
    show "j < BCACHE_SIZE \<and> k = bcache_hash (b_dev (bufs ?s j)) (b_blockno (bufs ?s j))" if "j \<in> set (hash_table ?s k)" for k j
      using that chain [of j k] bc_inv_chain [OF inv, of j k] i by (auto simp: b claim_def split: if_splits)
    show "j = l" if "hashed ?s j" "hashed ?s l" "buf_key (bufs ?s j) = buf_key (bufs ?s l)" for j l
      using that hs lookup_None [OF inv none] bc_invD(4) [OF inv, of j l]
      by (auto simp: b claim_def buf_key_def split: if_splits)
    show "hashed ?s j" if "j < BCACHE_SIZE" "b_refcnt (bufs ?s j) \<noteq> 0 \<or> b_valid (bufs ?s j)" for j
      using that hs bc_invD(5) [OF inv, of j] by (auto simp: b split: if_splits)
    show "\<not> b_dirty (bufs ?s j)" for j
      using bc_invD(6) [OF inv, of j] by (simp add: b claim_def)
  qed
qed

section \<open>Locks\<close>

definition nolockb :: "buf \<Rightarrow> buf" where
  "nolockb b = b\<lparr>b_lock := SPINLOCK_INITIALIZER []\<rparr>"

lemma nolockb_upd [simp]: "nolockb (b\<lparr>b_lock := l\<rparr>) = nolockb b"
  by (simp add: nolockb_def)

lemma nolockb_eqD:
  "nolockb a = nolockb b \<Longrightarrow> b_data a = b_data b \<and> b_blockno a = b_blockno b \<and> b_dev a = b_dev b \<and>
     b_refcnt a = b_refcnt b \<and> b_dirty a = b_dirty b \<and> b_valid a = b_valid b"
  by (cases a; cases b) (simp add: nolockb_def)

text \<open>States that agree but for the hart and the locks of the cache and its buffers.\<close>

definition same_bc :: "'d bcache \<Rightarrow> 'd bcache \<Rightarrow> bool" where
  "same_bc st st' \<longleftrightarrow> devices st' = devices st \<and> dev_at st' = dev_at st \<and> registry_lock st' = registry_lock st \<and>
     hw st' = hw st \<and> hash_table st' = hash_table st \<and> lru_list st' = lru_list st \<and>
     (\<forall>i. nolockb (bufs st' i) = nolockb (bufs st i))"

lemma same_bcD:
  assumes "same_bc st st'"
  shows "b_data (bufs st' i) = b_data (bufs st i)" "b_blockno (bufs st' i) = b_blockno (bufs st i)"
    "b_dev (bufs st' i) = b_dev (bufs st i)" "b_refcnt (bufs st' i) = b_refcnt (bufs st i)"
    "b_dirty (bufs st' i) = b_dirty (bufs st i)" "b_valid (bufs st' i) = b_valid (bufs st i)"
    "hash_table st' = hash_table st" "lru_list st' = lru_list st" "hw st' = hw st"
    "devices st' = devices st" "dev_at st' = dev_at st"
  using assms nolockb_eqD unfolding same_bc_def by blast+

lemma same_bc_inv: "same_bc st st' \<Longrightarrow> bc_inv st \<Longrightarrow> bc_inv st'"
  by (rule bc_inv_step [of st])
     (use bc_invD [of st] same_bcD [of st st'] in \<open>simp_all add: buf_key_def\<close>)

lemma bc_acquire_ok:
  assumes "bc_calm st"
  obtains c where "bc_acquire st = Inr (st\<lparr>io_cpu := c, bc_lock := hold (io_cpu st) (bc_lock st)\<rparr>)"
    "tp c = tp (io_cpu st)" "intr_depth c = intr_depth (io_cpu st) + 1"
proof -
  have "lock_free (bc_lock st)" "0 \<le> intr_depth (io_cpu st)" using assms by (auto simp: bc_calm_def quiet_def)
  then obtain c where "spinlock_acquire (io_cpu st, bc_lock st) = Inr (c, hold (io_cpu st) (bc_lock st))"
    "tp c = tp (io_cpu st)" "intr_depth c = intr_depth (io_cpu st) + 1" by (rule acquire_ok)
  then show ?thesis using that [of c] by (simp add: bc_acquire_def)
qed

lemma bc_release_ok:
  assumes "spinlock_holding (io_cpu st) (bc_lock st)" and "0 < intr_depth (io_cpu st)"
  obtains c where "bc_release st = Inr (st\<lparr>io_cpu := c, bc_lock := unhold (bc_lock st)\<rparr>)"
    "tp c = tp (io_cpu st)" "intr_depth c = intr_depth (io_cpu st) - 1"
proof -
  obtain c where "spinlock_release (io_cpu st, bc_lock st) = Inr (c, unhold (bc_lock st))"
    "tp c = tp (io_cpu st)" "intr_depth c = intr_depth (io_cpu st) - 1" by (rule release_ok [OF assms])
  then show ?thesis using that [of c] by (simp add: bc_release_def)
qed

lemma buf_acquire_ok:
  assumes "lock_free (b_lock (bufs st i))" and "0 \<le> intr_depth (io_cpu st)"
  obtains c where "buf_acquire i st = Inr (upd_buf i (\<lambda>b. b\<lparr>b_lock := hold (io_cpu st) (b_lock b)\<rparr>) (st\<lparr>io_cpu := c\<rparr>))"
    "tp c = tp (io_cpu st)" "intr_depth c = intr_depth (io_cpu st) + 1"
proof -
  obtain c where "spinlock_acquire (io_cpu st, b_lock (bufs st i)) = Inr (c, hold (io_cpu st) (b_lock (bufs st i)))"
    "tp c = tp (io_cpu st)" "intr_depth c = intr_depth (io_cpu st) + 1" by (rule acquire_ok [OF assms])
  then show ?thesis using that [of c] by (simp add: buf_acquire_def upd_buf_def)
qed

lemma buf_release_ok:
  assumes "spinlock_holding (io_cpu st) (b_lock (bufs st i))" and "0 < intr_depth (io_cpu st)"
  obtains c where "buf_release i st = Inr (upd_buf i (\<lambda>b. b\<lparr>b_lock := unhold (b_lock b)\<rparr>) (st\<lparr>io_cpu := c\<rparr>))"
    "tp c = tp (io_cpu st)" "intr_depth c = intr_depth (io_cpu st) - 1"
proof -
  obtain c where "spinlock_release (io_cpu st, b_lock (bufs st i)) = Inr (c, unhold (b_lock (bufs st i)))"
    "tp c = tp (io_cpu st)" "intr_depth c = intr_depth (io_cpu st) - 1" by (rule release_ok [OF assms])
  then show ?thesis using that [of c] by (simp add: buf_release_def upd_buf_def)
qed

text \<open>The end of \<^verbatim>\<open>bcache_get\<close>: the cache's lock is dropped and the buffer's taken.\<close>

definition hands_over :: "nat \<Rightarrow> 'd bcache \<Rightarrow> 'd bcache \<Rightarrow> 'd bcache \<Rightarrow> bool" where
  "hands_over i st core st' \<longleftrightarrow> same_bc core st' \<and> bc_calm st' \<and>
     spinlock_holding (io_cpu st') (b_lock (bufs st' i)) \<and> (\<forall>j. j \<noteq> i \<longrightarrow> b_lock (bufs st' j) = b_lock (bufs st j)) \<and>
     tp (io_cpu st') = tp (io_cpu st) \<and> intr_depth (io_cpu st') = intr_depth (io_cpu st) + 1"

lemma get_tail:
  assumes calm: "bc_calm st" and free: "lock_free (b_lock (bufs st i))"
    and c: "tp c = tp (io_cpu st)" "intr_depth c = intr_depth (io_cpu st) + 1"
    and core: "\<And>j. b_lock (bufs core j) = b_lock (bufs st j)" "registry_lock core = registry_lock st" "dev_at core = dev_at st"
  obtains st' where "rbind (bc_release (core\<lparr>io_cpu := c, bc_lock := hold (io_cpu st) (bc_lock st)\<rparr>)) (buf_acquire i) = Inr st'"
    "hands_over i st core st'"
proof -
  let ?a = "core\<lparr>io_cpu := c, bc_lock := hold (io_cpu st) (bc_lock st)\<rparr>"
  have d: "0 \<le> intr_depth (io_cpu st)" using calm by (simp add: bc_calm_def quiet_def)
  have "spinlock_holding (io_cpu ?a) (bc_lock ?a)" using holding_tp [OF c(1)] by simp
  moreover have "0 < intr_depth (io_cpu ?a)" using c(2) d by simp
  ultimately obtain c1 where c1: "bc_release ?a = Inr (?a\<lparr>io_cpu := c1, bc_lock := unhold (bc_lock ?a)\<rparr>)"
    "tp c1 = tp (io_cpu ?a)" "intr_depth c1 = intr_depth (io_cpu ?a) - 1" by (rule bc_release_ok)
  let ?b = "?a\<lparr>io_cpu := c1, bc_lock := unhold (bc_lock ?a)\<rparr>"
  have "lock_free (b_lock (bufs ?b i))" "0 \<le> intr_depth (io_cpu ?b)" using free core(1) c1(3) c(2) d by simp_all
  then obtain c2 where c2: "buf_acquire i ?b = Inr (upd_buf i (\<lambda>b. b\<lparr>b_lock := hold (io_cpu ?b) (b_lock b)\<rparr>) (?b\<lparr>io_cpu := c2\<rparr>))"
    "tp c2 = tp (io_cpu ?b)" "intr_depth c2 = intr_depth (io_cpu ?b) + 1" by (rule buf_acquire_ok)
  let ?e = "upd_buf i (\<lambda>b. b\<lparr>b_lock := hold (io_cpu ?b) (b_lock b)\<rparr>) (?b\<lparr>io_cpu := c2\<rparr>)"
  have run: "rbind (bc_release ?a) (buf_acquire i) = Inr ?e" unfolding c1(1) rbind_Inr by (rule c2(1))
  have tps: "tp c1 = tp (io_cpu st)" "tp c2 = tp c1" using c1(2) c2(2) c(1) by simp_all
  have "same_bc core ?e" by (simp add: same_bc_def upd_buf_def)
  moreover have "bc_calm ?e" using calm core c2(3) c1(3) c(2) d by (simp add: bc_calm_def quiet_def upd_buf_def)
  moreover have "spinlock_holding (io_cpu ?e) (b_lock (bufs ?e i))" using holding_tp [OF tps(2)] by (simp add: upd_buf_def)
  moreover have "\<forall>j. j \<noteq> i \<longrightarrow> b_lock (bufs ?e j) = b_lock (bufs st j)" by (simp add: upd_buf_def core(1))
  moreover have "tp (io_cpu ?e) = tp (io_cpu st)" using tps by (simp add: upd_buf_def)
  moreover have "intr_depth (io_cpu ?e) = intr_depth (io_cpu st) + 1" using c2(3) c1(3) c(2) by (simp add: upd_buf_def)
  ultimately have "hands_over i st core ?e" unfolding hands_over_def by blast
  then show ?thesis using that run by blast
qed

lemma get_hit_locks: "get_hit i (st\<lparr>io_cpu := c, bc_lock := l\<rparr>) = (get_hit i st)\<lparr>io_cpu := c, bc_lock := l\<rparr>"
  by (cases st) (simp add: get_hit_def upd_buf_def lru_to_front_def)

lemma get_miss_locks: "get_miss dev n i (st\<lparr>io_cpu := c, bc_lock := l\<rparr>) = (get_miss dev n i st)\<lparr>io_cpu := c, bc_lock := l\<rparr>"
  by (cases st) (simp add: get_miss_def Let_def)

lemma bcache_get_hit:
  assumes "bc_inv st" and "bc_calm st" and "bcache_lookup dev n st = Some i" and "lock_free (b_lock (bufs st i))"
  obtains st' where "bcache_get dev n st = Inr (i, st')" "hands_over i st (get_hit i st) st'"
proof -
  obtain c where c: "bc_acquire st = Inr (st\<lparr>io_cpu := c, bc_lock := hold (io_cpu st) (bc_lock st)\<rparr>)"
    "tp c = tp (io_cpu st)" "intr_depth c = intr_depth (io_cpu st) + 1" by (rule bc_acquire_ok [OF assms(2)])
  obtain st' where st': "rbind (bc_release ((get_hit i st)\<lparr>io_cpu := c, bc_lock := hold (io_cpu st) (bc_lock st)\<rparr>)) (buf_acquire i) = Inr st'"
    "hands_over i st (get_hit i st) st'"
    by (rule get_tail [OF assms(2,4) c(2,3), of "get_hit i st"]) (auto simp: get_hit_def upd_buf_def lru_to_front_def)
  have "bcache_lookup dev n (st\<lparr>io_cpu := c, bc_lock := hold (io_cpu st) (bc_lock st)\<rparr>) = Some i"
    using assms(3) by (simp add: bcache_lookup_def)
  then have "bcache_get dev n st = rbind (rbind (bc_release ((get_hit i st)\<lparr>io_cpu := c, bc_lock := hold (io_cpu st) (bc_lock st)\<rparr>)) (buf_acquire i)) (\<lambda>st. Inr (i, st))"
    by (simp add: bcache_get_def c(1) rbind_assoc flip: get_hit_locks) (simp add: get_hit_def)
  then show ?thesis using that st' by simp
qed

lemma bcache_get_miss:
  assumes "bc_inv st" and "bc_calm st" and "bcache_lookup dev n st = None" and "victim st = Some i"
    and "lock_free (b_lock (bufs st i))"
  obtains st' where "bcache_get dev n st = Inr (i, st')" "hands_over i st (get_miss dev n i st) st'"
proof -
  obtain c where c: "bc_acquire st = Inr (st\<lparr>io_cpu := c, bc_lock := hold (io_cpu st) (bc_lock st)\<rparr>)"
    "tp c = tp (io_cpu st)" "intr_depth c = intr_depth (io_cpu st) + 1" by (rule bc_acquire_ok [OF assms(2)])
  let ?a = "st\<lparr>io_cpu := c, bc_lock := hold (io_cpu st) (bc_lock st)\<rparr>"
  obtain st' where st': "rbind (bc_release ((get_miss dev n i st)\<lparr>io_cpu := c, bc_lock := hold (io_cpu st) (bc_lock st)\<rparr>)) (buf_acquire i) = Inr st'"
    "hands_over i st (get_miss dev n i st) st'"
    by (rule get_tail [OF assms(2,5) c(2,3), of "get_miss dev n i st"]) (auto simp: get_miss_def claim_def Let_def)
  have l: "bcache_lookup dev n ?a = None" using assms(3) by (simp add: bcache_lookup_def)
  have "victim ?a = Some i" using assms(4) by (simp add: victim_def)
  moreover have "\<not> b_dirty (bufs st i)" by (rule bc_invD(6) [OF assms(1)])
  ultimately have e: "bcache_evict ?a = Inr (Some i, upd_buf i (\<lambda>b. b\<lparr>b_valid := False\<rparr>) (hash_unlink i ?a))"
    by (simp add: bcache_evict_def)
  have "bcache_get dev n st = rbind (rbind (bc_release ((get_miss dev n i st)\<lparr>io_cpu := c, bc_lock := hold (io_cpu st) (bc_lock st)\<rparr>)) (buf_acquire i)) (\<lambda>st. Inr (i, st))"
    by (simp add: bcache_get_def c(1) l e rbind_assoc flip: get_miss_locks)
       (simp add: get_miss_def claim_def upd_buf_def hash_unlink_def lru_to_front_def Let_def)
  then show ?thesis using that st' by simp
qed

section \<open>The public operations\<close>

text \<open>What a driver promises for one-sector transfers: \<open>content\<close> is what is stored on the hardware.\<close>

definition serves :: "('d, 'z) blk_scheme \<Rightarrow> int \<Rightarrow> ('d \<Rightarrow> u64 \<Rightarrow> u8 list) \<Rightarrow> bool" where
  "serves st dev content \<longleftrightarrow> found dev st \<noteq> NULL \<and>
     (\<exists>f g. op_read (dev_at st (found dev st)) = Some f \<and> op_write (dev_at st (found dev st)) = Some g \<and>
       (\<forall>s b h. \<exists>h'. f s b 1 h = (0, content h s, h') \<and> content h' = content h) \<and>
       (\<forall>s b h. \<exists>h'. g s b 1 h = (0, h') \<and> content h' = (content h)(s := b)))"

text \<open>The block layer leaves the fields of the cache alone.\<close>

lemma more_bcache:
  "blk.more st' = blk.more (st :: 'd bcache) \<Longrightarrow>
     bufs st' = bufs st \<and> hash_table st' = hash_table st \<and> lru_list st' = lru_list st \<and> bc_lock st' = bc_lock st"
  by (cases st; cases st') simp

lemma serves_same:
  assumes "same_but_hw st st'"
  shows "serves st' dev content \<longleftrightarrow> serves st dev content"
proof -
  have "nolock (dev_at st' d) = nolock (dev_at st d)" for d using assms by (simp add: same_but_hw_def)
  then have "op_read (dev_at st' d) = op_read (dev_at st d)" "op_write (dev_at st' d) = op_write (dev_at st d)" for d
    using nolock_eqD by blast+
  then show ?thesis by (simp add: serves_def found_same [OF assms])
qed

lemma serves_bc: "same_bc st st' \<Longrightarrow> serves st' dev content \<longleftrightarrow> serves st dev content"
  using same_bcD(10,11) [of st st'] by (simp add: serves_def found_def)

lemma nolockb_lock_eq:
  assumes "nolockb a = nolockb b" and "b_lock a = b_lock b"
  shows "a = b"
  using assms by (cases a; cases b) (simp add: nolockb_def)

lemma hands_over_other:
  "hands_over i st core st' \<Longrightarrow> j \<noteq> i \<Longrightarrow> bufs core j = bufs st j \<Longrightarrow> bufs st' j = bufs st j"
  by (rule nolockb_lock_eq) (auto simp: hands_over_def same_bc_def)

definition picks :: "int \<Rightarrow> u64 \<Rightarrow> 'd bcache \<Rightarrow> nat \<Rightarrow> bool" where
  "picks dev n st i \<longleftrightarrow> bcache_lookup dev n st = Some i \<or> bcache_lookup dev n st = None \<and> victim st = Some i"

lemma bcache_get_ok:
  assumes "bc_inv st" and "bc_calm st" and "picks dev n st i" and "lock_free (b_lock (bufs st i))"
  obtains st' core where "bcache_get dev n st = Inr (i, st')" "hands_over i st core st'" "bc_inv core" "hashed core i"
    "buf_key (bufs core i) = (dev, n)" "hw core = hw st" "\<And>j. j \<noteq> i \<Longrightarrow> bufs core j = bufs st j"
    "b_valid (bufs core i) \<longleftrightarrow> bcache_lookup dev n st \<noteq> None \<and> b_valid (bufs st i)"
    "b_data (bufs core i) = b_data (bufs st i)" "i < BCACHE_SIZE" "serves core = serves st"
    "b_refcnt (bufs core i) = (if bcache_lookup dev n st = None then 1 else b_refcnt (bufs st i) + 1)"
proof (cases "bcache_lookup dev n st")
  case None
  then have v: "victim st = Some i" using assms(3) by (simp add: picks_def)
  then have i: "i < BCACHE_SIZE" using find_SomeD [OF v [unfolded victim_def]] bc_invD(2) [OF assms(1)] by auto
  obtain st' where "bcache_get dev n st = Inr (i, st')" "hands_over i st (get_miss dev n i st) st'"
    by (rule bcache_get_miss [OF assms(1,2) None v assms(4)])
  moreover have "hashed (get_miss dev n i st) i" by (auto simp: hashed_def get_miss_def Let_def)
  ultimately show ?thesis
    using that [of st' "get_miss dev n i st"] get_miss_inv [OF assms(1) i None] i None
    by (simp add: get_miss_def claim_def buf_key_def Let_def serves_def [abs_def] found_def [abs_def])
next
  case (Some k)
  then have k: "bcache_lookup dev n st = Some i" using assms(3) by (auto simp: picks_def)
  note l = lookup_Some [OF assms(1) k]
  obtain st' where "bcache_get dev n st = Inr (i, st')" "hands_over i st (get_hit i st) st'"
    by (rule bcache_get_hit [OF assms(1,2) k assms(4)])
  moreover have "hashed (get_hit i st) i" using l(1) by (simp add: hashed_def get_hit_def upd_buf_def lru_to_front_def)
  ultimately show ?thesis
    using that [of st' "get_hit i st"] get_hit_inv [OF assms(1) l(1)] l k
    by (simp add: get_hit_def upd_buf_def lru_to_front_def buf_key_def serves_def [abs_def] found_def [abs_def])
qed

lemma bread_ok:
  assumes inv: "bc_inv st" and calm: "bc_calm st" and i: "picks dev n st i" and free: "lock_free (b_lock (bufs st i))"
    and disk: "serves st dev content"
  obtains st' where "bread dev n st = Inr (i, st')" "bc_inv st'" "bc_calm st'"
    "buf_key (bufs st' i) = (dev, n)" "b_valid (bufs st' i)"
    "b_data (bufs st' i) = (if bcache_lookup dev n st = Some i \<and> b_valid (bufs st i) then b_data (bufs st i) else content (hw st) n)"
    "content (hw st') = content (hw st)" "spinlock_holding (io_cpu st') (b_lock (bufs st' i))"
    "\<And>j. j \<noteq> i \<Longrightarrow> bufs st' j = bufs st j" "intr_depth (io_cpu st') = intr_depth (io_cpu st) + 1"
    "b_refcnt (bufs st' i) = (if bcache_lookup dev n st = None then 1 else b_refcnt (bufs st i) + 1)"
    "serves st' dev content"
proof -
  obtain s1 core where s1: "bcache_get dev n st = Inr (i, s1)" "hands_over i st core s1" "bc_inv core" "hashed core i"
    "buf_key (bufs core i) = (dev, n)" "hw core = hw st" "\<And>j. j \<noteq> i \<Longrightarrow> bufs core j = bufs st j"
    "b_valid (bufs core i) \<longleftrightarrow> bcache_lookup dev n st \<noteq> None \<and> b_valid (bufs st i)"
    "b_data (bufs core i) = b_data (bufs st i)" "i < BCACHE_SIZE" "serves core = serves st"
    "b_refcnt (bufs core i) = (if bcache_lookup dev n st = None then 1 else b_refcnt (bufs st i) + 1)"
    using bcache_get_ok [OF inv calm i free] by metis
  have sb: "same_bc core s1" and h: "bc_calm s1" "spinlock_holding (io_cpu s1) (b_lock (bufs s1 i))"
    "intr_depth (io_cpu s1) = intr_depth (io_cpu st) + 1"
    using s1(2) by (auto simp: hands_over_def)
  note f = same_bcD [OF sb]
  have inv1: "bc_inv s1" by (rule same_bc_inv [OF sb s1(3)])
  have key1: "buf_key (bufs s1 i) = (dev, n)" using s1(5) f by (simp add: buf_key_def)
  have oth: "bufs s1 j = bufs st j" if "j \<noteq> i" for j by (rule hands_over_other [OF s1(2) that s1(7) [OF that]])
  have disk1: "serves s1 dev content" using disk s1(11) serves_bc [OF sb] by simp
  show ?thesis
  proof (cases "b_valid (bufs s1 i)")
    case True
    then have "b_data (bufs s1 i) = (if bcache_lookup dev n st = Some i \<and> b_valid (bufs st i) then b_data (bufs st i) else content (hw st) n)"
      using s1(8,9) f i by (auto simp: picks_def)
    moreover have "bread dev n st = Inr (i, s1)" using True by (simp add: bread_def s1(1))
    ultimately show ?thesis using that [of s1] inv1 h key1 oth True disk1 f(4,9) s1(6,12) by simp
  next
    case False
    have q: "quiet s1" using h(1) by (simp add: bc_calm_def)
    obtain r d s2 where s2: "blk_read dev n (b_data (bufs s1 i)) 1 s1 = Inr (r, d, s2)" "quiet s2" "same_but_hw s1 s2"
      "if found dev s1 = NULL \<or> op_read (dev_at s1 (found dev s1)) = None then r = - 1 \<and> d = b_data (bufs s1 i) \<and> hw s2 = hw s1
       else the (op_read (dev_at s1 (found dev s1))) n (b_data (bufs s1 i)) 1 (hw s1) = (r, d, hw s2)"
      by (rule blk_read_ok [OF q])
    obtain rd where rd: "found dev s1 \<noteq> NULL" "op_read (dev_at s1 (found dev s1)) = Some rd"
      "\<exists>h'. rd n (b_data (bufs s1 i)) 1 (hw s1) = (0, content (hw s1) n, h') \<and> content h' = content (hw s1)"
      using disk1 unfolding serves_def by blast
    then have d: "d = content (hw st) n" "content (hw s2) = content (hw st)" using s2(4) f(9) s1(6) by auto
    have m: "bufs s2 = bufs s1" "hash_table s2 = hash_table s1" "lru_list s2 = lru_list s1" "bc_lock s2 = bc_lock s1"
      using s2(3) more_bcache by (auto simp: same_but_hw_def)
    have cpu: "tp (io_cpu s2) = tp (io_cpu s1)" "intr_depth (io_cpu s2) = intr_depth (io_cpu s1)"
      using s2(3) by (auto simp: same_but_hw_def same_hart_def)
    let ?s = "upd_buf i (\<lambda>b. b\<lparr>b_data := d, b_valid := True\<rparr>) s2"
    have b: "bufs ?s = (bufs s1)(i := bufs s1 i\<lparr>b_data := d, b_valid := True\<rparr>)" by (simp add: upd_buf_def m)
    have run: "bread dev n st = Inr (i, ?s)" using False s2(1) by (simp add: bread_def s1(1))
    have hs: "hashed s1 i" using s1(4) f(7) by (simp add: hashed_def)
    have inv2: "bc_inv ?s"
      by (rule bc_inv_step [OF inv1]) (use bc_invD [OF inv1] hs m in \<open>auto simp: b buf_key_def upd_buf_def split: if_splits\<close>)
    have calm2: "bc_calm ?s" using h(1) s2(2) m(4) by (simp add: bc_calm_def quiet_def upd_buf_def)
    have hold2: "spinlock_holding (io_cpu ?s) (b_lock (bufs ?s i))"
      using h(2) cpu(1) by (simp add: b spinlock_holding_def) (simp add: upd_buf_def)
    have depth2: "intr_depth (io_cpu ?s) = intr_depth (io_cpu st) + 1" using h(3) cpu(2) by (simp add: upd_buf_def)
    have con2: "content (hw ?s) = content (hw st)" using d(2) by (simp add: upd_buf_def)
    have srv2: "serves ?s dev content" using disk1 serves_same [OF s2(3)] by (simp add: serves_def found_def upd_buf_def)
    have key2: "buf_key (bufs ?s i) = (dev, n)" using key1 by (simp add: b buf_key_def)
    have "\<not> (bcache_lookup dev n st = Some i \<and> b_valid (bufs st i))" using False s1(8) f by auto
    then have val2: "b_valid (bufs ?s i)"
      "b_data (bufs ?s i) = (if bcache_lookup dev n st = Some i \<and> b_valid (bufs st i) then b_data (bufs st i) else content (hw st) n)"
      unfolding b using d(1) by auto
    have oth2: "bufs ?s j = bufs st j" if "j \<noteq> i" for j using oth that by (simp add: b)
    have ref2: "b_refcnt (bufs ?s i) = (if bcache_lookup dev n st = None then 1 else b_refcnt (bufs st i) + 1)"
      using f(4) s1(12) by (simp add: b)
    show ?thesis by (rule that [OF run inv2 calm2 key2 val2 con2 hold2 oth2 depth2 ref2 srv2])
  qed
qed

lemma bwrite_ok:
  assumes inv: "bc_inv st" and q: "quiet st" and v: "b_valid (bufs st i)" and disk: "serves st (b_dev (bufs st i)) content"
  obtains st' where "bwrite i st = Inr st'" "bc_inv st'" "quiet st'" "bufs st' = bufs st"
    "content (hw st') = (content (hw st))(b_blockno (bufs st i) := b_data (bufs st i))" "lru_list st' = lru_list st"
    "bc_lock st' = bc_lock st" "tp (io_cpu st') = tp (io_cpu st)" "intr_depth (io_cpu st') = intr_depth (io_cpu st)"
    "serves st' (b_dev (bufs st i)) content"
proof -
  let ?dev = "b_dev (bufs st i)" and ?n = "b_blockno (bufs st i)" and ?x = "b_data (bufs st i)"
  let ?s = "upd_buf i (\<lambda>b. b\<lparr>b_dirty := True\<rparr>) st"
  have "quiet ?s" using q by (simp add: quiet_def upd_buf_def)
  then obtain r s2 where s2: "blk_write ?dev ?n ?x 1 ?s = Inr (r, s2)" "quiet s2" "same_but_hw ?s s2"
    "if found ?dev ?s = NULL \<or> op_write (dev_at ?s (found ?dev ?s)) = None then r = - 1 \<and> hw s2 = hw ?s
     else the (op_write (dev_at ?s (found ?dev ?s))) ?n ?x 1 (hw ?s) = (r, hw s2)" by (rule blk_write_ok)
  have f: "found ?dev ?s = found ?dev st" "dev_at ?s = dev_at st" "hw ?s = hw st" by (simp_all add: found_def upd_buf_def)
  obtain g where g: "found ?dev st \<noteq> NULL" "op_write (dev_at st (found ?dev st)) = Some g"
    "\<exists>h'. g ?n ?x 1 (hw st) = (0, h') \<and> content h' = (content (hw st))(?n := ?x)"
    using disk unfolding serves_def by blast
  have con: "content (hw s2) = (content (hw st))(?n := ?x)" using s2(4) g unfolding f by auto
  have m: "bufs s2 = bufs ?s" "hash_table s2 = hash_table ?s" "lru_list s2 = lru_list ?s" "bc_lock s2 = bc_lock ?s"
    using s2(3) more_bcache by (auto simp: same_but_hw_def)
  have cpu: "tp (io_cpu s2) = tp (io_cpu st)" "intr_depth (io_cpu s2) = intr_depth (io_cpu st)"
    using s2(3) by (auto simp: same_but_hw_def same_hart_def upd_buf_def)
  let ?e = "upd_buf i (\<lambda>b. b\<lparr>b_dirty := False\<rparr>) s2"
  have "\<not> b_dirty (bufs st i)" by (rule bc_invD(6) [OF inv])
  then have "bufs st i\<lparr>b_dirty := False\<rparr> = bufs st i" by (cases "bufs st i") simp
  then have b: "bufs ?e = bufs st" by (simp add: upd_buf_def m)
  have run: "bwrite i st = Inr ?e" using v s2(1) by (simp add: bwrite_def upd_buf_def)
  have h: "hash_table ?e = hash_table st" "lru_list ?e = lru_list st" by (simp_all add: upd_buf_def m)
  have inv2: "bc_inv ?e"
    by (rule bc_inv_step [OF inv]) (use bc_invD [OF inv] h b in \<open>simp_all add: buf_key_def\<close>)
  have "serves ?s ?dev content" using disk by (simp add: serves_def found_def upd_buf_def)
  then have "serves ?e ?dev content" using serves_same [OF s2(3)] by (simp add: serves_def found_def upd_buf_def)
  then show ?thesis
    by (intro that [OF run inv2 _ b]) (use s2(2) con m cpu in \<open>simp_all add: quiet_def upd_buf_def\<close>)
qed

lemma brelse_ok:
  assumes inv: "bc_inv st" and calm: "bc_calm st" and i: "i < BCACHE_SIZE" and ref: "b_refcnt (bufs st i) \<noteq> 0"
    and held: "spinlock_holding (io_cpu st) (b_lock (bufs st i))" and depth: "0 < intr_depth (io_cpu st)"
  obtains st' where "brelse i st = Inr st'" "bc_inv st'" "bc_calm st'" "same_bc (put_ref i st) st'"
    "lock_free (b_lock (bufs st' i))" "intr_depth (io_cpu st') = intr_depth (io_cpu st) - 1"
    "tp (io_cpu st') = tp (io_cpu st)" "\<And>j. j \<noteq> i \<Longrightarrow> bufs st' j = bufs st j"
proof -
  obtain c where c: "buf_release i st = Inr (upd_buf i (\<lambda>b. b\<lparr>b_lock := unhold (b_lock b)\<rparr>) (st\<lparr>io_cpu := c\<rparr>))"
    "tp c = tp (io_cpu st)" "intr_depth c = intr_depth (io_cpu st) - 1" by (rule buf_release_ok [OF held depth])
  let ?a = "upd_buf i (\<lambda>b. b\<lparr>b_lock := unhold (b_lock b)\<rparr>) (st\<lparr>io_cpu := c\<rparr>)"
  have "bc_calm ?a" using calm c(3) depth by (simp add: bc_calm_def quiet_def upd_buf_def)
  then obtain c1 where c1: "bc_acquire ?a = Inr (?a\<lparr>io_cpu := c1, bc_lock := hold (io_cpu ?a) (bc_lock ?a)\<rparr>)"
    "tp c1 = tp (io_cpu ?a)" "intr_depth c1 = intr_depth (io_cpu ?a) + 1" by (rule bc_acquire_ok)
  let ?b = "?a\<lparr>io_cpu := c1, bc_lock := hold (io_cpu ?a) (bc_lock ?a)\<rparr>"
  let ?p = "put_ref i ?b"
  have pl: "io_cpu ?p = c1" "bc_lock ?p = hold (io_cpu ?a) (bc_lock ?a)"
    by (simp_all add: put_ref_def upd_buf_def Let_def)
  have a: "io_cpu ?a = c" "bc_lock ?a = bc_lock st" by (simp_all add: upd_buf_def)
  have "spinlock_holding (io_cpu ?p) (bc_lock ?p)" "0 < intr_depth (io_cpu ?p)"
    using holding_tp [OF c1(2)] c1(3) c(3) depth unfolding pl by (simp_all add: a)
  then obtain c2 where c2: "bc_release ?p = Inr (?p\<lparr>io_cpu := c2, bc_lock := unhold (bc_lock ?p)\<rparr>)"
    "tp c2 = tp (io_cpu ?p)" "intr_depth c2 = intr_depth (io_cpu ?p) - 1" by (rule bc_release_ok)
  let ?e = "?p\<lparr>io_cpu := c2, bc_lock := unhold (bc_lock ?p)\<rparr>"
  have run: "brelse i st = Inr ?e"
    unfolding brelse_def c(1) rbind_Inr c1(1) c2(1) [symmetric] by (simp add: put_ref_def Let_def)
  have same: "same_bc (put_ref i st) ?e"
    by (simp add: same_bc_def put_ref_def upd_buf_def Let_def nolockb_def)
  have inv2: "bc_inv ?e" by (rule same_bc_inv [OF same put_ref_inv [OF inv i ref]])
  have calm2: "bc_calm ?e" using calm c2(3) c1(3) c(3) depth unfolding pl a
    by (simp add: bc_calm_def quiet_def put_ref_def upd_buf_def Let_def)
  show ?thesis
    by (rule that [OF run inv2 calm2 same])
       (use c c1 c2 in \<open>simp_all add: put_ref_def upd_buf_def Let_def\<close>)
qed

text \<open>No buffer is dirty between calls, so the two flush loops find nothing to write.\<close>

lemma flush_loop_idle: "\<forall>i. \<not> b_dirty (bufs st i) \<Longrightarrow> flush_loop P is st = Inr st"
  by (induction "is") auto

lemma bcache_sync_ok:
  assumes inv: "bc_inv st" and calm: "bc_calm st"
  obtains st' where "bcache_sync st = Inr st'" "hw st' = hw st" "bufs st' = bufs st"
    and "bcache_flush dev st = Inr st'"
proof -
  obtain c where c: "bc_acquire st = Inr (st\<lparr>io_cpu := c, bc_lock := hold (io_cpu st) (bc_lock st)\<rparr>)"
    "tp c = tp (io_cpu st)" "intr_depth c = intr_depth (io_cpu st) + 1" by (rule bc_acquire_ok [OF calm])
  let ?a = "st\<lparr>io_cpu := c, bc_lock := hold (io_cpu st) (bc_lock st)\<rparr>"
  have loop: "flush_loop P is ?a = Inr ?a" for P "is" by (rule flush_loop_idle) (simp add: bc_invD(6) [OF inv])
  have "0 \<le> intr_depth (io_cpu st)" using calm by (simp add: bc_calm_def quiet_def)
  then have "0 < intr_depth (io_cpu ?a)" "spinlock_holding (io_cpu ?a) (bc_lock ?a)" using c(3) holding_tp [OF c(2)] by simp_all
  then obtain c' where c': "bc_release ?a = Inr (?a\<lparr>io_cpu := c', bc_lock := unhold (bc_lock ?a)\<rparr>)" using bc_release_ok by metis
  show ?thesis
    by (rule that [of "?a\<lparr>io_cpu := c', bc_lock := unhold (bc_lock ?a)\<rparr>"])
       (simp_all only: bcache_sync_def bcache_flush_def c(1) loop rbind_Inr c', simp_all)
qed

text \<open>
  The valid buffers of a device agree with what is stored on it. Nothing is valid after \<^verbatim>\<open>bcache_init\<close>; a caller breaks the
  agreement when it changes the data of a buffer, and \<^verbatim>\<open>bwrite\<close> restores it.
\<close>

definition coherent :: "int \<Rightarrow> ('d \<Rightarrow> u64 \<Rightarrow> u8 list) \<Rightarrow> 'd bcache \<Rightarrow> bool" where
  "coherent dev content st \<longleftrightarrow> (\<forall>j<BCACHE_SIZE. b_dev (bufs st j) = dev \<and> b_valid (bufs st j) \<longrightarrow>
     b_data (bufs st j) = content (hw st) (b_blockno (bufs st j)))"

lemma bwrite_restores_coherence:
  assumes inv: "bc_inv st" and "quiet st" and v: "b_valid (bufs st i)" "i < BCACHE_SIZE" "b_dev (bufs st i) = dev"
    and "serves st dev content"
    and others: "\<And>j. j < BCACHE_SIZE \<Longrightarrow> j \<noteq> i \<Longrightarrow> b_dev (bufs st j) = dev \<Longrightarrow> b_valid (bufs st j) \<Longrightarrow>
      b_data (bufs st j) = content (hw st) (b_blockno (bufs st j))"
  shows "\<exists>st'. bwrite i st = Inr st' \<and> coherent dev content st'"
proof -
  obtain st' where w: "bwrite i st = Inr st'" "bufs st' = bufs st"
    "content (hw st') = (content (hw st))(b_blockno (bufs st i) := b_data (bufs st i))"
    using bwrite_ok [OF assms(1-3)] assms(6) v(3) by metis
  have "b_blockno (bufs st j) \<noteq> b_blockno (bufs st i)"
    if "j < BCACHE_SIZE" "j \<noteq> i" "b_dev (bufs st j) = dev" "b_valid (bufs st j)" for j
    using that bc_invD(4) [OF inv, of j i] bc_invD(5) [OF inv] v by (auto simp: buf_key_def)
  then have "coherent dev content st'"
    unfolding coherent_def w(2,3) using others by (metis fun_upd_apply)
  then show ?thesis using w(1) by blast
qed

end
