(* ===== verification/Storage_Properties.thy ===== *)
theory Storage_Properties
  imports Bcache
begin

text \<open>The properties of the block layer and the block cache, with a concrete disk.\<close>

section \<open>A disk\<close>

definition demo_dev :: "(u64 \<Rightarrow> u8 list) block_device" where
  "demo_dev = \<lparr>devno = 0x100000, op_read = Some (\<lambda>s b n h. (0, h s, h)), op_write = Some (\<lambda>s b n h. (0, h(s := b))),
     op_flush = None, op_capacity = None, op_block_size = None, dev_lock = SPINLOCK_INITIALIZER ''d''\<rparr>"

definition demo_hart :: hart where
  "demo_hart = \<lparr>tp = 0, sstatus = SSTATUS_SIE, intr_state = 0, intr_depth = 0\<rparr>"

definition demo_buf :: "int \<Rightarrow> u64 \<Rightarrow> buf" where
  "demo_buf dev n = \<lparr>b_data = [], b_blockno = n, b_dev = dev, b_refcnt = 0, b_dirty = False, b_valid = False,
     b_lock = SPINLOCK_INITIALIZER ''bcache_buf''\<rparr>"

text \<open>The cache after \<^verbatim>\<open>bcache_init\<close>, over a disk whose sector \<open>n\<close> holds the byte \<open>n\<close>.\<close>

definition demo_cache :: "(u64 \<Rightarrow> u8 list) bcache" where
  "demo_cache = \<lparr>io_cpu = demo_hart, devices = [0x10], dev_at = (\<lambda>_. demo_dev), registry_lock = SPINLOCK_INITIALIZER ''r'',
     hw = (\<lambda>s. [ucast s]), bufs = (\<lambda>_. demo_buf 0 0), hash_table = (\<lambda>_. []), lru_list = rev [0..<BCACHE_SIZE],
     bc_lock = SPINLOCK_INITIALIZER ''bcache''\<rparr>"

lemma demo_facts:
  "bc_inv demo_cache" "bc_calm demo_cache" "serves demo_cache 0x100000 (\<lambda>h. h)" "picks 0x100000 5 demo_cache 0"
  "lock_free (b_lock (bufs demo_cache 0))"
proof -
  show "bc_inv demo_cache"
    by (simp add: bc_inv_def demo_cache_def demo_buf_def hashed_def lessThan_atLeast0)
  show "bc_calm demo_cache"
    by (simp add: bc_calm_def quiet_def demo_cache_def demo_hart_def demo_dev_def lock_free_def SPINLOCK_INITIALIZER_def)
  show "serves demo_cache 0x100000 (\<lambda>h. h)"
    by (simp add: serves_def found_def demo_cache_def demo_dev_def)
  have "victim demo_cache = Some 0"
    by (simp add: victim_def demo_cache_def demo_buf_def BCACHE_SIZE_def upt_conv_Cons)
  then show "picks 0x100000 5 demo_cache 0" by (simp add: picks_def bcache_lookup_def demo_cache_def)
  show "lock_free (b_lock (bufs demo_cache 0))" by (simp add: demo_cache_def demo_buf_def lock_free_def SPINLOCK_INITIALIZER_def)
qed

section \<open>Properties\<close>

text \<open>
  C20: \<^verbatim>\<open>bread\<close> on a working device returns a locked buffer of the requested block. A block with a valid buffer in the
  cache comes with the bytes of that buffer, which a caller may have changed without \<^verbatim>\<open>bwrite\<close>, and any other block
  with the bytes that the device stores; so if the valid buffers of the device agree with it, which \<^verbatim>\<open>bread\<close> keeps, the buffer holds
  what the device stores either way. The cache stays consistent (one buffer per block, on the right chain, counted),
  the other buffers and the disk do not change, and the call neither waits nor panics as long as the cache or an unlocked
  buffer without references can serve the request.
\<close>

theorem bread_returns_block:
  assumes "bc_inv st" and "bc_calm st" and "picks dev n st i" and "lock_free (b_lock (bufs st i))" and "serves st dev content"
  shows "\<exists>st'. bread dev n st = Inr (i, st') \<and> bc_inv st' \<and> bc_calm st' \<and> buf_key (bufs st' i) = (dev, n) \<and>
    b_valid (bufs st' i) \<and>
    b_data (bufs st' i) =
      (if bcache_lookup dev n st = Some i \<and> b_valid (bufs st i) then b_data (bufs st i) else content (hw st) n) \<and>
    (coherent dev content st \<longrightarrow> coherent dev content st' \<and> b_data (bufs st' i) = content (hw st) n) \<and>
    content (hw st') = content (hw st) \<and> spinlock_holding (io_cpu st') (b_lock (bufs st' i)) \<and>
    (\<forall>j. j \<noteq> i \<longrightarrow> bufs st' j = bufs st j)"
proof -
  obtain st' where r: "bread dev n st = Inr (i, st')" "bc_inv st'" "bc_calm st'" "buf_key (bufs st' i) = (dev, n)"
    "b_valid (bufs st' i)"
    "b_data (bufs st' i) = (if bcache_lookup dev n st = Some i \<and> b_valid (bufs st i) then b_data (bufs st i) else content (hw st) n)"
    "content (hw st') = content (hw st)" "spinlock_holding (io_cpu st') (b_lock (bufs st' i))"
    "\<And>j. j \<noteq> i \<Longrightarrow> bufs st' j = bufs st j"
    using bread_ok [OF assms] by metis
  have "coherent dev content st' \<and> b_data (bufs st' i) = content (hw st) n" if co: "coherent dev content st"
  proof -
    have d: "b_data (bufs st' i) = content (hw st) n"
      using co r(6) lookup_Some [OF assms(1), of dev n i] by (auto simp: coherent_def buf_key_def)
    have "b_data (bufs st' j) = content (hw st') (b_blockno (bufs st' j))"
      if "j < BCACHE_SIZE" "b_dev (bufs st' j) = dev" "b_valid (bufs st' j)" for j
      using that co d r(4,7,9) by (cases "j = i") (auto simp: coherent_def buf_key_def)
    then show ?thesis using d by (simp add: coherent_def)
  qed
  then show ?thesis using r by blast
qed

theorem bread_returns_block_witness:
  "\<exists>st'. bread 0x100000 5 demo_cache = Inr (0, st') \<and> b_data (bufs st' 0) = [5] \<and> coherent 0x100000 (\<lambda>h. h) st'"
proof -
  have "coherent 0x100000 (\<lambda>h. h) demo_cache" by (simp add: coherent_def demo_cache_def demo_buf_def)
  with bread_returns_block [OF demo_facts(1,2,4,5,3)]
  obtain st' where "bread 0x100000 5 demo_cache = Inr (0, st')" "b_data (bufs st' 0) = hw demo_cache 5"
    "coherent 0x100000 (\<lambda>h. h) st'" by blast
  then show ?thesis by (auto simp: demo_cache_def)
qed

text \<open>
  C21: Writing a block and reading it back returns what was written: \<^verbatim>\<open>bwrite\<close> writes through to the
  device and leaves the buffer clean, and after \<^verbatim>\<open>brelse\<close> a later \<^verbatim>\<open>bread\<close> of the block gives the same bytes.
\<close>

theorem bwrite_bread_roundtrip:
  assumes "bc_inv st" and "bc_calm st" and "i < BCACHE_SIZE" and "b_valid (bufs st i)" and "b_refcnt (bufs st i) \<noteq> 0"
    and "spinlock_holding (io_cpu st) (b_lock (bufs st i))" and "0 < intr_depth (io_cpu st)"
    and "serves st (b_dev (bufs st i)) content"
  shows "\<exists>s1 s2 s3. bwrite i st = Inr s1 \<and> brelse i s1 = Inr s2 \<and>
    bread (b_dev (bufs st i)) (b_blockno (bufs st i)) s2 = Inr (i, s3) \<and> b_data (bufs s3 i) = b_data (bufs st i) \<and>
    content (hw s3) = (content (hw st))(b_blockno (bufs st i) := b_data (bufs st i))"
proof -
  let ?dev = "b_dev (bufs st i)" and ?n = "b_blockno (bufs st i)"
  have q: "quiet st" using assms(2) by (simp add: bc_calm_def)
  obtain s1 where s1: "bwrite i st = Inr s1" "bc_inv s1" "quiet s1" "bufs s1 = bufs st"
    "content (hw s1) = (content (hw st))(?n := b_data (bufs st i))" "lru_list s1 = lru_list st"
    "bc_lock s1 = bc_lock st" "tp (io_cpu s1) = tp (io_cpu st)" "intr_depth (io_cpu s1) = intr_depth (io_cpu st)"
    "serves s1 ?dev content"
    by (rule bwrite_ok [OF assms(1) q assms(4,8)])
  have "spinlock_holding (io_cpu s1) (b_lock (bufs s1 i))" using assms(6) s1(4,8) by (simp add: spinlock_holding_def)
  moreover have "bc_calm s1" using assms(2) s1(3,7) by (simp add: bc_calm_def)
  ultimately obtain s2 where s2: "brelse i s1 = Inr s2" "bc_inv s2" "bc_calm s2" "same_bc (put_ref i s1) s2"
    "lock_free (b_lock (bufs s2 i))"
    using brelse_ok [OF s1(2) _ assms(3)] assms(5,7) s1(4,9) by metis
  note f = same_bcD [OF s2(4)]
  have p: "bufs (put_ref i s1) = (bufs s1)(i := bufs s1 i\<lparr>b_refcnt := b_refcnt (bufs s1 i) - 1\<rparr>)"
    "hash_table (put_ref i s1) = hash_table s1" "hw (put_ref i s1) = hw s1"
    by (simp_all add: put_ref_def upd_buf_def Let_def)
  have d: "b_data (bufs s2 i) = b_data (bufs st i)" "b_valid (bufs s2 i)" "buf_key (bufs s2 i) = (?dev, ?n)" "hw s2 = hw s1"
    using f p s1(4) assms(4) by (simp_all add: buf_key_def)
  have "hashed s1 i" using bc_invD(5) [OF s1(2) assms(3)] assms(5) s1(4) by simp
  then have "hashed s2 i" using f(7) p(2) by (simp add: hashed_def)
  then have l: "bcache_lookup ?dev ?n s2 = Some i" by (rule lookup_hashed [OF s2(2) _ d(3)])
  then have pick: "picks ?dev ?n s2 i" by (simp add: picks_def)
  have "serves (put_ref i s1) ?dev content" using s1(10) by (simp add: put_ref_def upd_buf_def serves_def found_def Let_def)
  then have srv: "serves s2 ?dev content" using serves_bc [OF s2(4)] by simp
  have "b_data (bufs s2 i) = content (hw s2) ?n" using d(1,4) s1(5) by simp
  then obtain s3 where "bread ?dev ?n s2 = Inr (i, s3)" "b_data (bufs s3 i) = content (hw s2) ?n" "content (hw s3) = content (hw s2)"
    using bread_ok [OF s2(2,3) pick s2(5) srv] l d(2) by metis
  then show ?thesis using s1(1,5) s2(1) d(4) by auto
qed

theorem bwrite_bread_roundtrip_witness:
  "\<exists>s0 s1 s2 s3. bread 0x100000 5 demo_cache = Inr (0, s0) \<and> bwrite 0 s0 = Inr s1 \<and> brelse 0 s1 = Inr s2 \<and>
     bread (b_dev (bufs s0 0)) (b_blockno (bufs s0 0)) s2 = Inr (0, s3) \<and> b_data (bufs s3 0) = [5]"
proof -
  have nv: "\<not> b_valid (bufs demo_cache 0)" by (simp add: demo_cache_def demo_buf_def)
  obtain s0 where s0: "bread 0x100000 5 demo_cache = Inr (0, s0)" "bc_inv s0" "bc_calm s0"
    "buf_key (bufs s0 0) = (0x100000, 5)" "b_valid (bufs s0 0)" "b_data (bufs s0 0) = hw demo_cache 5"
    "spinlock_holding (io_cpu s0) (b_lock (bufs s0 0))" "intr_depth (io_cpu s0) = intr_depth (io_cpu demo_cache) + 1"
    "b_refcnt (bufs s0 0) = (if bcache_lookup 0x100000 5 demo_cache = None then 1 else b_refcnt (bufs demo_cache 0) + 1)"
    "serves s0 0x100000 (\<lambda>h. h)"
    using bread_ok [OF demo_facts(1,2,4,5,3)] nv by metis
  have "b_refcnt (bufs s0 0) \<noteq> 0" using s0(9) by (simp add: demo_cache_def demo_buf_def)
  moreover have "0 < intr_depth (io_cpu s0)" using s0(8) by (simp add: demo_cache_def demo_hart_def)
  moreover have "serves s0 (b_dev (bufs s0 0)) (\<lambda>h. h)" "0 < BCACHE_SIZE" using s0(4,10) by (simp_all add: buf_key_def BCACHE_SIZE_def)
  ultimately show ?thesis
    using bwrite_bread_roundtrip [OF s0(2,3) _ s0(5) _ s0(7), of "\<lambda>h. h"] s0(1,6) by (auto simp: demo_cache_def)
qed

text \<open>
  C40: The replacement is not least-recently-used: \<^verbatim>\<open>brelse\<close> puts a buffer that is no longer used at the end
  of the list at which \<^verbatim>\<open>bcache_evict\<close> starts, so the buffer released last is the next one that \<^verbatim>\<open>bcache_evict\<close> takes, and
  the one that \<^verbatim>\<open>bcache_get\<close> and \<^verbatim>\<open>bread\<close> give the next block that is not cached, losing the block it held.
\<close>

theorem brelse_next_victim:
  assumes "bc_inv st" and "bc_calm st" and "i < BCACHE_SIZE" and "b_refcnt (bufs st i) = 1"
    and "spinlock_holding (io_cpu st) (b_lock (bufs st i))" and "0 < intr_depth (io_cpu st)"
  shows "\<exists>st'. brelse i st = Inr st' \<and> bc_inv st' \<and>
    (\<exists>u. bcache_evict st' = Inr (Some i, u) \<and> \<not> b_valid (bufs u i) \<and> (\<forall>k. i \<notin> set (hash_table u k))) \<and>
    (\<forall>dev n. bcache_lookup dev n st' = None \<longrightarrow>
       (\<exists>u. bcache_get dev n st' = Inr (i, u) \<and> buf_key (bufs u i) = (dev, n) \<and> \<not> b_valid (bufs u i)))"
proof -
  obtain s2 where s2: "brelse i st = Inr s2" "bc_inv s2" "bc_calm s2" "same_bc (put_ref i st) s2" "lock_free (b_lock (bufs s2 i))"
    using brelse_ok [OF assms(1-3) _ assms(5,6)] assms(4) by (metis zero_neq_one)
  have "lru_list s2 = remove1 i (lru_list st) @ [i]" "b_refcnt (bufs s2 i) = 0"
    using same_bcD(4,8) [OF s2(4)] assms(4) by (simp_all add: put_ref_def upd_buf_def Let_def)
  then have v: "victim s2 = Some i" by (simp add: victim_def)
  have "bcache_evict s2 = Inr (Some i, upd_buf i (\<lambda>b. b\<lparr>b_valid := False\<rparr>) (hash_unlink i s2))"
    using v bc_invD(6) [OF s2(2)] by (simp add: bcache_evict_def)
  moreover have "i \<notin> set (remove1 i (hash_table s2 k))" for k
    using bc_invD(3) [OF s2(2), of k] by (simp add: set_remove1_eq)
  moreover have "\<exists>u. bcache_get dev n s2 = Inr (i, u) \<and> buf_key (bufs u i) = (dev, n) \<and> \<not> b_valid (bufs u i)"
    if "bcache_lookup dev n s2 = None" for dev n
  proof -
    have "picks dev n s2 i" using that v by (simp add: picks_def)
    then obtain u core where u: "bcache_get dev n s2 = Inr (i, u)" "hands_over i s2 core u" "buf_key (bufs core i) = (dev, n)"
      "b_valid (bufs core i) \<longleftrightarrow> bcache_lookup dev n s2 \<noteq> None \<and> b_valid (bufs s2 i)"
      using bcache_get_ok [OF s2(2,3) _ s2(5)] by metis
    then show ?thesis using that same_bcD [of core u] by (auto simp: hands_over_def buf_key_def)
  qed
  ultimately show ?thesis using s2(1,2) by (auto simp: upd_buf_def hash_unlink_def)
qed

theorem brelse_next_victim_witness:
  "\<exists>s0 s1 u. bread 0x100000 5 demo_cache = Inr (0, s0) \<and> brelse 0 s0 = Inr s1 \<and> bcache_evict s1 = Inr (Some 0, u)"
proof -
  have nv: "\<not> b_valid (bufs demo_cache 0)" by (simp add: demo_cache_def demo_buf_def)
  obtain s0 where s0: "bread 0x100000 5 demo_cache = Inr (0, s0)" "bc_inv s0" "bc_calm s0"
    "spinlock_holding (io_cpu s0) (b_lock (bufs s0 0))" "intr_depth (io_cpu s0) = intr_depth (io_cpu demo_cache) + 1"
    "b_refcnt (bufs s0 0) = (if bcache_lookup 0x100000 5 demo_cache = None then 1 else b_refcnt (bufs demo_cache 0) + 1)"
    using bread_ok [OF demo_facts(1,2,4,5,3)] nv by metis
  have "b_refcnt (bufs s0 0) = 1" using s0(6) by (simp add: demo_cache_def demo_buf_def)
  moreover have "0 < intr_depth (io_cpu s0)" using s0(5) by (simp add: demo_cache_def demo_hart_def)
  moreover have "0 < BCACHE_SIZE" by (simp add: BCACHE_SIZE_def)
  ultimately show ?thesis using brelse_next_victim [OF s0(2,3) _ _ s0(4)] s0(1) by blast
qed

text \<open>
  \<^verbatim>\<open>bcache_sync\<close> and \<^verbatim>\<open>bcache_flush\<close> never write anything: a buffer is dirty only inside \<^verbatim>\<open>bwrite\<close>, so
  whatever callers changed in their buffers without calling \<^verbatim>\<open>bwrite\<close> is not on the disk after them.
\<close>

theorem bcache_sync_idle:
  assumes "bc_inv st" and "bc_calm st"
  shows "\<exists>st'. bcache_sync st = Inr st' \<and> bcache_flush dev st = Inr st' \<and> hw st' = hw st \<and> bufs st' = bufs st"
  using bcache_sync_ok [OF assms, of dev] by metis

theorem bcache_sync_idle_witness: "\<exists>st'. bcache_sync demo_cache = Inr st' \<and> hw st' = hw demo_cache"
  using bcache_sync_idle [OF demo_facts(1,2)] by blast

end
