(* ===== verification/Block_Stream.thy ===== *)
theory Block_Stream
  imports Kernel_Prelude
begin

text \<open>
  A digest of a byte stream: the message is cut into blocks of \<open>B\<close> bytes, each block is folded into
  the state, and the bytes of the unfinished block wait in a buffer. The notions of this theory are
  the reference the two digest families are compared with.
\<close>

section \<open>Blocks of a list\<close>

fun blocks :: "nat \<Rightarrow> 'a list \<Rightarrow> 'a list list" where
  "blocks B xs = (if 0 < B \<and> B \<le> length xs then take B xs # blocks B (drop B xs) else [])"

declare blocks.simps [simp del]

definition rest :: "nat \<Rightarrow> 'a list \<Rightarrow> 'a list" where
  "rest B xs = drop (length xs div B * B) xs"

lemma length_rest: "length (rest B xs) = length xs mod B"
  by (simp add: rest_def minus_div_mult_eq_mod)

lemma rest_Nil: "length xs mod B = 0 \<Longrightarrow> rest B xs = []"
  by (simp add: length_rest flip: length_0_conv)

lemma blocks_short: "length xs < B \<Longrightarrow> blocks B xs = []"
  by (simp add: blocks.simps)

lemma rest_short: "length xs < B \<Longrightarrow> rest B xs = xs"
  by (simp add: rest_def)

lemma blocks_step: "0 < B \<Longrightarrow> B \<le> length xs \<Longrightarrow> blocks B xs = take B xs # blocks B (drop B xs)"
  by (subst blocks.simps) simp

lemma rest_step:
  assumes "0 < B" and "B \<le> length xs"
  shows "rest B xs = rest B (drop B xs)"
proof -
  have "length xs div B = Suc (length (drop B xs) div B)"
    using assms by (simp add: le_div_geq)
  then show ?thesis by (simp add: rest_def add.commute)
qed

lemma blocks_append:
  assumes "0 < B"
  shows "blocks B (xs @ ys) = blocks B xs @ blocks B (rest B xs @ ys)"
proof (induction B xs rule: blocks.induct)
  case (1 B xs)
  show ?case
  proof (cases "0 < B \<and> B \<le> length xs")
    case True
    then have "blocks B (drop B xs @ ys) = blocks B (drop B xs) @ blocks B (rest B (drop B xs) @ ys)"
      by (rule 1)
    then show ?thesis using True by (simp add: blocks_step rest_step)
  next
    case False
    then show ?thesis by (cases "B = 0") (simp_all add: blocks_short rest_short blocks.simps [of 0])
  qed
qed

lemma rest_append:
  assumes "0 < B"
  shows "rest B (xs @ ys) = rest B (rest B xs @ ys)"
  using assms
proof (induction B xs rule: blocks.induct)
  case (1 B xs)
  show ?case
  proof (cases "B \<le> length xs")
    case True
    then have "rest B (drop B xs @ ys) = rest B (rest B (drop B xs) @ ys)" using 1 by simp
    then show ?thesis using True 1(2) by (simp add: rest_step)
  next
    case False
    then show ?thesis by (simp add: rest_short)
  qed
qed

lemma blocks_full: "0 < B \<Longrightarrow> length xs = B \<Longrightarrow> blocks B (xs @ ys) = xs # blocks B ys"
  by (simp add: blocks_step)

lemma rest_full: "0 < B \<Longrightarrow> length xs = B \<Longrightarrow> rest B (xs @ ys) = rest B ys"
  by (simp add: rest_step)

section \<open>Padding\<close>

text \<open>
  The padding of FIPS 180-4: one bit, then the fewest zero bits, then the length, so that the message
  fills its last block.
\<close>

definition pad_zeros :: "nat \<Rightarrow> nat \<Rightarrow> nat \<Rightarrow> nat" where
  "pad_zeros B L n = (B - (n + 1 + L) mod B) mod B"

definition pad :: "nat \<Rightarrow> u8 list \<Rightarrow> u8 list \<Rightarrow> u8 list" where
  "pad B lenb msg = msg @ [0x80] @ replicate (pad_zeros B (length lenb) (length msg)) 0 @ lenb"

lemma pad_zeros_fill: "0 < B \<Longrightarrow> (n + 1 + pad_zeros B L n + L) mod B = 0"
proof -
  assume "0 < B"
  have "(n + 1 + pad_zeros B L n + L) mod B = ((n + 1 + L) mod B + pad_zeros B L n) mod B"
    by (simp add: ac_simps mod_add_left_eq mod_add_right_eq)
  also have "\<dots> = ((n + 1 + L) mod B + (B - (n + 1 + L) mod B)) mod B"
    by (simp add: pad_zeros_def mod_add_right_eq)
  also have "\<dots> = 0" using \<open>0 < B\<close> mod_less_divisor [OF \<open>0 < B\<close>, of "n + 1 + L"] by simp
  finally show ?thesis .
qed

lemma pad_zeros_least:
  assumes "0 < B" and "(n + 1 + k + L) mod B = 0"
  shows "pad_zeros B L n \<le> k"
proof (cases "(n + 1 + L) mod B = 0")
  case True
  then show ?thesis by (simp add: pad_zeros_def)
next
  case False
  let ?m = "(n + 1 + L) mod B"
  have "(n + 1 + L + k) mod B = 0" using assms(2) by (simp add: ac_simps)
  then have "(?m + k) mod B = 0" by (simp only: mod_add_left_eq)
  then obtain q where q: "?m + k = B * q" by (auto simp: mod_eq_0_iff_dvd dvd_def)
  have "q \<noteq> 0" using q False by (intro notI) simp
  then have "B \<le> ?m + k" using q by simp
  moreover have "pad_zeros B L n \<le> B - ?m" by (simp add: pad_zeros_def)
  ultimately show ?thesis by linarith
qed

lemma pad_zeros_eqI:
  assumes "k < B" and "(n + 1 + k + L) mod B = 0"
  shows "pad_zeros B L n = k"
proof -
  have B: "0 < B" using assms(1) by simp
  let ?p = "pad_zeros B L n"
  have "?p \<le> k" by (rule pad_zeros_least [OF B assms(2)])
  moreover have "B dvd (n + 1 + k + L) - (n + 1 + ?p + L)"
    by (rule dvd_diff_nat) (simp_all only: dvd_eq_mod_eq_0 assms(2) pad_zeros_fill [OF B])
  ultimately have "B dvd k - ?p" by (simp add: ac_simps)
  moreover have "k - ?p < B" using assms(1) by simp
  ultimately have "k - ?p = 0" by (metis gr0I nat_dvd_not_less)
  then show ?thesis using \<open>?p \<le> k\<close> by simp
qed

lemma pad_mod: "0 < B \<Longrightarrow> pad_zeros B L (n mod B) = pad_zeros B L n"
proof -
  assume "0 < B"
  have "(n mod B + 1 + L) mod B = (n + 1 + L) mod B" by (simp only: mod_add_left_eq add.assoc)
  then show ?thesis by (simp only: pad_zeros_def)
qed

section \<open>Absorbing a stream\<close>

text \<open>
  The steps a context goes through while data arrives and when the digest is closed, over the block
  size, the transform, and the access to the buffer of the context.
\<close>

definition put_bytes :: "nat \<Rightarrow> 'a list \<Rightarrow> 'a list \<Rightarrow> 'a list" where
  "put_bytes off bs buf = take off buf @ bs @ drop (off + length bs) buf"

fun eat_blocks :: "nat \<Rightarrow> ('c \<Rightarrow> u8 list \<Rightarrow> 'c) \<Rightarrow> 'c \<Rightarrow> u8 list \<Rightarrow> 'c \<times> u8 list" where
  "eat_blocks B tr c p =
     (if 0 < B \<and> B \<le> length p then eat_blocks B tr (tr c (take B p)) (drop B p) else (c, p))"

declare eat_blocks.simps [simp del]

definition stream_absorb ::
  "nat \<Rightarrow> ('c \<Rightarrow> u8 list \<Rightarrow> 'c) \<Rightarrow> ((u8 list \<Rightarrow> u8 list) \<Rightarrow> 'c \<Rightarrow> 'c) \<Rightarrow> u8 list \<Rightarrow> 'c \<Rightarrow> 'c" where
  "stream_absorb B tr upd p c =
     (let (c, p) = eat_blocks B tr c p in if p \<noteq> [] then upd (put_bytes 0 p) c else c)"

definition stream_update ::
  "nat \<Rightarrow> ('c \<Rightarrow> u8 list \<Rightarrow> 'c) \<Rightarrow> ('c \<Rightarrow> u8 list) \<Rightarrow> ((u8 list \<Rightarrow> u8 list) \<Rightarrow> 'c \<Rightarrow> 'c) \<Rightarrow>
   nat \<Rightarrow> u8 list \<Rightarrow> 'c \<Rightarrow> 'c" where
  "stream_update B tr buf upd used p c =
     (if used = 0 then stream_absorb B tr upd p c
      else if length p < B - used then upd (put_bytes used p) c
      else let c = upd (put_bytes used (take (B - used) p)) c
           in stream_absorb B tr upd (drop (B - used) p) (tr c (buf c)))"

definition stream_finish ::
  "nat \<Rightarrow> nat \<Rightarrow> ('c \<Rightarrow> u8 list \<Rightarrow> 'c) \<Rightarrow> ('c \<Rightarrow> u8 list) \<Rightarrow> ((u8 list \<Rightarrow> u8 list) \<Rightarrow> 'c \<Rightarrow> 'c) \<Rightarrow>
   nat \<Rightarrow> u8 list \<Rightarrow> 'c \<Rightarrow> 'c" where
  "stream_finish B E tr buf upd used lenb c =
     (let c = upd (\<lambda>b. b[used := 0x80]) c;
          used = Suc used;
          (c, used) =
            (if E < used then let c = upd (put_bytes used (replicate (B - used) 0)) c in (tr c (buf c), 0)
             else (c, used));
          c = upd (put_bytes used (replicate (E - used) 0)) c;
          c = upd (put_bytes E lenb) c
      in tr c (buf c))"

text \<open>The context has absorbed a message: its full blocks are in the state, the rest is in the buffer.\<close>

definition absorbed ::
  "nat \<Rightarrow> ('c \<Rightarrow> 's) \<Rightarrow> ('s \<Rightarrow> u8 list \<Rightarrow> 's) \<Rightarrow> ('c \<Rightarrow> u8 list) \<Rightarrow> 's \<Rightarrow> u8 list \<Rightarrow> 'c \<Rightarrow> bool" where
  "absorbed B st f buf s0 msg c \<longleftrightarrow>
     st c = foldl f s0 (blocks B msg) \<and> length (buf c) = B \<and>
     take (length msg mod B) (buf c) = rest B msg"

lemma length_put_bytes: "off + length bs \<le> length buf \<Longrightarrow> length (put_bytes off bs buf) = length buf"
  by (simp add: put_bytes_def)

lemma put_bytes_prefix:
  "off \<le> length buf \<Longrightarrow> take (off + length bs) (put_bytes off bs buf) = take off buf @ bs"
  by (simp add: put_bytes_def min_absorb2)

lemma put_bytes_to_end:
  "off + length bs = length buf \<Longrightarrow> put_bytes off bs buf = take off buf @ bs"
  by (simp add: put_bytes_def)

lemma put_bytes_append:
  "length xs = off \<Longrightarrow> length bs = length ys \<Longrightarrow> put_bytes off bs (xs @ ys) = xs @ bs"
  by (simp add: put_bytes_def)

locale block_digest =
  fixes B :: nat
    and tr :: "'c \<Rightarrow> u8 list \<Rightarrow> 'c"
    and st :: "'c \<Rightarrow> 's"
    and f :: "'s \<Rightarrow> u8 list \<Rightarrow> 's"
    and buf :: "'c \<Rightarrow> u8 list"
    and upd :: "(u8 list \<Rightarrow> u8 list) \<Rightarrow> 'c \<Rightarrow> 'c"
    and cnt :: "'c \<Rightarrow> 'n"
  assumes B_pos: "0 < B"
    and st_tr: "length b = B \<Longrightarrow> st (tr c b) = f (st c) b"
    and buf_tr: "buf (tr c b) = buf c"
    and st_upd: "st (upd g c) = st c"
    and buf_upd: "buf (upd g c) = g (buf c)"
    and cnt_tr: "cnt (tr c b) = cnt c"
    and cnt_upd: "cnt (upd g c) = cnt c"
begin

lemma eat_blocks_cnt: "eat_blocks B tr c p = (d, q) \<Longrightarrow> cnt d = cnt c"
proof (induction "length p" arbitrary: c p rule: less_induct)
  case less
  show ?case
  proof (cases "B \<le> length p")
    case True
    then have "eat_blocks B tr (tr c (take B p)) (drop B p) = (d, q)"
      using less.prems B_pos by (subst (asm) eat_blocks.simps) simp
    then have "cnt d = cnt (tr c (take B p))" using True B_pos by (intro less.hyps) auto
    then show ?thesis by (simp add: cnt_tr)
  next
    case False
    then show ?thesis using less.prems by (subst (asm) eat_blocks.simps) simp
  qed
qed

lemma stream_absorb_cnt: "cnt (stream_absorb B tr upd p c) = cnt c"
  by (auto simp: stream_absorb_def cnt_upd split: prod.splits dest: eat_blocks_cnt)

lemma stream_update_cnt: "cnt (stream_update B tr buf upd used p c) = cnt c"
  by (simp add: stream_update_def stream_absorb_cnt cnt_upd cnt_tr Let_def)

lemma eat_blocks_state:
  "eat_blocks B tr c p = (d, q) \<Longrightarrow> st d = foldl f (st c) (blocks B p) \<and> buf d = buf c \<and> q = rest B p"
proof (induction "length p" arbitrary: c p rule: less_induct)
  case less
  show ?case
  proof (cases "B \<le> length p")
    case True
    then have "eat_blocks B tr (tr c (take B p)) (drop B p) = (d, q)"
      using less.prems B_pos by (subst (asm) eat_blocks.simps) simp
    then have "st d = foldl f (st (tr c (take B p))) (blocks B (drop B p)) \<and>
        buf d = buf (tr c (take B p)) \<and> q = rest B (drop B p)"
      using True B_pos by (intro less.hyps) auto
    then show ?thesis using True B_pos by (simp add: st_tr buf_tr blocks_step rest_step)
  next
    case False
    then show ?thesis
      using less.prems by (subst (asm) eat_blocks.simps) (simp add: blocks_short rest_short)
  qed
qed

lemma stream_absorb_state:
  "st (stream_absorb B tr upd p c) = foldl f (st c) (blocks B p)"
  "buf (stream_absorb B tr upd p c) = put_bytes 0 (rest B p) (buf c)"
proof -
  obtain d q where dq: "eat_blocks B tr c p = (d, q)" by fastforce
  note facts = eat_blocks_state [OF dq]
  show "st (stream_absorb B tr upd p c) = foldl f (st c) (blocks B p)"
    using facts by (simp add: stream_absorb_def dq st_upd)
  show "buf (stream_absorb B tr upd p c) = put_bytes 0 (rest B p) (buf c)"
    using facts by (simp add: stream_absorb_def dq buf_upd put_bytes_def)
qed

lemma absorbed_absorb:
  assumes "absorbed B st f buf s0 msg c" and "length msg mod B = 0"
  shows "absorbed B st f buf s0 (msg @ p) (stream_absorb B tr upd p c)"
proof -
  have rest: "rest B msg = []" using assms(2) by (rule rest_Nil)
  have "length (rest B p) \<le> B" using B_pos by (simp add: length_rest less_imp_le)
  moreover have "length (msg @ p) mod B = length (rest B p)"
    using assms(2) by (simp add: length_rest) (metis add_0 mod_add_left_eq)
  ultimately show ?thesis
    using assms rest B_pos
    by (simp add: absorbed_def stream_absorb_state blocks_append [of B msg] rest_append [of B msg]
        length_put_bytes put_bytes_def)
qed

lemma absorbed_short:
  assumes "absorbed B st f buf s0 msg c" and "length p < B - length msg mod B"
  shows "absorbed B st f buf s0 (msg @ p) (upd (put_bytes (length msg mod B) p) c)"
proof -
  let ?u = "length msg mod B"
  have len: "length (rest B msg @ p) < B" using assms(2) by (simp add: length_rest)
  have "(length msg + length p) mod B = (?u + length p) mod B" by (simp add: mod_add_left_eq)
  also have "\<dots> = ?u + length p" using len by (simp add: length_rest)
  finally have mod: "(length msg + length p) mod B = ?u + length p" .
  show ?thesis
    using assms len B_pos
    by (simp add: absorbed_def st_upd buf_upd length_put_bytes put_bytes_prefix mod length_rest
        blocks_append [of B msg] rest_append [of B msg] blocks_short rest_short)
qed

lemma absorbed_fill:
  assumes "absorbed B st f buf s0 msg c" and "length msg mod B + length p = B"
    and d: "d = upd (put_bytes (length msg mod B) p) c"
  shows "absorbed B st f buf s0 (msg @ p) (tr d (buf d))" and "length (msg @ p) mod B = 0"
proof -
  have bd: "buf d = rest B msg @ p"
    using assms by (simp add: absorbed_def buf_upd put_bytes_to_end)
  have len: "length (rest B msg @ p) = B" using assms(2) by (simp add: length_rest)
  show mod: "length (msg @ p) mod B = 0"
    using assms(2) by simp (metis mod_add_left_eq mod_self)
  have "blocks B (rest B msg @ p) = [rest B msg @ p]"
    using blocks_full [OF B_pos len, of "[]"] B_pos by (simp add: blocks_short)
  moreover have "st d = st c" by (simp add: d st_upd)
  ultimately show "absorbed B st f buf s0 (msg @ p) (tr d (buf d))"
    using assms(1) bd len mod rest_Nil [OF mod] B_pos
    by (simp add: absorbed_def st_tr buf_tr blocks_append [of B msg])
qed

lemma absorbed_update:
  assumes "absorbed B st f buf s0 msg c" and used: "used = length msg mod B"
  shows "absorbed B st f buf s0 (msg @ p) (stream_update B tr buf upd used p c)"
proof (cases "used = 0 \<or> length p < B - used")
  case True
  then show ?thesis
    using absorbed_absorb [OF assms(1)] absorbed_short [OF assms(1)] used
    by (auto simp: stream_update_def)
next
  case False
  let ?d = "upd (put_bytes used (take (B - used) p)) c"
  have "length msg mod B + length (take (B - used) p) = B"
    using False used B_pos mod_less_divisor [of B "length msg"] by simp
  note fill = absorbed_fill [OF assms(1) this, folded used, OF refl]
  show ?thesis
    using absorbed_absorb [OF fill, of "drop (B - used) p"] False
    by (simp add: stream_update_def Let_def)
qed

lemma finish_state:
  assumes "absorbed B st f buf s0 msg c" and used: "used = length msg mod B"
    and E: "E < B" and lenb: "length lenb = B - E"
  shows "st (stream_finish B E tr buf upd used lenb c) = foldl f s0 (blocks B (pad B lenb msg))"
proof -
  let ?r = "rest B msg" and ?k = "pad_zeros B (length lenb) (length msg)"
  have u: "length ?r = used" "used < B" using used B_pos by (simp_all add: length_rest)
  have c: "st c = foldl f s0 (blocks B msg)" "length (buf c) = B" "take used (buf c) = ?r"
    using assms(1) used by (simp_all add: absorbed_def)
  have marked: "take (Suc used) ((buf c)[used := 0x80]) = ?r @ [0x80]"
    using c u by (simp add: take_Suc_conv_app_nth)
  have k: "?k = pad_zeros B (B - E) used" using used lenb pad_mod [OF B_pos] by simp
  have split: "blocks B (pad B lenb msg) =
      blocks B msg @ blocks B (?r @ [0x80] @ replicate ?k 0 @ lenb)"
    using B_pos by (simp add: pad_def blocks_append [of B msg])
  show ?thesis
  proof (cases "E < Suc used")
    case False
    then have "?k = E - Suc used" using k u E by (auto intro: pad_zeros_eqI)
    moreover from this have "blocks B (?r @ [0x80] @ replicate ?k 0 @ lenb) =
        [?r @ [0x80] @ replicate ?k 0 @ lenb]"
      using blocks_full [OF B_pos, of "?r @ [0x80] @ replicate ?k 0 @ lenb" "[]"] False u E lenb B_pos
      by (simp add: blocks_short)
    moreover have "put_bytes E lenb (put_bytes (Suc used) (replicate (E - Suc used) 0) ((buf c)[used := 0x80])) =
        ?r @ [0x80] @ replicate (E - Suc used) 0 @ lenb"
    proof -
      have "put_bytes (Suc used) (replicate (E - Suc used) 0) ((buf c)[used := 0x80]) =
          ?r @ [0x80] @ replicate (E - Suc used) 0 @ drop E (buf c)"
        using False u marked by (simp add: put_bytes_def)
      then show ?thesis
        using put_bytes_append [of "?r @ [0x80] @ replicate (E - Suc used) 0" E lenb "drop E (buf c)"]
          False u E lenb c by simp
    qed
    ultimately show ?thesis
      using False u E lenb c
      by (simp add: stream_finish_def split st_tr st_upd buf_upd)
  next
    case True
    let ?b1 = "?r @ [0x80] @ replicate (B - Suc used) 0" and ?b2 = "replicate E 0 @ lenb"
    have "(used + 1 + (B - Suc used + E) + (B - E)) mod B = 0"
      using u E by (simp add: mult_2 [symmetric])
    then have "?k = B - Suc used + E" using k u E True by (auto intro: pad_zeros_eqI)
    then have tail: "?r @ [0x80] @ replicate ?k 0 @ lenb = ?b1 @ ?b2"
      by (simp add: replicate_add)
    have bs: "blocks B (?b1 @ ?b2) = [?b1, ?b2]"
      using blocks_full [OF B_pos, of ?b1 ?b2] blocks_full [OF B_pos, of ?b2 "[]"] u E lenb B_pos
      by (simp add: blocks_short)
    have padded: "blocks B (pad B lenb msg) = blocks B msg @ [?b1, ?b2]"
      by (simp only: split tail bs)
    have b1: "put_bytes (Suc used) (replicate (B - Suc used) 0) ((buf c)[used := 0x80]) = ?b1"
      using u c marked by (simp add: put_bytes_to_end)
    have b2: "put_bytes E lenb (put_bytes 0 (replicate E 0) ?b1) = ?b2"
      using u E lenb by (simp add: put_bytes_def)
    show ?thesis
      using True u E lenb c
      by (simp add: stream_finish_def padded b1 b2 st_tr st_upd buf_upd buf_tr
          del: append_assoc append.simps)
  qed
qed

end

end
