(* ===== verification/Sha2.thy ===== *)
theory Sha2
  imports Align_Math Block_Stream
begin

text \<open>
  The SHA-2 digests of \<^verbatim>\<open>src/misc/sha2.c\<close>. The data a call reads through a pointer and a length is the
  list of those bytes; \<^verbatim>\<open>memcpy\<close> and \<^verbatim>\<open>memset\<close> into the buffer of a context overwrite a segment of a
  list. The words of a block are loaded as the little-endian RISC-V does and swapped by
  \<^verbatim>\<open>be32_to_cpu\<close> and \<^verbatim>\<open>be64_to_cpu\<close>.
\<close>

section \<open>Contexts\<close>

record sha256_ctx =
  state256 :: "u32 list"
  count256 :: u64
  buf256 :: "u8 list"

record sha512_ctx =
  state512 :: "u64 list"
  count512_lo :: u64
  count512_hi :: u64
  buf512 :: "u8 list"

section \<open>Constants\<close>

text \<open>The round constants, row by row as the tables of \<^verbatim>\<open>sha2.c\<close> are laid out.\<close>

definition sha256_k :: "u32 list" where
  "sha256_k = concat
    [[0x428a2f98, 0x71374491, 0xb5c0fbcf, 0xe9b5dba5, 0x3956c25b, 0x59f111f1],
     [0x923f82a4, 0xab1c5ed5, 0xd807aa98, 0x12835b01, 0x243185be, 0x550c7dc3],
     [0x72be5d74, 0x80deb1fe, 0x9bdc06a7, 0xc19bf174, 0xe49b69c1, 0xefbe4786],
     [0x0fc19dc6, 0x240ca1cc, 0x2de92c6f, 0x4a7484aa, 0x5cb0a9dc, 0x76f988da],
     [0x983e5152, 0xa831c66d, 0xb00327c8, 0xbf597fc7, 0xc6e00bf3, 0xd5a79147],
     [0x06ca6351, 0x14292967, 0x27b70a85, 0x2e1b2138, 0x4d2c6dfc, 0x53380d13],
     [0x650a7354, 0x766a0abb, 0x81c2c92e, 0x92722c85, 0xa2bfe8a1, 0xa81a664b],
     [0xc24b8b70, 0xc76c51a3, 0xd192e819, 0xd6990624, 0xf40e3585, 0x106aa070],
     [0x19a4c116, 0x1e376c08, 0x2748774c, 0x34b0bcb5, 0x391c0cb3, 0x4ed8aa4a],
     [0x5b9cca4f, 0x682e6ff3, 0x748f82ee, 0x78a5636f, 0x84c87814, 0x8cc70208],
     [0x90befffa, 0xa4506ceb, 0xbef9a3f7, 0xc67178f2]]"

definition sha512_k :: "u64 list" where
  "sha512_k = concat
    [[0x428a2f98d728ae22, 0x7137449123ef65cd, 0xb5c0fbcfec4d3b2f],
     [0xe9b5dba58189dbbc, 0x3956c25bf348b538, 0x59f111f1b605d019],
     [0x923f82a4af194f9b, 0xab1c5ed5da6d8118, 0xd807aa98a3030242],
     [0x12835b0145706fbe, 0x243185be4ee4b28c, 0x550c7dc3d5ffb4e2],
     [0x72be5d74f27b896f, 0x80deb1fe3b1696b1, 0x9bdc06a725c71235],
     [0xc19bf174cf692694, 0xe49b69c19ef14ad2, 0xefbe4786384f25e3],
     [0x0fc19dc68b8cd5b5, 0x240ca1cc77ac9c65, 0x2de92c6f592b0275],
     [0x4a7484aa6ea6e483, 0x5cb0a9dcbd41fbd4, 0x76f988da831153b5],
     [0x983e5152ee66dfab, 0xa831c66d2db43210, 0xb00327c898fb213f],
     [0xbf597fc7beef0ee4, 0xc6e00bf33da88fc2, 0xd5a79147930aa725],
     [0x06ca6351e003826f, 0x142929670a0e6e70, 0x27b70a8546d22ffc],
     [0x2e1b21385c26c926, 0x4d2c6dfc5ac42aed, 0x53380d139d95b3df],
     [0x650a73548baf63de, 0x766a0abb3c77b2a8, 0x81c2c92e47edaee6],
     [0x92722c851482353b, 0xa2bfe8a14cf10364, 0xa81a664bbc423001],
     [0xc24b8b70d0f89791, 0xc76c51a30654be30, 0xd192e819d6ef5218],
     [0xd69906245565a910, 0xf40e35855771202a, 0x106aa07032bbd1b8],
     [0x19a4c116b8d2d0c8, 0x1e376c085141ab53, 0x2748774cdf8eeb99],
     [0x34b0bcb5e19b48a8, 0x391c0cb3c5c95a63, 0x4ed8aa4ae3418acb],
     [0x5b9cca4f7763e373, 0x682e6ff3d6b2b8a3, 0x748f82ee5defb2fc],
     [0x78a5636f43172f60, 0x84c87814a1f0ab72, 0x8cc702081a6439ec],
     [0x90befffa23631e28, 0xa4506cebde82bde9, 0xbef9a3f7b2c67915],
     [0xc67178f2e372532b, 0xca273eceea26619c, 0xd186b8c721c0c207],
     [0xeada7dd6cde0eb1e, 0xf57d4f7fee6ed178, 0x06f067aa72176fba],
     [0x0a637dc5a2c898a6, 0x113f9804bef90dae, 0x1b710b35131c471b],
     [0x28db77f523047d84, 0x32caab7b40c72493, 0x3c9ebe0a15c9bebc],
     [0x431d67c49c100d4c, 0x4cc5d4becb3e42b6, 0x597f299cfc657e2a],
     [0x5fcb6fab3ad6faec, 0x6c44198c4a475817]]"

definition sha224_init_state :: "u32 list" where
  "sha224_init_state =
    [0xc1059ed8, 0x367cd507, 0x3070dd17, 0xf70e5939, 0xffc00b31, 0x68581511,
     0x64f98fa7, 0xbefa4fa4]"

definition sha256_init_state :: "u32 list" where
  "sha256_init_state =
    [0x6a09e667, 0xbb67ae85, 0x3c6ef372, 0xa54ff53a, 0x510e527f, 0x9b05688c,
     0x1f83d9ab, 0x5be0cd19]"

definition sha384_init_state :: "u64 list" where
  "sha384_init_state =
    [0xcbbb9d5dc1059ed8, 0x629a292a367cd507, 0x9159015a3070dd17, 0x152fecd8f70e5939,
     0x67332667ffc00b31, 0x8eb44a8768581511, 0xdb0c2e0d64f98fa7, 0x47b5481dbefa4fa4]"

definition sha512_init_state :: "u64 list" where
  "sha512_init_state =
    [0x6a09e667f3bcc908, 0xbb67ae8584caa73b, 0x3c6ef372fe94f82b, 0xa54ff53a5f1d36f1,
     0x510e527fade682d1, 0x9b05688c2b3e6c1f, 0x1f83d9abfb41bd6b, 0x5be0cd19137e2179]"

section \<open>Macros\<close>

definition ROTR32 :: "u32 \<Rightarrow> nat \<Rightarrow> u32" where
  "ROTR32 x n = drop_bit n x OR push_bit (32 - n) x"

definition CH32 :: "u32 \<Rightarrow> u32 \<Rightarrow> u32 \<Rightarrow> u32" where
  "CH32 x y z = (x AND y) XOR (NOT x AND z)"

definition MAJ32 :: "u32 \<Rightarrow> u32 \<Rightarrow> u32 \<Rightarrow> u32" where
  "MAJ32 x y z = (x AND y) XOR (x AND z) XOR (y AND z)"

definition EP0_32 :: "u32 \<Rightarrow> u32" where
  "EP0_32 x = ROTR32 x 2 XOR ROTR32 x 13 XOR ROTR32 x 22"

definition EP1_32 :: "u32 \<Rightarrow> u32" where
  "EP1_32 x = ROTR32 x 6 XOR ROTR32 x 11 XOR ROTR32 x 25"

definition SIG0_32 :: "u32 \<Rightarrow> u32" where
  "SIG0_32 x = ROTR32 x 7 XOR ROTR32 x 18 XOR drop_bit 3 x"

definition SIG1_32 :: "u32 \<Rightarrow> u32" where
  "SIG1_32 x = ROTR32 x 17 XOR ROTR32 x 19 XOR drop_bit 10 x"

definition ROTR64 :: "u64 \<Rightarrow> nat \<Rightarrow> u64" where
  "ROTR64 x n = drop_bit n x OR push_bit (64 - n) x"

definition CH64 :: "u64 \<Rightarrow> u64 \<Rightarrow> u64 \<Rightarrow> u64" where
  "CH64 x y z = (x AND y) XOR (NOT x AND z)"

definition MAJ64 :: "u64 \<Rightarrow> u64 \<Rightarrow> u64 \<Rightarrow> u64" where
  "MAJ64 x y z = (x AND y) XOR (x AND z) XOR (y AND z)"

definition EP0_64 :: "u64 \<Rightarrow> u64" where
  "EP0_64 x = ROTR64 x 28 XOR ROTR64 x 34 XOR ROTR64 x 39"

definition EP1_64 :: "u64 \<Rightarrow> u64" where
  "EP1_64 x = ROTR64 x 14 XOR ROTR64 x 18 XOR ROTR64 x 41"

definition SIG0_64 :: "u64 \<Rightarrow> u64" where
  "SIG0_64 x = ROTR64 x 1 XOR ROTR64 x 8 XOR drop_bit 7 x"

definition SIG1_64 :: "u64 \<Rightarrow> u64" where
  "SIG1_64 x = ROTR64 x 19 XOR ROTR64 x 61 XOR drop_bit 6 x"

section \<open>Memory of a block\<close>

text \<open>\<^verbatim>\<open>((const u32 *)data)[i]\<close> and \<^verbatim>\<open>((const u64 *)data)[i]\<close>, least significant byte first.\<close>

definition load_le :: "u8 list \<Rightarrow> 'a::len word" where
  "load_le bs = foldr (\<lambda>b w. push_bit 8 w OR ucast b) bs 0"

definition load32 :: "u8 list \<Rightarrow> nat \<Rightarrow> u32" where
  "load32 bs i = load_le (take 4 (drop (4 * i) bs))"

definition load64 :: "u8 list \<Rightarrow> nat \<Rightarrow> u64" where
  "load64 bs i = load_le (take 8 (drop (8 * i) bs))"

definition be32_bytes :: "u32 \<Rightarrow> u8 list" where
  "be32_bytes s = [ucast (drop_bit 24 s), ucast (drop_bit 16 s), ucast (drop_bit 8 s), ucast s]"

definition be64_bytes :: "u64 \<Rightarrow> u8 list" where
  "be64_bytes s =
     [ucast (drop_bit 56 s), ucast (drop_bit 48 s), ucast (drop_bit 40 s), ucast (drop_bit 32 s),
      ucast (drop_bit 24 s), ucast (drop_bit 16 s), ucast (drop_bit 8 s), ucast s]"

section \<open>The SHA-256 family\<close>

text \<open>The array \<open>w\<close> is filled from its start, so a list that grows to its 64 entries stands for it.\<close>

definition sha256_schedule :: "u8 list \<Rightarrow> u32 list" where
  "sha256_schedule data =
     fold (\<lambda>i w. w @ [SIG1_32 (w ! (i - 2)) + w ! (i - 7) + SIG0_32 (w ! (i - 15)) + w ! (i - 16)])
       [16..<64] (map (\<lambda>i. be32_to_cpu (load32 data i)) [0..<16])"

type_synonym vars256 = "u32 \<times> u32 \<times> u32 \<times> u32 \<times> u32 \<times> u32 \<times> u32 \<times> u32"

definition sha256_round :: "u32 list \<Rightarrow> nat \<Rightarrow> vars256 \<Rightarrow> vars256" where
  "sha256_round w i = (\<lambda>(a, b, c, d, e, f, g, h).
     let t1 = h + EP1_32 e + CH32 e f g + sha256_k ! i + w ! i;
         t2 = EP0_32 a + MAJ32 a b c
     in (t1 + t2, a, b, c, d + t1, e, f, g))"

definition sha256_transform :: "sha256_ctx \<Rightarrow> u8 list \<Rightarrow> sha256_ctx" where
  "sha256_transform ctx data =
     (let w = sha256_schedule data;
          s = state256 ctx;
          (a, b, c, d, e, f, g, h) =
            fold (sha256_round w) [0..<64] (s ! 0, s ! 1, s ! 2, s ! 3, s ! 4, s ! 5, s ! 6, s ! 7)
      in ctx\<lparr>state256 := [s ! 0 + a, s ! 1 + b, s ! 2 + c, s ! 3 + d,
                          s ! 4 + e, s ! 5 + f, s ! 6 + g, s ! 7 + h]\<rparr>)"

fun sha256_blocks :: "sha256_ctx \<Rightarrow> u8 list \<Rightarrow> sha256_ctx \<times> u8 list" where
  "sha256_blocks ctx p =
     (if 64 \<le> length p then sha256_blocks (sha256_transform ctx (take 64 p)) (drop 64 p) else (ctx, p))"

declare sha256_blocks.simps [simp del]

definition sha256_absorb :: "sha256_ctx \<Rightarrow> u8 list \<Rightarrow> sha256_ctx" where
  "sha256_absorb ctx p =
     (let (ctx, p) = sha256_blocks ctx p
      in if p \<noteq> [] then ctx\<lparr>buf256 := put_bytes 0 p (buf256 ctx)\<rparr> else ctx)"

definition sha256_update :: "sha256_ctx \<Rightarrow> u8 list \<Rightarrow> sha256_ctx" where
  "sha256_update ctx data =
     (let buf_used = unat (count256 ctx AND 0x3f);
          ctx = ctx\<lparr>count256 := count256 ctx + of_nat (length data)\<rparr>
      in if buf_used \<noteq> 0 then
           (let buf_avail = 64 - buf_used
            in if length data < buf_avail
               then ctx\<lparr>buf256 := put_bytes buf_used data (buf256 ctx)\<rparr>
               else let ctx = ctx\<lparr>buf256 := put_bytes buf_used (take buf_avail data) (buf256 ctx)\<rparr>;
                        ctx = sha256_transform ctx (buf256 ctx)
                    in sha256_absorb ctx (drop buf_avail data))
         else sha256_absorb ctx data)"

definition sha256_final :: "sha256_ctx \<Rightarrow> u8 list \<times> sha256_ctx" where
  "sha256_final ctx =
     (let buf_used = unat (count256 ctx AND 0x3f);
          bit_count = push_bit 3 (count256 ctx);
          ctx = ctx\<lparr>buf256 := (buf256 ctx)[buf_used := 0x80]\<rparr>;
          buf_used = Suc buf_used;
          (ctx, buf_used) =
            (if buf_used > 56
             then let ctx = ctx\<lparr>buf256 := put_bytes buf_used (replicate (64 - buf_used) 0) (buf256 ctx)\<rparr>
                  in (sha256_transform ctx (buf256 ctx), 0)
             else (ctx, buf_used));
          ctx = ctx\<lparr>buf256 := put_bytes buf_used (replicate (56 - buf_used) 0) (buf256 ctx)\<rparr>;
          ctx = ctx\<lparr>buf256 := put_bytes 56 (be64_bytes bit_count) (buf256 ctx)\<rparr>;
          ctx = sha256_transform ctx (buf256 ctx)
      in (concat (map be32_bytes (state256 ctx)), ctx))"

definition sha256_init :: "sha256_ctx \<Rightarrow> sha256_ctx" where
  "sha256_init ctx = ctx\<lparr>state256 := sha256_init_state, count256 := 0\<rparr>"

definition sha224_init :: "sha256_ctx \<Rightarrow> sha256_ctx" where
  "sha224_init ctx = ctx\<lparr>state256 := sha224_init_state, count256 := 0\<rparr>"

definition sha224_update :: "sha256_ctx \<Rightarrow> u8 list \<Rightarrow> sha256_ctx" where
  "sha224_update ctx data = sha256_update ctx data"

definition sha224_final :: "sha256_ctx \<Rightarrow> u8 list \<times> sha256_ctx" where
  "sha224_final ctx = (let (tmp, ctx) = sha256_final ctx in (take 28 tmp, ctx))"

text \<open>The context is an uninitialised local variable: its contents are an argument.\<close>

definition sha224 :: "sha256_ctx \<Rightarrow> u8 list \<Rightarrow> u8 list" where
  "sha224 ctx data = fst (sha224_final (sha224_update (sha224_init ctx) data))"

definition sha256 :: "sha256_ctx \<Rightarrow> u8 list \<Rightarrow> u8 list" where
  "sha256 ctx data = fst (sha256_final (sha256_update (sha256_init ctx) data))"

section \<open>The SHA-512 family\<close>

text \<open>The array \<open>w\<close> is filled from its start, so a list that grows to its 80 entries stands for it.\<close>

definition sha512_schedule :: "u8 list \<Rightarrow> u64 list" where
  "sha512_schedule data =
     fold (\<lambda>i w. w @ [SIG1_64 (w ! (i - 2)) + w ! (i - 7) + SIG0_64 (w ! (i - 15)) + w ! (i - 16)])
       [16..<80] (map (\<lambda>i. be64_to_cpu (load64 data i)) [0..<16])"

type_synonym vars512 = "u64 \<times> u64 \<times> u64 \<times> u64 \<times> u64 \<times> u64 \<times> u64 \<times> u64"

definition sha512_round :: "u64 list \<Rightarrow> nat \<Rightarrow> vars512 \<Rightarrow> vars512" where
  "sha512_round w i = (\<lambda>(a, b, c, d, e, f, g, h).
     let t1 = h + EP1_64 e + CH64 e f g + sha512_k ! i + w ! i;
         t2 = EP0_64 a + MAJ64 a b c
     in (t1 + t2, a, b, c, d + t1, e, f, g))"

definition sha512_transform :: "sha512_ctx \<Rightarrow> u8 list \<Rightarrow> sha512_ctx" where
  "sha512_transform ctx data =
     (let w = sha512_schedule data;
          s = state512 ctx;
          (a, b, c, d, e, f, g, h) =
            fold (sha512_round w) [0..<80] (s ! 0, s ! 1, s ! 2, s ! 3, s ! 4, s ! 5, s ! 6, s ! 7)
      in ctx\<lparr>state512 := [s ! 0 + a, s ! 1 + b, s ! 2 + c, s ! 3 + d,
                          s ! 4 + e, s ! 5 + f, s ! 6 + g, s ! 7 + h]\<rparr>)"

fun sha512_blocks :: "sha512_ctx \<Rightarrow> u8 list \<Rightarrow> sha512_ctx \<times> u8 list" where
  "sha512_blocks ctx p =
     (if 128 \<le> length p then sha512_blocks (sha512_transform ctx (take 128 p)) (drop 128 p) else (ctx, p))"

declare sha512_blocks.simps [simp del]

definition sha512_absorb :: "sha512_ctx \<Rightarrow> u8 list \<Rightarrow> sha512_ctx" where
  "sha512_absorb ctx p =
     (let (ctx, p) = sha512_blocks ctx p
      in if p \<noteq> [] then ctx\<lparr>buf512 := put_bytes 0 p (buf512 ctx)\<rparr> else ctx)"

definition sha512_update :: "sha512_ctx \<Rightarrow> u8 list \<Rightarrow> sha512_ctx" where
  "sha512_update ctx data =
     (let buf_used = unat (count512_lo ctx AND 0x7f);
          ctx = ctx\<lparr>count512_lo := count512_lo ctx + of_nat (length data)\<rparr>;
          ctx = if count512_lo ctx < of_nat (length data)
                then ctx\<lparr>count512_hi := count512_hi ctx + 1\<rparr> else ctx
      in if buf_used \<noteq> 0 then
           (let buf_avail = 128 - buf_used
            in if length data < buf_avail
               then ctx\<lparr>buf512 := put_bytes buf_used data (buf512 ctx)\<rparr>
               else let ctx = ctx\<lparr>buf512 := put_bytes buf_used (take buf_avail data) (buf512 ctx)\<rparr>;
                        ctx = sha512_transform ctx (buf512 ctx)
                    in sha512_absorb ctx (drop buf_avail data))
         else sha512_absorb ctx data)"

definition sha512_final :: "sha512_ctx \<Rightarrow> u8 list \<times> sha512_ctx" where
  "sha512_final ctx =
     (let buf_used = unat (count512_lo ctx AND 0x7f);
          bit_count_low = push_bit 3 (count512_lo ctx);
          bit_count_high = push_bit 3 (count512_hi ctx) OR drop_bit 61 (count512_lo ctx);
          ctx = ctx\<lparr>buf512 := (buf512 ctx)[buf_used := 0x80]\<rparr>;
          buf_used = Suc buf_used;
          (ctx, buf_used) =
            (if buf_used > 112
             then let ctx = ctx\<lparr>buf512 := put_bytes buf_used (replicate (128 - buf_used) 0) (buf512 ctx)\<rparr>
                  in (sha512_transform ctx (buf512 ctx), 0)
             else (ctx, buf_used));
          ctx = ctx\<lparr>buf512 := put_bytes buf_used (replicate (112 - buf_used) 0) (buf512 ctx)\<rparr>;
          ctx = ctx\<lparr>buf512 := put_bytes 112 (be64_bytes bit_count_high @ be64_bytes bit_count_low) (buf512 ctx)\<rparr>;
          ctx = sha512_transform ctx (buf512 ctx)
      in (concat (map be64_bytes (state512 ctx)), ctx))"

definition sha512_init :: "sha512_ctx \<Rightarrow> sha512_ctx" where
  "sha512_init ctx = ctx\<lparr>state512 := sha512_init_state, count512_lo := 0, count512_hi := 0\<rparr>"

definition sha384_init :: "sha512_ctx \<Rightarrow> sha512_ctx" where
  "sha384_init ctx = ctx\<lparr>state512 := sha384_init_state, count512_lo := 0, count512_hi := 0\<rparr>"

definition sha384_update :: "sha512_ctx \<Rightarrow> u8 list \<Rightarrow> sha512_ctx" where
  "sha384_update ctx data = sha512_update ctx data"

definition sha384_final :: "sha512_ctx \<Rightarrow> u8 list \<times> sha512_ctx" where
  "sha384_final ctx = (let (tmp, ctx) = sha512_final ctx in (take 48 tmp, ctx))"

text \<open>The context is an uninitialised local variable: its contents are an argument.\<close>

definition sha384 :: "sha512_ctx \<Rightarrow> u8 list \<Rightarrow> u8 list" where
  "sha384 ctx data = fst (sha384_final (sha384_update (sha384_init ctx) data))"

definition sha512 :: "sha512_ctx \<Rightarrow> u8 list \<Rightarrow> u8 list" where
  "sha512 ctx data = fst (sha512_final (sha512_update (sha512_init ctx) data))"

end
