(* ===== verification/Sha2_Correct.thy ===== *)
theory Sha2_Correct
  imports Sha2
begin

text \<open>
  The digests as FIPS 180-4 defines them, and the lemmas that the code of \<^verbatim>\<open>src/misc/sha2.c\<close>
  computes them: the macros are the rotations and functions of the standard, the transform is the
  compression of one block, and update and final feed it the blocks of the padded message.
\<close>

section \<open>The standard\<close>

text \<open>Big-endian words and bytes.\<close>

definition be_word :: "u8 list \<Rightarrow> 'a::len word" where
  "be_word bs = foldl (\<lambda>w b. push_bit 8 w OR ucast b) 0 bs"

definition be_bytes :: "nat \<Rightarrow> nat \<Rightarrow> u8 list" where
  "be_bytes k n = map (\<lambda>i. of_nat (n div 256 ^ (k - Suc i))) [0..<k]"

text \<open>The functions and the message schedule, for either word size; \<open>M t\<close> is the word \<open>t\<close> of the block.\<close>

definition fips_Ch :: "'a::len word \<Rightarrow> 'a word \<Rightarrow> 'a word \<Rightarrow> 'a word" where
  "fips_Ch x y z = (x AND y) XOR (NOT x AND z)"

definition fips_Maj :: "'a::len word \<Rightarrow> 'a word \<Rightarrow> 'a word \<Rightarrow> 'a word" where
  "fips_Maj x y z = (x AND y) XOR (x AND z) XOR (y AND z)"

definition fips_Sigma :: "nat \<Rightarrow> nat \<Rightarrow> nat \<Rightarrow> 'a::len word \<Rightarrow> 'a word" where
  "fips_Sigma i j k x = word_rotr i x XOR word_rotr j x XOR word_rotr k x"

definition fips_sigma :: "nat \<Rightarrow> nat \<Rightarrow> nat \<Rightarrow> 'a::len word \<Rightarrow> 'a word" where
  "fips_sigma i j k x = word_rotr i x XOR word_rotr j x XOR drop_bit k x"

fun fips_W :: "('a::len word \<Rightarrow> 'a word) \<Rightarrow> ('a word \<Rightarrow> 'a word) \<Rightarrow> (nat \<Rightarrow> 'a word) \<Rightarrow> nat \<Rightarrow> 'a word" where
  "fips_W s0 s1 M t =
     (if t < 16 then M t
      else s1 (fips_W s0 s1 M (t - 2)) + fips_W s0 s1 M (t - 7) + s0 (fips_W s0 s1 M (t - 15)) +
           fips_W s0 s1 M (t - 16))"

declare fips_W.simps [simp del]

type_synonym 'a hvars = "'a word \<times> 'a word \<times> 'a word \<times> 'a word \<times> 'a word \<times> 'a word \<times> 'a word \<times> 'a word"

text \<open>The working variables after \<open>t\<close> rounds.\<close>

primrec fips_vars ::
  "('a::len word \<Rightarrow> 'a word) \<Rightarrow> ('a word \<Rightarrow> 'a word) \<Rightarrow> (nat \<Rightarrow> 'a word) \<Rightarrow> (nat \<Rightarrow> 'a word) \<Rightarrow>
   'a hvars \<Rightarrow> nat \<Rightarrow> 'a hvars" where
  "fips_vars S0 S1 K W H 0 = H"
| "fips_vars S0 S1 K W H (Suc t) =
     (let (a, b, c, d, e, f, g, h) = fips_vars S0 S1 K W H t;
          T1 = h + S1 e + fips_Ch e f g + K t + W t;
          T2 = S0 a + fips_Maj a b c
      in (T1 + T2, a, b, c, d + T1, e, f, g))"

definition hvars :: "'a::len word list \<Rightarrow> 'a hvars" where
  "hvars s = (s ! 0, s ! 1, s ! 2, s ! 3, s ! 4, s ! 5, s ! 6, s ! 7)"

definition add_hvars :: "'a::len word list \<Rightarrow> 'a hvars \<Rightarrow> 'a word list" where
  "add_hvars s = (\<lambda>(a, b, c, d, e, f, g, h).
     [s ! 0 + a, s ! 1 + b, s ! 2 + c, s ! 3 + d, s ! 4 + e, s ! 5 + f, s ! 6 + g, s ! 7 + h])"

definition fips256_block :: "u32 list \<Rightarrow> u8 list \<Rightarrow> u32 list" where
  "fips256_block H data =
     (let W = fips_W (fips_sigma 7 18 3) (fips_sigma 17 19 10) (\<lambda>t. be_word (take 4 (drop (4 * t) data)))
      in add_hvars H (fips_vars (fips_Sigma 2 13 22) (fips_Sigma 6 11 25) ((!) sha256_k) W (hvars H) 64))"

definition fips512_block :: "u64 list \<Rightarrow> u8 list \<Rightarrow> u64 list" where
  "fips512_block H data =
     (let W = fips_W (fips_sigma 1 8 7) (fips_sigma 19 61 6) (\<lambda>t. be_word (take 8 (drop (8 * t) data)))
      in add_hvars H (fips_vars (fips_Sigma 28 34 39) (fips_Sigma 14 18 41) ((!) sha512_k) W (hvars H) 80))"

definition fips_sha256_words :: "u32 list \<Rightarrow> u8 list \<Rightarrow> u32 list" where
  "fips_sha256_words H0 msg =
     foldl fips256_block H0 (blocks 64 (pad 64 (be_bytes 8 (8 * length msg)) msg))"

definition fips_sha512_words :: "u64 list \<Rightarrow> u8 list \<Rightarrow> u64 list" where
  "fips_sha512_words H0 msg =
     foldl fips512_block H0 (blocks 128 (pad 128 (be_bytes 16 (8 * length msg)) msg))"

definition fips_sha224 :: "u8 list \<Rightarrow> u8 list" where
  "fips_sha224 msg =
     concat (map (\<lambda>w. be_bytes 4 (unat w)) (take 7 (fips_sha256_words sha224_init_state msg)))"

definition fips_sha256 :: "u8 list \<Rightarrow> u8 list" where
  "fips_sha256 msg = concat (map (\<lambda>w. be_bytes 4 (unat w)) (fips_sha256_words sha256_init_state msg))"

definition fips_sha384 :: "u8 list \<Rightarrow> u8 list" where
  "fips_sha384 msg =
     concat (map (\<lambda>w. be_bytes 8 (unat w)) (take 6 (fips_sha512_words sha384_init_state msg)))"

definition fips_sha512 :: "u8 list \<Rightarrow> u8 list" where
  "fips_sha512 msg = concat (map (\<lambda>w. be_bytes 8 (unat w)) (fips_sha512_words sha512_init_state msg))"

text \<open>
  The constants are the first bits of the fractional parts of the roots of the first primes: \<open>k\<close> is
  that of the root of \<open>p\<close> whose integer part is \<open>i\<close>.
\<close>

definition frac_root :: "int \<Rightarrow> nat \<Rightarrow> int \<Rightarrow> int \<Rightarrow> bool" where
  "frac_root m r p k \<longleftrightarrow>
     list_ex (\<lambda>i. (i * m + k) ^ r \<le> p * m ^ r \<and> p * m ^ r < (i * m + k + 1) ^ r) [1..7]"

definition first_primes :: "int list" where
  "first_primes =
    [2, 3, 5, 7, 11, 13, 17, 19, 23, 29, 31, 37, 41, 43, 47, 53, 59, 61, 67, 71, 73, 79, 83, 89, 97, 101,
     103, 107, 109, 113, 127, 131, 137, 139, 149, 151, 157, 163, 167, 173, 179, 181, 191, 193, 197, 199,
     211, 223, 227, 229, 233, 239, 241, 251, 257, 263, 269, 271, 277, 281, 283, 293, 307, 311, 313, 317,
     331, 337, 347, 349, 353, 359, 367, 373, 379, 383, 389, 397, 401, 409]"

abbreviation (input) "bits32 \<equiv> 4294967296"
abbreviation (input) "bits64 \<equiv> 18446744073709551616"

lemma sha256_init_roots: "list_all2 (frac_root bits32 2) (take 8 first_primes) (map uint sha256_init_state)"
  by code_simp

lemma sha512_init_roots: "list_all2 (frac_root bits64 2) (take 8 first_primes) (map uint sha512_init_state)"
  by code_simp

lemma sha384_init_roots:
  "list_all2 (frac_root bits64 2) (take 8 (drop 8 first_primes)) (map uint sha384_init_state)"
  by code_simp

lemma sha256_k_roots: "list_all2 (frac_root bits32 3) (take 64 first_primes) (map uint sha256_k)"
  by code_simp

lemma sha512_k_roots: "list_all2 (frac_root bits64 3) first_primes (map uint sha512_k)"
  by code_simp

section \<open>Words of a block\<close>

lemma bit_load_le:
  "bit (load_le bs :: 'a::len word) n \<longleftrightarrow>
     n < LENGTH('a) \<and> n div 8 < length bs \<and> bit (bs ! (n div 8)) (n mod 8)"
proof (induction bs arbitrary: n)
  case Nil
  then show ?case by (simp add: load_le_def)
next
  case (Cons b bs)
  have step: "load_le (b # bs) = (push_bit 8 (load_le bs) OR ucast b :: 'a word)" by (simp add: load_le_def)
  show ?case
  proof (cases "n < 8")
    case True
    then show ?thesis by (auto simp: step bit_simps)
  next
    case False
    then have "bit (load_le (b # bs) :: 'a word) n \<longleftrightarrow> n < LENGTH('a) \<and> bit (load_le bs :: 'a word) (n - 8)"
      by (auto simp: step bit_simps bit_imp_le_length dest: bit_imp_le_length)
    moreover have "n div 8 = Suc ((n - 8) div 8)" "(n - 8) mod 8 = n mod 8"
      using False by (simp_all add: le_div_geq le_mod_geq)
    ultimately show ?thesis using Cons.IH [of "n - 8"] by auto
  qed
qed

lemma be_word_rev: "be_word bs = load_le (rev bs)"
  by (simp add: be_word_def load_le_def foldr_conv_fold foldl_conv_fold)

lemma swap32_load_le:
  assumes len: "length bs = 4"
  shows "swap32 (load_le bs) = be_word bs"
proof (rule bit_word_eqI)
  have "list_all (\<lambda>n. bit (swap32 (load_le bs)) n \<longleftrightarrow> bit (be_word bs :: u32) n) [0..<32]"
    by (simp add: upt_rec len bit_swap32 be_word_rev bit_load_le rev_nth flip: numeral_2_eq_2)
  then show "bit (swap32 (load_le bs)) n \<longleftrightarrow> bit (be_word bs :: u32) n" if "n < LENGTH(32)" for n
    using that by (simp only: list_all_iff set_upt atLeastLessThan_iff) simp
qed

lemma swap64_load_le:
  assumes len: "length bs = 8"
  shows "swap64 (load_le bs) = be_word bs"
proof (rule bit_word_eqI)
  have "list_all (\<lambda>n. bit (swap64 (load_le bs)) n \<longleftrightarrow> bit (be_word bs :: u64) n) [0..<64]"
    by (simp add: upt_rec len bit_swap64 be_word_rev bit_load_le rev_nth flip: numeral_2_eq_2)
  then show "bit (swap64 (load_le bs)) n \<longleftrightarrow> bit (be_word bs :: u64) n" if "n < LENGTH(64)" for n
    using that by (simp only: list_all_iff set_upt atLeastLessThan_iff) simp
qed

lemma ucast_drop_bit: "(ucast (drop_bit n x) :: 'b::len word) = of_nat (unat (x :: 'a::len word) div 2 ^ n)"
  by (simp only: ucast_of_unat unat_drop_bit)

lemma be_bytes_4: "be32_bytes = (\<lambda>w. be_bytes 4 (unat w))"
  by (simp add: fun_eq_iff be32_bytes_def be_bytes_def ucast_drop_bit upt_rec)

lemma be_bytes_8: "be64_bytes = (\<lambda>w. be_bytes 8 (unat w))"
  by (simp add: fun_eq_iff be64_bytes_def be_bytes_def ucast_drop_bit upt_rec)

section \<open>Macros\<close>

lemma rotr_macro:
  assumes "n < LENGTH('a)"
  shows "drop_bit n x OR push_bit (LENGTH('a) - n) x = word_rotr n (x :: 'a::len word)"
proof (rule bit_word_eqI)
  fix i assume i: "i < LENGTH('a)"
  show "bit (drop_bit n x OR push_bit (LENGTH('a) - n) x) i \<longleftrightarrow> bit (word_rotr n x) i"
  proof (cases "i + n < LENGTH('a)")
    case True
    then show ?thesis using i by (auto simp: bit_simps ac_simps)
  next
    case False
    then have "(i + n) mod LENGTH('a) = i - (LENGTH('a) - n)" using i assms by (simp add: le_mod_geq)
    then show ?thesis using False i assms by (auto simp: bit_simps ac_simps dest: bit_imp_le_length)
  qed
qed

lemma ROTR32_rotr: "n < 32 \<Longrightarrow> ROTR32 x n = word_rotr n x"
  using rotr_macro [where 'a = 32, of n x] by (simp add: ROTR32_def)

lemma ROTR64_rotr: "n < 64 \<Longrightarrow> ROTR64 x n = word_rotr n x"
  using rotr_macro [where 'a = 64, of n x] by (simp add: ROTR64_def)

lemma macros256:
  "EP0_32 = fips_Sigma 2 13 22" "EP1_32 = fips_Sigma 6 11 25"
  "SIG0_32 = fips_sigma 7 18 3" "SIG1_32 = fips_sigma 17 19 10" "CH32 = fips_Ch" "MAJ32 = fips_Maj"
  by (simp_all add: fun_eq_iff EP0_32_def EP1_32_def SIG0_32_def SIG1_32_def CH32_def MAJ32_def
      ROTR32_rotr fips_Sigma_def fips_sigma_def fips_Ch_def fips_Maj_def)

lemma macros512:
  "EP0_64 = fips_Sigma 28 34 39" "EP1_64 = fips_Sigma 14 18 41"
  "SIG0_64 = fips_sigma 1 8 7" "SIG1_64 = fips_sigma 19 61 6" "CH64 = fips_Ch" "MAJ64 = fips_Maj"
  by (simp_all add: fun_eq_iff EP0_64_def EP1_64_def SIG0_64_def SIG1_64_def CH64_def MAJ64_def
      ROTR64_rotr fips_Sigma_def fips_sigma_def fips_Ch_def fips_Maj_def)

section \<open>The transform\<close>

lemma schedule_loop:
  assumes "16 \<le> n"
  shows "fold (\<lambda>i w. w @ [s1 (w ! (i - 2)) + w ! (i - 7) + s0 (w ! (i - 15)) + w ! (i - 16)]) [16..<n]
      (map M [0..<16]) = map (fips_W s0 s1 M) [0..<n]"
  using assms
proof (induction rule: dec_induct)
  case base
  show ?case by (simp add: fips_W.simps)
next
  case (step n)
  then show ?case by (simp add: fips_W.simps [of s0 s1 M n])
qed

lemma rounds_loop:
  assumes "\<And>t v. t < n \<Longrightarrow> rnd t v =
      (let (a, b, c, d, e, f, g, h) = v;
           T1 = h + S1 e + fips_Ch e f g + K t + W t;
           T2 = S0 a + fips_Maj a b c
       in (T1 + T2, a, b, c, d + T1, e, f, g))"
  shows "fold rnd [0..<n] H = fips_vars S0 S1 K W H n"
  using assms by (induction n) simp_all

lemma sha256_transform_block:
  assumes "length data = 64"
  shows "state256 (sha256_transform ctx data) = fips256_block (state256 ctx) data"
proof -
  let ?W = "fips_W (fips_sigma 7 18 3) (fips_sigma 17 19 10) (\<lambda>t. be_word (take 4 (drop (4 * t) data)) :: u32)"
  have M: "map (\<lambda>i. be32_to_cpu (load32 data i)) [0..<16] =
      map (\<lambda>t. be_word (take 4 (drop (4 * t) data))) [0..<16]"
    using assms by (simp add: load32_def swap32_load_le del: upt_rec_numeral)
  have w: "sha256_schedule data = map ?W [0..<64]"
    unfolding sha256_schedule_def M macros256 by (rule schedule_loop) simp
  have "fold (sha256_round (sha256_schedule data)) [0..<64] (hvars (state256 ctx)) =
      fips_vars (fips_Sigma 2 13 22) (fips_Sigma 6 11 25) ((!) sha256_k) ?W (hvars (state256 ctx)) 64"
    by (rule rounds_loop) (simp add: sha256_round_def macros256 w split: prod.splits)
  then show ?thesis
    by (simp add: sha256_transform_def fips256_block_def hvars_def add_hvars_def Let_def split: prod.splits)
qed

lemma sha512_transform_block:
  assumes "length data = 128"
  shows "state512 (sha512_transform ctx data) = fips512_block (state512 ctx) data"
proof -
  let ?W = "fips_W (fips_sigma 1 8 7) (fips_sigma 19 61 6) (\<lambda>t. be_word (take 8 (drop (8 * t) data)) :: u64)"
  have M: "map (\<lambda>i. be64_to_cpu (load64 data i)) [0..<16] =
      map (\<lambda>t. be_word (take 8 (drop (8 * t) data))) [0..<16]"
    using assms by (simp add: load64_def swap64_load_le del: upt_rec_numeral)
  have w: "sha512_schedule data = map ?W [0..<80]"
    unfolding sha512_schedule_def M macros512 by (rule schedule_loop) simp
  have "fold (sha512_round (sha512_schedule data)) [0..<80] (hvars (state512 ctx)) =
      fips_vars (fips_Sigma 28 34 39) (fips_Sigma 14 18 41) ((!) sha512_k) ?W (hvars (state512 ctx)) 80"
    by (rule rounds_loop) (simp add: sha512_round_def macros512 w split: prod.splits)
  then show ?thesis
    by (simp add: sha512_transform_def fips512_block_def hvars_def add_hvars_def Let_def split: prod.splits)
qed

section \<open>The SHA-256 stream\<close>

definition modify_buf256 :: "(u8 list \<Rightarrow> u8 list) \<Rightarrow> sha256_ctx \<Rightarrow> sha256_ctx" where
  "modify_buf256 g ctx = ctx\<lparr>buf256 := g (buf256 ctx)\<rparr>"

interpretation sha256: block_digest 64 sha256_transform state256 fips256_block buf256 modify_buf256 "count256"
  by unfold_locales (simp_all add: sha256_transform_block modify_buf256_def, simp_all add: sha256_transform_def Let_def split: prod.splits)

lemma sha256_blocks_eat: "sha256_blocks ctx p = eat_blocks 64 sha256_transform ctx p"
  by (induction ctx p rule: sha256_blocks.induct)
     (subst sha256_blocks.simps, subst eat_blocks.simps, simp)

lemma sha256_absorb_stream: "sha256_absorb ctx p = stream_absorb 64 sha256_transform modify_buf256 p ctx"
  by (simp add: sha256_absorb_def stream_absorb_def sha256_blocks_eat modify_buf256_def split: prod.splits)

lemma sha256_update_stream:
  "sha256_update ctx data =
     stream_update 64 sha256_transform buf256 modify_buf256 (unat (count256 ctx AND 0x3f)) data
       (ctx\<lparr>count256 := count256 ctx + of_nat (length data)\<rparr>)"
  by (simp add: sha256_update_def modify_buf256_def stream_update_def sha256_absorb_stream Let_def)

lemma sha256_final_stream:
  "sha256_final ctx =
     (let ctx' = stream_finish 64 56 sha256_transform buf256 modify_buf256 (unat (count256 ctx AND 0x3f))
        (be64_bytes (push_bit 3 (count256 ctx))) ctx
      in (concat (map be32_bytes (state256 ctx')), ctx'))"
  by (simp add: sha256_final_def modify_buf256_def stream_finish_def Let_def)

section \<open>The SHA-512 stream\<close>

definition modify_buf512 :: "(u8 list \<Rightarrow> u8 list) \<Rightarrow> sha512_ctx \<Rightarrow> sha512_ctx" where
  "modify_buf512 g ctx = ctx\<lparr>buf512 := g (buf512 ctx)\<rparr>"

interpretation sha512: block_digest 128 sha512_transform state512 fips512_block buf512 modify_buf512 "(\<lambda>c. (count512_lo c, count512_hi c))"
  by unfold_locales (simp_all add: sha512_transform_block modify_buf512_def, simp_all add: sha512_transform_def Let_def split: prod.splits)

lemma sha512_blocks_eat: "sha512_blocks ctx p = eat_blocks 128 sha512_transform ctx p"
  by (induction ctx p rule: sha512_blocks.induct)
     (subst sha512_blocks.simps, subst eat_blocks.simps, simp)

lemma sha512_absorb_stream: "sha512_absorb ctx p = stream_absorb 128 sha512_transform modify_buf512 p ctx"
  by (simp add: sha512_absorb_def stream_absorb_def sha512_blocks_eat modify_buf512_def split: prod.splits)

definition add_count512 :: "nat \<Rightarrow> sha512_ctx \<Rightarrow> sha512_ctx" where
  "add_count512 n ctx =
     (let lo = count512_lo ctx + of_nat n
      in ctx\<lparr>count512_lo := lo, count512_hi := (if lo < of_nat n then count512_hi ctx + 1 else count512_hi ctx)\<rparr>)"

lemma sha512_update_stream:
  "sha512_update ctx data =
     stream_update 128 sha512_transform buf512 modify_buf512 (unat (count512_lo ctx AND 0x7f)) data
       (add_count512 (length data) ctx)"
  by (simp add: sha512_update_def modify_buf512_def stream_update_def sha512_absorb_stream add_count512_def Let_def)

lemma sha512_final_stream:
  "sha512_final ctx =
     (let ctx' = stream_finish 128 112 sha512_transform buf512 modify_buf512 (unat (count512_lo ctx AND 0x7f))
        (be64_bytes (push_bit 3 (count512_hi ctx) OR drop_bit 61 (count512_lo ctx)) @ be64_bytes (push_bit 3 (count512_lo ctx))) ctx
      in (concat (map be64_bytes (state512 ctx')), ctx'))"
  by (simp add: sha512_final_def modify_buf512_def stream_finish_def Let_def)

section \<open>Counts and lengths\<close>

lemma ucast_byte:
  assumes "k + 8 \<le> 64"
  shows "(ucast (drop_bit k (of_nat x :: u64)) :: u8) = of_nat (x div 2 ^ k)"
proof (rule bit_word_eqI)
  fix n assume "n < LENGTH(8)"
  then show "bit (ucast (drop_bit k (of_nat x :: u64)) :: u8) n \<longleftrightarrow> bit (of_nat (x div 2 ^ k) :: u8) n"
    using assms by (simp add: bit_simps bit_of_nat_iff flip: drop_bit_eq_div)
qed

lemma be64_bytes_of_nat: "be64_bytes (of_nat x) = be_bytes 8 x"
  using ucast_byte [of 0 x]
  by (simp add: be64_bytes_def be_bytes_def ucast_byte upt_rec)

lemma be_bytes_16: "be_bytes 16 x = be_bytes 8 (x div 2 ^ 64) @ be_bytes 8 x"
  by (simp add: be_bytes_def upt_rec flip: div_mult2_eq)

lemma bit_length_low: "push_bit 3 (of_nat n :: u64) = of_nat (8 * n)"
  by (simp add: push_bit_eq_mult)

lemma bit_length_high:
  "push_bit 3 (of_nat (n div 2 ^ 64)) OR drop_bit 61 (of_nat n) = (of_nat (8 * n div 2 ^ 64) :: u64)"
proof (rule bit_word_eqI)
  fix i assume i: "i < LENGTH(64)"
  have "8 * n = push_bit 3 n" by (simp add: push_bit_eq_mult)
  then have "bit (8 * n div 2 ^ 64) i \<longleftrightarrow> bit n (61 + i)"
    by (simp only: drop_bit_eq_div [symmetric] bit_drop_bit_eq o_apply) (simp add: bit_push_bit_iff)
  moreover have "bit (n div 2 ^ 64) (i - 3) \<longleftrightarrow> bit n (61 + i)" if "3 \<le> i"
    using that by (simp only: drop_bit_eq_div [symmetric] bit_drop_bit_eq o_apply) simp
  ultimately show "bit (push_bit 3 (of_nat (n div 2 ^ 64)) OR drop_bit 61 (of_nat n) :: u64) i \<longleftrightarrow>
      bit (of_nat (8 * n div 2 ^ 64) :: u64) i"
    using i by (auto simp: bit_simps bit_of_nat_iff)
qed

lemma unat_of_nat_mask:
  assumes "k \<le> 64"
  shows "unat (of_nat n AND mask k :: u64) = n mod 2 ^ k"
proof -
  have "(2::nat) ^ k dvd 2 ^ 64" using assms by (rule le_imp_power_dvd)
  then show ?thesis by (simp add: unat_and_mask unat_of_nat mod_mod_cancel)
qed

lemma carry_div:
  fixes M :: nat
  assumes "m < M"
  shows "(n + m) div M = (if (n + m) mod M < m then Suc (n div M) else n div M)"
proof -
  have r: "n mod M < M" using assms by simp
  have d: "(n + m) div M = n div M + (n mod M + m) div M" using assms by (simp add: div_add1_eq [of n m])
  have e: "(n + m) mod M = (n mod M + m) mod M" by (simp only: mod_add_left_eq)
  show ?thesis
  proof (cases "n mod M + m < M")
    case True
    then show ?thesis using d e by simp
  next
    case False
    moreover have "n mod M + m - M < M" using r assms by linarith
    ultimately have "(n mod M + m) div M = 1" "(n mod M + m) mod M = n mod M + m - M"
      using r assms by (simp_all add: le_div_geq le_mod_geq)
    then show ?thesis using d e r False by simp
  qed
qed

lemma count_carry:
  assumes "m < 2 ^ 64"
  shows "(of_nat ((n + m) div 2 ^ 64) :: u64) =
     (if (of_nat (n + m) :: u64) < of_nat m then of_nat (n div 2 ^ 64) + 1 else of_nat (n div 2 ^ 64))"
proof -
  have "(of_nat (n + m) :: u64) < of_nat m \<longleftrightarrow> (n + m) mod 2 ^ 64 < m"
    using assms by (simp add: word_less_nat_alt unat_of_nat del: of_nat_add)
  then show ?thesis by (simp only: carry_div [OF assms]) simp
qed

section \<open>The streams compute the digests\<close>

definition sha256_rep :: "u32 list \<Rightarrow> u8 list \<Rightarrow> sha256_ctx \<Rightarrow> bool" where
  "sha256_rep H0 msg ctx \<longleftrightarrow>
     absorbed 64 state256 fips256_block buf256 H0 msg ctx \<and> count256 ctx = of_nat (length msg)"

definition sha512_rep :: "u64 list \<Rightarrow> u8 list \<Rightarrow> sha512_ctx \<Rightarrow> bool" where
  "sha512_rep H0 msg ctx \<longleftrightarrow>
     absorbed 128 state512 fips512_block buf512 H0 msg ctx \<and>
     count512_lo ctx = of_nat (length msg) \<and> count512_hi ctx = of_nat (length msg div 2 ^ 64)"

lemma used256: "unat (of_nat n AND 0x3f :: u64) = n mod 64"
  using unat_of_nat_mask [of 6 n] by (simp add: mask_eq_exp_minus_1)

lemma used512: "unat (of_nat n AND 0x7f :: u64) = n mod 128"
  using unat_of_nat_mask [of 7 n] by (simp add: mask_eq_exp_minus_1)

lemma sha256_update_rep:
  assumes "sha256_rep H0 msg ctx"
  shows "sha256_rep H0 (msg @ data) (sha256_update ctx data)"
proof -
  let ?ctx = "ctx\<lparr>count256 := count256 ctx + of_nat (length data)\<rparr>"
  have "absorbed 64 state256 fips256_block buf256 H0 msg ?ctx"
    using assms by (simp add: sha256_rep_def absorbed_def)
  from sha256.absorbed_update [OF this refl, of data] show ?thesis
    using assms by (simp add: sha256_rep_def sha256_update_stream used256 sha256.stream_update_cnt)
qed

lemma sha512_update_rep:
  assumes "sha512_rep H0 msg ctx" and "length data < 2 ^ 64"
  shows "sha512_rep H0 (msg @ data) (sha512_update ctx data)"
proof -
  let ?ctx = "add_count512 (length data) ctx"
  have "absorbed 128 state512 fips512_block buf512 H0 msg ?ctx"
    using assms by (simp add: sha512_rep_def absorbed_def add_count512_def Let_def)
  note step = sha512.absorbed_update [OF this refl, of data]
  have "count512_lo (sha512_update ctx data) = count512_lo ?ctx \<and>
      count512_hi (sha512_update ctx data) = count512_hi ?ctx"
    using sha512.stream_update_cnt [of _ data ?ctx] by (simp add: sha512_update_stream)
  then show ?thesis
    using assms(1) step count_carry [OF assms(2), of "length msg"]
    by (simp add: sha512_rep_def sha512_update_stream used512 add_count512_def Let_def)
qed

lemma sha256_final_rep:
  assumes "sha256_rep H0 msg ctx"
  shows "fst (sha256_final ctx) = concat (map (\<lambda>w. be_bytes 4 (unat w)) (fips_sha256_words H0 msg))"
proof -
  let ?n = "length msg"
  have lenb: "be64_bytes (push_bit 3 (count256 ctx)) = be_bytes 8 (8 * ?n)"
    using assms by (simp only: sha256_rep_def bit_length_low be64_bytes_of_nat)
  have used: "unat (count256 ctx AND 0x3f) = ?n mod 64"
    using assms by (simp add: sha256_rep_def used256)
  have "state256 (stream_finish 64 56 sha256_transform buf256 modify_buf256 (?n mod 64) (be_bytes 8 (8 * ?n)) ctx) =
      fips_sha256_words H0 msg"
    unfolding fips_sha256_words_def
    using assms by (intro sha256.finish_state refl) (simp_all add: sha256_rep_def be_bytes_def)
  then show ?thesis by (simp add: sha256_final_stream lenb used be_bytes_4 Let_def)
qed

lemma sha512_final_rep:
  assumes "sha512_rep H0 msg ctx"
  shows "fst (sha512_final ctx) = concat (map (\<lambda>w. be_bytes 8 (unat w)) (fips_sha512_words H0 msg))"
proof -
  let ?n = "length msg"
  have lenb: "be64_bytes (push_bit 3 (count512_hi ctx) OR drop_bit 61 (count512_lo ctx)) @
      be64_bytes (push_bit 3 (count512_lo ctx)) = be_bytes 16 (8 * ?n)"
  proof -
    have "push_bit 3 (count512_hi ctx) OR drop_bit 61 (count512_lo ctx) = of_nat (8 * ?n div 2 ^ 64)"
      using assms by (simp only: sha512_rep_def bit_length_high)
    moreover have "push_bit 3 (count512_lo ctx) = of_nat (8 * ?n)"
      using assms by (simp only: sha512_rep_def bit_length_low)
    ultimately show ?thesis by (simp only: be64_bytes_of_nat be_bytes_16)
  qed
  have used: "unat (count512_lo ctx AND 0x7f) = ?n mod 128"
    using assms by (simp add: sha512_rep_def used512)
  have "state512 (stream_finish 128 112 sha512_transform buf512 modify_buf512 (?n mod 128) (be_bytes 16 (8 * ?n)) ctx) =
      fips_sha512_words H0 msg"
    unfolding fips_sha512_words_def
    using assms by (intro sha512.finish_state refl) (simp_all add: sha512_rep_def be_bytes_def)
  then have "fst (sha512_final ctx) = concat (map be64_bytes (fips_sha512_words H0 msg))"
    by (simp only: sha512_final_stream lenb used Let_def fst_conv)
  then show ?thesis by (simp only: be_bytes_8)
qed

lemma sha256_stream_rep:
  "sha256_rep H0 msg ctx \<Longrightarrow> sha256_rep H0 (msg @ concat chunks) (fold (\<lambda>p c. sha256_update c p) chunks ctx)"
proof (induction chunks arbitrary: msg ctx)
  case (Cons p ps)
  then show ?case using Cons.IH [OF sha256_update_rep, of msg ctx p] by simp
qed simp

lemma sha512_stream_rep:
  "sha512_rep H0 msg ctx \<Longrightarrow> list_all (\<lambda>p. length p < 2 ^ 64) chunks \<Longrightarrow>
   sha512_rep H0 (msg @ concat chunks) (fold (\<lambda>p c. sha512_update c p) chunks ctx)"
proof (induction chunks arbitrary: msg ctx)
  case (Cons p ps)
  then show ?case using Cons.IH [OF sha512_update_rep, of msg ctx p] by simp
qed simp

lemma sha256_start_rep:
  assumes "length (buf256 ctx) = 64"
  shows "sha256_rep sha256_init_state [] (sha256_init ctx)"
    and "sha256_rep sha224_init_state [] (sha224_init ctx)"
  using assms
  by (simp_all add: sha256_rep_def absorbed_def sha256_init_def sha224_init_def blocks_short rest_short)

lemma sha512_start_rep:
  assumes "length (buf512 ctx) = 128"
  shows "sha512_rep sha512_init_state [] (sha512_init ctx)"
    and "sha512_rep sha384_init_state [] (sha384_init ctx)"
  using assms
  by (simp_all add: sha512_rep_def absorbed_def sha512_init_def sha384_init_def blocks_short rest_short)

lemma take_words: "(\<And>w. length (g w) = k) \<Longrightarrow> take (m * k) (concat (map g ws)) = concat (map g (take m ws))"
proof (induction m arbitrary: ws)
  case (Suc m)
  then show ?case by (cases ws) simp_all
qed simp

lemma sha224_cut:
  "take 28 (concat (map (\<lambda>w. be_bytes 4 (unat w)) ws)) = concat (map (\<lambda>w. be_bytes 4 (unat w)) (take 7 ws))"
  using take_words [of "\<lambda>w. be_bytes 4 (unat w)" 4 7 ws] by (simp add: be_bytes_def)

lemma sha384_cut:
  "take 48 (concat (map (\<lambda>w. be_bytes 8 (unat w)) ws)) = concat (map (\<lambda>w. be_bytes 8 (unat w)) (take 6 ws))"
  using take_words [of "\<lambda>w. be_bytes 8 (unat w)" 8 6 ws] by (simp add: be_bytes_def)

lemma sha256_chunks:
  assumes "length (buf256 ctx) = 64"
  shows "fst (sha256_final (fold (\<lambda>p c. sha256_update c p) chunks (sha256_init ctx))) = fips_sha256 (concat chunks)"
  using sha256_final_rep [OF sha256_stream_rep [OF sha256_start_rep(1) [OF assms]]]
  by (simp add: fips_sha256_def)

lemma sha224_chunks:
  assumes "length (buf256 ctx) = 64"
  shows "fst (sha224_final (fold (\<lambda>p c. sha224_update c p) chunks (sha224_init ctx))) = fips_sha224 (concat chunks)"
proof -
  let ?c = "fold (\<lambda>p c. sha256_update c p) chunks (sha224_init ctx)"
  have "fst (sha256_final ?c) = concat (map (\<lambda>w. be_bytes 4 (unat w)) (fips_sha256_words sha224_init_state (concat chunks)))"
    using sha256_final_rep [OF sha256_stream_rep [OF sha256_start_rep(2) [OF assms]]] by simp
  moreover have "fst (sha224_final ?c) = take 28 (fst (sha256_final ?c))"
    by (simp add: sha224_final_def split: prod.splits)
  ultimately show ?thesis by (simp add: fips_sha224_def sha224_update_def sha224_cut)
qed

lemma sha512_chunks:
  assumes "length (buf512 ctx) = 128" and "list_all (\<lambda>p. length p < 2 ^ 64) chunks"
  shows "fst (sha512_final (fold (\<lambda>p c. sha512_update c p) chunks (sha512_init ctx))) = fips_sha512 (concat chunks)"
  using sha512_final_rep [OF sha512_stream_rep [OF sha512_start_rep(1) [OF assms(1)] assms(2)]]
  by (simp add: fips_sha512_def)

lemma sha384_chunks:
  assumes "length (buf512 ctx) = 128" and "list_all (\<lambda>p. length p < 2 ^ 64) chunks"
  shows "fst (sha384_final (fold (\<lambda>p c. sha384_update c p) chunks (sha384_init ctx))) = fips_sha384 (concat chunks)"
proof -
  let ?c = "fold (\<lambda>p c. sha512_update c p) chunks (sha384_init ctx)"
  have "fst (sha512_final ?c) = concat (map (\<lambda>w. be_bytes 8 (unat w)) (fips_sha512_words sha384_init_state (concat chunks)))"
    using sha512_final_rep [OF sha512_stream_rep [OF sha512_start_rep(2) [OF assms(1)] assms(2)]] by simp
  moreover have "fst (sha384_final ?c) = take 48 (fst (sha512_final ?c))"
    by (simp add: sha384_final_def split: prod.splits)
  ultimately show ?thesis by (simp add: fips_sha384_def sha384_update_def sha384_cut)
qed

end
