(* ===== verification/Digest_Properties.thy ===== *)
theory Digest_Properties
  imports Sha2_Correct
begin

text \<open>
  What \<^verbatim>\<open>src/misc/sha2.c\<close> promises: data fed in any pieces gives the digest that FIPS 180-4 assigns
  to the whole message.
\<close>

text \<open>
  C4: However a message is split into calls of \<^verbatim>\<open>sha256_update\<close>, the digest that \<^verbatim>\<open>sha256_final\<close> writes is
  the FIPS 180-4 digest of the concatenation, in SHA-256 and in SHA-224, and so is the digest of
  one call of \<^verbatim>\<open>sha256\<close> or \<^verbatim>\<open>sha224\<close>. (Above 2^61 bytes the 64-bit
  length field holds the length modulo 2^64, on both sides.)
\<close>

theorem sha256_streaming:
  assumes "length (buf256 ctx) = 64"
  shows "fst (sha256_final (fold (\<lambda>p c. sha256_update c p) chunks (sha256_init ctx))) =
           fips_sha256 (concat chunks) \<and>
         fst (sha224_final (fold (\<lambda>p c. sha224_update c p) chunks (sha224_init ctx))) =
           fips_sha224 (concat chunks) \<and>
         sha256 ctx (concat chunks) = fips_sha256 (concat chunks) \<and>
         sha224 ctx (concat chunks) = fips_sha224 (concat chunks)"
  using sha256_chunks [OF assms, of chunks] sha224_chunks [OF assms, of chunks]
    sha256_chunks [OF assms, of "[concat chunks]"] sha224_chunks [OF assms, of "[concat chunks]"]
  by (simp add: sha256_def sha224_def)

theorem sha256_streaming_witness:
  "fst (sha256_final (sha256_update (sha256_update
     (sha256_init \<lparr>state256 = [], count256 = 9, buf256 = replicate 64 7\<rparr>) [0x61]) [0x62, 0x63])) =
   fips_sha256 [0x61, 0x62, 0x63]"
  using sha256_streaming [of "\<lparr>state256 = [], count256 = 9, buf256 = replicate 64 7\<rparr>" "[[0x61], [0x62, 0x63]]"]
  by simp

text \<open>
  C29: The same for SHA-512 and SHA-384, whose 128-bit length is kept in two words with a carry; each
  call passes fewer than 2^64 bytes.
\<close>

theorem sha512_streaming:
  assumes "length (buf512 ctx) = 128" and "list_all (\<lambda>p. length p < 2 ^ 64) chunks"
  shows "fst (sha512_final (fold (\<lambda>p c. sha512_update c p) chunks (sha512_init ctx))) =
           fips_sha512 (concat chunks) \<and>
         fst (sha384_final (fold (\<lambda>p c. sha384_update c p) chunks (sha384_init ctx))) =
           fips_sha384 (concat chunks) \<and>
         (length (concat chunks) < 2 ^ 64 \<longrightarrow>
            sha512 ctx (concat chunks) = fips_sha512 (concat chunks) \<and>
            sha384 ctx (concat chunks) = fips_sha384 (concat chunks))"
  using sha512_chunks [OF assms] sha384_chunks [OF assms]
    sha512_chunks [OF assms(1), of "[concat chunks]"] sha384_chunks [OF assms(1), of "[concat chunks]"]
  by (simp add: sha512_def sha384_def)

theorem sha512_streaming_witness:
  "fst (sha512_final (sha512_update (sha512_update
     (sha512_init \<lparr>state512 = [], count512_lo = 9, count512_hi = 1, buf512 = replicate 128 7\<rparr>)
     [0x61]) [0x62, 0x63])) =
   fips_sha512 [0x61, 0x62, 0x63]"
  using sha512_streaming [of "\<lparr>state512 = [], count512_lo = 9, count512_hi = 1, buf512 = replicate 128 7\<rparr>"
      "[[0x61], [0x62, 0x63]]"]
  by simp

end
