(* ===== verification/Fs_State.thy ===== *)
theory Fs_State
  imports Spinlock Errno Hashtable
begin

text \<open>
  The state of the file-system layer (\<^verbatim>\<open>src/fs\<close>): the structures of \<^verbatim>\<open>include/fs\<close> as records kept in
  maps from their addresses, the static lists, tables and counters of the files, and all their locks.
  The operation tables of a file system (\<^verbatim>\<open>struct super_operations\<close> and so on) belong to code that is
  not in the repository; they are records of functions on the whole state, and the allocators are
  functions on its component \<open>world\<close>; an environment \<open>'w env\<close> collects them. C strings are the lists of their bytes
  without the final zero.
\<close>

section \<open>Constants of \<^verbatim>\<open>include/fs/fs_types.h\<close>\<close>

definition S_IFMT :: u32 where "S_IFMT = 0xF000"
definition S_IFREG :: u32 where "S_IFREG = 0x8000"
definition S_IFDIR :: u32 where "S_IFDIR = 0x4000"

definition S_ISREG :: "u32 \<Rightarrow> bool" where "S_ISREG m \<longleftrightarrow> m AND S_IFMT = S_IFREG"
definition S_ISDIR :: "u32 \<Rightarrow> bool" where "S_ISDIR m \<longleftrightarrow> m AND S_IFMT = S_IFDIR"

definition O_RDONLY :: u32 where "O_RDONLY = 0"
definition O_WRONLY :: u32 where "O_WRONLY = 1"
definition O_ACCMODE :: u32 where "O_ACCMODE = 3"
definition O_CREAT :: u32 where "O_CREAT = 0x40"
definition O_APPEND :: u32 where "O_APPEND = 0x400"

definition SEEK_SET :: int where "SEEK_SET = 0"
definition SEEK_CUR :: int where "SEEK_CUR = 1"
definition SEEK_END :: int where "SEEK_END = 2"

definition NAME_MAX :: nat where "NAME_MAX = 255"

type_synonym cstring = "u8 list"

definition hash_string :: "cstring \<Rightarrow> u32 \<Rightarrow> u32" where
  "hash_string str len = fold (\<lambda>i hash. hash * 31 + ucast (str ! i)) [0..<unat len] 0"

text \<open>A \<^verbatim>\<open>struct qstr\<close>: the pointer to the name, the name there, its length and its hash.\<close>

record qstr =
  q_ptr :: addr
  q_name :: cstring
  q_len :: u32
  q_hash :: u32

definition qstr_init :: "addr \<Rightarrow> cstring \<Rightarrow> qstr" where
  "qstr_init p name =
     (let len = of_nat (length name)
      in \<lparr>q_ptr = p, q_name = name, q_len = len, q_hash = hash_string name len\<rparr>)"

section \<open>Structures\<close>

text \<open>
  A list node that its structure embeds: initialised and pointing to itself, on its list, or removed
  with stale links. Unlinking a node that points to itself changes nothing; unlinking one with stale
  links, or adding one that is on a list, corrupts lists (\<open>Bad_List\<close>).
\<close>

datatype link = Self_Linked | On_List | Stale

definition link_add :: "addr \<Rightarrow> link \<times> addr list \<Rightarrow> (link \<times> addr list) res" where
  "link_add x = (\<lambda>(l, xs). if l = On_List then Inl Bad_List else Inr (On_List, x # xs))"

definition link_del :: "addr \<Rightarrow> link \<times> addr list \<Rightarrow> (link \<times> addr list) res" where
  "link_del x = (\<lambda>(l, xs).
     case l of Self_Linked \<Rightarrow> Inr (Self_Linked, xs) | On_List \<Rightarrow> Inr (Stale, remove1 x xs) | Stale \<Rightarrow> Inl Bad_List)"

record super_block =
  s_dev :: u64
  s_type :: addr
  s_root :: addr
  s_op :: addr
  s_fs_info :: addr
  s_link :: link
  s_maxbytes :: u64
  s_blocksize :: u32
  s_blocksize_bits :: u32
  s_flags :: u64
  s_count :: u32

record inode =
  i_ino :: u64
  i_mode :: u32
  i_uid :: u32
  i_gid :: u32
  i_size :: u64
  i_blocks :: u64
  i_atime :: u64
  i_mtime :: u64
  i_ctime :: u64
  i_nlink :: u32
  i_rdev :: u64
  i_sb :: addr
  i_op :: addr
  i_fop :: addr
  i_mapping :: addr
  i_link :: link
  i_refcnt :: u32
  i_state :: u32

record dentry =
  d_name :: qstr
  d_inode :: addr
  d_sb :: addr
  d_parent :: addr
  d_children :: "addr list"
  d_sibling :: link
  d_op :: addr
  d_fsdata :: addr
  d_lru :: link
  d_list :: link
  d_refcnt :: u32
  d_flags :: u32

record open_file =
  f_dentry :: addr
  f_inode :: addr
  f_op :: addr
  f_private :: addr
  f_pos :: u64
  f_flags :: u32
  f_mode :: u32
  f_refcnt :: u32
  f_link :: link

text \<open>The array \<^verbatim>\<open>fds\<close> of a descriptor table, at address \<open>fds_ptr\<close>, and its length \<open>max_fds\<close>.\<close>

record fd_table =
  fds_ptr :: addr
  fds :: "addr list"
  max_fds :: u32
  open_fds :: u32

record mount =
  mnt_parent :: addr
  mnt_mountpoint :: addr
  mnt_root :: addr
  mnt_sb :: addr
  mnt_submounts :: "addr list"
  mnt_mounts :: link
  mnt_child :: link
  mnt_flags :: u32
  mnt_refcnt :: u32

record file_system_type =
  fs_name :: "cstring option"
  fs_link :: link

section \<open>The state\<close>

datatype fs_lock =
    Super_State | Inode_State | Dentry_State | File_State | Vfs_State
  | Super_Lock addr | Inode_Lock addr | Dentry_Lock addr | File_Lock addr | Fdt_Lock addr
  | Mount_Lock addr | Fs_Lock addr

record 'w fs =
  world :: 'w
  fs_cpu :: hart
  fs_locks :: "fs_lock \<Rightarrow> spinlock"
  super_at :: "addr \<Rightarrow> super_block"
  super_list :: "addr list"
  super_count :: u32
  inode_at :: "addr \<Rightarrow> inode"
  inode_ht :: hashtable
  inode_list :: "addr list"
  inode_count :: u32
  dentry_at :: "addr \<Rightarrow> dentry"
  dentry_ht :: hashtable
  dentry_list :: "addr list"
  dentry_lru :: "addr list"
  dentry_count :: u32
  file_at :: "addr \<Rightarrow> open_file"
  file_list :: "addr list"
  file_count :: u32
  fdt_at :: "addr \<Rightarrow> fd_table"
  fstype_at :: "addr \<Rightarrow> file_system_type"
  fs_types :: "addr list"
  mount_at :: "addr \<Rightarrow> mount"
  mounts :: "addr list"
  vfs_supers :: "addr list"
  root_mount :: addr

text \<open>The results of an operation with a value, and of one without.\<close>

type_synonym ('w, 'a) fs_res = "('a \<times> 'w fs) res"

section \<open>The environment\<close>

record 'w super_operations =
  op_alloc_inode :: "(addr \<Rightarrow> 'w fs \<Rightarrow> ('w, addr) fs_res) option"
  op_destroy_inode :: "(addr \<Rightarrow> 'w fs \<Rightarrow> 'w fs res) option"
  op_dirty_inode :: "(addr \<Rightarrow> 'w fs \<Rightarrow> 'w fs res) option"
  op_write_inode :: "(addr \<Rightarrow> 'w fs \<Rightarrow> ('w, int) fs_res) option"
  op_drop_inode :: "(addr \<Rightarrow> 'w fs \<Rightarrow> ('w, int) fs_res) option"
  op_put_super :: "(addr \<Rightarrow> 'w fs \<Rightarrow> 'w fs res) option"
  op_statfs :: "(addr \<Rightarrow> 'w fs \<Rightarrow> ('w, int) fs_res) option"

record 'w inode_operations =
  op_lookup :: "(addr \<Rightarrow> addr \<Rightarrow> 'w fs \<Rightarrow> ('w, addr) fs_res) option"
  op_create :: "(addr \<Rightarrow> addr \<Rightarrow> u32 \<Rightarrow> 'w fs \<Rightarrow> ('w, int) fs_res) option"
  op_unlink :: "(addr \<Rightarrow> addr \<Rightarrow> 'w fs \<Rightarrow> ('w, int) fs_res) option"
  op_mkdir :: "(addr \<Rightarrow> addr \<Rightarrow> u32 \<Rightarrow> 'w fs \<Rightarrow> ('w, int) fs_res) option"
  op_rmdir :: "(addr \<Rightarrow> addr \<Rightarrow> 'w fs \<Rightarrow> ('w, int) fs_res) option"
  op_rename :: "(addr \<Rightarrow> addr \<Rightarrow> addr \<Rightarrow> addr \<Rightarrow> 'w fs \<Rightarrow> ('w, int) fs_res) option"

record 'w dentry_operations =
  op_d_delete :: "(addr \<Rightarrow> 'w fs \<Rightarrow> ('w, int) fs_res) option"
  op_d_release :: "(addr \<Rightarrow> 'w fs \<Rightarrow> 'w fs res) option"

text \<open>A transfer gets the file, the buffer, the count and the position, and returns the result and the new position.\<close>

record 'w file_operations =
  op_llseek :: "(addr \<Rightarrow> u64 \<Rightarrow> int \<Rightarrow> 'w fs \<Rightarrow> ('w, u64) fs_res) option"
  op_fread :: "(addr \<Rightarrow> addr \<Rightarrow> u64 \<Rightarrow> u64 \<Rightarrow> 'w fs \<Rightarrow> ('w, int \<times> u64) fs_res) option"
  op_fwrite :: "(addr \<Rightarrow> addr \<Rightarrow> u64 \<Rightarrow> u64 \<Rightarrow> 'w fs \<Rightarrow> ('w, int \<times> u64) fs_res) option"
  op_readdir :: "(addr \<Rightarrow> addr \<Rightarrow> u64 \<Rightarrow> 'w fs \<Rightarrow> ('w, int) fs_res) option"
  op_open :: "(addr \<Rightarrow> addr \<Rightarrow> 'w fs \<Rightarrow> ('w, int) fs_res) option"
  op_release :: "(addr \<Rightarrow> addr \<Rightarrow> 'w fs \<Rightarrow> ('w, int) fs_res) option"
  op_fsync :: "(addr \<Rightarrow> 'w fs \<Rightarrow> ('w, int) fs_res) option"

record 'w env =
  cache_alloc :: "string \<Rightarrow> 'w \<Rightarrow> addr \<times> 'w"
  cache_free :: "addr \<Rightarrow> 'w \<Rightarrow> 'w"
  kalloc :: "u64 \<Rightarrow> 'w \<Rightarrow> addr \<times> 'w"
  kfree_mem :: "addr \<Rightarrow> 'w \<Rightarrow> 'w"
  sops :: "addr \<Rightarrow> 'w super_operations"
  iops :: "addr \<Rightarrow> 'w inode_operations"
  dops :: "addr \<Rightarrow> 'w dentry_operations"
  fops :: "addr \<Rightarrow> 'w file_operations"
  fs_mount :: "addr \<Rightarrow> (addr \<Rightarrow> u64 \<Rightarrow> addr \<Rightarrow> 'w fs \<Rightarrow> ('w, addr) fs_res) option"
  fs_kill_sb :: "addr \<Rightarrow> (addr \<Rightarrow> 'w fs \<Rightarrow> 'w fs res) option"

text \<open>\<^verbatim>\<open>p && p->op\<close> for a table pointer.\<close>

definition vtable :: "(addr \<Rightarrow> 't) \<Rightarrow> ('t \<Rightarrow> 'f option) \<Rightarrow> addr \<Rightarrow> 'f option" where
  "vtable tab fld p = (if p = NULL then None else fld (tab p))"

definition mem_alloc :: "'w env \<Rightarrow> string \<Rightarrow> 'w fs \<Rightarrow> addr \<times> 'w fs" where
  "mem_alloc E cache st = (let (p, w) = cache_alloc E cache (world st) in (p, st\<lparr>world := w\<rparr>))"

definition mem_free :: "'w env \<Rightarrow> addr \<Rightarrow> 'w fs \<Rightarrow> 'w fs" where
  "mem_free E p st = st\<lparr>world := cache_free E p (world st)\<rparr>"

definition heap_alloc :: "'w env \<Rightarrow> u64 \<Rightarrow> 'w fs \<Rightarrow> addr \<times> 'w fs" where
  "heap_alloc E n st = (let (p, w) = kalloc E n (world st) in (p, st\<lparr>world := w\<rparr>))"

definition heap_free :: "'w env \<Rightarrow> addr \<Rightarrow> 'w fs \<Rightarrow> 'w fs" where
  "heap_free E p st = st\<lparr>world := kfree_mem E p (world st)\<rparr>"

section \<open>Locks\<close>

definition lock :: "fs_lock \<Rightarrow> 'w fs \<Rightarrow> 'w fs res" where
  "lock l st =
     rbind (spinlock_acquire (fs_cpu st, fs_locks st l))
       (\<lambda>(c, k). Inr (st\<lparr>fs_cpu := c, fs_locks := (fs_locks st)(l := k)\<rparr>))"

definition unlock :: "fs_lock \<Rightarrow> 'w fs \<Rightarrow> 'w fs res" where
  "unlock l st =
     rbind (spinlock_release (fs_cpu st, fs_locks st l))
       (\<lambda>(c, k). Inr (st\<lparr>fs_cpu := c, fs_locks := (fs_locks st)(l := k)\<rparr>))"

definition init_lock :: "fs_lock \<Rightarrow> string \<Rightarrow> 'w fs \<Rightarrow> 'w fs" where
  "init_lock l n st = st\<lparr>fs_locks := (fs_locks st)(l := SPINLOCK_INITIALIZER n)\<rparr>"

definition upd_super :: "addr \<Rightarrow> (super_block \<Rightarrow> super_block) \<Rightarrow> 'w fs \<Rightarrow> 'w fs" where
  "upd_super p g st = st\<lparr>super_at := (super_at st)(p := g (super_at st p))\<rparr>"

definition upd_inode :: "addr \<Rightarrow> (inode \<Rightarrow> inode) \<Rightarrow> 'w fs \<Rightarrow> 'w fs" where
  "upd_inode p g st = st\<lparr>inode_at := (inode_at st)(p := g (inode_at st p))\<rparr>"

definition upd_dentry :: "addr \<Rightarrow> (dentry \<Rightarrow> dentry) \<Rightarrow> 'w fs \<Rightarrow> 'w fs" where
  "upd_dentry p g st = st\<lparr>dentry_at := (dentry_at st)(p := g (dentry_at st p))\<rparr>"

definition upd_file :: "addr \<Rightarrow> (open_file \<Rightarrow> open_file) \<Rightarrow> 'w fs \<Rightarrow> 'w fs" where
  "upd_file p g st = st\<lparr>file_at := (file_at st)(p := g (file_at st p))\<rparr>"

definition upd_fdt :: "addr \<Rightarrow> (fd_table \<Rightarrow> fd_table) \<Rightarrow> 'w fs \<Rightarrow> 'w fs" where
  "upd_fdt p g st = st\<lparr>fdt_at := (fdt_at st)(p := g (fdt_at st p))\<rparr>"

definition upd_mount :: "addr \<Rightarrow> (mount \<Rightarrow> mount) \<Rightarrow> 'w fs \<Rightarrow> 'w fs" where
  "upd_mount p g st = st\<lparr>mount_at := (mount_at st)(p := g (mount_at st p))\<rparr>"

lemmas fs_upds = upd_super_def upd_inode_def upd_dentry_def upd_file_def upd_fdt_def upd_mount_def

text \<open>All locks are free and the hart counts its nesting properly.\<close>

definition fs_quiet :: "'w fs \<Rightarrow> bool" where
  "fs_quiet st \<longleftrightarrow> hart_ok (fs_cpu st) \<and> (\<forall>l. lock_free (fs_locks st l))"

end
