(* ===== verification/Inode.thy ===== *)
theory Inode
  imports Fs_State
begin

text \<open>
  The inode cache, \<^verbatim>\<open>src/fs/inode.c\<close>. The hash table is the one of theory Hashtable, with the inode number
  as key; the inode is its value.
\<close>

definition I_NEW :: u32 where "I_NEW = 1"
definition I_DIRTY :: u32 where "I_DIRTY = 3"

definition sizeof_hash_node :: u64 where "sizeof_hash_node = 32"

definition inode_init :: "'w env \<Rightarrow> 'w fs \<Rightarrow> 'w fs res" where
  "inode_init E st =
     (let (r, w, ht) = hashtable_init (\<lambda>n sz. kalloc E (n * sz)) 64 (world st, inode_ht st)
      in if r \<noteq> 0 then Inl (Panic ''inode_init: failed to init hashtable'')
         else Inr ((init_lock Inode_State ''inode'' st)
                     \<lparr>world := w, inode_ht := ht, inode_list := [], inode_count := 0\<rparr>))"

definition inode_sop :: "'w env \<Rightarrow> ('w super_operations \<Rightarrow> 'f option) \<Rightarrow> addr \<Rightarrow> 'w fs \<Rightarrow> 'f option" where
  "inode_sop E fld sb st = (if sb = NULL then None else vtable (sops E) fld (s_op (super_at st sb)))"

definition inode_alloc :: "'w env \<Rightarrow> addr \<Rightarrow> 'w fs \<Rightarrow> ('w, addr) fs_res" where
  "inode_alloc E sb st =
     rbind
       (case inode_sop E op_alloc_inode sb st of
          Some f \<Rightarrow> f sb st
        | None \<Rightarrow> let (i, st) = mem_alloc E ''inode'' st in Inr (if i = NULL then PTR (- ENOMEM) else i, st))
       (\<lambda>(i, st).
         if IS_ERR i \<or> i = NULL then Inr (i, st)
         else Inr (i, init_lock (Inode_Lock i) ''inode'' (upd_inode i (\<lambda>_.
           \<lparr>i_ino = 0, i_mode = 0, i_uid = 0, i_gid = 0, i_size = 0, i_blocks = 0, i_atime = 0, i_mtime = 0,
            i_ctime = 0, i_nlink = 1, i_rdev = 0, i_sb = sb, i_op = NULL, i_fop = NULL, i_mapping = NULL,
            i_link = Self_Linked, i_refcnt = 1, i_state = I_NEW\<rparr>) st)))"

definition inode_free :: "'w env \<Rightarrow> addr \<Rightarrow> 'w fs \<Rightarrow> 'w fs res" where
  "inode_free E i st =
     (if i = NULL then Inr st
      else case inode_sop E op_destroy_inode (i_sb (inode_at st i)) st of
        Some f \<Rightarrow> f i st
      | None \<Rightarrow>
          rbind (lock Inode_State st) (\<lambda>st.
            let (_, w, ht) = hashtable_delete (kfree_mem E) (i_ino (inode_at st i)) (world st, inode_ht st);
                st = st\<lparr>world := w, inode_ht := ht\<rparr>
            in rbind (link_del i (i_link (inode_at st i), inode_list st)) (\<lambda>(l, xs).
               let st = upd_inode i (\<lambda>x. x\<lparr>i_link := l\<rparr>)
                          (st\<lparr>inode_list := xs, inode_count := inode_count st - 1\<rparr>)
               in rbind (unlock Inode_State st) (\<lambda>st. Inr (mem_free E i st)))))"

definition inode_get :: "'w env \<Rightarrow> addr \<Rightarrow> u64 \<Rightarrow> 'w fs \<Rightarrow> ('w, addr) fs_res" where
  "inode_get E sb ino st =
     rbind (lock Inode_State st) (\<lambda>st.
       let i = hashtable_lookup (world st, inode_ht st) ino
       in if i \<noteq> NULL then
            rbind (unlock Inode_State (upd_inode i (\<lambda>x. x\<lparr>i_refcnt := i_refcnt x + 1\<rparr>) st)) (\<lambda>st. Inr (i, st))
          else
            rbind (unlock Inode_State st) (\<lambda>st.
            rbind (inode_alloc E sb st) (\<lambda>(i, st).
              if IS_ERR i then Inr (i, st)
              else if i = NULL then Inl Null_Deref
              else
                rbind (lock Inode_State (upd_inode i (\<lambda>x. x\<lparr>i_ino := ino\<rparr>) st)) (\<lambda>st.
                  let (_, w, ht) = hashtable_insert (kalloc E sizeof_hash_node) ino i (world st, inode_ht st);
                      st = st\<lparr>world := w, inode_ht := ht\<rparr>
                  in rbind (link_add i (i_link (inode_at st i), inode_list st)) (\<lambda>(l, xs).
                     let st = upd_inode i (\<lambda>x. x\<lparr>i_link := l\<rparr>)
                                (st\<lparr>inode_list := xs, inode_count := inode_count st + 1\<rparr>)
                     in rbind (unlock Inode_State st) (\<lambda>st. Inr (i, st)))))))"

definition inode_put :: "'w env \<Rightarrow> addr \<Rightarrow> 'w fs \<Rightarrow> 'w fs res" where
  "inode_put E i st =
     (if i = NULL then Inr st
      else
        rbind (lock (Inode_Lock i) st) (\<lambda>st.
          let st = upd_inode i (\<lambda>x. x\<lparr>i_refcnt := i_refcnt x - 1\<rparr>) st
          in if i_refcnt (inode_at st i) = 0 then
               rbind (unlock (Inode_Lock i) st) (\<lambda>st.
                 case inode_sop E op_drop_inode (i_sb (inode_at st i)) st of
                   Some f \<Rightarrow> rbind (f i st) (\<lambda>(r, st). if r \<noteq> 0 then Inr st else inode_free E i st)
                 | None \<Rightarrow> inode_free E i st)
             else unlock (Inode_Lock i) st))"

definition inode_lookup :: "u64 \<Rightarrow> 'w fs \<Rightarrow> ('w, addr) fs_res" where
  "inode_lookup ino st =
     rbind (lock Inode_State st) (\<lambda>st.
       let i = hashtable_lookup (world st, inode_ht st) ino
       in rbind (unlock Inode_State st) (\<lambda>st. Inr (i, st)))"

definition inode_dirty :: "'w env \<Rightarrow> addr \<Rightarrow> 'w fs \<Rightarrow> 'w fs res" where
  "inode_dirty E i st =
     (if i = NULL then Inr st
      else
        rbind (lock (Inode_Lock i) st) (\<lambda>st.
          let st = upd_inode i (\<lambda>x. x\<lparr>i_state := i_state x OR I_DIRTY\<rparr>) st
          in rbind (case inode_sop E op_dirty_inode (i_sb (inode_at st i)) st of
                      Some f \<Rightarrow> f i st | None \<Rightarrow> Inr st) (\<lambda>st.
             unlock (Inode_Lock i) st)))"

definition inode_write :: "'w env \<Rightarrow> addr \<Rightarrow> 'w fs \<Rightarrow> ('w, int) fs_res" where
  "inode_write E i st =
     (if i = NULL then Inr (- EINVAL, st)
      else
        rbind (lock (Inode_Lock i) st) (\<lambda>st.
          if i_state (inode_at st i) AND I_DIRTY = 0
          then rbind (unlock (Inode_Lock i) st) (\<lambda>st. Inr (0, st))
          else case inode_sop E op_write_inode (i_sb (inode_at st i)) st of
            None \<Rightarrow> rbind (unlock (Inode_Lock i) st) (\<lambda>st. Inr (- ENOSYS, st))
          | Some f \<Rightarrow>
              rbind (f i st) (\<lambda>(ret, st).
                let st = (if ret = 0 then upd_inode i (\<lambda>x. x\<lparr>i_state := i_state x AND NOT I_DIRTY\<rparr>) st else st)
                in rbind (unlock (Inode_Lock i) st) (\<lambda>st. Inr (ret, st)))))"

definition inode_truncate :: "'w env \<Rightarrow> addr \<Rightarrow> 'w fs \<Rightarrow> 'w fs res" where
  "inode_truncate E i st =
     (if i = NULL then Inr st
      else
        rbind (lock (Inode_Lock i) st) (\<lambda>st.
          let st = upd_inode i (\<lambda>x. x\<lparr>i_size := 0, i_blocks := 0\<rparr>) st
          in rbind (inode_dirty E i st) (\<lambda>st.
             unlock (Inode_Lock i) st)))"

end
