(* ===== verification/Dentry.thy ===== *)
theory Dentry
  imports Inode
begin

text \<open>
  The directory-entry cache, \<^verbatim>\<open>src/fs/dentry.c\<close>. The key of an entry in the hash table is itself a bucket
  number, \<open>dentry_hash_key\<close>.
\<close>

definition dentry_hash_key :: "'w fs \<Rightarrow> addr \<Rightarrow> addr \<Rightarrow> qstr \<Rightarrow> u32" where
  "dentry_hash_key st sb parent name =
     (let hash = (ucast (sb XOR parent) :: u32);
          hash = hash XOR q_hash name
      in hash_ptr (ucast hash) (ht_size (dentry_ht st)))"

definition dentry_init :: "'w env \<Rightarrow> 'w fs \<Rightarrow> 'w fs res" where
  "dentry_init E st =
     (let (r, w, ht) = hashtable_init (\<lambda>n sz. kalloc E (n * sz)) 128 (world st, dentry_ht st)
      in if r \<noteq> 0 then Inl (Panic ''dentry_init: failed to init hashtable'')
         else Inr ((init_lock Dentry_State ''dentry'' st)
                     \<lparr>world := w, dentry_ht := ht, dentry_list := [], dentry_lru := [], dentry_count := 0\<rparr>))"

definition dentry_alloc :: "'w env \<Rightarrow> addr \<Rightarrow> addr \<Rightarrow> cstring \<Rightarrow> 'w fs \<Rightarrow> ('w, addr) fs_res" where
  "dentry_alloc E parent sb name st =
     (let (d, st) = mem_alloc E ''dentry'' st
      in if d = NULL then Inr (PTR (- ENOMEM), st)
         else
           let (p, st) = heap_alloc E (of_nat (length name) + 1) st
           in if p = NULL then Inr (PTR (- ENOMEM), mem_free E d st)
              else
                let len = of_nat (length name);
                    st = init_lock (Dentry_Lock d) ''dentry'' (upd_dentry d (\<lambda>_.
                      \<lparr>d_name = \<lparr>q_ptr = p, q_name = name, q_len = len, q_hash = hash_string name len\<rparr>,
                       d_inode = NULL, d_sb = sb, d_parent = (if parent \<noteq> NULL then parent else d),
                       d_children = [], d_sibling = Self_Linked, d_op = NULL, d_fsdata = NULL,
                       d_lru = Self_Linked, d_list = Self_Linked, d_refcnt = 1, d_flags = 0\<rparr>) st)
                in if parent \<noteq> NULL then
                     rbind (lock (Dentry_Lock parent) st) (\<lambda>st.
                     rbind (link_add d (d_sibling (dentry_at st d), d_children (dentry_at st parent))) (\<lambda>(l, xs).
                       let st = upd_dentry d (\<lambda>x. x\<lparr>d_sibling := l\<rparr>) (upd_dentry parent (\<lambda>x. x\<lparr>d_children := xs\<rparr>) st)
                       in rbind (unlock (Dentry_Lock parent) st) (\<lambda>st. Inr (d, st))))
                   else Inr (d, st))"

definition dentry_free :: "'w env \<Rightarrow> addr \<Rightarrow> 'w fs \<Rightarrow> 'w fs res" where
  "dentry_free E d st =
     (if d = NULL then Inr st
      else
        rbind (case vtable (dops E) op_d_release (d_op (dentry_at st d)) of Some f \<Rightarrow> f d st | None \<Rightarrow> Inr st) (\<lambda>st.
        rbind (lock Dentry_State st) (\<lambda>st.
          let x = dentry_at st d;
              key = dentry_hash_key st (d_sb x) (d_parent x) (d_name x);
              (_, w, ht) = hashtable_delete (kfree_mem E) (ucast key) (world st, dentry_ht st);
              st = st\<lparr>world := w, dentry_ht := ht\<rparr>
          in rbind (link_del d (d_list x, dentry_list st)) (\<lambda>(l1, xs).
             rbind (link_del d (d_lru x, dentry_lru st)) (\<lambda>(l2, ys).
               let st = upd_dentry d (\<lambda>x. x\<lparr>d_list := l1, d_lru := l2\<rparr>)
                          (st\<lparr>dentry_list := xs, dentry_lru := ys, dentry_count := dentry_count st - 1\<rparr>)
               in rbind (unlock Dentry_State st) (\<lambda>st.
               rbind (let parent = d_parent (dentry_at st d)
                      in if parent \<noteq> NULL \<and> parent \<noteq> d then
                           rbind (lock (Dentry_Lock parent) st) (\<lambda>st.
                           rbind (link_del d (d_sibling (dentry_at st d), d_children (dentry_at st parent))) (\<lambda>(l, zs).
                             unlock (Dentry_Lock parent)
                               (upd_dentry d (\<lambda>x. x\<lparr>d_sibling := l\<rparr>) (upd_dentry parent (\<lambda>x. x\<lparr>d_children := zs\<rparr>) st))))
                         else Inr st) (\<lambda>st.
               rbind (if d_inode (dentry_at st d) \<noteq> NULL then inode_put E (d_inode (dentry_at st d)) st else Inr st) (\<lambda>st.
                 let p = q_ptr (d_name (dentry_at st d));
                     st = (if p \<noteq> NULL then heap_free E p st else st)
                 in Inr (mem_free E d st)))))))))"

definition dentry_lookup :: "addr \<Rightarrow> addr \<Rightarrow> qstr \<Rightarrow> 'w fs \<Rightarrow> ('w, addr) fs_res" where
  "dentry_lookup sb parent name st =
     rbind (lock Dentry_State st) (\<lambda>st.
       let bucket_idx = dentry_hash_key st sb parent name;
           r = (case find (\<lambda>n. let d = hn_value n; x = dentry_at st d
                              in d \<noteq> NULL \<and> d_sb x = sb \<and> d_parent x = parent \<and>
                                 q_len (d_name x) = q_len name \<and> q_name (d_name x) = q_name name)
                  (buckets (dentry_ht st) (unat bucket_idx)) of
                  Some n \<Rightarrow> hn_value n | None \<Rightarrow> NULL)
       in rbind (unlock Dentry_State st) (\<lambda>st. Inr (r, st)))"

definition dentry_put :: "addr \<Rightarrow> 'w fs \<Rightarrow> 'w fs res" where
  "dentry_put d st =
     (if d = NULL then Inr st
      else
        rbind (lock (Dentry_Lock d) st) (\<lambda>st.
          let st = upd_dentry d (\<lambda>x. x\<lparr>d_refcnt := d_refcnt x - 1\<rparr>) st
          in if d_refcnt (dentry_at st d) = 0 then
               rbind (unlock (Dentry_Lock d) st) (\<lambda>st.
               rbind (lock Dentry_State st) (\<lambda>st.
               rbind (link_add d (d_lru (dentry_at st d), dentry_lru st)) (\<lambda>(l, xs).
                 unlock Dentry_State (upd_dentry d (\<lambda>x. x\<lparr>d_lru := l\<rparr>) (st\<lparr>dentry_lru := xs\<rparr>)))))
             else unlock (Dentry_Lock d) st))"

definition dentry_get :: "addr \<Rightarrow> 'w fs \<Rightarrow> 'w fs res" where
  "dentry_get d st =
     (if d = NULL then Inr st
      else
        rbind (lock (Dentry_Lock d) st) (\<lambda>st.
          unlock (Dentry_Lock d) (upd_dentry d (\<lambda>x. x\<lparr>d_refcnt := d_refcnt x + 1\<rparr>) st)))"

definition dentry_insert :: "'w env \<Rightarrow> addr \<Rightarrow> 'w fs \<Rightarrow> ('w, int) fs_res" where
  "dentry_insert E d st =
     (if d = NULL then Inr (- EINVAL, st)
      else if d_sb (dentry_at st d) = NULL then Inr (- EINVAL, st)
      else if d_parent (dentry_at st d) = NULL then Inr (- EINVAL, st)
      else
        rbind (lock Dentry_State st) (\<lambda>st.
          let x = dentry_at st d;
              key = dentry_hash_key st (d_sb x) (d_parent x) (d_name x)
          in if hashtable_lookup (world st, dentry_ht st) (ucast key) \<noteq> NULL
             then rbind (unlock Dentry_State st) (\<lambda>st. Inr (- EEXIST, st))
             else
               let (_, w, ht) = hashtable_insert (kalloc E sizeof_hash_node) (ucast key) d (world st, dentry_ht st);
                   st = st\<lparr>world := w, dentry_ht := ht\<rparr>
               in rbind (link_add d (d_list x, dentry_list st)) (\<lambda>(l, xs).
                  let st = upd_dentry d (\<lambda>x. x\<lparr>d_list := l\<rparr>)
                             (st\<lparr>dentry_list := xs, dentry_count := dentry_count st + 1\<rparr>)
                  in rbind (unlock Dentry_State st) (\<lambda>st. Inr (0, st)))))"

definition dentry_delete :: "'w env \<Rightarrow> addr \<Rightarrow> 'w fs \<Rightarrow> 'w fs res" where
  "dentry_delete E d st =
     (if d = NULL then Inr st
      else case vtable (dops E) op_d_delete (d_op (dentry_at st d)) of
        Some f \<Rightarrow> rbind (f d st) (\<lambda>(r, st). if r \<noteq> 0 then Inr st else dentry_free E d st)
      | None \<Rightarrow> dentry_free E d st)"

definition dentry_root :: "'w env \<Rightarrow> addr \<Rightarrow> 'w fs \<Rightarrow> ('w, addr) fs_res" where
  "dentry_root E sb st =
     rbind (dentry_alloc E NULL sb [0x2F] st) (\<lambda>(root, st).
       if IS_ERR root then Inr (root, st)
       else
         let st = upd_dentry root (\<lambda>x. x\<lparr>d_parent := root\<rparr>) st
         in rbind (dentry_insert E root st) (\<lambda>(r, st).
            if r \<noteq> 0 then rbind (dentry_free E root st) (\<lambda>st. Inr (PTR (- EEXIST), st))
            else Inr (root, st)))"

end
