(* ===== verification/Open_File.thy ===== *)
theory Open_File
  imports Dentry
begin

text \<open>
  Open files, \<^verbatim>\<open>src/fs/file.c\<close>. \<^verbatim>\<open>f_pos\<close> is a signed 64-bit \<^verbatim>\<open>loff_t\<close>, kept as the word; its comparisons
  with the unsigned \<^verbatim>\<open>i_size\<close> are unsigned, as in C, and \<^verbatim>\<open>sint\<close> reads it where the code treats it as signed.
\<close>

definition file_init :: "'w fs \<Rightarrow> 'w fs" where
  "file_init st = (init_lock File_State ''file'' st)\<lparr>file_list := [], file_count := 0\<rparr>"

definition file_alloc :: "'w env \<Rightarrow> 'w fs \<Rightarrow> ('w, addr) fs_res" where
  "file_alloc E st =
     (let (f, st) = mem_alloc E ''file'' st
      in if f = NULL then Inr (PTR (- ENOMEM), st)
         else
           let st = init_lock (File_Lock f) ''file'' (upd_file f (\<lambda>_.
             \<lparr>f_dentry = NULL, f_inode = NULL, f_op = NULL, f_private = NULL, f_pos = 0, f_flags = 0, f_mode = 0,
              f_refcnt = 1, f_link = Self_Linked\<rparr>) st)
           in rbind (lock File_State st) (\<lambda>st.
              rbind (link_add f (f_link (file_at st f), file_list st)) (\<lambda>(l, xs).
              rbind (unlock File_State (upd_file f (\<lambda>x. x\<lparr>f_link := l\<rparr>)
                       (st\<lparr>file_list := xs, file_count := file_count st + 1\<rparr>))) (\<lambda>st.
                Inr (f, st)))))"

definition file_free :: "'w env \<Rightarrow> addr \<Rightarrow> 'w fs \<Rightarrow> 'w fs res" where
  "file_free E f st =
     (if f = NULL then Inr st
      else
        rbind (lock File_State st) (\<lambda>st.
        rbind (link_del f (f_link (file_at st f), file_list st)) (\<lambda>(l, xs).
        rbind (unlock File_State (upd_file f (\<lambda>x. x\<lparr>f_link := l\<rparr>)
                 (st\<lparr>file_list := xs, file_count := file_count st - 1\<rparr>))) (\<lambda>st.
          Inr (mem_free E f st)))))"

definition file_open :: "'w env \<Rightarrow> addr \<Rightarrow> u32 \<Rightarrow> 'w fs \<Rightarrow> ('w, addr) fs_res" where
  "file_open E d fl st =
     (if d = NULL \<or> d_inode (dentry_at st d) = NULL then Inr (PTR (- ENOENT), st)
      else
        rbind (file_alloc E st) (\<lambda>(f, st).
          if IS_ERR f then Inr (f, st)
          else
            let i = d_inode (dentry_at st d);
                mode = i_mode (inode_at st i);
                st = upd_file f (\<lambda>x. x\<lparr>f_dentry := d, f_inode := i, f_flags := fl, f_op := i_fop (inode_at st i)\<rparr>) st;
                st = (if S_ISDIR mode then upd_file f (\<lambda>x. x\<lparr>f_mode := S_IFDIR\<rparr>) st
                      else if S_ISREG mode then upd_file f (\<lambda>x. x\<lparr>f_mode := S_IFREG\<rparr>) st
                      else st)
            in rbind (dentry_get d st) (\<lambda>st.
               case vtable (fops E) op_open (f_op (file_at st f)) of
                 None \<Rightarrow> Inr (f, st)
               | Some g \<Rightarrow>
                   rbind (g (d_inode (dentry_at st d)) f st) (\<lambda>(ret, st).
                     if ret < 0 then
                       rbind (dentry_put d st) (\<lambda>st.
                       rbind (file_free E f st) (\<lambda>st. Inr (PTR ret, st)))
                     else Inr (f, st)))))"

definition file_close :: "'w env \<Rightarrow> addr \<Rightarrow> 'w fs \<Rightarrow> ('w, int) fs_res" where
  "file_close E f st =
     (if f = NULL then Inr (- EINVAL, st)
      else
        rbind (lock (File_Lock f) st) (\<lambda>st.
          let st = upd_file f (\<lambda>x. x\<lparr>f_refcnt := f_refcnt x - 1\<rparr>) st
          in if f_refcnt (file_at st f) = 0 then
               rbind (unlock (File_Lock f) st) (\<lambda>st.
               rbind (case vtable (fops E) op_release (f_op (file_at st f)) of
                        None \<Rightarrow> Inr st
                      | Some g \<Rightarrow> rbind (g (f_inode (file_at st f)) f st) (\<lambda>(_, st). Inr st)) (\<lambda>st.
               rbind (if f_dentry (file_at st f) \<noteq> NULL then dentry_put (f_dentry (file_at st f)) st else Inr st) (\<lambda>st.
               rbind (file_free E f st) (\<lambda>st. Inr (0, st)))))
             else rbind (unlock (File_Lock f) st) (\<lambda>st. Inr (0, st))))"

definition file_read :: "'w env \<Rightarrow> addr \<Rightarrow> addr \<Rightarrow> u64 \<Rightarrow> 'w fs \<Rightarrow> ('w, int) fs_res" where
  "file_read E f buf n st =
     (if f = NULL \<or> buf = NULL \<or> n = 0 then Inr (- EINVAL, st)
      else
        let i = f_inode (file_at st f)
        in if i = NULL then Inr (- ENOENT, st)
           else if f_flags (file_at st f) AND O_ACCMODE = O_WRONLY then Inr (- EACCES, st)
           else if S_ISDIR (i_mode (inode_at st i)) then Inr (- EISDIR, st)
           else case vtable (fops E) op_fread (f_op (file_at st f)) of
             None \<Rightarrow> Inr (- ENOSYS, st)
           | Some g \<Rightarrow>
               rbind (lock (File_Lock f) st) (\<lambda>st.
                 let pos = f_pos (file_at st f); sz = i_size (inode_at st i)
                 in if pos \<ge> sz then rbind (unlock (File_Lock f) st) (\<lambda>st. Inr (0, st))
                    else
                      let n = (if pos + n > sz then sz - pos else n)
                      in rbind (g f buf n pos st) (\<lambda>((ret, pos), st).
                         let st = (if ret > 0 then upd_file f (\<lambda>x. x\<lparr>f_pos := pos\<rparr>) st else st)
                         in rbind (unlock (File_Lock f) st) (\<lambda>st. Inr (ret, st)))))"

definition file_write :: "'w env \<Rightarrow> addr \<Rightarrow> addr \<Rightarrow> u64 \<Rightarrow> 'w fs \<Rightarrow> ('w, int) fs_res" where
  "file_write E f buf n st =
     (if f = NULL \<or> buf = NULL \<or> n = 0 then Inr (- EINVAL, st)
      else
        let i = f_inode (file_at st f)
        in if i = NULL then Inr (- ENOENT, st)
           else if f_flags (file_at st f) AND O_ACCMODE = O_RDONLY then Inr (- EACCES, st)
           else if S_ISDIR (i_mode (inode_at st i)) then Inr (- EISDIR, st)
           else case vtable (fops E) op_fwrite (f_op (file_at st f)) of
             None \<Rightarrow> Inr (- ENOSYS, st)
           | Some g \<Rightarrow>
               rbind (lock (File_Lock f) st) (\<lambda>st.
                 let pos = (if f_flags (file_at st f) AND O_APPEND \<noteq> 0 then i_size (inode_at st i)
                            else f_pos (file_at st f))
                 in rbind (g f buf n pos st) (\<lambda>((ret, pos), st).
                    let st = (if ret > 0 then
                                let st = upd_file f (\<lambda>x. x\<lparr>f_pos := pos\<rparr>) st
                                in if pos > i_size (inode_at st (f_inode (file_at st f)))
                                   then upd_inode (f_inode (file_at st f)) (\<lambda>x. x\<lparr>i_size := pos\<rparr>) st else st
                              else st)
                    in rbind (unlock (File_Lock f) st) (\<lambda>st. Inr (ret, st)))))"

definition file_lseek :: "'w env \<Rightarrow> addr \<Rightarrow> u64 \<Rightarrow> int \<Rightarrow> 'w fs \<Rightarrow> ('w, int) fs_res" where
  "file_lseek E f offset whence st =
     (if f = NULL then Inr (- EINVAL, st)
      else
        let i = f_inode (file_at st f)
        in if i = NULL then Inr (- ENOENT, st)
           else if S_ISDIR (i_mode (inode_at st i)) then Inr (- EISDIR, st)
           else
             rbind (lock (File_Lock f) st) (\<lambda>st.
               let target = (if whence = SEEK_SET then Some offset
                             else if whence = SEEK_CUR then Some (f_pos (file_at st f) + offset)
                             else if whence = SEEK_END then Some (i_size (inode_at st i) + offset)
                             else None)
               in case target of
                    None \<Rightarrow> rbind (unlock (File_Lock f) st) (\<lambda>st. Inr (- EINVAL, st))
                  | Some new_pos \<Rightarrow>
                      if sint new_pos < 0 then rbind (unlock (File_Lock f) st) (\<lambda>st. Inr (- EINVAL, st))
                      else
                        rbind (case vtable (fops E) op_llseek (f_op (file_at st f)) of
                                 Some g \<Rightarrow> g f offset whence st
                               | None \<Rightarrow> Inr (new_pos, st)) (\<lambda>(new_pos, st).
                          let st = (if sint new_pos < 0 then st else upd_file f (\<lambda>x. x\<lparr>f_pos := new_pos\<rparr>) st)
                          in rbind (unlock (File_Lock f) st) (\<lambda>st. Inr (sint new_pos, st)))))"

definition file_getdents :: "'w env \<Rightarrow> addr \<Rightarrow> addr \<Rightarrow> u64 \<Rightarrow> 'w fs \<Rightarrow> ('w, int) fs_res" where
  "file_getdents E f buf n st =
     (if f = NULL \<or> buf = NULL \<or> n = 0 then Inr (- EINVAL, st)
      else
        let i = f_inode (file_at st f)
        in if i = NULL then Inr (- ENOENT, st)
           else if \<not> S_ISDIR (i_mode (inode_at st i)) then Inr (- ENOTDIR, st)
           else case vtable (fops E) op_readdir (f_op (file_at st f)) of
             None \<Rightarrow> Inr (- ENOSYS, st)
           | Some g \<Rightarrow>
               rbind (lock (File_Lock f) st) (\<lambda>st.
               rbind (g f buf n st) (\<lambda>(ret, st).
               rbind (unlock (File_Lock f) st) (\<lambda>st. Inr (ret, st)))))"

definition file_get :: "addr \<Rightarrow> 'w fs \<Rightarrow> 'w fs res" where
  "file_get f st =
     (if f = NULL then Inr st
      else
        rbind (lock (File_Lock f) st) (\<lambda>st.
          unlock (File_Lock f) (upd_file f (\<lambda>x. x\<lparr>f_refcnt := f_refcnt x + 1\<rparr>) st)))"

definition file_put :: "'w env \<Rightarrow> addr \<Rightarrow> 'w fs \<Rightarrow> 'w fs res" where
  "file_put E f st =
     (if f = NULL then Inr st
      else
        rbind (lock (File_Lock f) st) (\<lambda>st.
          let st = upd_file f (\<lambda>x. x\<lparr>f_refcnt := f_refcnt x - 1\<rparr>) st
          in if f_refcnt (file_at st f) = 0 then
               rbind (unlock (File_Lock f) st) (\<lambda>st.
               rbind (file_close E f st) (\<lambda>(_, st). Inr st))
             else unlock (File_Lock f) st))"

end
