(* ===== verification/Super.thy ===== *)
theory Super
  imports Fs_State
begin

text \<open>Super blocks, \<^verbatim>\<open>src/fs/super.c\<close>.\<close>

definition super_init :: "'w fs \<Rightarrow> 'w fs" where
  "super_init st = (init_lock Super_State ''super'' st)\<lparr>super_list := [], super_count := 0\<rparr>"

definition super_alloc :: "'w env \<Rightarrow> addr \<Rightarrow> u64 \<Rightarrow> 'w fs \<Rightarrow> addr \<times> 'w fs" where
  "super_alloc E type dev st =
     (let (sb, st) = mem_alloc E ''super_block'' st
      in if sb = NULL then (PTR (- ENOMEM), st)
         else (sb, init_lock (Super_Lock sb) ''super_block'' (upd_super sb (\<lambda>_.
           \<lparr>s_dev = dev, s_type = type, s_root = NULL, s_op = NULL, s_fs_info = NULL, s_link = Self_Linked,
            s_maxbytes = 0, s_blocksize = 512, s_blocksize_bits = 9, s_flags = 0, s_count = 1\<rparr>) st)))"

definition super_unlink :: "addr \<Rightarrow> 'w fs \<Rightarrow> 'w fs res" where
  "super_unlink sb st =
     rbind (link_del sb (s_link (super_at st sb), super_list st)) (\<lambda>(l, xs).
       Inr (upd_super sb (\<lambda>s. s\<lparr>s_link := l\<rparr>) (st\<lparr>super_list := xs, super_count := super_count st - 1\<rparr>)))"

definition super_free :: "'w env \<Rightarrow> addr \<Rightarrow> 'w fs \<Rightarrow> 'w fs res" where
  "super_free E sb st =
     (if sb = NULL then Inr st
      else
        rbind (lock Super_State st) (\<lambda>st.
        rbind (super_unlink sb st) (\<lambda>st.
        rbind (unlock Super_State st) (\<lambda>st.
          Inr (mem_free E sb st)))))"

definition super_lookup :: "u64 \<Rightarrow> 'w fs \<Rightarrow> ('w, addr) fs_res" where
  "super_lookup dev st =
     rbind (lock Super_State st) (\<lambda>st.
       let r = (case find (\<lambda>sb. s_dev (super_at st sb) = dev) (super_list st) of Some sb \<Rightarrow> sb | None \<Rightarrow> NULL)
       in rbind (unlock Super_State st) (\<lambda>st. Inr (r, st)))"

definition super_get :: "addr \<Rightarrow> 'w fs \<Rightarrow> 'w fs res" where
  "super_get sb st =
     (if sb = NULL then Inr st
      else
        rbind (lock (Super_Lock sb) st) (\<lambda>st.
          unlock (Super_Lock sb) (upd_super sb (\<lambda>s. s\<lparr>s_count := s_count s + 1\<rparr>) st)))"

definition super_put :: "'w env \<Rightarrow> addr \<Rightarrow> 'w fs \<Rightarrow> 'w fs res" where
  "super_put E sb st =
     (if sb = NULL then Inr st
      else
        rbind (lock (Super_Lock sb) st) (\<lambda>st.
          let st = upd_super sb (\<lambda>s. s\<lparr>s_count := s_count s - 1\<rparr>) st
          in if s_count (super_at st sb) = 0 then
               rbind (unlock (Super_Lock sb) st) (\<lambda>st.
               rbind (case vtable (sops E) op_put_super (s_op (super_at st sb)) of
                        Some f \<Rightarrow> f sb st | None \<Rightarrow> Inr st) (\<lambda>st.
                 super_free E sb st))
             else unlock (Super_Lock sb) st))"

definition super_register :: "addr \<Rightarrow> 'w fs \<Rightarrow> ('w, int) fs_res" where
  "super_register sb st =
     (if sb = NULL then Inr (- EINVAL, st)
      else
        rbind (lock Super_State st) (\<lambda>st.
          if \<exists>existing\<in>set (super_list st). s_dev (super_at st existing) = s_dev (super_at st sb)
          then rbind (unlock Super_State st) (\<lambda>st. Inr (- EEXIST, st))
          else
            rbind (link_add sb (s_link (super_at st sb), super_list st)) (\<lambda>(l, xs).
            rbind (unlock Super_State (upd_super sb (\<lambda>s. s\<lparr>s_link := l\<rparr>)
                     (st\<lparr>super_list := xs, super_count := super_count st + 1\<rparr>))) (\<lambda>st.
              Inr (0, st)))))"

definition super_unregister :: "addr \<Rightarrow> 'w fs \<Rightarrow> 'w fs res" where
  "super_unregister sb st =
     (if sb = NULL then Inr st
      else
        rbind (lock Super_State st) (\<lambda>st.
        rbind (super_unlink sb st) (\<lambda>st.
          unlock Super_State st)))"

end
