(* ===== verification/Mount.thy ===== *)
theory Mount
  imports Open_File Super
begin

text \<open>
  The first part of \<^verbatim>\<open>src/fs/vfs.c\<close>: file-system types, super blocks in use and the table of mounts.
\<close>

definition sizeof_mount :: u64 where "sizeof_mount = 96"

section \<open>File-system types\<close>

definition register_filesystem :: "'w env \<Rightarrow> addr \<Rightarrow> 'w fs \<Rightarrow> ('w, int) fs_res" where
  "register_filesystem E t st =
     (if t = NULL \<or> fs_name (fstype_at st t) = None \<or> fs_mount E t = None then Inr (- EINVAL, st)
      else
        rbind (lock Vfs_State st) (\<lambda>st.
          if \<exists>existing\<in>set (fs_types st). fs_name (fstype_at st existing) = fs_name (fstype_at st t)
          then rbind (unlock Vfs_State st) (\<lambda>st. Inr (- EEXIST, st))
          else
            rbind (link_add t (Self_Linked, fs_types st)) (\<lambda>(l, xs).
            rbind (unlock Vfs_State
                     ((init_lock (Fs_Lock t) ''fs'' st)
                        \<lparr>fs_types := xs, fstype_at := (fstype_at st)(t := (fstype_at st t)\<lparr>fs_link := l\<rparr>)\<rparr>)) (\<lambda>st.
              Inr (0, st)))))"

definition unregister_filesystem :: "addr \<Rightarrow> 'w fs \<Rightarrow> ('w, int) fs_res" where
  "unregister_filesystem t st =
     (if t = NULL then Inr (- EINVAL, st)
      else
        rbind (lock Vfs_State st) (\<lambda>st.
          if t \<notin> set (fs_types st) then rbind (unlock Vfs_State st) (\<lambda>st. Inr (- ENOENT, st))
          else
            rbind (link_del t (fs_link (fstype_at st t), fs_types st)) (\<lambda>(l, xs).
            rbind (unlock Vfs_State
                     (st\<lparr>fs_types := xs, fstype_at := (fstype_at st)(t := (fstype_at st t)\<lparr>fs_link := l\<rparr>)\<rparr>)) (\<lambda>st.
              Inr (0, st)))))"

definition get_fs :: "cstring option \<Rightarrow> 'w fs \<Rightarrow> ('w, addr) fs_res" where
  "get_fs name st =
     (if name = None then Inr (NULL, st)
      else
        rbind (lock Vfs_State st) (\<lambda>st.
          let r = (case find (\<lambda>t. fs_name (fstype_at st t) = name) (fs_types st) of Some t \<Rightarrow> t | None \<Rightarrow> NULL)
          in rbind (unlock Vfs_State st) (\<lambda>st. Inr (r, st))))"

section \<open>Super blocks in use\<close>

text \<open>\<^verbatim>\<open>vfs_mount\<close> calls \<^verbatim>\<open>fs_type->mount\<close> without a check. Its third argument is always \<^verbatim>\<open>NULL\<close> in the sources.\<close>

definition vfs_mount :: "'w env \<Rightarrow> addr \<Rightarrow> u64 \<Rightarrow> addr \<Rightarrow> 'w fs \<Rightarrow> ('w, addr) fs_res" where
  "vfs_mount E t dev data st =
     (if t = NULL then Inr (PTR (- EINVAL), st)
      else case fs_mount E t of
        None \<Rightarrow> Inl Null_Deref
      | Some f \<Rightarrow>
          rbind (f t dev data st) (\<lambda>(sb, st).
            if IS_ERR sb then Inr (sb, st)
            else
              rbind (lock Vfs_State st) (\<lambda>st.
                if sb = NULL then Inl Null_Deref
                else
                  rbind (link_add sb (s_link (super_at st sb), vfs_supers st)) (\<lambda>(l, xs).
                  rbind (unlock Vfs_State (upd_super sb (\<lambda>s. s\<lparr>s_link := l\<rparr>) (st\<lparr>vfs_supers := xs\<rparr>))) (\<lambda>st.
                    Inr (sb, st))))))"

definition vfs_umount :: "'w env \<Rightarrow> addr \<Rightarrow> 'w fs \<Rightarrow> ('w, int) fs_res" where
  "vfs_umount E sb st =
     (if sb = NULL then Inr (- EINVAL, st)
      else
        rbind (lock Vfs_State st) (\<lambda>st.
        rbind (link_del sb (s_link (super_at st sb), vfs_supers st)) (\<lambda>(l, xs).
        rbind (unlock Vfs_State (upd_super sb (\<lambda>s. s\<lparr>s_link := l\<rparr>) (st\<lparr>vfs_supers := xs\<rparr>))) (\<lambda>st.
        rbind (let t = s_type (super_at st sb)
               in if t = NULL then Inr st
                  else case fs_kill_sb E t of None \<Rightarrow> Inr st | Some f \<Rightarrow> f sb st) (\<lambda>st.
          Inr (0, st))))))"

section \<open>Mounts\<close>

definition vfs_get_root :: "'w fs \<Rightarrow> ('w, addr) fs_res" where
  "vfs_get_root st =
     rbind (lock Vfs_State st) (\<lambda>st.
       let root = (if root_mount st \<noteq> NULL then mnt_root (mount_at st (root_mount st)) else NULL)
       in rbind (unlock Vfs_State st) (\<lambda>st. Inr (root, st)))"

definition vfs_get_root_mount :: "'w fs \<Rightarrow> ('w, addr) fs_res" where
  "vfs_get_root_mount st =
     rbind (lock Vfs_State st) (\<lambda>st.
       let m = root_mount st
       in rbind (unlock Vfs_State st) (\<lambda>st. Inr (m, st)))"

definition mounted_on :: "'w fs \<Rightarrow> addr \<Rightarrow> addr \<Rightarrow> bool" where
  "mounted_on st d m \<longleftrightarrow>
     (let mp = mnt_mountpoint (mount_at st m)
      in mp \<noteq> NULL \<and> d_parent (dentry_at st mp) = d_parent (dentry_at st d) \<and>
         q_len (d_name (dentry_at st mp)) = q_len (d_name (dentry_at st d)) \<and>
         q_name (d_name (dentry_at st mp)) = q_name (d_name (dentry_at st d)))"

definition vfs_lookup_mount :: "addr \<Rightarrow> 'w fs \<Rightarrow> ('w, addr) fs_res" where
  "vfs_lookup_mount d st =
     (if d = NULL then Inr (NULL, st)
      else
        rbind (lock Vfs_State st) (\<lambda>st.
          let r = (case find (mounted_on st d) (mounts st) of Some m \<Rightarrow> m | None \<Rightarrow> NULL)
          in rbind (unlock Vfs_State st) (\<lambda>st. Inr (r, st))))"

text \<open>\<^verbatim>\<open>mnt_refcnt\<close> is not set: it keeps what the memory of the structure held.\<close>

definition vfs_mount_root :: "'w env \<Rightarrow> addr \<Rightarrow> u64 \<Rightarrow> 'w fs \<Rightarrow> ('w, int) fs_res" where
  "vfs_mount_root E t dev st =
     rbind (vfs_mount E t dev NULL st) (\<lambda>(sb, st).
       if IS_ERR sb then Inr (PTR_ERR sb, st)
       else
         let (m, st) = heap_alloc E sizeof_mount st
         in if m = NULL then rbind (vfs_umount E sb st) (\<lambda>(_, st). Inr (- ENOMEM, st))
            else
              let root = s_root (super_at st sb);
                  st = init_lock (Mount_Lock m) ''mount'' (upd_mount m (\<lambda>old.
                    \<lparr>mnt_parent = NULL, mnt_mountpoint = root, mnt_root = root, mnt_sb = sb, mnt_submounts = [],
                     mnt_mounts = Self_Linked, mnt_child = Self_Linked, mnt_flags = 0, mnt_refcnt = mnt_refcnt old\<rparr>) st)
              in rbind (lock Vfs_State st) (\<lambda>st.
                 rbind (link_add m (mnt_child (mount_at st m), mounts st)) (\<lambda>(l, xs).
                 rbind (unlock Vfs_State (upd_mount m (\<lambda>x. x\<lparr>mnt_child := l\<rparr>) (st\<lparr>root_mount := m, mounts := xs\<rparr>))) (\<lambda>st.
                   Inr (0, st)))))"

definition vfs_mount_get :: "addr \<Rightarrow> 'w fs \<Rightarrow> 'w fs res" where
  "vfs_mount_get m st =
     (if m = NULL then Inr st
      else
        rbind (lock (Mount_Lock m) st) (\<lambda>st.
          unlock (Mount_Lock m) (upd_mount m (\<lambda>x. x\<lparr>mnt_refcnt := mnt_refcnt x + 1\<rparr>) st)))"

definition vfs_mount_put :: "'w env \<Rightarrow> addr \<Rightarrow> 'w fs \<Rightarrow> 'w fs res" where
  "vfs_mount_put E m st =
     (if m = NULL then Inr st
      else
        rbind (lock (Mount_Lock m) st) (\<lambda>st.
          let st = upd_mount m (\<lambda>x. x\<lparr>mnt_refcnt := mnt_refcnt x - 1\<rparr>) st
          in if mnt_refcnt (mount_at st m) = 0 then
               rbind (unlock (Mount_Lock m) st) (\<lambda>st.
               rbind (lock Vfs_State st) (\<lambda>st.
               rbind (link_del m (mnt_child (mount_at st m), mounts st)) (\<lambda>(l, xs).
                 let st = upd_mount m (\<lambda>x. x\<lparr>mnt_child := l\<rparr>) (st\<lparr>mounts := xs\<rparr>); p = mnt_parent (mount_at st m)
                 in rbind (if p \<noteq> NULL then
                             rbind (link_del m (mnt_mounts (mount_at st m), mnt_submounts (mount_at st p))) (\<lambda>(l, ys).
                               Inr (upd_mount m (\<lambda>x. x\<lparr>mnt_mounts := l\<rparr>) (upd_mount p (\<lambda>x. x\<lparr>mnt_submounts := ys\<rparr>) st)))
                           else Inr st) (\<lambda>st.
                    rbind (unlock Vfs_State st) (\<lambda>st.
                    rbind (super_put E (mnt_sb (mount_at st m)) st) (\<lambda>st.
                    rbind (dentry_put (mnt_mountpoint (mount_at st m)) st) (\<lambda>st.
                    rbind (dentry_put (mnt_root (mount_at st m)) st) (\<lambda>st.
                      Inr (heap_free E m st)))))))))
             else unlock (Mount_Lock m) st))"

end
