(* ===== verification/Namei.thy ===== *)
theory Namei
  imports Mount
begin

text \<open>
  Path resolution, \<^verbatim>\<open>src/fs/namei.c\<close>. A path is the list of its bytes. The loops that read one component,
  resolve it and go on are split in two: \<open>components\<close> is the sequence of names they read, which does
  not depend on the state, and \<open>walk_names\<close> and \<open>parent_names\<close> resolve them in turn.
\<close>

definition LAST_NORM :: u32 where "LAST_NORM = 0"
definition LAST_DOT :: u32 where "LAST_DOT = 2"
definition LAST_DOTDOT :: u32 where "LAST_DOTDOT = 3"

section \<open>Names of a path\<close>

abbreviation (input) slash :: u8 where "slash \<equiv> 0x2F"

definition name_dot :: cstring where "name_dot = [0x2E]"
definition name_dotdot :: cstring where "name_dotdot = [0x2E, 0x2E]"

definition vfs_get_name :: "cstring \<Rightarrow> cstring" where
  "vfs_get_name path = take NAME_MAX (takeWhile (\<lambda>c. c \<noteq> slash) path)"

definition vfs_skip_slashes :: "cstring \<Rightarrow> cstring" where
  "vfs_skip_slashes path = dropWhile (\<lambda>c. c = slash) path"

lemma length_skip: "length (vfs_skip_slashes path) \<le> length path"
  by (simp add: vfs_skip_slashes_def length_dropWhile_le)

lemma get_name_skip: "vfs_skip_slashes path = c # cs \<Longrightarrow> vfs_get_name (c # cs) \<noteq> []"
  by (auto simp: vfs_skip_slashes_def vfs_get_name_def NAME_MAX_def dropWhile_eq_Cons_conv)

function components :: "cstring \<Rightarrow> cstring list" where
  "components path =
     (let path = vfs_skip_slashes path
      in if path = [] then []
         else let name = vfs_get_name path in name # components (drop (length name) path))"
  by pat_completeness auto

termination
proof (relation "measure length")
  fix path p name :: cstring
  assume p: "p = vfs_skip_slashes path" "p \<noteq> []" and name: "name = vfs_get_name p"
  from p obtain c cs where "vfs_skip_slashes path = c # cs" by (metis list.exhaust)
  then have "name \<noteq> []" using get_name_skip [of path c cs] p(1) name by simp
  then have "length (drop (length name) p) < length p" using p(2) by simp
  also have "\<dots> \<le> length path" using length_skip p(1) by simp
  finally show "(drop (length name) p, path) \<in> measure length" by simp
qed simp

declare components.simps [simp del]

section \<open>One component\<close>

definition follow_mount :: "addr \<Rightarrow> 'w fs \<Rightarrow> ('w, addr) fs_res" where
  "follow_mount d st =
     rbind (vfs_lookup_mount d st) (\<lambda>(m, st).
       if m \<noteq> NULL then
         rbind (dentry_put d st) (\<lambda>st.
         rbind (dentry_get (mnt_root (mount_at st m)) st) (\<lambda>st.
           Inr (mnt_root (mount_at st m), st)))
       else Inr (d, st))"

definition vfs_lookup_single :: "'w env \<Rightarrow> addr \<Rightarrow> cstring \<Rightarrow> 'w fs \<Rightarrow> ('w, addr) fs_res" where
  "vfs_lookup_single E base name st =
     (if base = NULL \<or> name = [] then Inr (PTR (- EINVAL), st)
      else
        rbind (vfs_lookup_mount base st) (\<lambda>(m, st).
          let base = (if m \<noteq> NULL \<and> mnt_root (mount_at st m) \<noteq> NULL then mnt_root (mount_at st m) else base);
              i = d_inode (dentry_at st base)
          in if i = NULL \<or> \<not> S_ISDIR (i_mode (inode_at st i)) then Inr (PTR (- ENOTDIR), st)
             else case vtable (iops E) op_lookup (i_op (inode_at st i)) of
               None \<Rightarrow> Inr (PTR (- ENOSYS), st)
             | Some g \<Rightarrow>
                 let len = of_nat (length name);
                     q = \<lparr>q_ptr = NULL, q_name = name, q_len = len, q_hash = hash_string name len\<rparr>
                 in rbind (dentry_lookup (d_sb (dentry_at st base)) base q st) (\<lambda>(d, st).
                    if d \<noteq> NULL then Inr (d, st)
                    else
                      rbind (dentry_alloc E base (d_sb (dentry_at st base)) name st) (\<lambda>(d, st).
                        if IS_ERR d then Inr (d, st)
                        else
                          rbind (g (d_inode (dentry_at st base)) d st) (\<lambda>(result, st).
                            if IS_ERR result then rbind (dentry_free E d st) (\<lambda>st. Inr (result, st))
                            else
                              rbind (if result \<noteq> d then dentry_free E d st else Inr st) (\<lambda>st.
                              rbind (dentry_insert E result st) (\<lambda>(_, st).
                                Inr (result, st))))))))"

definition vfs_lookup_one_len :: "'w env \<Rightarrow> addr \<Rightarrow> cstring option \<Rightarrow> 'w fs \<Rightarrow> ('w, addr) fs_res" where
  "vfs_lookup_one_len E base name st =
     (case name of
        None \<Rightarrow> Inr (PTR (- EINVAL), st)
      | Some name \<Rightarrow>
          if base = NULL \<or> name = [] then Inr (PTR (- EINVAL), st)
          else vfs_lookup_single E base name st)"

section \<open>The walk\<close>

record nameidata =
  nd_dentry :: addr
  nd_inode :: addr
  nd_last_type :: u32
  nd_last :: cstring

text \<open>Resolve one name from directory \<open>d\<close>: an error code, or the next entry and its \<^verbatim>\<open>last_type\<close>.\<close>

definition walk_step :: "'w env \<Rightarrow> addr \<Rightarrow> cstring \<Rightarrow> 'w fs \<Rightarrow> ('w, int + addr \<times> u32) fs_res" where
  "walk_step E d name st =
     (if name = name_dot then Inr (Inr (d, LAST_DOT), st)
      else if name = name_dotdot then
        let p = d_parent (dentry_at st d)
        in Inr (Inr (if p \<noteq> NULL \<and> p \<noteq> d then p else d, LAST_DOTDOT), st)
      else
        rbind (vfs_lookup_single E d name st) (\<lambda>(n, st).
          if IS_ERR n then Inr (Inl (PTR_ERR n), st)
          else
            rbind (follow_mount n st) (\<lambda>(n, st).
            rbind (dentry_put d st) (\<lambda>st.
              Inr (Inr (n, LAST_NORM), st)))))"

fun walk_names :: "'w env \<Rightarrow> addr \<Rightarrow> u32 \<Rightarrow> cstring list \<Rightarrow> 'w fs \<Rightarrow> ('w, int + addr \<times> u32) fs_res" where
  "walk_names E d lt [] st = Inr (Inr (d, lt), st)"
| "walk_names E d lt (name # names) st =
     rbind (walk_step E d name st) (\<lambda>(r, st).
       case r of
         Inl e \<Rightarrow> Inr (Inl e, st)
       | Inr (d, lt) \<Rightarrow>
           if d = NULL then Inl Null_Deref
           else if names = [] then Inr (Inr (d, lt), st)
           else if d_inode (dentry_at st d) = NULL \<or> \<not> S_ISDIR (i_mode (inode_at st (d_inode (dentry_at st d))))
           then rbind (dentry_put d st) (\<lambda>st. Inr (Inl (- ENOTDIR), st))
           else walk_names E d lt names st)"

definition vfs_path_walk :: "'w env \<Rightarrow> nameidata \<Rightarrow> cstring \<Rightarrow> 'w fs \<Rightarrow> ('w, int \<times> nameidata) fs_res" where
  "vfs_path_walk E nd path st =
     (let d = nd_dentry nd
      in if d = NULL then Inr ((- ENOENT, nd), st)
         else
           let names = components path
           in if names = [] then Inr ((0, nd\<lparr>nd_inode := d_inode (dentry_at st d)\<rparr>), st)
              else
                rbind (walk_names E d (nd_last_type nd) names st) (\<lambda>(r, st).
                  case r of
                    Inl e \<Rightarrow> Inr ((e, nd), st)
                  | Inr (d, lt) \<Rightarrow>
                      Inr ((0, nd\<lparr>nd_dentry := d, nd_inode := d_inode (dentry_at st d), nd_last_type := lt,
                                 nd_last := last names\<rparr>), st)))"

definition vfs_path_lookup :: "'w env \<Rightarrow> addr \<Rightarrow> cstring option \<Rightarrow> 'w fs \<Rightarrow> ('w, addr) fs_res" where
  "vfs_path_lookup E base path st =
     (case path of
        None \<Rightarrow> Inr (PTR (- EINVAL), st)
      | Some path \<Rightarrow>
          rbind (if base = NULL then vfs_get_root st else Inr (base, st)) (\<lambda>(base, st).
            if base = NULL then Inr (PTR (- ENOENT), st)
            else
              rbind (dentry_get base st) (\<lambda>st.
                let nd = \<lparr>nd_dentry = base, nd_inode = d_inode (dentry_at st base), nd_last_type = LAST_NORM,
                          nd_last = []\<rparr>
                in rbind (vfs_path_walk E nd path st) (\<lambda>((ret, nd), st).
                   if ret < 0 then rbind (dentry_put base st) (\<lambda>st. Inr (PTR ret, st))
                   else Inr (nd_dentry nd, st)))))"

section \<open>The parent of a path\<close>

fun parent_names :: "'w env \<Rightarrow> addr \<Rightarrow> addr \<Rightarrow> cstring list \<Rightarrow> 'w fs \<Rightarrow> ('w, int + addr) fs_res" where
  "parent_names E base cur (name # next_name # names) st =
     rbind (vfs_lookup_single E cur name st) (\<lambda>(n, st).
       if IS_ERR n then rbind (dentry_put base st) (\<lambda>st. Inr (Inl (PTR_ERR n), st))
       else
         rbind (follow_mount n st) (\<lambda>(n, st).
         rbind (if cur \<noteq> base then dentry_put cur st else Inr st) (\<lambda>st.
           parent_names E base n (next_name # names) st)))"
| "parent_names E base cur _ st = Inr (Inr cur, st)"

text \<open>An error code, or the entry and the inode of the parent and the last name, in fresh memory.\<close>

definition vfs_path_parent ::
  "'w env \<Rightarrow> addr \<Rightarrow> cstring option \<Rightarrow> 'w fs \<Rightarrow> ('w, int + addr \<times> addr \<times> qstr) fs_res" where
  "vfs_path_parent E base path st =
     (case path of
        None \<Rightarrow> Inr (Inl (- EINVAL), st)
      | Some path \<Rightarrow>
          rbind (if base = NULL then vfs_get_root st else Inr (base, st)) (\<lambda>(base, st).
            if base = NULL then Inr (Inl (- ENOENT), st)
            else
              rbind (dentry_get base st) (\<lambda>st.
                let names = components path
                in rbind (parent_names E base base names st) (\<lambda>(r, st).
                   case r of
                     Inl e \<Rightarrow> Inr (Inl e, st)
                   | Inr cur \<Rightarrow>
                       if cur = NULL then Inl Null_Deref
                       else
                         let name = (if names = [] then [] else last names);
                             (p, st) = heap_alloc E (of_nat (length name) + 1) st
                         in if p = NULL then rbind (dentry_put base st) (\<lambda>st. Inr (Inl (- ENOMEM), st))
                            else Inr (Inr (cur, d_inode (dentry_at st cur), qstr_init p name), st)))))"

end
