(* ===== verification/Fd_Table.thy ===== *)
theory Fd_Table
  imports Open_File
begin

text \<open>
  Descriptor tables, \<^verbatim>\<open>src/fs/fd_table.c\<close>. The array is a list; an index at or beyond its length is
  \<open>Out_Of_Bounds\<close>. The loops over the array are folds over its indices.
\<close>

definition NR_OPEN_DEFAULT :: u32 where "NR_OPEN_DEFAULT = 32"
definition NR_OPEN_MAX :: u32 where "NR_OPEN_MAX = 1024"

definition sizeof_fd_table :: u64 where "sizeof_fd_table = 40"

definition fd_slot :: "addr \<Rightarrow> nat \<Rightarrow> 'w fs \<Rightarrow> addr res" where
  "fd_slot t i st = (if i < length (fds (fdt_at st t)) then Inr (fds (fdt_at st t) ! i) else Inl Out_Of_Bounds)"

definition set_fd_slot :: "addr \<Rightarrow> nat \<Rightarrow> addr \<Rightarrow> 'w fs \<Rightarrow> 'w fs res" where
  "set_fd_slot t i f st =
     (if i < length (fds (fdt_at st t)) then Inr (upd_fdt t (\<lambda>x. x\<lparr>fds := (fds x)[i := f]\<rparr>) st) else Inl Out_Of_Bounds)"

definition fd_table_alloc :: "'w env \<Rightarrow> 'w fs \<Rightarrow> addr \<times> 'w fs" where
  "fd_table_alloc E st =
     (let (t, st) = heap_alloc E sizeof_fd_table st
      in if t = NULL then (NULL, st)
         else
           let (p, st) = heap_alloc E (8 * ucast NR_OPEN_DEFAULT) st
           in if p = NULL then (NULL, heap_free E t st)
              else (t, init_lock (Fdt_Lock t) ''fd_table'' (upd_fdt t (\<lambda>_.
                \<lparr>fds_ptr = p, fds = replicate (unat NR_OPEN_DEFAULT) NULL, max_fds = NR_OPEN_DEFAULT, open_fds = 0\<rparr>) st)))"

fun put_fds :: "'w env \<Rightarrow> addr \<Rightarrow> nat list \<Rightarrow> 'w fs \<Rightarrow> 'w fs res" where
  "put_fds E t [] st = Inr st"
| "put_fds E t (i # is) st =
     rbind (fd_slot t i st) (\<lambda>f.
     rbind (if f \<noteq> NULL then rbind (file_put E f st) (\<lambda>st. set_fd_slot t i NULL st) else Inr st) (\<lambda>st.
       put_fds E t is st))"

definition fd_table_free :: "'w env \<Rightarrow> addr \<Rightarrow> 'w fs \<Rightarrow> 'w fs res" where
  "fd_table_free E t st =
     (if t = NULL then Inr st
      else
        rbind (lock (Fdt_Lock t) st) (\<lambda>st.
        rbind (put_fds E t [0..<unat (max_fds (fdt_at st t))] st) (\<lambda>st.
        rbind (unlock (Fdt_Lock t) (heap_free E (fds_ptr (fdt_at st t)) st)) (\<lambda>st.
          Inr (heap_free E t st)))))"

fun dup_fds :: "addr \<Rightarrow> addr \<Rightarrow> nat list \<Rightarrow> 'w fs \<Rightarrow> 'w fs res" where
  "dup_fds t u [] st = Inr st"
| "dup_fds t u (i # is) st =
     rbind (fd_slot t i st) (\<lambda>f.
     rbind (if f \<noteq> NULL then
              rbind (file_get f st) (\<lambda>st.
              rbind (set_fd_slot u i f st) (\<lambda>st.
                Inr (upd_fdt u (\<lambda>x. x\<lparr>open_fds := open_fds x + 1\<rparr>) st)))
            else Inr st) (\<lambda>st.
       dup_fds t u is st))"

definition fd_table_dup :: "'w env \<Rightarrow> addr \<Rightarrow> 'w fs \<Rightarrow> ('w, addr) fs_res" where
  "fd_table_dup E t st =
     (if t = NULL then Inr (NULL, st)
      else
        let (u, st) = fd_table_alloc E st
        in if u = NULL then Inr (NULL, st)
           else
             rbind (lock (Fdt_Lock t) st) (\<lambda>st.
             rbind (lock (Fdt_Lock u) st) (\<lambda>st.
             rbind (dup_fds t u [0..<unat (min (max_fds (fdt_at st t)) (max_fds (fdt_at st u)))] st) (\<lambda>st.
             rbind (unlock (Fdt_Lock u) st) (\<lambda>st.
             rbind (unlock (Fdt_Lock t) st) (\<lambda>st.
               Inr (u, st)))))))"

definition first_free_fd :: "fd_table \<Rightarrow> nat option" where
  "first_free_fd x = find (\<lambda>i. fds x ! i = NULL) [0..<unat (max_fds x)]"

definition fd_alloc :: "'w env \<Rightarrow> addr \<Rightarrow> 'w fs \<Rightarrow> ('w, int) fs_res" where
  "fd_alloc E t st =
     (if t = NULL then Inr (- EINVAL, st)
      else
        rbind (lock (Fdt_Lock t) st) (\<lambda>st.
          let (fd, st) =
            (case first_free_fd (fdt_at st t) of
               Some i \<Rightarrow> (int i, upd_fdt t (\<lambda>x. x\<lparr>open_fds := open_fds x + 1\<rparr>) st)
             | None \<Rightarrow>
                 let m = max_fds (fdt_at st t)
                 in if m < NR_OPEN_MAX then
                      let new_max = m * 2;
                          new_max = (if new_max > NR_OPEN_MAX then NR_OPEN_MAX else new_max);
                          (p, st) = heap_alloc E (8 * ucast new_max) st
                      in if p \<noteq> NULL then
                           let old = fds_ptr (fdt_at st t);
                               xs = take (unat m) (fds (fdt_at st t)) @ replicate (unat new_max - unat m) NULL;
                               st = heap_free E old st
                           in (int (unat new_max) div 2,
                               upd_fdt t (\<lambda>x. x\<lparr>fds_ptr := p, fds := xs, max_fds := new_max, open_fds := open_fds x + 1\<rparr>) st)
                         else (- EMFILE, st)
                    else (- EMFILE, st))
          in rbind (unlock (Fdt_Lock t) st) (\<lambda>st. Inr (fd, st))))"

definition bad_fd :: "addr \<Rightarrow> int \<Rightarrow> 'w fs \<Rightarrow> bool" where
  "bad_fd t fd st \<longleftrightarrow> t = NULL \<or> fd < 0 \<or> of_int fd \<ge> max_fds (fdt_at st t)"

definition fd_free :: "'w env \<Rightarrow> addr \<Rightarrow> int \<Rightarrow> 'w fs \<Rightarrow> 'w fs res" where
  "fd_free E t fd st =
     (if bad_fd t fd st then Inr st
      else
        rbind (lock (Fdt_Lock t) st) (\<lambda>st.
        rbind (fd_slot t (nat fd) st) (\<lambda>f.
        rbind (if f \<noteq> NULL then
                 rbind (file_put E f st) (\<lambda>st.
                 rbind (set_fd_slot t (nat fd) NULL st) (\<lambda>st.
                   Inr (upd_fdt t (\<lambda>x. x\<lparr>open_fds := open_fds x - 1\<rparr>) st)))
               else Inr st) (\<lambda>st.
          unlock (Fdt_Lock t) st))))"

definition fd_get :: "addr \<Rightarrow> int \<Rightarrow> 'w fs \<Rightarrow> ('w, addr) fs_res" where
  "fd_get t fd st =
     (if bad_fd t fd st then Inr (NULL, st)
      else
        rbind (lock (Fdt_Lock t) st) (\<lambda>st.
        rbind (fd_slot t (nat fd) st) (\<lambda>f.
        rbind (if f \<noteq> NULL then file_get f st else Inr st) (\<lambda>st.
        rbind (unlock (Fdt_Lock t) st) (\<lambda>st. Inr (f, st))))))"

definition fd_install :: "addr \<Rightarrow> int \<Rightarrow> addr \<Rightarrow> 'w fs \<Rightarrow> ('w, int) fs_res" where
  "fd_install t fd f st =
     (if bad_fd t fd st \<or> f = NULL then Inr (- EINVAL, st)
      else
        rbind (lock (Fdt_Lock t) st) (\<lambda>st.
        rbind (fd_slot t (nat fd) st) (\<lambda>g.
          if g \<noteq> NULL then rbind (unlock (Fdt_Lock t) st) (\<lambda>st. Inr (- EBADF, st))
          else
            rbind (set_fd_slot t (nat fd) f st) (\<lambda>st.
            rbind (unlock (Fdt_Lock t) (upd_fdt t (\<lambda>x. x\<lparr>open_fds := open_fds x + 1\<rparr>) st)) (\<lambda>st.
              Inr (0, st))))))"

end
