(* ===== verification/Vfs.thy ===== *)
theory Vfs
  imports Namei Fd_Table
begin

text \<open>
  The calls that take a path, and the calls on open files, \<^verbatim>\<open>src/fs/vfs.c\<close>. In \<^verbatim>\<open>vfs_open\<close> the tests of
  \<^verbatim>\<open>parent.dentry\<close> and \<^verbatim>\<open>parent.dentry->d_inode\<close> are repeated in the source; each stands here once.
\<close>

section \<open>Initialisation\<close>

definition vfs_init :: "'w env \<Rightarrow> 'w fs \<Rightarrow> 'w fs res" where
  "vfs_init E st =
     (let st = (init_lock Vfs_State ''vfs'' st)\<lparr>fs_types := [], mounts := [], vfs_supers := [], root_mount := NULL\<rparr>
      in rbind (inode_init E (super_init st)) (\<lambda>st.
         rbind (dentry_init E st) (\<lambda>st.
           Inr (file_init st))))"

definition is_dir :: "'w fs \<Rightarrow> addr \<Rightarrow> bool" where
  "is_dir st i \<longleftrightarrow> S_ISDIR (i_mode (inode_at st i))"

text \<open>The exits that free the copied name and put_ret the parent.\<close>

definition drop_parent :: "'w env \<Rightarrow> addr \<Rightarrow> addr \<Rightarrow> 'a \<Rightarrow> 'w fs \<Rightarrow> ('w, 'a) fs_res" where
  "drop_parent E p d r st = rbind (dentry_put d (heap_free E p st)) (\<lambda>st. Inr (r, st))"

definition put_ret :: "addr \<Rightarrow> 'a \<Rightarrow> 'w fs \<Rightarrow> ('w, 'a) fs_res" where
  "put_ret d r st = rbind (dentry_put d st) (\<lambda>st. Inr (r, st))"

section \<open>Mounting on a path\<close>

definition vfs_mount_to :: "'w env \<Rightarrow> cstring option \<Rightarrow> addr \<Rightarrow> u64 \<Rightarrow> 'w fs \<Rightarrow> ('w, int) fs_res" where
  "vfs_mount_to E path t dev st =
     (if path = None \<or> t = NULL then Inr (- EINVAL, st)
      else
        rbind (vfs_path_lookup E NULL path st) (\<lambda>(mp, st).
          if IS_ERR mp then Inr (PTR_ERR mp, st)
          else if d_inode (dentry_at st mp) = NULL \<or> \<not> is_dir st (d_inode (dentry_at st mp)) then put_ret mp (- ENOTDIR) st
          else
            rbind (vfs_mount E t dev NULL st) (\<lambda>(sb, st).
              if IS_ERR sb then put_ret mp (PTR_ERR sb) st
              else
                let (m, st) = heap_alloc E sizeof_mount st
                in if m = NULL then rbind (vfs_umount E sb st) (\<lambda>(_, st). put_ret mp (- ENOMEM) st)
                   else
                     rbind (vfs_get_root_mount st) (\<lambda>(root, st).
                       if root = NULL then
                         rbind (vfs_umount E sb (heap_free E m st)) (\<lambda>(_, st). put_ret mp (- ENOENT) st)
                       else
                         let st = init_lock (Mount_Lock m) ''mount'' (upd_mount m (\<lambda>_.
                               \<lparr>mnt_parent = root, mnt_mountpoint = mp, mnt_root = s_root (super_at st sb), mnt_sb = sb,
                                mnt_submounts = [], mnt_mounts = Self_Linked, mnt_child = Self_Linked,
                                mnt_flags = 0, mnt_refcnt = 1\<rparr>) st)
                         in rbind (lock Vfs_State st) (\<lambda>st.
                            rbind (link_add m (mnt_mounts (mount_at st m), mnt_submounts (mount_at st root))) (\<lambda>(l1, xs).
                            rbind (link_add m (mnt_child (mount_at st m), mounts st)) (\<lambda>(l2, ys).
                              let st = upd_mount root (\<lambda>x. x\<lparr>mnt_submounts := xs\<rparr>) st;
                                  st = upd_mount m (\<lambda>x. x\<lparr>mnt_mounts := l1, mnt_child := l2\<rparr>) (st\<lparr>mounts := ys\<rparr>)
                              in rbind (unlock Vfs_State st) (\<lambda>st. Inr (0, st)))))))))"

section \<open>Open files\<close>

definition vfs_open_create :: "'w env \<Rightarrow> cstring option \<Rightarrow> 'w fs \<Rightarrow> ('w, int + addr) fs_res" where
  "vfs_open_create E path st =
     rbind (vfs_path_parent E NULL path st) (\<lambda>(r, st).
       case r of
         Inl e \<Rightarrow> Inr (Inl e, st)
       | Inr (pd, _, last_name) \<Rightarrow>
           let np = q_ptr last_name; i = d_inode (dentry_at st pd)
           in if i = NULL then drop_parent E np pd (Inl (- ENOENT)) st
              else if \<not> is_dir st i then drop_parent E np pd (Inl (- ENOTDIR)) st
              else case vtable (iops E) op_create (i_op (inode_at st i)) of
                None \<Rightarrow> drop_parent E np pd (Inl (- ENOSYS)) st
              | Some g \<Rightarrow>
                  rbind (dentry_alloc E pd (d_sb (dentry_at st pd)) (q_name last_name) st) (\<lambda>(d, st).
                    if IS_ERR d then drop_parent E np pd (Inl (PTR_ERR d)) st
                    else
                      rbind (g (d_inode (dentry_at st pd)) d (S_IFREG OR 0x1A4) st) (\<lambda>(ret, st).
                        if ret < 0 then
                          rbind (dentry_free E d st) (\<lambda>st. drop_parent E np pd (Inl ret) st)
                        else
                          rbind (dentry_insert E d st) (\<lambda>(_, st). drop_parent E np pd (Inr d) st))))"

definition vfs_open :: "'w env \<Rightarrow> cstring option \<Rightarrow> u32 \<Rightarrow> 'w fs \<Rightarrow> ('w, addr) fs_res" where
  "vfs_open E path fl st =
     (if path = None then Inr (PTR (- EINVAL), st)
      else
        rbind (vfs_path_lookup E NULL path st) (\<lambda>(d, st).
        rbind (if IS_ERR d then
                 if fl AND O_CREAT \<noteq> 0 \<and> PTR_ERR d = - ENOENT then vfs_open_create E path st
                 else Inr (Inl (PTR_ERR d), st)
               else Inr (Inr d, st)) (\<lambda>(r, st).
          case r of
            Inl e \<Rightarrow> Inr (PTR e, st)
          | Inr d \<Rightarrow>
              rbind (file_open E d fl st) (\<lambda>(f, st).
                if IS_ERR f then put_ret d f st else Inr (f, st)))))"

definition vfs_close :: "'w env \<Rightarrow> addr \<Rightarrow> 'w fs \<Rightarrow> ('w, int) fs_res" where
  "vfs_close E f st = file_close E f st"

definition vfs_read :: "'w env \<Rightarrow> addr \<Rightarrow> addr \<Rightarrow> u64 \<Rightarrow> 'w fs \<Rightarrow> ('w, int) fs_res" where
  "vfs_read E f buf n st = file_read E f buf n st"

definition vfs_write :: "'w env \<Rightarrow> addr \<Rightarrow> addr \<Rightarrow> u64 \<Rightarrow> 'w fs \<Rightarrow> ('w, int) fs_res" where
  "vfs_write E f buf n st = file_write E f buf n st"

definition vfs_lseek :: "'w env \<Rightarrow> addr \<Rightarrow> u64 \<Rightarrow> int \<Rightarrow> 'w fs \<Rightarrow> ('w, int) fs_res" where
  "vfs_lseek E f offset whence st = file_lseek E f offset whence st"

definition vfs_getdents :: "'w env \<Rightarrow> addr \<Rightarrow> addr \<Rightarrow> u64 \<Rightarrow> 'w fs \<Rightarrow> ('w, int) fs_res" where
  "vfs_getdents E f buf n st =
     (if f = NULL \<or> buf = NULL \<or> n = 0 then Inr (- EINVAL, st)
      else
        let i = f_inode (file_at st f)
        in if i = NULL then Inr (- ENOENT, st)
           else if \<not> is_dir st i then Inr (- ENOTDIR, st)
           else if vtable (fops E) op_readdir (f_op (file_at st f)) = None then Inr (- ENOSYS, st)
           else file_getdents E f buf n st)"

definition vfs_sync :: int where "vfs_sync = 0"

definition vfs_fsync :: "'w env \<Rightarrow> addr \<Rightarrow> 'w fs \<Rightarrow> ('w, int) fs_res" where
  "vfs_fsync E f st =
     (if f = NULL then Inr (- EINVAL, st)
      else case vtable (fops E) op_fsync (f_op (file_at st f)) of
        None \<Rightarrow> Inr (0, st)
      | Some g \<Rightarrow> g f st)"

section \<open>Creating entries\<close>

text \<open>
  \<^verbatim>\<open>vfs_mkdir\<close> and \<^verbatim>\<open>vfs_create\<close> have the same body up to the operation and the type bits of the mode.
\<close>

definition make_entry ::
  "'w env \<Rightarrow> ('w inode_operations \<Rightarrow> (addr \<Rightarrow> addr \<Rightarrow> u32 \<Rightarrow> 'w fs \<Rightarrow> ('w, int) fs_res) option) \<Rightarrow> u32 \<Rightarrow>
   cstring option \<Rightarrow> u32 \<Rightarrow> 'w fs \<Rightarrow> ('w, int) fs_res" where
  "make_entry E fld type_bits path mode st =
     (if path = None then Inr (- EINVAL, st)
      else
        rbind (vfs_path_parent E NULL path st) (\<lambda>(r, st).
          case r of
            Inl e \<Rightarrow> Inr (e, st)
          | Inr (pd, _, last_name) \<Rightarrow>
              let np = q_ptr last_name; i = d_inode (dentry_at st pd)
              in if i = NULL \<or> \<not> is_dir st i then drop_parent E np pd (- ENOTDIR) st
                 else case vtable (iops E) fld (i_op (inode_at st i)) of
                   None \<Rightarrow> drop_parent E np pd (- ENOSYS) st
                 | Some g \<Rightarrow>
                     rbind (dentry_alloc E pd (d_sb (dentry_at st pd)) (q_name last_name) st) (\<lambda>(d, st).
                       if IS_ERR d then drop_parent E np pd (PTR_ERR d) st
                       else
                         rbind (g (d_inode (dentry_at st pd)) d (type_bits OR (mode AND 0x1FF)) st) (\<lambda>(ret, st).
                           if ret < 0 then
                             rbind (dentry_free E d st) (\<lambda>st. drop_parent E np pd ret st)
                           else
                             rbind (dentry_insert E d st) (\<lambda>(_, st).
                             rbind (dentry_put d (heap_free E np st)) (\<lambda>st.
                             rbind (dentry_put pd st) (\<lambda>st. Inr (0, st))))))))"

definition vfs_mkdir :: "'w env \<Rightarrow> cstring option \<Rightarrow> u32 \<Rightarrow> 'w fs \<Rightarrow> ('w, int) fs_res" where
  "vfs_mkdir E path mode st = make_entry E op_mkdir S_IFDIR path mode st"

definition vfs_create :: "'w env \<Rightarrow> cstring option \<Rightarrow> u32 \<Rightarrow> 'w fs \<Rightarrow> ('w, int) fs_res" where
  "vfs_create E path mode st = make_entry E op_create S_IFREG path mode st"

section \<open>Removing entries\<close>

text \<open>The common tail of \<^verbatim>\<open>vfs_rmdir\<close> and \<^verbatim>\<open>vfs_unlink\<close>, from the test of the parent on.\<close>

definition remove_entry ::
  "'w env \<Rightarrow> ('w inode_operations \<Rightarrow> (addr \<Rightarrow> addr \<Rightarrow> 'w fs \<Rightarrow> ('w, int) fs_res) option) \<Rightarrow> addr \<Rightarrow> 'w fs \<Rightarrow>
   ('w, int) fs_res" where
  "remove_entry E fld d st =
     (let p = d_parent (dentry_at st d); pi = d_inode (dentry_at st p)
      in if p = NULL \<or> pi = NULL then put_ret d (- ENOENT) st
         else case vtable (iops E) fld (i_op (inode_at st pi)) of
           None \<Rightarrow> put_ret d (- ENOSYS) st
         | Some g \<Rightarrow>
             rbind (g pi d st) (\<lambda>(ret, st).
               if ret < 0 then put_ret d ret st
               else rbind (dentry_delete E d st) (\<lambda>st. Inr (0, st))))"

definition vfs_rmdir :: "'w env \<Rightarrow> cstring option \<Rightarrow> 'w fs \<Rightarrow> ('w, int) fs_res" where
  "vfs_rmdir E path st =
     (if path = None then Inr (- EINVAL, st)
      else
        rbind (vfs_path_lookup E NULL path st) (\<lambda>(d, st).
          if IS_ERR d then Inr (PTR_ERR d, st)
          else if d_inode (dentry_at st d) = NULL \<or> \<not> is_dir st (d_inode (dentry_at st d)) then put_ret d (- ENOTDIR) st
          else remove_entry E op_rmdir d st))"

definition vfs_unlink :: "'w env \<Rightarrow> cstring option \<Rightarrow> 'w fs \<Rightarrow> ('w, int) fs_res" where
  "vfs_unlink E path st =
     (if path = None then Inr (- EINVAL, st)
      else
        rbind (vfs_path_lookup E NULL path st) (\<lambda>(d, st).
          if IS_ERR d then Inr (PTR_ERR d, st)
          else if d_inode (dentry_at st d) = NULL then put_ret d (- ENOENT) st
          else if is_dir st (d_inode (dentry_at st d)) then put_ret d (- EISDIR) st
          else remove_entry E op_unlink d st))"

section \<open>Renaming\<close>

definition vfs_rename :: "'w env \<Rightarrow> cstring option \<Rightarrow> cstring option \<Rightarrow> 'w fs \<Rightarrow> ('w, int) fs_res" where
  "vfs_rename E old_path new_path st =
     (if old_path = None \<or> new_path = None then Inr (- EINVAL, st)
      else
        rbind (vfs_path_lookup E NULL old_path st) (\<lambda>(od, st).
          if IS_ERR od then Inr (PTR_ERR od, st)
          else
            rbind (vfs_path_parent E NULL new_path st) (\<lambda>(r, st).
              case r of
                Inl e \<Rightarrow> put_ret od e st
              | Inr (pd, _, new_last) \<Rightarrow>
                  let np = q_ptr new_last; i = d_inode (dentry_at st pd);
                      fail = (\<lambda>e st. rbind (dentry_put od (heap_free E np st)) (\<lambda>st. put_ret pd e st))
                  in if i = NULL \<or> \<not> is_dir st i then fail (- ENOTDIR) st
                     else
                       rbind (dentry_alloc E pd (d_sb (dentry_at st pd)) (q_name new_last) st) (\<lambda>(nd, st).
                         if IS_ERR nd then fail (PTR_ERR nd) st
                         else
                           let op = d_parent (dentry_at st od); oi = d_inode (dentry_at st op)
                           in if op = NULL \<or> oi = NULL then rbind (dentry_free E nd st) (fail (- ENOENT))
                              else case vtable (iops E) op_rename (i_op (inode_at st oi)) of
                                None \<Rightarrow> rbind (dentry_free E nd st) (fail (- ENOSYS))
                              | Some g \<Rightarrow>
                                  rbind (g oi od (d_inode (dentry_at st pd)) nd st) (\<lambda>(ret, st).
                                    if ret < 0 then rbind (dentry_free E nd st) (fail ret)
                                    else
                                      rbind (dentry_insert E nd st) (\<lambda>(_, st).
                                      rbind (dentry_delete E od st) (\<lambda>st.
                                      rbind (dentry_put nd (heap_free E np st)) (\<lambda>st.
                                      rbind (dentry_put pd st) (\<lambda>st. Inr (0, st))))))))))"

section \<open>Statistics\<close>

text \<open>The fields of \<^verbatim>\<open>struct statfs\<close> that are not the constant 0.\<close>

record statfs =
  st_bsize :: u64
  st_fsid :: u64
  st_namelen :: u64
  st_frsize :: u64
  st_flags :: u64

definition vfs_statfs ::
  "'w env \<Rightarrow> cstring option \<Rightarrow> addr \<Rightarrow> 'w fs \<Rightarrow> ('w, int \<times> statfs option) fs_res" where
  "vfs_statfs E path buf st =
     (if path = None \<or> buf = NULL then Inr ((- EINVAL, None), st)
      else
        rbind (vfs_path_lookup E NULL path st) (\<lambda>(d, st).
          if IS_ERR d then Inr ((PTR_ERR d, None), st)
          else
            let i = d_inode (dentry_at st d)
            in if i = NULL then put_ret d (- ENOENT, None) st
               else
                 let sb = i_sb (inode_at st i)
                 in case inode_sop E op_statfs sb st of
                      None \<Rightarrow> put_ret d (- ENOSYS, None) st
                    | Some g \<Rightarrow>
                        rbind (g sb st) (\<lambda>(ret, st).
                          let b = super_at st sb;
                              r = (if ret = 0 then
                                     Some \<lparr>st_bsize = ucast (s_blocksize b), st_fsid = s_dev b,
                                           st_namelen = of_nat NAME_MAX, st_frsize = ucast (s_blocksize b),
                                           st_flags = s_flags b\<rparr>
                                   else None)
                          in put_ret d (ret, r) st)))"

end
