(* ===== verification/Fs_Correct.thy ===== *)
theory Fs_Correct
  imports Vfs
begin

text \<open>
  The lemmas of the file-system layer: locks are taken and given back, and the small operations have
  the effect their callers rely on.
\<close>

section \<open>Locks\<close>

lemma fs_quiet_free: "fs_quiet st \<Longrightarrow> lock_free (fs_locks st l)"
  by (simp add: fs_quiet_def)

lemma fs_quiet_hart: "fs_quiet st \<Longrightarrow> hart_ok (fs_cpu st)"
  by (simp add: fs_quiet_def)

lemmas fs_locking = lock_def unlock_def lock_simps fs_quiet_free fs_quiet_hart

text \<open>
  \<open>relocked s t\<close>: \<open>t\<close> is \<open>s\<close> after critical sections that were all left; it differs in nothing but the
  bookkeeping of the locks.
\<close>

definition relocked :: "'w fs \<Rightarrow> 'w fs \<Rightarrow> bool" where
  "relocked s t \<longleftrightarrow> fs_quiet t \<and> t = s\<lparr>fs_cpu := fs_cpu t, fs_locks := fs_locks t\<rparr>"

lemma relockedI:
  "t = s\<lparr>fs_cpu := c, fs_locks := k\<rparr> \<Longrightarrow> hart_ok c \<Longrightarrow> (\<And>l. lock_free (k l)) \<Longrightarrow> relocked s t"
  by (simp add: relocked_def fs_quiet_def)

lemma relocked_quiet: "relocked s t \<Longrightarrow> fs_quiet t"
  by (simp add: relocked_def)

lemma relocked_fields:
  assumes "relocked s t"
  shows "world t = world s" "file_at t = file_at s" "file_list t = file_list s" "file_count t = file_count s"
    "inode_at t = inode_at s" "inode_ht t = inode_ht s" "inode_list t = inode_list s" "inode_count t = inode_count s"
    "dentry_at t = dentry_at s" "dentry_ht t = dentry_ht s" "dentry_list t = dentry_list s" "dentry_lru t = dentry_lru s"
    "fdt_at t = fdt_at s" "super_at t = super_at s" "super_list t = super_list s" "mounts t = mounts s"
    "mount_at t = mount_at s" "root_mount t = root_mount s" "dentry_count t = dentry_count s"
  by (subst assms [unfolded relocked_def, THEN conjunct2], simp)+

text \<open>The state after one critical section.\<close>

definition passed :: "fs_lock \<Rightarrow> 'w fs \<Rightarrow> 'w fs" where
  "passed l st = st\<lparr>fs_cpu := leave (fs_cpu st), fs_locks := (fs_locks st)(l := unhold (fs_locks st l))\<rparr>"

lemma passed_quiet [simp]: "fs_quiet st \<Longrightarrow> fs_quiet (passed l st)"
  by (simp add: fs_quiet_def passed_def)

lemma passed_fields [simp]:
  "world (passed l st) = world st" "file_at (passed l st) = file_at st" "file_list (passed l st) = file_list st"
  "inode_at (passed l st) = inode_at st" "inode_ht (passed l st) = inode_ht st" "inode_list (passed l st) = inode_list st"
  "dentry_at (passed l st) = dentry_at st" "dentry_ht (passed l st) = dentry_ht st"
  "dentry_list (passed l st) = dentry_list st" "dentry_lru (passed l st) = dentry_lru st"
  "fdt_at (passed l st) = fdt_at st" "mounts (passed l st) = mounts st" "mount_at (passed l st) = mount_at st"
  "super_at (passed l st) = super_at st" "root_mount (passed l st) = root_mount st"
  by (simp_all add: passed_def)

lemma upd_quiet [simp]:
  "fs_quiet (upd_file f g st) = fs_quiet st" "fs_quiet (upd_fdt t g' st) = fs_quiet st"
  "fs_quiet (upd_inode i g'' st) = fs_quiet st" "fs_quiet (upd_dentry d h st) = fs_quiet st"
  by (simp_all add: fs_quiet_def fs_upds)

section \<open>Reference counts\<close>

lemma file_get_quiet:
  assumes "fs_quiet st" and "f \<noteq> NULL"
  shows "\<exists>t. file_get f st = Inr t \<and> relocked (upd_file f (\<lambda>x. x\<lparr>f_refcnt := f_refcnt x + 1\<rparr>) st) t"
  using assms
  by (auto simp: file_get_def fs_locking fs_upds intro!: relockedI)

section \<open>Descriptor tables\<close>

text \<open>A table as the map from its descriptors to open files, and the shape every table has.\<close>

definition fd_map :: "fd_table \<Rightarrow> nat \<Rightarrow> addr option" where
  "fd_map x i = (if i < length (fds x) \<and> fds x ! i \<noteq> NULL then Some (fds x ! i) else None)"

definition fdt_wf :: "fd_table \<Rightarrow> bool" where
  "fdt_wf x \<longleftrightarrow> length (fds x) = unat (max_fds x) \<and> max_fds x \<in> set [32, 64, 128, 256, 512, 1024]"

lemma fd_map_alloc: "fd_map (x\<lparr>open_fds := n\<rparr>) = fd_map x"
  by (simp add: fd_map_def fun_eq_iff)

lemma fd_map_grow: "fd_map (x\<lparr>fds_ptr := p, fds := fds x @ replicate n NULL, max_fds := m, open_fds := k\<rparr>) = fd_map x"
  by (auto simp: fd_map_def fun_eq_iff nth_append)

lemma fd_map_set:
  "i < length (fds x) \<Longrightarrow> fd_map (x\<lparr>fds := (fds x)[i := f], open_fds := n\<rparr>) =
     (if f = NULL then (fd_map x)(i := None) else (fd_map x)(i \<mapsto> f))"
  by (auto simp: fd_map_def fun_eq_iff nth_list_update)

lemma find_upt_Some:
  assumes "find P [0..<n] = Some i"
  shows "i < n \<and> P i \<and> (\<forall>j<i. \<not> P j)"
  using assms by (auto simp: find_Some_iff)

lemma find_upt_None: "find P [0..<n] = None \<longleftrightarrow> (\<forall>i<n. \<not> P i)"
  by (auto simp: find_None_iff)

lemma first_free_Some:
  assumes "first_free_fd x = Some i" and "fdt_wf x"
  shows "i < length (fds x) \<and> fd_map x i = None \<and> (\<forall>j<i. fd_map x j \<noteq> None)"
  using find_upt_Some [OF assms(1) [unfolded first_free_fd_def]] assms(2)
  by (auto simp: fd_map_def fdt_wf_def)

lemma first_free_None:
  assumes "first_free_fd x = None" and "fdt_wf x" and "i < length (fds x)"
  shows "fd_map x i \<noteq> None"
  using assms by (auto simp: first_free_fd_def find_upt_None fd_map_def fdt_wf_def)

lemma fdt_wf_bounds: "fdt_wf x \<Longrightarrow> 32 \<le> length (fds x) \<and> length (fds x) \<le> 1024"
  by (auto simp: fdt_wf_def)

lemma fdt_wf_grow:
  assumes "fdt_wf x" and "max_fds x < NR_OPEN_MAX"
  defines "m \<equiv> (if max_fds x * 2 > NR_OPEN_MAX then NR_OPEN_MAX else max_fds x * 2)"
  shows "unat m = 2 * unat (max_fds x)" and "fdt_wf (x\<lparr>fds_ptr := p, fds := fds x @ replicate (unat m - unat (max_fds x)) NULL, max_fds := m, open_fds := k\<rparr>)"
proof -
  have "max_fds x \<in> {32, 64, 128, 256, 512}" using assms by (auto simp: fdt_wf_def NR_OPEN_MAX_def)
  then show *: "unat m = 2 * unat (max_fds x)" by (auto simp: m_def NR_OPEN_MAX_def)
  have "m \<in> set [32, 64, 128, 256, 512, 1024]"
    using \<open>max_fds x \<in> _\<close> by (auto simp: m_def NR_OPEN_MAX_def)
  then show "fdt_wf (x\<lparr>fds_ptr := p, fds := fds x @ replicate (unat m - unat (max_fds x)) NULL, max_fds := m, open_fds := k\<rparr>)"
    using assms(1) * by (simp add: fdt_wf_def)
qed

lemma bad_fd_iff:
  assumes "fdt_wf (fdt_at st t)" and "t \<noteq> NULL" and "0 \<le> fd" and "fd < 2 ^ 31"
  shows "bad_fd t fd st \<longleftrightarrow> length (fds (fdt_at st t)) \<le> nat fd"
proof -
  have "unat (of_int fd :: u32) = nat fd"
    using assms(3,4) by (simp add: unat_eq_nat_uint uint_word_of_int)
  then show ?thesis using assms by (simp add: bad_fd_def fdt_wf_def word_le_nat_alt)
qed

lemma fd_alloc_quiet:
  assumes "fs_quiet st" and "t \<noteq> NULL" and wf: "fdt_wf (fdt_at st t)"
  obtains fd u where "fd_alloc E t st = Inr (fd, u)" and "fs_quiet u" and "fdt_wf (fdt_at u t)"
    and "fd_map (fdt_at u t) = fd_map (fdt_at st t)"
    and "0 \<le> fd \<Longrightarrow> nat fd < length (fds (fdt_at u t)) \<and> fd_map (fdt_at u t) (nat fd) = None \<and>
           (\<forall>i<nat fd. fd_map (fdt_at u t) i \<noteq> None)"
    and "fd < 0 \<Longrightarrow> fd = - EMFILE \<and> (\<forall>i<length (fds (fdt_at u t)). fd_map (fdt_at u t) i \<noteq> None) \<and>
           (length (fds (fdt_at u t)) = 1024 \<or> fst (kalloc E (of_nat (16 * length (fds (fdt_at st t)))) (world st)) = NULL)"
proof -
  let ?x = "fdt_at st t"
  show thesis
  proof (cases "first_free_fd ?x")
    case (Some i)
    let ?u = "passed (Fdt_Lock t) (upd_fdt t (\<lambda>x. x\<lparr>open_fds := open_fds x + 1\<rparr>) st)"
    have "fd_alloc E t st = Inr (int i, ?u)"
      using assms(1,2) Some by (simp add: fd_alloc_def fs_locking fs_upds passed_def)
    then show thesis
      by (rule that)
         (use first_free_Some [OF Some wf] wf assms(1) in \<open>simp_all add: upd_fdt_def fd_map_alloc fdt_wf_def fs_quiet_def passed_def\<close>)
  next
    case None
    let ?len = "length (fds ?x)"
    have taken: "\<forall>i<?len. fd_map ?x i \<noteq> None" using first_free_None [OF None wf] by blast
    show thesis
    proof (cases "max_fds ?x < NR_OPEN_MAX")
      case False
      then have full: "?len = 1024" using wf by (auto simp: fdt_wf_def NR_OPEN_MAX_def)
      have "fd_alloc E t st = Inr (- EMFILE, passed (Fdt_Lock t) st)"
        using assms(1,2) None False by (simp add: fd_alloc_def fs_locking passed_def)
      then show thesis
        by (rule that) (use assms(1) wf taken full in \<open>auto simp: EMFILE_def\<close>)
    next
      case True
      define m where "m = (if max_fds ?x * 2 > NR_OPEN_MAX then NR_OPEN_MAX else max_fds ?x * 2)"
      note grow = fdt_wf_grow [OF wf True, folded m_def]
      have len: "?len = unat (max_fds ?x)" using wf by (simp add: fdt_wf_def)
      have bytes: "8 * ucast m = (of_nat (16 * ?len) :: u64)"
        by (simp only: ucast_of_unat grow(1) len) simp
      obtain p w where p: "kalloc E (of_nat (16 * ?len)) (world st) = (p, w)" by fastforce
      show thesis
      proof (cases "p = NULL")
        case True
        have "fd_alloc E t st = Inr (- EMFILE, (passed (Fdt_Lock t) st)\<lparr>world := w\<rparr>)"
          using assms(1,2) None \<open>max_fds ?x < _\<close> p True
          by (simp add: fd_alloc_def fs_locking heap_alloc_def m_def [symmetric] bytes passed_def)
        then show thesis
          by (rule that) (use assms(1) wf taken True p in \<open>auto simp: EMFILE_def fs_quiet_def passed_def\<close>)
      next
        case False
        let ?y = "?x\<lparr>fds_ptr := p, fds := fds ?x @ replicate (unat m - unat (max_fds ?x)) NULL, max_fds := m,
                     open_fds := open_fds ?x + 1\<rparr>"
        define u where "u = upd_fdt t (\<lambda>_. ?y) ((passed (Fdt_Lock t) st)\<lparr>world := kfree_mem E (fds_ptr ?x) w\<rparr>)"
        have "fd_alloc E t st = Inr (int (unat m) div 2, u)"
          using assms(1,2) None \<open>max_fds ?x < _\<close> p False len
          by (simp add: fd_alloc_def fs_locking heap_alloc_def heap_free_def fs_upds m_def [symmetric] bytes u_def passed_def)
        moreover have "fs_quiet u" "fdt_at u t = ?y"
          using assms(1) by (simp_all add: u_def fs_upds fs_quiet_def passed_def)
        ultimately have u: "fd_alloc E t st = Inr (int (unat m) div 2, u)" "fs_quiet u" "fdt_at u t = ?y" by blast+
        have fd: "int (unat m) div 2 = int ?len" using grow(1) len by simp
        show thesis
        proof (rule that [OF u(1) [unfolded fd] u(2)])
          show "fdt_wf (fdt_at u t)" unfolding u(3) by (rule grow(2))
          show m: "fd_map (fdt_at u t) = fd_map ?x" unfolding u(3) by (rule fd_map_grow)
          show "nat (int ?len) < length (fds (fdt_at u t)) \<and> fd_map (fdt_at u t) (nat (int ?len)) = None \<and>
              (\<forall>i<nat (int ?len). fd_map (fdt_at u t) i \<noteq> None)"
            using taken fdt_wf_bounds [OF wf] grow(1) len by (auto simp: m) (auto simp: u(3) fd_map_def)
        qed simp
      qed
    qed
  qed
qed

lemma fd_slot_eval: "i < length (fds (fdt_at st t)) \<Longrightarrow> fd_slot t i st = Inr (fds (fdt_at st t) ! i)"
  by (simp add: fd_slot_def)

lemma fd_install_quiet:
  assumes "fs_quiet st" and "t \<noteq> NULL" and "fdt_wf (fdt_at st t)" and "f \<noteq> NULL" and "0 \<le> fd" and "fd < 2 ^ 31"
  shows "fd_install t fd f st =
     (if length (fds (fdt_at st t)) \<le> nat fd then Inr (- EINVAL, st)
      else if fd_map (fdt_at st t) (nat fd) \<noteq> None then Inr (- EBADF, passed (Fdt_Lock t) st)
      else Inr (0, passed (Fdt_Lock t)
             (upd_fdt t (\<lambda>x. x\<lparr>fds := (fds x)[nat fd := f], open_fds := open_fds x + 1\<rparr>) st)))"
  using assms
  by (simp add: fd_install_def bad_fd_iff fs_locking fd_slot_def set_fd_slot_def fd_map_def passed_def fs_upds)

lemma fd_get_quiet:
  assumes "fs_quiet st" and "t \<noteq> NULL" and "fdt_wf (fdt_at st t)" and "0 \<le> fd" and "fd < 2 ^ 31"
  shows "fd_get t fd st =
     (case fd_map (fdt_at st t) (nat fd) of
        None \<Rightarrow> Inr (NULL, if length (fds (fdt_at st t)) \<le> nat fd then st else passed (Fdt_Lock t) st)
      | Some f \<Rightarrow> Inr (f, passed (Fdt_Lock t) (passed (File_Lock f)
                       (upd_file f (\<lambda>x. x\<lparr>f_refcnt := f_refcnt x + 1\<rparr>) st))))"
  using assms
  by (simp add: fd_get_def bad_fd_iff fs_locking fd_slot_def file_get_def fd_map_def passed_def fs_upds fun_upd_twist)

text \<open>
  \<^verbatim>\<open>file_put\<close> calls \<^verbatim>\<open>file_close\<close> when it has dropped the last reference, and \<^verbatim>\<open>file_close\<close> drops one more.
\<close>

definition put_count :: "u32 \<Rightarrow> u32" where
  "put_count n = (if n = 1 then - 1 else n - 1)"

lemma file_put_eval:
  assumes "hart_ok (fs_cpu st)" and "lock_free (fs_locks st (File_Lock f))" and "f \<noteq> NULL"
  shows "file_put E f st =
    Inr (passed (File_Lock f) (upd_file f (\<lambda>x. x\<lparr>f_refcnt := put_count (f_refcnt x)\<rparr>) st))"
  using assms
  by (simp add: file_put_def file_close_def fs_locking fs_upds passed_def put_count_def)

lemma fd_free_quiet:
  assumes "fs_quiet st" and "t \<noteq> NULL" and "fdt_wf (fdt_at st t)" and "0 \<le> fd" and "fd < 2 ^ 31"
    and f: "fd_map (fdt_at st t) (nat fd) = Some f"
  shows "fd_free E t fd st = Inr (passed (Fdt_Lock t) (passed (File_Lock f)
     (upd_fdt t (\<lambda>x. x\<lparr>fds := (fds x)[nat fd := NULL], open_fds := open_fds x - 1\<rparr>)
       (upd_file f (\<lambda>x. x\<lparr>f_refcnt := put_count (f_refcnt x)\<rparr>) st))))"
proof -
  have slot: "nat fd < length (fds (fdt_at st t))" "fds (fdt_at st t) ! nat fd = f" "f \<noteq> NULL"
    using f by (auto simp: fd_map_def split: if_splits)
  show ?thesis
    using assms slot
    by (simp add: fd_free_def bad_fd_iff fs_locking fd_slot_def set_fd_slot_def file_put_eval passed_def fs_upds
        fun_upd_twist)
qed

lemma fd_free_absent:
  assumes "fs_quiet st" and "t \<noteq> NULL" and "fdt_wf (fdt_at st t)" and "0 \<le> fd" and "fd < 2 ^ 31"
    and "fd_map (fdt_at st t) (nat fd) = None"
  shows "fd_free E t fd st = Inr (if length (fds (fdt_at st t)) \<le> nat fd then st else passed (Fdt_Lock t) st)"
  using assms
  by (auto simp: fd_free_def bad_fd_iff fs_locking fd_slot_def fd_map_def passed_def fs_upds split: if_splits)

lemma file_close_last:
  assumes "fs_quiet st" and "f \<noteq> NULL" and "f_refcnt (file_at st f) = 1" and "f_link (file_at st f) = On_List"
    and "vtable (fops E) op_release (f_op (file_at st f)) = None" and "f_dentry (file_at st f) = NULL"
  shows "file_close E f st = Inr (0, mem_free E f (passed File_State (passed (File_Lock f)
     (upd_file f (\<lambda>x. x\<lparr>f_refcnt := 0, f_link := Stale\<rparr>)
       (st\<lparr>file_list := remove1 f (file_list st), file_count := file_count st - 1\<rparr>)))))"
  using assms
  by (simp add: file_close_def file_free_def fs_locking fs_upds passed_def link_del_def mem_free_def fun_upd_twist)

section \<open>Reading\<close>

text \<open>The part of \<^verbatim>\<open>file_read\<close> after the driver has been called.\<close>

definition finish_read :: "addr \<Rightarrow> ('w, int \<times> u64) fs_res \<Rightarrow> ('w, int) fs_res" where
  "finish_read f r =
     rbind r (\<lambda>((ret, pos), st).
       let st = (if ret > 0 then upd_file f (\<lambda>x. x\<lparr>f_pos := pos\<rparr>) st else st)
       in rbind (unlock (File_Lock f) st) (\<lambda>st. Inr (ret, st)))"

definition entered :: "fs_lock \<Rightarrow> 'w fs \<Rightarrow> 'w fs" where
  "entered l st = st\<lparr>fs_cpu := intr_off (fs_cpu st), fs_locks := (fs_locks st)(l := hold (fs_cpu st) (fs_locks st l))\<rparr>"

definition readable :: "'w env \<Rightarrow> addr \<Rightarrow> (addr \<Rightarrow> addr \<Rightarrow> u64 \<Rightarrow> u64 \<Rightarrow> 'w fs \<Rightarrow> ('w, int \<times> u64) fs_res) \<Rightarrow> 'w fs \<Rightarrow> bool" where
  "readable E f g st \<longleftrightarrow>
     fs_quiet st \<and> f \<noteq> NULL \<and> f_inode (file_at st f) \<noteq> NULL \<and> f_flags (file_at st f) AND O_ACCMODE \<noteq> O_WRONLY \<and>
     \<not> S_ISDIR (i_mode (inode_at st (f_inode (file_at st f)))) \<and>
     vtable (fops E) op_fread (f_op (file_at st f)) = Some g"

lemma file_read_eval:
  assumes "readable E f g st" and "buf \<noteq> NULL" and "n \<noteq> 0"
  defines "pos \<equiv> f_pos (file_at st f)" and "sz \<equiv> i_size (inode_at st (f_inode (file_at st f)))"
  shows "file_read E f buf n st =
     (if sz \<le> pos then Inr (0, passed (File_Lock f) st)
      else finish_read f (g f buf (if pos + n > sz then sz - pos else n) pos (entered (File_Lock f) st)))"
  using assms(1-3)
  by (simp add: file_read_def readable_def finish_read_def fs_locking pos_def sz_def entered_def passed_def Let_def)

text \<open>
  A driver whose \<^verbatim>\<open>read\<close> transfers \<open>k m p\<close> of the \<open>m\<close> bytes it is asked for at position \<open>p\<close>, and changes nothing
  but its own state.
\<close>

definition reads_some :: "addr \<Rightarrow> addr \<Rightarrow> (u64 \<Rightarrow> u64 \<Rightarrow> nat) \<Rightarrow>
    (addr \<Rightarrow> addr \<Rightarrow> u64 \<Rightarrow> u64 \<Rightarrow> 'w fs \<Rightarrow> ('w, int \<times> u64) fs_res) \<Rightarrow> bool" where
  "reads_some f buf k g \<longleftrightarrow>
     (\<forall>m p s. k m p \<le> unat m \<and> (\<exists>w. g f buf m p s = Inr ((int (k m p), p + of_nat (k m p)), s\<lparr>world := w\<rparr>)))"

lemma finish_read_quiet:
  assumes "fs_quiet st"
  shows "finish_read f (Inr ((int k, p), (entered (File_Lock f) st)\<lparr>world := w\<rparr>)) =
     Inr (int k, (passed (File_Lock f) (if 0 < k then upd_file f (\<lambda>x. x\<lparr>f_pos := p\<rparr>) st else st))\<lparr>world := w\<rparr>)"
  using assms by (simp add: finish_read_def entered_def fs_locking passed_def fs_upds)

lemma file_read_advances:
  assumes rd: "readable E f g st" and "buf \<noteq> NULL" and "n \<noteq> 0" and drv: "reads_some f buf k g"
    and pos: "f_pos (file_at st f) < sz" and sz: "sz = i_size (inode_at st (f_inode (file_at st f)))"
    and nowrap: "unat (f_pos (file_at st f)) + unat n < 2 ^ 64"
  obtains j u where "file_read E f buf n st = Inr (int j, u)" and "fs_quiet u" and "j \<le> unat n"
    and "unat (f_pos (file_at u f)) = unat (f_pos (file_at st f)) + j"
    and "unat (f_pos (file_at st f)) + j \<le> unat sz" and "file_list u = file_list st" and "inode_at u = inode_at st"
proof -
  let ?p = "f_pos (file_at st f)"
  define m where "m = (if ?p + n > sz then sz - ?p else n)"
  have sum: "unat (?p + n) = unat ?p + unat n" using nowrap by (simp add: unat_word_ariths)
  have m: "unat m \<le> unat n" "unat ?p + unat m \<le> unat sz"
    using pos sum by (auto simp: m_def word_less_nat_alt unat_sub word_le_nat_alt)
  obtain w where g: "k m ?p \<le> unat m"
      "g f buf m ?p (entered (File_Lock f) st) = Inr ((int (k m ?p), ?p + of_nat (k m ?p)), (entered (File_Lock f) st)\<lparr>world := w\<rparr>)"
    using drv unfolding reads_some_def by blast
  have q: "fs_quiet st" using rd by (simp add: readable_def)
  let ?u = "(passed (File_Lock f) (if 0 < k m ?p then upd_file f (\<lambda>x. x\<lparr>f_pos := ?p + of_nat (k m ?p)\<rparr>) st else st))\<lparr>world := w\<rparr>"
  have "file_read E f buf n st = Inr (int (k m ?p), ?u)"
    using file_read_eval [OF rd assms(2,3), folded sz, folded m_def] pos [folded not_le]
    by (simp add: g(2) finish_read_quiet [OF q])
  moreover have "unat (?p + of_nat (k m ?p)) = unat ?p + k m ?p"
    using g(1) m unat_lt [of sz] by (simp add: unat_word_ariths unat_of_nat)
  ultimately show thesis
    by (intro that [of "k m ?p" ?u]) (use g(1) m q in \<open>auto simp: fs_upds fs_quiet_def passed_def\<close>)
qed

section \<open>Caches of inodes and entries\<close>

lemma inode_sop_cong [simp]:
  "inode_sop E fld sb (st\<lparr>fs_cpu := c\<rparr>) = inode_sop E fld sb st"
  "inode_sop E fld sb (st\<lparr>fs_locks := k\<rparr>) = inode_sop E fld sb st"
  "inode_sop E fld sb (st\<lparr>world := w\<rparr>) = inode_sop E fld sb st"
  "inode_sop E fld sb (st\<lparr>inode_at := a\<rparr>) = inode_sop E fld sb st"
  by (simp_all add: inode_sop_def)

lemma inode_get_hit:
  assumes "fs_quiet st" and "hashtable_lookup (world st, inode_ht st) ino = i" and "i \<noteq> NULL"
  shows "inode_get E sb ino st =
    Inr (i, passed Inode_State (upd_inode i (\<lambda>x. x\<lparr>i_refcnt := i_refcnt x + 1\<rparr>) st))"
  using assms by (simp add: inode_get_def fs_locking passed_def fs_upds)

lemma inode_get_miss:
  assumes q: "fs_quiet st" and ok: "ht_ok (inode_ht st)"
    and miss: "hashtable_lookup (world st, inode_ht st) ino = NULL"
    and op: "inode_sop E op_alloc_inode sb st = None"
    and i: "cache_alloc E ''inode'' (world st) = (i, w1)" "i \<noteq> NULL" "\<not> IS_ERR i"
    and n: "fst (kalloc E sizeof_hash_node w1) \<noteq> NULL"
  obtains u where "inode_get E sb ino st = Inr (i, u)" and "fs_quiet u" and "ht_ok (inode_ht u)"
    and "hashtable_lookup (world u, inode_ht u) ino = i" and "inode_list u = i # inode_list st"
    and "i_refcnt (inode_at u i) = 1" and "i_ino (inode_at u i) = ino" and "i_sb (inode_at u i) = sb"
proof -
  obtain r w2 ht2 where ins: "hashtable_insert (kalloc E sizeof_hash_node) ino i (w1, inode_ht st) = (r, w2, ht2)"
    by (cases "hashtable_insert (kalloc E sizeof_hash_node) ino i (w1, inode_ht st)")
  have r: "r = 0"
    using ins n by (auto simp: hashtable_insert_def Let_def split: option.splits if_splits prod.splits)
  have ht: "ht_ok ht2" "hashtable_lookup (w2, ht2) ino = i"
    using insert_cases(1) [OF ok ins] insert_cases(2) [OF ok ins r, of ino] by simp_all
  let ?x = "\<lparr>i_ino = ino, i_mode = 0, i_uid = 0, i_gid = 0, i_size = 0, i_blocks = 0, i_atime = 0, i_mtime = 0,
    i_ctime = 0, i_nlink = 1, i_rdev = 0, i_sb = sb, i_op = 0, i_fop = 0, i_mapping = 0, i_link = On_List,
    i_refcnt = 1, i_state = I_NEW\<rparr>"
  define u where "u = passed Inode_State (init_lock (Inode_Lock i) ''inode'' (st\<lparr>world := w2,
    inode_at := (inode_at st)(i := ?x), inode_ht := ht2, inode_list := i # inode_list st,
    inode_count := inode_count st + 1\<rparr>))"
  have "inode_get E sb ino st = Inr (i, u)"
    using q miss op i ins
    by (simp add: inode_get_def inode_alloc_def mem_alloc_def init_lock_def fs_locking fs_upds link_add_def
        hashtable_lookup_def u_def passed_def)
  moreover have "fs_quiet u"
    using q by (simp add: u_def fs_quiet_def passed_def init_lock_def lock_free_def SPINLOCK_INITIALIZER_def unhold_def)
  moreover have "inode_ht u = ht2" "world u = w2" "inode_list u = i # inode_list st" "inode_at u i = ?x"
    by (simp_all add: u_def init_lock_def)
  ultimately show thesis using ht that [of u] by simp
qed

text \<open>A second directory entry is the same as far as a lookup can tell.\<close>

definition same_entry :: "dentry \<Rightarrow> dentry \<Rightarrow> bool" where
  "same_entry x y \<longleftrightarrow>
     d_sb x = d_sb y \<and> d_parent x = d_parent y \<and> q_len (d_name x) = q_len (d_name y) \<and> q_name (d_name x) = q_name (d_name y)"

definition entry_key :: "'w fs \<Rightarrow> addr \<Rightarrow> u32" where
  "entry_key st d = dentry_hash_key st (d_sb (dentry_at st d)) (d_parent (dentry_at st d)) (d_name (dentry_at st d))"

definition insertable :: "'w fs \<Rightarrow> addr \<Rightarrow> bool" where
  "insertable st d \<longleftrightarrow>
     fs_quiet st \<and> ht_ok (dentry_ht st) \<and> d \<noteq> NULL \<and> d_sb (dentry_at st d) \<noteq> NULL \<and> d_parent (dentry_at st d) \<noteq> NULL \<and>
     d_list (dentry_at st d) = Self_Linked"

lemma dentry_insert_taken:
  assumes "insertable st d" and "hashtable_lookup (world st, dentry_ht st) (ucast (entry_key st d)) \<noteq> NULL"
  shows "dentry_insert E d st = Inr (- EEXIST, passed Dentry_State st)"
  using assms
  by (simp add: dentry_insert_def insertable_def entry_key_def fs_locking passed_def hashtable_lookup_def
      dentry_hash_key_def)

lemma dentry_hash_key_cong:
  "dentry_hash_key (st\<lparr>fs_cpu := c\<rparr>) = dentry_hash_key st" "dentry_hash_key (st\<lparr>fs_locks := k\<rparr>) = dentry_hash_key st"
  "dentry_hash_key (st\<lparr>dentry_at := a\<rparr>) = dentry_hash_key st" "dentry_hash_key (st\<lparr>world := w\<rparr>) = dentry_hash_key st"
  by (simp_all add: dentry_hash_key_def fun_eq_iff)

text \<open>Where a fresh entry is put: at the head of the bucket of its key, which is the hash of a hash.\<close>

lemma dentry_insert_fresh:
  assumes ins: "insertable st d"
    and free: "hashtable_lookup (world st, dentry_ht st) (ucast (entry_key st d)) = NULL"
    and key: "\<And>i n. n \<in> set (buckets (dentry_ht st) i) \<Longrightarrow> hn_value n \<noteq> NULL"
    and mem: "kalloc E sizeof_hash_node (world st) = (p, w)" "p \<noteq> NULL"
  defines "i \<equiv> unat (hash_ptr (ucast (entry_key st d)) (ht_size (dentry_ht st)))"
  defines "ht' \<equiv> (dentry_ht st)\<lparr>buckets := (buckets (dentry_ht st))(i :=
             \<lparr>hn_addr = p, hn_key = ucast (entry_key st d), hn_value = d\<rparr> # buckets (dentry_ht st) i),
             ht_count := ht_count (dentry_ht st) + 1\<rparr>"
  shows "dentry_insert E d st = Inr (0, passed Dentry_State (upd_dentry d (\<lambda>x. x\<lparr>d_list := On_List\<rparr>)
     (st\<lparr>world := w, dentry_ht := ht', dentry_list := d # dentry_list st, dentry_count := dentry_count st + 1\<rparr>)))"
proof -
  have "find_node (ucast (entry_key st d)) (buckets (dentry_ht st) i) = None"
  proof (cases "find_node (ucast (entry_key st d)) (buckets (dentry_ht st) i)")
    case (Some n)
    have "n \<in> set ns" if "find_node k ns = Some n" for k ns
      using that by (induction ns) (auto split: if_splits)
    then have "hn_value n \<noteq> NULL" using Some key by blast
    then show ?thesis using free Some by (simp add: bucket_lookup i_def)
  qed
  then have "update_node (ucast (entry_key st d)) d (buckets (dentry_ht st) i) = None" by (simp only: update_None)
  then have "hashtable_insert (kalloc E sizeof_hash_node) (ucast (entry_key st d)) d (world st, dentry_ht st) = (0, w, ht')"
    using mem by (simp add: hashtable_insert_def i_def [symmetric] ht'_def)
  then show ?thesis
    using ins free
    by (simp add: dentry_insert_def insertable_def entry_key_def fs_locking passed_def hashtable_lookup_def
        dentry_hash_key_cong fs_upds link_add_def)
qed

section \<open>Looking entries up\<close>

definition cache_find :: "'w fs \<Rightarrow> addr \<Rightarrow> addr \<Rightarrow> qstr \<Rightarrow> addr" where
  "cache_find st sb parent name =
     (case find (\<lambda>n. hn_value n \<noteq> NULL \<and> d_sb (dentry_at st (hn_value n)) = sb \<and>
                    d_parent (dentry_at st (hn_value n)) = parent \<and>
                    q_len (d_name (dentry_at st (hn_value n))) = q_len name \<and>
                    q_name (d_name (dentry_at st (hn_value n))) = q_name name)
             (buckets (dentry_ht st) (unat (dentry_hash_key st sb parent name))) of
        Some n \<Rightarrow> hn_value n | None \<Rightarrow> NULL)"

lemma dentry_lookup_quiet:
  assumes "fs_quiet st"
  shows "dentry_lookup sb parent name st = Inr (cache_find st sb parent name, passed Dentry_State st)"
  using assms
  by (simp add: dentry_lookup_def fs_locking passed_def dentry_hash_key_cong cache_find_def Let_def)

lemma dentry_get_quiet:
  assumes "fs_quiet st" and "d \<noteq> NULL"
  shows "dentry_get d st = Inr (passed (Dentry_Lock d) (upd_dentry d (\<lambda>x. x\<lparr>d_refcnt := d_refcnt x + 1\<rparr>) st))"
  using assms by (simp add: dentry_get_def fs_locking passed_def fs_upds)

lemma dentry_put_quiet:
  assumes "fs_quiet st" and "d \<noteq> NULL" and "d_refcnt (dentry_at st d) \<noteq> 1"
  shows "dentry_put d st = Inr (passed (Dentry_Lock d) (upd_dentry d (\<lambda>x. x\<lparr>d_refcnt := d_refcnt x - 1\<rparr>) st))"
  using assms by (simp add: dentry_put_def fs_locking passed_def fs_upds)

text \<open>The last reference puts an entry on the LRU list, from which nothing takes it when it is used again.\<close>

lemma dentry_put_last:
  assumes "fs_quiet st" and "d \<noteq> NULL" and "d_refcnt (dentry_at st d) = 1"
  shows "dentry_put d st =
     (if d_lru (dentry_at st d) = On_List then Inl Bad_List
      else Inr (passed Dentry_State (passed (Dentry_Lock d)
        (upd_dentry d (\<lambda>x. x\<lparr>d_refcnt := 0, d_lru := On_List\<rparr>) (st\<lparr>dentry_lru := d # dentry_lru st\<rparr>)))))"
  using assms by (simp add: dentry_put_def fs_locking passed_def fs_upds link_add_def fun_upd_twist)

text \<open>The mount that covers an entry, or \<^verbatim>\<open>NULL\<close>, and the directory that a lookup in \<open>d\<close> searches.\<close>

definition mount_over :: "'w fs \<Rightarrow> addr \<Rightarrow> addr" where
  "mount_over st d = (case find (mounted_on st d) (mounts st) of Some m \<Rightarrow> m | None \<Rightarrow> NULL)"

definition walk_base :: "'w fs \<Rightarrow> addr \<Rightarrow> addr" where
  "walk_base st d =
     (let m = mount_over st d in if m \<noteq> NULL \<and> mnt_root (mount_at st m) \<noteq> NULL then mnt_root (mount_at st m) else d)"

lemma lookup_mount_quiet:
  assumes "fs_quiet st" and "d \<noteq> NULL"
  shows "vfs_lookup_mount d st = Inr (mount_over st d, passed Vfs_State st)"
  using assms by (simp add: vfs_lookup_mount_def fs_locking passed_def mount_over_def mounted_on_def [abs_def] Let_def)

lemma mount_over_passed [simp]: "mount_over (passed l st) = mount_over st"
  by (simp add: mount_over_def mounted_on_def [abs_def] fun_eq_iff)

definition dref :: "'w fs \<Rightarrow> addr \<Rightarrow> u32" where
  "dref st d = d_refcnt (dentry_at st d)"

lemma dref_passed [simp]: "dref (passed l st) = dref st"
  by (simp add: dref_def fun_eq_iff)

text \<open>A reference can be dropped unless it is the last one and the entry already is on the LRU list.\<close>

definition droppable :: "'w fs \<Rightarrow> addr \<Rightarrow> bool" where
  "droppable st d \<longleftrightarrow> d \<noteq> NULL \<and> (dref st d = 1 \<longrightarrow> d_lru (dentry_at st d) \<noteq> On_List)"

lemma dentry_put_ok:
  assumes "fs_quiet st" and "droppable st d"
  obtains u where "dentry_put d st = Inr u" and "fs_quiet u" and "dref u = (dref st)(d := dref st d - 1)"
    and "mount_at u = mount_at st" and "\<forall>x. x \<noteq> d \<longrightarrow> dentry_at u x = dentry_at st x"
proof (cases "d_refcnt (dentry_at st d) = 1")
  case True
  let ?u = "passed Dentry_State (passed (Dentry_Lock d)
      (upd_dentry d (\<lambda>x. x\<lparr>d_refcnt := 0, d_lru := On_List\<rparr>) (st\<lparr>dentry_lru := d # dentry_lru st\<rparr>)))"
  have "dentry_put d st = Inr ?u" using assms True by (simp add: dentry_put_last droppable_def dref_def)
  then show ?thesis
    by (rule that) (use assms(1) True in \<open>auto simp: dref_def upd_dentry_def fs_quiet_def passed_def fun_eq_iff\<close>)
next
  case False
  let ?u = "passed (Dentry_Lock d) (upd_dentry d (\<lambda>x. x\<lparr>d_refcnt := d_refcnt x - 1\<rparr>) st)"
  have "dentry_put d st = Inr ?u" using assms False by (simp add: dentry_put_quiet droppable_def)
  then show ?thesis
    by (rule that) (use assms(1) in \<open>auto simp: dref_def upd_dentry_def fs_quiet_def passed_def fun_eq_iff\<close>)
qed

text \<open>The references that a step across a mount drops and takes: \<open>c\<close> below the mount, its root \<open>r\<close>, the directory \<open>d\<close>.\<close>

lemma cross_mount:
  assumes "fs_quiet s" and "r \<noteq> NULL" and ne: "d \<noteq> c" "d \<noteq> r" "r \<noteq> c" and "droppable s c" and "droppable s d"
  obtains u v w where "dentry_put c s = Inr u" and "dentry_get r u = Inr v" and "dentry_put d v = Inr w" and "fs_quiet w"
    and "dref w = (dref s)(c := dref s c - 1, r := dref s r + 1, d := dref s d - 1)"
    and "mount_at u = mount_at s" and "mount_at v = mount_at s"
proof -
  obtain u where u: "dentry_put c s = Inr u" "fs_quiet u" "dref u = (dref s)(c := dref s c - 1)"
    "mount_at u = mount_at s" "\<forall>x. x \<noteq> c \<longrightarrow> dentry_at u x = dentry_at s x"
    using dentry_put_ok [OF assms(1,6)] by blast
  let ?v = "passed (Dentry_Lock r) (upd_dentry r (\<lambda>x. x\<lparr>d_refcnt := d_refcnt x + 1\<rparr>) u)"
  have v: "dentry_get r u = Inr ?v" "fs_quiet ?v" "dref ?v = (dref u)(r := dref u r + 1)" "mount_at ?v = mount_at u"
    using assms(2) u(2) dentry_get_quiet [of u r] by (auto simp: dref_def upd_dentry_def fs_quiet_def passed_def)
  have "dref ?v d = dref s d" using ne u(3) v(3) by simp
  moreover have "dentry_at ?v d = dentry_at s d" using ne u(5) by (simp add: upd_dentry_def)
  ultimately have "droppable ?v d" using assms(7) by (simp add: droppable_def)
  then obtain w where "dentry_put d ?v = Inr w" "fs_quiet w" "dref w = (dref ?v)(d := dref ?v d - 1)"
    using dentry_put_ok [OF v(2), of d] by blast
  then show ?thesis using u v ne by (intro that [of u ?v w]) simp_all
qed

lemma dentry_hash_key_passed [simp]: "dentry_hash_key (passed l st) = dentry_hash_key st"
  by (simp add: dentry_hash_key_def fun_eq_iff)

lemma cache_find_passed [simp]: "cache_find (passed l st) = cache_find st"
  by (simp add: cache_find_def fun_eq_iff)

definition name_key :: "cstring \<Rightarrow> qstr" where
  "name_key name = \<lparr>q_ptr = NULL, q_name = name, q_len = of_nat (length name),
     q_hash = hash_string name (of_nat (length name))\<rparr>"

text \<open>A directory with a lookup operation; a cached entry is found there without calling it.\<close>

definition searchable :: "'w env \<Rightarrow> addr \<Rightarrow> 'w fs \<Rightarrow> bool" where
  "searchable E d st \<longleftrightarrow>
     d_inode (dentry_at st d) \<noteq> NULL \<and> S_ISDIR (i_mode (inode_at st (d_inode (dentry_at st d)))) \<and>
     vtable (iops E) op_lookup (i_op (inode_at st (d_inode (dentry_at st d)))) \<noteq> None"

lemma lookup_single_cached:
  assumes "fs_quiet st" and "d \<noteq> NULL" and "searchable E (walk_base st d) st" and "name \<noteq> []"
    and "cache_find st (d_sb (dentry_at st (walk_base st d))) (walk_base st d) (name_key name) = c" and "c \<noteq> NULL"
  shows "vfs_lookup_single E d name st = Inr (c, passed Dentry_State (passed Vfs_State st))"
  using assms
  by (auto simp: vfs_lookup_single_def searchable_def lookup_mount_quiet dentry_lookup_quiet walk_base_def Let_def
      name_key_def [symmetric])

text \<open>What follows the lookup in a step: crossing a mount, and letting go of the directory.\<close>

lemma walk_step_found:
  assumes "fs_quiet st" and "d \<noteq> NULL" and "searchable E (walk_base st d) st"
    and "name \<noteq> []" and "name \<noteq> name_dot" and "name \<noteq> name_dotdot"
    and "cache_find st (d_sb (dentry_at st (walk_base st d))) (walk_base st d) (name_key name) = c" and "c \<noteq> NULL"
    and "\<not> IS_ERR c"
  shows "walk_step E d name st =
    rbind (let u = passed Vfs_State (passed Dentry_State (passed Vfs_State st)); m = mount_over st c; r = mnt_root (mount_at st m)
           in if m \<noteq> NULL then rbind (dentry_put c u) (\<lambda>u. rbind (dentry_get (mnt_root (mount_at u m)) u) (\<lambda>u. Inr (mnt_root (mount_at u m), u)))
              else Inr (c, u))
      (\<lambda>(n, u). rbind (dentry_put d u) (\<lambda>u. Inr (Inr (n, LAST_NORM), u)))"
  using assms by (simp add: walk_step_def follow_mount_def lookup_single_cached lookup_mount_quiet Let_def)

section \<open>Names of a path\<close>

lemma skip_slashes_Cons: "vfs_skip_slashes (slash # p) = vfs_skip_slashes p"
  by (simp add: vfs_skip_slashes_def)

lemma skip_slashes_replicate: "vfs_skip_slashes (replicate k slash @ p) = vfs_skip_slashes p"
  by (induction k) (simp_all add: skip_slashes_Cons)

lemma components_skip: "components (replicate k slash @ p) = components p"
  by (subst (1 2) components.simps) (simp add: skip_slashes_replicate)

definition plain_name :: "cstring \<Rightarrow> bool" where
  "plain_name n \<longleftrightarrow> n \<noteq> [] \<and> slash \<notin> set n"

lemma skip_plain: "plain_name n \<Longrightarrow> vfs_skip_slashes (n @ p) = n @ p"
  by (cases n) (auto simp: plain_name_def vfs_skip_slashes_def)

lemma components_plain:
  assumes "plain_name n" and "p = [] \<or> (\<exists>q. p = slash # q)"
  shows "components (n @ p) = take NAME_MAX n # components (drop NAME_MAX n @ p)"
proof -
  have "takeWhile (\<lambda>c. c \<noteq> slash) (n @ p) = n"
    using assms by (auto simp: plain_name_def takeWhile_append)
  then have "vfs_get_name (n @ p) = take NAME_MAX n" by (simp add: vfs_get_name_def)
  moreover have "drop (length (take NAME_MAX n)) (n @ p) = drop NAME_MAX n @ p" by (cases "length n \<le> NAME_MAX") simp_all
  ultimately show ?thesis
    using assms by (subst components.simps) (simp add: skip_plain plain_name_def Let_def)
qed

definition join_path :: "(nat \<times> cstring) list \<Rightarrow> nat \<Rightarrow> cstring" where
  "join_path kns j = concat (map (\<lambda>(k, n). replicate (Suc k) slash @ n) kns) @ replicate j slash"

lemma join_path_Cons: "join_path ((k, n) # kns) j = replicate (Suc k) slash @ n @ join_path kns j"
  by (simp add: join_path_def)

lemma join_path_start: "join_path kns j = [] \<or> (\<exists>q. join_path kns j = slash # q)"
  by (cases kns; cases j) (auto simp: join_path_def)

lemma components_Nil: "components [] = []"
  by (subst components.simps) (simp add: vfs_skip_slashes_def)

lemma components_join:
  assumes "list_all (\<lambda>(k, n). plain_name n \<and> length n \<le> NAME_MAX) kns"
  shows "components (join_path kns j) = map snd kns"
  using assms
proof (induction kns)
  case Nil
  then show ?case using components_skip [of j "[]"] by (simp add: join_path_def components_Nil)
next
  case (Cons kn kns)
  obtain k n where kn: "kn = (k, n)" by (cases kn)
  have "components (n @ join_path kns j) = n # components (join_path kns j)"
    using Cons.prems components_plain [OF _ join_path_start, of n kns j] by (simp add: kn)
  then show ?case
    using Cons by (simp only: kn join_path_Cons components_skip) simp
qed

end
