(* ===== verification/Fs_Properties.thy ===== *)
theory Fs_Properties
  imports Fs_Correct
begin

text \<open>
  What the file-system layer promises, and where it does not keep its promise. The witnesses use small
  concrete states: a hart with no lock held, empty caches of 64 and 128 buckets, and a heap whose
  state is the next free address.
\<close>

section \<open>Concrete states\<close>

definition demo_fs_hart :: hart where
  "demo_fs_hart = \<lparr>tp = 0, sstatus = 2, intr_state = 0, intr_depth = 0\<rparr>"

definition empty_table :: "u64 \<Rightarrow> hashtable" where
  "empty_table n = \<lparr>buckets = (\<lambda>_. []), ht_size = n, ht_count = 0\<rparr>"

definition no_super :: super_block where
  "no_super = \<lparr>s_dev = 0, s_type = 0, s_root = 0, s_op = 0, s_fs_info = 0, s_link = Self_Linked, s_maxbytes = 0,
     s_blocksize = 512, s_blocksize_bits = 9, s_flags = 0, s_count = 1\<rparr>"

definition demo_inode :: inode where
  "demo_inode = \<lparr>i_ino = 7, i_mode = S_IFREG, i_uid = 0, i_gid = 0, i_size = 100, i_blocks = 1, i_atime = 0, i_mtime = 0,
     i_ctime = 0, i_nlink = 1, i_rdev = 0, i_sb = 0, i_op = 0x90, i_fop = 0, i_mapping = 0, i_link = Self_Linked,
     i_refcnt = 1, i_state = I_NEW\<rparr>"

definition demo_file :: open_file where
  "demo_file = \<lparr>f_dentry = 0, f_inode = 0x40, f_op = 0x80, f_private = 0, f_pos = 60, f_flags = O_RDONLY, f_mode = S_IFREG,
     f_refcnt = 1, f_link = On_List\<rparr>"

definition demo_dentry :: "cstring \<Rightarrow> addr \<Rightarrow> addr \<Rightarrow> u32 \<Rightarrow> dentry" where
  "demo_dentry name i parent n =
     \<lparr>d_name = name_key name, d_inode = i, d_sb = 0x300, d_parent = parent, d_children = [],
      d_sibling = Self_Linked, d_op = 0, d_fsdata = 0, d_lru = Self_Linked, d_list = Self_Linked, d_refcnt = n, d_flags = 0\<rparr>"

definition demo_fdt :: fd_table where
  "demo_fdt = \<lparr>fds_ptr = 0x700, fds = 0x20 # replicate 31 0, max_fds = 32, open_fds = 1\<rparr>"

definition demo_fs :: "u64 fs" where
  "demo_fs = \<lparr>world = 0x1000, fs_cpu = demo_fs_hart, fs_locks = (\<lambda>_. SPINLOCK_INITIALIZER ''lock''),
     super_at = (\<lambda>_. no_super), super_list = [], super_count = 0,
     inode_at = (\<lambda>_. demo_inode)(0x50 := demo_inode\<lparr>i_mode := S_IFDIR\<rparr>), inode_ht = empty_table 64, inode_list = [],
     inode_count = 0,
     dentry_at = (\<lambda>_. demo_dentry [97] 0x50 0x100 2), dentry_ht = empty_table 128, dentry_list = [], dentry_lru = [],
     dentry_count = 0,
     file_at = (\<lambda>_. demo_file), file_list = [0x20], file_count = 1, fdt_at = (\<lambda>_. demo_fdt),
     fstype_at = (\<lambda>_. \<lparr>fs_name = None, fs_link = Self_Linked\<rparr>), fs_types = [],
     mount_at = (\<lambda>_. \<lparr>mnt_parent = 0, mnt_mountpoint = 0, mnt_root = 0, mnt_sb = 0, mnt_submounts = [],
       mnt_mounts = Self_Linked, mnt_child = Self_Linked, mnt_flags = 0, mnt_refcnt = 0\<rparr>), mounts = [],
     vfs_supers = [], root_mount = 0\<rparr>"

definition no_fops :: "u64 file_operations" where
  "no_fops = \<lparr>op_llseek = None, op_fread = None, op_fwrite = None, op_readdir = None, op_open = None, op_release = None,
     op_fsync = None\<rparr>"

definition demo_env :: "u64 env" where
  "demo_env = \<lparr>cache_alloc = (\<lambda>_ w. (w, w + 0x200)), cache_free = (\<lambda>_ w. w), kalloc = (\<lambda>n w. (w, w + n)),
     kfree_mem = (\<lambda>_ w. w),
     sops = (\<lambda>_. \<lparr>op_alloc_inode = None, op_destroy_inode = None, op_dirty_inode = None, op_write_inode = None,
       op_drop_inode = None, op_put_super = None, op_statfs = None\<rparr>),
     iops = (\<lambda>_. \<lparr>op_lookup = Some (\<lambda>i d st. Inr (d, st)), op_create = None, op_unlink = None, op_mkdir = None,
       op_rmdir = None, op_rename = None\<rparr>),
     dops = (\<lambda>_. \<lparr>op_d_delete = None, op_d_release = None\<rparr>),
     fops = (\<lambda>_. no_fops\<lparr>op_fread := Some (\<lambda>f buf n p st. Inr ((int (unat n), p + of_nat (unat n)), st))\<rparr>),
     fs_mount = (\<lambda>_. None), fs_kill_sb = (\<lambda>_. None)\<rparr>"

lemma demo_quiet: "fs_quiet demo_fs"
  by (simp add: fs_quiet_def demo_fs_def demo_fs_hart_def hart_ok_def lock_free_def SPINLOCK_INITIALIZER_def)

lemma demo_fdt_wf: "fdt_wf (fdt_at demo_fs t)"
  by (simp add: demo_fs_def demo_fdt_def fdt_wf_def)

section \<open>Descriptor tables\<close>

text \<open>
  C26: \<^verbatim>\<open>fd_alloc\<close> keeps the shape of the table (an array of \<^verbatim>\<open>max_fds\<close> slots, 32 to 1024 in powers of two) and
  every open file, and returns the least descriptor in use by no file, growing the table when all are
  taken; it returns \<^verbatim>\<open>-EMFILE\<close> only when all are taken and the table has 1024 slots or there is no memory
  for twice as many.
\<close>

theorem fd_alloc_least:
  assumes "fs_quiet st" and "t \<noteq> NULL" and "fdt_wf (fdt_at st t)"
  shows "\<exists>fd u. fd_alloc E t st = Inr (fd, u) \<and> fs_quiet u \<and> fdt_wf (fdt_at u t) \<and>
    fd_map (fdt_at u t) = fd_map (fdt_at st t) \<and>
    (0 \<le> fd \<longrightarrow> nat fd < length (fds (fdt_at u t)) \<and> fd_map (fdt_at u t) (nat fd) = None \<and>
       (\<forall>i<nat fd. fd_map (fdt_at u t) i \<noteq> None)) \<and>
    (fd < 0 \<longrightarrow> fd = - EMFILE \<and> (\<forall>i<length (fds (fdt_at u t)). fd_map (fdt_at u t) i \<noteq> None) \<and>
       (length (fds (fdt_at u t)) = 1024 \<or>
        fst (kalloc E (of_nat (16 * length (fds (fdt_at st t)))) (world st)) = NULL))"
  by (rule fd_alloc_quiet [OF assms, of E]) blast

theorem fd_alloc_least_witness:
  "\<exists>fd u. fd_alloc demo_env 0x10 demo_fs = Inr (fd, u) \<and> fdt_wf (fdt_at u 0x10)"
  using fd_alloc_least [OF demo_quiet, of "0x10" demo_env] demo_fdt_wf by auto

text \<open>
  C10: The descriptor table is a map from descriptors to files. \<^verbatim>\<open>fd_install\<close> succeeds exactly for a descriptor inside
  the table that is free, and then adds the binding; outside the table it answers \<^verbatim>\<open>-EINVAL\<close>, for a descriptor in
  use \<^verbatim>\<open>-EBADF\<close>. \<^verbatim>\<open>fd_get\<close> reads a binding and counts a reference, or returns \<^verbatim>\<open>NULL\<close> without one. \<^verbatim>\<open>fd_free\<close> removes
  the binding if there is one. Each leaves every other binding, every other table and every lock as it was.
\<close>

theorem fd_table_refines_map:
  assumes "fs_quiet st" and "t \<noteq> NULL" and "fdt_wf (fdt_at st t)" and "0 \<le> fd" and "fd < 2 ^ 31"
  defines "M \<equiv> fd_map (fdt_at st t)" and "n \<equiv> length (fds (fdt_at st t))"
  shows "(\<forall>f. f \<noteq> NULL \<longrightarrow>
            (\<exists>u. fd_install t fd f st =
               Inr (if n \<le> nat fd then - EINVAL else if M (nat fd) \<noteq> None then - EBADF else 0, u) \<and>
             fs_quiet u \<and> fdt_wf (fdt_at u t) \<and> (\<forall>s. s \<noteq> t \<longrightarrow> fdt_at u s = fdt_at st s) \<and>
             fd_map (fdt_at u t) = (if nat fd < n \<and> M (nat fd) = None then M(nat fd \<mapsto> f) else M))) \<and>
         (\<exists>u. fd_get t fd st = Inr (case M (nat fd) of None \<Rightarrow> NULL | Some f \<Rightarrow> f, u) \<and> fs_quiet u \<and>
            fdt_at u = fdt_at st \<and>
            (\<forall>f. f_refcnt (file_at u f) = f_refcnt (file_at st f) + (if M (nat fd) = Some f then 1 else 0))) \<and>
         (\<exists>u. fd_free E t fd st = Inr u \<and> fs_quiet u \<and> fdt_wf (fdt_at u t) \<and>
            (\<forall>s. s \<noteq> t \<longrightarrow> fdt_at u s = fdt_at st s) \<and> fd_map (fdt_at u t) = M(nat fd := None))"
proof (intro conjI allI impI)
  fix f :: addr assume f: "f \<noteq> NULL"
  show "\<exists>u. fd_install t fd f st =
        Inr (if n \<le> nat fd then - EINVAL else if M (nat fd) \<noteq> None then - EBADF else 0, u) \<and>
      fs_quiet u \<and> fdt_wf (fdt_at u t) \<and> (\<forall>s. s \<noteq> t \<longrightarrow> fdt_at u s = fdt_at st s) \<and>
      fd_map (fdt_at u t) = (if nat fd < n \<and> M (nat fd) = None then M(nat fd \<mapsto> f) else M)"
    using assms f
    by (auto simp: fd_install_quiet upd_fdt_def fd_map_set fdt_wf_def fs_quiet_def passed_def)
next
  show "\<exists>u. fd_get t fd st = Inr (case M (nat fd) of None \<Rightarrow> NULL | Some f \<Rightarrow> f, u) \<and> fs_quiet u \<and>
      fdt_at u = fdt_at st \<and>
      (\<forall>f. f_refcnt (file_at u f) = f_refcnt (file_at st f) + (if M (nat fd) = Some f then 1 else 0))"
    using assms by (auto simp: fd_get_quiet upd_file_def fs_quiet_def passed_def split: option.splits)
next
  show "\<exists>u. fd_free E t fd st = Inr u \<and> fs_quiet u \<and> fdt_wf (fdt_at u t) \<and>
      (\<forall>s. s \<noteq> t \<longrightarrow> fdt_at u s = fdt_at st s) \<and> fd_map (fdt_at u t) = M(nat fd := None)"
  proof (cases "M (nat fd)")
    case None
    then have "M(nat fd := None) = M" by auto
    then show ?thesis using None assms by (auto simp: fd_free_absent fs_quiet_def passed_def)
  next
    case (Some f)
    then show ?thesis
      using assms
      by (auto simp: fd_free_quiet fs_upds fd_map_set fdt_wf_def fs_quiet_def passed_def fd_map_def split: if_splits)
  qed
qed

theorem fd_table_refines_map_witness:
  "(\<exists>u. fd_install 0x10 3 0x20 demo_fs = Inr (0, u) \<and> fd_map (fdt_at u 0x10) 3 = Some 0x20) \<and>
   (\<exists>u. fd_get 0x10 0 demo_fs = Inr (0x20, u) \<and> f_refcnt (file_at u 0x20) = f_refcnt (file_at demo_fs 0x20) + 1) \<and>
   (\<exists>u. fd_free demo_env 0x10 0 demo_fs = Inr u \<and> fd_map (fdt_at u 0x10) 0 = None)"
proof -
  have M: "fd_map (fdt_at demo_fs 0x10) 3 = None" "fd_map (fdt_at demo_fs 0x10) 0 = Some 0x20"
    "length (fds (fdt_at demo_fs 0x10)) = 32"
    by (simp_all add: demo_fs_def demo_fdt_def fd_map_def)
  note at = fd_table_refines_map [OF demo_quiet _ demo_fdt_wf, of "0x10" _ demo_env]
  have three: "nat 3 = (3::nat)" "nat 0 = (0::nat)"
    by simp_all
  have A: "\<exists>u. fd_install 0x10 3 0x20 demo_fs = Inr (0, u) \<and> fd_map (fdt_at u 0x10) 3 = Some 0x20"
    using conjunct1 [OF at [of 3], THEN spec, of "0x20"] M unfolding three by fastforce
  have B: "\<exists>u. fd_get 0x10 0 demo_fs = Inr (0x20, u) \<and> f_refcnt (file_at u 0x20) = f_refcnt (file_at demo_fs 0x20) + 1"
    using conjunct1 [OF conjunct2 [OF at [of 0]]] M unfolding three by fastforce
  have C: "\<exists>u. fd_free demo_env 0x10 0 demo_fs = Inr u \<and> fd_map (fdt_at u 0x10) 0 = None"
    using conjunct2 [OF conjunct2 [OF at [of 0]]] M unfolding three by fastforce
  show ?thesis
    using A B C by blast
qed

section \<open>Open files\<close>

text \<open>
  C38: \<^verbatim>\<open>file_put\<close> never releases a file. When it drops the last reference it calls \<^verbatim>\<open>file_close\<close>, which drops one
  more: the count becomes 2^32 - 1, and the file stays allocated and on the list of files; so does
  the file of a descriptor that \<^verbatim>\<open>fd_free\<close> closes. Closing such a file with \<^verbatim>\<open>file_close\<close> takes it off the list and
  frees it.
\<close>

theorem file_put_leaks:
  assumes "fs_quiet st" and "f \<noteq> NULL" and "f_refcnt (file_at st f) = 1"
  shows "(\<exists>u. file_put E f st = Inr u \<and> fs_quiet u \<and> f_refcnt (file_at u f) = 0xFFFFFFFF \<and>
            file_list u = file_list st \<and> file_count u = file_count st \<and> world u = world st) \<and>
         (t \<noteq> NULL \<and> fdt_wf (fdt_at st t) \<and> fd < 2 ^ 31 \<and> fd_map (fdt_at st t) fd = Some f \<longrightarrow>
          (\<exists>u. fd_free E t (int fd) st = Inr u \<and> f_refcnt (file_at u f) = 0xFFFFFFFF \<and>
            file_list u = file_list st \<and> world u = world st)) \<and>
         (f_link (file_at st f) = On_List \<and> vtable (fops E) op_release (f_op (file_at st f)) = None \<and>
          f_dentry (file_at st f) = NULL \<longrightarrow>
          (\<exists>u. file_close E f st = Inr (0, u) \<and> file_list u = remove1 f (file_list st) \<and>
            world u = cache_free E f (world st)))"
proof (intro conjI impI)
  show "\<exists>u. file_put E f st = Inr u \<and> fs_quiet u \<and> f_refcnt (file_at u f) = 0xFFFFFFFF \<and>
      file_list u = file_list st \<and> file_count u = file_count st \<and> world u = world st"
    using assms
    by (simp add: file_put_eval fs_quiet_hart fs_quiet_free put_count_def upd_file_def)
       (simp add: fs_quiet_def passed_def)
next
  assume "t \<noteq> NULL \<and> fdt_wf (fdt_at st t) \<and> fd < 2 ^ 31 \<and> fd_map (fdt_at st t) fd = Some f"
  then show "\<exists>u. fd_free E t (int fd) st = Inr u \<and> f_refcnt (file_at u f) = 0xFFFFFFFF \<and>
      file_list u = file_list st \<and> world u = world st"
    using assms fd_free_quiet [of st t "int fd" f E] by (simp add: put_count_def fs_upds)
next
  assume "f_link (file_at st f) = On_List \<and> vtable (fops E) op_release (f_op (file_at st f)) = None \<and>
      f_dentry (file_at st f) = NULL"
  then show "\<exists>u. file_close E f st = Inr (0, u) \<and> file_list u = remove1 f (file_list st) \<and>
      world u = cache_free E f (world st)"
    using assms by (simp add: file_close_last mem_free_def fs_upds)
qed

theorem file_put_leaks_witness:
  "(\<exists>u. file_put demo_env 0x20 demo_fs = Inr u \<and> file_list u = [0x20]) \<and>
   (\<exists>u. fd_free demo_env 0x10 0 demo_fs = Inr u \<and> file_list u = [0x20]) \<and>
   (\<exists>u. file_close demo_env 0x20 demo_fs = Inr (0, u) \<and> file_list u = [])"
  using file_put_leaks [OF demo_quiet, of "0x20" demo_env "0x10" 0] demo_fdt_wf [of "0x10"]
  by (auto simp: demo_fs_def demo_file_def demo_fdt_def fd_map_def demo_env_def no_fops_def vtable_def)

text \<open>
  C33: With a driver that transfers at most what it is asked for, \<^verbatim>\<open>file_read\<close> returns at most \<^verbatim>\<open>count\<close> bytes,
  advances the position by what was read and never past the end of the file, provided position plus
  count does not wrap around. When the sum wraps, the test against the size sees a small
  number and the driver is asked for the whole count, past the end of the file.
\<close>

theorem file_read_within_file:
  assumes "readable E f g st" and "buf \<noteq> NULL" and "n \<noteq> 0"
    and "f_pos (file_at st f) < i_size (inode_at st (f_inode (file_at st f)))"
  shows "(reads_some f buf k g \<and> unat (f_pos (file_at st f)) + unat n < 2 ^ 64 \<longrightarrow>
            (\<exists>j u. file_read E f buf n st = Inr (int j, u) \<and> fs_quiet u \<and> j \<le> unat n \<and>
               unat (f_pos (file_at u f)) = unat (f_pos (file_at st f)) + j \<and>
               unat (f_pos (file_at u f)) \<le> unat (i_size (inode_at st (f_inode (file_at st f)))))) \<and>
         (unat (f_pos (file_at st f)) + unat n \<ge> 2 ^ 64 \<and>
          f_pos (file_at st f) + n \<le> i_size (inode_at st (f_inode (file_at st f))) \<longrightarrow>
            file_read E f buf n st = finish_read f (g f buf n (f_pos (file_at st f)) (entered (File_Lock f) st)))"
proof (intro conjI impI)
  assume "reads_some f buf k g \<and> unat (f_pos (file_at st f)) + unat n < 2 ^ 64"
  then show "\<exists>j u. file_read E f buf n st = Inr (int j, u) \<and> fs_quiet u \<and> j \<le> unat n \<and>
      unat (f_pos (file_at u f)) = unat (f_pos (file_at st f)) + j \<and>
      unat (f_pos (file_at u f)) \<le> unat (i_size (inode_at st (f_inode (file_at st f))))"
    using file_read_advances [OF assms(1-3) _ assms(4) refl, of k] by metis
next
  assume "unat (f_pos (file_at st f)) + unat n \<ge> 2 ^ 64 \<and>
    f_pos (file_at st f) + n \<le> i_size (inode_at st (f_inode (file_at st f)))"
  then show "file_read E f buf n st = finish_read f (g f buf n (f_pos (file_at st f)) (entered (File_Lock f) st))"
    using file_read_eval [OF assms(1-3)] assms(4) by (simp add: not_less [symmetric])
qed

theorem file_read_within_file_witness:
  "\<exists>j u. file_read demo_env 0x20 0x5000 64 demo_fs = Inr (int j, u) \<and> j \<le> 64 \<and> unat (f_pos (file_at u 0x20)) \<le> 100"
proof -
  let ?g = "\<lambda>f buf n p st. Inr ((int (unat n), p + of_nat (unat n)), st)"
  have rd: "readable demo_env 0x20 ?g demo_fs"
    using demo_quiet
    by (simp add: readable_def demo_fs_def demo_file_def demo_inode_def demo_env_def vtable_def O_RDONLY_def
        O_WRONLY_def O_ACCMODE_def S_ISDIR_def S_IFMT_def S_IFREG_def S_IFDIR_def)
  have "reads_some 0x20 0x5000 (\<lambda>m p. unat m) ?g"
    by (simp add: reads_some_def) (metis fs.surjective fs.update_convs(1))
  then show ?thesis
    using file_read_within_file [OF rd, of "0x5000" 64 "\<lambda>m p. unat m"]
    by (simp add: demo_fs_def demo_file_def demo_inode_def) blast
qed

section \<open>Inodes\<close>

text \<open>
  \<^verbatim>\<open>inode_truncate\<close> calls \<^verbatim>\<open>inode_dirty\<close> while it holds the lock that \<^verbatim>\<open>inode_dirty\<close> acquires: it panics
  on every inode.
\<close>

lemma inode_truncate_panics:
  "fs_quiet st \<Longrightarrow> i \<noteq> NULL \<Longrightarrow> inode_truncate E i st = Inl (Panic ''recursive lock acquire'')"
  by (simp add: inode_truncate_def inode_dirty_def fs_locking fs_upds)
     (simp add: spinlock_acquire_def hold_def)

text \<open>
  C35: \<^verbatim>\<open>inode_get\<close> creates an inode once and afterwards returns the cached one with one more reference. The
  cache is keyed by the inode number alone: the same inode is returned for another super block.
\<close>

theorem inode_get_once:
  assumes "fs_quiet st" and "ht_ok (inode_ht st)" and "hashtable_lookup (world st, inode_ht st) ino = NULL"
    and "inode_sop E op_alloc_inode sb st = None"
    and "cache_alloc E ''inode'' (world st) = (i, w)" and "i \<noteq> NULL" and "\<not> IS_ERR i"
    and "fst (kalloc E sizeof_hash_node w) \<noteq> NULL"
  shows "\<exists>u v. inode_get E sb ino st = Inr (i, u) \<and> fs_quiet u \<and> ht_ok (inode_ht u) \<and>
    inode_list u = i # inode_list st \<and> i_ino (inode_at u i) = ino \<and> i_sb (inode_at u i) = sb \<and>
    i_refcnt (inode_at u i) = 1 \<and>
    inode_get E sb' ino u = Inr (i, v) \<and> i_refcnt (inode_at v i) = 2 \<and> i_sb (inode_at v i) = sb \<and>
    inode_list v = inode_list u \<and> world v = world u"
proof -
  obtain u where u: "inode_get E sb ino st = Inr (i, u)" "fs_quiet u" "ht_ok (inode_ht u)"
      "hashtable_lookup (world u, inode_ht u) ino = i" "inode_list u = i # inode_list st"
      "i_refcnt (inode_at u i) = 1" "i_ino (inode_at u i) = ino" "i_sb (inode_at u i) = sb"
    by (rule inode_get_miss [OF assms])
  show ?thesis
    using u inode_get_hit [OF u(2,4) assms(6), of E sb'] by (simp add: upd_inode_def)
qed

theorem inode_get_once_witness:
  "\<exists>u v. inode_get demo_env 0x300 7 demo_fs = Inr (0x1000, u) \<and> inode_get demo_env 0x400 7 u = Inr (0x1000, v) \<and>
     i_sb (inode_at v 0x1000) = 0x300"
proof -
  have "ht_ok (inode_ht demo_fs)"
    by (simp add: demo_fs_def empty_table_def ht_ok_def)
  moreover have "hashtable_lookup (world demo_fs, inode_ht demo_fs) 7 = NULL"
    by (simp add: demo_fs_def empty_table_def hashtable_lookup_def)
  moreover have "inode_sop demo_env op_alloc_inode 0x300 demo_fs = None"
    by (simp add: demo_env_def inode_sop_def vtable_def)
  moreover have "cache_alloc demo_env ''inode'' (world demo_fs) = (0x1000, 0x1200)"
    by (simp add: demo_env_def demo_fs_def)
  moreover have "fst (kalloc demo_env sizeof_hash_node 0x1200) \<noteq> NULL"
    by (simp add: demo_env_def)
  moreover have "\<not> IS_ERR 0x1000"
    by (simp add: IS_ERR_iff)
  ultimately show ?thesis
    using inode_get_once [OF demo_quiet, of 7 demo_env "0x300" "0x1000" "0x1200" "0x400"] by auto
qed

section \<open>Directory entries\<close>

text \<open>
  C37: An entry that \<^verbatim>\<open>dentry_insert\<close> has put into the cache is found by \<^verbatim>\<open>dentry_lookup\<close> under its own name only
  when its key is a fixed point of the hash: the table stores it in the bucket of the hash of its key,
  the lookup reads the bucket the key numbers. Otherwise the lookup returns NULL. The key is all that
  the table compares, so an entry of another name with the same key is refused with \<^verbatim>\<open>-EEXIST\<close>.
\<close>

theorem dentry_lookup_misses_insert:
  assumes ins: "insertable st d"
    and free: "hashtable_lookup (world st, dentry_ht st) (ucast (entry_key st d)) = NULL"
    and vals: "\<And>i n. n \<in> set (buckets (dentry_ht st) i) \<Longrightarrow>
      hn_value n \<noteq> NULL \<and> \<not> same_entry (dentry_at st (hn_value n)) (dentry_at st d)"
    and mem: "kalloc E sizeof_hash_node (world st) = (p, w)" "p \<noteq> NULL"
  shows "\<exists>u. dentry_insert E d st = Inr (0, u) \<and> fs_quiet u \<and> dentry_list u = d # dentry_list st \<and>
    (\<exists>v. dentry_lookup (d_sb (dentry_at st d)) (d_parent (dentry_at st d)) (d_name (dentry_at st d)) u =
       Inr (if hash_ptr (ucast (entry_key st d)) (ht_size (dentry_ht st)) = entry_key st d then d else NULL, v)) \<and>
    (\<forall>e. insertable u e \<and> entry_key u e = entry_key st d \<longrightarrow> (\<exists>v. dentry_insert E e u = Inr (- EEXIST, v)))"
proof -
  let ?k = "entry_key st d" and ?ht = "dentry_ht st"
  let ?i = "unat (hash_ptr (ucast ?k) (ht_size ?ht))"
  let ?n = "\<lparr>hn_addr = p, hn_key = ucast ?k, hn_value = d\<rparr>"
  let ?ht' = "?ht\<lparr>buckets := (buckets ?ht)(?i := ?n # buckets ?ht ?i), ht_count := ht_count ?ht + 1\<rparr>"
  define u where "u = passed Dentry_State (upd_dentry d (\<lambda>x. x\<lparr>d_list := On_List\<rparr>)
     (st\<lparr>world := w, dentry_ht := ?ht', dentry_list := d # dentry_list st, dentry_count := dentry_count st + 1\<rparr>))"
  have i: "dentry_insert E d st = Inr (0, u)"
    unfolding u_def using vals by (intro dentry_insert_fresh [OF ins free _ mem]) blast
  have q: "fs_quiet u" using ins by (simp add: u_def insertable_def fs_quiet_def passed_def upd_dentry_def)
  have u: "dentry_ht u = ?ht'" "dentry_list u = d # dentry_list st"
    "dentry_at u = (dentry_at st)(d := (dentry_at st d)\<lparr>d_list := On_List\<rparr>)"
    by (simp_all add: u_def upd_dentry_def)
  let ?x = "dentry_at st d"
  have key: "dentry_hash_key u (d_sb ?x) (d_parent ?x) (d_name ?x) = ?k"
    by (simp add: dentry_hash_key_def entry_key_def u Let_def)
  let ?P = "\<lambda>n. hn_value n \<noteq> NULL \<and> d_sb (dentry_at u (hn_value n)) = d_sb ?x \<and>
                    d_parent (dentry_at u (hn_value n)) = d_parent ?x \<and>
                    q_len (d_name (dentry_at u (hn_value n))) = q_len (d_name ?x) \<and>
                    q_name (d_name (dentry_at u (hn_value n))) = q_name (d_name ?x)"
  have other: "\<not> ?P n" if "n \<in> set (buckets ?ht j)" for n j
    using vals [OF that] by (auto simp: u same_entry_def)
  have none: "find ?P (buckets ?ht j) = None" for j
    using other by (simp add: find_None_iff)
  have slot: "unat ?k = ?i \<longleftrightarrow> hash_ptr (ucast ?k) (ht_size ?ht) = ?k"
    by (metis word_unat_eq_iff)
  have "?P ?n" using ins by (simp add: u insertable_def)
  then have "cache_find u (d_sb ?x) (d_parent ?x) (d_name ?x) =
      (if hash_ptr (ucast ?k) (ht_size ?ht) = ?k then d else NULL)"
    using none [of ?i] none [of "unat ?k"] slot by (simp add: cache_find_def key u(1))
  moreover have "hashtable_lookup (world u, dentry_ht u) (ucast ?k) = d"
    by (simp add: u hashtable_lookup_def)
  ultimately show ?thesis
    using i q u(2) ins dentry_insert_taken [of u _ E]
    by (auto simp: dentry_lookup_quiet insertable_def)
qed

theorem dentry_lookup_misses_insert_witness:
  "\<exists>u v. dentry_insert demo_env 0x600 demo_fs = Inr (0, u) \<and> dentry_list u = [0x600] \<and>
     dentry_lookup 0x300 0x100 (name_key [97]) u = Inr (NULL, v)"
proof -
  have ht: "dentry_ht demo_fs = empty_table 128" "dentry_at demo_fs 0x600 = demo_dentry [97] 0x50 0x100 2"
    "dentry_list demo_fs = []"
    by (simp_all add: demo_fs_def)
  have ins: "insertable demo_fs 0x600"
    using demo_quiet by (simp add: insertable_def ht ht_ok_def empty_table_def demo_dentry_def)
  have k: "hash_ptr (ucast (entry_key demo_fs 0x600)) 128 \<noteq> entry_key demo_fs 0x600"
    by (simp add: entry_key_def dentry_hash_key_def ht demo_dentry_def empty_table_def name_key_def) code_simp
  have "kalloc demo_env sizeof_hash_node (world demo_fs) = (0x1000, 0x1000 + sizeof_hash_node)"
    by (simp add: demo_env_def demo_fs_def)
  then show ?thesis
    using dentry_lookup_misses_insert [OF ins, of demo_env "0x1000" "0x1000 + sizeof_hash_node"] k
    by (auto simp: ht empty_table_def hashtable_lookup_def demo_dentry_def)
qed

section \<open>Paths\<close>

text \<open>
  C36: One step of the path walk through an entry of the cache takes away one reference more than it gives, whatever is
  mounted. Where nothing is mounted on the entry, the directory that the step leaves loses a reference and the
  entry that it returns gains none; across a mount, the entry below the mount, of which none was taken, loses one too,
  and the root of the mount gains one. A step that drops the last reference of a directory on the LRU list
  corrupts that list.
\<close>

theorem walk_step_unbalanced:
  assumes "fs_quiet st" and "d \<noteq> NULL" and b: "b = walk_base st d" and "searchable E b st"
    and name: "name \<noteq> []" "name \<noteq> name_dot" "name \<noteq> name_dotdot"
    and c: "cache_find st (d_sb (dentry_at st b)) b (name_key name) = c" "c \<noteq> NULL" "\<not> IS_ERR c"
    and m: "m = mount_over st c" and r: "r = mnt_root (mount_at st m)"
  shows "(m = NULL \<and> droppable st d \<longrightarrow>
            (\<exists>u. walk_step E d name st = Inr (Inr (c, LAST_NORM), u) \<and> fs_quiet u \<and>
               dref u = (dref st)(d := dref st d - 1))) \<and>
         (m \<noteq> NULL \<and> r \<noteq> NULL \<and> distinct [c, r, d] \<and> droppable st c \<and> droppable st d \<longrightarrow>
            (\<exists>u. walk_step E d name st = Inr (Inr (r, LAST_NORM), u) \<and> fs_quiet u \<and>
               dref u = (dref st)(c := dref st c - 1, r := dref st r + 1, d := dref st d - 1))) \<and>
         (m = NULL \<and> \<not> droppable st d \<longrightarrow> walk_step E d name st = Inl Bad_List)"
proof (intro conjI impI)
  let ?s = "passed Vfs_State (passed Dentry_State (passed Vfs_State st))"
  note step = walk_step_found [OF assms(1,2) assms(4) [unfolded b] name c(1) [unfolded b] c(2,3)]
  have q: "fs_quiet ?s" using assms(1) by simp
  have dr: "droppable ?s x \<longleftrightarrow> droppable st x" for x by (simp add: droppable_def)
  {
    assume "m = NULL \<and> droppable st d"
    moreover from this obtain u where "dentry_put d ?s = Inr u" "fs_quiet u" "dref u = (dref ?s)(d := dref ?s d - 1)"
      using dentry_put_ok [OF q, of d] dr by blast
    ultimately show "\<exists>u. walk_step E d name st = Inr (Inr (c, LAST_NORM), u) \<and> fs_quiet u \<and>
        dref u = (dref st)(d := dref st d - 1)"
      unfolding step using m by simp
  next
    assume a: "m \<noteq> NULL \<and> r \<noteq> NULL \<and> distinct [c, r, d] \<and> droppable st c \<and> droppable st d"
    then have n: "r \<noteq> NULL" "d \<noteq> c" "d \<noteq> r" "r \<noteq> c" "droppable ?s c" "droppable ?s d" using dr by auto
    obtain u v w where w: "dentry_put c ?s = Inr u" "dentry_get r u = Inr v" "dentry_put d v = Inr w" "fs_quiet w"
      "dref w = (dref ?s)(c := dref ?s c - 1, r := dref ?s r + 1, d := dref ?s d - 1)"
      "mount_at u = mount_at ?s" "mount_at v = mount_at ?s"
      by (rule cross_mount [OF q n])
    have e: "mnt_root (mount_at u m) = r" "mnt_root (mount_at v m) = r" using w(6,7) r by simp_all
    have "walk_step E d name st = Inr (Inr (r, LAST_NORM), w)"
      unfolding step m [symmetric] Let_def using a w(1-3) e by simp
    then show "\<exists>u. walk_step E d name st = Inr (Inr (r, LAST_NORM), u) \<and> fs_quiet u \<and>
        dref u = (dref st)(c := dref st c - 1, r := dref st r + 1, d := dref st d - 1)"
      using w(4,5) by simp
  next
    assume "m = NULL \<and> \<not> droppable st d"
    then show "walk_step E d name st = Inl Bad_List"
      unfolding step using m assms(2) q dentry_put_last [OF q assms(2)] by (simp add: droppable_def dref_def)
  }
qed

text \<open>A file system mounted on its own root, as \<^verbatim>\<open>vfs_mount_root\<close> leaves it, and one entry in the cache.\<close>

definition walk_fs :: "u64 fs" where
  "walk_fs = demo_fs\<lparr>dentry_ht := (dentry_ht demo_fs)\<lparr>buckets := \<lambda>_. [\<lparr>hn_addr = 0x900, hn_key = 0, hn_value = 0x600\<rparr>]\<rparr>,
     dentry_at := (dentry_at demo_fs)(0x100 := demo_dentry [47] 0x50 0 2), mounts := [0x700], root_mount := 0x700,
     mount_at := (mount_at demo_fs)(0x700 := (mount_at demo_fs 0x700)\<lparr>mnt_mountpoint := 0x100, mnt_root := 0x100\<rparr>)\<rparr>"

theorem walk_step_unbalanced_witness:
  "\<exists>u. walk_step demo_env 0x100 [97] walk_fs = Inr (Inr (0x600, LAST_NORM), u) \<and>
     dref walk_fs 0x100 = 2 \<and> dref u 0x100 = 1 \<and> dref walk_fs 0x600 = 2 \<and> dref u 0x600 = 2"
proof -
  have w: "dentry_at walk_fs = (\<lambda>_. demo_dentry [97] 0x50 0x100 2)(0x100 := demo_dentry [47] 0x50 0 2)"
    "i_mode (inode_at walk_fs 0x50) = S_IFDIR" "i_op (inode_at walk_fs 0x50) = 0x90"
    "mounts walk_fs = [0x700]" "mnt_mountpoint (mount_at walk_fs 0x700) = 0x100 \<and> mnt_root (mount_at walk_fs 0x700) = 0x100"
    by (simp_all add: walk_fs_def demo_fs_def demo_inode_def)
  have q: "fs_quiet walk_fs"
    using demo_quiet by (simp add: walk_fs_def fs_quiet_def)
  have mo: "mount_over walk_fs 0x100 = 0x700" "mnt_root (mount_at walk_fs 0x700) = 0x100" "mount_over walk_fs 0x600 = 0"
    using w(4,5) by (simp_all add: mount_over_def mounted_on_def w(1) demo_dentry_def name_key_def)
  then have b: "0x100 = walk_base walk_fs 0x100" by (simp add: walk_base_def)
  have s: "searchable demo_env 0x100 walk_fs"
    by (simp add: searchable_def w demo_dentry_def vtable_def S_ISDIR_def S_IFMT_def S_IFDIR_def) (simp add: demo_env_def)
  have c: "cache_find walk_fs (d_sb (dentry_at walk_fs 0x100)) 0x100 (name_key [97]) = 0x600"
    by (simp add: cache_find_def w demo_dentry_def name_key_def) (simp add: walk_fs_def)
  have "droppable walk_fs 0x100" "dref walk_fs 0x100 = 2" "dref walk_fs 0x600 = 2"
    by (simp_all add: droppable_def dref_def w demo_dentry_def)
  then show ?thesis
    using walk_step_unbalanced [OF q _ b s _ _ _ c _ _ refl refl] mo(3)
    by (simp add: name_dot_def name_dotdot_def IS_ERR_iff) fastforce
qed

text \<open>
  C34: The walk reads a path as the sequence of its names, whatever the number of slashes between them,
  before the first and after the last. A name longer than \<^verbatim>\<open>NAME_MAX\<close> is not refused: it is read as its first
  \<^verbatim>\<open>NAME_MAX\<close> bytes and then as the rest, like a path with a slash after them.
\<close>

theorem path_components:
  assumes "\<forall>(k, n)\<in>set kns. n \<noteq> [] \<and> slash \<notin> set n \<and> length n \<le> NAME_MAX"
  shows "components (concat (map (\<lambda>(k, n). replicate (Suc k) slash @ n) kns) @ replicate j slash) = map snd kns \<and>
    (m \<noteq> [] \<and> slash \<notin> set m \<and> NAME_MAX < length m \<longrightarrow>
       components m = take NAME_MAX m # components (drop NAME_MAX m))"
proof
  show "components (concat (map (\<lambda>(k, n). replicate (Suc k) slash @ n) kns) @ replicate j slash) = map snd kns"
    using assms components_join [of kns j] unfolding join_path_def list_all_iff plain_name_def by blast
  show "m \<noteq> [] \<and> slash \<notin> set m \<and> NAME_MAX < length m \<longrightarrow>
       components m = take NAME_MAX m # components (drop NAME_MAX m)"
    using components_plain [of m "[]"] by (simp add: plain_name_def)
qed

theorem path_components_witness:
  "components [0x2F, 0x61, 0x2F, 0x2F, 0x62, 0x2F] = [[0x61], [0x62]] \<and>
   components (replicate (Suc NAME_MAX) 0x61) = take NAME_MAX (replicate (Suc NAME_MAX) 0x61) # components [0x61]"
  using path_components [of "[(0, [0x61]), (1, [0x62])]" 1 "replicate (Suc NAME_MAX) 0x61"]
  by (simp add: NAME_MAX_def del: take_replicate)

section \<open>Error codes\<close>

text \<open>
  An error code from 1 to \<^verbatim>\<open>MAX_ERRNO\<close> returned as a pointer is recognised and read back exactly; a pointer
  below the last 4095 addresses is not taken for an error. Every error of the table has a
  message of its own, whatever its sign.
\<close>

theorem error_pointers:
  shows "(1 \<le> e \<and> e \<le> MAX_ERRNO \<longrightarrow> IS_ERR (PTR (- e)) \<and> PTR_ERR (PTR (- e)) = - e) \<and>
    (unat p < 2 ^ 64 - 4095 \<longrightarrow> \<not> IS_ERR p) \<and>
    (x \<in> set error_table \<longrightarrow> strerror (err_code x) = err_desc x \<and> strerror (- err_code x) = err_desc x)"
proof (intro conjI impI)
  assume "1 \<le> e \<and> e \<le> MAX_ERRNO"
  then show "IS_ERR (PTR (- e))" "PTR_ERR (PTR (- e)) = - e"
    by (auto intro!: IS_ERR_PTR PTR_ERR_PTR simp: MAX_ERRNO_def)
next
  assume "unat p < 2 ^ 64 - 4095"
  then show "\<not> IS_ERR p" by (simp add: IS_ERR_iff)
next
  have "list_all (\<lambda>x. strerror (err_code x) = err_desc x \<and> strerror (- err_code x) = err_desc x) error_table"
    by code_simp
  moreover assume "x \<in> set error_table"
  ultimately show "strerror (err_code x) = err_desc x" "strerror (- err_code x) = err_desc x"
    by (auto simp: list_all_iff)
qed

theorem error_pointers_witness:
  "IS_ERR (PTR (- ENOENT)) \<and> PTR_ERR (PTR (- ENOENT)) = - ENOENT \<and> \<not> IS_ERR 0x1000"
  using error_pointers [of ENOENT "0x1000" x for x] by (simp add: ENOENT_def MAX_ERRNO_def)

end
