(* ===== verification/Lz4.thy ===== *)
theory Lz4
  imports Kernel_Prelude
begin

text \<open>
  The LZ4 codec, \<^verbatim>\<open>src/misc/lz4.c\<close>. A pointer into the source is its distance from \<^verbatim>\<open>src\<close>; the part of the
  destination that has been written is a list, so that \<^verbatim>\<open>op - dst\<close> is its length. Every access is checked: a
  read outside the source buffer, outside the bytes written so far or before the destination, and a write past the
  capacity, are the fault \<open>Out_Of_Bounds\<close>; where the code has a check of its own it returns \<open>- 1\<close> before it gets
  there. The compressor reads its whole source, so a size above the length of the buffer is that fault at once.
\<close>

section \<open>Memory accesses\<close>

definition rd :: "u8 list \<Rightarrow> nat \<Rightarrow> u8 res" where
  "rd src p = (if p < length src then Inr (src ! p) else Inl Out_Of_Bounds)"

definition rd_bytes :: "u8 list \<Rightarrow> nat \<Rightarrow> nat \<Rightarrow> u8 list res" where
  "rd_bytes src p n = (if p + n \<le> length src then Inr (take n (drop p src)) else Inl Out_Of_Bounds)"

definition lz4_read32 :: "u8 list \<Rightarrow> nat \<Rightarrow> u32 res" where
  "lz4_read32 src p =
     rbind (rd_bytes src p 4) (\<lambda>bs.
       Inr (ucast (bs ! 0) OR push_bit 8 (ucast (bs ! 1)) OR push_bit 16 (ucast (bs ! 2)) OR push_bit 24 (ucast (bs ! 3))))"

definition emit :: "int \<Rightarrow> u8 list \<Rightarrow> u8 list \<Rightarrow> u8 list res" where
  "emit cap bs out = (if int (length out + length bs) \<le> cap then Inr (out @ bs) else Inl Out_Of_Bounds)"

section \<open>Parameters\<close>

definition LZ4_HASHLOG :: nat where "LZ4_HASHLOG = 12"
definition LZ4_HASHTABLESIZE :: u32 where "LZ4_HASHTABLESIZE = push_bit LZ4_HASHLOG 1"
definition LZ4_MINMATCH :: nat where "LZ4_MINMATCH = 4"
definition LZ4_LASTLITERALS :: nat where "LZ4_LASTLITERALS = 5"
definition LZ4_MFLIMIT :: nat where "LZ4_MFLIMIT = 12"

definition LZ4_HASH_FUNCTION :: "u32 \<Rightarrow> u32" where
  "LZ4_HASH_FUNCTION v = drop_bit ((32 - LZ4_HASHLOG) - LZ4_MINMATCH) (v * 2654435761)"

section \<open>Lengths\<close>

text \<open>The bytes of a length after the nibble: as many 255 as fit, then the rest.\<close>

fun len_bytes :: "nat \<Rightarrow> u8 list" where
  "len_bytes n = (if 255 \<le> n then 255 # len_bytes (n - 255) else [of_nat n])"

declare len_bytes.simps [simp del]

definition lz4_write_literal :: "nat \<Rightarrow> u8 list" where
  "lz4_write_literal literal_len =
     (if 15 \<le> literal_len then push_bit 4 15 # len_bytes (literal_len - 15)
      else [of_nat (literal_len * 2 ^ 4)])"

section \<open>Compression\<close>

text \<open>The two loops that extend a match, four bytes at a time up to \<^verbatim>\<open>matchlimit\<close> and then byte by byte.\<close>

function match_words :: "u8 list \<Rightarrow> nat \<Rightarrow> nat \<Rightarrow> nat res" where
  "match_words src offset match_end =
     (if match_end < length src - LZ4_LASTLITERALS then
        rbind (lz4_read32 src match_end) (\<lambda>a.
        rbind (lz4_read32 src (match_end - offset)) (\<lambda>b.
          if a = b then match_words src offset (match_end + 4) else Inr match_end))
      else Inr match_end)"
  by pat_completeness auto
termination by (relation "measure (\<lambda>(src, offset, e). length src - e)") auto

function match_bytes :: "u8 list \<Rightarrow> nat \<Rightarrow> nat \<Rightarrow> nat res" where
  "match_bytes src offset match_end =
     (if match_end < length src then
        rbind (rd src (match_end - offset)) (\<lambda>a.
        rbind (rd src match_end) (\<lambda>b.
          if a = b then match_bytes src offset (match_end + 1) else Inr match_end))
      else Inr match_end)"
  by pat_completeness auto
termination by (relation "measure (\<lambda>(src, offset, e). length src - e)") auto

declare match_words.simps [simp del] match_bytes.simps [simp del]

text \<open>Bytes written one by one, each after \<^verbatim>\<open>if (op >= oend) return -1\<close>: \<open>False\<close> with what was written then.\<close>

fun put_checked :: "int \<Rightarrow> u8 list \<Rightarrow> u8 list \<Rightarrow> bool \<times> u8 list" where
  "put_checked cap [] op = (True, op)"
| "put_checked cap (b # bs) op =
     (if cap \<le> int (length op) then (False, op) else put_checked cap bs (op @ [b]))"

text \<open>
  One sequence: the literals from \<^verbatim>\<open>anchor\<close> to \<^verbatim>\<open>ip\<close>, then a match of \<open>match_len\<close> bytes. \<^verbatim>\<open>lz4_write_literal\<close> writes
  the token and the length bytes before any test of the capacity. The result is \<open>False\<close> for \<^verbatim>\<open>return -1\<close>.
\<close>

definition lz4_sequence ::
  "u8 list \<Rightarrow> int \<Rightarrow> nat \<Rightarrow> nat \<Rightarrow> u64 \<Rightarrow> nat \<Rightarrow> u8 list \<Rightarrow> (bool \<times> u8 list) res" where
  "lz4_sequence src cap anchor ip offset match_len op =
     (let literal_len = ip - anchor;
          token = length op;
          ml = match_len - LZ4_MINMATCH
      in rbind (emit cap (lz4_write_literal literal_len) op) (\<lambda>op.
         if cap < int (length op + literal_len) then Inr (False, op)
         else
           rbind (rd_bytes src anchor literal_len) (\<lambda>lits.
           rbind (emit cap lits op) (\<lambda>op.
             let op = op[token := op ! token OR (if ml < 15 then of_nat ml else 15)]
             in if cap < int (length op + 2) then Inr (False, op)
                else
                  rbind (emit cap [ucast offset, ucast (drop_bit 8 offset)] op) (\<lambda>op.
                    if 15 \<le> ml then Inr (put_checked cap (len_bytes (ml - 15)) op)
                    else Inr (True, op))))))"

text \<open>
  One turn of the loop at \<^verbatim>\<open>ip\<close>: the new position, the new anchor, hash table and output, or \<open>Inl\<close> the output
  at \<^verbatim>\<open>return -1\<close>. The entries of the table are unsigned, so that \<^verbatim>\<open>match < src\<close> is never true.
\<close>

definition lz4_turn ::
  "u8 list \<Rightarrow> int \<Rightarrow> int \<Rightarrow> nat \<Rightarrow> nat \<Rightarrow> (nat \<Rightarrow> u32) \<Rightarrow> u8 list
     \<Rightarrow> (u8 list + nat \<times> nat \<times> (nat \<Rightarrow> u32) \<times> u8 list) res" where
  "lz4_turn src cap acceleration ip anchor hash_table op =
     rbind (lz4_read32 src ip) (\<lambda>v.
       let h = unat (LZ4_HASH_FUNCTION v AND (LZ4_HASHTABLESIZE - 1));
           m = unat (hash_table h);
           offset = (of_nat ip - of_nat m :: u64);
           hash_table = hash_table(h := of_nat ip);
           skip = Inr (Inr (ip + (if 1 < acceleration then nat acceleration else 1), anchor, hash_table, op))
       in if offset = 0 \<or> 65535 < offset then skip
          else
            rbind (lz4_read32 src m) (\<lambda>a.
            rbind (lz4_read32 src ip) (\<lambda>b.
              if a \<noteq> b then skip
              else
                rbind (match_words src (unat offset) (ip + LZ4_MINMATCH)) (\<lambda>match_end.
                rbind (match_bytes src (unat offset) match_end) (\<lambda>match_end.
                rbind (lz4_sequence src cap anchor ip offset (match_end - ip) op) (\<lambda>(ok, op).
                  Inr (if ok then Inr (match_end, match_end, hash_table, op) else Inl op)))))))"

lemma match_words_ge: "match_words src off e = Inr e' \<Longrightarrow> e \<le> e'"
proof (induction src off e rule: match_words.induct)
  case (1 src off e)
  then show ?case by (subst (asm) match_words.simps) (force simp: rbind_eq_Inr_iff split: if_splits)
qed

lemma match_bytes_ge: "match_bytes src off e = Inr e' \<Longrightarrow> e \<le> e'"
proof (induction src off e rule: match_bytes.induct)
  case (1 src off e)
  then show ?case by (subst (asm) match_bytes.simps) (force simp: rbind_eq_Inr_iff split: if_splits)
qed

lemma lz4_turn_progress:
  assumes "lz4_turn src cap a ip anchor tab op = Inr (Inr (ip', anchor', tab', op'))"
  shows "ip < ip'"
  using assms
  by (auto simp: lz4_turn_def Let_def rbind_eq_Inr_iff LZ4_MINMATCH_def
      dest!: match_words_ge match_bytes_ge split: if_splits)

text \<open>The loop \<^verbatim>\<open>while (ip < mflimit)\<close>: the anchor and the output at its end.\<close>

function lz4_scan ::
  "u8 list \<Rightarrow> int \<Rightarrow> int \<Rightarrow> nat \<Rightarrow> nat \<Rightarrow> (nat \<Rightarrow> u32) \<Rightarrow> u8 list \<Rightarrow> (u8 list + nat \<times> u8 list) res" where
  "lz4_scan src cap a ip anchor hash_table op =
     (if ip < length src - LZ4_MFLIMIT then
        rbind (lz4_turn src cap a ip anchor hash_table op) (\<lambda>r.
          case r of Inl op \<Rightarrow> Inr (Inl op)
          | Inr (ip, anchor, hash_table, op) \<Rightarrow> lz4_scan src cap a ip anchor hash_table op)
      else Inr (Inr (anchor, op)))"
  by pat_completeness auto

termination
  by (relation "measure (\<lambda>(src, cap, a, ip, _). length src - ip)") (auto dest!: lz4_turn_progress)

declare lz4_scan.simps [simp del]

definition lz4_last_literals :: "u8 list \<Rightarrow> int \<Rightarrow> nat \<Rightarrow> u8 list \<Rightarrow> (int \<times> u8 list) res" where
  "lz4_last_literals src cap anchor op =
     (let last_run = length src - anchor
      in if 0 < last_run then
           if cap < int (length op + 1 + (if 15 \<le> last_run then 1 else 0) +
               (if 15 \<le> last_run then (last_run - 15 + 254) div 255 else 0) + last_run)
           then Inr (- 1, op)
           else
             rbind (emit cap (if last_run < 15 then [of_nat (last_run * 2 ^ 4)]
                              else push_bit 4 15 # len_bytes (last_run - 15)) op) (\<lambda>op.
             rbind (rd_bytes src anchor last_run) (\<lambda>lits.
             rbind (emit cap lits op) (\<lambda>op.
               Inr (int (length op), op))))
         else Inr (int (length op), op))"

definition lz4_compress_generic :: "u8 list \<Rightarrow> int \<Rightarrow> int \<Rightarrow> (int \<times> u8 list) res" where
  "lz4_compress_generic src dst_capacity acceleration =
     (if length src < LZ4_MINMATCH then lz4_last_literals src dst_capacity 0 []
      else
        rbind (lz4_scan src dst_capacity acceleration 0 0 (\<lambda>_. 0) []) (\<lambda>r.
          case r of Inl op \<Rightarrow> Inr (- 1, op)
          | Inr (anchor, op) \<Rightarrow> lz4_last_literals src dst_capacity anchor op))"

definition lz4_compress_fast :: "u8 list \<Rightarrow> int \<Rightarrow> int \<Rightarrow> int \<Rightarrow> (int \<times> u8 list) res" where
  "lz4_compress_fast src src_size dst_capacity acceleration =
     (if src_size < 0 then Inr (- 1, [])
      else if src_size = 0 then Inr (0, [])
      else if dst_capacity < 1 then Inr (- 1, [])
      else if int (length src) < src_size then Inl Out_Of_Bounds
      else lz4_compress_generic (take (nat src_size) src) dst_capacity acceleration)"

definition lz4_compress :: "u8 list \<Rightarrow> int \<Rightarrow> int \<Rightarrow> (int \<times> u8 list) res" where
  "lz4_compress src src_size dst_capacity = lz4_compress_fast src src_size dst_capacity 1"

section \<open>Decompression\<close>

text \<open>
  The source is a buffer \<open>src\<close> and the position \<open>iend\<close> that \<^verbatim>\<open>src_size\<close> gives; the two need not agree, so that each
  read is inside the buffer only because of the code's own tests against \<^verbatim>\<open>iend\<close>. The loop that adds bytes
  to a length while they are 255; \<open>None\<close> is \<^verbatim>\<open>return -1\<close> at the end of the source.
\<close>

function ext_len :: "u8 list \<Rightarrow> nat \<Rightarrow> nat \<Rightarrow> nat \<Rightarrow> (nat \<times> nat) option res" where
  "ext_len src iend ip n =
     (if iend \<le> ip then Inr None
      else rbind (rd src ip) (\<lambda>s.
        if s = 255 then ext_len src iend (ip + 1) (n + unat s) else Inr (Some (n + unat s, ip + 1))))"
  by pat_completeness auto
termination by (relation "measure (\<lambda>(src, iend, ip, n). iend - ip)") auto

declare ext_len.simps [simp del]

definition read_len :: "u8 list \<Rightarrow> nat \<Rightarrow> u8 \<Rightarrow> nat \<Rightarrow> nat \<Rightarrow> (nat \<times> nat) option res" where
  "read_len src iend nibble base ip =
     (if nibble = 15 then ext_len src iend ip (unat nibble + base) else Inr (Some (unat nibble + base, ip)))"

text \<open>Reads of the output behind \<^verbatim>\<open>op\<close>: \<^verbatim>\<open>op[-offset]\<close>, and \<open>n\<close> bytes from there.\<close>

definition rd_back :: "u8 list \<Rightarrow> nat \<Rightarrow> u8 res" where
  "rd_back op offset = (if length op < offset then Inl Out_Of_Bounds else rd op (length op - offset))"

definition rd_bytes_back :: "u8 list \<Rightarrow> nat \<Rightarrow> nat \<Rightarrow> u8 list res" where
  "rd_bytes_back op offset n =
     (if length op < offset then Inl Out_Of_Bounds else rd_bytes op (length op - offset) n)"

text \<open>\<^verbatim>\<open>do { *dest++ = *ref++; remaining--; } while (remaining > offset)\<close>, with \<^verbatim>\<open>ref\<close> always \<^verbatim>\<open>offset\<close> before \<^verbatim>\<open>dest\<close>.\<close>

function overlap_copy :: "int \<Rightarrow> nat \<Rightarrow> nat \<Rightarrow> u8 list \<Rightarrow> (nat \<times> u8 list) res" where
  "overlap_copy cap offset remaining op =
     rbind (rd_back op offset) (\<lambda>b.
     rbind (emit cap [b] op) (\<lambda>op.
       let remaining = remaining - 1
       in if offset < remaining then overlap_copy cap offset remaining op else Inr (remaining, op)))"
  by pat_completeness auto
termination by (relation "measure (\<lambda>(cap, offset, n, op). n)") auto

declare overlap_copy.simps [simp del]

definition copy_match :: "int \<Rightarrow> nat \<Rightarrow> nat \<Rightarrow> u8 list \<Rightarrow> u8 list res" where
  "copy_match cap offset match_len op =
     rbind (if offset < match_len then overlap_copy cap offset match_len op else Inr (match_len, op)) (\<lambda>(remaining, op).
     rbind (rd_bytes_back op offset remaining) (\<lambda>bs. emit cap bs op))"

lemma ext_len_ge: "ext_len src iend ip n = Inr (Some (m, ip')) \<Longrightarrow> ip < ip'"
proof (induction src iend ip n rule: ext_len.induct)
  case (1 src iend ip n)
  then show ?case by (subst (asm) ext_len.simps) (force simp: rbind_eq_Inr_iff split: if_splits)
qed

lemma read_len_ge: "read_len src iend b n ip = Inr (Some (m, ip')) \<Longrightarrow> ip \<le> ip'"
  by (auto simp: read_len_def dest: ext_len_ge split: if_splits)

text \<open>One turn of \<^verbatim>\<open>while (ip < iend)\<close>: the literals, then a match unless the source ends with the literals.\<close>

function lz4_decode :: "u8 list \<Rightarrow> nat \<Rightarrow> int \<Rightarrow> nat \<Rightarrow> u8 list \<Rightarrow> (int \<times> u8 list) res" where
  "lz4_decode src iend cap ip op =
     (if iend \<le> ip then Inr (int (length op), op)
      else
        rbind (rd src ip) (\<lambda>token.
        rbind (read_len src iend (drop_bit 4 token) 0 (ip + 1)) (\<lambda>r.
          case r of
            None \<Rightarrow> Inr (- 1, op)
          | Some (literal_len, ip) \<Rightarrow>
              if iend < ip + literal_len \<or> cap < int (length op + literal_len) then Inr (- 1, op)
              else
                rbind (rd_bytes src ip literal_len) (\<lambda>literals.
                rbind (emit cap literals op) (\<lambda>op.
                  let ip = ip + literal_len
                  in if iend \<le> ip then Inr (int (length op), op)
                     else if iend < ip + 2 then Inr (- 1, op)
                     else
                       rbind (rd src ip) (\<lambda>b0.
                       rbind (rd src (ip + 1)) (\<lambda>b1.
                         let offset = unat (ucast b0 OR push_bit 8 (ucast b1) :: u64)
                         in if offset = 0 then Inr (- 1, op)
                            else
                              rbind (read_len src iend (token AND 0x0F) LZ4_MINMATCH (ip + 2)) (\<lambda>r.
                                case r of
                                  None \<Rightarrow> Inr (- 1, op)
                                | Some (match_len, ip) \<Rightarrow>
                                    if cap < int (length op + match_len) then Inr (- 1, op)
                                    else if length op < offset then Inr (- 1, op)
                                    else rbind (copy_match cap offset match_len op) (\<lambda>op.
                                      lz4_decode src iend cap ip op)))))))))"
  by pat_completeness auto

termination
  by (relation "measure (\<lambda>(src, iend, cap, ip, op). iend - ip)") (auto simp: Let_def dest!: read_len_ge)

declare lz4_decode.simps [simp del]

definition lz4_decompress :: "u8 list \<Rightarrow> int \<Rightarrow> int \<Rightarrow> (int \<times> u8 list) res" where
  "lz4_decompress src src_size dst_capacity = lz4_decode src (nat src_size) dst_capacity 0 []"

end
