(* ===== verification/Lz4_Correct.thy ===== *)
theory Lz4_Correct
  imports Lz4
begin

text \<open>
  The decoder is a function of the bytes that are left, \<open>decode_list\<close>, as long as the buffer holds all the bytes
  it is told of; and it reads what the compressor writes. A turn of the compressor keeps the invariant that
  decoding its output yields the source up to the anchor, whatever follows; and its output never grows
  past 256/255 of the source it stands for.
\<close>

section \<open>The decoder as a function of the rest of its source\<close>

fun ext_list :: "u8 list \<Rightarrow> nat \<Rightarrow> (nat \<times> u8 list) option" where
  "ext_list [] n = None"
| "ext_list (s # ip) n = (if s = 255 then ext_list ip (n + unat s) else Some (n + unat s, ip))"

definition read_list :: "u8 \<Rightarrow> nat \<Rightarrow> u8 list \<Rightarrow> (nat \<times> u8 list) option" where
  "read_list nibble base ip =
     (if nibble = 15 then ext_list ip (unat nibble + base) else Some (unat nibble + base, ip))"

lemma ext_list_shorter: "ext_list ip n = Some (m, ip') \<Longrightarrow> length ip' < length ip"
  by (induction ip n rule: ext_list.induct) (auto split: if_splits)

lemma read_list_shorter: "read_list b n ip = Some (m, ip') \<Longrightarrow> length ip' \<le> length ip"
  by (auto simp: read_list_def dest: ext_list_shorter split: if_splits)

function decode_list :: "int \<Rightarrow> u8 list \<Rightarrow> u8 list \<Rightarrow> (int \<times> u8 list) res" where
  "decode_list cap ip op =
     (case ip of
        [] \<Rightarrow> Inr (int (length op), op)
      | token # ip \<Rightarrow>
          (case read_list (drop_bit 4 token) 0 ip of
             None \<Rightarrow> Inr (- 1, op)
           | Some (literal_len, ip) \<Rightarrow>
               if length ip < literal_len \<or> cap < int (length op + literal_len) then Inr (- 1, op)
               else
                 rbind (emit cap (take literal_len ip) op) (\<lambda>op.
                   case drop literal_len ip of
                     [] \<Rightarrow> Inr (int (length op), op)
                   | [_] \<Rightarrow> Inr (- 1, op)
                   | b0 # b1 # ip \<Rightarrow>
                       let offset = unat (ucast b0 OR push_bit 8 (ucast b1) :: u64)
                       in if offset = 0 then Inr (- 1, op)
                          else
                            case read_list (token AND 0x0F) LZ4_MINMATCH ip of
                              None \<Rightarrow> Inr (- 1, op)
                            | Some (match_len, ip) \<Rightarrow>
                                if cap < int (length op + match_len) then Inr (- 1, op)
                                else if length op < offset then Inr (- 1, op)
                                else rbind (copy_match cap offset match_len op) (\<lambda>op. decode_list cap ip op))))"
  by pat_completeness auto

termination
proof (relation "measure (\<lambda>(cap, ip, op). length ip)", goal_cases)
  case (2 cap ip op token ip1 x lit ip2 op1 b0 ip3 b1 ip4 off y ml ip5 op2)
  then have "length ip2 \<le> length ip1" "length ip5 \<le> length ip4" by (auto dest: read_list_shorter)
  moreover have "drop lit ip2 = b0 # b1 # ip4" using 2 by simp
  then have "length ip2 - lit = length ip4 + 2" by (metis length_drop length_Cons add_2_eq_Suc')
  ultimately show ?case using 2 by simp
qed simp

declare decode_list.simps [simp del]

text \<open>The bytes from position \<open>ip\<close> to \<open>iend\<close>, and the reads of the code in terms of them.\<close>

definition rest_of :: "u8 list \<Rightarrow> nat \<Rightarrow> nat \<Rightarrow> u8 list" where
  "rest_of src iend ip = drop ip (take iend src)"

lemma rest_of_Nil: "iend \<le> ip \<Longrightarrow> rest_of src iend ip = []"
  by (simp add: rest_of_def)

lemma rest_of_Cons:
  assumes "ip < iend" and "iend \<le> length src"
  shows "rd src ip = Inr (src ! ip)" and "rest_of src iend ip = src ! ip # rest_of src iend (ip + 1)"
  using assms by (simp_all add: rd_def rest_of_def Cons_nth_drop_Suc [symmetric])

lemma length_rest_of: "iend \<le> length src \<Longrightarrow> length (rest_of src iend ip) = iend - ip"
  by (simp add: rest_of_def)

lemma drop_rest_of: "drop n (rest_of src iend ip) = rest_of src iend (ip + n)"
  by (simp add: rest_of_def add.commute)

lemma rd_bytes_rest_of:
  assumes "ip + n \<le> iend" and "iend \<le> length src"
  shows "rd_bytes src ip n = Inr (take n (rest_of src iend ip))"
  using assms by (simp add: rd_bytes_def rest_of_def drop_take min_def)

lemma ext_len_eq:
  assumes "iend \<le> length src"
  shows "\<exists>r. ext_len src iend ip n = Inr r \<and>
    ext_list (rest_of src iend ip) n = map_option (\<lambda>(m, ip'). (m, rest_of src iend ip')) r"
  using assms
proof (induction src iend ip n rule: ext_len.induct)
  case (1 src iend ip n)
  show ?case
  proof (cases "iend \<le> ip")
    case True
    then show ?thesis by (subst ext_len.simps) (simp add: rest_of_Nil)
  next
    case False
    note c = rest_of_Cons [OF _ 1(2), of ip]
    show ?thesis
      using False c 1 by (cases "src ! ip = 255") (subst ext_len.simps, simp)+
  qed
qed

lemma read_len_eq:
  assumes "iend \<le> length src"
  obtains r where "read_len src iend b n ip = Inr r"
    and "read_list b n (rest_of src iend ip) = map_option (\<lambda>(m, ip'). (m, rest_of src iend ip')) r"
  using ext_len_eq [OF assms, of ip "unat b + n"] that by (cases "b = 15") (auto simp: read_len_def read_list_def)

lemma ext_len_le: "ext_len src iend ip n = Inr (Some (m, ip')) \<Longrightarrow> ip' \<le> iend"
proof (induction src iend ip n rule: ext_len.induct)
  case (1 src iend ip n)
  then show ?case by (subst (asm) ext_len.simps) (force simp: rbind_eq_Inr_iff split: if_splits)
qed

lemma read_len_le: "read_len src iend b n ip = Inr (Some (m, ip')) \<Longrightarrow> ip \<le> iend \<Longrightarrow> ip' \<le> iend"
  by (auto simp: read_len_def dest: ext_len_le split: if_splits)

text \<open>
  Every read of the decoder is inside the buffer, and its result is that of \<open>decode_list\<close>: a turn of both ends with the
  same value, or both copy the same match and go on at the same place.
\<close>

definition same_turn :: "u8 list \<Rightarrow> nat \<Rightarrow> int \<Rightarrow> nat \<Rightarrow> u8 list \<Rightarrow> bool" where
  "same_turn src iend cap ip op \<longleftrightarrow>
     lz4_decode src iend cap ip op = decode_list cap (rest_of src iend ip) op \<or>
     (\<exists>off ml op' ip'. ip < ip' \<and>
        lz4_decode src iend cap ip op = rbind (copy_match cap off ml op') (lz4_decode src iend cap ip') \<and>
        decode_list cap (rest_of src iend ip) op = rbind (copy_match cap off ml op') (decode_list cap (rest_of src iend ip')))"

lemma same_turn_match:
  assumes fits: "iend \<le> length src" and "ip < iend"
    and r: "read_len src iend (drop_bit 4 (src ! ip)) 0 (ip + 1) = Inr (Some (lit, ip2))"
      "read_list (drop_bit 4 (src ! ip)) 0 (rest_of src iend (ip + 1)) = Some (lit, rest_of src iend ip2)"
    and "ip2 + lit + 1 < iend" and "\<not> cap < int (length op + lit)"
  shows "same_turn src iend cap ip op"
proof -
  let ?lits = "take lit (rest_of src iend ip2)" and ?ip = "ip2 + lit"
  let ?op = "op @ ?lits"
  note c = rest_of_Cons [OF assms(2) fits]
  note d = rest_of_Cons [OF _ fits, of ?ip] rest_of_Cons [OF _ fits, of "?ip + 1"]
  have l: "rd_bytes src ip2 lit = Inr ?lits" "length ?lits = lit" "emit cap ?lits op = Inr ?op"
    and nl: "\<not> iend - ip2 < lit"
    using assms by (auto simp: rd_bytes_rest_of length_rest_of emit_def)
  define off where "off = unat (ucast (src ! ?ip) OR push_bit 8 (ucast (src ! (?ip + 1))) :: u64)"
  have z: "(ucast (src ! ?ip) OR push_bit 8 (ucast (src ! (?ip + 1))) :: u64) = 0 \<longleftrightarrow> off = 0"
    "unat (ucast (src ! ?ip) OR push_bit 8 (ucast (src ! (?ip + 1))) :: u64) = off"
    by (simp_all add: off_def)
  obtain r2 where r2: "read_len src iend (src ! ip AND 0x0F) LZ4_MINMATCH (?ip + 2) = Inr r2"
    "read_list (src ! ip AND 0x0F) LZ4_MINMATCH (rest_of src iend (?ip + 2)) =
       map_option (\<lambda>(m, ip'). (m, rest_of src iend ip')) r2"
    by (rule read_len_eq [OF fits])
  have L: "lz4_decode src iend cap ip op =
      (if off = 0 then Inr (- 1, ?op)
       else case r2 of None \<Rightarrow> Inr (- 1, ?op) | Some (ml, ip5) \<Rightarrow>
         if cap < int (length ?op + ml) \<or> length ?op < off then Inr (- 1, ?op)
         else rbind (copy_match cap off ml ?op) (lz4_decode src iend cap ip5))"
    using assms c(1) r2(1) l d(1,3) z unfolding lz4_decode.simps [of src iend cap ip op]
    by (simp add: Let_def cong: if_cong option.case_cong) (simp split: option.split)
  have R: "decode_list cap (rest_of src iend ip) op =
      (if off = 0 then Inr (- 1, ?op)
       else case r2 of None \<Rightarrow> Inr (- 1, ?op) | Some (ml, ip5) \<Rightarrow>
         if cap < int (length ?op + ml) \<or> length ?op < off then Inr (- 1, ?op)
         else rbind (copy_match cap off ml ?op) (decode_list cap (rest_of src iend ip5)))"
    using assms c r2(2) l d(2,4) z nl unfolding decode_list.simps [of cap "rest_of src iend ip" op]
    by (simp add: length_rest_of drop_rest_of Let_def cong: if_cong option.case_cong) (simp split: option.split)
  have ge: "ip < ip5" if "r2 = Some (ml, ip5)" for ml ip5
    using read_len_ge [OF r2(1) [unfolded that]] read_len_ge [OF r(1)] by simp
  show ?thesis
  proof (cases "off = 0 \<or> (\<forall>ml ip5. r2 = Some (ml, ip5) \<longrightarrow> cap < int (length ?op + ml) \<or> length ?op < off)")
    case True
    then show ?thesis unfolding same_turn_def L R by (auto split: option.split)
  next
    case False
    then obtain ml ip5 where "r2 = Some (ml, ip5)" "off \<noteq> 0" "\<not> (cap < int (length ?op + ml) \<or> length ?op < off)"
      by blast
    then show ?thesis
      using ge unfolding same_turn_def L R
      by (intro disjI2 exI [of _ off] exI [of _ ml] exI [of _ ?op] exI [of _ ip5]) simp
  qed
qed

lemma same_turn_always:
  assumes fits: "iend \<le> length src" and ip: "ip < iend"
  shows "same_turn src iend cap ip op"
proof -
  note c = rest_of_Cons [OF ip fits]
  note open_both = lz4_decode.simps [of src iend cap ip op] decode_list.simps [of cap "rest_of src iend ip" op]
  obtain r where r: "read_len src iend (drop_bit 4 (src ! ip)) 0 (ip + 1) = Inr r"
    "read_list (drop_bit 4 (src ! ip)) 0 (rest_of src iend (ip + 1)) = map_option (\<lambda>(m, ip'). (m, rest_of src iend ip')) r"
    by (rule read_len_eq [OF fits])
  consider "r = None" | lit ip2 where "r = Some (lit, ip2)" by (cases r) auto
  then show ?thesis
  proof cases
    case 1
    then show ?thesis using ip c r unfolding same_turn_def open_both by simp
  next
    case (2 lit ip2)
    let ?lits = "take lit (rest_of src iend ip2)" and ?ip = "ip2 + lit"
    have le: "ip2 \<le> iend" using read_len_le [of src iend _ 0 "ip + 1" lit ip2] r(1) 2 ip by simp
    have l: "rd_bytes src ip2 lit = Inr ?lits" "length ?lits = lit" "cap \<ge> int (length op + lit) \<Longrightarrow> emit cap ?lits op = Inr (op @ ?lits)"
      if "\<not> iend < ?ip"
      using that fits by (auto simp: rd_bytes_rest_of length_rest_of emit_def)
    consider "iend < ?ip \<or> cap < int (length op + lit)" | "iend = ?ip" "\<not> cap < int (length op + lit)"
      | "iend = ?ip + 1" "\<not> cap < int (length op + lit)" | "?ip + 1 < iend" "\<not> cap < int (length op + lit)"
      by linarith
    then show ?thesis
    proof cases
      case 1
      then show ?thesis
        using ip c r 2 fits le unfolding same_turn_def open_both by (auto simp: length_rest_of less_diff_conv2)
    next
      case over: 2
      then show ?thesis
        using ip c r 2 fits l unfolding same_turn_def open_both by (simp add: length_rest_of drop_rest_of rest_of_Nil)
    next
      case 3
      then have "rest_of src iend ?ip = [src ! ?ip]"
        using rest_of_Cons(2) [OF _ fits, of ?ip] rest_of_Nil [of iend "?ip + 1"] by simp
      then show ?thesis
        using 3 ip c r 2 fits l unfolding same_turn_def open_both by (simp add: length_rest_of drop_rest_of)
    next
      case 4
      then show ?thesis using r 2 by (intro same_turn_match [OF fits ip]) auto
    qed
  qed
qed

lemma lz4_decode_eq:
  assumes "iend \<le> length src"
  shows "lz4_decode src iend cap ip op = decode_list cap (rest_of src iend ip) op"
proof (induction "iend - ip" arbitrary: ip op rule: less_induct)
  case less
  show ?case
  proof (cases "iend \<le> ip")
    case True
    then show ?thesis by (subst lz4_decode.simps, subst decode_list.simps) (simp add: rest_of_Nil)
  next
    case False
    then have "same_turn src iend cap ip op" using assms by (intro same_turn_always) simp_all
    moreover have "lz4_decode src iend cap ip' = decode_list cap (rest_of src iend ip')" if "ip < ip'" for ip'
      using that False by (intro ext less) simp
    ultimately show ?thesis unfolding same_turn_def by auto
  qed
qed

lemma lz4_decompress_eq:
  assumes "src_size \<le> int (length src)"
  shows "lz4_decompress src src_size cap = decode_list cap (take (nat src_size) src) []"
  using assms by (simp add: lz4_decompress_def lz4_decode_eq rest_of_def)

section \<open>Lengths\<close>

lemma ext_list_bytes: "ext_list (len_bytes n @ rest) k = Some (k + n, rest)"
proof (induction n arbitrary: k rule: len_bytes.induct)
  case (1 n)
  show ?case
  proof (cases "255 \<le> n")
    case True
    then show ?thesis using 1 by (subst len_bytes.simps) simp
  next
    case False
    then have "(of_nat n :: u8) \<noteq> 255" "unat (of_nat n :: u8) = n"
      by (auto simp: unat_of_nat_small word_unat_eq_iff)
    then show ?thesis using False by (subst len_bytes.simps) simp
  qed
qed

lemma length_len_bytes: "length (len_bytes n) = n div 255 + 1"
proof (induction n rule: len_bytes.induct)
  case (1 n)
  show ?case
  proof (cases "255 \<le> n")
    case True
    then have "n div 255 = Suc ((n - 255) div 255)" by (simp add: le_div_geq)
    then show ?thesis using 1 True by (subst len_bytes.simps) simp
  qed (subst len_bytes.simps, simp)
qed

text \<open>The bytes of one length, and the nibble that announces them.\<close>

definition len_ext :: "nat \<Rightarrow> u8 list" where
  "len_ext n = (if 15 \<le> n then len_bytes (n - 15) else [])"

definition nibble :: "nat \<Rightarrow> u8" where
  "nibble n = of_nat (min n 15)"

lemma unat_nibble: "unat (nibble n) = min n 15"
  by (simp add: nibble_def unat_of_nat_small)

lemma nibble_15: "nibble n = 15 \<longleftrightarrow> 15 \<le> n"
  by (auto simp: word_unat_eq_iff unat_nibble)

lemma read_list_ext: "read_list (nibble n) base (len_ext n @ rest) = Some (n + base, rest)"
  by (auto simp: read_list_def nibble_15 unat_nibble len_ext_def ext_list_bytes)

definition token_byte :: "nat \<Rightarrow> nat \<Rightarrow> u8" where
  "token_byte lit ml = push_bit 4 (nibble lit) OR nibble ml"

lemma nibble_bits: "nibble n AND 0x0F = nibble n" "drop_bit 4 (nibble n) = 0"
proof -
  have "list_all (\<lambda>a. (of_nat a :: u8) AND 0x0F = of_nat a \<and> drop_bit 4 (of_nat a :: u8) = 0) [0..<16]"
    by code_simp
  moreover have "min n 15 \<in> set [0..<16]" by simp
  ultimately show "nibble n AND 0x0F = nibble n" "drop_bit 4 (nibble n) = 0"
    unfolding nibble_def list_all_iff by blast+
qed

lemma token_nibbles: "drop_bit 4 (token_byte lit ml) = nibble lit" "token_byte lit ml AND 0x0F = nibble ml"
proof -
  have all: "list_all (\<lambda>a. drop_bit 4 (push_bit 4 (of_nat a :: u8)) = of_nat a \<and> push_bit 4 (of_nat a :: u8) AND 0x0F = 0) [0..<16]"
    by code_simp
  have "min lit 15 \<in> set [0..<16]" by simp
  then have "drop_bit 4 (push_bit 4 (nibble lit)) = nibble lit" "push_bit 4 (nibble lit) AND 0x0F = 0"
    using all unfolding nibble_def list_all_iff by blast+
  then show "drop_bit 4 (token_byte lit ml) = nibble lit" "token_byte lit ml AND 0x0F = nibble ml"
    by (simp_all add: token_byte_def drop_bit_or nibble_bits bit.conj_disj_distrib2)
qed

lemma write_literal_eq: "lz4_write_literal n = push_bit 4 (nibble n) # len_ext n"
  by (simp add: lz4_write_literal_def len_ext_def nibble_def push_bit_eq_mult)


section \<open>Decoding\<close>

lemma overlap_copy_eq:
  assumes "length op = p" and "0 < off" and "off \<le> p" and "off < n" and "p + n \<le> length src" and "op = take p src"
    and "\<And>i. i < n \<Longrightarrow> src ! (p + i) = src ! (p + i - off)" and "int (p + n) \<le> cap"
  shows "\<exists>k. overlap_copy cap off n op = Inr (k, take (p + n - k) src) \<and> k \<le> off \<and> k \<le> n"
  using assms
proof (induction cap off n op arbitrary: p rule: overlap_copy.induct)
  case (1 cap off n op)
  note len = 1(2) and off = 1(3-5) and fits = 1(6) 1(9) and op = 1(7) and per = 1(8)
  have step: "rd_back op off = Inr (src ! p)"
    using len off fits op per [of 0] by (simp add: rd_back_def rd_def)
  have next_op: "op @ [src ! p] = take (Suc p) src"
    using len off fits op by (simp add: take_Suc_conv_app_nth)
  have emit: "emit cap [src ! p] op = Inr (take (Suc p) src)"
    using len off fits next_op by (simp add: emit_def)
  show ?case
  proof (cases "off < n - 1")
    case True
    have per': "src ! (Suc p + i) = src ! (Suc p + i - off)" if "i < n - 1" for i
      using per [of "Suc i"] that by simp
    have "\<exists>k. overlap_copy cap off (n - 1) (take (Suc p) src) = Inr (k, take (Suc p + (n - 1) - k) src) \<and> k \<le> off \<and> k \<le> n - 1"
      using off fits True by (intro 1(1) [OF step emit refl True] per') auto
    moreover have "Suc p + (n - 1) = p + n" using True by simp
    ultimately show ?thesis
      using step emit True by (subst overlap_copy.simps) (auto simp: Let_def)
  next
    case False
    then show ?thesis using step emit off by (subst overlap_copy.simps) (auto simp: Let_def)
  qed
qed

lemma copy_match_eq:
  assumes "0 < off" and "off \<le> p" and "p + n \<le> length src"
    and per: "\<And>i. i < n \<Longrightarrow> src ! (p + i) = src ! (p + i - off)" and "int (p + n) \<le> cap"
  shows "copy_match cap off n (take p src) = Inr (take (p + n) src)"
proof -
  have "\<exists>k. (if off < n then overlap_copy cap off n (take p src) else Inr (n, take p src)) =
      Inr (k, take (p + n - k) src) \<and> k \<le> off \<and> k \<le> n"
    using overlap_copy_eq [of "take p src" p off n src cap] assms by auto
  then obtain k where k: "(if off < n then overlap_copy cap off n (take p src) else Inr (n, take p src)) =
      Inr (k, take (p + n - k) src)" "k \<le> off" "k \<le> n" by blast
  let ?q = "p + n - k"
  have "take k (drop (?q - off) (take ?q src)) = take k (drop ?q src)"
  proof (rule nth_equalityI)
    show "length (take k (drop (?q - off) (take ?q src))) = length (take k (drop ?q src))"
      using assms k by simp
    fix i assume "i < length (take k (drop (?q - off) (take ?q src)))"
    then have i: "i < k" by simp
    have "src ! (p + (n - k + i)) = src ! (p + (n - k + i) - off)" using k(3) i by (intro per) simp
    moreover have "p + (n - k + i) = ?q + i" using k(3) by simp
    moreover have "?q + i - off = ?q - off + i" using assms k by simp
    ultimately have "src ! (?q + i) = src ! (?q - off + i)" by simp
    then show "take k (drop (?q - off) (take ?q src)) ! i = take k (drop ?q src) ! i"
      using i assms k by simp
  qed
  moreover have "take ?q src @ take k (drop ?q src) = take (p + n) src"
    using k(3) by (simp flip: take_add)
  moreover have "rd_bytes (take ?q src) (?q - off) k = Inr (take k (drop (?q - off) (take ?q src)))"
    using k assms by (simp add: rd_bytes_def)
  ultimately show ?thesis
    using k assms by (simp add: copy_match_def rd_bytes_back_def emit_def)
qed

text \<open>The bytes of one sequence, and of the literals at the end.\<close>

definition seq_bytes :: "u8 list \<Rightarrow> u64 \<Rightarrow> nat \<Rightarrow> u8 list" where
  "seq_bytes lits offset ml =
     token_byte (length lits) ml # len_ext (length lits) @ lits @
       [ucast offset, ucast (drop_bit 8 offset)] @ len_ext ml"

lemma offset_bytes:
  assumes "offset \<le> (65535 :: u64)"
  shows "(ucast (ucast offset :: u8) OR push_bit 8 (ucast (ucast (drop_bit 8 offset) :: u8)) :: u64) = offset"
proof -
  have "take_bit 16 offset = offset"
    using assms by (simp add: word_unat_eq_iff unat_take_bit word_le_nat_alt)
  moreover have "(ucast (ucast offset :: u8) OR push_bit 8 (ucast (ucast (drop_bit 8 offset) :: u8)) :: u64) = take_bit 16 offset"
    by (rule bit_word_eqI) (auto simp: bit_simps)
  ultimately show ?thesis by simp
qed

lemma decode_sequence:
  assumes "length op = a" and "op = take a src" and "a \<le> p" and "0 < unat offset" and "offset \<le> 65535" and "unat offset \<le> p"
    and "p + (ml + 4) \<le> length src" and "int (length src) \<le> cap"
    and "\<And>i. i < ml + 4 \<Longrightarrow> src ! (p + i) = src ! (p + i - unat offset)"
  shows "decode_list cap (seq_bytes (take (p - a) (drop a src)) offset ml @ rest) op =
    decode_list cap rest (take (p + (ml + 4)) src)"
proof -
  let ?lits = "take (p - a) (drop a src)"
  have len: "length ?lits = p - a" using assms by simp
  have lits: "op @ ?lits = take p src" using assms by (simp flip: take_add)
  have c: "copy_match cap (unat offset) (ml + 4) (take p src) = Inr (take (p + (ml + 4)) src)"
    using assms by (intro copy_match_eq) auto
  have nz: "offset \<noteq> 0" using assms(4) by auto
  have fit: "\<not> Suc (Suc (p + x - a)) < p - a" for x using assms(3) by simp
  show ?thesis
    using assms(1-8) nz fit len lits c
    by (subst decode_list.simps)
       (simp add: seq_bytes_def token_nibbles read_list_ext emit_def offset_bytes LZ4_MINMATCH_def Let_def)
qed

lemma decode_last:
  assumes "op = take a src" and "a < length src" and "int (length src) \<le> cap"
  shows "decode_list cap (lz4_write_literal (length src - a) @ drop a src) op = Inr (int (length src), src)"
  using assms token_nibbles(1) [of "length src - a" 0]
  by (subst decode_list.simps)
     (simp add: write_literal_eq token_byte_def nibble_def read_list_ext [unfolded nibble_def] emit_def)


section \<open>Matches\<close>

lemma read32_le:
  fixes b0 b1 b2 b3 :: u8
  defines "v \<equiv> (ucast b0 OR push_bit 8 (ucast b1) OR push_bit 16 (ucast b2) OR push_bit 24 (ucast b3) :: u32)"
  shows "ucast v = b0" and "ucast (drop_bit 8 v) = b1" and "ucast (drop_bit 16 v) = b2" and "ucast (drop_bit 24 v) = b3"
  proof -
  have beyond: "\<not> bit (b :: u8) (8 + n)" "\<not> bit (b :: u8) (16 + n)" "\<not> bit (b :: u8) (24 + n)" for b n
    by (auto dest: bit_imp_le_length)
  show "ucast v = b0"
    unfolding v_def by (rule bit_word_eqI) (auto simp: bit_simps beyond)
  show "ucast (drop_bit 8 v) = b1"
    unfolding v_def by (rule bit_word_eqI) (auto simp: bit_simps beyond)
  show "ucast (drop_bit 16 v) = b2"
    unfolding v_def by (rule bit_word_eqI) (auto simp: bit_simps beyond dest: bit_imp_le_length)
  show "ucast (drop_bit 24 v) = b3"
    unfolding v_def by (rule bit_word_eqI) (auto simp: bit_simps beyond dest: bit_imp_le_length)
qed

lemma read32_same:
  assumes "lz4_read32 src p = Inr v" and "lz4_read32 src q = Inr v" and "i < 4"
  shows "src ! (p + i) = src ! (q + i)"
proof -
  have b: "p + 4 \<le> length src" "q + 4 \<le> length src"
    using assms by (auto simp: lz4_read32_def rd_bytes_def split: if_splits)
  have "i = 0 \<or> i = 1 \<or> i = 2 \<or> i = 3" using assms(3) by auto
  then show ?thesis
    using assms(1,2) b read32_le [of "src ! p" "src ! (p + 1)" "src ! (p + 2)" "src ! (p + 3)"]
      read32_le [of "src ! q" "src ! (q + 1)" "src ! (q + 2)" "src ! (q + 3)"]
    by (auto simp: lz4_read32_def rd_bytes_def)
qed

lemma read32_ok: "p + 4 \<le> length src \<Longrightarrow> \<exists>v. lz4_read32 src p = Inr v"
  by (simp add: lz4_read32_def rd_bytes_def)

definition periodic :: "u8 list \<Rightarrow> nat \<Rightarrow> nat \<Rightarrow> nat \<Rightarrow> bool" where
  "periodic src off p e \<longleftrightarrow> (\<forall>j. p \<le> j \<and> j < e \<longrightarrow> src ! j = src ! (j - off))"

lemma match_words_periodic:
  assumes "off \<le> e" and "periodic src off p e" and "e \<le> length src"
  shows "\<exists>e'. match_words src off e = Inr e' \<and> e \<le> e' \<and> e' \<le> length src \<and> periodic src off p e'"
  using assms
proof (induction src off e rule: match_words.induct)
  case (1 src off e)
  show ?case
  proof (cases "e < length src - LZ4_LASTLITERALS")
    case True
    then have e: "e + 4 \<le> length src" "e - off + 4 \<le> length src" by (simp_all add: LZ4_LASTLITERALS_def)
    then obtain a b where ab: "lz4_read32 src e = Inr a" "lz4_read32 src (e - off) = Inr b" by (meson read32_ok)
    show ?thesis
    proof (cases "a = b")
      case eq: True
      have "periodic src off p (e + 4)"
        unfolding periodic_def
      proof (intro allI impI)
        fix j assume j: "p \<le> j \<and> j < e + 4"
        show "src ! j = src ! (j - off)"
        proof (cases "j < e")
          case False
          then have "src ! (e + (j - e)) = src ! (e - off + (j - e))"
            using j eq ab by (intro read32_same) auto
          moreover have "e - off + (j - e) = j - off" using False 1(2) by simp
          ultimately show ?thesis using False by simp
        qed (use 1(3) j in \<open>auto simp: periodic_def\<close>)
      qed
      then have "\<exists>e'. match_words src off (e + 4) = Inr e' \<and> e + 4 \<le> e' \<and> e' \<le> length src \<and> periodic src off p e'"
        using 1(1) [OF True ab eq] 1(2) e by simp
      then show ?thesis using True ab eq by (subst match_words.simps) auto
    qed (use True ab 1 in \<open>subst match_words.simps, auto\<close>)
  qed (use 1 in \<open>subst match_words.simps, auto\<close>)
qed

lemma match_bytes_periodic:
  assumes "off \<le> e" and "periodic src off p e" and "e \<le> length src"
  shows "\<exists>e'. match_bytes src off e = Inr e' \<and> e \<le> e' \<and> e' \<le> length src \<and> periodic src off p e'"
  using assms
proof (induction src off e rule: match_bytes.induct)
  case (1 src off e)
  show ?case
  proof (cases "e < length src")
    case True
    then have rd: "rd src (e - off) = Inr (src ! (e - off))" "rd src e = Inr (src ! e)" by (auto simp: rd_def)
    show ?thesis
    proof (cases "src ! (e - off) = src ! e")
      case eq: True
      then have "periodic src off p (e + 1)"
        using 1(3) by (auto simp: periodic_def less_Suc_eq)
      then have "\<exists>e'. match_bytes src off (e + 1) = Inr e' \<and> e + 1 \<le> e' \<and> e' \<le> length src \<and> periodic src off p e'"
        using 1(1) [OF True rd eq] 1(2) True by simp
      then show ?thesis using True rd eq by (subst match_bytes.simps) auto
    qed (use True rd 1 in \<open>subst match_bytes.simps, auto\<close>)
  qed (use 1 in \<open>subst match_bytes.simps, auto\<close>)
qed

section \<open>One sequence\<close>

lemma put_checked_True: "put_checked cap bs op = (True, op') \<Longrightarrow> op' = op @ bs"
  by (induction cap bs op rule: put_checked.induct) (auto split: if_splits)

lemma put_checked_fits: "int (length op + length bs) \<le> cap \<Longrightarrow> put_checked cap bs op = (True, op @ bs)"
  by (induction cap bs op rule: put_checked.induct) auto

lemma token_update:
  "(op @ lz4_write_literal lit @ bs)[length op := (op @ lz4_write_literal lit @ bs) ! length op OR (if ml < 15 then of_nat ml else 15)] =
     op @ token_byte lit ml # len_ext lit @ bs"
  by (simp add: write_literal_eq token_byte_def nibble_def min_def)

definition seq_of :: "u8 list \<Rightarrow> nat \<Rightarrow> nat \<Rightarrow> u64 \<Rightarrow> nat \<Rightarrow> u8 list" where
  "seq_of src anchor ip offset match_len =
     seq_bytes (take (ip - anchor) (drop anchor src)) offset (match_len - 4)"

lemma sequence_written:
  assumes "anchor \<le> ip" and "ip \<le> length src"
    and "lz4_sequence src cap anchor ip offset match_len op = Inr (True, op')"
  shows "op' = op @ seq_of src anchor ip offset match_len"
  using assms
  by (auto simp: lz4_sequence_def seq_of_def seq_bytes_def Let_def rbind_eq_Inr_iff emit_def rd_bytes_def
      token_update LZ4_MINMATCH_def len_ext_def [of "match_len - 4"] dest!: put_checked_True split: if_splits)

lemma sequence_fits:
  assumes "anchor \<le> ip" and "ip \<le> length src"
    and "int (length op + length (seq_of src anchor ip offset match_len)) \<le> cap"
  shows "lz4_sequence src cap anchor ip offset match_len op = Inr (True, op @ seq_of src anchor ip offset match_len)"
proof -
  let ?lit = "ip - anchor" and ?ml = "match_len - 4"
  let ?lits = "take ?lit (drop anchor src)"
  have lits: "length ?lits = ?lit" using assms(1,2) by simp
  have cap: "int (length op + 1 + length (len_ext ?lit) + ?lit + 2 + length (len_ext ?ml)) \<le> cap"
    using assms(3) lits by (simp only: seq_of_def seq_bytes_def length_append list.size)
  let ?op = "op @ token_byte ?lit ?ml # len_ext ?lit @ ?lits @ [ucast offset, ucast (drop_bit 8 offset)]"
  have w: "emit cap (lz4_write_literal ?lit) op = Inr (op @ lz4_write_literal ?lit)"
    using cap by (simp only: emit_def write_literal_eq list.size) simp
  have l: "rd_bytes src anchor ?lit = Inr ?lits"
    using assms(1,2) by (simp add: rd_bytes_def)
  have e: "emit cap ?lits (op @ lz4_write_literal ?lit) = Inr (op @ lz4_write_literal ?lit @ ?lits)"
    using cap lits by (simp only: emit_def write_literal_eq list.size length_append) simp
  have o: "emit cap [ucast offset, ucast (drop_bit 8 offset)] (op @ token_byte ?lit ?ml # len_ext ?lit @ ?lits) = Inr ?op"
    using cap lits by (simp only: emit_def list.size length_append) simp
  have c: "\<not> cap < int (length (op @ lz4_write_literal ?lit) + ?lit)"
    "\<not> cap < int (length (op @ token_byte ?lit ?ml # len_ext ?lit @ ?lits) + 2)"
    using cap lits by (simp_all only: write_literal_eq list.size length_append)
  have p: "put_checked cap (len_ext ?ml) ?op = (True, ?op @ len_ext ?ml)"
    using cap lits by (intro put_checked_fits) (simp only: list.size length_append)
  have "lz4_sequence src cap anchor ip offset match_len op =
      (if 15 \<le> ?ml then Inr (put_checked cap (len_bytes (?ml - 15)) ?op) else Inr (True, ?op))"
    by (simp only: lz4_sequence_def Let_def LZ4_MINMATCH_def w l e o c rbind_Inr token_update if_False)
  also have "\<dots> = Inr (True, ?op @ len_ext ?ml)"
    using p by (auto simp: len_ext_def [of ?ml])
  also have "?op @ len_ext ?ml = op @ seq_of src anchor ip offset match_len"
    using lits by (simp add: seq_of_def seq_bytes_def)
  finally show ?thesis .
qed


section \<open>The loop\<close>

definition lz4_inv :: "u8 list \<Rightarrow> nat \<Rightarrow> nat \<Rightarrow> (nat \<Rightarrow> u32) \<Rightarrow> u8 list \<Rightarrow> bool" where
  "lz4_inv src ip anchor tab op \<longleftrightarrow>
     anchor \<le> ip \<and> anchor \<le> length src \<and> (\<forall>h. unat (tab h) \<le> ip) \<and> 255 * length op \<le> 256 * anchor \<and>
     (\<forall>cap rest. int (length src) \<le> cap \<longrightarrow>
        decode_list cap (op @ rest) [] = decode_list cap rest (take anchor src))"

lemma lz4_inv_start: "lz4_inv src 0 0 (\<lambda>_. 0) []"
  by (simp add: lz4_inv_def)

lemma lz4_inv_skip:
  assumes "lz4_inv src ip anchor tab op" and "ip < 2 ^ 32" and "ip \<le> ip'"
  shows "lz4_inv src ip' anchor (tab(h := of_nat ip)) op"
  using assms by (auto simp: lz4_inv_def unat_of_nat_small intro: order_trans)

lemma len_ext_bound: "255 * length (len_ext n) \<le> n + 240"
proof (cases "15 \<le> n")
  case True
  have "255 * ((n - 15) div 255) \<le> n - 15" by simp
  then show ?thesis using True by (simp add: len_ext_def length_len_bytes)
qed (simp add: len_ext_def)

lemma length_seq_of:
  assumes "anchor \<le> ip" and "ip \<le> length src"
  shows "length (seq_of src anchor ip offset n) =
    3 + (ip - anchor) + length (len_ext (ip - anchor)) + length (len_ext (n - 4))"
  using assms by (simp add: seq_of_def seq_bytes_def)

lemma seq_of_bound:
  assumes "anchor \<le> ip" and "ip + 4 \<le> e" and "e \<le> length src" and "255 * length op \<le> 256 * anchor"
  shows "255 * length (op @ seq_of src anchor ip offset (e - ip)) \<le> 256 * e"
proof -
  have l: "255 * length (len_ext (ip - anchor)) \<le> ip - anchor + 240" by (rule len_ext_bound)
  have "255 * length (len_ext (e - ip - 4)) \<le> (if e - ip < 19 then 0 else e - ip + 236)"
    using len_ext_bound [of "e - ip - 4"] by (auto simp: len_ext_def)
  then show ?thesis
    using l assms by (simp add: length_seq_of split: if_splits)
qed

lemma lz4_inv_sequence:
  assumes inv: "lz4_inv src ip anchor tab op" and "ip + 4 \<le> e" and "e \<le> length src" and "length src < 2 ^ 32"
    and off: "0 < unat offset" "offset \<le> 65535" "unat offset \<le> ip" and per: "periodic src (unat offset) ip e"
  shows "lz4_inv src e e (tab(h := of_nat ip)) (op @ seq_of src anchor ip offset (e - ip))"
proof -
  have a: "anchor \<le> ip" "255 * length op \<le> 256 * anchor" "\<And>h. unat (tab h) \<le> ip" "anchor \<le> length src"
    using inv by (auto simp: lz4_inv_def)
  have "decode_list cap ((op @ seq_of src anchor ip offset (e - ip)) @ rest) [] = decode_list cap rest (take e src)"
    if "int (length src) \<le> cap" for cap rest
  proof -
    have "decode_list cap (op @ seq_of src anchor ip offset (e - ip) @ rest) [] =
        decode_list cap (seq_of src anchor ip offset (e - ip) @ rest) (take anchor src)"
      using inv that by (simp add: lz4_inv_def)
    also have "\<dots> = decode_list cap rest (take (ip + ((e - ip - 4) + 4)) src)"
      unfolding seq_of_def using assms a that
      by (intro decode_sequence) (auto simp: periodic_def)
    finally show ?thesis using assms(2) by simp
  qed
  moreover have "unat ((tab(h := of_nat ip)) h') \<le> e" for h'
    using a(3) [of h'] assms(2-4) by (auto simp: unat_of_nat_small)
  ultimately show ?thesis
    using seq_of_bound [OF a(1) assms(2,3) a(2)] assms(3) by (simp add: lz4_inv_def)
qed

lemma lz4_turn_cases:
  assumes inv: "lz4_inv src ip anchor tab op" and ip: "ip < length src - LZ4_MFLIMIT" and n: "length src < 2 ^ 31"
  obtains (skip) h ip' where "lz4_turn src cap a ip anchor tab op = Inr (Inr (ip', anchor, tab(h := of_nat ip), op))" "ip < ip'"
  | (seq) h e offset where "lz4_turn src cap a ip anchor tab op =
        rbind (lz4_sequence src cap anchor ip offset (e - ip) op) (\<lambda>(ok, op).
          Inr (if ok then Inr (e, e, tab(h := of_nat ip), op) else Inl op))"
      "ip + 4 \<le> e" "e \<le> length src" "0 < unat offset" "offset \<le> 65535" "unat offset \<le> ip"
      "periodic src (unat offset) ip e"
proof -
  have in_src: "ip + 4 \<le> length src" using ip by (simp add: LZ4_MFLIMIT_def)
  then obtain v where v: "lz4_read32 src ip = Inr v" by (meson read32_ok)
  define h where "h = unat (LZ4_HASH_FUNCTION v AND (LZ4_HASHTABLESIZE - 1))"
  define m where "m = unat (tab h)"
  define offset where "offset = (of_nat ip - of_nat m :: u64)"
  have m: "m \<le> ip" using inv by (simp add: lz4_inv_def m_def)
  have off: "unat offset = ip - m"
  proof -
    have "offset = of_nat (ip - m)" using m by (simp add: offset_def of_nat_diff)
    moreover have "ip - m < 2 ^ 64" using ip n by simp
    ultimately show ?thesis by (simp add: unat_of_nat_small)
  qed
  obtain w where w: "lz4_read32 src m = Inr w"
    using read32_ok [of m src] in_src m by auto
  let ?tab = "tab(h := of_nat ip)"
  show thesis
  proof (cases "offset = 0 \<or> 65535 < offset \<or> w \<noteq> v")
    case True
    then have "lz4_turn src cap a ip anchor tab op = Inr (Inr (ip + (if 1 < a then nat a else 1), anchor, ?tab, op))"
      using v w by (auto simp: lz4_turn_def Let_def h_def m_def offset_def)
    then show thesis by (rule skip) simp
  next
    case False
    have "periodic src (unat offset) ip (ip + 4)"
      unfolding periodic_def
    proof (intro allI impI)
      fix j assume j: "ip \<le> j \<and> j < ip + 4"
      have "src ! (ip + (j - ip)) = src ! (m + (j - ip))"
        using v w False j by (intro read32_same) auto
      moreover have "ip + (j - ip) = j" "m + (j - ip) = j - (ip - m)" using j m by simp_all
      ultimately show "src ! j = src ! (j - unat offset)" by (simp add: off)
    qed
    moreover have "ip + 4 \<le> length src" "unat offset \<le> ip + 4" using ip off by (simp_all add: LZ4_MFLIMIT_def)
    ultimately obtain e1 where e1: "match_words src (unat offset) (ip + LZ4_MINMATCH) = Inr e1" "ip + 4 \<le> e1"
        "e1 \<le> length src" "periodic src (unat offset) ip e1"
      using match_words_periodic [of "unat offset" "ip + 4" src ip] by (auto simp: LZ4_MINMATCH_def)
    then obtain e where e: "match_bytes src (unat offset) e1 = Inr e" "e1 \<le> e" "e \<le> length src"
        "periodic src (unat offset) ip e"
      using match_bytes_periodic [of "unat offset" e1 src ip] \<open>unat offset \<le> ip + 4\<close> by auto
    have "lz4_turn src cap a ip anchor tab op =
        rbind (lz4_sequence src cap anchor ip offset (e - ip) op) (\<lambda>(ok, op).
          Inr (if ok then Inr (e, e, ?tab, op) else Inl op))"
      using v w False e(1) e1(1) unfolding h_def m_def offset_def by (simp add: lz4_turn_def Let_def)
    moreover have "0 < unat offset" using False by (metis neq0_conv unat_eq_0)
    moreover have "offset \<le> 65535" using False by (simp add: not_less)
    moreover have "unat offset \<le> ip" using off by simp
    moreover have "ip + 4 \<le> e" using e(2) e1(2) by linarith
    ultimately show thesis using e(3,4) by (rule_tac seq)
  qed
qed

lemma lz4_turn_keeps:
  assumes inv: "lz4_inv src ip anchor tab op" and ip: "ip < length src - LZ4_MFLIMIT" and n: "length src < 2 ^ 31"
    and t: "lz4_turn src cap a ip anchor tab op = Inr (Inr (ip', anchor', tab', op'))"
  shows "lz4_inv src ip' anchor' tab' op'"
  using inv ip n
proof (cases rule: lz4_turn_cases [of src ip anchor tab op cap a])
  case (skip h ip1)
  then show ?thesis using t ip n lz4_inv_skip [OF inv, of ip1 h] by simp
next
  case (seq h e offset)
  have "anchor \<le> ip" "ip \<le> length src" using inv seq(2,3) by (simp_all add: lz4_inv_def)
  note written = sequence_written [OF this]
  from t seq(1) have s: "lz4_sequence src cap anchor ip offset (e - ip) op = Inr (True, op')"
    and out: "ip' = e" "anchor' = e" "tab' = tab(h := of_nat ip)"
    by (auto simp: rbind_eq_Inr_iff split: if_splits)
  show ?thesis
    using lz4_inv_sequence [OF inv seq(2,3) _ seq(4-7), of h] n written [OF s] by (simp add: out)
qed

lemma lz4_turn_fits:
  assumes inv: "lz4_inv src ip anchor tab op" and ip: "ip < length src - LZ4_MFLIMIT" and n: "length src < 2 ^ 31"
    and cap: "int (length src + length src div 255 + 16) \<le> cap"
  shows "\<exists>s. lz4_turn src cap a ip anchor tab op = Inr (Inr s)"
  using inv ip n
proof (cases rule: lz4_turn_cases [of src ip anchor tab op cap a])
  case (seq h e offset)
  have a: "anchor \<le> ip" "255 * length op \<le> 256 * anchor" using inv by (auto simp: lz4_inv_def)
  have "255 * length (op @ seq_of src anchor ip offset (e - ip)) \<le> 256 * e"
    using a seq by (intro seq_of_bound) auto
  then have "length (op @ seq_of src anchor ip offset (e - ip)) \<le> length src + length src div 255 + 1"
    using seq(3) by linarith
  then have "lz4_sequence src cap anchor ip offset (e - ip) op = Inr (True, op @ seq_of src anchor ip offset (e - ip))"
    using a seq cap by (intro sequence_fits) auto
  then show ?thesis using seq(1) by simp
qed simp

lemma lz4_scan_keeps:
  assumes "lz4_inv src ip anchor tab op" and "length src < 2 ^ 31" and "lz4_scan src cap a ip anchor tab op = Inr (Inr (anchor', op'))"
  shows "\<exists>ip' tab'. lz4_inv src ip' anchor' tab' op'"
  using assms
proof (induction src cap a ip anchor tab op rule: lz4_scan.induct)
  case (1 src cap a ip anchor tab op)
  show ?case
  proof (cases "ip < length src - LZ4_MFLIMIT")
    case True
    then obtain r where r: "lz4_turn src cap a ip anchor tab op = Inr r"
        "(case r of Inl op \<Rightarrow> Inr (Inl op) | Inr (ip, anchor, tab, op) \<Rightarrow> lz4_scan src cap a ip anchor tab op) =
           Inr (Inr (anchor', op'))"
      using 1(4) unfolding lz4_scan.simps [of src cap a ip anchor tab op] by (auto simp: rbind_eq_Inr_iff)
    from r(2) obtain ip1 an1 tab1 op1 where "r = Inr (ip1, an1, tab1, op1)"
      by (auto split: sum.splits)
    then have t: "lz4_turn src cap a ip anchor tab op = Inr (Inr (ip1, an1, tab1, op1))"
        "lz4_scan src cap a ip1 an1 tab1 op1 = Inr (Inr (anchor', op'))"
      using r by simp_all
    then show ?thesis
      using 1(1) [OF True t(1) refl refl refl refl] 1(2,3) lz4_turn_keeps [OF 1(2) True 1(3) t(1)] by blast
  qed (use 1 in \<open>subst (asm) lz4_scan.simps, auto\<close>)
qed

lemma lz4_scan_fits:
  assumes "lz4_inv src ip anchor tab op" and "length src < 2 ^ 31" and "int (length src + length src div 255 + 16) \<le> cap"
  shows "\<exists>r. lz4_scan src cap a ip anchor tab op = Inr (Inr r)"
  using assms
proof (induction src cap a ip anchor tab op rule: lz4_scan.induct)
  case (1 src cap a ip anchor tab op)
  show ?case
  proof (cases "ip < length src - LZ4_MFLIMIT")
    case True
    then obtain ip1 an1 tab1 op1 where t: "lz4_turn src cap a ip anchor tab op = Inr (Inr (ip1, an1, tab1, op1))"
      using lz4_turn_fits [OF 1(2) True 1(3,4)] by (metis prod_cases4)
    then show ?thesis
      using 1(1) [OF True t refl refl refl refl] 1(3,4) lz4_turn_keeps [OF 1(2) True 1(3) t] True
      by (subst lz4_scan.simps) simp
  qed (subst lz4_scan.simps, simp)
qed


section \<open>The whole codec\<close>

lemma lz4_last_literals_decode:
  assumes inv: "lz4_inv src ip anchor tab op" and r: "lz4_last_literals src cap anchor op = Inr (k, out)" and "0 \<le> k"
    and "int (length src) \<le> cap'"
  shows "k = int (length out) \<and> decode_list cap' out [] = Inr (int (length src), src)"
proof (cases "anchor < length src")
  case True
  let ?n = "length src - anchor"
  have w: "(if ?n < 15 then [of_nat (?n * 2 ^ 4)] else push_bit 4 15 # len_bytes (?n - 15)) = lz4_write_literal ?n"
    by (simp add: lz4_write_literal_def)
  have out: "out = op @ lz4_write_literal ?n @ drop anchor src" "k = int (length out)"
    using r True assms(3) unfolding lz4_last_literals_def Let_def w
    by (auto simp: rbind_eq_Inr_iff emit_def rd_bytes_def split: if_splits)
  have "decode_list cap' out [] = decode_list cap' (lz4_write_literal ?n @ drop anchor src) (take anchor src)"
    using inv assms(4) by (simp add: out(1) lz4_inv_def)
  then show ?thesis using decode_last [OF refl True assms(4)] out(2) by simp
next
  case False
  then have "anchor = length src" using inv by (simp add: lz4_inv_def)
  then have "out = op" "k = int (length op)" using r by (auto simp: lz4_last_literals_def)
  moreover have "decode_list cap' (op @ []) [] = decode_list cap' [] (take anchor src)"
    using inv assms(4) unfolding lz4_inv_def by blast
  ultimately show ?thesis using \<open>anchor = length src\<close> by (simp add: decode_list.simps [of cap' "[]"])
qed

lemma lz4_last_literals_fits:
  assumes inv: "lz4_inv src ip anchor tab op" and cap: "int (length src + length src div 255 + 16) \<le> cap"
  shows "\<exists>out. lz4_last_literals src cap anchor op = Inr (int (length out), out) \<and>
    length out \<le> length src + length src div 255 + 16"
proof (cases "anchor < length src")
  case True
  let ?n = "length src - anchor"
  have a: "255 * length op \<le> 256 * anchor" using inv by (simp add: lz4_inv_def)
  have "255 * ((?n - 15 + 254) div 255) \<le> ?n - 15 + 254" by simp
  then have fit: "length op + 2 + (if 15 \<le> ?n then (?n - 15 + 254) div 255 else 0) + ?n \<le> length src + length src div 255 + 16"
    using a True by (simp split: if_splits) linarith+
  have "(?n - 15) div 255 \<le> (?n - 15 + 254) div 255" by (rule div_le_mono) simp
  then have w: "length (lz4_write_literal ?n) \<le> 2 + (if 15 \<le> ?n then (?n - 15 + 254) div 255 else 0)"
    by (auto simp only: lz4_write_literal_def length_len_bytes list.size split: if_splits)
  let ?out = "op @ lz4_write_literal ?n @ drop anchor src"
  have len: "length ?out \<le> length src + length src div 255 + 16"
    using fit w by simp
  have e: "(if ?n < 15 then [of_nat (?n * 2 ^ 4)] else push_bit 4 15 # len_bytes (?n - 15)) = lz4_write_literal ?n"
    by (simp add: lz4_write_literal_def)
  have "int (length op) + int (length (lz4_write_literal ?n)) + (int (length src) - int anchor) \<le> cap"
    using len cap True by simp
  then have "lz4_last_literals src cap anchor op = Inr (int (length ?out), ?out)"
    unfolding lz4_last_literals_def Let_def e using fit len cap True
    by (auto simp: emit_def rd_bytes_def)
  then show ?thesis using len by blast
next
  case False
  then have "anchor = length src" using inv by (simp add: lz4_inv_def)
  moreover have "255 * length op \<le> 256 * anchor" using inv by (simp add: lz4_inv_def)
  ultimately show ?thesis by (auto simp: lz4_last_literals_def)
qed

lemma lz4_compress_decode:
  assumes n: "length src < 2 ^ 31" and r: "lz4_compress_fast src (int (length src)) cap a = Inr (k, out)" and "0 \<le> k"
    and "int (length src) \<le> cap'"
  shows "k = int (length out) \<and> lz4_decompress out k cap' = Inr (int (length src), src)"
proof (cases "src = []")
  case True
  then show ?thesis
    using r by (auto simp: lz4_compress_fast_def lz4_decompress_def lz4_decode.simps)
next
  case False
  then have g: "lz4_compress_generic src cap a = Inr (k, out)"
    using r assms(3) by (auto simp: lz4_compress_fast_def split: if_splits)
  have "\<exists>ip anchor tab op. lz4_inv src ip anchor tab op \<and> lz4_last_literals src cap anchor op = Inr (k, out)"
  proof (cases "length src < LZ4_MINMATCH")
    case True
    then have "lz4_last_literals src cap 0 [] = Inr (k, out)" using g by (simp add: lz4_compress_generic_def)
    then show ?thesis using lz4_inv_start [of src] by blast
  next
    case False
    then obtain r where r: "lz4_scan src cap a 0 0 (\<lambda>_. 0) [] = Inr r"
        "(case r of Inl op \<Rightarrow> Inr (- 1, op) | Inr (anchor, op) \<Rightarrow> lz4_last_literals src cap anchor op) = Inr (k, out)"
      using g by (auto simp: lz4_compress_generic_def rbind_eq_Inr_iff)
    from r(2) assms(3) obtain anchor op where "r = Inr (anchor, op)"
      by (auto split: sum.splits)
    then have s: "lz4_scan src cap a 0 0 (\<lambda>_. 0) [] = Inr (Inr (anchor, op))"
        "lz4_last_literals src cap anchor op = Inr (k, out)"
      using r by simp_all
    then show ?thesis using lz4_scan_keeps [OF lz4_inv_start n s(1)] by blast
  qed
  then show ?thesis
    using lz4_last_literals_decode assms(3,4) by (fastforce simp: lz4_decompress_eq)
qed

lemma lz4_compress_fits:
  assumes n: "length src < 2 ^ 31" and cap: "int (length src + length src div 255 + 16) \<le> cap"
  shows "\<exists>out. lz4_compress_fast src (int (length src)) cap a = Inr (int (length out), out) \<and>
    length out \<le> length src + length src div 255 + 16"
proof (cases "src = []")
  case False
  have "\<exists>out. lz4_compress_generic src cap a = Inr (int (length out), out) \<and>
      length out \<le> length src + length src div 255 + 16"
  proof (cases "length src < LZ4_MINMATCH")
    case True
    then show ?thesis using lz4_last_literals_fits [OF lz4_inv_start cap] by (simp add: lz4_compress_generic_def)
  next
    case False
    obtain anchor op where s: "lz4_scan src cap a 0 0 (\<lambda>_. 0) [] = Inr (Inr (anchor, op))"
      using lz4_scan_fits [OF lz4_inv_start n cap, of a] by (metis surj_pair)
    obtain ip tab where "lz4_inv src ip anchor tab op"
      using lz4_scan_keeps [OF lz4_inv_start n s] by blast
    then show ?thesis using lz4_last_literals_fits [OF _ cap] s False by (auto simp: lz4_compress_generic_def)
  qed
  then show ?thesis using False cap by (simp add: lz4_compress_fast_def)
qed (simp add: lz4_compress_fast_def)

end
