(* ===== verification/Lz4_Properties.thy ===== *)
theory Lz4_Properties
  imports Lz4_Correct
begin

text \<open>
  What the LZ4 codec promises: the decoder is safe on every input and inverts the compressor, which
  succeeds when the destination has room for the worst case, and overruns a smaller one.
\<close>

section \<open>The decoder on any input\<close>

lemma overlap_copy_safe:
  assumes "0 < off" and "off \<le> length op" and "off < n" and "int (length op + n) \<le> cap"
  shows "\<exists>k op'. overlap_copy cap off n op = Inr (k, op') \<and> k \<le> off \<and> k \<le> n \<and> length op' = length op + n - k"
  using assms
proof (induction cap off n op rule: overlap_copy.induct)
  case (1 cap off n op)
  let ?b = "op ! (length op - off)"
  have step: "rd_back op off = Inr ?b" "emit cap [?b] op = Inr (op @ [?b])"
    using 1(2-5) by (auto simp: rd_back_def rd_def emit_def)
  show ?case
  proof (cases "off < n - 1")
    case True
    have "\<exists>k op'. overlap_copy cap off (n - 1) (op @ [?b]) = Inr (k, op') \<and> k \<le> off \<and> k \<le> n - 1 \<and>
        length op' = length (op @ [?b]) + (n - 1) - k"
      using 1(2-5) True by (intro 1(1) [OF step refl True]) auto
    then show ?thesis using step True by (subst overlap_copy.simps) (auto simp: Let_def)
  next
    case False
    then show ?thesis using step 1(2-5) by (subst overlap_copy.simps) (auto simp: Let_def)
  qed
qed

lemma copy_match_safe:
  assumes "0 < off" and "off \<le> length op" and "int (length op + n) \<le> cap"
  shows "\<exists>op'. copy_match cap off n op = Inr op' \<and> length op' = length op + n"
proof -
  have "\<exists>k op'. (if off < n then overlap_copy cap off n op else Inr (n, op)) = Inr (k, op') \<and>
      k \<le> off \<and> k \<le> n \<and> length op' = length op + n - k"
    using overlap_copy_safe [OF assms(1,2) _ assms(3)] by auto
  then obtain k op' where k: "(if off < n then overlap_copy cap off n op else Inr (n, op)) = Inr (k, op')"
      "k \<le> off" "k \<le> n" "length op' = length op + n - k" by blast
  then show ?thesis
    using assms by (auto simp: copy_match_def rd_bytes_back_def rd_bytes_def emit_def)
qed

lemma decode_list_safe:
  assumes "int (length op) \<le> max 0 cap"
  shows "\<exists>r out. decode_list cap ip op = Inr (r, out) \<and> (r = - 1 \<or> r = int (length out)) \<and> int (length out) \<le> max 0 cap"
  using assms
proof (induction cap ip op rule: decode_list.induct)
  case (1 cap ip op)
  show ?case
  proof (cases ip)
    case Nil
    then show ?thesis using 1(2) by (subst decode_list.simps) simp
  next
    case (Cons token ip1)
    show ?thesis
    proof (cases "read_list (drop_bit 4 token) 0 ip1")
      case None
      then show ?thesis using 1(2) Cons by (subst decode_list.simps) simp
    next
      case (Some p)
      obtain lit ip2 where p: "p = (lit, ip2)" by (cases p)
      show ?thesis
      proof (cases "length ip2 < lit \<or> cap < int (length op + lit)")
        case True
        then show ?thesis using 1(2) Cons Some p by (subst decode_list.simps) simp
      next
        case fits: False
        then have e: "emit cap (take lit ip2) op = Inr (op @ take lit ip2)" by (simp add: emit_def)
        let ?op = "op @ take lit ip2"
        have len: "int (length ?op) \<le> max 0 cap" using fits by simp
        consider "drop lit ip2 = []" | b where "drop lit ip2 = [b]"
          | b0 b1 ip4 where "drop lit ip2 = b0 # b1 # ip4" by (metis list.exhaust)
        then show ?thesis
        proof cases
          case (3 b0 b1 ip4)
          define off where "off = unat (ucast b0 OR push_bit 8 (ucast b1) :: u64)"
          consider "off = 0" | "read_list (token AND 0x0F) LZ4_MINMATCH ip4 = None"
            | ml ip5 where "off \<noteq> 0" "read_list (token AND 0x0F) LZ4_MINMATCH ip4 = Some (ml, ip5)" by fastforce
          then show ?thesis
          proof cases
            case read: (3 ml ip5)
            show ?thesis
            proof (cases "cap < int (length ?op + ml) \<or> length ?op < off")
              case True
              then show ?thesis using Cons Some p fits e 3 read len
                by (subst decode_list.simps) (auto simp: off_def Let_def)
            next
              case False
              then obtain op2 where c: "copy_match cap off ml ?op = Inr op2" "length op2 = length ?op + ml"
                using copy_match_safe [of off ?op ml cap] read(1) by auto
              have "\<exists>r out. decode_list cap ip5 op2 = Inr (r, out) \<and> (r = - 1 \<or> r = int (length out)) \<and>
                  int (length out) \<le> max 0 cap"
                using False c(2)
                by (intro 1(1) [OF Cons Some p [symmetric] fits e 3 refl off_def read(1,2) refl _ _ c(1)]) auto
              moreover have "(ucast b0 OR push_bit 8 (ucast b1) :: u64) \<noteq> 0" using read(1) by (simp add: off_def)
              then have "decode_list cap ip op = decode_list cap ip5 op2"
                using Cons Some p fits e 3 read False c(1)
                by (subst decode_list.simps) (simp add: off_def [symmetric] Let_def)
              ultimately show ?thesis by simp
            qed
          qed (use Cons Some p fits e 3 len in \<open>subst decode_list.simps, auto simp: off_def Let_def\<close>)+
        qed (use Cons Some p fits e len in \<open>subst decode_list.simps, auto\<close>)+
      qed
    qed
  qed
qed

text \<open>
  C25: On every input, \<^verbatim>\<open>lz4_decompress\<close> of a source that has at least \<^verbatim>\<open>src_size\<close> bytes returns, with -1 or the number
  of bytes written. It reads none but those \<^verbatim>\<open>src_size\<close> bytes, whatever they are, and none of the output ahead of what
  it has written, and writes nothing past the capacity.
\<close>

theorem lz4_decompress_safe:
  assumes "src_size \<le> int (length src)"
  shows "\<exists>r out. lz4_decompress src src_size dst_capacity = Inr (r, out) \<and> (r = - 1 \<or> r = int (length out)) \<and>
     int (length out) \<le> max 0 dst_capacity \<and> lz4_decompress (take (nat src_size) src) src_size dst_capacity = Inr (r, out)"
proof -
  have "lz4_decompress (take (nat src_size) src) src_size dst_capacity = lz4_decompress src src_size dst_capacity"
    using assms by (simp add: lz4_decompress_eq)
  then show ?thesis
    using decode_list_safe [of "[]" dst_capacity "take (nat src_size) src"] assms by (auto simp: lz4_decompress_eq)
qed

theorem lz4_decompress_safe_witness:
  "\<exists>r out. lz4_decompress [0xF0, 0xFF, 0x07, 1, 2] 4 100 = Inr (r, out) \<and> length out \<le> 100"
  using lz4_decompress_safe [of 4 "[0xF0, 0xFF, 0x07, 1, 2]" 100] by auto

section \<open>Round trip\<close>

text \<open>
  C5: Decompressing what \<^verbatim>\<open>lz4_compress\<close> or \<^verbatim>\<open>lz4_compress_fast\<close> has written gives back the source, at every
  acceleration and every capacity with which it returns a size. It does return one, and stays inside the
  destination, when the capacity is at least n + n / 255 + 16.
\<close>

theorem lz4_roundtrip:
  assumes "length src < 2 ^ 31" and "int (length src) \<le> dst_capacity"
  shows "(lz4_compress_fast src (int (length src)) cap acceleration = Inr (r, out) \<and> 0 \<le> r \<longrightarrow>
            lz4_decompress out r dst_capacity = Inr (int (length src), src)) \<and>
         (int (length src + length src div 255 + 16) \<le> cap \<longrightarrow>
            (\<exists>r out. lz4_compress_fast src (int (length src)) cap acceleration = Inr (r, out) \<and> 0 \<le> r \<and>
               r \<le> int (length src + length src div 255 + 16) \<and>
               lz4_decompress out r dst_capacity = Inr (int (length src), src)))"
proof (intro conjI impI)
  assume "lz4_compress_fast src (int (length src)) cap acceleration = Inr (r, out) \<and> 0 \<le> r"
  then show "lz4_decompress out r dst_capacity = Inr (int (length src), src)"
    using lz4_compress_decode [OF assms(1) _ _ assms(2)] by blast
next
  assume "int (length src + length src div 255 + 16) \<le> cap"
  then obtain out where "lz4_compress_fast src (int (length src)) cap acceleration = Inr (int (length out), out)"
      "length out \<le> length src + length src div 255 + 16"
    using lz4_compress_fits [OF assms(1)] by blast
  then show "\<exists>r out. lz4_compress_fast src (int (length src)) cap acceleration = Inr (r, out) \<and> 0 \<le> r \<and>
      r \<le> int (length src + length src div 255 + 16) \<and>
      lz4_decompress out r dst_capacity = Inr (int (length src), src)"
    using lz4_compress_decode [OF assms(1) _ _ assms(2), of cap acceleration "int (length out)" out] by auto
qed

theorem lz4_roundtrip_witness:
  "\<exists>r out. lz4_compress (replicate 40 7) 40 100 = Inr (r, out) \<and> lz4_decompress out r 40 = Inr (40, replicate 40 7)"
  using lz4_roundtrip [of "replicate 40 7" 40 100 1] unfolding lz4_compress_def by (simp, blast)

section \<open>Overrun\<close>

text \<open>
  \<^verbatim>\<open>lz4_compress_fast\<close> writes past a destination that is too small: the token and the length bytes of a
  sequence are written before the capacity is tested. Compressing 31 bytes into a buffer of 1 does so.
\<close>

theorem lz4_compress_overrun:
  "(cap < int (length op + length (lz4_write_literal (ip - anchor))) \<longrightarrow>
      lz4_sequence src cap anchor ip offset match_len op = Inl Out_Of_Bounds) \<and>
   lz4_compress_fast (map of_nat ([1..<16] @ [1..<17])) 31 1 15 = Inl Out_Of_Bounds"
proof
  show "cap < int (length op + length (lz4_write_literal (ip - anchor))) \<longrightarrow>
      lz4_sequence src cap anchor ip offset match_len op = Inl Out_Of_Bounds"
    by (simp add: lz4_sequence_def emit_def Let_def)
  show "lz4_compress_fast (map of_nat ([1..<16] @ [1..<17])) 31 1 15 = Inl Out_Of_Bounds"
    by code_simp
qed

theorem lz4_compress_overrun_witness:
  "lz4_sequence (replicate 40 7) 0 0 1 1 39 [] = Inl Out_Of_Bounds"
  using lz4_compress_overrun [of 0 "[]" 1 0 "replicate 40 7" 1 39] by (simp add: lz4_write_literal_def)

end
