(* ===== verification/Virtq.thy ===== *)
theory Virtq
  imports Align_Math Spinlock
begin

text \<open>
  Split virtqueues, \<^verbatim>\<open>src/hal/virtio/virtq.c\<close> and the ring structures of \<^verbatim>\<open>include/hal/virtio.h\<close>. The descriptor
  table, the ring of available and the ring of used chains lie in memory shared with the device; they are
  lists of the queue record here, and an index outside of one is the fault \<open>Out_Of_Bounds\<close>. Barriers order
  the accesses of one hart and have no other effect.
\<close>

section \<open>Data\<close>

record virtq_desc =
  vd_addr :: u64
  vd_len :: u32
  vd_flags :: u16
  vd_next :: u16

definition VRING_DESC_F_NEXT :: u16 where "VRING_DESC_F_NEXT = 1"
definition VRING_DESC_F_WRITE :: u16 where "VRING_DESC_F_WRITE = 2"
definition VRING_ALIGN :: u64 where "VRING_ALIGN = 4096"

record virtq_buf =
  vb_addr :: addr
  vb_len :: u32

record virtq =
  vq_regs :: addr
  vq_queue_idx :: u16
  descs_ptr :: addr
  avail_ptr :: addr
  used_ptr :: addr
  vq_num :: u16
  free_head :: u16
  num_free :: u16
  vq_avail_idx :: u16
  vq_used_idx :: u16
  vq_lock :: spinlock
  vq_data :: "addr list"
  descs :: "virtq_desc list"
  avail_flags :: u16
  avail_idx :: u16
  avail_ring :: "u16 list"
  used_flags :: u16
  used_idx :: u16
  used_ring :: "(u32 \<times> u32) list"

definition sizeof_virtq_desc :: u64 where "sizeof_virtq_desc = 16"
definition sizeof_virtq_used_elem :: u64 where "sizeof_virtq_used_elem = 8"
definition sizeof_virtq :: u64 where "sizeof_virtq = 80 + 8 * of_nat VIRTQ_SIZE"

definition vring_size :: "u16 \<Rightarrow> u64" where
  "vring_size num =
     (let desc_size = sizeof_virtq_desc * ucast num;
          avail_size = 2 * (3 + ucast num);
          used_size = 2 * 3 + sizeof_virtq_used_elem * ucast num
      in desc_size + avail_size + used_size + VRING_ALIGN * 2)"

section \<open>Creation\<close>

text \<open>\<^verbatim>\<open>kmalloc\<close> and \<^verbatim>\<open>kfree\<close> are the parameters \<open>KM\<close> and \<open>KF\<close>, on the state of the heap.\<close>

definition virtq_create ::
  "(u64 \<Rightarrow> 'h \<Rightarrow> addr \<times> 'h) \<Rightarrow> (addr \<Rightarrow> 'h \<Rightarrow> 'h) \<Rightarrow> addr \<Rightarrow> u16 \<Rightarrow> u16 \<Rightarrow> 'h \<Rightarrow> ((addr \<times> virtq) option \<times> 'h) res" where
  "virtq_create KM KF regs queue_idx num h =
     (let size = ALIGN_UP (vring_size num) PAGE_SIZE;
          (mem, h) = KM size h
      in if mem = NULL then Inr (None, h)
         else
           let (p, h) = KM sizeof_virtq h
           in if p = NULL then Inr (None, KF mem h)
              else
                let n = unat num;
                    avail_offset = sizeof_virtq_desc * ucast num;
                    used_offset = avail_offset + 2 * (3 + ucast num);
                    used_offset = ALIGN_UP used_offset VRING_ALIGN;
                    ds = map (\<lambda>i. \<lparr>vd_addr = 0, vd_len = 0, vd_flags = VRING_DESC_F_NEXT, vd_next = of_nat ((i + 1) mod n)\<rparr>) [0..<n]
                in if num = 0 then Inl Out_Of_Bounds
                   else Inr (Some (p,
                     \<lparr>vq_regs = regs, vq_queue_idx = queue_idx, descs_ptr = mem, avail_ptr = mem + avail_offset,
                      used_ptr = mem + used_offset, vq_num = num, free_head = 0, num_free = num, vq_avail_idx = 0,
                      vq_used_idx = 0, vq_lock = SPINLOCK_INITIALIZER ''virtq'', vq_data = replicate VIRTQ_SIZE NULL,
                      descs = ds[n - 1 := (ds ! (n - 1))\<lparr>vd_flags := 0, vd_next := 0\<rparr>],
                      avail_flags = 0, avail_idx = 0, avail_ring = replicate n 0,
                      used_flags = 0, used_idx = 0, used_ring = replicate n (0, 0)\<rparr>), h))"

definition virtq_destroy :: "(addr \<Rightarrow> 'h \<Rightarrow> 'h) \<Rightarrow> (addr \<times> virtq) option \<Rightarrow> 'h \<Rightarrow> 'h" where
  "virtq_destroy KF vq h = (case vq of None \<Rightarrow> h | Some (p, q) \<Rightarrow> KF p (KF (descs_ptr q) h))"

section \<open>Descriptors\<close>

definition desc_at :: "virtq \<Rightarrow> u16 \<Rightarrow> virtq_desc res" where
  "desc_at vq i = (if unat i < length (descs vq) then Inr (descs vq ! unat i) else Inl Out_Of_Bounds)"

definition upd_desc :: "u16 \<Rightarrow> (virtq_desc \<Rightarrow> virtq_desc) \<Rightarrow> virtq \<Rightarrow> virtq res" where
  "upd_desc i f vq =
     rbind (desc_at vq i) (\<lambda>d. Inr (vq\<lparr>descs := (descs vq)[unat i := f d]\<rparr>))"

definition virtq_alloc_desc :: "virtq \<Rightarrow> (u16 \<times> virtq) res" where
  "virtq_alloc_desc vq =
     (if num_free vq = 0 then Inr (- 1, vq)
      else
        let idx = free_head vq
        in rbind (desc_at vq idx) (\<lambda>d.
             Inr (idx, vq\<lparr>free_head := vd_next d, num_free := num_free vq - 1\<rparr>)))"

definition virtq_free_desc :: "u16 \<Rightarrow> virtq \<Rightarrow> virtq res" where
  "virtq_free_desc idx vq =
     rbind (upd_desc idx (\<lambda>_. \<lparr>vd_addr = 0, vd_len = 0, vd_flags = VRING_DESC_F_NEXT, vd_next = free_head vq\<rparr>) vq) (\<lambda>vq.
       Inr (vq\<lparr>free_head := idx, num_free := num_free vq + 1\<rparr>))"

section \<open>Adding a chain of buffers\<close>

text \<open>
  One of the two loops of \<^verbatim>\<open>virtq_add_buf\<close>: the buffers go into the descriptor \<open>prev\<close> and new ones linked
  behind it; \<open>cont\<close> says that another loop follows, which needs a descriptor after the last buffer.
\<close>

fun fill_bufs :: "u16 \<Rightarrow> bool \<Rightarrow> virtq_buf list \<Rightarrow> u16 \<Rightarrow> virtq \<Rightarrow> (u16 \<times> virtq) res" where
  "fill_bufs flags cont [] prev vq = Inr (prev, vq)"
| "fill_bufs flags cont (b # bs) prev vq =
     rbind (upd_desc prev (\<lambda>d. d\<lparr>vd_addr := vb_addr b, vd_len := vb_len b, vd_flags := flags\<rparr>) vq) (\<lambda>vq.
       if bs \<noteq> [] \<or> cont then
         rbind (virtq_alloc_desc vq) (\<lambda>(n, vq).
         rbind (upd_desc prev (\<lambda>d. d\<lparr>vd_next := n, vd_flags := vd_flags d OR VRING_DESC_F_NEXT\<rparr>) vq) (\<lambda>vq.
           fill_bufs flags cont bs n vq))
       else fill_bufs flags cont bs prev vq)"

definition set_data :: "u16 \<Rightarrow> addr \<Rightarrow> virtq \<Rightarrow> virtq res" where
  "set_data i token vq =
     (if unat i < length (vq_data vq) then Inr (vq\<lparr>vq_data := (vq_data vq)[unat i := token]\<rparr>)
      else Inl Out_Of_Bounds)"

definition virtq_acquire :: "hart \<times> virtq \<Rightarrow> (hart \<times> virtq) res" where
  "virtq_acquire = (\<lambda>(c, vq). rbind (spinlock_acquire (c, vq_lock vq)) (\<lambda>(c, l). Inr (c, vq\<lparr>vq_lock := l\<rparr>)))"

definition virtq_release :: "hart \<times> virtq \<Rightarrow> (hart \<times> virtq) res" where
  "virtq_release = (\<lambda>(c, vq). rbind (spinlock_release (c, vq_lock vq)) (\<lambda>(c, l). Inr (c, vq\<lparr>vq_lock := l\<rparr>)))"

definition publish :: "u16 \<Rightarrow> virtq \<Rightarrow> virtq res" where
  "publish head vq =
     (let i = unat (vq_avail_idx vq mod vq_num vq)
      in if i < length (avail_ring vq)
         then Inr (vq\<lparr>avail_ring := (avail_ring vq)[i := head], vq_avail_idx := vq_avail_idx vq + 1,
                      avail_idx := vq_avail_idx vq + 1\<rparr>)
         else Inl Out_Of_Bounds)"

text \<open>The critical section of \<^verbatim>\<open>virtq_add_buf\<close>, after the test of \<^verbatim>\<open>num_free\<close>.\<close>

definition add_chain :: "virtq_buf list \<Rightarrow> virtq_buf list \<Rightarrow> addr \<Rightarrow> virtq \<Rightarrow> (u16 \<times> virtq) res" where
  "add_chain in_bufs out_bufs token vq =
     rbind (virtq_alloc_desc vq) (\<lambda>(head, vq).
     rbind (set_data head token vq) (\<lambda>vq.
     rbind (fill_bufs 0 (out_bufs \<noteq> []) in_bufs head vq) (\<lambda>(prev, vq).
     rbind (fill_bufs VRING_DESC_F_WRITE False out_bufs prev vq) (\<lambda>(prev, vq).
     rbind (upd_desc prev (\<lambda>d. d\<lparr>vd_flags := vd_flags d AND NOT VRING_DESC_F_NEXT, vd_next := 0\<rparr>) vq) (\<lambda>vq.
     rbind (publish head vq) (\<lambda>vq. Inr (head, vq)))))))"

definition virtq_add_buf ::
  "virtq_buf list \<Rightarrow> virtq_buf list \<Rightarrow> addr \<Rightarrow> hart \<times> virtq \<Rightarrow> (int \<times> hart \<times> virtq) res" where
  "virtq_add_buf in_bufs out_bufs token s =
     rbind (virtq_acquire s) (\<lambda>(c, vq).
       let total = length in_bufs + length out_bufs
       in if unat (num_free vq) < total then rbind (virtq_release (c, vq)) (\<lambda>s. Inr (- 1, s))
          else
            rbind (add_chain in_bufs out_bufs token vq) (\<lambda>(head, vq).
            rbind (virtq_release (c, vq)) (\<lambda>s. Inr (uint head, s))))"

section \<open>Taking a finished chain back\<close>

text \<open>
  The loop that frees the descriptors of a chain ends at the first one without \<^verbatim>\<open>VRING_DESC_F_NEXT\<close>;
  \<open>None\<close> is a loop that never ends.
\<close>

partial_function (option) release_loop :: "u16 \<Rightarrow> virtq \<Rightarrow> virtq res option" where
  "release_loop head vq =
     (case desc_at vq head of
        Inl e \<Rightarrow> Some (Inl e)
      | Inr d \<Rightarrow>
          if vd_flags d AND VRING_DESC_F_NEXT \<noteq> 0 then
            (case virtq_free_desc head vq of Inl e \<Rightarrow> Some (Inl e) | Inr vq \<Rightarrow> release_loop (vd_next d) vq)
          else Some (virtq_free_desc head vq))"

definition release_chain :: "u16 \<Rightarrow> virtq \<Rightarrow> virtq res" where
  "release_chain head vq = (case release_loop head vq of None \<Rightarrow> Inl Spin | Some r \<Rightarrow> r)"

text \<open>The used entry is read, the chain freed; the token and the length the device reported.\<close>

definition take_used :: "virtq \<Rightarrow> ((addr \<times> u32) \<times> virtq) res" where
  "take_used vq =
     (let i = unat (vq_used_idx vq mod vq_num vq)
      in if length (used_ring vq) \<le> i then Inl Out_Of_Bounds
         else
           let (ident, len) = used_ring vq ! i;
               head = (ucast ident :: u16)
           in if length (vq_data vq) \<le> unat head then Inl Out_Of_Bounds
              else
                let token = vq_data vq ! unat head
                in rbind (set_data head NULL vq) (\<lambda>vq.
                   rbind (release_chain head vq) (\<lambda>vq.
                     Inr ((token, len), vq\<lparr>vq_used_idx := vq_used_idx vq + 1\<rparr>))))"

text \<open>NULL without a length when the device has used no chain since the last call.\<close>

definition virtq_get_buf :: "hart \<times> virtq \<Rightarrow> ((addr \<times> u32 option) \<times> hart \<times> virtq) res" where
  "virtq_get_buf s =
     rbind (virtq_acquire s) (\<lambda>(c, vq).
       if vq_used_idx vq = used_idx vq then rbind (virtq_release (c, vq)) (\<lambda>s. Inr ((NULL, None), s))
       else
         rbind (take_used vq) (\<lambda>((token, len), vq).
         rbind (virtq_release (c, vq)) (\<lambda>s. Inr ((token, Some len), s))))"

definition virtq_has_buf :: "virtq \<Rightarrow> bool" where
  "virtq_has_buf vq \<longleftrightarrow> vq_used_idx vq \<noteq> used_idx vq"

text \<open>\<^verbatim>\<open>virtq_kick\<close> writes the number of the queue to the notify register, unless the device asked not to.\<close>

definition virtq_kick :: "(u16 \<Rightarrow> 'd \<Rightarrow> 'd) \<Rightarrow> virtq \<Rightarrow> 'd \<Rightarrow> 'd" where
  "virtq_kick notify vq d = (if avail_flags vq AND 1 \<noteq> 0 then d else notify (vq_queue_idx vq) d)"

definition virtq_desc_count :: "hart \<times> virtq \<Rightarrow> (u16 \<times> hart \<times> virtq) res" where
  "virtq_desc_count s =
     rbind (virtq_acquire s) (\<lambda>(c, vq).
       let count = vq_num vq - num_free vq
       in rbind (virtq_release (c, vq)) (\<lambda>s. Inr (count, s)))"

end
