(* ===== verification/Virtq_Correct.thy ===== *)
theory Virtq_Correct
  imports Virtq "HOL-Library.Multiset"
begin

text \<open>
  The descriptors of a queue are divided between the free list and the chains handed to the device. The
  operations move descriptors between them and lose none.
\<close>

section \<open>The invariant\<close>

fun free_path :: "virtq_desc list \<Rightarrow> nat \<Rightarrow> u16 \<Rightarrow> nat list" where
  "free_path ds 0 i = []"
| "free_path ds (Suc n) i = unat i # free_path ds n (vd_next (ds ! unat i))"

definition link_to :: "virtq_desc list \<Rightarrow> nat \<Rightarrow> nat \<Rightarrow> bool" where
  "link_to ds a b \<longleftrightarrow> vd_flags (ds ! a) AND VRING_DESC_F_NEXT \<noteq> 0 \<and> vd_next (ds ! a) = of_nat b"

definition linked :: "virtq_desc list \<Rightarrow> nat list \<Rightarrow> bool" where
  "linked ds c \<longleftrightarrow> c \<noteq> [] \<and> successively (link_to ds) c \<and> vd_flags (ds ! last c) AND VRING_DESC_F_NEXT = 0"

definition sized :: "virtq \<Rightarrow> bool" where
  "sized vq \<longleftrightarrow> 0 < unat (vq_num vq) \<and> unat (vq_num vq) \<le> VIRTQ_SIZE \<and> length (descs vq) = unat (vq_num vq) \<and>
     length (vq_data vq) = VIRTQ_SIZE \<and> length (avail_ring vq) = unat (vq_num vq) \<and>
     length (used_ring vq) = unat (vq_num vq)"

text \<open>\<open>part vq cs X held\<close>: the chains \<open>cs\<close>, with the descriptors \<open>X\<close>, and the descriptors \<open>held\<close> by a running operation.\<close>

definition part :: "virtq \<Rightarrow> nat list list \<Rightarrow> virtq_desc list \<Rightarrow> nat list \<Rightarrow> bool" where
  "part vq cs X held \<longleftrightarrow> sized vq \<and>
     mset (free_path (descs vq) (unat (num_free vq)) (free_head vq) @ held @ concat cs) = mset [0..<unat (vq_num vq)] \<and>
     map ((!) (descs vq)) (concat cs) = X"

definition vq_ok :: "virtq \<Rightarrow> nat list list \<Rightarrow> bool" where
  "vq_ok vq cs \<longleftrightarrow> part vq cs (map ((!) (descs vq)) (concat cs)) [] \<and> (\<forall>c\<in>set cs. linked (descs vq) c)"

lemma length_free_path [simp]: "length (free_path ds n i) = n"
  by (induction n arbitrary: i) simp_all

lemma free_path_cong:
  "(\<And>j. j \<in> set (free_path ds n i) \<Longrightarrow> ds' ! j = ds ! j) \<Longrightarrow> free_path ds' n i = free_path ds n i"
  by (induction n arbitrary: i) simp_all

lemma partD:
  assumes "part vq cs X held"
  shows "distinct (free_path (descs vq) (unat (num_free vq)) (free_head vq) @ held @ concat cs)"
    and "set (free_path (descs vq) (unat (num_free vq)) (free_head vq) @ held @ concat cs) = {..<unat (vq_num vq)}"
    and "sized vq"
    and "unat (num_free vq) + length held + length (concat cs) = unat (vq_num vq)"
proof -
  let ?l = "free_path (descs vq) (unat (num_free vq)) (free_head vq) @ held @ concat cs"
  have m: "mset ?l = mset [0..<unat (vq_num vq)]" and s: "sized vq" using assms by (simp_all add: part_def)
  show "distinct ?l" using m by (metis distinct_upt mset_eq_imp_distinct_iff)
  show "set ?l = {..<unat (vq_num vq)}" using mset_eq_setD [OF m] by (simp add: lessThan_atLeast0)
  show "sized vq" by (rule s)
  have "length ?l = unat (vq_num vq)" using mset_eq_length [OF m] by simp
  then show "unat (num_free vq) + length held + length (concat cs) = unat (vq_num vq)" by simp
qed

lemma part_held_less:
  assumes "part vq cs X held" and "j \<in> set held"
  shows "j < unat (vq_num vq)" and "j < length (descs vq)" and "j < 2 ^ 16"
proof -
  show "j < unat (vq_num vq)" using partD(2) [OF assms(1)] assms(2) by auto
  then show "j < length (descs vq)" using partD(3) [OF assms(1)] by (simp add: sized_def)
  show "j < 2 ^ 16" using \<open>j < unat (vq_num vq)\<close> unat_lt [of "vq_num vq"] by simp
qed

lemma part_held_perm: "mset held = mset held' \<Longrightarrow> part vq cs X held \<longleftrightarrow> part vq cs X held'"
  by (simp add: part_def)

lemma part_upd:
  assumes p: "part vq cs X held" and i: "unat i \<in> set held"
  shows "upd_desc i f vq = Inr (vq\<lparr>descs := (descs vq)[unat i := f (descs vq ! unat i)]\<rparr>)"
    and "part (vq\<lparr>descs := (descs vq)[unat i := d]\<rparr>) cs X held"
proof -
  have less: "unat i < length (descs vq)" using part_held_less [OF p i] by simp
  then show "upd_desc i f vq = Inr (vq\<lparr>descs := (descs vq)[unat i := f (descs vq ! unat i)]\<rparr>)"
    by (simp add: upd_desc_def desc_at_def)
  have ne: "unat i \<noteq> j" if "j \<in> set (free_path (descs vq) (unat (num_free vq)) (free_head vq)) \<or> j \<in> set (concat cs)" for j
    using partD(1) [OF p] i that by auto
  have "free_path ((descs vq)[unat i := d]) (unat (num_free vq)) (free_head vq) =
      free_path (descs vq) (unat (num_free vq)) (free_head vq)"
    using ne by (intro free_path_cong) simp
  moreover have "map ((!) ((descs vq)[unat i := d])) (concat cs) = X"
  proof -
    have "map ((!) ((descs vq)[unat i := d])) (concat cs) = map ((!) (descs vq)) (concat cs)"
      using ne by (intro map_cong) (simp_all del: set_concat)
    then show ?thesis using p by (simp only: part_def)
  qed
  ultimately show "part (vq\<lparr>descs := (descs vq)[unat i := d]\<rparr>) cs X held"
    using p unfolding part_def sized_def by (simp del: map_eq_conv)
qed

lemma part_alloc:
  assumes p: "part vq cs X held" and n: "num_free vq \<noteq> 0"
  shows "\<exists>vq'. virtq_alloc_desc vq = Inr (free_head vq, vq') \<and> part vq' cs X (held @ [unat (free_head vq)]) \<and>
    vq' = vq\<lparr>free_head := free_head vq', num_free := num_free vq - 1\<rparr> \<and> unat (num_free vq') = unat (num_free vq) - 1"
proof -
  obtain k where k: "unat (num_free vq) = Suc k" using n by (metis not0_implies_Suc unat_eq_0)
  have u: "unat (num_free vq - 1) = k" using k n by (simp add: unat_minus_one)
  have "unat (free_head vq) \<in> {..<unat (vq_num vq)}" using partD(2) [OF p] by (auto simp: k)
  then have less: "unat (free_head vq) < length (descs vq)" using partD(3) [OF p] by (simp add: sized_def)
  let ?vq = "vq\<lparr>free_head := vd_next (descs vq ! unat (free_head vq)), num_free := num_free vq - 1\<rparr>"
  have "virtq_alloc_desc vq = Inr (free_head vq, ?vq)"
    using n less by (simp add: virtq_alloc_desc_def desc_at_def Let_def)
  moreover have "part ?vq cs X (held @ [unat (free_head vq)])"
    using p by (simp add: part_def sized_def k u)
  ultimately show ?thesis using k u by auto
qed

lemma part_free:
  assumes p: "part vq cs X (i # held)"
  shows "\<exists>vq'. virtq_free_desc (of_nat i) vq = Inr vq' \<and> part vq' cs X held \<and>
    vq' = vq\<lparr>descs := descs vq', free_head := of_nat i, num_free := num_free vq + 1\<rparr> \<and>
    unat (num_free vq') = unat (num_free vq) + 1 \<and> (\<forall>j. j \<noteq> i \<longrightarrow> descs vq' ! j = descs vq ! j)"
proof -
  have i: "unat (of_nat i :: u16) = i" using part_held_less(3) [OF p, of i] by (simp add: unat_of_nat_small)
  let ?d = "\<lparr>vd_addr = 0, vd_len = 0, vd_flags = VRING_DESC_F_NEXT, vd_next = free_head vq\<rparr>"
  let ?vq = "vq\<lparr>descs := (descs vq)[i := ?d], free_head := of_nat i, num_free := num_free vq + 1\<rparr>"
  have less: "i < length (descs vq)" using part_held_less(2) [OF p, of i] by simp
  have n: "unat (num_free vq + 1) = Suc (unat (num_free vq))"
  proof -
    have "unat (num_free vq) < unat (vq_num vq)" using partD(4) [OF p] by simp
    then show ?thesis by (intro unat_plus_1 [of _ "vq_num vq"]) (simp add: word_less_nat_alt)
  qed
  have q: "part (vq\<lparr>descs := (descs vq)[i := ?d]\<rparr>) cs X (i # held)"
    using part_upd(2) [OF p, of "of_nat i" ?d] i by simp
  have "virtq_free_desc (of_nat i) vq = Inr ?vq"
    using part_upd(1) [OF p, of "of_nat i"] i by (simp add: virtq_free_desc_def)
  moreover have "part ?vq cs X held"
    using q less i by (simp add: part_def sized_def n)
  ultimately show ?thesis using n by auto
qed


section \<open>Filling a chain\<close>

definition core :: "virtq \<Rightarrow> virtq" where
  "core vq = vq\<lparr>descs := [], free_head := 0, num_free := 0\<rparr>"

lemma core_simps [simp]:
  "core (vq\<lparr>descs := d\<rparr>) = core vq" "core (vq\<lparr>free_head := h\<rparr>) = core vq" "core (vq\<lparr>num_free := n\<rparr>) = core vq"
  by (cases vq; simp add: core_def)+

definition payload :: "virtq_desc list \<Rightarrow> nat \<Rightarrow> u64 \<times> u32 \<times> u16" where
  "payload ds j = (vd_addr (ds ! j), vd_len (ds ! j), vd_flags (ds ! j) AND VRING_DESC_F_WRITE)"

definition buf_payload :: "u16 \<Rightarrow> virtq_buf \<Rightarrow> u64 \<times> u32 \<times> u16" where
  "buf_payload fl b = (vb_addr b, vb_len b, fl AND VRING_DESC_F_WRITE)"

lemma flag_simps [simp]:
  "(x OR VRING_DESC_F_NEXT) AND VRING_DESC_F_NEXT \<noteq> 0"
  "(x OR VRING_DESC_F_NEXT) AND VRING_DESC_F_WRITE = x AND VRING_DESC_F_WRITE"
  "(x AND NOT VRING_DESC_F_NEXT) AND VRING_DESC_F_NEXT = 0"
  "(x AND NOT VRING_DESC_F_NEXT) AND VRING_DESC_F_WRITE = x AND VRING_DESC_F_WRITE"
proof -
  have b: "bit VRING_DESC_F_NEXT n \<longleftrightarrow> n = 0" "bit VRING_DESC_F_WRITE n \<longleftrightarrow> n = 1" for n
    by (auto simp: VRING_DESC_F_NEXT_def VRING_DESC_F_WRITE_def bit_1_iff bit_2_iff)
  have "bit ((x OR VRING_DESC_F_NEXT) AND VRING_DESC_F_NEXT) 0" by (simp add: bit_simps b)
  then show "(x OR VRING_DESC_F_NEXT) AND VRING_DESC_F_NEXT \<noteq> 0" by (metis bit_0_eq bot_apply bot_bool_def)
  show "(x OR VRING_DESC_F_NEXT) AND VRING_DESC_F_WRITE = x AND VRING_DESC_F_WRITE"
    "(x AND NOT VRING_DESC_F_NEXT) AND VRING_DESC_F_NEXT = 0"
    "(x AND NOT VRING_DESC_F_NEXT) AND VRING_DESC_F_WRITE = x AND VRING_DESC_F_WRITE"
    by (rule bit_word_eqI, auto simp: bit_simps b)+
qed

lemma link_cong: "a \<noteq> i \<Longrightarrow> link_to (ds[i := d]) a b = link_to ds a b"
  by (simp add: link_to_def)

lemma successively_link_upd:
  assumes "successively (link_to ds) (hs @ [p])" and "p \<notin> set hs"
  shows "successively (link_to (ds[p := d])) (hs @ [p])"
  using assms
proof (induction hs)
  case (Cons a hs)
  then show ?case by (cases hs) (auto simp: link_cong)
qed simp

lemma payload_upd: "j \<noteq> i \<Longrightarrow> payload (ds[i := d]) j = payload ds j"
  by (simp add: payload_def)

lemma fill_bufs_ok:
  assumes "part vq cs X (hs @ [unat p])" and "successively (link_to (descs vq)) (hs @ [unat p])"
    and "length bs \<le> unat (num_free vq) + (if cont then 0 else 1)"
  shows "\<exists>q vq' ms. fill_bufs fl cont bs p vq = Inr (q, vq') \<and> part vq' cs X (hs @ ms @ [unat q]) \<and>
    successively (link_to (descs vq')) (hs @ ms @ [unat q]) \<and> core vq' = core vq \<and>
    unat (num_free vq') = unat (num_free vq) - (length bs - (if cont then 0 else 1)) \<and>
    map (payload (descs vq')) hs = map (payload (descs vq)) hs \<and> hd (ms @ [unat q]) = unat p \<and>
    (if bs = [] then ms = [] \<and> q = p
     else if cont then map (payload (descs vq')) ms = map (buf_payload fl) bs
     else map (payload (descs vq')) (ms @ [unat q]) = map (buf_payload fl) bs)"
  using assms
proof (induction fl cont bs p vq arbitrary: hs rule: fill_bufs.induct)
  case (1 fl cont p vq)
  then show ?case by (intro exI [of _ p] exI [of _ vq] exI [of _ "[]"]) auto
next
  case (2 fl cont b bs p vq)
  note prt = 2(3) and suc = 2(4) and room = 2(5)
  let ?d = "(descs vq ! unat p)\<lparr>vd_addr := vb_addr b, vd_len := vb_len b, vd_flags := fl\<rparr>"
  let ?vq = "vq\<lparr>descs := (descs vq)[unat p := ?d]\<rparr>"
  have pin: "unat p \<in> set (hs @ [unat p])" by simp
  have dist: "unat p \<notin> set hs" using partD(1) [OF prt] by auto
  have less: "unat p < length (descs vq)" using part_held_less(2) [OF prt pin] .
  note u = part_upd [OF prt pin]
  have set1: "upd_desc p (\<lambda>d. d\<lparr>vd_addr := vb_addr b, vd_len := vb_len b, vd_flags := fl\<rparr>) vq = Inr ?vq"
    by (rule u(1))
  have prt1: "part ?vq cs X (hs @ [unat p])" by (rule u(2))
  have suc1: "successively (link_to (descs ?vq)) (hs @ [unat p])"
    using successively_link_upd [OF suc dist] by simp
  have keep: "map (payload ((descs vq)[unat p := d])) hs = map (payload (descs vq)) hs" for d
    using dist by (intro map_cong refl payload_upd) auto
  show ?case
  proof (cases "bs \<noteq> [] \<or> cont")
    case False
    then show ?thesis
      using set1 prt1 suc1 less keep
      by (intro exI [of _ p] exI [of _ ?vq] exI [of _ "[]"])
         (simp add: payload_def [of _ "unat p"] buf_payload_def del: map_eq_conv)
  next
    case True
    have nz: "num_free ?vq \<noteq> 0" using room True by (auto split: if_splits)
    obtain vq2 where a: "virtq_alloc_desc ?vq = Inr (free_head ?vq, vq2)"
        "part vq2 cs X ((hs @ [unat p]) @ [unat (free_head ?vq)])"
        "vq2 = ?vq\<lparr>free_head := free_head vq2, num_free := num_free ?vq - 1\<rparr>"
        "unat (num_free vq2) = unat (num_free ?vq) - 1"
      using part_alloc [OF prt1 nz] by blast
    let ?n = "free_head ?vq"
    have d2: "descs vq2 = descs ?vq" by (subst a(3)) simp
    let ?vq3 = "vq2\<lparr>descs := (descs vq2)[unat p := ?d\<lparr>vd_next := ?n, vd_flags := fl OR VRING_DESC_F_NEXT\<rparr>]\<rparr>"
    have pin2: "unat p \<in> set ((hs @ [unat p]) @ [unat ?n])" by simp
    have set2: "upd_desc p (\<lambda>d. d\<lparr>vd_next := ?n, vd_flags := vd_flags d OR VRING_DESC_F_NEXT\<rparr>) vq2 = Inr ?vq3"
      using part_upd(1) [OF a(2) pin2] less by (simp add: d2)
    have prt3: "part ?vq3 cs X ((hs @ [unat p]) @ [unat ?n])" by (rule part_upd(2) [OF a(2) pin2])
    have dist3: "unat ?n \<noteq> unat p" "unat ?n \<notin> set hs" using partD(1) [OF a(2)] by auto
    have "successively (link_to (descs ?vq3)) (hs @ [unat p])"
      using successively_link_upd [OF suc1 dist] by (simp add: d2)
    moreover have "link_to (descs ?vq3) (unat p) (unat ?n)"
      using less by (simp add: link_to_def d2) (simp add: VRING_DESC_F_NEXT_def)
    ultimately have suc3: "successively (link_to (descs ?vq3)) ((hs @ [unat p]) @ [unat ?n])"
      by (simp add: successively_append_iff)
    have nf: "unat (num_free ?vq3) = unat (num_free vq) - 1" using a(4) by simp
    have room3: "length bs \<le> unat (num_free ?vq3) + (if cont then 0 else 1)"
      using room nf True by (auto split: if_splits)
    obtain q vq' ms where r: "fill_bufs fl cont bs ?n ?vq3 = Inr (q, vq')"
        "part vq' cs X ((hs @ [unat p]) @ ms @ [unat q])"
        "successively (link_to (descs vq')) ((hs @ [unat p]) @ ms @ [unat q])" "core vq' = core ?vq3"
        "unat (num_free vq') = unat (num_free ?vq3) - (length bs - (if cont then 0 else 1))"
        "map (payload (descs vq')) (hs @ [unat p]) = map (payload (descs ?vq3)) (hs @ [unat p])"
        "hd (ms @ [unat q]) = unat ?n"
        "if bs = [] then ms = [] \<and> q = ?n
         else if cont then map (payload (descs vq')) ms = map (buf_payload fl) bs
         else map (payload (descs vq')) (ms @ [unat q]) = map (buf_payload fl) bs"
      using 2(1) [OF set1 True a(1) refl set2 prt3 suc3 room3] by blast
    have "fill_bufs fl cont (b # bs) p vq = Inr (q, vq')"
      using set1 a(1) set2 r(1) True by simp
    moreover have "core vq' = core vq"
      by (subst r(4), simp, subst a(3), simp)
    moreover have "payload (descs vq') (unat p) = buf_payload fl b"
      using r(6) less by (simp add: payload_def buf_payload_def d2)
    moreover have "map (payload (descs ?vq3)) hs = map (payload (descs vq)) hs"
      using keep by (simp add: d2 del: map_eq_conv)
    ultimately show ?thesis
      using r nf True by (intro exI [of _ q] exI [of _ vq'] exI [of _ "unat p # ms"]) (auto split: if_splits)
  qed
qed


section \<open>Adding a chain\<close>

lemma linked_cong:
  assumes "map ((!) ds') c = map ((!) ds) c" and "linked ds c"
  shows "linked ds' c"
proof -
  have e: "ds' ! j = ds ! j" if "j \<in> set c" for j using assms(1) that by (simp add: list_eq_iff_nth_eq in_set_conv_nth) auto
  have "successively (link_to ds') c = successively (link_to ds) c"
    using e by (intro successively_cong) (auto simp: link_to_def)
  then show ?thesis using assms(2) e [of "last c"] by (simp add: linked_def)
qed

lemma linked_keep:
  assumes "map ((!) ds') (concat cs) = map ((!) ds) (concat cs)" and "\<forall>c\<in>set cs. linked ds c"
  shows "\<forall>c\<in>set cs. linked ds' c"
proof
  fix c assume c: "c \<in> set cs"
  have "map ((!) ds') c = map ((!) ds) c" using assms(1) c by simp
  then show "linked ds' c" by (rule linked_cong) (use assms(2) c in blast)
qed

lemma core_fields:
  "vq_num (core a) = vq_num a" "vq_data (core a) = vq_data a" "vq_avail_idx (core a) = vq_avail_idx a"
  "vq_used_idx (core a) = vq_used_idx a" "avail_ring (core a) = avail_ring a" "used_ring (core a) = used_ring a"
  "used_idx (core a) = used_idx a" "vq_lock (core a) = vq_lock a" "avail_idx (core a) = avail_idx a"
  by (simp_all add: core_def)

lemma core_upd:
  "core (a\<lparr>vq_data := d\<rparr>) = (core a)\<lparr>vq_data := d\<rparr>" "core (a\<lparr>avail_ring := r\<rparr>) = (core a)\<lparr>avail_ring := r\<rparr>"
  "core (a\<lparr>vq_avail_idx := i\<rparr>) = (core a)\<lparr>vq_avail_idx := i\<rparr>" "core (a\<lparr>avail_idx := i\<rparr>) = (core a)\<lparr>avail_idx := i\<rparr>"
  "core (a\<lparr>vq_used_idx := i\<rparr>) = (core a)\<lparr>vq_used_idx := i\<rparr>" "core (a\<lparr>vq_lock := l\<rparr>) = (core a)\<lparr>vq_lock := l\<rparr>"
  by (simp_all add: core_def)

lemma core_eqD:
  assumes "core a = core b"
  shows "vq_num a = vq_num b" and "vq_data a = vq_data b" and "vq_avail_idx a = vq_avail_idx b"
    and "vq_used_idx a = vq_used_idx b" and "avail_ring a = avail_ring b" and "used_ring a = used_ring b"
    and "used_idx a = used_idx b" and "vq_lock a = vq_lock b"
  using arg_cong [OF assms, of vq_num] arg_cong [OF assms, of vq_data] arg_cong [OF assms, of vq_avail_idx]
    arg_cong [OF assms, of vq_used_idx] arg_cong [OF assms, of avail_ring] arg_cong [OF assms, of used_ring]
    arg_cong [OF assms, of used_idx] arg_cong [OF assms, of vq_lock]
  by (simp_all only: core_fields)

lemma avail_slot:
  assumes "sized vq"
  shows "unat (vq_avail_idx vq mod vq_num vq) < length (avail_ring vq)"
    and "unat (vq_used_idx vq mod vq_num vq) < length (used_ring vq)"
  using assms by (simp_all add: sized_def unat_mod)

lemma add_chain_ok:
  assumes ok: "vq_ok vq cs" and n: "ins @ outs \<noteq> []" "length ins + length outs \<le> unat (num_free vq)"
  shows "\<exists>vq' c. add_chain ins outs token vq = Inr (free_head vq, vq') \<and> vq_ok vq' (c # cs) \<and>
    hd c = unat (free_head vq) \<and>
    map (payload (descs vq')) c = map (buf_payload 0) ins @ map (buf_payload VRING_DESC_F_WRITE) outs \<and>
    map ((!) (descs vq')) (concat cs) = map ((!) (descs vq)) (concat cs) \<and>
    unat (num_free vq') = unat (num_free vq) - (length ins + length outs) \<and>
    core vq' = core (vq\<lparr>vq_data := (vq_data vq)[unat (free_head vq) := token],
      avail_ring := (avail_ring vq)[unat (vq_avail_idx vq mod vq_num vq) := free_head vq],
      vq_avail_idx := vq_avail_idx vq + 1, avail_idx := vq_avail_idx vq + 1\<rparr>)"
proof -
  let ?X = "map ((!) (descs vq)) (concat cs)" and ?h = "free_head vq"
  have p: "part vq cs ?X []" using ok by (simp add: vq_ok_def)
  have nz: "num_free vq \<noteq> 0" using n by auto
  obtain vq1 where a: "virtq_alloc_desc vq = Inr (?h, vq1)" "part vq1 cs ?X ([] @ [unat ?h])"
      "vq1 = vq\<lparr>free_head := free_head vq1, num_free := num_free vq - 1\<rparr>" "unat (num_free vq1) = unat (num_free vq) - 1"
    using part_alloc [OF p nz] by blast
  have h: "unat ?h < VIRTQ_SIZE"
    using part_held_less(1) [OF a(2), of "unat ?h"] partD(3) [OF a(2)] by (simp add: sized_def)
  let ?vq2 = "vq1\<lparr>vq_data := (vq_data vq1)[unat ?h := token]\<rparr>"
  have s: "set_data ?h token vq1 = Inr ?vq2"
    using h partD(3) [OF a(2)] by (simp add: set_data_def sized_def)
  have p2: "part ?vq2 cs ?X ([] @ [unat ?h])" using a(2) by (simp add: part_def sized_def)
  have room: "length ins \<le> unat (num_free ?vq2) + (if outs \<noteq> [] then 0 else 1)"
    using n(2) a(4) by (cases outs) auto
  obtain q1 vq3 ms1 where f1: "fill_bufs 0 (outs \<noteq> []) ins ?h ?vq2 = Inr (q1, vq3)"
      "part vq3 cs ?X ([] @ ms1 @ [unat q1])" "successively (link_to (descs vq3)) ([] @ ms1 @ [unat q1])"
      "core vq3 = core ?vq2"
      "unat (num_free vq3) = unat (num_free ?vq2) - (length ins - (if outs \<noteq> [] then 0 else 1))"
      "hd (ms1 @ [unat q1]) = unat ?h"
      "if ins = [] then ms1 = [] \<and> q1 = ?h
       else if outs \<noteq> [] then map (payload (descs vq3)) ms1 = map (buf_payload 0) ins
       else map (payload (descs vq3)) (ms1 @ [unat q1]) = map (buf_payload 0) ins"
    using fill_bufs_ok [OF p2 _ room, of 0] by auto
  have room2: "length outs \<le> unat (num_free vq3) + (if False then 0 else 1)"
    using n f1(5) a(4) by auto
  obtain q vq4 ms2 where f2: "fill_bufs VRING_DESC_F_WRITE False outs q1 vq3 = Inr (q, vq4)"
      "part vq4 cs ?X (ms1 @ ms2 @ [unat q])" "successively (link_to (descs vq4)) (ms1 @ ms2 @ [unat q])"
      "core vq4 = core vq3" "unat (num_free vq4) = unat (num_free vq3) - (length outs - 1)"
      "map (payload (descs vq4)) ms1 = map (payload (descs vq3)) ms1" "hd (ms2 @ [unat q]) = unat q1"
      "if outs = [] then ms2 = [] \<and> q = q1
       else map (payload (descs vq4)) (ms2 @ [unat q]) = map (buf_payload VRING_DESC_F_WRITE) outs"
    using fill_bufs_ok [OF f1(2) [unfolded append_Nil] f1(3) [unfolded append_Nil] room2, of VRING_DESC_F_WRITE,
        unfolded if_False] by blast
  define c where "c = ms1 @ ms2 @ [unat q]"
  have pay: "map (payload (descs vq4)) c = map (buf_payload 0) ins @ map (buf_payload VRING_DESC_F_WRITE) outs"
  proof (cases "outs = []")
    case True
    then have "c = ms1 @ [unat q1]" "ins \<noteq> []" "vq4 = vq3" using f2(1,8) n(1) by (auto simp: c_def)
    then show ?thesis using f1(7) True by simp
  next
    case False
    then have "map (payload (descs vq4)) ms1 = map (buf_payload 0) ins"
      unfolding f2(6) using f1(7) by (cases "ins = []") simp_all
    then show ?thesis using f2(8) False by (simp add: c_def del: map_append) (simp only: map_append)
  qed
  let ?d = "\<lambda>d. d\<lparr>vd_flags := vd_flags d AND NOT VRING_DESC_F_NEXT, vd_next := 0\<rparr>"
  let ?vq5 = "vq4\<lparr>descs := (descs vq4)[unat q := ?d (descs vq4 ! unat q)]\<rparr>"
  have p4: "part vq4 cs ?X c" using f2(2) by (simp add: c_def)
  have qin: "unat q \<in> set c" by (simp add: c_def)
  have set5: "upd_desc q ?d vq4 = Inr ?vq5" by (rule part_upd(1) [OF p4 qin])
  have p5: "part ?vq5 cs ?X c" by (rule part_upd(2) [OF p4 qin])
  have less: "unat q < length (descs vq4)" using part_held_less(2) [OF p4 qin] .
  have dist: "unat q \<notin> set (ms1 @ ms2)" using partD(1) [OF p4] by (auto simp: c_def)
  have "successively (link_to (descs ?vq5)) ((ms1 @ ms2) @ [unat q])"
    using successively_link_upd [of "descs vq4" "ms1 @ ms2" "unat q"] f2(3) dist by simp
  then have lk: "linked (descs ?vq5) c"
    using less by (simp add: linked_def c_def)
  have pay5: "map (payload (descs ?vq5)) c = map (payload (descs vq4)) c"
    using less by (auto simp: payload_def nth_list_update)
  have c5: "core ?vq5 = core ?vq2" using f1(4) f2(4) by simp
  have core1: "core vq1 = core vq" by (subst a(3)) simp
  note e1 = core_eqD [OF core1] and e5 = core_eqD [OF c5]
  have sz5: "sized ?vq5" using partD(3) [OF p5] .
  let ?vq6 = "?vq5\<lparr>avail_ring := (avail_ring ?vq5)[unat (vq_avail_idx ?vq5 mod vq_num ?vq5) := ?h],
      vq_avail_idx := vq_avail_idx ?vq5 + 1, avail_idx := vq_avail_idx ?vq5 + 1\<rparr>"
  have pub: "publish ?h ?vq5 = Inr ?vq6"
    using avail_slot(1) [OF sz5] by (simp add: publish_def Let_def)
  have "add_chain ins outs token vq = Inr (?h, ?vq6)"
    using a(1) s f1(1) f2(1) set5 pub by (simp add: add_chain_def)
  moreover have "vq_ok ?vq6 (c # cs)"
  proof -
    have "part ?vq6 (c # cs) (map ((!) (descs ?vq6)) (concat (c # cs))) []"
      using p5 by (simp add: part_def sized_def)
    moreover have "\<forall>c\<in>set cs. linked (descs ?vq5) c"
    proof -
      have "map ((!) (descs ?vq5)) (concat cs) = ?X" using p5 by (simp only: part_def)
      moreover have "\<forall>c\<in>set cs. linked (descs vq) c" using ok unfolding vq_ok_def by (rule conjunct2)
      ultimately show ?thesis by (rule linked_keep)
    qed
    ultimately show ?thesis using lk by (simp add: vq_ok_def)
  qed
  moreover have "hd c = unat ?h"
    using f1(6) f2(7) by (cases ms1) (auto simp: c_def)
  moreover have "map (payload (descs ?vq6)) c = map (buf_payload 0) ins @ map (buf_payload VRING_DESC_F_WRITE) outs"
    using pay5 pay by simp
  moreover have "map ((!) (descs ?vq6)) (concat cs) = ?X"
    using p5 by (simp add: part_def)
  moreover have "unat (num_free ?vq6) = unat (num_free vq) - (length ins + length outs)"
    using f1(5) f2(5) a(4) n by (cases outs; cases ins) auto
  moreover have "core ?vq6 = core (vq\<lparr>vq_data := (vq_data vq)[unat ?h := token],
      avail_ring := (avail_ring vq)[unat (vq_avail_idx vq mod vq_num vq) := ?h],
      vq_avail_idx := vq_avail_idx vq + 1, avail_idx := vq_avail_idx vq + 1\<rparr>)"
  proof -
    have "core ?vq6 = (core ?vq5)\<lparr>avail_ring := (avail_ring vq)[unat (vq_avail_idx vq mod vq_num vq) := ?h],
        vq_avail_idx := vq_avail_idx vq + 1, avail_idx := vq_avail_idx vq + 1\<rparr>"
      using e1 e5 by (simp only: core_upd) simp
    also have "core ?vq5 = (core vq)\<lparr>vq_data := (vq_data vq)[unat ?h := token]\<rparr>"
      using c5 core1 e1 by (simp only: core_upd)
    finally show ?thesis by (simp only: core_upd)
  qed
  ultimately show ?thesis by blast
qed


section \<open>Taking a chain back\<close>

lemma release_loop_ok:
  assumes "part vq cs X c" and "linked (descs vq) c"
  shows "\<exists>vq'. release_loop (of_nat (hd c)) vq = Some (Inr vq') \<and> part vq' cs X [] \<and> core vq' = core vq \<and>
    unat (num_free vq') = unat (num_free vq) + length c"
  using assms
proof (induction c arbitrary: vq)
  case Nil
  then show ?case by (simp add: linked_def)
next
  case (Cons i c)
  have i: "unat (of_nat i :: u16) = i" "i < length (descs vq)"
    using part_held_less [OF Cons.prems(1), of i] by (simp_all add: unat_of_nat_small)
  have d: "desc_at vq (of_nat i) = Inr (descs vq ! i)" using i by (simp add: desc_at_def)
  obtain vq1 where f: "virtq_free_desc (of_nat i) vq = Inr vq1" "part vq1 cs X c"
      "vq1 = vq\<lparr>descs := descs vq1, free_head := of_nat i, num_free := num_free vq + 1\<rparr>"
      "unat (num_free vq1) = unat (num_free vq) + 1" "\<forall>j. j \<noteq> i \<longrightarrow> descs vq1 ! j = descs vq ! j"
    using part_free [OF Cons.prems(1)] by blast
  have core: "core vq1 = core vq" by (subst f(3)) simp
  show ?case
  proof (cases c)
    case Nil
    then have "vd_flags (descs vq ! i) AND VRING_DESC_F_NEXT = 0" using Cons.prems(2) by (simp add: linked_def)
    then show ?thesis using d f core Nil by (subst release_loop.simps) simp
  next
    case (Cons j cs')
    have link: "link_to (descs vq) i j" "linked (descs vq) c"
      using Cons.prems(2) by (auto simp: linked_def local.Cons)
    have "i \<notin> set c" using partD(1) [OF Cons.prems(1)] by auto
    then have "map ((!) (descs vq1)) c = map ((!) (descs vq)) c" using f(5) by auto
    then have "linked (descs vq1) c" by (rule linked_cong) (rule link(2))
    then obtain vq' where r: "release_loop (of_nat (hd c)) vq1 = Some (Inr vq')" "part vq' cs X []" "core vq' = core vq1"
        "unat (num_free vq') = unat (num_free vq1) + length c"
      using Cons.IH [OF f(2)] by blast
    have "release_loop (of_nat i) vq = release_loop (of_nat (hd c)) vq1"
      using d f(1) link(1) by (subst release_loop.simps) (simp add: link_to_def local.Cons)
    then show ?thesis using r core f(4) by auto
  qed
qed

lemma mset_concat_remove1: "c \<in> set cs \<Longrightarrow> mset (concat cs) = mset c + mset (concat (remove1 c cs))"
  by (induction cs) (auto simp: ac_simps)

lemma take_used_ok:
  assumes ok: "vq_ok vq cs" and c: "c \<in> set cs"
    and used: "used_ring vq ! unat (vq_used_idx vq mod vq_num vq) = (of_nat (hd c), len)"
  shows "\<exists>vq'. take_used vq = Inr ((vq_data vq ! hd c, len), vq') \<and> vq_ok vq' (remove1 c cs) \<and>
    map ((!) (descs vq')) (concat (remove1 c cs)) = map ((!) (descs vq)) (concat (remove1 c cs)) \<and>
    unat (num_free vq') = unat (num_free vq) + length c \<and>
    core vq' = core (vq\<lparr>vq_data := (vq_data vq)[hd c := NULL], vq_used_idx := vq_used_idx vq + 1\<rparr>)"
proof -
  let ?cs = "remove1 c cs" and ?h = "of_nat (hd c) :: u16"
  let ?X = "map ((!) (descs vq)) (concat ?cs)"
  have p: "part vq cs (map ((!) (descs vq)) (concat cs)) []" and lk: "linked (descs vq) c"
    using ok c by (simp_all add: vq_ok_def)
  have p1: "part vq ?cs ?X c"
    using p mset_concat_remove1 [OF c] by (simp add: part_def)
  have ne: "c \<noteq> []" using lk by (simp add: linked_def)
  then have hc: "hd c \<in> set c" by simp
  have h: "hd c < VIRTQ_SIZE" "unat ?h = hd c" "unat (ucast (of_nat (hd c) :: u32) :: u16) = hd c"
  proof -
    show "hd c < VIRTQ_SIZE" using part_held_less(1) [OF p1 hc] partD(3) [OF p] by (simp add: sized_def)
    then have "hd c < 2 ^ 16" by (simp add: VIRTQ_SIZE_def)
    then show "unat ?h = hd c" by (simp add: unat_of_nat_small)
    show "unat (ucast (of_nat (hd c) :: u32) :: u16) = hd c"
      using \<open>hd c < 2 ^ 16\<close> by (simp add: ucast_of_unat unat_of_nat_small)
  qed
  have uh: "(ucast (of_nat (hd c) :: u32) :: u16) = ?h" using h by (simp add: word_unat_eq_iff)
  let ?vq1 = "vq\<lparr>vq_data := (vq_data vq)[hd c := NULL]\<rparr>"
  have s: "set_data ?h NULL vq = Inr ?vq1" "length (vq_data vq) = VIRTQ_SIZE"
    using h partD(3) [OF p] by (simp_all add: set_data_def sized_def)
  have p2: "part ?vq1 ?cs ?X c" using p1 by (simp add: part_def sized_def)
  have "linked (descs ?vq1) c" using lk by simp
  then obtain vq2 where r: "release_loop ?h ?vq1 = Some (Inr vq2)" "part vq2 ?cs ?X []" "core vq2 = core ?vq1"
      "unat (num_free vq2) = unat (num_free ?vq1) + length c"
    using release_loop_ok [OF p2] by blast
  let ?vq' = "vq2\<lparr>vq_used_idx := vq_used_idx vq2 + 1\<rparr>"
  have "take_used vq = Inr ((vq_data vq ! hd c, len), ?vq')"
    using avail_slot(2) [OF partD(3) [OF p]] used s h r(1)
    by (simp add: take_used_def uh release_chain_def)
  moreover have "vq_ok ?vq' ?cs"
  proof -
    have X: "map ((!) (descs vq2)) (concat ?cs) = ?X" using r(2) by (simp only: part_def)
    have "\<forall>c\<in>set ?cs. linked (descs vq) c"
      using ok by (auto simp: vq_ok_def dest: notin_set_remove1)
    then have "\<forall>c\<in>set ?cs. linked (descs vq2) c" by (rule linked_keep [OF X])
    moreover have "part ?vq' ?cs (map ((!) (descs vq2)) (concat ?cs)) []"
      using r(2) by (simp add: part_def sized_def)
    ultimately show ?thesis by (simp add: vq_ok_def)
  qed
  moreover have "map ((!) (descs ?vq')) (concat ?cs) = ?X"
    using r(2) by (simp add: part_def)
  moreover have "core ?vq' = core (vq\<lparr>vq_data := (vq_data vq)[hd c := NULL], vq_used_idx := vq_used_idx vq + 1\<rparr>)"
    using r(3) core_eqD(4) [OF r(3)] by (simp only: core_upd) simp
  ultimately show ?thesis using r(4) by auto
qed

end
