(* ===== verification/Virtio.thy ===== *)
theory Virtio
  imports Virtq
begin

text \<open>
  The memory-mapped transport, \<^verbatim>\<open>src/hal/virtio/virtio_mmio.c\<close> with \<^verbatim>\<open>device.h\<close>. A register access may change the
  device, so reads and writes of registers are parameters of the model, functions on a state that also
  holds the heap. Barriers have no effect of their own.
\<close>

section \<open>Registers and bits\<close>

definition VIRTIO_MMIO_MAGIC :: u32 where "VIRTIO_MMIO_MAGIC = 0x74726976"
definition VIRTIO_MMIO_VERSION :: u32 where "VIRTIO_MMIO_VERSION = 2"

definition VIRTIO_REG_MAGIC_VALUE :: u32 where "VIRTIO_REG_MAGIC_VALUE = 0x000"
definition VIRTIO_REG_VERSION :: u32 where "VIRTIO_REG_VERSION = 0x004"
definition VIRTIO_REG_DEVICE_ID :: u32 where "VIRTIO_REG_DEVICE_ID = 0x008"
definition VIRTIO_REG_VENDOR_ID :: u32 where "VIRTIO_REG_VENDOR_ID = 0x00c"
definition VIRTIO_REG_DEVICE_FEATURES :: u32 where "VIRTIO_REG_DEVICE_FEATURES = 0x010"
definition VIRTIO_REG_DRIVER_FEATURES :: u32 where "VIRTIO_REG_DRIVER_FEATURES = 0x020"
definition VIRTIO_REG_QUEUE_SEL :: u32 where "VIRTIO_REG_QUEUE_SEL = 0x030"
definition VIRTIO_REG_QUEUE_NUM_MAX :: u32 where "VIRTIO_REG_QUEUE_NUM_MAX = 0x034"
definition VIRTIO_REG_QUEUE_NUM :: u32 where "VIRTIO_REG_QUEUE_NUM = 0x038"
definition VIRTIO_REG_QUEUE_READY :: u32 where "VIRTIO_REG_QUEUE_READY = 0x044"
definition VIRTIO_REG_QUEUE_NOTIFY :: u32 where "VIRTIO_REG_QUEUE_NOTIFY = 0x050"
definition VIRTIO_REG_INT_STATUS :: u32 where "VIRTIO_REG_INT_STATUS = 0x060"
definition VIRTIO_REG_INT_ACK :: u32 where "VIRTIO_REG_INT_ACK = 0x064"
definition VIRTIO_REG_STATUS :: u32 where "VIRTIO_REG_STATUS = 0x070"
definition VIRTIO_REG_QUEUE_DESC_LO :: u32 where "VIRTIO_REG_QUEUE_DESC_LO = 0x080"
definition VIRTIO_REG_QUEUE_DESC_HI :: u32 where "VIRTIO_REG_QUEUE_DESC_HI = 0x084"
definition VIRTIO_REG_QUEUE_AVAIL_LO :: u32 where "VIRTIO_REG_QUEUE_AVAIL_LO = 0x090"
definition VIRTIO_REG_QUEUE_AVAIL_HI :: u32 where "VIRTIO_REG_QUEUE_AVAIL_HI = 0x094"
definition VIRTIO_REG_QUEUE_USED_LO :: u32 where "VIRTIO_REG_QUEUE_USED_LO = 0x0a0"
definition VIRTIO_REG_QUEUE_USED_HI :: u32 where "VIRTIO_REG_QUEUE_USED_HI = 0x0a4"
definition VIRTIO_REG_CONFIG_GEN :: u32 where "VIRTIO_REG_CONFIG_GEN = 0x0fc"
definition VIRTIO_REG_CONFIG :: u32 where "VIRTIO_REG_CONFIG = 0x100"

definition VIRTIO_DEVICE_TYPE_DISK :: u32 where "VIRTIO_DEVICE_TYPE_DISK = 2"

definition VIRTIO_CONFIG_S_ACKNOWLEDGE :: u32 where "VIRTIO_CONFIG_S_ACKNOWLEDGE = push_bit 0 1"
definition VIRTIO_CONFIG_S_DRIVER :: u32 where "VIRTIO_CONFIG_S_DRIVER = push_bit 1 1"
definition VIRTIO_CONFIG_S_DRIVER_OK :: u32 where "VIRTIO_CONFIG_S_DRIVER_OK = push_bit 2 1"
definition VIRTIO_CONFIG_S_FEATURES_OK :: u32 where "VIRTIO_CONFIG_S_FEATURES_OK = push_bit 3 1"
definition VIRTIO_CONFIG_S_FAILED :: u32 where "VIRTIO_CONFIG_S_FAILED = push_bit 7 1"

definition VIRTIO_BLK_F_RO :: u32 where "VIRTIO_BLK_F_RO = push_bit 5 1"
definition VIRTIO_BLK_F_SCSI :: u32 where "VIRTIO_BLK_F_SCSI = push_bit 7 1"
definition VIRTIO_BLK_F_CONFIG_WCE :: u32 where "VIRTIO_BLK_F_CONFIG_WCE = push_bit 11 1"
definition VIRTIO_BLK_F_MQ :: u32 where "VIRTIO_BLK_F_MQ = push_bit 12 1"
definition VIRTIO_F_ANY_LAYOUT :: u32 where "VIRTIO_F_ANY_LAYOUT = push_bit 27 1"
definition VIRTIO_RING_F_INDIRECT_DESC :: u32 where "VIRTIO_RING_F_INDIRECT_DESC = push_bit 28 1"
definition VIRTIO_RING_F_EVENT_IDX :: u32 where "VIRTIO_RING_F_EVENT_IDX = push_bit 29 1"

section \<open>State\<close>

record 'w mmio =
  mmio_read32 :: "addr \<Rightarrow> 'w \<Rightarrow> u32 \<times> 'w"
  mmio_write32 :: "addr \<Rightarrow> u32 \<Rightarrow> 'w \<Rightarrow> 'w"
  vio_kmalloc :: "u64 \<Rightarrow> 'w \<Rightarrow> addr \<times> 'w"
  vio_kfree :: "addr \<Rightarrow> 'w \<Rightarrow> 'w"

record virtio_device =
  v_lock :: spinlock
  v_regs :: addr
  v_irqno :: u32
  v_device_id :: u32
  v_vendor_id :: u32
  negotiated_features :: u32
  v_vqs :: "(addr \<times> virtq) option list"
  num_vqs :: u32
  polling_mode :: bool

text \<open>A device cleared by \<^verbatim>\<open>kzalloc\<close>.\<close>

definition zero_device :: virtio_device where
  "zero_device = \<lparr>v_lock = \<lparr>lock_name = '''', locked = 0, owner = 0\<rparr>, v_regs = NULL, v_irqno = 0, v_device_id = 0,
     v_vendor_id = 0, negotiated_features = 0, v_vqs = replicate 8 None, num_vqs = 0, polling_mode = False\<rparr>"

section \<open>Operations\<close>

definition virtio_read_reg :: "'w mmio \<Rightarrow> virtio_device \<Rightarrow> u32 \<Rightarrow> 'w \<Rightarrow> u32 \<times> 'w" where
  "virtio_read_reg M dev offset w = mmio_read32 M (v_regs dev + ucast offset) w"

definition virtio_write_reg :: "'w mmio \<Rightarrow> virtio_device \<Rightarrow> u32 \<Rightarrow> u32 \<Rightarrow> 'w \<Rightarrow> 'w" where
  "virtio_write_reg M dev offset val w = mmio_write32 M (v_regs dev + ucast offset) val w"

definition virtio_set_status :: "'w mmio \<Rightarrow> virtio_device \<Rightarrow> u32 \<Rightarrow> 'w \<Rightarrow> 'w" where
  "virtio_set_status M dev status w = virtio_write_reg M dev VIRTIO_REG_STATUS status w"

definition virtio_get_status :: "'w mmio \<Rightarrow> virtio_device \<Rightarrow> 'w \<Rightarrow> u32 \<times> 'w" where
  "virtio_get_status M dev w = virtio_read_reg M dev VIRTIO_REG_STATUS w"

definition virtio_mmio_probe :: "'w mmio \<Rightarrow> addr \<Rightarrow> 'w \<Rightarrow> int \<times> 'w" where
  "virtio_mmio_probe M regs w =
     (let (magic, w) = mmio_read32 M (regs + ucast VIRTIO_REG_MAGIC_VALUE) w;
          (version, w) = mmio_read32 M (regs + ucast VIRTIO_REG_VERSION) w;
          (device_id, w) = mmio_read32 M (regs + ucast VIRTIO_REG_DEVICE_ID) w;
          (vendor_id, w) = mmio_read32 M (regs + ucast VIRTIO_REG_VENDOR_ID) w
      in if magic \<noteq> VIRTIO_MMIO_MAGIC then (- 1, w)
         else if version \<noteq> VIRTIO_MMIO_VERSION then (- 1, w)
         else if device_id = 0 then (- 1, w)
         else (0, w))"

definition virtio_mmio_init :: "'w mmio \<Rightarrow> virtio_device \<Rightarrow> 'w \<Rightarrow> int \<times> virtio_device \<times> 'w" where
  "virtio_mmio_init M dev w =
     (let w = virtio_set_status M dev 0 w;
          w = virtio_set_status M dev VIRTIO_CONFIG_S_ACKNOWLEDGE w;
          (s, w) = virtio_get_status M dev w
      in if s AND VIRTIO_CONFIG_S_ACKNOWLEDGE = 0 then (- 1, dev, w)
         else
           let w = virtio_set_status M dev (VIRTIO_CONFIG_S_ACKNOWLEDGE OR VIRTIO_CONFIG_S_DRIVER) w;
               (s, w) = virtio_get_status M dev w
           in if s AND VIRTIO_CONFIG_S_DRIVER = 0 then (- 1, dev, w)
              else
                let (device_id, w) = virtio_read_reg M dev VIRTIO_REG_DEVICE_ID w;
                    (vendor_id, w) = virtio_read_reg M dev VIRTIO_REG_VENDOR_ID w
                in (0, dev\<lparr>v_device_id := device_id, v_vendor_id := vendor_id\<rparr>, w))"

definition virtio_negotiate_features ::
  "'w mmio \<Rightarrow> virtio_device \<Rightarrow> u32 \<Rightarrow> u32 \<Rightarrow> 'w \<Rightarrow> int \<times> virtio_device \<times> 'w" where
  "virtio_negotiate_features M dev required rejected w =
     (let (device_features, w) = virtio_read_reg M dev VIRTIO_REG_DEVICE_FEATURES w;
          driver_features = device_features AND NOT rejected;
          driver_features = driver_features OR required;
          w = virtio_write_reg M dev VIRTIO_REG_DRIVER_FEATURES driver_features w;
          dev = dev\<lparr>negotiated_features := driver_features\<rparr>;
          (s, w) = virtio_get_status M dev w;
          w = virtio_set_status M dev (s OR VIRTIO_CONFIG_S_FEATURES_OK) w;
          (status, w) = virtio_get_status M dev w
      in if status AND VIRTIO_CONFIG_S_FEATURES_OK = 0
         then (- 1, dev, virtio_set_status M dev VIRTIO_CONFIG_S_FAILED w)
         else (0, dev, w))"

text \<open>The low and the high half of an address, written to two registers.\<close>

definition write_pa :: "'w mmio \<Rightarrow> virtio_device \<Rightarrow> u32 \<Rightarrow> u32 \<Rightarrow> addr \<Rightarrow> 'w \<Rightarrow> 'w" where
  "write_pa M dev lo hi pa w =
     virtio_write_reg M dev hi (ucast (drop_bit 32 pa)) (virtio_write_reg M dev lo (ucast (pa AND 0xFFFFFFFF)) w)"

definition virtio_setup_vq ::
  "'w mmio \<Rightarrow> virtio_device \<Rightarrow> u32 \<Rightarrow> u16 \<Rightarrow> 'w \<Rightarrow> (int \<times> virtio_device \<times> 'w) res" where
  "virtio_setup_vq M dev vq_idx num w =
     (if 8 \<le> vq_idx then Inr (- 1, dev, w)
      else
        let w = virtio_write_reg M dev VIRTIO_REG_QUEUE_SEL vq_idx w;
            (max_num, w) = virtio_read_reg M dev VIRTIO_REG_QUEUE_NUM_MAX w;
            num = (if max_num < ucast num then ucast max_num else num)
        in if num = 0 then Inr (- 1, dev, w)
           else
             rbind (virtq_create (vio_kmalloc M) (vio_kfree M) (v_regs dev) (ucast vq_idx) num w) (\<lambda>(r, w).
               case r of
                 None \<Rightarrow> Inr (- 1, dev, w)
               | Some (p, vq) \<Rightarrow>
                   let w = virtio_write_reg M dev VIRTIO_REG_QUEUE_NUM (ucast num) w;
                       w = write_pa M dev VIRTIO_REG_QUEUE_DESC_LO VIRTIO_REG_QUEUE_DESC_HI (descs_ptr vq) w;
                       w = write_pa M dev VIRTIO_REG_QUEUE_AVAIL_LO VIRTIO_REG_QUEUE_AVAIL_HI (avail_ptr vq) w;
                       w = write_pa M dev VIRTIO_REG_QUEUE_USED_LO VIRTIO_REG_QUEUE_USED_HI (used_ptr vq) w;
                       w = virtio_write_reg M dev VIRTIO_REG_QUEUE_READY 1 w
                   in Inr (0, dev\<lparr>v_vqs := (v_vqs dev)[unat vq_idx := Some (p, vq)], num_vqs := num_vqs dev + 1\<rparr>, w)))"

definition virtio_irq_handler :: "'w mmio \<Rightarrow> virtio_device \<Rightarrow> 'w \<Rightarrow> 'w" where
  "virtio_irq_handler M dev w =
     (let (status, w) = virtio_read_reg M dev VIRTIO_REG_INT_STATUS w
      in virtio_write_reg M dev VIRTIO_REG_INT_ACK status w)"

text \<open>The configuration is read again while its generation changes; \<open>None\<close> is a loop that never ends.\<close>

partial_function (option) read_config_loop :: "'w mmio \<Rightarrow> virtio_device \<Rightarrow> u32 \<Rightarrow> 'w \<Rightarrow> (u32 \<times> 'w) option" where
  "read_config_loop M dev offset w =
     (let (old_gen, w) = virtio_read_reg M dev VIRTIO_REG_CONFIG_GEN w;
          (val, w) = virtio_read_reg M dev (VIRTIO_REG_CONFIG + offset) w;
          (new_gen, w) = virtio_read_reg M dev VIRTIO_REG_CONFIG_GEN w
      in if old_gen \<noteq> new_gen then read_config_loop M dev offset w else Some (val, w))"

definition virtio_read_config :: "'w mmio \<Rightarrow> virtio_device \<Rightarrow> u32 \<Rightarrow> 'w \<Rightarrow> (u32 \<times> 'w) res" where
  "virtio_read_config M dev offset w =
     (case read_config_loop M dev offset w of None \<Rightarrow> Inl Spin | Some r \<Rightarrow> Inr r)"

definition virtio_write_config :: "'w mmio \<Rightarrow> virtio_device \<Rightarrow> u32 \<Rightarrow> u32 \<Rightarrow> 'w \<Rightarrow> 'w" where
  "virtio_write_config M dev offset val w = virtio_write_reg M dev (VIRTIO_REG_CONFIG + offset) val w"

end
