(* ===== verification/Virtio_Blk.thy ===== *)
theory Virtio_Blk
  imports Virtio
begin

text \<open>
  The block driver, \<^verbatim>\<open>src/hal/virtio/virtio_blk.c\<close>. A request is a record in memory, found by its address; the
  device answers by changing the used ring and the status byte of the request. What it does, and when, is
  the parameter \<open>tick\<close>, applied before each turn of the loop that waits for it.
\<close>

definition VIRTIO_BLK_T_IN :: u32 where "VIRTIO_BLK_T_IN = 0"
definition VIRTIO_BLK_T_OUT :: u32 where "VIRTIO_BLK_T_OUT = 1"
definition VIRTIO_BLK_S_OK :: u8 where "VIRTIO_BLK_S_OK = 0"
definition VIRTIO_BLK_S_IOERR :: u8 where "VIRTIO_BLK_S_IOERR = 1"

text \<open>Offsets in \<^verbatim>\<open>struct virtio_blk_request\<close>: the header is first, the status byte follows the data pointer.\<close>

definition sizeof_blk_req :: u32 where "sizeof_blk_req = 16"
definition req_status_offset :: u64 where "req_status_offset = 24"
definition sizeof_virtio_blk_request :: u64 where "sizeof_virtio_blk_request = 40"
definition sizeof_virtio_blk_device :: u64 where "sizeof_virtio_blk_device = 200"

record virtio_blk_request =
  hdr_type :: u32
  hdr_reserved :: u32
  hdr_sector :: u64
  req_data :: addr
  req_status :: u8
  req_nsectors :: u32
  req_completed :: bool

record virtio_blk_device =
  vb_vdev :: virtio_device
  vb_capacity :: u64
  vb_block_size :: u32

record 'w vblk =
  vb_cpu :: hart
  vb_dev :: virtio_blk_device
  vb_reqs :: "addr \<Rightarrow> virtio_blk_request"
  vb_world :: 'w

section \<open>The queue of the driver\<close>

definition blk_vq :: "'w vblk \<Rightarrow> virtq option" where
  "blk_vq st = (case v_vqs (vb_vdev (vb_dev st)) ! 0 of None \<Rightarrow> None | Some (p, vq) \<Rightarrow> Some vq)"

definition set_blk_vq :: "virtq \<Rightarrow> 'w vblk \<Rightarrow> 'w vblk" where
  "set_blk_vq vq st =
     (let d = vb_dev st; v = vb_vdev d
      in st\<lparr>vb_dev := d\<lparr>vb_vdev := v\<lparr>v_vqs := (v_vqs v)[0 := map_option (\<lambda>(p, _). (p, vq)) (v_vqs v ! 0)]\<rparr>\<rparr>\<rparr>)"

definition upd_req :: "addr \<Rightarrow> (virtio_blk_request \<Rightarrow> virtio_blk_request) \<Rightarrow> 'w vblk \<Rightarrow> 'w vblk" where
  "upd_req p f st = st\<lparr>vb_reqs := (vb_reqs st)(p := f (vb_reqs st p))\<rparr>"

text \<open>Take one finished chain, when there is one, and mark its request completed.\<close>

definition reap :: "'w vblk \<Rightarrow> 'w vblk res" where
  "reap st =
     (case blk_vq st of
        None \<Rightarrow> Inl Null_Deref
      | Some vq \<Rightarrow>
          if virtq_has_buf vq then
            rbind (virtq_get_buf (vb_cpu st, vq)) (\<lambda>((done_req, len), c, vq).
              let st = set_blk_vq vq (st\<lparr>vb_cpu := c\<rparr>)
              in Inr (if done_req \<noteq> NULL then upd_req done_req (\<lambda>r. r\<lparr>req_completed := True\<rparr>) st else st))
          else Inr st)"

section \<open>Transfers\<close>

partial_function (option) wait_loop :: "('w vblk \<Rightarrow> 'w vblk) \<Rightarrow> addr \<Rightarrow> 'w vblk \<Rightarrow> 'w vblk res option" where
  "wait_loop tick req st =
     (if req_completed (vb_reqs st req) then Some (Inr st)
      else case reap (tick st) of Inl e \<Rightarrow> Some (Inl e) | Inr st \<Rightarrow> wait_loop tick req st)"

definition wait_completed :: "('w vblk \<Rightarrow> 'w vblk) \<Rightarrow> addr \<Rightarrow> 'w vblk \<Rightarrow> 'w vblk res" where
  "wait_completed tick req st = (case wait_loop tick req st of None \<Rightarrow> Inl Spin | Some r \<Rightarrow> r)"

definition rw_in_bufs :: "addr \<Rightarrow> virtq_buf list" where
  "rw_in_bufs req = [\<lparr>vb_addr = req, vb_len = sizeof_blk_req\<rparr>]"

definition rw_out_bufs :: "addr \<Rightarrow> addr \<Rightarrow> u32 \<Rightarrow> bool \<Rightarrow> virtq_buf list" where
  "rw_out_bufs req buf nsectors is_write =
     (if is_write
      then [\<lparr>vb_addr = buf, vb_len = nsectors * of_nat BLOCK_SIZE\<rparr>, \<lparr>vb_addr = req + req_status_offset, vb_len = 1\<rparr>]
      else [\<lparr>vb_addr = buf, vb_len = nsectors * of_nat BLOCK_SIZE\<rparr>, \<lparr>vb_addr = req + req_status_offset, vb_len = 1\<rparr>])"

definition virtio_blk_rw_internal ::
  "'w mmio \<Rightarrow> ('w vblk \<Rightarrow> 'w vblk) \<Rightarrow> u64 \<Rightarrow> addr \<Rightarrow> u32 \<Rightarrow> bool \<Rightarrow> 'w vblk \<Rightarrow> (int \<times> 'w vblk) res" where
  "virtio_blk_rw_internal M tick sector buf nsectors is_write st =
     (case blk_vq st of
        None \<Rightarrow> Inr (- 1, st)
      | Some vq \<Rightarrow>
          if vb_capacity (vb_dev st) < sector + ucast nsectors then Inr (- 1, st)
          else
            let (req, w) = vio_kmalloc M sizeof_virtio_blk_request (vb_world st);
                st = st\<lparr>vb_world := w\<rparr>
            in if req = NULL then Inr (- 1, st)
               else
                 let st = upd_req req (\<lambda>_. \<lparr>hdr_type = (if is_write then VIRTIO_BLK_T_OUT else VIRTIO_BLK_T_IN),
                        hdr_reserved = 0, hdr_sector = sector, req_data = buf, req_status = VIRTIO_BLK_S_IOERR,
                        req_nsectors = nsectors, req_completed = False\<rparr>) st
                 in rbind (virtq_add_buf (rw_in_bufs req) (rw_out_bufs req buf nsectors is_write) req (vb_cpu st, vq)) (\<lambda>(idx, c, vq).
                    let st = set_blk_vq vq (st\<lparr>vb_cpu := c\<rparr>)
                    in if idx < 0 then Inr (- 1, st\<lparr>vb_world := vio_kfree M req (vb_world st)\<rparr>)
                       else
                         let st = st\<lparr>vb_world := virtq_kick (\<lambda>q. virtio_write_reg M (vb_vdev (vb_dev st)) VIRTIO_REG_QUEUE_NOTIFY (ucast q))
                                      vq (vb_world st)\<rparr>
                         in rbind (wait_completed tick req st) (\<lambda>st.
                              let ret = (if req_status (vb_reqs st req) \<noteq> VIRTIO_BLK_S_OK then - 1 else 0)
                              in Inr (ret, st\<lparr>vb_world := vio_kfree M req (vb_world st)\<rparr>))))"

definition virtio_blk_read ::
  "'w mmio \<Rightarrow> ('w vblk \<Rightarrow> 'w vblk) \<Rightarrow> u64 \<Rightarrow> addr \<Rightarrow> u32 \<Rightarrow> 'w vblk \<Rightarrow> (int \<times> 'w vblk) res" where
  "virtio_blk_read M tick sector buf nsectors st = virtio_blk_rw_internal M tick sector buf nsectors False st"

definition virtio_blk_write ::
  "'w mmio \<Rightarrow> ('w vblk \<Rightarrow> 'w vblk) \<Rightarrow> u64 \<Rightarrow> addr \<Rightarrow> u32 \<Rightarrow> 'w vblk \<Rightarrow> (int \<times> 'w vblk) res" where
  "virtio_blk_write M tick sector buf nsectors st = virtio_blk_rw_internal M tick sector buf nsectors True st"

definition virtio_blk_flush :: "'w vblk \<Rightarrow> int \<times> 'w vblk" where
  "virtio_blk_flush st = (0, st)"

definition virtio_blk_capacity :: "'w vblk \<Rightarrow> u64" where
  "virtio_blk_capacity st = vb_capacity (vb_dev st)"

definition virtio_blk_block_size :: "'w vblk \<Rightarrow> u32" where
  "virtio_blk_block_size st = vb_block_size (vb_dev st)"

section \<open>The interrupt handler\<close>

partial_function (option) reap_loop :: "'w vblk \<Rightarrow> 'w vblk res option" where
  "reap_loop st =
     (case blk_vq st of
        None \<Rightarrow> Some (Inr st)
      | Some vq \<Rightarrow>
          if virtq_has_buf vq then (case reap st of Inl e \<Rightarrow> Some (Inl e) | Inr st \<Rightarrow> reap_loop st)
          else Some (Inr st))"

text \<open>Before \<^verbatim>\<open>virtio_blk_init\<close> the static pointer is NULL.\<close>

definition virtio_blk_isr :: "'w mmio \<Rightarrow> 'w vblk option \<Rightarrow> 'w vblk option res" where
  "virtio_blk_isr M virtio_blk =
     (case virtio_blk of
        None \<Rightarrow> Inr None
      | Some st \<Rightarrow>
          let st = st\<lparr>vb_world := virtio_irq_handler M (vb_vdev (vb_dev st)) (vb_world st)\<rparr>
          in (case reap_loop st of None \<Rightarrow> Inl Spin | Some r \<Rightarrow> rbind r (\<lambda>st. Inr (Some st))))"

section \<open>Initialisation\<close>

definition VIRTIO_MMIO_0_ADDR :: addr where "VIRTIO_MMIO_0_ADDR = 0x10001000"
definition VIRTIO_MMIO_0_IRQ :: u32 where "VIRTIO_MMIO_0_IRQ = 1"

definition blk_rejected_features :: u32 where
  "blk_rejected_features =
     VIRTIO_BLK_F_RO OR VIRTIO_BLK_F_SCSI OR VIRTIO_BLK_F_CONFIG_WCE OR VIRTIO_BLK_F_MQ OR VIRTIO_F_ANY_LAYOUT OR
     VIRTIO_RING_F_INDIRECT_DESC OR VIRTIO_RING_F_EVENT_IDX"

text \<open>
  \<open>register\<close> is the call of \<^verbatim>\<open>blk_register\<close>, an operation of theory \<open>Blk\<close> on the registry, here on the same
  world as the registers. The result is the return value and what the static pointer \<^verbatim>\<open>virtio_blk\<close> refers to:
  \<open>None\<close> while it is NULL. The error paths free the structure and leave the pointer as it is.
\<close>

definition virtio_blk_init ::
  "'w mmio \<Rightarrow> (addr \<Rightarrow> 'w \<Rightarrow> int \<times> 'w) \<Rightarrow> hart \<Rightarrow> (addr \<Rightarrow> virtio_blk_request) \<Rightarrow> 'w \<Rightarrow> (int \<times> 'w vblk option \<times> 'w) res" where
  "virtio_blk_init M register c reqs w =
     (let regs = VIRTIO_MMIO_0_ADDR;
          (r, w) = virtio_mmio_probe M regs w
      in if r < 0 then Inr (- 1, None, w)
         else
           let (device_id, w) = mmio_read32 M (regs + ucast VIRTIO_REG_DEVICE_ID) w
           in if device_id \<noteq> VIRTIO_DEVICE_TYPE_DISK then Inr (- 1, None, w)
              else
                let (p, w) = vio_kmalloc M sizeof_virtio_blk_device w
                in if p = NULL then Inr (- 1, None, w)
                   else
                     let dev = zero_device\<lparr>v_regs := regs, v_irqno := VIRTIO_MMIO_0_IRQ,
                                 v_lock := SPINLOCK_INITIALIZER ''virtio_blk'', polling_mode := True\<rparr>;
                         driver = (\<lambda>dev cap size w. \<lparr>vb_cpu = c, vb_dev = \<lparr>vb_vdev = dev, vb_capacity = cap,
                                 vb_block_size = size\<rparr>, vb_reqs = reqs, vb_world = w\<rparr>);
                         failed = (\<lambda>dev cap size w. let w = vio_kfree M p w in (- 1, Some (driver dev cap size w), w));
                         (r, dev, w) = virtio_mmio_init M dev w
                     in if r < 0 then Inr (failed dev 0 0 w)
                        else
                          let (r, dev, w) = virtio_negotiate_features M dev 0 blk_rejected_features w
                          in if r < 0 then Inr (failed dev 0 0 w)
                             else
                               rbind (virtio_setup_vq M dev 0 (of_nat VIRTQ_SIZE) w) (\<lambda>(r, dev, w).
                               if r < 0 then Inr (failed dev 0 0 w)
                               else
                                 rbind (virtio_read_config M dev 0 w) (\<lambda>(capacity_lo, w).
                                 rbind (virtio_read_config M dev 4 w) (\<lambda>(capacity_hi, w).
                                 rbind (virtio_read_config M dev 20 w) (\<lambda>(size, w).
                                 let capacity = (push_bit 32 (ucast capacity_hi) OR ucast capacity_lo :: u64);
                                     block_size = (if size = 0 then of_nat BLOCK_SIZE else size);
                                     (s, w) = virtio_get_status M dev w;
                                     w = virtio_set_status M dev (s OR VIRTIO_CONFIG_S_DRIVER_OK) w;
                                     (r, w) = register p w
                                 in if r < 0 then Inr (failed dev capacity block_size w)
                                    else Inr (0, Some (driver dev capacity block_size w), w))))))"

definition virtio_init :: "(int \<times> 'd \<times> 'w) res \<Rightarrow> (int \<times> 'd \<times> 'w) res" where
  "virtio_init blk_init_result =
     rbind blk_init_result (\<lambda>(ret, d, w). Inr (if ret < 0 then (ret, d, w) else (0, d, w)))"

end
