(* ===== verification/Virtio_Properties.thy ===== *)
theory Virtio_Properties
  imports Virtq_Correct Virtio_Blk
begin

text \<open>
  What the virtqueues and the block driver on top of them promise.
\<close>

section \<open>Queues\<close>

definition vq_idle :: "hart \<Rightarrow> virtq \<Rightarrow> bool" where
  "vq_idle c vq \<longleftrightarrow> hart_ok c \<and> lock_free (vq_lock vq)"

lemma vq_ok_lock: "vq_ok vq cs \<Longrightarrow> vq_ok (vq\<lparr>vq_lock := l\<rparr>) cs"
  by (simp add: vq_ok_def part_def sized_def)

text \<open>The device reports the chain that starts at \<open>head\<close> as used, with \<open>len\<close> bytes written.\<close>

definition device_done :: "u16 \<Rightarrow> u32 \<Rightarrow> virtq \<Rightarrow> virtq" where
  "device_done head len vq =
     vq\<lparr>used_ring := (used_ring vq)[unat (used_idx vq mod vq_num vq) := (ucast head, len)], used_idx := used_idx vq + 1\<rparr>"

lemma vq_ok_done: "vq_ok vq cs \<Longrightarrow> vq_ok (device_done h len vq) cs"
  by (simp add: vq_ok_def part_def sized_def device_done_def)

lemma acquire_idle:
  "vq_idle c vq \<Longrightarrow> virtq_acquire (c, vq) = Inr (intr_off c, vq\<lparr>vq_lock := hold c (vq_lock vq)\<rparr>)"
  by (simp add: virtq_acquire_def vq_idle_def lock_simps)

lemma release_held_vq:
  "hart_ok c \<Longrightarrow> vq_lock vq = hold c l \<Longrightarrow> virtq_release (intr_off c, vq) = Inr (leave c, vq\<lparr>vq_lock := unhold l\<rparr>)"
  by (simp add: virtq_release_def lock_simps)

lemma add_buf_full:
  assumes "vq_idle c vq" and "unat (num_free vq) < length ins + length outs"
  shows "virtq_add_buf ins outs token (c, vq) = Inr (- 1, leave c, vq\<lparr>vq_lock := unhold (vq_lock vq)\<rparr>)"
  using assms by (simp add: virtq_add_buf_def acquire_idle release_held_vq vq_idle_def)

lemma add_buf_ok:
  assumes idle: "vq_idle c vq" and ok: "vq_ok vq cs" and n: "ins @ outs \<noteq> []" "length ins + length outs \<le> unat (num_free vq)"
  shows "\<exists>vq' ch. virtq_add_buf ins outs token (c, vq) = Inr (uint (free_head vq), leave c, vq') \<and> vq_ok vq' (ch # cs) \<and>
    hd ch = unat (free_head vq) \<and>
    map (payload (descs vq')) ch = map (buf_payload 0) ins @ map (buf_payload VRING_DESC_F_WRITE) outs \<and>
    map ((!) (descs vq')) (concat cs) = map ((!) (descs vq)) (concat cs) \<and>
    unat (num_free vq') = unat (num_free vq) - (length ins + length outs) \<and>
    core vq' = core (vq\<lparr>vq_data := (vq_data vq)[unat (free_head vq) := token],
      avail_ring := (avail_ring vq)[unat (vq_avail_idx vq mod vq_num vq) := free_head vq],
      vq_avail_idx := vq_avail_idx vq + 1, avail_idx := vq_avail_idx vq + 1, vq_lock := unhold (vq_lock vq)\<rparr>)"
proof -
  let ?l = "hold c (vq_lock vq)"
  have h: "hart_ok c" using idle by (simp add: vq_idle_def)
  have n': "length ins + length outs \<le> unat (num_free (vq\<lparr>vq_lock := ?l\<rparr>))" using n(2) by simp
  obtain vq1 ch where a: "add_chain ins outs token (vq\<lparr>vq_lock := ?l\<rparr>) = Inr (free_head vq, vq1)" "vq_ok vq1 (ch # cs)"
      "hd ch = unat (free_head vq)"
      "map (payload (descs vq1)) ch = map (buf_payload 0) ins @ map (buf_payload VRING_DESC_F_WRITE) outs"
      "map ((!) (descs vq1)) (concat cs) = map ((!) (descs vq)) (concat cs)"
      "unat (num_free vq1) = unat (num_free vq) - (length ins + length outs)"
      "core vq1 = core (vq\<lparr>vq_lock := ?l, vq_data := (vq_data vq)[unat (free_head vq) := token],
        avail_ring := (avail_ring vq)[unat (vq_avail_idx vq mod vq_num vq) := free_head vq],
        vq_avail_idx := vq_avail_idx vq + 1, avail_idx := vq_avail_idx vq + 1\<rparr>)"
    using add_chain_ok [OF vq_ok_lock [OF ok, of ?l] n(1) n', of token] by auto
  have l: "vq_lock vq1 = ?l" using core_eqD(8) [OF a(7)] by simp
  let ?vq' = "vq1\<lparr>vq_lock := unhold (vq_lock vq)\<rparr>"
  have "virtq_add_buf ins outs token (c, vq) = Inr (uint (free_head vq), leave c, ?vq')"
    using n(2) a(1) release_held_vq [OF h l] by (simp add: virtq_add_buf_def acquire_idle [OF idle])
  moreover have "core ?vq' = core (vq\<lparr>vq_data := (vq_data vq)[unat (free_head vq) := token],
      avail_ring := (avail_ring vq)[unat (vq_avail_idx vq mod vq_num vq) := free_head vq],
      vq_avail_idx := vq_avail_idx vq + 1, avail_idx := vq_avail_idx vq + 1, vq_lock := unhold (vq_lock vq)\<rparr>)"
    using a(7) by (simp only: core_upd) simp
  ultimately show ?thesis using a(2-6) vq_ok_lock [OF a(2)] by auto
qed

lemma get_buf_ok:
  assumes idle: "vq_idle c vq" and ok: "vq_ok vq cs" and ch: "ch \<in> set cs" and new: "vq_used_idx vq \<noteq> used_idx vq"
    and used: "used_ring vq ! unat (vq_used_idx vq mod vq_num vq) = (of_nat (hd ch), len)"
  shows "\<exists>vq'. virtq_get_buf (c, vq) = Inr ((vq_data vq ! hd ch, Some len), leave c, vq') \<and> vq_ok vq' (remove1 ch cs) \<and>
    map ((!) (descs vq')) (concat (remove1 ch cs)) = map ((!) (descs vq)) (concat (remove1 ch cs)) \<and>
    unat (num_free vq') = unat (num_free vq) + length ch \<and>
    core vq' = core (vq\<lparr>vq_data := (vq_data vq)[hd ch := NULL], vq_used_idx := vq_used_idx vq + 1,
      vq_lock := unhold (vq_lock vq)\<rparr>)"
proof -
  let ?l = "hold c (vq_lock vq)"
  have h: "hart_ok c" using idle by (simp add: vq_idle_def)
  have used': "used_ring (vq\<lparr>vq_lock := ?l\<rparr>) ! unat (vq_used_idx (vq\<lparr>vq_lock := ?l\<rparr>) mod vq_num (vq\<lparr>vq_lock := ?l\<rparr>)) =
      (of_nat (hd ch), len)" using used by simp
  obtain vq1 where t: "take_used (vq\<lparr>vq_lock := ?l\<rparr>) = Inr ((vq_data vq ! hd ch, len), vq1)" "vq_ok vq1 (remove1 ch cs)"
      "map ((!) (descs vq1)) (concat (remove1 ch cs)) = map ((!) (descs vq)) (concat (remove1 ch cs))"
      "unat (num_free vq1) = unat (num_free vq) + length ch"
      "core vq1 = core (vq\<lparr>vq_lock := ?l, vq_data := (vq_data vq)[hd ch := NULL], vq_used_idx := vq_used_idx vq + 1\<rparr>)"
    using take_used_ok [OF vq_ok_lock [OF ok, of ?l] ch used'] by auto
  have l: "vq_lock vq1 = ?l" using core_eqD(8) [OF t(5)] by simp
  let ?vq' = "vq1\<lparr>vq_lock := unhold (vq_lock vq)\<rparr>"
  have "virtq_get_buf (c, vq) = Inr ((vq_data vq ! hd ch, Some len), leave c, ?vq')"
    using new t(1) release_held_vq [OF h l] by (simp add: virtq_get_buf_def acquire_idle [OF idle])
  moreover have "core ?vq' = core (vq\<lparr>vq_data := (vq_data vq)[hd ch := NULL], vq_used_idx := vq_used_idx vq + 1,
      vq_lock := unhold (vq_lock vq)\<rparr>)"
    using t(5) by (simp only: core_upd) simp
  ultimately show ?thesis using t(2-4) vq_ok_lock [OF t(2)] by auto
qed


lemma created_path:
  fixes n :: nat
  assumes "n \<le> VIRTQ_SIZE" and "k \<le> n" and "\<And>i. i < n - 1 \<Longrightarrow> vd_next (ds ! i) = of_nat (i + 1)"
  shows "free_path ds k (of_nat (n - k)) = [n - k..<n]"
  using assms(2)
proof (induction k)
  case (Suc k)
  have u: "unat (of_nat (n - Suc k) :: u16) = n - Suc k"
    using assms(1) by (intro unat_of_nat_small) (simp add: VIRTQ_SIZE_def)
  have "free_path ds k (vd_next (ds ! (n - Suc k))) = [n - k..<n]"
  proof (cases k)
    case 0
    then show ?thesis by simp
  next
    case (Suc j)
    then have "vd_next (ds ! (n - Suc k)) = of_nat (n - k)"
      using assms(3) [of "n - Suc k"] Suc.prems by (simp add: Suc_diff_Suc)
    then show ?thesis using Suc.IH Suc.prems by simp
  qed
  moreover have "[n - Suc k..<n] = (n - Suc k) # [n - k..<n]"
    using Suc.prems by (simp add: upt_conv_Cons Suc_diff_Suc)
  ultimately show ?case using u by simp
qed simp

lemma ring_layout:
  assumes "num \<noteq> 0" and "unat num \<le> VIRTQ_SIZE"
  shows "ALIGN_UP (sizeof_virtq_desc * ucast num + 2 * (3 + ucast num)) VRING_ALIGN = 4096"
    and "4096 + 6 + 8 * unat num \<le> unat (ALIGN_UP (vring_size num) PAGE_SIZE)"
proof -
  let ?x = "sizeof_virtq_desc * ucast num + 2 * (3 + ucast num) :: u64"
  have "0 < unat num" using assms(1) by (metis neq0_conv unat_eq_0)
  then have n: "1 \<le> unat num" "unat num \<le> 32"
    using assms(2) by (simp_all add: VIRTQ_SIZE_def Suc_le_eq)
  have u: "(ucast num :: u64) = of_nat (unat num)" by simp
  have xv: "?x = of_nat (18 * unat num + 6)" by (simp add: sizeof_virtq_desc_def)
  have x: "unat ?x = 18 * unat num + 6" unfolding xv using n by (intro unat_of_nat_small) simp
  then have s: "unat (?x + 4095) = 18 * unat num + 6 + 4095" using n by (subst unat_add_lem [THEN iffD1]) auto
  have "unat (ALIGN_UP ?x VRING_ALIGN) = unat (ALIGN_DOWN (?x + 4095) (2 ^ 12))"
    by (simp add: ALIGN_UP_def ALIGN_DOWN_def VRING_ALIGN_def algebra_simps)
  also have "\<dots> = (18 * unat num + 6 + 4095) div 4096 * 4096"
    unfolding ALIGN_DOWN_unat s by simp
  also have "\<dots> = 4096"
  proof -
    have "(18 * unat num + 6 + 4095) div 4096 = 1" using n by (intro div_nat_eqI) auto
    then show ?thesis by simp
  qed
  finally show "ALIGN_UP ?x VRING_ALIGN = 4096" by (simp add: word_unat_eq_iff)
  have v: "vring_size num = of_nat (26 * unat num + 12 + 8192)"
    by (simp add: vring_size_def sizeof_virtq_desc_def sizeof_virtq_used_elem_def VRING_ALIGN_def)
  have vu: "unat (vring_size num) = 26 * unat num + 12 + 8192" unfolding v using n by (intro unat_of_nat_small) simp
  have "vring_size num \<le> ALIGN_UP (vring_size num) PAGE_SIZE"
    using vu n by (intro ALIGN_UP_bounds) (simp_all add: PAGE_SIZE_def PAGE_SHIFT_def)
  then show "4096 + 6 + 8 * unat num \<le> unat (ALIGN_UP (vring_size num) PAGE_SIZE)"
    using vu n by (simp add: word_le_nat_alt)
qed

lemma virtq_create_valid:
  assumes "num \<noteq> 0" and "unat num \<le> VIRTQ_SIZE"
    and "KM (ALIGN_UP (vring_size num) PAGE_SIZE) h = (mem, h1)" and "mem \<noteq> NULL"
    and "KM sizeof_virtq h1 = (p, h2)" and "p \<noteq> NULL"
  shows "\<exists>vq. virtq_create KM KF regs q num h = Inr (Some (p, vq), h2) \<and> vq_ok vq [] \<and> num_free vq = num \<and>
    lock_free (vq_lock vq) \<and> \<not> virtq_has_buf vq \<and> descs_ptr vq = mem \<and> used_ptr vq = mem + 4096 \<and>
    4096 + 6 + 8 * unat num \<le> unat (ALIGN_UP (vring_size num) PAGE_SIZE)"
proof -
  let ?n = "unat num"
  let ?d = "\<lambda>i. \<lparr>vd_addr = 0, vd_len = 0, vd_flags = VRING_DESC_F_NEXT, vd_next = of_nat ((i + 1) mod ?n)\<rparr> :: virtq_desc"
  let ?ds = "(map ?d [0..<?n])[?n - 1 := (map ?d [0..<?n] ! (?n - 1))\<lparr>vd_flags := 0, vd_next := 0\<rparr>]"
  obtain vq where vq: "virtq_create KM KF regs q num h = Inr (Some (p, vq), h2)"
      "descs vq = ?ds" "free_head vq = 0" "num_free vq = num" "vq_num vq = num"
      "length (vq_data vq) = VIRTQ_SIZE" "length (avail_ring vq) = ?n" "length (used_ring vq) = ?n"
      "lock_free (vq_lock vq)" "vq_used_idx vq = used_idx vq" "descs_ptr vq = mem" "used_ptr vq = mem + 4096"
    using assms ring_layout(1) [OF assms(1,2)]
    by (simp add: virtq_create_def lock_free_def SPINLOCK_INITIALIZER_def Let_def)
  have pos: "0 < ?n" using assms(1) by (metis neq0_conv unat_eq_0)
  have "free_path (descs vq) ?n (of_nat (?n - ?n)) = [?n - ?n..<?n]"
    using assms(2) pos by (intro created_path) (auto simp: vq(2) nth_list_update)
  then have "vq_ok vq []"
    using vq(2-8) assms(2) pos by (simp add: vq_ok_def part_def sized_def)
  then show ?thesis using vq ring_layout(2) [OF assms(1,2)] by (auto simp: virtq_has_buf_def)
qed

text \<open>
  \<^verbatim>\<open>virtq_create\<close> builds a queue of 1 to 32 descriptors that is well-formed, all of them on the free list, with
  the used ring at the next page of the same allocation and inside of it.
\<close>

theorem virtq_create_ok:
  assumes "num \<noteq> 0" and "unat num \<le> VIRTQ_SIZE"
    and "KM (ALIGN_UP (vring_size num) PAGE_SIZE) h = (mem, h1)" and "mem \<noteq> NULL"
    and "KM sizeof_virtq h1 = (p, h2)" and "p \<noteq> NULL"
  shows "\<exists>vq. virtq_create KM KF regs q num h = Inr (Some (p, vq), h2) \<and> vq_ok vq [] \<and> num_free vq = num \<and>
    lock_free (vq_lock vq) \<and> \<not> virtq_has_buf vq \<and> descs_ptr vq = mem \<and> used_ptr vq = mem + 4096 \<and>
    4096 + 6 + 8 * unat num \<le> unat (ALIGN_UP (vring_size num) PAGE_SIZE)"
  using assms by (rule virtq_create_valid)

theorem virtq_create_ok_witness:
  "\<exists>vq. virtq_create (\<lambda>n h. (h, h + n)) (\<lambda>_ h. h) 0x10001000 0 32 0x1000 =
     Inr (Some (0x1000 + ALIGN_UP (vring_size 32) PAGE_SIZE, vq), 0x1000 + ALIGN_UP (vring_size 32) PAGE_SIZE + sizeof_virtq) \<and>
     vq_ok vq [] \<and> num_free vq = 32"
proof -
  have "0x1000 + ALIGN_UP (vring_size 32) PAGE_SIZE \<noteq> (0 :: u64)" by code_simp
  then show ?thesis
    using virtq_create_ok [of 32 "\<lambda>n h. (h, h + n)" "0x1000" "0x1000" _ _ _ "\<lambda>_ h. h" "0x10001000" 0]
    by (auto simp: VIRTQ_SIZE_def)
qed

lemma queue_roundtrip:
  assumes "hart_ok c" and "lock_free (vq_lock vq)" and "vq_ok vq cs" and "\<not> virtq_has_buf vq" and "ins @ outs \<noteq> []"
    and False: "\<not> unat (num_free vq) < length ins + length outs"
  shows "\<exists>vq1 vq2 ch. virtq_add_buf ins outs token (c, vq) = Inr (uint (free_head vq), leave c, vq1) \<and>
      vq_ok vq1 (ch # cs) \<and> hd ch = unat (free_head vq) \<and>
      map (payload (descs vq1)) ch = map (buf_payload 0) ins @ map (buf_payload VRING_DESC_F_WRITE) outs \<and>
      avail_ring vq1 ! unat (vq_avail_idx vq mod vq_num vq) = free_head vq \<and> avail_idx vq1 = vq_avail_idx vq + 1 \<and>
      unat (num_free vq1) + length ins + length outs = unat (num_free vq) \<and>
      virtq_get_buf (leave c, device_done (free_head vq) len vq1) = Inr ((token, Some len), leave c, vq2) \<and>
      vq_ok vq2 cs \<and> num_free vq2 = num_free vq \<and>
      map ((!) (descs vq2)) (concat cs) = map ((!) (descs vq)) (concat cs)"
proof -
  have idle: "vq_idle c vq" using assms by (simp add: vq_idle_def)
  have sz: "sized vq" using assms(3) by (simp add: vq_ok_def part_def)
  obtain vq1 ch where a: "virtq_add_buf ins outs token (c, vq) = Inr (uint (free_head vq), leave c, vq1)"
      "vq_ok vq1 (ch # cs)" "hd ch = unat (free_head vq)"
      "map (payload (descs vq1)) ch = map (buf_payload 0) ins @ map (buf_payload VRING_DESC_F_WRITE) outs"
      "map ((!) (descs vq1)) (concat cs) = map ((!) (descs vq)) (concat cs)"
      "unat (num_free vq1) = unat (num_free vq) - (length ins + length outs)"
      "core vq1 = core (vq\<lparr>vq_data := (vq_data vq)[unat (free_head vq) := token],
        avail_ring := (avail_ring vq)[unat (vq_avail_idx vq mod vq_num vq) := free_head vq],
        vq_avail_idx := vq_avail_idx vq + 1, avail_idx := vq_avail_idx vq + 1, vq_lock := unhold (vq_lock vq)\<rparr>)"
    using add_buf_ok [OF idle assms(3,5), of token] False by auto
  note e = core_eqD [OF a(7)] arg_cong [OF a(7), of avail_idx, unfolded core_fields]
  have len: "length ch = length ins + length outs" using arg_cong [OF a(4), of length] by simp
  have hd_less: "unat (free_head vq) < VIRTQ_SIZE"
  proof -
    have "linked (descs vq1) ch" using a(2) by (simp add: vq_ok_def)
    then have "hd ch \<in> set ch" by (simp add: linked_def)
    moreover have p1: "part vq1 (ch # cs) (map ((!) (descs vq1)) (concat (ch # cs))) []" using a(2) by (simp add: vq_ok_def)
    ultimately have "hd ch < unat (vq_num vq1)" using partD(2) [OF p1] by auto
    then show ?thesis using partD(3) [OF p1] a(3) by (simp add: sized_def)
  qed
  let ?w = "device_done (free_head vq) len vq1"
  have idx: "vq_used_idx ?w = used_idx vq1" "used_idx ?w = used_idx vq1 + 1" "vq_num ?w = vq_num vq1"
    using e assms(4) by (simp_all add: device_done_def virtq_has_buf_def)
  have sz1: "sized vq1" using a(2) by (simp add: vq_ok_def part_def)
  have "used_ring ?w ! unat (used_idx vq1 mod vq_num vq1) = (ucast (free_head vq), len)"
    using avail_slot(2) [OF sz1] e assms(4) by (simp add: device_done_def virtq_has_buf_def)
  moreover have "(ucast (free_head vq) :: u32) = of_nat (hd ch)" using a(3) by simp
  ultimately have used: "used_ring ?w ! unat (vq_used_idx ?w mod vq_num ?w) = (of_nat (hd ch), len)"
    using idx by simp
  have idle1: "vq_idle (leave c) ?w" using assms(1) e by (simp add: vq_idle_def device_done_def)
  obtain vq2 where g: "virtq_get_buf (leave c, ?w) = Inr ((vq_data ?w ! hd ch, Some len), leave (leave c), vq2)"
      "vq_ok vq2 (remove1 ch (ch # cs))"
      "map ((!) (descs vq2)) (concat (remove1 ch (ch # cs))) = map ((!) (descs ?w)) (concat (remove1 ch (ch # cs)))"
      "unat (num_free vq2) = unat (num_free ?w) + length ch"
    using get_buf_ok [OF idle1 vq_ok_done [OF a(2)] _ _ used] idx by auto
  have "vq_data ?w ! hd ch = token"
    using e a(3) hd_less sz by (simp add: device_done_def sized_def)
  moreover have "num_free vq2 = num_free vq"
    using g(4) a(6) len False by (simp add: device_done_def word_unat_eq_iff)
  moreover have "avail_ring vq1 ! unat (vq_avail_idx vq mod vq_num vq) = free_head vq"
    using e avail_slot(1) [OF sz] by simp
  ultimately show ?thesis
    using False a g e by (simp add: device_done_def) (intro exI [of _ ch], auto)
qed

text \<open>
  C22: What \<^verbatim>\<open>virtq_add_buf\<close> hands to the device comes back. It refuses, changing nothing but the lock, when there
  are fewer free descriptors than buffers. Otherwise it takes that many from the free list, links them in
  order, the first list read-only and the second writable for the device, and publishes the head; when
  the device reports this head, \<^verbatim>\<open>virtq_get_buf\<close> returns the token of the call and all descriptors
  are free again. Every other chain stays as it was throughout.
\<close>

theorem virtq_roundtrip:
  assumes "hart_ok c" and "lock_free (vq_lock vq)" and "vq_ok vq cs" and "\<not> virtq_has_buf vq" and "ins @ outs \<noteq> []"
  shows "if unat (num_free vq) < length ins + length outs
    then virtq_add_buf ins outs token (c, vq) = Inr (- 1, leave c, vq\<lparr>vq_lock := unhold (vq_lock vq)\<rparr>)
    else \<exists>vq1 vq2 ch. virtq_add_buf ins outs token (c, vq) = Inr (uint (free_head vq), leave c, vq1) \<and>
      vq_ok vq1 (ch # cs) \<and> hd ch = unat (free_head vq) \<and>
      map (payload (descs vq1)) ch = map (buf_payload 0) ins @ map (buf_payload VRING_DESC_F_WRITE) outs \<and>
      avail_ring vq1 ! unat (vq_avail_idx vq mod vq_num vq) = free_head vq \<and> avail_idx vq1 = vq_avail_idx vq + 1 \<and>
      unat (num_free vq1) + length ins + length outs = unat (num_free vq) \<and>
      virtq_get_buf (leave c, device_done (free_head vq) len vq1) = Inr ((token, Some len), leave c, vq2) \<and>
      vq_ok vq2 cs \<and> num_free vq2 = num_free vq \<and>
      map ((!) (descs vq2)) (concat cs) = map ((!) (descs vq)) (concat cs)"
  using assms add_buf_full [of c vq ins outs token] queue_roundtrip [of c vq cs ins outs token len]
  by (simp add: vq_idle_def)

definition demo_hart :: hart where
  "demo_hart = \<lparr>tp = 0, sstatus = 2, intr_state = 2, intr_depth = 0\<rparr>"

lemma demo_leave: "hart_ok demo_hart" "leave demo_hart = demo_hart"
  by (simp_all add: demo_hart_def hart_ok_def leave_def)

lemma demo_queue:
  obtains vq where "vq_ok vq []" and "lock_free (vq_lock vq)" and "\<not> virtq_has_buf vq" and "num_free vq = 32"
proof -
  have "0x1000 + ALIGN_UP (vring_size 32) PAGE_SIZE \<noteq> (0 :: u64)" by code_simp
  then obtain p h vq where "virtq_create (\<lambda>n h. (h, h + n)) (\<lambda>_ h. h) 0 0 32 0x1000 = Inr (Some (p, vq), h)"
      "vq_ok vq []" "num_free vq = 32" "lock_free (vq_lock vq)" "\<not> virtq_has_buf vq"
    using virtq_create_valid [of 32 "\<lambda>n h. (h, h + n)" "0x1000" "0x1000" _ _ _ "\<lambda>_ h. h" 0 0]
    by (auto simp: VIRTQ_SIZE_def)
  then show thesis by (intro that)
qed

theorem virtq_roundtrip_witness:
  "\<exists>vq vq1 vq2. num_free vq = 32 \<and>
     virtq_add_buf [\<lparr>vb_addr = 0x5000, vb_len = 16\<rparr>] [] 0x7000 (demo_hart, vq) = Inr (uint (free_head vq), demo_hart, vq1) \<and>
     virtq_get_buf (demo_hart, device_done (free_head vq) 0 vq1) = Inr ((0x7000, Some 0), demo_hart, vq2) \<and> num_free vq2 = 32"
proof -
  obtain vq where vq: "vq_ok vq []" "lock_free (vq_lock vq)" "\<not> virtq_has_buf vq" "num_free vq = 32"
    by (rule demo_queue)
  obtain vq1 vq2 where "virtq_add_buf [\<lparr>vb_addr = 0x5000, vb_len = 16\<rparr>] [] 0x7000 (demo_hart, vq) =
        Inr (uint (free_head vq), demo_hart, vq1)"
      "virtq_get_buf (demo_hart, device_done (free_head vq) 0 vq1) = Inr ((0x7000, Some 0), demo_hart, vq2)" "num_free vq2 = 32"
    using virtq_roundtrip [OF demo_leave(1) vq(2,1,3), of "[\<lparr>vb_addr = 0x5000, vb_len = 16\<rparr>]" "[]" "0x7000" 0]
    by (auto simp: vq(4) demo_leave(2))
  then show ?thesis using vq(4) by blast
qed

section \<open>The block driver\<close>

definition driver_ready :: "'w vblk \<Rightarrow> virtq \<Rightarrow> bool" where
  "driver_ready st vq \<longleftrightarrow> v_vqs (vb_vdev (vb_dev st)) \<noteq> [] \<and> blk_vq st = Some vq \<and> vq_idle (vb_cpu st) vq \<and>
     vq_ok vq [] \<and> \<not> virtq_has_buf vq \<and> 3 \<le> unat (num_free vq)"

text \<open>The device answers the request: it writes the status byte and reports the chain as used.\<close>

definition device_serves :: "u16 \<Rightarrow> u32 \<Rightarrow> u8 \<Rightarrow> addr \<Rightarrow> 'w vblk \<Rightarrow> 'w vblk" where
  "device_serves h len status req st =
     (case blk_vq st of
        None \<Rightarrow> st
      | Some vq \<Rightarrow> upd_req req (\<lambda>r. r\<lparr>req_status := status\<rparr>) (set_blk_vq (device_done h len vq) st))"

lemma get_some_has: "virtq_get_buf (c, vq) = Inr ((t, Some l), s) \<Longrightarrow> virtq_has_buf vq"
  by (auto simp: virtq_get_buf_def virtq_has_buf_def virtq_acquire_def rbind_eq_Inr_iff split: if_splits)

lemma blk_vq_set: "v_vqs (vb_vdev (vb_dev st)) \<noteq> [] \<Longrightarrow> blk_vq st \<noteq> None \<Longrightarrow> blk_vq (set_blk_vq vq st) = Some vq"
  by (auto simp: blk_vq_def set_blk_vq_def Let_def split: option.splits)

lemma blk_vq_cong [simp]:
  "blk_vq (st\<lparr>vb_cpu := c\<rparr>) = blk_vq st" "blk_vq (st\<lparr>vb_world := w\<rparr>) = blk_vq st" "blk_vq (upd_req p f st) = blk_vq st"
  by (simp_all add: blk_vq_def upd_req_def)

lemma set_blk_vq_fields [simp]:
  "vb_cpu (set_blk_vq vq st) = vb_cpu st" "vb_reqs (set_blk_vq vq st) = vb_reqs st"
  "vb_world (set_blk_vq vq st) = vb_world st" "vb_capacity (vb_dev (set_blk_vq vq st)) = vb_capacity (vb_dev st)"
  "v_vqs (vb_vdev (vb_dev (set_blk_vq vq st))) = [] \<longleftrightarrow> v_vqs (vb_vdev (vb_dev st)) = []"
  by (simp_all add: set_blk_vq_def Let_def)

lemma upd_req_fields [simp]:
  "vb_cpu (upd_req p f st) = vb_cpu st" "vb_world (upd_req p f st) = vb_world st" "vb_dev (upd_req p f st) = vb_dev st"
  "vb_reqs (upd_req p f st) p = f (vb_reqs st p)"
  by (simp_all add: upd_req_def)

text \<open>One round of the driver's waiting loop: the device's step shows a used buffer, reaping it completes the request.\<close>

lemma wait_one_round:
  assumes "tick st = st'" "blk_vq st' = Some vq" "virtq_has_buf vq"
    and "virtq_get_buf (vb_cpu st', vq) = Inr ((req, Some len), c, vq')" "req \<noteq> NULL" "\<not> req_completed (vb_reqs st req)"
  shows "wait_completed tick req st =
    Inr (upd_req req (\<lambda>r. r\<lparr>req_completed := True\<rparr>) (set_blk_vq vq' (st'\<lparr>vb_cpu := c\<rparr>)))" (is "_ = Inr ?u")
proof -
  have "reap st' = Inr ?u" using assms by (simp add: reap_def)
  moreover have "req_completed (vb_reqs ?u req)" by simp
  ultimately have "wait_loop tick req st = Some (Inr ?u)"
    using assms by (subst wait_loop.simps, simp, subst wait_loop.simps, simp)
  then show ?thesis by (simp add: wait_completed_def)
qed

text \<open>
  C23: When the device serves the request, a transfer returns 0 exactly if the status is \<^verbatim>\<open>VIRTIO_BLK_S_OK\<close>, and
  leaves the queue with all its descriptors free and the request released. But the chain it hands to the
  device is the same for both directions, apart from the type in the header: the data buffer of a
  write is marked writable for the device (\<^verbatim>\<open>VRING_DESC_F_WRITE\<close>), which the device must only read.
\<close>

theorem virtio_blk_rw_completes:
  assumes ready: "driver_ready st vq" and cap: "sector + ucast n \<le> vb_capacity (vb_dev st)"
    and mem: "vio_kmalloc M sizeof_virtio_blk_request (vb_world st) = (req, w)" "req \<noteq> NULL"
  shows "(\<exists>u vq'. virtio_blk_rw_internal M (device_serves (free_head vq) len status req) sector buf n is_write st =
            Inr (if status = VIRTIO_BLK_S_OK then 0 else - 1, u) \<and>
            blk_vq u = Some vq' \<and> vq_ok vq' [] \<and> num_free vq' = num_free vq \<and> vb_cpu u = leave (vb_cpu st) \<and>
            (\<exists>w'. vb_world u = vio_kfree M req w')) \<and>
         (\<exists>vq1 ch. virtq_add_buf (rw_in_bufs req) (rw_out_bufs req buf n is_write) req (vb_cpu st, vq) =
            Inr (uint (free_head vq), leave (vb_cpu st), vq1) \<and> hd ch = unat (free_head vq) \<and>
            map (payload (descs vq1)) ch =
              [(req, sizeof_blk_req, 0), (buf, n * of_nat BLOCK_SIZE, VRING_DESC_F_WRITE),
               (req + req_status_offset, 1, VRING_DESC_F_WRITE)])"
proof -
  have r: "hart_ok (vb_cpu st)" "lock_free (vq_lock vq)" "vq_ok vq []" "\<not> virtq_has_buf vq" "3 \<le> unat (num_free vq)"
      "blk_vq st = Some vq" "v_vqs (vb_vdev (vb_dev st)) \<noteq> []"
    using ready by (simp_all add: driver_ready_def vq_idle_def)
  let ?ins = "rw_in_bufs req" and ?outs = "rw_out_bufs req buf n is_write"
  have lens: "?ins @ ?outs \<noteq> []" "\<not> unat (num_free vq) < length ?ins + length ?outs"
    using r(5) by (simp_all add: rw_in_bufs_def rw_out_bufs_def)
  obtain vq1 vq2 ch where a: "virtq_add_buf ?ins ?outs req (vb_cpu st, vq) = Inr (uint (free_head vq), leave (vb_cpu st), vq1)"
      "vq_ok vq1 (ch # [])" "hd ch = unat (free_head vq)"
      "map (payload (descs vq1)) ch = map (buf_payload 0) ?ins @ map (buf_payload VRING_DESC_F_WRITE) ?outs"
      "virtq_get_buf (leave (vb_cpu st), device_done (free_head vq) len vq1) = Inr ((req, Some len), leave (vb_cpu st), vq2)"
      "vq_ok vq2 []" "num_free vq2 = num_free vq"
    using queue_roundtrip [OF r(1-4) lens(1), of req len] lens(2) by auto
  have new: "virtq_has_buf (device_done (free_head vq) len vq1)" by (rule get_some_has [OF a(5)])
  let ?req = "\<lparr>hdr_type = (if is_write then VIRTIO_BLK_T_OUT else VIRTIO_BLK_T_IN), hdr_reserved = 0, hdr_sector = sector,
      req_data = buf, req_status = VIRTIO_BLK_S_IOERR, req_nsectors = n, req_completed = False\<rparr>"
  define st2 where "st2 = set_blk_vq vq1 ((upd_req req (\<lambda>_. ?req) (st\<lparr>vb_world := w\<rparr>))\<lparr>vb_cpu := leave (vb_cpu st)\<rparr>)"
  define st3 where "st3 = st2\<lparr>vb_world := virtq_kick (\<lambda>q. virtio_write_reg M (vb_vdev (vb_dev st2)) VIRTIO_REG_QUEUE_NOTIFY (ucast q))
      vq1 w\<rparr>"
  let ?tick = "device_serves (free_head vq) len status req"
  define st4 where "st4 = upd_req req (\<lambda>r. r\<lparr>req_status := status\<rparr>) (set_blk_vq (device_done (free_head vq) len vq1) st3)"
  define st5 where "st5 = upd_req req (\<lambda>r. r\<lparr>req_completed := True\<rparr>) (set_blk_vq vq2 (st4\<lparr>vb_cpu := leave (vb_cpu st)\<rparr>))"
  have vqs: "v_vqs (vb_vdev (vb_dev st2)) \<noteq> []" "v_vqs (vb_vdev (vb_dev st3)) \<noteq> []" "v_vqs (vb_vdev (vb_dev st4)) \<noteq> []"
    using r(7) by (simp_all add: st2_def st3_def st4_def)
  have q2: "blk_vq st2 = Some vq1" unfolding st2_def using r(6,7) by (intro blk_vq_set) simp_all
  have q3: "blk_vq st3 = Some vq1" using q2 by (simp add: st3_def)
  have t: "?tick st3 = st4" by (simp add: device_serves_def q3 st4_def)
  have q4: "blk_vq st4 = Some (device_done (free_head vq) len vq1)"
    unfolding st4_def using vqs(2) q3 by (simp add: blk_vq_set)
  have c4: "vb_cpu st4 = leave (vb_cpu st)" by (simp add: st4_def st3_def st2_def)
  have g4: "virtq_get_buf (vb_cpu st4, device_done (free_head vq) len vq1) = Inr ((req, Some len), leave (vb_cpu st), vq2)"
    by (simp add: c4 a(5))
  have "\<not> req_completed (vb_reqs st3 req)" by (simp add: st3_def st2_def)
  then have wait: "wait_completed ?tick req st3 = Inr st5"
    unfolding st5_def by (rule wait_one_round [where tick = ?tick and st = st3, OF t q4 new g4 mem(2)])
  have "req_status (vb_reqs st5 req) = status" by (simp add: st5_def st4_def)
  moreover have "\<not> vb_capacity (vb_dev st) < sector + ucast n" using cap by simp
  ultimately have "virtio_blk_rw_internal M ?tick sector buf n is_write st =
      Inr (if status = VIRTIO_BLK_S_OK then 0 else - 1, st5\<lparr>vb_world := vio_kfree M req (vb_world st5)\<rparr>)"
    using mem r(6) a(1) wait
    by (simp add: virtio_blk_rw_internal_def st2_def [symmetric] st3_def [symmetric])
  moreover have "blk_vq (st5\<lparr>vb_world := vio_kfree M req (vb_world st5)\<rparr>) = Some vq2"
    unfolding st5_def using vqs(3) q4 by (simp add: blk_vq_set)
  moreover have "vb_cpu (st5\<lparr>vb_world := vio_kfree M req (vb_world st5)\<rparr>) = leave (vb_cpu st)" by (simp add: st5_def)
  moreover have "map (payload (descs vq1)) ch = [(req, sizeof_blk_req, 0), (buf, n * of_nat BLOCK_SIZE, VRING_DESC_F_WRITE),
      (req + req_status_offset, 1, VRING_DESC_F_WRITE)]"
    unfolding a(4) by (simp add: rw_in_bufs_def rw_out_bufs_def buf_payload_def VRING_DESC_F_WRITE_def)
  ultimately show ?thesis using a by fastforce
qed

text \<open>Registers that ignore writes and read as 0, and a heap whose state is the next free address.\<close>

definition demo_mmio :: "u64 mmio" where
  "demo_mmio = \<lparr>mmio_read32 = (\<lambda>_ w. (0, w)), mmio_write32 = (\<lambda>_ _ w. w), vio_kmalloc = (\<lambda>n w. (w, w + n)),
     vio_kfree = (\<lambda>_ w. w)\<rparr>"

theorem virtio_blk_rw_completes_witness:
  "\<exists>st vq u vq1 ch. driver_ready st vq \<and>
     virtio_blk_rw_internal demo_mmio (device_serves (free_head vq) 512 VIRTIO_BLK_S_OK 0x9000) 3 0x5000 1 True st = Inr (0, u) \<and>
     virtq_add_buf (rw_in_bufs 0x9000) (rw_out_bufs 0x9000 0x5000 1 True) 0x9000 (vb_cpu st, vq) = Inr (uint (free_head vq), demo_hart, vq1) \<and>
     map (payload (descs vq1)) ch = [(0x9000, 16, 0), (0x5000, 512, VRING_DESC_F_WRITE), (0x9018, 1, VRING_DESC_F_WRITE)]"
proof -
  obtain vq where vq: "vq_ok vq []" "lock_free (vq_lock vq)" "\<not> virtq_has_buf vq" "num_free vq = 32"
    by (rule demo_queue)
  define st :: "u64 vblk" where "st = \<lparr>vb_cpu = demo_hart, vb_dev = \<lparr>vb_vdev = zero_device\<lparr>v_vqs := [Some (0x8000, vq)]\<rparr>,
      vb_capacity = 100, vb_block_size = 512\<rparr>, vb_reqs = (\<lambda>_. \<lparr>hdr_type = 0, hdr_reserved = 0, hdr_sector = 0,
      req_data = 0, req_status = 0, req_nsectors = 0, req_completed = False\<rparr>), vb_world = 0x9000\<rparr>"
  have r: "driver_ready st vq"
    using vq demo_leave by (simp add: driver_ready_def st_def blk_vq_def vq_idle_def)
  have c: "vb_cpu st = demo_hart" by (simp add: st_def)
  have "3 + ucast (1 :: u32) \<le> vb_capacity (vb_dev st)" by (simp add: st_def)
  moreover have "vio_kmalloc demo_mmio sizeof_virtio_blk_request (vb_world st) = (0x9000, 0x9000 + sizeof_virtio_blk_request)"
    by (simp add: st_def demo_mmio_def)
  ultimately obtain u vq1 ch where "virtio_blk_rw_internal demo_mmio (device_serves (free_head vq) 512 VIRTIO_BLK_S_OK 0x9000)
        3 0x5000 1 True st = Inr (0, u)"
      "virtq_add_buf (rw_in_bufs 0x9000) (rw_out_bufs 0x9000 0x5000 1 True) 0x9000 (vb_cpu st, vq) =
        Inr (uint (free_head vq), demo_hart, vq1)"
      "map (payload (descs vq1)) ch = [(0x9000, 16, 0), (0x5000, 512, VRING_DESC_F_WRITE), (0x9018, 1, VRING_DESC_F_WRITE)]"
    using virtio_blk_rw_completes [OF r, of 3 1 demo_mmio "0x9000" _ 512 VIRTIO_BLK_S_OK "0x5000" True]
    by (simp add: c demo_leave(2) sizeof_blk_req_def req_status_offset_def BLOCK_SIZE_def) (metis (no_types, lifting))
  then show ?thesis using r by (metis (no_types, lifting))
qed

end
