(* ===== verification/Sched.thy ===== *)
theory Sched
  imports Fs_State
begin

text \<open>
  Processes, harts and run queues: the structures of \<^verbatim>\<open>include/task/proc.h\<close>, the scheduler of
  \<^verbatim>\<open>src/task/sched.c\<close> and the register save and load of \<^verbatim>\<open>src/task/switch.S\<close>. A process is known by its address;
  the idle process of a hart is embedded in its \<^verbatim>\<open>struct cpu\<close> and known by its address there. The state
  belongs to the hart that runs the code (\<open>hart\<close>, \<open>regs_of\<close>); the array of harts and the array of run queues
  have \<^verbatim>\<open>CPU_NUM\<close> entries, and an index past their end is \<open>Out_Of_Bounds\<close>. The C functions return into the
  context that was switched to; here they return the state in which it goes on.
\<close>

section \<open>Structures\<close>

text \<open>The registers that \<^verbatim>\<open>context_switch\<close> saves; \<^verbatim>\<open>struct context\<close> adds \<^verbatim>\<open>sstatus\<close>.\<close>

record regs =
  x_ra :: u64
  x_sp :: u64
  x_gp :: u64
  x_s0 :: u64
  x_s1 :: u64
  x_s2 :: u64
  x_s3 :: u64
  x_s4 :: u64
  x_s5 :: u64
  x_s6 :: u64
  x_s7 :: u64
  x_s8 :: u64
  x_s9 :: u64
  x_s10 :: u64
  x_s11 :: u64

record ctxt = regs +
  x_sstatus :: u64

definition PROC_UNUSED :: int where "PROC_UNUSED = 0"
definition PROC_IDLE :: int where "PROC_IDLE = 1"
definition PROC_RUNNABLE :: int where "PROC_RUNNABLE = 2"
definition PROC_RUNNING :: int where "PROC_RUNNING = 3"
definition PROC_SLEEPING :: int where "PROC_SLEEPING = 4"
definition PROC_ZOMBIE :: int where "PROC_ZOMBIE = 5"

lemmas proc_states = PROC_UNUSED_def PROC_IDLE_def PROC_RUNNABLE_def PROC_RUNNING_def PROC_SLEEPING_def PROC_ZOMBIE_def

text \<open>
  \<^verbatim>\<open>struct proc\<close>. The list of memory areas is \<open>None\<close> while its head is still zero. The saved frame \<^verbatim>\<open>ktf\<close> of
  kernel traps is only used through its address (\<open>ktf_of\<close>) and by assembly code.
\<close>

record proc =
  comm :: string
  pid :: int
  tgid :: int
  p_pagetable :: addr
  p_vma :: "addr list option"
  ctx :: ctxt
  p_tf :: addr
  kstack :: addr
  p_state :: int
  p_runq :: link
  p_parent :: addr
  p_children :: "addr list"
  p_sibling :: link
  p_fd_table :: addr
  pwd :: addr
  p_lock :: spinlock

text \<open>\<^verbatim>\<open>struct cpu\<close>; the nesting of its critical sections is in \<open>hart\<close>.\<close>

record cpu =
  cur_proc :: addr
  idle :: addr
  need_resched :: bool
  idle_stack :: addr

record runq =
  queue :: "addr list"
  rq_lock :: spinlock

record sched =
  hart :: hart
  regs_of :: regs
  proc_at :: "addr \<Rightarrow> proc"
  cpus :: "cpu list"
  runqs :: "runq list"

definition upd_proc :: "addr \<Rightarrow> (proc \<Rightarrow> proc) \<Rightarrow> 'a sched_scheme \<Rightarrow> 'a sched_scheme" where
  "upd_proc p g s = s\<lparr>proc_at := (proc_at s)(p := g (proc_at s p))\<rparr>"

definition r_tp :: "'a sched_scheme \<Rightarrow> nat" where
  "r_tp s = unat (tp (hart s))"

definition thiscpu :: "'a sched_scheme \<Rightarrow> cpu" where
  "thiscpu s = cpus s ! r_tp s"

definition upd_thiscpu :: "(cpu \<Rightarrow> cpu) \<Rightarrow> 'a sched_scheme \<Rightarrow> 'a sched_scheme" where
  "upd_thiscpu g s = s\<lparr>cpus := (cpus s)[r_tp s := g (thiscpu s)]\<rparr>"

section \<open>Locks of run queues and processes\<close>

definition lock_runq :: "nat \<Rightarrow> 'a sched_scheme \<Rightarrow> 'a sched_scheme res" where
  "lock_runq h s =
     (if h < length (runqs s) then
        rbind (spinlock_acquire (hart s, rq_lock (runqs s ! h)))
          (\<lambda>(c, k). Inr (s\<lparr>hart := c, runqs := (runqs s)[h := (runqs s ! h)\<lparr>rq_lock := k\<rparr>]\<rparr>))
      else Inl Out_Of_Bounds)"

definition unlock_runq :: "nat \<Rightarrow> 'a sched_scheme \<Rightarrow> 'a sched_scheme res" where
  "unlock_runq h s =
     (if h < length (runqs s) then
        rbind (spinlock_release (hart s, rq_lock (runqs s ! h)))
          (\<lambda>(c, k). Inr (s\<lparr>hart := c, runqs := (runqs s)[h := (runqs s ! h)\<lparr>rq_lock := k\<rparr>]\<rparr>))
      else Inl Out_Of_Bounds)"

definition lock_proc :: "addr \<Rightarrow> 'a sched_scheme \<Rightarrow> 'a sched_scheme res" where
  "lock_proc p s =
     rbind (spinlock_acquire (hart s, p_lock (proc_at s p)))
       (\<lambda>(c, k). Inr (upd_proc p (\<lambda>x. x\<lparr>p_lock := k\<rparr>) (s\<lparr>hart := c\<rparr>)))"

definition unlock_proc :: "addr \<Rightarrow> 'a sched_scheme \<Rightarrow> 'a sched_scheme res" where
  "unlock_proc p s =
     rbind (spinlock_release (hart s, p_lock (proc_at s p)))
       (\<lambda>(c, k). Inr (upd_proc p (\<lambda>x. x\<lparr>p_lock := k\<rparr>) (s\<lparr>hart := c\<rparr>)))"

section \<open>Run queues\<close>

definition init_runq :: "'a sched_scheme \<Rightarrow> 'a sched_scheme" where
  "init_runq s = s\<lparr>runqs := map (\<lambda>q. q\<lparr>queue := [], rq_lock := SPINLOCK_INITIALIZER ''runq''\<rparr>) (runqs s)\<rparr>"

definition is_runq_empty :: "nat \<Rightarrow> 'a sched_scheme \<Rightarrow> bool" where
  "is_runq_empty h s \<longleftrightarrow> queue (runqs s ! h) = []"

text \<open>\<^verbatim>\<open>list_add_tail\<close>; a node that is on a list already corrupts it.\<close>

definition enqueue_proc :: "nat \<Rightarrow> addr \<Rightarrow> 'a sched_scheme \<Rightarrow> 'a sched_scheme res" where
  "enqueue_proc h p s =
     rbind (lock_runq h s) (\<lambda>s.
       if p_runq (proc_at s p) = On_List then Inl Bad_List
       else
         let s = upd_proc p (\<lambda>x. x\<lparr>p_runq := On_List\<rparr>) s;
             s = s\<lparr>runqs := (runqs s)[h := (runqs s ! h)\<lparr>queue := queue (runqs s ! h) @ [p]\<rparr>]\<rparr>
         in unlock_runq h s)"

text \<open>The emptiness test comes before the lock; under the lock the first node is taken without a test.\<close>

definition dequeue_proc :: "nat \<Rightarrow> 'a sched_scheme \<Rightarrow> (addr \<times> 'a sched_scheme) res" where
  "dequeue_proc h s =
     (if h \<ge> length (runqs s) then Inl Out_Of_Bounds
      else if is_runq_empty h s then Inr (NULL, s)
      else
        rbind (lock_runq h s) (\<lambda>s.
          case queue (runqs s ! h) of
            [] \<Rightarrow> Inl Bad_List
          | p # ps \<Rightarrow>
              let s = s\<lparr>runqs := (runqs s)[h := (runqs s ! h)\<lparr>queue := ps\<rparr>]\<rparr>;
                  s = upd_proc p (\<lambda>x. x\<lparr>p_runq := Stale\<rparr>) s
              in rbind (unlock_runq h s) (\<lambda>s. Inr (p, s))))"

section \<open>Switching\<close>

text \<open>The saved registers as one store, then the load; the two contexts may be the same.\<close>

definition save_context :: "regs \<Rightarrow> u64 \<Rightarrow> ctxt" where
  "save_context r st = regs.extend r \<lparr>x_sstatus = st\<rparr>"

definition context_switch :: "addr \<Rightarrow> addr \<Rightarrow> 'a sched_scheme \<Rightarrow> 'a sched_scheme" where
  "context_switch old new s =
     (let s = upd_proc old (\<lambda>p. p\<lparr>ctx := save_context (regs_of s) (sstatus (hart s))\<rparr>) s;
          c = ctx (proc_at s new)
      in s\<lparr>regs_of := regs.truncate c, hart := (hart s)\<lparr>sstatus := x_sstatus c\<rparr>\<rparr>)"

definition context_switch_yield :: "addr \<Rightarrow> 'a sched_scheme \<Rightarrow> 'a sched_scheme res" where
  "context_switch_yield old s =
     rbind (dequeue_proc (r_tp s) s) (\<lambda>(n, s).
       let idl = idle (thiscpu s); next = (if n = NULL then idl else n)
       in rbind (lock_proc next s) (\<lambda>s.
            let s = (if next \<noteq> idl then upd_proc next (\<lambda>x. x\<lparr>p_state := PROC_RUNNING\<rparr>) s else s);
                s = upd_thiscpu (\<lambda>c. c\<lparr>cur_proc := next\<rparr>) s
            in rbind (unlock_proc next s) (\<lambda>s. Inr (context_switch old next s))))"

definition sched_yield :: "'a sched_scheme \<Rightarrow> 'a sched_scheme res" where
  "sched_yield s =
     (if r_tp s \<ge> length (cpus s) then Inl Out_Of_Bounds
      else
        let p = cur_proc (thiscpu s)
        in if p = NULL then Inl (Panic ''null proc pointer in sched_yield'')
           else
             rbind (if p_state (proc_at s p) = PROC_RUNNING
                    then enqueue_proc (r_tp s) p (upd_proc p (\<lambda>x. x\<lparr>p_state := PROC_RUNNABLE\<rparr>) s)
                    else Inr s) (\<lambda>s.
               context_switch_yield p (upd_thiscpu (\<lambda>c. c\<lparr>cur_proc := NULL\<rparr>) s)))"

text \<open>
  \<^verbatim>\<open>context_switch_to\<close> loads the registers of a context except \<^verbatim>\<open>gp\<close> and \<^verbatim>\<open>sstatus\<close>; it stores the
  callee-saved registers of the caller into that same context first, so these are loaded back unchanged.
\<close>

definition context_switch_to :: "addr \<Rightarrow> 'a sched_scheme \<Rightarrow> 'a sched_scheme" where
  "context_switch_to new s =
     (let r = regs_of s;
          s = upd_proc new (\<lambda>p. p\<lparr>ctx := regs.extend (r\<lparr>x_ra := x_ra (ctx p), x_sp := x_sp (ctx p), x_gp := x_gp (ctx p)\<rparr>)
                                            \<lparr>x_sstatus = x_sstatus (ctx p)\<rparr>\<rparr>) s
      in s\<lparr>regs_of := (regs.truncate (ctx (proc_at s new)))\<lparr>x_gp := x_gp r\<rparr>\<rparr>)"

end
