(* ===== verification/Atomic.thy ===== *)
theory Atomic
  imports Kernel_Prelude
begin

text \<open>
  The atomic counters of \<^verbatim>\<open>include/sync/atomic.h\<close>. Each operation is one indivisible access, so it is a
  function from the counter to its result and the new counter; the interleavings are those of the callers.
  A counter is a word of its width that the code reads as a signed number; additions wrap around, as the
  built-in functions they call do. The memory orders are not modelled.
\<close>

section \<open>32-bit counters\<close>

type_synonym s32 = "32 word"
type_synonym s64 = "64 word"

definition ATOMIC_INIT :: "int \<Rightarrow> s32" where
  "ATOMIC_INIT i = word_of_int i"

definition atomic_read :: "s32 \<Rightarrow> s32" where
  "atomic_read v = v"

definition atomic_set :: "s32 \<Rightarrow> s32 \<Rightarrow> s32" where
  "atomic_set i v = i"

definition atomic_add_return :: "s32 \<Rightarrow> s32 \<Rightarrow> s32 \<times> s32" where
  "atomic_add_return i v = (v + i, v + i)"

definition atomic_sub_return :: "s32 \<Rightarrow> s32 \<Rightarrow> s32 \<times> s32" where
  "atomic_sub_return i v = (v - i, v - i)"

definition atomic_fetch_add :: "s32 \<Rightarrow> s32 \<Rightarrow> s32 \<times> s32" where
  "atomic_fetch_add i v = (v, v + i)"

definition atomic_inc :: "s32 \<Rightarrow> s32 \<times> s32" where
  "atomic_inc v = atomic_add_return 1 v"

definition atomic_dec :: "s32 \<Rightarrow> s32 \<times> s32" where
  "atomic_dec v = atomic_sub_return 1 v"

text \<open>The compare-and-exchange built-in stores the counter it found in \<^verbatim>\<open>old_val\<close> when it fails.\<close>

definition compare_exchange :: "'a \<Rightarrow> 'a \<Rightarrow> 'a \<Rightarrow> 'a \<times> 'a" where
  "compare_exchange expected new v = (if v = expected then (expected, new) else (v, v))"

definition atomic_cmpxchg :: "s32 \<Rightarrow> s32 \<Rightarrow> s32 \<Rightarrow> s32 \<times> s32" where
  "atomic_cmpxchg old_val new_val v = compare_exchange old_val new_val v"

definition atomic_xchg :: "s32 \<Rightarrow> s32 \<Rightarrow> s32 \<times> s32" where
  "atomic_xchg new_val v = (v, new_val)"

section \<open>64-bit counters\<close>

definition ATOMIC64_INIT :: "int \<Rightarrow> s64" where
  "ATOMIC64_INIT i = word_of_int i"

definition atomic64_read :: "s64 \<Rightarrow> s64" where
  "atomic64_read v = v"

definition atomic64_set :: "s64 \<Rightarrow> s64 \<Rightarrow> s64" where
  "atomic64_set i v = i"

definition atomic64_add_return :: "s64 \<Rightarrow> s64 \<Rightarrow> s64 \<times> s64" where
  "atomic64_add_return i v = (v + i, v + i)"

definition atomic64_sub_return :: "s64 \<Rightarrow> s64 \<Rightarrow> s64 \<times> s64" where
  "atomic64_sub_return i v = (v - i, v - i)"

definition atomic64_fetch_add :: "s64 \<Rightarrow> s64 \<Rightarrow> s64 \<times> s64" where
  "atomic64_fetch_add i v = (v, v + i)"

definition atomic64_inc :: "s64 \<Rightarrow> s64 \<times> s64" where
  "atomic64_inc v = atomic64_add_return 1 v"

definition atomic64_dec :: "s64 \<Rightarrow> s64 \<times> s64" where
  "atomic64_dec v = atomic64_sub_return 1 v"

definition atomic64_cmpxchg :: "s64 \<Rightarrow> s64 \<Rightarrow> s64 \<Rightarrow> s64 \<times> s64" where
  "atomic64_cmpxchg old_val new_val v = compare_exchange old_val new_val v"

definition atomic64_xchg :: "s64 \<Rightarrow> s64 \<Rightarrow> s64 \<times> s64" where
  "atomic64_xchg new_val v = (v, new_val)"

section \<open>Pointers\<close>

definition ATOMIC_PTR_INIT :: "addr \<Rightarrow> s64" where
  "ATOMIC_PTR_INIT i = ATOMIC64_INIT (sint i)"

definition atomic_ptr_read :: "s64 \<Rightarrow> addr" where
  "atomic_ptr_read v = atomic64_read v"

definition atomic_ptr_set :: "addr \<Rightarrow> s64 \<Rightarrow> s64" where
  "atomic_ptr_set p v = atomic64_set p v"

definition atomic_ptr_xchg :: "addr \<Rightarrow> s64 \<Rightarrow> addr \<times> s64" where
  "atomic_ptr_xchg new_ptr v = atomic64_xchg new_ptr v"

definition atomic_ptr_cmpxchg :: "addr \<Rightarrow> addr \<Rightarrow> s64 \<Rightarrow> addr \<times> s64" where
  "atomic_ptr_cmpxchg old_ptr new_ptr v = atomic64_cmpxchg old_ptr new_ptr v"

section \<open>Lemmas\<close>

lemma cmpxchg_success: "fst (compare_exchange old new v) = old \<longleftrightarrow> v = old"
  by (simp add: compare_exchange_def)

lemma cmpxchg_stores: "snd (compare_exchange old new v) = (if v = old then new else v)"
  by (simp add: compare_exchange_def)

lemma atomic_ptr_roundtrip: "atomic_ptr_read (atomic_ptr_set p v) = p" "atomic_ptr_read (ATOMIC_PTR_INIT p) = p"
  by (simp_all add: atomic_ptr_read_def atomic_ptr_set_def atomic64_read_def atomic64_set_def
      ATOMIC_PTR_INIT_def ATOMIC64_INIT_def)

end
