(* ===== verification/Pid.thy ===== *)
theory Pid
  imports Atomic
begin

text \<open>
  \<^verbatim>\<open>alloc_pid\<close> of \<^verbatim>\<open>src/task/proc.c\<close>: the loop as one hart runs it, and the protocol of any number of harts
  that call it at the same time, as an interleaving of their atomic accesses to \<^verbatim>\<open>next_pid\<close>.
\<close>

section \<open>One hart\<close>

definition PID_MIN :: int where "PID_MIN = 2"
definition PID_MAX :: int where "PID_MAX = 0x7fffffff"

text \<open>The id and the new counter.\<close>

partial_function (option) alloc_pid :: "s64 \<Rightarrow> (int \<times> s64) option" where
  "alloc_pid v =
     (let current = atomic64_read v
      in if sint current > PID_MAX then
           alloc_pid (snd (atomic64_cmpxchg current (word_of_int PID_MIN) v))
         else
           let new_val = current + 1; (r, v) = atomic64_cmpxchg current new_val v
           in if r = current then Some (sint current, v) else alloc_pid v)"

lemma sint_PID_MIN [simp]: "sint (word_of_int PID_MIN :: s64) = PID_MIN"
  by (simp add: PID_MIN_def)

lemma alloc_pid_take: "sint v \<le> PID_MAX \<Longrightarrow> alloc_pid v = Some (sint v, v + 1)"
  by (subst alloc_pid.simps) (simp add: atomic64_read_def atomic64_cmpxchg_def compare_exchange_def)

lemma alloc_pid_wrap: "PID_MAX < sint v \<Longrightarrow> alloc_pid v = Some (PID_MIN, 3)"
  by (subst alloc_pid.simps)
     (simp add: atomic64_read_def atomic64_cmpxchg_def compare_exchange_def alloc_pid_take PID_MAX_def PID_MIN_def)

text \<open>On one hart the loop always ends, after one or two rounds.\<close>

lemma alloc_pid_total:
  "alloc_pid v = Some (if sint v \<le> PID_MAX then (sint v, v + 1) else (PID_MIN, 3))"
  by (simp add: alloc_pid_take alloc_pid_wrap)

section \<open>Several harts\<close>

text \<open>
  \<open>Start\<close>: about to read the counter. \<open>Have c\<close>: read \<open>c\<close>, about to exchange. \<open>Done p\<close>: returned \<open>p\<close>.
  \<open>issued\<close> records the ids returned since the counter was last set back, in order.
\<close>

datatype pid_pc = Start | Have s64 | Done int

record pid_sys =
  counter :: s64
  pc_of :: "nat \<Rightarrow> pid_pc"
  issued :: "int list"

definition goto_pc :: "nat \<Rightarrow> pid_pc \<Rightarrow> pid_sys \<Rightarrow> pid_sys" where
  "goto_pc i q s = s\<lparr>pc_of := (pc_of s)(i := q)\<rparr>"

inductive pid_step :: "pid_sys \<Rightarrow> pid_sys \<Rightarrow> bool" where
  read: "pc_of s i = Start \<Longrightarrow> pid_step s (goto_pc i (Have (atomic64_read (counter s))) s)"
| wrap: "pc_of s i = Have c \<Longrightarrow> PID_MAX < sint c \<Longrightarrow>
    atomic64_cmpxchg c (word_of_int PID_MIN) (counter s) = (r, v) \<Longrightarrow>
    pid_step s (goto_pc i Start (s\<lparr>counter := v, issued := (if r = c then [] else issued s)\<rparr>))"
| take: "pc_of s i = Have c \<Longrightarrow> \<not> PID_MAX < sint c \<Longrightarrow>
    atomic64_cmpxchg c (c + 1) (counter s) = (r, v) \<Longrightarrow> r = c \<Longrightarrow>
    pid_step s (goto_pc i (Done (sint c)) (s\<lparr>counter := v, issued := issued s @ [sint c]\<rparr>))"
| retry: "pc_of s i = Have c \<Longrightarrow> \<not> PID_MAX < sint c \<Longrightarrow>
    atomic64_cmpxchg c (c + 1) (counter s) = (r, v) \<Longrightarrow> r \<noteq> c \<Longrightarrow>
    pid_step s (goto_pc i Start (s\<lparr>counter := v\<rparr>))"
| again: "pc_of s i = Done p \<Longrightarrow> pid_step s (goto_pc i Start s)"

inductive_cases pid_stepE: "pid_step s t"

inductive pid_reachable :: "pid_sys \<Rightarrow> bool" where
  boot: "pid_reachable \<lparr>counter = ATOMIC64_INIT PID_MIN, pc_of = (\<lambda>_. Start), issued = []\<rparr>"
| step: "pid_reachable s \<Longrightarrow> pid_step s t \<Longrightarrow> pid_reachable t"

text \<open>The ids handed out since the last wrap are exactly those below the counter.\<close>

definition pid_inv :: "pid_sys \<Rightarrow> bool" where
  "pid_inv s \<longleftrightarrow> PID_MIN \<le> sint (counter s) \<and> sint (counter s) \<le> PID_MAX + 1 \<and>
     issued s = [PID_MIN..sint (counter s) - 1] \<and>
     (\<forall>i p. pc_of s i = Done p \<longrightarrow> PID_MIN \<le> p \<and> p \<le> PID_MAX)"

lemma sint_succ:
  fixes c :: s64
  assumes "PID_MIN \<le> sint c" and "sint c \<le> PID_MAX"
  shows "sint (c + 1) = sint c + 1"
  using assms by (simp add: sint_word_ariths PID_MIN_def PID_MAX_def signed_take_bit_int_eq_self)

lemma pid_inv_step:
  assumes "pid_step s t" and "pid_inv s"
  shows "pid_inv t"
  using assms(1)
proof cases
  case (wrap i c r v)
  then show ?thesis
    using assms(2) by (auto simp: pid_inv_def goto_pc_def atomic64_cmpxchg_def compare_exchange_def PID_MAX_def
        PID_MIN_def split: if_splits)
next
  case (take i c r v)
  then have c: "counter s = c" "v = c + 1" by (auto simp: atomic64_cmpxchg_def compare_exchange_def split: if_splits)
  moreover have "sint (c + 1) = sint c + 1" using assms(2) take c by (intro sint_succ) (auto simp: pid_inv_def)
  moreover have "[PID_MIN..sint c] = [PID_MIN..sint c - 1] @ [sint c]"
    using assms(2) c by (intro upto_rec2) (simp add: pid_inv_def)
  ultimately show ?thesis using assms(2) take by (auto simp: pid_inv_def goto_pc_def)
qed (use assms(2) in \<open>auto simp: pid_inv_def goto_pc_def atomic64_cmpxchg_def compare_exchange_def split: if_splits\<close>)

lemma pid_reachable_inv: "pid_reachable s \<Longrightarrow> pid_inv s"
  by (induction rule: pid_reachable.induct)
     (auto simp: pid_inv_step, simp add: pid_inv_def ATOMIC64_INIT_def PID_MIN_def PID_MAX_def)

end
