(* ===== verification/Proc.thy ===== *)
theory Proc
  imports Sched Pid Mount Fd_Table Vma
begin

text \<open>
  The life of processes and kernel threads: \<^verbatim>\<open>src/task/proc.c\<close>, \<^verbatim>\<open>src/task/kthread.c\<close> and the entry code
  \<^verbatim>\<open>src/task/kthread_entry.S\<close>. The state adds to the scheduler's the file-system layer (whose \<open>world\<close> is the
  heap), the counter of process ids, the memory areas and page tables, and the stack words that are read back.
\<close>

record 'w tasks = sched +
  t_fs :: "'w fs"
  next_pid :: s64
  kpagetable :: addr
  vmas :: "addr \<Rightarrow> vma"
  ptables :: ptmem
  stack_mem :: "addr \<Rightarrow> u64"

text \<open>A call into the file-system layer, on this hart.\<close>

definition on_fs :: "('w fs \<Rightarrow> ('w, 'a) fs_res) \<Rightarrow> 'w tasks \<Rightarrow> ('a \<times> 'w tasks) res" where
  "on_fs f s = rbind (f ((t_fs s)\<lparr>fs_cpu := hart s\<rparr>)) (\<lambda>(r, st). Inr (r, s\<lparr>hart := fs_cpu st, t_fs := st\<rparr>))"

definition on_fs' :: "('w fs \<Rightarrow> 'w fs res) \<Rightarrow> 'w tasks \<Rightarrow> 'w tasks res" where
  "on_fs' f s = rbind (f ((t_fs s)\<lparr>fs_cpu := hart s\<rparr>)) (\<lambda>st. Inr (s\<lparr>hart := fs_cpu st, t_fs := st\<rparr>))"

definition kmalloc_task :: "'w env \<Rightarrow> u64 \<Rightarrow> 'w tasks \<Rightarrow> addr \<times> 'w tasks" where
  "kmalloc_task E n s = (let (p, st) = heap_alloc E n (t_fs s) in (p, s\<lparr>t_fs := st\<rparr>))"

definition kfree_task :: "'w env \<Rightarrow> addr \<Rightarrow> 'w tasks \<Rightarrow> 'w tasks" where
  "kfree_task E p s = s\<lparr>t_fs := heap_free E p (t_fs s)\<rparr>"

section \<open>Processes\<close>

definition IDLE_STACK_SIZE :: u64 where "IDLE_STACK_SIZE = PAGE_SIZE"
definition sizeof_proc :: u64 where "sizeof_proc = 568"

definition ktf_of :: "addr \<Rightarrow> addr" where "ktf_of p = p + 176"

definition init_cpu :: "addr \<Rightarrow> u64 \<Rightarrow> 'a sched_scheme \<Rightarrow> 'a sched_scheme res" where
  "init_cpu idle_loop hid s =
     (if unat hid \<ge> length (cpus s) then Inl Out_Of_Bounds
      else
        let c = cpus s ! unat hid;
            s = upd_proc (idle c) (\<lambda>p. p\<lparr>
                  ctx := (ctx p)\<lparr>x_ra := idle_loop, x_sp := idle_stack c + IDLE_STACK_SIZE, x_sstatus := SSTATUS_SIE\<rparr>,
                  p_state := PROC_IDLE, comm := ''idle'', p_parent := NULL, p_sibling := Self_Linked,
                  p_lock := SPINLOCK_INITIALIZER ''idle''\<rparr>) s;
            s = s\<lparr>cpus := (cpus s)[unat hid := c\<lparr>need_resched := False, cur_proc := idle c\<rparr>]\<rparr>
        in Inr (s\<lparr>regs_of := (regs_of s)\<lparr>x_gp := ktf_of (idle c)\<rparr>, hart := (hart s)\<lparr>tp := hid\<rparr>\<rparr>))"

text \<open>What \<^verbatim>\<open>kzalloc\<close> returns: all list heads are null, all links stale.\<close>

definition zero_ctxt :: ctxt where
  "zero_ctxt = \<lparr>x_ra = 0, x_sp = 0, x_gp = 0, x_s0 = 0, x_s1 = 0, x_s2 = 0, x_s3 = 0, x_s4 = 0, x_s5 = 0, x_s6 = 0,
     x_s7 = 0, x_s8 = 0, x_s9 = 0, x_s10 = 0, x_s11 = 0, x_sstatus = 0\<rparr>"

definition zero_proc :: proc where
  "zero_proc = \<lparr>comm = [], pid = 0, tgid = 0, p_pagetable = NULL, p_vma = None, ctx = zero_ctxt, p_tf = NULL,
     kstack = NULL, p_state = 0, p_runq = Stale, p_parent = NULL, p_children = [], p_sibling = Stale,
     p_fd_table = NULL, pwd = NULL, p_lock = \<lparr>lock_name = [], locked = 0, owner = 0\<rparr>\<rparr>"

definition alloc_proc :: "'w env \<Rightarrow> 'w tasks \<Rightarrow> (addr \<times> 'w tasks) res" where
  "alloc_proc E s =
     (let (p, s) = kmalloc_task E sizeof_proc s
      in if p = NULL then Inr (NULL, s)
         else
           let s = upd_proc p (\<lambda>_. zero_proc\<lparr>p_state := PROC_UNUSED,
                     ctx := zero_ctxt\<lparr>x_gp := ktf_of p, x_sstatus := SSTATUS_SIE\<rparr>\<rparr>) s
           in rbind (on_fs (\<lambda>st. Inr (fd_table_alloc E st)) s) (\<lambda>(t, s).
                let s = upd_proc p (\<lambda>x. x\<lparr>p_fd_table := t\<rparr>) s
                in if t = NULL then Inr (NULL, kfree_task E p s)
                   else
                     rbind (on_fs vfs_get_root s) (\<lambda>(d, s).
                       let s = upd_proc p (\<lambda>x. x\<lparr>pwd := d\<rparr>) s
                       in rbind (if d \<noteq> NULL then on_fs' (dentry_get d) s else Inr s) (\<lambda>s. Inr (p, s)))))"

text \<open>
  The part of a process that \<^verbatim>\<open>src/mm/vma.c\<close> works on, and the loop over its areas, which reads the next
  node before it removes the current one.
\<close>

definition vm_of :: "addr \<Rightarrow> addr list \<Rightarrow> 'w tasks \<Rightarrow> 'w vm_proc" where
  "vm_of p vs s = \<lparr>areas = vs, vma_at = vmas s, pagetable = p_pagetable (proc_at s p), pt_mem = ptables s,
     heap = world (t_fs s)\<rparr>"

definition set_vm :: "addr \<Rightarrow> 'w vm_proc \<Rightarrow> 'w tasks \<Rightarrow> 'w tasks" where
  "set_vm p v s = upd_proc p (\<lambda>x. x\<lparr>p_vma := Some (areas v)\<rparr>)
     (s\<lparr>vmas := vma_at v, ptables := pt_mem v, t_fs := (t_fs s)\<lparr>world := heap v\<rparr>\<rparr>)"

fun free_areas :: "'w env \<Rightarrow> addr list \<Rightarrow> 'w vm_proc \<Rightarrow> 'w vm_proc res" where
  "free_areas E [] v = Inr v"
| "free_areas E (a # as) v =
     rbind (vma_remove (kfree_mem E) (v_start (vma_at v a)) (v_length (vma_at v a)) v) (\<lambda>(_, v). free_areas E as v)"

definition leave_parent :: "addr \<Rightarrow> 'w tasks \<Rightarrow> 'w tasks res" where
  "leave_parent p s =
     (let q = p_parent (proc_at s p)
      in if q = NULL then Inr s
         else
           rbind (lock_proc q s) (\<lambda>s.
           rbind (link_del p (p_sibling (proc_at s p), p_children (proc_at s q))) (\<lambda>(l, xs).
             let s = upd_proc q (\<lambda>x. x\<lparr>p_children := xs\<rparr>) (upd_proc p (\<lambda>x. x\<lparr>p_sibling := l\<rparr>) s)
             in rbind (unlock_proc q s) (\<lambda>s. Inr (upd_proc p (\<lambda>x. x\<lparr>p_parent := NULL\<rparr>) s)))))"

definition free_memory :: "'w env \<Rightarrow> addr \<Rightarrow> 'w tasks \<Rightarrow> 'w tasks res" where
  "free_memory E p s =
     (let pt = p_pagetable (proc_at s p)
      in if pt = NULL \<or> pt = kpagetable s then Inr s
         else
           case p_vma (proc_at s p) of
             None \<Rightarrow> Inl Null_Deref
           | Some vs \<Rightarrow>
               rbind (free_areas E vs (vm_of p vs s)) (\<lambda>v.
                 let s = set_vm p v s
                 in Inr (s\<lparr>t_fs := (t_fs s)\<lparr>world :=
                      pagetable_destroy (kfree_mem E) (ptables s) pt (world (t_fs s))\<rparr>\<rparr>)))"

definition free_proc :: "'w env \<Rightarrow> addr \<Rightarrow> 'w tasks \<Rightarrow> 'w tasks res" where
  "free_proc E p s =
     (if p = NULL then Inr s
      else
        rbind (leave_parent p s) (\<lambda>s.
        let s = (if kstack (proc_at s p) \<noteq> NULL then kfree_task E (kstack (proc_at s p)) s else s);
            s = (if p_tf (proc_at s p) \<noteq> NULL then kfree_task E (p_tf (proc_at s p)) s else s)
        in rbind (free_memory E p s) (\<lambda>s.
           let t = p_fd_table (proc_at s p)
           in rbind (if t \<noteq> NULL
                     then rbind (on_fs' (fd_table_free E t) s) (\<lambda>s. Inr (upd_proc p (\<lambda>x. x\<lparr>p_fd_table := NULL\<rparr>) s))
                     else Inr s) (\<lambda>s.
              let d = pwd (proc_at s p)
              in rbind (if d \<noteq> NULL
                        then rbind (on_fs' (dentry_put d) s) (\<lambda>s. Inr (upd_proc p (\<lambda>x. x\<lparr>pwd := NULL\<rparr>) s))
                        else Inr s) (\<lambda>s. Inr (kfree_task E p s))))))"

section \<open>Kernel threads\<close>

text \<open>
  \<^verbatim>\<open>comm\<close> is the characters up to the first zero byte; 16 of them means that no zero byte follows.
\<close>

definition set_comm :: "string option \<Rightarrow> proc \<Rightarrow> proc" where
  "set_comm name p = (case name of None \<Rightarrow> p | Some n \<Rightarrow> p\<lparr>comm := take 16 n\<rparr>)"

definition launch_thread :: "addr \<Rightarrow> addr \<Rightarrow> u64 \<Rightarrow> addr \<Rightarrow> addr \<Rightarrow> 'w tasks \<Rightarrow> (addr \<times> 'w tasks) res" where
  "launch_thread kthread_start fn arg p k s =
     (let stack_top = (k + PAGE_SIZE) AND NOT 0xF;
          s = upd_proc p (\<lambda>x. x\<lparr>ctx := (ctx x)\<lparr>x_ra := kthread_start, x_sp := stack_top\<rparr>\<rparr>) s;
          args = stack_top - 16;
          s = s\<lparr>stack_mem := (stack_mem s)(args := fn, args + 8 := arg)\<rparr>;
          s = upd_proc p (\<lambda>x. x\<lparr>ctx := (ctx x)\<lparr>x_sp := stack_top - 16\<rparr>, p_state := PROC_RUNNABLE\<rparr>) s
      in rbind (enqueue_proc (r_tp s) p s) (\<lambda>s. Inr (p, s)))"

definition kthread_create ::
  "'w env \<Rightarrow> addr \<Rightarrow> addr \<Rightarrow> u64 \<Rightarrow> string option \<Rightarrow> 'w tasks \<Rightarrow> (addr \<times> 'w tasks) res" where
  "kthread_create E kthread_start fn arg name s =
     rbind (alloc_proc E s) (\<lambda>(p, s).
       if p = NULL then Inr (NULL, s)
       else
         let s = upd_proc p (set_comm name) s
         in case alloc_pid (next_pid s) of
              None \<Rightarrow> Inl Spin
            | Some (i, n) \<Rightarrow>
                let s = s\<lparr>next_pid := n\<rparr>;
                    s = upd_proc p (\<lambda>x. x\<lparr>pid := i, tgid := i, p_pagetable := kpagetable s,
                          p_lock := SPINLOCK_INITIALIZER (case name of None \<Rightarrow> [] | Some n \<Rightarrow> n)\<rparr>) s;
                    (k, s) = kmalloc_task E PAGE_SIZE s;
                    s = upd_proc p (\<lambda>x. x\<lparr>kstack := k\<rparr>) s
                in if k = NULL then rbind (free_proc E p s) (\<lambda>s. Inr (NULL, s))
                   else launch_thread kthread_start fn arg p k s)"

text \<open>\<^verbatim>\<open>kthread_start\<close>: the function it calls, its argument, and the stack pointer at the call.\<close>

definition kthread_start :: "(addr \<Rightarrow> u64) \<Rightarrow> regs \<Rightarrow> addr \<times> u64 \<times> regs" where
  "kthread_start m r = (m (x_sp r), m (x_sp r + 8), r\<lparr>x_sp := x_sp r + 16\<rparr>)"

text \<open>The \<^verbatim>\<open>panic\<close> after the yield is reached only if the zombie is resumed.\<close>

definition kthread_exit :: "int \<Rightarrow> 'a sched_scheme \<Rightarrow> 'a sched_scheme res" where
  "kthread_exit ret_code s =
     (if r_tp s \<ge> length (cpus s) then Inl Out_Of_Bounds
      else
        let p = cur_proc (thiscpu s)
        in if p = NULL then Inl (Panic ''kthread_exit: no current proc'')
           else sched_yield (upd_proc p (\<lambda>x. x\<lparr>p_state := PROC_ZOMBIE\<rparr>) s))"

end
