(* ===== verification/Sched_Correct.thy ===== *)
theory Sched_Correct
  imports Sched
begin

text \<open>
  The scheduler on one hart: the invariant \<open>sched_ok\<close>, the effect of every operation from a state that
  satisfies it, and the round-robin order of the processes together with the contexts they resume.
\<close>

section \<open>Operations on the run queue\<close>

lemma sstatus_leave [simp]: "sstatus (leave c) = sstatus c"
  by (simp add: leave_def)

lemma upd_proc_fields [simp]:
  "hart (upd_proc p g s) = hart s" "regs_of (upd_proc p g s) = regs_of s" "cpus (upd_proc p g s) = cpus s"
  "runqs (upd_proc p g s) = runqs s" "proc_at (upd_proc p g s) = (proc_at s)(p := g (proc_at s p))"
  by (simp_all add: upd_proc_def)

lemma upd_thiscpu_fields [simp]:
  "hart (upd_thiscpu g s) = hart s" "regs_of (upd_thiscpu g s) = regs_of s" "runqs (upd_thiscpu g s) = runqs s"
  "proc_at (upd_thiscpu g s) = proc_at s" "cpus (upd_thiscpu g s) = (cpus s)[r_tp s := g (thiscpu s)]"
  by (simp_all add: upd_thiscpu_def)

lemma enqueue_proc_eq:
  assumes "h < length (runqs s)" and "hart_ok (hart s)" and "lock_free (rq_lock (runqs s ! h))"
    and "p_runq (proc_at s p) \<noteq> On_List"
  shows "enqueue_proc h p s = Inr (s\<lparr>hart := leave (hart s),
    proc_at := (proc_at s)(p := (proc_at s p)\<lparr>p_runq := On_List\<rparr>),
    runqs := (runqs s)[h := (runqs s ! h)\<lparr>queue := queue (runqs s ! h) @ [p], rq_lock := unhold (rq_lock (runqs s ! h))\<rparr>]\<rparr>)"
  using assms by (simp add: enqueue_proc_def lock_runq_def unlock_runq_def lock_simps upd_proc_def Let_def)

lemma dequeue_proc_empty: "h < length (runqs s) \<Longrightarrow> queue (runqs s ! h) = [] \<Longrightarrow> dequeue_proc h s = Inr (NULL, s)"
  by (simp add: dequeue_proc_def is_runq_empty_def)

lemma dequeue_proc_eq:
  assumes "h < length (runqs s)" and "hart_ok (hart s)" and "lock_free (rq_lock (runqs s ! h))"
    and "queue (runqs s ! h) = p # ps"
  shows "dequeue_proc h s = Inr (p, s\<lparr>hart := leave (hart s),
    proc_at := (proc_at s)(p := (proc_at s p)\<lparr>p_runq := Stale\<rparr>),
    runqs := (runqs s)[h := (runqs s ! h)\<lparr>queue := ps, rq_lock := unhold (rq_lock (runqs s ! h))\<rparr>]\<rparr>)"
  using assms
  by (simp add: dequeue_proc_def is_runq_empty_def lock_runq_def unlock_runq_def lock_simps upd_proc_def Let_def)

section \<open>The invariant\<close>

definition my_runq :: "'a sched_scheme \<Rightarrow> runq" where
  "my_runq s = runqs s ! r_tp s"

definition ready :: "'a sched_scheme \<Rightarrow> addr list" where
  "ready s = queue (my_runq s)"

definition current :: "'a sched_scheme \<Rightarrow> addr" where
  "current s = cur_proc (thiscpu s)"

definition idle_of :: "'a sched_scheme \<Rightarrow> addr" where
  "idle_of s = idle (thiscpu s)"

definition runnable :: "'a sched_scheme \<Rightarrow> addr \<Rightarrow> bool" where
  "runnable s p \<longleftrightarrow> p \<noteq> NULL \<and> p_state (proc_at s p) = PROC_RUNNABLE \<and> p_runq (proc_at s p) = On_List \<and>
     lock_free (p_lock (proc_at s p))"

definition sched_ok :: "'a sched_scheme \<Rightarrow> bool" where
  "sched_ok s \<longleftrightarrow>
     r_tp s < length (cpus s) \<and> r_tp s < length (runqs s) \<and> hart_ok (hart s) \<and> lock_free (rq_lock (my_runq s)) \<and>
     distinct (idle_of s # ready s) \<and> (\<forall>p\<in>set (ready s). runnable s p) \<and>
     idle_of s \<noteq> NULL \<and> lock_free (p_lock (proc_at s (idle_of s))) \<and> p_state (proc_at s (idle_of s)) = PROC_IDLE \<and>
     p_runq (proc_at s (idle_of s)) \<noteq> On_List \<and>
     current s \<noteq> NULL \<and> current s \<notin> set (ready s) \<and> lock_free (p_lock (proc_at s (current s))) \<and>
     p_runq (proc_at s (current s)) \<noteq> On_List"

text \<open>What a yield puts at the end of the queue.\<close>

definition requeued :: "'a sched_scheme \<Rightarrow> addr list" where
  "requeued s = (if p_state (proc_at s (current s)) = PROC_RUNNING then [current s] else [])"

lemmas sched_view = my_runq_def ready_def current_def idle_of_def runnable_def requeued_def r_tp_def thiscpu_def

text \<open>The first half of a yield, up to the choice of the next process.\<close>

definition stopped :: "'a sched_scheme \<Rightarrow> 'a sched_scheme" where
  "stopped s = (if p_state (proc_at s (current s)) = PROC_RUNNING
     then s\<lparr>hart := leave (hart s),
            proc_at := (proc_at s)(current s := (proc_at s (current s))\<lparr>p_state := PROC_RUNNABLE, p_runq := On_List\<rparr>),
            runqs := (runqs s)[r_tp s := (my_runq s)\<lparr>queue := ready s @ [current s], rq_lock := unhold (rq_lock (my_runq s))\<rparr>]\<rparr>
     else s)"

lemma sched_yield_stopped:
  assumes "sched_ok s"
  shows "sched_yield s = context_switch_yield (current s) (upd_thiscpu (\<lambda>c. c\<lparr>cur_proc := NULL\<rparr>) (stopped s))"
  using assms unfolding sched_ok_def
  by (auto simp: sched_yield_def stopped_def enqueue_proc_eq current_def my_runq_def ready_def upd_proc_def Let_def)

lemma stopped_view:
  assumes "sched_ok s"
  shows "r_tp (stopped s) = r_tp s" "cpus (stopped s) = cpus s" "length (runqs (stopped s)) = length (runqs s)"
    "queue (runqs (stopped s) ! r_tp s) = ready s @ requeued s" "hart_ok (hart (stopped s))"
    "lock_free (rq_lock (runqs (stopped s) ! r_tp s))" "regs_of (stopped s) = regs_of s"
    "sstatus (hart (stopped s)) = sstatus (hart s)" "tp (hart (stopped s)) = tp (hart s)"
  using assms unfolding sched_ok_def
  by (auto simp: stopped_def sched_view)

lemma stopped_proc:
  "ctx (proc_at (stopped s) p) = ctx (proc_at s p)" "p_lock (proc_at (stopped s) p) = p_lock (proc_at s p)"
  "p \<noteq> current s \<Longrightarrow> proc_at (stopped s) p = proc_at s p"
  by (auto simp: stopped_def)

text \<open>The second half, with an empty queue and with a process on it.\<close>

definition dispatched :: "addr \<Rightarrow> (proc \<Rightarrow> proc) \<Rightarrow> runq \<Rightarrow> 'a sched_scheme \<Rightarrow> 'a sched_scheme" where
  "dispatched n g q u =
     u\<lparr>hart := leave (hart u), proc_at := (proc_at u)(n := (g (proc_at u n))\<lparr>p_lock := unhold (p_lock (proc_at u n))\<rparr>),
       cpus := (cpus u)[r_tp u := (thiscpu u)\<lparr>cur_proc := n\<rparr>], runqs := (runqs u)[r_tp u := q]\<rparr>"

lemma hart_self [simp]: "s\<lparr>hart := hart s\<rparr> = s" "s\<lparr>runqs := runqs s\<rparr> = s"
  by simp_all

lemma context_switch_yield_idle:
  assumes "r_tp u < length (cpus u)" and "r_tp u < length (runqs u)" and "hart_ok (hart u)"
    and "queue (runqs u ! r_tp u) = []" and "lock_free (p_lock (proc_at u (idle (thiscpu u))))"
  shows "context_switch_yield old u =
    Inr (context_switch old (idle (thiscpu u)) (dispatched (idle (thiscpu u)) (\<lambda>p. p) (runqs u ! r_tp u) u))"
  using assms
  by (cases u) (simp add: context_switch_yield_def dequeue_proc_empty lock_proc_def unlock_proc_def lock_simps dispatched_def
      upd_proc_def upd_thiscpu_def r_tp_def thiscpu_def Let_def)

lemma context_switch_yield_next:
  assumes "r_tp u < length (cpus u)" and "r_tp u < length (runqs u)" and "hart_ok (hart u)"
    and "lock_free (rq_lock (runqs u ! r_tp u))" and "queue (runqs u ! r_tp u) = n # ns" and "n \<noteq> NULL"
    and "n \<noteq> idle (thiscpu u)" and "lock_free (p_lock (proc_at u n))"
  shows "context_switch_yield old u =
    Inr (context_switch old n (dispatched n (\<lambda>p. p\<lparr>p_runq := Stale, p_state := PROC_RUNNING\<rparr>)
      ((runqs u ! r_tp u)\<lparr>queue := ns, rq_lock := unhold (rq_lock (runqs u ! r_tp u))\<rparr>) u))"
  using assms
  by (cases u) (simp add: context_switch_yield_def dequeue_proc_eq lock_proc_def unlock_proc_def lock_simps dispatched_def
      upd_proc_def upd_thiscpu_def r_tp_def thiscpu_def Let_def)

lemma dispatched_fields [simp]:
  "hart (dispatched n g q u) = leave (hart u)" "regs_of (dispatched n g q u) = regs_of u"
  "proc_at (dispatched n g q u) = (proc_at u)(n := (g (proc_at u n))\<lparr>p_lock := unhold (p_lock (proc_at u n))\<rparr>)"
  "cpus (dispatched n g q u) = (cpus u)[r_tp u := (thiscpu u)\<lparr>cur_proc := n\<rparr>]"
  "runqs (dispatched n g q u) = (runqs u)[r_tp u := q]" "sched.more (dispatched n g q u) = sched.more u"
  by (simp_all add: dispatched_def)

lemma context_switch_fields:
  fixes s :: "'a sched_scheme"
  assumes "t = context_switch old new s"
  shows "hart t = (hart s)\<lparr>sstatus := x_sstatus (ctx (proc_at t new))\<rparr>" "regs_of t = regs.truncate (ctx (proc_at t new))"
    "proc_at t = (proc_at s)(old := (proc_at s old)\<lparr>ctx := save_context (regs_of s) (sstatus (hart s))\<rparr>)"
    "cpus t = cpus s" "runqs t = runqs s" "sched.more t = sched.more s"
  by (simp_all add: assms context_switch_def upd_proc_def Let_def)

section \<open>One yield\<close>

definition next_of :: "'a sched_scheme \<Rightarrow> addr" where
  "next_of s = (case ready s @ requeued s of [] \<Rightarrow> idle_of s | p # _ \<Rightarrow> p)"

text \<open>The state after a yield, as far as the callers are concerned.\<close>

definition yielded :: "'a sched_scheme \<Rightarrow> 'a sched_scheme \<Rightarrow> bool" where
  "yielded s t \<longleftrightarrow>
     current t = next_of s \<and> ready t = tl (ready s @ requeued s) \<and> idle_of t = idle_of s \<and> r_tp t = r_tp s \<and>
     need_resched (thiscpu t) = need_resched (thiscpu s) \<and> sched.more t = sched.more s \<and>
     (\<forall>p. ctx (proc_at t p) = (if p = current s then save_context (regs_of s) (sstatus (hart s)) else ctx (proc_at s p))) \<and>
     regs_of t = regs.truncate (ctx (proc_at t (current t))) \<and>
     sstatus (hart t) = x_sstatus (ctx (proc_at t (current t))) \<and>
     (\<forall>p. p_state (proc_at t p) =
        (if p = current t \<and> p \<noteq> idle_of s then PROC_RUNNING
         else if p = current s \<and> p_state (proc_at s p) = PROC_RUNNING then PROC_RUNNABLE
         else p_state (proc_at s p)))"

lemma sched_ok_requeued:
  assumes "sched_ok s" and "p \<in> set (ready s @ requeued s)"
  shows "p \<noteq> NULL \<and> p \<noteq> idle_of s \<and> lock_free (p_lock (proc_at s p)) \<and>
    p_state (proc_at (stopped s) p) = PROC_RUNNABLE \<and> p_runq (proc_at (stopped s) p) = On_List"
  using assms unfolding sched_ok_def requeued_def stopped_def runnable_def
  by (auto split: if_splits simp: proc_states)

lemma sched_ok_distinct: "sched_ok s \<Longrightarrow> distinct (ready s @ requeued s)"
  unfolding sched_ok_def requeued_def by auto

definition halted :: "'a sched_scheme \<Rightarrow> 'a sched_scheme" where
  "halted s = upd_thiscpu (\<lambda>c. c\<lparr>cur_proc := NULL\<rparr>) (stopped s)"

lemma halted_view:
  assumes "sched_ok s"
  shows "r_tp (halted s) = r_tp s" "r_tp (halted s) < length (cpus (halted s))"
    "r_tp (halted s) < length (runqs (halted s))" "hart_ok (hart (halted s))"
    "lock_free (rq_lock (runqs (halted s) ! r_tp (halted s)))"
    "queue (runqs (halted s) ! r_tp (halted s)) = ready s @ requeued s" "idle (thiscpu (halted s)) = idle_of s"
    "proc_at (halted s) = proc_at (stopped s)" "regs_of (halted s) = regs_of s"
    "sstatus (hart (halted s)) = sstatus (hart s)" "need_resched (thiscpu (halted s)) = need_resched (thiscpu s)"
    "sched.more (halted s) = sched.more s" "tp (hart (halted s)) = tp (hart s)"
proof -
  note v = stopped_view [OF assms]
  have ok: "r_tp s < length (cpus s)" "r_tp s < length (runqs s)" using assms by (auto simp: sched_ok_def)
  show "r_tp (halted s) = r_tp s" "r_tp (halted s) < length (cpus (halted s))"
    "r_tp (halted s) < length (runqs (halted s))" "hart_ok (hart (halted s))"
    "lock_free (rq_lock (runqs (halted s) ! r_tp (halted s)))"
    "queue (runqs (halted s) ! r_tp (halted s)) = ready s @ requeued s"
    "proc_at (halted s) = proc_at (stopped s)" "regs_of (halted s) = regs_of s"
    "sstatus (hart (halted s)) = sstatus (hart s)" "tp (hart (halted s)) = tp (hart s)"
    using v ok by (simp_all add: halted_def r_tp_def)
  show "idle (thiscpu (halted s)) = idle_of s" "need_resched (thiscpu (halted s)) = need_resched (thiscpu s)"
    using v ok by (simp_all add: halted_def thiscpu_def idle_of_def r_tp_def)
  show "sched.more (halted s) = sched.more s" by (simp add: halted_def upd_thiscpu_def stopped_def)
qed

text \<open>A yield ends in a switch to the next process, from a state whose fields are these.\<close>

lemma sched_yield_switch:
  assumes "sched_ok s"
  shows "sched_yield s = Inr (context_switch (current s) (next_of s)
    (case ready s @ requeued s of
       [] \<Rightarrow> dispatched (idle_of s) (\<lambda>p. p) (runqs (halted s) ! r_tp s) (halted s)
     | n # ns \<Rightarrow> dispatched n (\<lambda>p. p\<lparr>p_runq := Stale, p_state := PROC_RUNNING\<rparr>)
         ((runqs (halted s) ! r_tp s)\<lparr>queue := ns, rq_lock := unhold (rq_lock (runqs (halted s) ! r_tp s))\<rparr>) (halted s)))"
proof -
  note v = halted_view [OF assms]
  have y: "sched_yield s = context_switch_yield (current s) (halted s)"
    using sched_yield_stopped [OF assms] by (simp add: halted_def)
  show ?thesis
  proof (cases "ready s @ requeued s")
    case Nil
    have "lock_free (p_lock (proc_at (halted s) (idle_of s)))"
      using assms by (simp add: v stopped_proc sched_ok_def)
    then show ?thesis
      using context_switch_yield_idle [of "halted s" "current s"] v Nil by (simp add: y next_of_def)
  next
    case (Cons n ns)
    then have "n \<noteq> NULL \<and> n \<noteq> idle_of s \<and> lock_free (p_lock (proc_at (halted s) n))"
      using sched_ok_requeued [OF assms, of n] by (simp add: v stopped_proc)
    then show ?thesis
      using context_switch_yield_next [of "halted s" n ns "current s"] v Cons by (simp add: y next_of_def)
  qed
qed

lemma switch_view:
  assumes ok: "sched_ok s" and t: "t = context_switch old n (dispatched n g q (halted s))"
    and g: "\<And>p. ctx (g p) = ctx p"
  shows "current t = n" "ready t = queue q" "my_runq t = q" "idle_of t = idle_of s" "r_tp t = r_tp s"
    "need_resched (thiscpu t) = need_resched (thiscpu s)" "sched.more t = sched.more s" "hart_ok (hart t)"
    "length (cpus t) = length (cpus (halted s))" "length (runqs t) = length (runqs (halted s))"
    "regs_of t = regs.truncate (ctx (proc_at t n))" "sstatus (hart t) = x_sstatus (ctx (proc_at t n))"
    "ctx (proc_at t p) = (if p = old then save_context (regs_of s) (sstatus (hart s)) else ctx (proc_at s p))"
proof -
  note v = halted_view [OF ok] and c = context_switch_fields [OF t]
  show "current t = n" "idle_of t = idle_of s" "need_resched (thiscpu t) = need_resched (thiscpu s)"
    using v by (simp_all add: c current_def idle_of_def thiscpu_def r_tp_def)
  show "ready t = queue q" "my_runq t = q" "r_tp t = r_tp s"
    using v by (simp_all add: c ready_def my_runq_def r_tp_def)
  show "sched.more t = sched.more s" "length (cpus t) = length (cpus (halted s))"
    "length (runqs t) = length (runqs (halted s))"
    using v by (simp_all add: c)
  show "hart_ok (hart t)" using v by (simp add: c hart_ok_def leave_def)
  show "regs_of t = regs.truncate (ctx (proc_at t n))" "sstatus (hart t) = x_sstatus (ctx (proc_at t n))"
    by (simp_all add: c(1) c(2))
  show "ctx (proc_at t p) = (if p = old then save_context (regs_of s) (sstatus (hart s)) else ctx (proc_at s p))"
    using g v by (simp add: c stopped_proc)
qed

lemma sched_yield_idle:
  assumes ok: "sched_ok s" and q: "ready s @ requeued s = []"
    and t: "t = context_switch (current s) (next_of s)
      (dispatched (idle_of s) (\<lambda>p. p) (runqs (halted s) ! r_tp s) (halted s))"
  shows "yielded s t \<and> sched_ok t"
proof -
  note v = halted_view [OF ok]
  have n: "next_of s = idle_of s" using q by (simp add: next_of_def)
  have nr: "p_state (proc_at s (current s)) \<noteq> PROC_RUNNING" using q by (auto simp: requeued_def split: if_splits)
  then have st: "stopped s = s" by (simp add: stopped_def)
  note w = switch_view [OF ok t [unfolded n], simplified]
  have pr: "proc_at t = (proc_at s)(idle_of s := (proc_at s (idle_of s))\<lparr>p_lock := unhold (p_lock (proc_at s (idle_of s)))\<rparr>,
      current s := (((proc_at s)(idle_of s := (proc_at s (idle_of s))\<lparr>p_lock := unhold (p_lock (proc_at s (idle_of s)))\<rparr>))
        (current s))\<lparr>ctx := save_context (regs_of s) (sstatus (hart s))\<rparr>)"
    using v n st by (simp add: context_switch_fields [OF t])
  have ready: "ready t = []" using q v by (simp add: w)
  have y: "yielded s t" using q n w ready nr by (auto simp: yielded_def pr)
  have o: "sched_ok t"
    using ok ready v w by (auto simp: sched_ok_def pr)
  show ?thesis using y o by blast
qed

lemma sched_yield_next:
  assumes ok: "sched_ok s" and q: "ready s @ requeued s = n # ns"
    and t: "t = context_switch (current s) (next_of s) (dispatched n (\<lambda>p. p\<lparr>p_runq := Stale, p_state := PROC_RUNNING\<rparr>)
      ((runqs (halted s) ! r_tp s)\<lparr>queue := ns, rq_lock := unhold (rq_lock (runqs (halted s) ! r_tp s))\<rparr>) (halted s))"
  shows "yielded s t \<and> sched_ok t"
proof -
  note v = halted_view [OF ok] and r = sched_ok_requeued [OF ok]
  have n: "next_of s = n" using q by (simp add: next_of_def)
  have nn: "n \<noteq> NULL" "n \<noteq> idle_of s" using r [of n] q by auto
  have d: "distinct (n # ns)" using sched_ok_distinct [OF ok] q by simp
  note w = switch_view [OF ok t [unfolded n], simplified]
  have pr: "proc_at t p =
      (let x = (if p = n then (proc_at (stopped s) n)\<lparr>p_runq := Stale, p_state := PROC_RUNNING,
                                p_lock := unhold (p_lock (proc_at s n))\<rparr> else proc_at (stopped s) p)
       in if p = current s then x\<lparr>ctx := save_context (regs_of s) (sstatus (hart s))\<rparr> else x)" for p
    using v n by (simp add: context_switch_fields [OF t] stopped_proc)
  have st: "p_state (proc_at (stopped s) p) =
      (if p = current s \<and> p_state (proc_at s p) = PROC_RUNNING then PROC_RUNNABLE else p_state (proc_at s p))" for p
    by (auto simp: stopped_def)
  have idl: "current s = idle_of s \<longrightarrow> stopped s = s"
    using ok by (auto simp: sched_ok_def stopped_def proc_states)
  have y: "yielded s t"
    using q n nn w by (auto simp: yielded_def pr st Let_def)
  have ni: "idle_of s \<notin> set (ready s @ requeued s)" using r by blast
  have pi: "proc_at (stopped s) (idle_of s) = proc_at s (idle_of s)"
    using idl by (cases "current s = idle_of s") (auto simp: stopped_proc)
  have run: "runnable t p" if "p \<in> set ns" for p
  proof -
    have "p \<in> set (ready s @ requeued s)" "p \<noteq> n" using that q d by auto
    then show ?thesis using r [of p] by (auto simp: runnable_def pr Let_def stopped_proc(2))
  qed
  have "p_runq (proc_at t n) \<noteq> On_List" "lock_free (p_lock (proc_at t n))" by (simp_all add: pr Let_def)
  moreover have "lock_free (p_lock (proc_at t (idle_of s)))" "p_state (proc_at t (idle_of s)) = PROC_IDLE"
    "p_runq (proc_at t (idle_of s)) \<noteq> On_List"
    using ok nn(2) by (auto simp: pr pi Let_def sched_ok_def)
  moreover have "idle_of s \<notin> set ns" using ni q by auto
  ultimately have "sched_ok t"
    using ok v w d nn run by (simp add: sched_ok_def)
  then show ?thesis using y by blast
qed

theorem sched_yield_step:
  assumes "sched_ok s"
  obtains t where "sched_yield s = Inr t" and "yielded s t" and "sched_ok t"
  using sched_yield_switch [OF assms] sched_yield_idle [OF assms _ refl] sched_yield_next [OF assms _ refl]
  by (cases "ready s @ requeued s") (auto simp: next_of_def)

section \<open>Time slices\<close>

text \<open>
  The running process computes on its registers and then yields. \<open>busy\<close>: it is a process in state
  \<^verbatim>\<open>PROC_RUNNING\<close>, which the idle process never is.
\<close>

definition compute :: "(regs \<Rightarrow> regs) \<Rightarrow> 'a sched_scheme \<Rightarrow> 'a sched_scheme" where
  "compute f s = s\<lparr>regs_of := f (regs_of s)\<rparr>"

fun run_slices :: "(regs \<Rightarrow> regs) list \<Rightarrow> 'a sched_scheme \<Rightarrow> 'a sched_scheme res" where
  "run_slices [] s = Inr s"
| "run_slices (f # fs) s = rbind (sched_yield (compute f s)) (run_slices fs)"

definition busy :: "'a sched_scheme \<Rightarrow> bool" where
  "busy s \<longleftrightarrow> p_state (proc_at s (current s)) = PROC_RUNNING"

definition ring :: "'a sched_scheme \<Rightarrow> addr list" where
  "ring s = current s # ready s"

lemma compute_view [simp]:
  "current (compute f s) = current s" "ready (compute f s) = ready s" "idle_of (compute f s) = idle_of s"
  "proc_at (compute f s) = proc_at s" "hart (compute f s) = hart s" "regs_of (compute f s) = f (regs_of s)"
  "requeued (compute f s) = requeued s" "busy (compute f s) = busy s"
  "ring (compute f s) = ring s" "sched_ok (compute f s) = sched_ok s"
  by (simp_all add: compute_def sched_view busy_def ring_def sched_ok_def)

lemma next_of_compute [simp]: "next_of (compute f s) = next_of s"
  by (simp add: next_of_def split: list.split)

lemma slice_step:
  assumes ok: "sched_ok s" and b: "busy s"
  obtains t where "sched_yield (compute f s) = Inr t" and "sched_ok t" and "busy t" and "ring t = rotate1 (ring s)"
    and "ctx (proc_at t (current s)) = save_context (f (regs_of s)) (sstatus (hart s))"
    and "\<And>p. p \<noteq> current s \<Longrightarrow> ctx (proc_at t p) = ctx (proc_at s p)"
    and "regs_of t = regs.truncate (ctx (proc_at t (current t)))"
    and "sstatus (hart t) = x_sstatus (ctx (proc_at t (current t)))"
proof -
  obtain t where t: "sched_yield (compute f s) = Inr t" "yielded (compute f s) t" "sched_ok t"
    using sched_yield_step [of "compute f s"] ok by auto
  have q: "ready s @ requeued s = ready s @ [current s]" using b by (simp add: requeued_def busy_def)
  have c: "current t # ready t = ready s @ [current s]"
    using t(2) q by (cases "ready s") (auto simp: yielded_def next_of_def)
  have "current t \<in> set (ready s @ requeued s)" unfolding q c [symmetric] by simp
  then have "current t \<noteq> idle_of s" using sched_ok_requeued [OF ok] by blast
  then show ?thesis
    using t c by (intro that [of t]) (auto simp: yielded_def busy_def ring_def)
qed

lemma run_slices_ok:
  assumes "sched_ok s" and "busy s"
  obtains t where "run_slices fs s = Inr t" and "sched_ok t" and "busy t" and "ring t = rotate (length fs) (ring s)"
  using assms
proof (induction fs arbitrary: s thesis)
  case Nil
  then show ?case by simp
next
  case (Cons f fs)
  obtain u where u: "sched_yield (compute f s) = Inr u" "sched_ok u" "busy u" "ring u = rotate1 (ring s)"
    using slice_step [OF Cons(3,4)] by blast
  obtain t where t: "run_slices fs u = Inr t" "sched_ok t" "busy t" "ring t = rotate (length fs) (ring u)"
    using Cons(1) [OF _ u(2,3)] by blast
  show ?case
    using t u by (intro Cons(2) [of t]) (simp_all add: rotate1_rotate_swap [symmetric])
qed

lemma run_slices_append: "run_slices (fs @ gs) s = rbind (run_slices fs s) (run_slices gs)"
  by (induction fs arbitrary: s) (auto simp: rbind_assoc intro: rbind_cong)

text \<open>A process that waits keeps its context until it runs again, and then runs on from it.\<close>

lemma waiting_resumes:
  assumes "sched_ok s" and "busy s" and "ready s = ps @ p # qs" and "length fs = Suc (length ps)"
  obtains t where "run_slices fs s = Inr t" and "sched_ok t" and "busy t" and "current t = p"
    and "regs_of t = regs.truncate (ctx (proc_at s p))" and "sstatus (hart t) = x_sstatus (ctx (proc_at s p))"
  using assms
proof (induction fs arbitrary: s ps qs thesis)
  case Nil
  then show ?case by simp
next
  case (Cons f fs)
  obtain u where u: "sched_yield (compute f s) = Inr u" "sched_ok u" "busy u" "ring u = rotate1 (ring s)"
    "\<And>p. p \<noteq> current s \<Longrightarrow> ctx (proc_at u p) = ctx (proc_at s p)"
    "regs_of u = regs.truncate (ctx (proc_at u (current u)))" "sstatus (hart u) = x_sstatus (ctx (proc_at u (current u)))"
    using slice_step [OF Cons(3,4), of f] by metis
  have p: "p \<noteq> current s" using Cons(3,5) by (auto simp: sched_ok_def)
  have r: "current u # ready u = ps @ p # qs @ [current s]" using u(4) Cons(5) by (simp add: ring_def)
  show ?case
  proof (cases ps)
    case Nil
    then show ?thesis using u p r Cons(6) by (intro Cons(2) [of u]) auto
  next
    case (Cons q ps')
    then have "ready u = ps' @ p # (qs @ [current s])" "length fs = Suc (length ps')" using r Cons.prems(5) by auto
    then obtain t where "run_slices fs u = Inr t" "sched_ok t" "busy t" "current t = p"
      "regs_of t = regs.truncate (ctx (proc_at u p))" "sstatus (hart t) = x_sstatus (ctx (proc_at u p))"
      using Cons.IH [OF _ u(2,3)] by metis
    then show ?thesis using u p by (intro Cons.prems(1) [of t]) simp_all
  qed
qed

end
