(* ===== verification/Task_Properties.thy ===== *)
theory Task_Properties
  imports Sched_Correct Pid
begin

text \<open>
  What the scheduler and the allocation of process ids promise.
\<close>

section \<open>A concrete system\<close>

text \<open>Hart 0 runs the process at address 0x100; those at 0x200 and 0x300 wait; the idle process is at 0x10.\<close>

definition demo_regs :: "u64 \<Rightarrow> regs" where
  "demo_regs n = \<lparr>x_ra = n, x_sp = n, x_gp = n, x_s0 = n, x_s1 = n, x_s2 = n, x_s3 = n, x_s4 = n, x_s5 = n, x_s6 = n,
     x_s7 = n, x_s8 = n, x_s9 = n, x_s10 = n, x_s11 = n\<rparr>"

definition demo_proc :: "int \<Rightarrow> link \<Rightarrow> u64 \<Rightarrow> proc" where
  "demo_proc st l n = \<lparr>comm = ''demo'', pid = 2, tgid = 2, p_pagetable = 0, p_vma = None,
     ctx = regs.extend (demo_regs n) \<lparr>x_sstatus = 2\<rparr>, p_tf = 0, kstack = 0, p_state = st, p_runq = l, p_parent = 0,
     p_children = [], p_sibling = Stale, p_fd_table = 0, pwd = 0, p_lock = SPINLOCK_INITIALIZER ''demo''\<rparr>"

definition demo_sched :: sched where
  "demo_sched = \<lparr>hart = \<lparr>tp = 0, sstatus = 2, intr_state = 0, intr_depth = 0\<rparr>, regs_of = demo_regs 7,
     proc_at = (\<lambda>p. if p = 0x10 then demo_proc PROC_IDLE Stale 0 else if p = 0x100 then demo_proc PROC_RUNNING Stale 1
       else demo_proc PROC_RUNNABLE On_List (p + 1)),
     cpus = [\<lparr>cur_proc = 0x100, idle = 0x10, need_resched = False, idle_stack = 0x2000\<rparr>],
     runqs = [\<lparr>queue = [0x200, 0x300], rq_lock = SPINLOCK_INITIALIZER ''runq''\<rparr>]\<rparr>"

lemma demo_sched_ok: "sched_ok demo_sched" "busy demo_sched"
  by (simp_all add: sched_ok_def busy_def sched_view demo_sched_def demo_proc_def hart_ok_def lock_free_def
      SPINLOCK_INITIALIZER_def proc_states)

lemma demo_ring: "ring demo_sched = [0x100, 0x200, 0x300]" "ready demo_sched = [0x200, 0x300]"
  "current demo_sched = 0x100"
  by (simp_all add: ring_def sched_view demo_sched_def)

section \<open>The scheduler\<close>

text \<open>
  C6: The processes of a hart run in turn. Whatever they compute in their slices, every yield succeeds and
  rotates the ring of the running process and the run queue by one place; so each of them runs within as many
  yields as there are processes before it.
\<close>

theorem sched_round_robin:
  assumes "sched_ok s" and "busy s"
  shows "(\<forall>fs. \<exists>t. run_slices fs s = Inr t \<and> sched_ok t \<and> busy t \<and> ring t = rotate (length fs) (ring s)) \<and>
    (\<forall>p\<in>set (ring s). \<exists>k<length (ring s). \<forall>fs. length fs = k \<longrightarrow>
       (\<exists>t. run_slices fs s = Inr t \<and> current t = p))"
proof (intro conjI allI ballI)
  fix fs show "\<exists>t. run_slices fs s = Inr t \<and> sched_ok t \<and> busy t \<and> ring t = rotate (length fs) (ring s)"
    by (rule run_slices_ok [OF assms]) blast
next
  fix p assume "p \<in> set (ring s)"
  then obtain k where k: "k < length (ring s)" "ring s ! k = p" by (auto simp: in_set_conv_nth)
  have "\<exists>t. run_slices fs s = Inr t \<and> current t = p" if len: "length fs = k" for fs
  proof -
    obtain t where t: "run_slices fs s = Inr t" "ring t = rotate k (ring s)"
      using run_slices_ok [OF assms, of fs] len by blast
    have "current t = hd (ring t)" by (simp add: ring_def)
    also have "\<dots> = ring s ! (k mod length (ring s))"
      unfolding t(2) by (rule hd_rotate_conv_nth) (simp add: ring_def)
    finally have "current t = p" using k by simp
    then show ?thesis using t(1) by blast
  qed
  then show "\<exists>k<length (ring s). \<forall>fs. length fs = k \<longrightarrow> (\<exists>t. run_slices fs s = Inr t \<and> current t = p)"
    using k(1) by blast
qed

theorem sched_round_robin_witness:
  "\<exists>t. run_slices [\<lambda>r. r, \<lambda>r. r] demo_sched = Inr t \<and> ring t = [0x300, 0x100, 0x200]"
proof -
  obtain t where "run_slices [\<lambda>r. r, \<lambda>r. r] demo_sched = Inr t"
    "ring t = rotate (length [\<lambda>r :: regs. r, \<lambda>r. r]) (ring demo_sched)"
    using sched_round_robin [OF demo_sched_ok, THEN conjunct1] by blast
  then show ?thesis by (simp add: demo_ring numeral_2_eq_2)
qed

text \<open>
  C14: A process that yields is resumed, after one slice of every other process, with exactly the registers and
  the interrupt status it had when it yielded, whatever the others did to theirs.
\<close>

theorem yield_resumes_context:
  assumes "sched_ok s" and "busy s" and "length fs = length (ring s)"
  shows "\<exists>t. run_slices fs s = Inr t \<and> current t = current s \<and> regs_of t = hd fs (regs_of s) \<and>
    sstatus (hart t) = sstatus (hart s)"
proof -
  have tr: "regs.truncate (save_context r x) = r" "x_sstatus (save_context r x) = x" for r x
    by (simp_all add: save_context_def regs.truncate_def regs.extend_def)
  obtain f gs where fs: "fs = f # gs" using assms(3) by (cases fs) (auto simp: ring_def)
  obtain u where u: "sched_yield (compute f s) = Inr u" "sched_ok u" "busy u" "ring u = rotate1 (ring s)"
    "ctx (proc_at u (current s)) = save_context (f (regs_of s)) (sstatus (hart s))"
    "regs_of u = regs.truncate (ctx (proc_at u (current u)))" "sstatus (hart u) = x_sstatus (ctx (proc_at u (current u)))"
    using slice_step [OF assms(1,2), of f] by metis
  show ?thesis
  proof (cases "ready s")
    case Nil
    then have "current u = current s" "gs = []" using u(4) assms(3) fs by (auto simp: ring_def)
    then show ?thesis using u fs tr by simp
  next
    case (Cons q qs)
    then have "ready u = qs @ [current s]" "length gs = Suc (length qs)"
      using u(4) assms(3) fs by (auto simp: ring_def)
    then show ?thesis
      using waiting_resumes [OF u(2,3), of qs "current s" "[]" gs] u(1,5) fs tr by fastforce
  qed
qed

theorem yield_resumes_context_witness:
  "\<exists>t. run_slices [\<lambda>_. demo_regs 8, \<lambda>_. demo_regs 9, \<lambda>_. demo_regs 10] demo_sched = Inr t \<and>
     current t = 0x100 \<and> regs_of t = demo_regs 8"
proof -
  have "length [\<lambda>_. demo_regs 8, \<lambda>_. demo_regs 9, \<lambda>_. demo_regs 10] = length (ring demo_sched)"
    by (simp add: demo_ring)
  from yield_resumes_context [OF demo_sched_ok this] show ?thesis
    unfolding demo_ring list.sel by blast
qed

section \<open>Process ids\<close>

text \<open>
  C13: However the harts interleave, the ids that \<^verbatim>\<open>alloc_pid\<close> returns between two wraps of the counter are all
  different, are issued in increasing order without gaps from \<^verbatim>\<open>PID_MIN\<close>, and are within the bounds.
\<close>

theorem alloc_pid_unique:
  assumes "pid_reachable s"
  shows "distinct (issued s) \<and> issued s = [PID_MIN..sint (counter s) - 1] \<and>
    (\<forall>i p. pc_of s i = Done p \<longrightarrow> PID_MIN \<le> p \<and> p \<le> PID_MAX)"
  using pid_reachable_inv [OF assms] by (simp add: pid_inv_def)

theorem alloc_pid_unique_witness:
  "\<exists>s. pid_reachable s \<and> issued s = [2] \<and> pc_of s 1 = Done 2 \<and> pc_of s 0 = Start \<and> distinct (issued s)"
proof -
  let ?s0 = "\<lparr>counter = ATOMIC64_INIT PID_MIN, pc_of = (\<lambda>_. Start), issued = []\<rparr>"
  let ?s1 = "goto_pc 1 (Have (atomic64_read (counter ?s0))) ?s0"
  let ?s2 = "goto_pc 1 (Done (sint (2 :: s64))) (?s1\<lparr>counter := 3, issued := issued ?s1 @ [sint (2 :: s64)]\<rparr>)"
  have "pid_step ?s1 ?s2"
    by (rule pid_step.take [of _ _ _ 2])
       (simp_all add: goto_pc_def atomic64_read_def ATOMIC64_INIT_def atomic64_cmpxchg_def compare_exchange_def
         PID_MIN_def PID_MAX_def)
  moreover have "pid_reachable ?s1" by (rule pid_reachable.step [OF pid_reachable.boot pid_step.read]) simp
  ultimately have r: "pid_reachable ?s2" by (rule pid_reachable.step [rotated])
  show ?thesis
    using alloc_pid_unique [OF r] r by (intro exI [of _ ?s2]) (simp add: goto_pc_def)
qed

end
