(* ===== verification/Kthread_Properties.thy ===== *)
theory Kthread_Properties
  imports Proc Task_Properties Fs_Properties
begin

text \<open>
  The creation and the end of kernel threads, on a hart that holds no lock.
\<close>

section \<open>Exit\<close>

lemma busy_not_idle: "sched_ok s \<Longrightarrow> busy s \<Longrightarrow> current s \<noteq> idle_of s"
  by (auto simp: sched_ok_def busy_def proc_states)

lemma upd_proc_view [simp]:
  "current (upd_proc p g s) = current s" "ready (upd_proc p g s) = ready s" "idle_of (upd_proc p g s) = idle_of s"
  "my_runq (upd_proc p g s) = my_runq s" "r_tp (upd_proc p g s) = r_tp s" "thiscpu (upd_proc p g s) = thiscpu s"
  by (simp_all add: sched_view)

lemma sched_ok_upd_state:
  assumes "sched_ok s" and "current s \<noteq> idle_of s"
  shows "sched_ok (upd_proc (current s) (\<lambda>x. x\<lparr>p_state := v\<rparr>) s)"
  using assms by (auto simp: sched_ok_def runnable_def)

text \<open>
  C30: A kernel thread that exits becomes a zombie and gives the hart to the next process, or to the idle process
  when none waits; it is on no queue, and no later yield of the others runs it again, so the \<^verbatim>\<open>panic\<close> behind its
  last yield is never reached.
\<close>

theorem kthread_exit_final:
  assumes "sched_ok s" and "busy s"
  shows "\<exists>t. kthread_exit code s = Inr t \<and> sched_ok t \<and> p_state (proc_at t (current s)) = PROC_ZOMBIE \<and>
    current s \<notin> set (ring t) \<and>
    (if ready s = [] then current t = idle_of s \<and> ready t = [] else busy t \<and> ring t = ready s) \<and>
    (busy t \<longrightarrow> (\<forall>fs. \<exists>u. run_slices fs t = Inr u \<and> current u \<noteq> current s))"
proof -
  let ?s = "upd_proc (current s) (\<lambda>x. x\<lparr>p_state := PROC_ZOMBIE\<rparr>) s"
  have ni: "current s \<noteq> idle_of s" by (rule busy_not_idle [OF assms])
  have ex: "kthread_exit code s = sched_yield ?s"
    using assms by (simp add: kthread_exit_def sched_ok_def current_def Let_def)
  obtain t where t: "sched_yield ?s = Inr t" "yielded ?s t" "sched_ok t"
    using sched_yield_step [OF sched_ok_upd_state [OF assms(1) ni, of PROC_ZOMBIE]] by blast
  have q: "requeued ?s = []" by (simp add: requeued_def proc_states)
  have c: "current t = (if ready s = [] then idle_of s else hd (ready s))" "ready t = tl (ready s)"
    using t(2) q by (auto simp: yielded_def next_of_def split: list.splits)
  have nr: "current s \<notin> set (ring t)"
    using c ni assms(1) by (cases "ready s") (auto simp: ring_def sched_ok_def)
  have z: "p_state (proc_at t (current s)) = PROC_ZOMBIE"
    using t(2) nr by (auto simp: yielded_def ring_def proc_states)
  have b: "busy t" if "ready s \<noteq> []"
  proof -
    have "hd (ready s) \<noteq> idle_of s" using that assms(1) by (cases "ready s") (auto simp: sched_ok_def)
    then show ?thesis using that c t(2) by (simp add: busy_def yielded_def)
  qed
  have stay: "\<exists>u. run_slices fs t = Inr u \<and> current u \<noteq> current s" if bt: "busy t" for fs
  proof -
    obtain u where u: "run_slices fs t = Inr u" "ring u = rotate (length fs) (ring t)"
      using run_slices_ok [OF t(3) bt] by blast
    have "current u \<in> set (ring u)" by (simp add: ring_def)
    then show ?thesis using u nr by auto
  qed
  have "ring t = ready s" if "ready s \<noteq> []" using that c by (simp add: ring_def)
  then show ?thesis using ex t(1,3) z nr c b stay by auto
qed

theorem kthread_exit_final_witness:
  "\<exists>t. kthread_exit 0 demo_sched = Inr t \<and> p_state (proc_at t 0x100) = PROC_ZOMBIE \<and> ring t = [0x200, 0x300]"
  using kthread_exit_final [OF demo_sched_ok, of 0] by (auto simp: demo_ring)

section \<open>Creation\<close>

text \<open>
  No lock of the file-system layer is held. The heap serves the requests \<open>ns\<close>, in this order, from the state \<open>w\<close>; nothing is
  asked of it for other sizes or later states. A new thread needs the process, its descriptor table with its array, and a stack.
\<close>

definition tasks_quiet :: "'w tasks \<Rightarrow> bool" where
  "tasks_quiet s \<longleftrightarrow> fs_quiet ((t_fs s)\<lparr>fs_cpu := hart s\<rparr>)"

fun heap_serves :: "'w env \<Rightarrow> u64 list \<Rightarrow> 'w \<Rightarrow> bool" where
  "heap_serves E [] w \<longleftrightarrow> True"
| "heap_serves E (n # ns) w \<longleftrightarrow> (let (p, w') = kalloc E n w in p \<noteq> NULL \<and> heap_serves E ns w')"

definition fd_table_sizes :: "u64 list" where
  "fd_table_sizes = [sizeof_fd_table, 8 * ucast NR_OPEN_DEFAULT]"

definition thread_sizes :: "u64 list" where
  "thread_sizes = sizeof_proc # fd_table_sizes @ [PAGE_SIZE]"

definition task_frame :: "'w tasks \<Rightarrow> 'w tasks \<Rightarrow> bool" where
  "task_frame s t \<longleftrightarrow> runqs t = runqs s \<and> cpus t = cpus s \<and> regs_of t = regs_of s \<and> next_pid t = next_pid s \<and>
     kpagetable t = kpagetable s \<and> stack_mem t = stack_mem s \<and> tp (hart t) = tp (hart s) \<and> tasks_quiet t"

lemma tasks_quiet_hart: "tasks_quiet s \<Longrightarrow> hart_ok (hart s)"
  by (simp add: tasks_quiet_def fs_quiet_def)

lemma tp_passed: "tp (fs_cpu (passed l st)) = tp (fs_cpu st)"
  by (simp add: passed_def)

lemma vfs_get_root_quiet:
  assumes "fs_quiet st"
  shows "vfs_get_root st = Inr (if root_mount st \<noteq> NULL then mnt_root (mount_at st (root_mount st)) else NULL,
    passed Vfs_State st)"
  using assms by (simp add: vfs_get_root_def fs_locking passed_def Let_def)

lemma heap_alloc_ready:
  assumes "heap_serves E (n # ns) (world st)" and "fs_quiet st"
  obtains p u where "heap_alloc E n st = (p, u)" and "p \<noteq> NULL" and "fs_quiet u" and "fs_cpu u = fs_cpu st"
    and "heap_serves E ns (world u)"
proof -
  obtain p w where k: "kalloc E n (world st) = (p, w)" by (cases "kalloc E n (world st)")
  then have "p \<noteq> NULL" "heap_serves E ns w" using assms(1) by simp_all
  then show ?thesis
    using k assms(2) by (intro that [of p "st\<lparr>world := w\<rparr>"]) (simp_all add: heap_alloc_def fs_quiet_def)
qed

lemma fd_table_alloc_ready:
  assumes "heap_serves E (fd_table_sizes @ ns) (world st)" and "fs_quiet st"
  obtains t u where "fd_table_alloc E st = (t, u)" and "t \<noteq> NULL" and "fs_quiet u" and "fs_cpu u = fs_cpu st"
    and "heap_serves E ns (world u)"
proof -
  have h: "heap_serves E (sizeof_fd_table # (8 * ucast NR_OPEN_DEFAULT) # ns) (world st)"
    using assms(1) by (simp add: fd_table_sizes_def)
  obtain t u where t: "heap_alloc E sizeof_fd_table st = (t, u)" "t \<noteq> NULL" "fs_quiet u" "fs_cpu u = fs_cpu st"
    "heap_serves E ((8 * ucast NR_OPEN_DEFAULT) # ns) (world u)"
    by (rule heap_alloc_ready [OF h assms(2)])
  obtain p v where p: "heap_alloc E (8 * ucast NR_OPEN_DEFAULT) u = (p, v)" "p \<noteq> NULL" "fs_quiet v" "fs_cpu v = fs_cpu u"
    "heap_serves E ns (world v)"
    by (rule heap_alloc_ready [OF t(5,3)])
  show ?thesis
    using t p
    by (intro that [of t "snd (fd_table_alloc E st)"])
       (simp_all add: fd_table_alloc_def init_lock_def upd_fdt_def fs_quiet_def lock_free_def SPINLOCK_INITIALIZER_def)
qed

text \<open>\<open>fs_moved s t\<close>: \<open>t\<close> is \<open>s\<close> after a call into the file-system layer.\<close>

definition fs_moved :: "'w tasks \<Rightarrow> 'w tasks \<Rightarrow> bool" where
  "fs_moved s t \<longleftrightarrow> (\<exists>u. t = s\<lparr>hart := fs_cpu u, t_fs := u\<rparr> \<and> tp (fs_cpu u) = tp (hart s) \<and> fs_quiet u)"

lemma fs_movedI: "fs_quiet u \<Longrightarrow> tp (fs_cpu u) = tp (hart s) \<Longrightarrow> fs_moved s (s\<lparr>hart := fs_cpu u, t_fs := u\<rparr>)"
  unfolding fs_moved_def by blast

lemma fs_moved_frame: "fs_moved s t \<Longrightarrow> task_frame s t \<and> proc_at t = proc_at s \<and> tasks_quiet t"
  by (auto simp: fs_moved_def task_frame_def tasks_quiet_def)

lemma task_frame_trans [trans]: "task_frame s t \<Longrightarrow> task_frame t u \<Longrightarrow> task_frame s u"
  by (simp add: task_frame_def)

lemma task_frame_quiet: "task_frame s t \<Longrightarrow> tasks_quiet t"
  by (simp add: task_frame_def)

lemma upd_proc_tasks [simp]:
  "t_fs (upd_proc p g s) = t_fs s" "next_pid (upd_proc p g s) = next_pid s" "kpagetable (upd_proc p g s) = kpagetable s"
  "stack_mem (upd_proc p g s) = stack_mem s" "vmas (upd_proc p g s) = vmas s" "ptables (upd_proc p g s) = ptables s"
  by (simp_all add: upd_proc_def)

lemma tasks_quiet_upd_proc [simp]: "tasks_quiet (upd_proc p g s) = tasks_quiet s"
  by (simp add: tasks_quiet_def)

lemma task_frame_upd_proc: "tasks_quiet s \<Longrightarrow> task_frame s (upd_proc p g s)"
  by (simp add: task_frame_def)

lemma kmalloc_task_ready:
  assumes "heap_serves E (n # ns) (world (t_fs s))" and "tasks_quiet s"
  obtains t where "kmalloc_task E n s = (fst (kalloc E n (world (t_fs s))), t)" and "task_frame s t"
    and "proc_at t = proc_at s" and "fst (kalloc E n (world (t_fs s))) \<noteq> NULL" and "heap_serves E ns (world (t_fs t))"
proof -
  obtain p w where k: "kalloc E n (world (t_fs s)) = (p, w)" by (cases "kalloc E n (world (t_fs s))")
  then have "p \<noteq> NULL" "heap_serves E ns w" using assms(1) by simp_all
  then show ?thesis
    using k assms(2)
    by (intro that [of "s\<lparr>t_fs := (t_fs s)\<lparr>world := w\<rparr>\<rparr>"])
       (simp_all add: kmalloc_task_def heap_alloc_def task_frame_def tasks_quiet_def fs_quiet_def)
qed

lemma on_fs_table:
  assumes "heap_serves E (fd_table_sizes @ ns) (world (t_fs s))" and "tasks_quiet s"
  obtains f t where "on_fs (\<lambda>st. Inr (fd_table_alloc E st)) s = Inr (f, t)" and "f \<noteq> NULL" and "fs_moved s t"
    and "heap_serves E ns (world (t_fs t))"
proof -
  have "heap_serves E (fd_table_sizes @ ns) (world ((t_fs s)\<lparr>fs_cpu := hart s\<rparr>))" using assms(1) by simp
  then obtain f u where "fd_table_alloc E ((t_fs s)\<lparr>fs_cpu := hart s\<rparr>) = (f, u)" "f \<noteq> NULL" "fs_quiet u"
    "fs_cpu u = hart s" "heap_serves E ns (world u)"
    by (rule fd_table_alloc_ready [OF _ assms(2) [unfolded tasks_quiet_def]]) simp
  then show ?thesis
    by (intro that [of f "s\<lparr>hart := fs_cpu u, t_fs := u\<rparr>"] fs_movedI) (simp_all add: on_fs_def)
qed

lemma on_fs_root:
  assumes "tasks_quiet s"
  obtains d t where "on_fs vfs_get_root s = Inr (d, t)" and "fs_moved s t" and "world (t_fs t) = world (t_fs s)"
proof -
  let ?u = "(t_fs s)\<lparr>fs_cpu := hart s\<rparr>"
  let ?t = "s\<lparr>hart := fs_cpu (passed Vfs_State ?u), t_fs := passed Vfs_State ?u\<rparr>"
  let ?d = "if root_mount (t_fs s) \<noteq> NULL then mnt_root (mount_at (t_fs s) (root_mount (t_fs s))) else NULL"
  have "on_fs vfs_get_root s = Inr (?d, ?t)"
    using assms by (simp add: on_fs_def vfs_get_root_quiet tasks_quiet_def)
  moreover have "fs_moved s ?t"
    using assms by (intro fs_movedI) (simp_all add: tasks_quiet_def tp_passed)
  ultimately show ?thesis by (rule that) simp
qed

lemma on_fs_get:
  assumes "tasks_quiet s" and "d \<noteq> NULL"
  obtains t where "on_fs' (dentry_get d) s = Inr t" and "fs_moved s t" and "world (t_fs t) = world (t_fs s)"
proof -
  let ?u = "(t_fs s)\<lparr>fs_cpu := hart s\<rparr>"
  let ?v = "upd_dentry d (\<lambda>x. x\<lparr>d_refcnt := d_refcnt x + 1\<rparr>) ?u"
  have "fs_quiet ?v" using assms(1) by (simp add: tasks_quiet_def fs_quiet_def upd_dentry_def)
  moreover have "tp (fs_cpu (passed (Dentry_Lock d) ?v)) = tp (hart s)" by (simp add: tp_passed upd_dentry_def)
  ultimately show ?thesis
    using assms
    by (intro that [of "s\<lparr>hart := fs_cpu (passed (Dentry_Lock d) ?v), t_fs := passed (Dentry_Lock d) ?v\<rparr>"] fs_movedI)
       (simp_all add: on_fs'_def dentry_get_quiet tasks_quiet_def, simp add: upd_dentry_def)
qed

lemma alloc_proc_ready:
  assumes "tasks_quiet s" and "heap_serves E (sizeof_proc # fd_table_sizes @ ns) (world (t_fs s))"
  obtains p x t where "alloc_proc E s = Inr (p, t)" and "p = fst (kalloc E sizeof_proc (world (t_fs s)))"
    and "p \<noteq> NULL" and "proc_at t = (proc_at s)(p := x)" and "p_runq x = Stale" and "p_state x = PROC_UNUSED"
    and "x_gp (ctx x) = ktf_of p" and "x_sstatus (ctx x) = SSTATUS_SIE" and "task_frame s t"
    and "heap_serves E ns (world (t_fs t))"
proof -
  define p where "p = fst (kalloc E sizeof_proc (world (t_fs s)))"
  define x where "x = zero_proc\<lparr>p_state := PROC_UNUSED, ctx := zero_ctxt\<lparr>x_gp := ktf_of p, x_sstatus := SSTATUS_SIE\<rparr>\<rparr>"
  obtain s1 where s1: "kmalloc_task E sizeof_proc s = (p, s1)" "task_frame s s1" "proc_at s1 = proc_at s" "p \<noteq> NULL"
    "heap_serves E (fd_table_sizes @ ns) (world (t_fs s1))"
    unfolding p_def by (rule kmalloc_task_ready [OF assms(2,1)])
  define s2 where "s2 = upd_proc p (\<lambda>_. x) s1"
  have f2: "task_frame s s2" using s1(2) task_frame_upd_proc task_frame_trans task_frame_quiet s2_def by metis
  obtain f s3 where s3: "on_fs (\<lambda>st. Inr (fd_table_alloc E st)) s2 = Inr (f, s3)" "f \<noteq> NULL" "fs_moved s2 s3"
    "heap_serves E ns (world (t_fs s3))"
    using on_fs_table [of E ns s2, OF _ task_frame_quiet [OF f2]] s1(5) by (auto simp: s2_def)
  define s4 where "s4 = upd_proc p (\<lambda>x. x\<lparr>p_fd_table := f\<rparr>) s3"
  have f4: "task_frame s s4"
    using f2 fs_moved_frame [OF s3(3)] task_frame_upd_proc task_frame_trans s4_def by metis
  obtain d s5 where s5: "on_fs vfs_get_root s4 = Inr (d, s5)" "fs_moved s4 s5" "world (t_fs s5) = world (t_fs s4)"
    using on_fs_root [OF task_frame_quiet [OF f4]] by blast
  define s6 where "s6 = upd_proc p (\<lambda>x. x\<lparr>pwd := d\<rparr>) s5"
  have f6: "task_frame s s6"
    using f4 fs_moved_frame [OF s5(2)] task_frame_upd_proc task_frame_trans s6_def by metis
  have p6: "proc_at s6 = (proc_at s)(p := x\<lparr>p_fd_table := f, pwd := d\<rparr>)"
    using fs_moved_frame [OF s3(3)] fs_moved_frame [OF s5(2)] s1(3) by (simp add: s6_def s4_def s2_def)
  have al: "alloc_proc E s = rbind (if d \<noteq> NULL then on_fs' (dentry_get d) s6 else Inr s6) (\<lambda>s. Inr (p, s))"
    unfolding alloc_proc_def
    using s1(1,4) s3(1,2) s5(1)
    by (simp add: s2_def [unfolded x_def, symmetric] s4_def [symmetric] s6_def [symmetric])
  have h6: "heap_serves E ns (world (t_fs s6))" using s3(4) s5(3) by (simp add: s6_def s4_def)
  have x: "p_runq x = Stale" "p_state x = PROC_UNUSED" "x_gp (ctx x) = ktf_of p" "x_sstatus (ctx x) = SSTATUS_SIE"
    by (simp_all add: x_def zero_proc_def)
  show ?thesis
  proof (cases "d = NULL")
    case True
    then show ?thesis
      using al p_def s1(4) p6 f6 h6 x by (intro that [of p s6 "x\<lparr>p_fd_table := f, pwd := d\<rparr>"]) simp_all
  next
    case False
    obtain s7 where s7: "on_fs' (dentry_get d) s6 = Inr s7" "fs_moved s6 s7" "world (t_fs s7) = world (t_fs s6)"
      using on_fs_get [OF task_frame_quiet [OF f6] False] by blast
    then have "task_frame s s7" using f6 fs_moved_frame task_frame_trans by metis
    then show ?thesis
      using al p_def s1(4) p6 h6 s7 fs_moved_frame [OF s7(2)] False x
      by (intro that [of p s7 "x\<lparr>p_fd_table := f, pwd := d\<rparr>"]) simp_all
  qed
qed

lemma sched_ok_frame:
  assumes "sched_ok s" and "cpus t = cpus s" and "runqs t = runqs s" and "tp (hart t) = tp (hart s)" and "hart_ok (hart t)"
    and "\<And>q. q \<in> {current s, idle_of s} \<union> set (ready s) \<Longrightarrow> proc_at t q = proc_at s q"
  shows "sched_ok t \<and> ready t = ready s \<and> current t = current s \<and> idle_of t = idle_of s \<and> r_tp t = r_tp s"
proof -
  have v: "r_tp t = r_tp s" "thiscpu t = thiscpu s" using assms(2,4) by (simp_all add: r_tp_def thiscpu_def)
  then have w: "my_runq t = my_runq s" "current t = current s" "idle_of t = idle_of s"
    using assms(3) by (simp_all add: my_runq_def current_def idle_of_def)
  then have "ready t = ready s" by (simp add: ready_def)
  with v w show ?thesis using assms by (simp add: sched_ok_def runnable_def)
qed

lemma enqueue_ready:
  assumes "sched_ok s" and "p \<notin> {current s, idle_of s} \<union> set (ready s)" and "p \<noteq> NULL"
    and "p_runq (proc_at s p) \<noteq> On_List" and "p_state (proc_at s p) = PROC_RUNNABLE" and "lock_free (p_lock (proc_at s p))"
  obtains t where "enqueue_proc (r_tp s) p s = Inr t" and "sched_ok t" and "ready t = ready s @ [p]"
    and "current t = current s" and "proc_at t = (proc_at s)(p := (proc_at s p)\<lparr>p_runq := On_List\<rparr>)"
    and "sched.more t = sched.more s"
proof -
  let ?t = "s\<lparr>hart := leave (hart s), proc_at := (proc_at s)(p := (proc_at s p)\<lparr>p_runq := On_List\<rparr>),
    runqs := (runqs s)[r_tp s := (runqs s ! r_tp s)\<lparr>queue := queue (runqs s ! r_tp s) @ [p],
      rq_lock := unhold (rq_lock (runqs s ! r_tp s))\<rparr>]\<rparr>"
  have e: "enqueue_proc (r_tp s) p s = Inr ?t"
    using assms by (intro enqueue_proc_eq) (auto simp: sched_ok_def my_runq_def)
  have l: "r_tp s < length (runqs s)" using assms(1) by (simp add: sched_ok_def)
  have v: "r_tp ?t = r_tp s" "thiscpu ?t = thiscpu s" by (simp_all add: r_tp_def thiscpu_def)
  then have w: "current ?t = current s" "idle_of ?t = idle_of s" by (simp_all add: current_def idle_of_def)
  have q: "my_runq ?t = (my_runq s)\<lparr>queue := ready s @ [p], rq_lock := unhold (rq_lock (my_runq s))\<rparr>"
    using l v(1) by (simp add: my_runq_def ready_def)
  then have r: "ready ?t = ready s @ [p]" by (simp add: ready_def)
  have "sched_ok ?t"
    unfolding sched_ok_def v(1) w r q using assms by (auto simp: sched_ok_def runnable_def)
  then show ?thesis using e w(1) r by (intro that [of ?t]) simp_all
qed

lemma kthread_start_frame:
  assumes "x_sp r = tos - 16"
  shows "kthread_start (m(tos - 16 := fn, tos - 16 + 8 := arg)) r = (fn, arg, r\<lparr>x_sp := tos\<rparr>)"
  using assms by (simp add: kthread_start_def)

text \<open>The process as \<^verbatim>\<open>kthread_create\<close> puts it on the queue, from the one that \<^verbatim>\<open>alloc_proc\<close> returned.\<close>

definition thread_of :: "addr \<Rightarrow> string \<Rightarrow> int \<Rightarrow> addr \<Rightarrow> addr \<Rightarrow> proc \<Rightarrow> proc" where
  "thread_of ks name i pt k x = x\<lparr>comm := take 16 name, pid := i, tgid := i, p_pagetable := pt,
     ctx := (ctx x)\<lparr>x_ra := ks, x_sp := ((k + PAGE_SIZE) AND NOT 0xF) - 16\<rparr>, kstack := k,
     p_state := PROC_RUNNABLE, p_lock := SPINLOCK_INITIALIZER name\<rparr>"

lemma kthread_create_enqueues:
  assumes "alloc_proc E s = Inr (p, s1)" and "p \<noteq> NULL" and "proc_at s1 = (proc_at s)(p := x)"
    and "alloc_pid (next_pid s1) = Some (i, n)" and "tasks_quiet s1"
    and "heap_serves E [PAGE_SIZE] (world (t_fs s1))"
  obtains k u where "kthread_create E ks fn arg (Some name) s = rbind (enqueue_proc (r_tp u) p u) (\<lambda>s. Inr (p, s))"
    and "proc_at u = (proc_at s)(p := thread_of ks name i (kpagetable s1) k x)"
    and "stack_mem u = (stack_mem s1)(((k + PAGE_SIZE) AND NOT 0xF) - 16 := fn, ((k + PAGE_SIZE) AND NOT 0xF) - 16 + 8 := arg)"
    and "cpus u = cpus s1" and "runqs u = runqs s1" and "tp (hart u) = tp (hart s1)" and "hart_ok (hart u)"
    and "k \<noteq> NULL"
proof -
  define s2 where "s2 = upd_proc p (set_comm (Some name)) s1"
  define s2' where "s2' = s2\<lparr>next_pid := n\<rparr>"
  define s3 where "s3 = upd_proc p (\<lambda>x. x\<lparr>pid := i, tgid := i, p_pagetable := kpagetable s2',
    p_lock := SPINLOCK_INITIALIZER name\<rparr>) s2'"
  have kp: "kpagetable s2' = kpagetable s1" by (simp add: s2'_def s2_def)
  have q3: "tasks_quiet s3" using assms(5) by (simp add: s3_def s2'_def s2_def tasks_quiet_def)
  have h3: "heap_serves E [PAGE_SIZE] (world (t_fs s3))" using assms(6) by (simp add: s3_def s2'_def s2_def)
  obtain k s4 where s4: "kmalloc_task E PAGE_SIZE s3 = (k, s4)" "task_frame s3 s4" "proc_at s4 = proc_at s3" "k \<noteq> NULL"
    by (rule kmalloc_task_ready [OF h3 q3])
  define tos where "tos = (k + PAGE_SIZE) AND NOT 0xF"
  define s5 where "s5 = upd_proc p (\<lambda>x. x\<lparr>kstack := k\<rparr>) s4"
  define s6 where "s6 = upd_proc p (\<lambda>x. x\<lparr>ctx := (ctx x)\<lparr>x_ra := ks, x_sp := tos\<rparr>\<rparr>) s5"
  define s7 where "s7 = s6\<lparr>stack_mem := (stack_mem s6)(tos - 16 := fn, tos - 16 + 8 := arg)\<rparr>"
  define u where "u = upd_proc p (\<lambda>x. x\<lparr>ctx := (ctx x)\<lparr>x_sp := tos - 16\<rparr>, p_state := PROC_RUNNABLE\<rparr>) s7"
  have l: "launch_thread ks fn arg p k s5 = rbind (enqueue_proc (r_tp u) p u) (\<lambda>s. Inr (p, s))"
    by (simp only: launch_thread_def Let_def tos_def u_def s7_def s6_def)
  have pidv: "alloc_pid (next_pid s2) = Some (i, n)" using assms(4) by (simp add: s2_def)
  have "kthread_create E ks fn arg (Some name) s = launch_thread ks fn arg p k s5"
    unfolding kthread_create_def assms(1) rbind_Inr prod.case if_not_P [OF assms(2)] Let_def s2_def [symmetric] pidv
      option.case s2'_def [symmetric] s3_def [symmetric] s4(1) if_not_P [OF s4(4)] s5_def [symmetric] by simp
  then have "kthread_create E ks fn arg (Some name) s = rbind (enqueue_proc (r_tp u) p u) (\<lambda>s. Inr (p, s))"
    using l by simp
  moreover have "proc_at u = (proc_at s)(p := thread_of ks name i (kpagetable s1) k x)"
    using s4(3) assms(3) kp by (cases x) (simp add: u_def s7_def s6_def s5_def s3_def s2'_def s2_def thread_of_def set_comm_def tos_def)
  moreover have "stack_mem u = (stack_mem s1)(tos - 16 := fn, tos - 16 + 8 := arg)" "cpus u = cpus s1"
    "runqs u = runqs s1" "tp (hart u) = tp (hart s1)"
    using s4(2) by (simp_all add: u_def s7_def s6_def s5_def s3_def s2'_def s2_def task_frame_def)
  moreover have "hart_ok (hart u)"
    using task_frame_quiet [OF s4(2), THEN tasks_quiet_hart] by (simp add: u_def s7_def s6_def s5_def)
  ultimately show ?thesis using s4(4) by (intro that [of u k]) (simp_all add: tos_def)
qed

text \<open>
  C16: When the heap serves the four requests for a thread (the process, its descriptor table and the array of it,
  one page of stack), \<^verbatim>\<open>kthread_create\<close> returns a process with the next id, named by at most 16 characters
  of the name, at the end of the run queue, which otherwise stays as it was; when it is switched to, the entry code calls
  the function with its argument, on the new stack from its 16-byte aligned top.
\<close>

theorem kthread_create_ready:
  assumes "sched_ok s" and "tasks_quiet s" and "heap_serves E thread_sizes (world (t_fs s))"
    and "p = fst (kalloc E sizeof_proc (world (t_fs s)))"
    and "p \<notin> {current s, idle_of s} \<union> set (ready s)"
  shows "\<exists>t x r. kthread_create E ks fn arg (Some name) s = Inr (p, t) \<and> x = proc_at t p \<and>
    sched_ok t \<and> current t = current s \<and> ready t = ready s @ [p] \<and> (\<forall>q. q \<noteq> p \<longrightarrow> proc_at t q = proc_at s q) \<and>
    pid x = (if sint (next_pid s) \<le> PID_MAX then sint (next_pid s) else PID_MIN) \<and> comm x = take 16 name \<and>
    x_ra (ctx x) = ks \<and> kthread_start (stack_mem t) (regs.truncate (ctx x)) = (fn, arg, r) \<and>
    x_sp r = (kstack x + PAGE_SIZE) AND NOT 0xF"
proof -
  obtain x s1 where s1: "alloc_proc E s = Inr (p, s1)" "p \<noteq> NULL" "proc_at s1 = (proc_at s)(p := x)" "p_runq x = Stale"
    "task_frame s s1" "heap_serves E [PAGE_SIZE] (world (t_fs s1))"
    using alloc_proc_ready [OF assms(2) assms(3) [unfolded thread_sizes_def]] assms(4) by metis
  define i where "i = (if sint (next_pid s) \<le> PID_MAX then sint (next_pid s) else PID_MIN)"
  obtain n where n: "alloc_pid (next_pid s1) = Some (i, n)"
    using alloc_pid_total [of "next_pid s"] s1(5)
    by (cases "sint (next_pid s) \<le> PID_MAX") (auto simp: i_def task_frame_def)
  obtain k u where u:
    "kthread_create E ks fn arg (Some name) s = rbind (enqueue_proc (r_tp u) p u) (\<lambda>s. Inr (p, s))"
    "proc_at u = (proc_at s)(p := thread_of ks name i (kpagetable s1) k x)"
    "stack_mem u = (stack_mem s1)(((k + PAGE_SIZE) AND NOT 0xF) - 16 := fn, ((k + PAGE_SIZE) AND NOT 0xF) - 16 + 8 := arg)"
    "cpus u = cpus s1" "runqs u = runqs s1" "tp (hart u) = tp (hart s1)" "hart_ok (hart u)"
    using kthread_create_enqueues [OF s1(1,2,3) n task_frame_quiet [OF s1(5)] s1(6)] by metis
  have f: "sched_ok u \<and> ready u = ready s \<and> current u = current s \<and> idle_of u = idle_of s \<and> r_tp u = r_tp s"
    using u s1(5) assms(5) by (intro sched_ok_frame [OF assms(1)]) (auto simp: task_frame_def)
  have th: "proc_at u p = thread_of ks name i (kpagetable s1) k x" by (simp add: u(2))
  have "p \<notin> {current u, idle_of u} \<union> set (ready u)" using f assms(5) by simp
  moreover have "p_runq (proc_at u p) \<noteq> On_List" "p_state (proc_at u p) = PROC_RUNNABLE" "lock_free (p_lock (proc_at u p))"
    using s1(4) by (simp_all add: th thread_of_def SPINLOCK_INITIALIZER_def lock_free_def)
  ultimately obtain t where t: "enqueue_proc (r_tp u) p u = Inr t" "sched_ok t" "ready t = ready u @ [p]"
    "current t = current u" "proc_at t = (proc_at u)(p := (proc_at u p)\<lparr>p_runq := On_List\<rparr>)" "sched.more t = sched.more u"
    using enqueue_ready [of u p] f s1(2) by metis
  have m: "stack_mem t = stack_mem u" using t(6) by (cases t; cases u) simp
  let ?x = "proc_at t p"
  let ?top = "(k + PAGE_SIZE) AND NOT 0xF"
  have x: "?x = (thread_of ks name i (kpagetable s1) k x)\<lparr>p_runq := On_List\<rparr>" by (simp add: t(5) th)
  have "kthread_start (stack_mem t) (regs.truncate (ctx ?x)) = (fn, arg, (regs.truncate (ctx ?x))\<lparr>x_sp := ?top\<rparr>)"
    unfolding m u(3) by (rule kthread_start_frame) (simp add: x thread_of_def regs.truncate_def)
  moreover have "\<forall>q. q \<noteq> p \<longrightarrow> proc_at t q = proc_at s q" by (simp add: t(5) u(2))
  ultimately show ?thesis
    using u(1) t(1-4) f x
    by (intro exI [of _ t] exI [of _ ?x] exI [of _ "(regs.truncate (ctx ?x))\<lparr>x_sp := ?top\<rparr>"])
       (simp add: thread_of_def i_def)
qed

text \<open>
  No code initialises the list of memory areas of a process: freeing one that has its own page table
  follows the null pointer in the head of that list.
\<close>

lemma free_memory_null_list:
  assumes "p_pagetable (proc_at s p) \<noteq> NULL" and "p_pagetable (proc_at s p) \<noteq> kpagetable s"
    and "p_vma (proc_at s p) = p_vma zero_proc"
  shows "free_memory E p s = Inl Null_Deref"
  using assms by (simp add: free_memory_def zero_proc_def)

text \<open>A heap that refuses what \<^verbatim>\<open>kmalloc\<close> refuses, size 0 and more than its largest block, and everything when it is used up.\<close>

definition demo_heap :: "u64 env" where
  "demo_heap = demo_env\<lparr>kalloc := (\<lambda>n w. if n = 0 \<or> push_bit BUDDY_MAX_ORDER PAGE_SIZE < n \<or> 0x100000 < w + n then (NULL, w) else (w, w + n))\<rparr>"

definition demo_tasks :: "u64 tasks" where
  "demo_tasks = sched.extend demo_sched \<lparr>t_fs = demo_fs, next_pid = 5, kpagetable = 0x3000,
     vmas = (\<lambda>_. \<lparr>v_start = 0, v_length = 0, v_perm = 0, v_type = 0, v_linked = False\<rparr>), ptables = (\<lambda>_. 0),
     stack_mem = (\<lambda>_. 0)\<rparr>"

lemma demo_tasks_ok: "sched_ok demo_tasks" "tasks_quiet demo_tasks" "heap_serves demo_heap thread_sizes (world (t_fs demo_tasks))"
proof -
  have "sched_ok demo_tasks \<longleftrightarrow> sched_ok demo_sched"
    by (simp add: sched_ok_def sched_view demo_tasks_def sched.extend_def)
  then show "sched_ok demo_tasks" using demo_sched_ok by simp
  show "tasks_quiet demo_tasks"
    using demo_quiet by (simp add: tasks_quiet_def demo_tasks_def sched.extend_def demo_sched_def fs_quiet_def hart_ok_def)
  show "heap_serves demo_heap thread_sizes (world (t_fs demo_tasks))"
    by (simp add: thread_sizes_def fd_table_sizes_def demo_heap_def demo_tasks_def sched.extend_def demo_fs_def
        sizeof_proc_def sizeof_fd_table_def NR_OPEN_DEFAULT_def config_values BUDDY_MAX_ORDER_def)
qed

theorem kthread_create_ready_witness:
  "\<exists>t. kthread_create demo_heap 0x80000000 0x9000 42 (Some ''worker'') demo_tasks = Inr (0x1000, t) \<and>
     ready t = [0x200, 0x300, 0x1000] \<and> pid (proc_at t 0x1000) = 5"
proof -
  have v: "world (t_fs demo_tasks) = 0x1000" "ready demo_tasks = [0x200, 0x300]" "current demo_tasks = 0x100"
    "idle_of demo_tasks = 0x10" "next_pid demo_tasks = 5"
    by (simp_all add: demo_tasks_def sched.extend_def demo_fs_def demo_sched_def sched_view)
  have "fst (kalloc demo_heap sizeof_proc (world (t_fs demo_tasks))) = 0x1000"
    by (simp add: v demo_heap_def sizeof_proc_def config_values BUDDY_MAX_ORDER_def)
  from kthread_create_ready [OF demo_tasks_ok this [symmetric], of "0x80000000" "0x9000" 42 "''worker''"]
  show ?thesis by (auto simp: v PID_MAX_def)
qed

end
