(* ===== verification/Plic.thy ===== *)
theory Plic
  imports Bitmap Align_Math
begin

text \<open>
  The interrupt controller driver, \<^verbatim>\<open>src/hal/plic.c\<close>. The registers that only hold what was written to them are
  arrays; the claim register, whose reads and writes are transactions with the device, is a pair of functions
  on the device state \<open>'d\<close> (\<open>claim\<close>, \<open>complete\<close>), indexed by context. \<open>up\<close> is false until \<^verbatim>\<open>plic_init\<close> has set
  the pointer to the registers.
\<close>

section \<open>Registers\<close>

definition PLIC_MAX_IRQ_NUM :: nat where "PLIC_MAX_IRQ_NUM = 1024"
definition PLIC_MAX_CTX_NUM :: nat where "PLIC_MAX_CTX_NUM = 15872"
definition PLIC_ADDR :: addr where "PLIC_ADDR = 0x0c000000"

definition PLIC_CTX :: "nat \<Rightarrow> char \<Rightarrow> nat" where
  "PLIC_CTX hart mode = hart * 2 + (if mode = CHR ''S'' then 1 else 0)"

text \<open>The packed layout of \<^verbatim>\<open>struct plic_regs\<close>: the offsets of its members.\<close>

definition off_pending :: nat where "off_pending = 4 * PLIC_MAX_IRQ_NUM"
definition off_enable :: nat where "off_enable = off_pending + 4 * (PLIC_MAX_IRQ_NUM div 32) + 0xF80"
definition off_context :: nat where
  "off_context = off_enable + PLIC_MAX_CTX_NUM * (4 * (PLIC_MAX_IRQ_NUM div 32)) + 0xE000"
definition sizeof_context_status :: nat where "sizeof_context_status = 4 + 4 + 0xFF8"

text \<open>These are the offsets of the device's specification.\<close>

lemma plic_layout: "off_pending = 0x1000" "off_enable = 0x2000" "off_context = 0x200000" "sizeof_context_status = 0x1000"
  by (simp_all add: off_pending_def off_enable_def off_context_def sizeof_context_status_def PLIC_MAX_IRQ_NUM_def
      PLIC_MAX_CTX_NUM_def)

record 'd plic =
  up :: bool
  priority :: "nat \<Rightarrow> u32"
  enable :: "nat \<Rightarrow> nat \<Rightarrow> u8"
  threshold :: "nat \<Rightarrow> u32"
  device :: 'd

record 'd plic_dev =
  claim :: "nat \<Rightarrow> 'd \<Rightarrow> u32 \<times> 'd"
  complete :: "nat \<Rightarrow> u32 \<Rightarrow> 'd \<Rightarrow> 'd"

section \<open>Operations\<close>

definition assert :: "bool \<Rightarrow> unit res" where
  "assert b = (if b then Inr () else Inl (Panic ''dynamic assertion failed''))"

definition plic_init :: "'d plic \<Rightarrow> 'd plic" where
  "plic_init p = p\<lparr>up := True\<rparr>"

definition regs_access :: "'d plic \<Rightarrow> 'a \<Rightarrow> 'a res" where
  "regs_access p x = (if up p then Inr x else Inl Null_Deref)"

definition valid_irq :: "u32 \<Rightarrow> bool" where
  "valid_irq irqno \<longleftrightarrow> irqno > 0 \<and> unat irqno < PLIC_MAX_IRQ_NUM"

definition plic_set_priority :: "u32 \<Rightarrow> u32 \<Rightarrow> 'd plic \<Rightarrow> 'd plic res" where
  "plic_set_priority irqno v p =
     rbind (assert (valid_irq irqno)) (\<lambda>_.
       regs_access p (p\<lparr>priority := (priority p)(unat irqno := v)\<rparr>))"

definition valid_mode :: "char \<Rightarrow> bool" where
  "valid_mode mode \<longleftrightarrow> mode = CHR ''S'' \<or> mode = CHR ''M''"

text \<open>The bitmap over the enable words of a context; it keeps a pointer to them.\<close>

definition irq_enabled :: "'d plic \<Rightarrow> nat \<Rightarrow> bitmap" where
  "irq_enabled p c = \<lparr>data = enable p c, len = PLIC_MAX_IRQ_NUM\<rparr>"

definition plic_enable :: "char \<Rightarrow> u64 \<Rightarrow> u32 \<Rightarrow> 'd plic \<Rightarrow> 'd plic res" where
  "plic_enable mode hartid irqno p =
     rbind (assert (valid_mode mode)) (\<lambda>_.
     rbind (assert (unat hartid < CPU_NUM)) (\<lambda>_.
     rbind (assert (valid_irq irqno)) (\<lambda>_.
       let c = PLIC_CTX (unat hartid) mode; b = bitmap_set (irq_enabled p c) (unat irqno)
       in regs_access p (p\<lparr>enable := (enable p)(c := data b)\<rparr>))))"

definition plic_disable :: "char \<Rightarrow> u64 \<Rightarrow> u32 \<Rightarrow> 'd plic \<Rightarrow> 'd plic res" where
  "plic_disable mode hartid irqno p =
     rbind (assert (valid_mode mode)) (\<lambda>_.
     rbind (assert (unat hartid < CPU_NUM)) (\<lambda>_.
     rbind (assert (valid_irq irqno)) (\<lambda>_.
       let c = PLIC_CTX (unat hartid) mode; b = bitmap_clear (irq_enabled p c) (unat irqno)
       in regs_access p (p\<lparr>enable := (enable p)(c := data b)\<rparr>))))"

definition plic_set_threshold :: "char \<Rightarrow> u64 \<Rightarrow> u32 \<Rightarrow> 'd plic \<Rightarrow> 'd plic res" where
  "plic_set_threshold mode hartid v p =
     rbind (assert (valid_mode mode)) (\<lambda>_.
     rbind (assert (unat hartid < CPU_NUM)) (\<lambda>_.
       regs_access p (p\<lparr>threshold := (threshold p)(PLIC_CTX (unat hartid) mode := v)\<rparr>)))"

definition plic_claim :: "'d plic_dev \<Rightarrow> char \<Rightarrow> u64 \<Rightarrow> 'd plic \<Rightarrow> (u32 \<times> 'd plic) res" where
  "plic_claim D mode hartid p =
     rbind (assert (valid_mode mode)) (\<lambda>_.
     rbind (assert (unat hartid < CPU_NUM)) (\<lambda>_.
       let (i, d) = claim D (PLIC_CTX (unat hartid) mode) (device p)
       in regs_access p (i, p\<lparr>device := d\<rparr>)))"

definition plic_complete :: "'d plic_dev \<Rightarrow> char \<Rightarrow> u64 \<Rightarrow> u32 \<Rightarrow> 'd plic \<Rightarrow> 'd plic res" where
  "plic_complete D mode hartid irqno p =
     rbind (assert (valid_mode mode)) (\<lambda>_.
     rbind (assert (unat hartid < CPU_NUM)) (\<lambda>_.
     rbind (assert (valid_irq irqno)) (\<lambda>_.
       regs_access p (p\<lparr>device := complete D (PLIC_CTX (unat hartid) mode) irqno (device p)\<rparr>))))"

section \<open>Lemmas\<close>

definition enabled :: "'d plic \<Rightarrow> nat \<Rightarrow> nat \<Rightarrow> bool" where
  "enabled p c i \<longleftrightarrow> i < PLIC_MAX_IRQ_NUM \<and> bm_bit (irq_enabled p c) i"

lemma PLIC_CTX_inj:
  "valid_mode m \<Longrightarrow> valid_mode m' \<Longrightarrow> PLIC_CTX h m = PLIC_CTX h' m' \<longleftrightarrow> h = h' \<and> m = m'"
  by (auto simp: PLIC_CTX_def valid_mode_def) presburger+

lemma irq_enabled_data [simp]: "irq_enabled (p\<lparr>enable := (enable p)(c := data b)\<rparr>) c' =
    (if c' = c then \<lparr>data = data b, len = PLIC_MAX_IRQ_NUM\<rparr> else irq_enabled p c')"
  by (simp add: irq_enabled_def)

lemma bm_bit_data: "bm_bit \<lparr>data = data b, len = n\<rparr> i = bm_bit b i"
  by (simp add: bm_bit_def)

lemma len_irq_enabled [simp]: "len (irq_enabled p c) = PLIC_MAX_IRQ_NUM"
  by (simp add: irq_enabled_def)

lemma enabled_set:
  assumes "i < PLIC_MAX_IRQ_NUM"
  shows "enabled (p\<lparr>enable := (enable p)(c := data (bitmap_set (irq_enabled p c) i))\<rparr>) c' j \<longleftrightarrow>
    enabled p c' j \<or> c' = c \<and> j = i"
  using assms by (auto simp: enabled_def bm_bit_data bm_bit_set)

lemma enabled_clear:
  assumes "i < PLIC_MAX_IRQ_NUM"
  shows "enabled (p\<lparr>enable := (enable p)(c := data (bitmap_clear (irq_enabled p c) i))\<rparr>) c' j \<longleftrightarrow>
    enabled p c' j \<and> \<not> (c' = c \<and> j = i)"
  using assms by (auto simp: enabled_def bm_bit_data bm_bit_clear)

end
