(* ===== verification/Trap.thy ===== *)
theory Trap
  imports Sched_Correct Plic
begin

text \<open>
  Kernel traps: \<^verbatim>\<open>trap_init\<close>, \<^verbatim>\<open>handle_external\<close> and \<^verbatim>\<open>kerneltrap\<close> of \<^verbatim>\<open>src/trap/trap.c\<close> (its interrupt nesting is in
  Spinlock) and the timer of \<^verbatim>\<open>src/hal/timer.c\<close>. The state adds to the scheduler's the control registers they
  write, the counters of the timer, the deadline last given to the firmware (\<open>timecmp\<close>) and the interrupt
  controller. What the hardware and the block driver do is a record of functions: the time, the hart's own
  number as \<^verbatim>\<open>r_mhartid\<close> reads it (a fault where the register may not be read) and the interrupt routine of the
  disk.
\<close>

section \<open>State\<close>

text \<open>The part of \<^verbatim>\<open>struct ktrapframe\<close> that C code reads; assembly code saves and restores the registers after it.\<close>

record ktrapframe =
  kt_sepc :: u64
  kt_sstatus :: u64
  kt_scause :: u64

record 'd trapsys = sched +
  sie :: u64
  stvec :: u64
  kernel_tick :: u64
  last_irq :: u64
  interval :: u64
  timecmp :: u64
  sched_enabled :: bool
  plic :: "'d plic"

record 'd machine =
  r_time :: u64
  r_mhartid :: "u64 res"
  plic_dev :: "'d plic_dev"
  virtio_isr :: "'d \<Rightarrow> 'd res"

definition IllegalInstruction :: u64 where "IllegalInstruction = 2"
definition LoadPageFault :: u64 where "LoadPageFault = 13"
definition StorePageFault :: u64 where "StorePageFault = 15"
definition UserEnvCall :: u64 where "UserEnvCall = 8"

definition SupervisorSoft :: u64 where "SupervisorSoft = 1"
definition SupervisorTimer :: u64 where "SupervisorTimer = 5"
definition SupervisorExternal :: u64 where "SupervisorExternal = 9"

definition SIE_SEIE :: u64 where "SIE_SEIE = push_bit 9 1"
definition SIE_STIE :: u64 where "SIE_STIE = push_bit 5 1"
definition SIE_SSIE :: u64 where "SIE_SSIE = push_bit 1 1"

section \<open>The timer\<close>

definition sbi_set_timer :: "u64 \<Rightarrow> 'd trapsys \<Rightarrow> 'd trapsys" where
  "sbi_set_timer v s = s\<lparr>timecmp := v\<rparr>"

definition tick :: "'d trapsys \<Rightarrow> u64" where
  "tick s = kernel_tick s"

definition timer_init :: "'d machine \<Rightarrow> 'd trapsys \<Rightarrow> 'd trapsys" where
  "timer_init M s =
     (let s = s\<lparr>interval := us_to_cputime (1000000 div TIMER_IRQ_HZ)\<rparr>;
          s = s\<lparr>last_irq := r_time M\<rparr>;
          s = sbi_set_timer (last_irq s + interval s) s
      in s\<lparr>kernel_tick := last_irq s div interval s\<rparr>)"

definition handle_timer :: "'d trapsys \<Rightarrow> 'd trapsys res" where
  "handle_timer s =
     (if r_tp s \<ge> length (cpus s) then Inl Out_Of_Bounds
      else
        let s = s\<lparr>last_irq := last_irq s + interval s\<rparr>;
            s = s\<lparr>kernel_tick := kernel_tick s + 1\<rparr>;
            s = sbi_set_timer (last_irq s + interval s) s
        in Inr (upd_thiscpu (\<lambda>c. c\<lparr>need_resched := True\<rparr>) s))"

section \<open>Traps\<close>

definition handle_external :: "'d machine \<Rightarrow> 'd trapsys \<Rightarrow> 'd trapsys res" where
  "handle_external M s =
     rbind (r_mhartid M) (\<lambda>hartid.
     rbind (plic_claim (plic_dev M) (CHR ''S'') hartid (plic s)) (\<lambda>(irqno, p).
       let s = s\<lparr>plic := p\<rparr>
       in if irqno = 0 then Inr s
          else
            rbind (if irqno = 1 then rbind (virtio_isr M (device (plic s))) (\<lambda>d. Inr (s\<lparr>plic := (plic s)\<lparr>device := d\<rparr>\<rparr>))
                   else Inr s) (\<lambda>s.
            rbind (plic_complete (plic_dev M) (CHR ''S'') hartid irqno (plic s)) (\<lambda>p. Inr (s\<lparr>plic := p\<rparr>)))))"

definition set_kerneltrap :: "addr \<Rightarrow> 'd trapsys \<Rightarrow> 'd trapsys" where
  "set_kerneltrap kernelvec s = s\<lparr>stvec := kernelvec AND NOT 3\<rparr>"

definition trap_init :: "addr \<Rightarrow> 'd trapsys \<Rightarrow> int \<times> 'd trapsys" where
  "trap_init kernelvec s =
     (let s = set_kerneltrap kernelvec s;
          s = s\<lparr>sie := sie s OR SIE_SEIE OR SIE_STIE OR SIE_SSIE\<rparr>;
          s = s\<lparr>hart := (hart s)\<lparr>sstatus := sstatus (hart s) OR SSTATUS_SIE\<rparr>\<rparr>
      in (0, s))"

definition kernel_exception :: "u64 \<Rightarrow> fault" where
  "kernel_exception scause =
     (if scause = IllegalInstruction then Panic ''kernel illegal instruction''
      else if scause = LoadPageFault \<or> scause = StorePageFault then Panic ''kernel page fault''
      else if scause = UserEnvCall then Panic ''kernel ecall''
      else Panic ''kernel exception'')"

definition handle_irq :: "'d machine \<Rightarrow> u64 \<Rightarrow> 'd trapsys \<Rightarrow> 'd trapsys res" where
  "handle_irq M irq s =
     (if irq = SupervisorSoft then Inr s
      else if irq = SupervisorTimer then handle_timer s
      else if irq = SupervisorExternal then handle_external M s
      else Inl (Panic ''unknown kernel interrupt''))"

definition kerneltrap :: "'d machine \<Rightarrow> ktrapframe \<Rightarrow> 'd trapsys \<Rightarrow> 'd trapsys res" where
  "kerneltrap M ktf s =
     (let scause = kt_scause ktf
      in if scause AND push_bit 63 1 = 0 then Inl (kernel_exception scause)
         else
           rbind (handle_irq M (scause AND 0x3FF) s) (\<lambda>s.
             if \<not> sched_enabled s then Inr s
             else if r_tp s \<ge> length (cpus s) then Inl Out_Of_Bounds
             else if need_resched (thiscpu s) then sched_yield s
             else Inr s))"

section \<open>Lemmas\<close>

lemma interval_value: "us_to_cputime (1000000 div TIMER_IRQ_HZ) = 100000"
  by (simp add: us_to_cputime_def TIMER_IRQ_HZ_def TIMEBASE_FREQ_def)

text \<open>The state of the scheduler after \<^verbatim>\<open>handle_timer\<close>.\<close>

lemma sched_ok_cong:
  assumes "hart t = hart s" and "proc_at t = proc_at s" and "runqs t = runqs s"
    and "cpus t = (cpus s)[r_tp s := (thiscpu s)\<lparr>need_resched := b\<rparr>]" and "sched_ok s"
  shows "sched_ok t" "ring t = ring s" "busy t = busy s" "idle_of t = idle_of s" "current t = current s"
    "ready t = ready s" "r_tp t = r_tp s" "requeued t = requeued s" "need_resched (thiscpu t) = b"
proof -
  have l: "r_tp s < length (cpus s)" using assms(5) by (simp add: sched_ok_def)
  have r: "r_tp t = r_tp s" using assms(1) by (simp add: r_tp_def)
  have c: "thiscpu t = (thiscpu s)\<lparr>need_resched := b\<rparr>" using l assms(4) r by (simp add: thiscpu_def)
  have v: "current t = current s" "idle_of t = idle_of s" "my_runq t = my_runq s"
    using c assms(3) r by (simp_all add: current_def idle_of_def my_runq_def)
  then have "ready t = ready s" by (simp add: ready_def)
  then show "sched_ok t" "ring t = ring s" "busy t = busy s" "idle_of t = idle_of s" "current t = current s"
    "ready t = ready s" "r_tp t = r_tp s" "requeued t = requeued s" "need_resched (thiscpu t) = b"
    using v c r assms by (simp_all add: sched_ok_def runnable_def ring_def busy_def requeued_def)
qed

lemma handle_timer_eq:
  assumes "sched_ok s"
  obtains t where "handle_timer s = Inr t" and "sched_ok t" and "ring t = ring s" and "busy t = busy s"
    and "need_resched (thiscpu t)" and "kernel_tick t = kernel_tick s + 1" and "last_irq t = last_irq s + interval s"
    and "timecmp t = last_irq t + interval s" and "interval t = interval s" and "sched_enabled t = sched_enabled s"
    and "r_tp t < length (cpus t)" and "plic t = plic s"
proof -
  have l: "r_tp s < length (cpus s)" using assms by (simp add: sched_ok_def)
  let ?u = "sbi_set_timer (last_irq s + interval s + interval s)
    (s\<lparr>last_irq := last_irq s + interval s, kernel_tick := kernel_tick s + 1\<rparr>)"
  let ?t = "upd_thiscpu (\<lambda>c. c\<lparr>need_resched := True\<rparr>) ?u"
  have u: "r_tp ?u = r_tp s" "thiscpu ?u = thiscpu s" by (simp_all add: sbi_set_timer_def r_tp_def thiscpu_def)
  have "handle_timer s = Inr ?t" using l by (simp add: handle_timer_def Let_def)
  moreover have "hart ?t = hart s" "proc_at ?t = proc_at s" "runqs ?t = runqs s"
    "cpus ?t = (cpus s)[r_tp s := (thiscpu s)\<lparr>need_resched := True\<rparr>]"
    by (simp_all add: sbi_set_timer_def r_tp_def thiscpu_def)
  note c = sched_ok_cong [OF this assms]
  moreover have "kernel_tick ?t = kernel_tick s + 1" "last_irq ?t = last_irq s + interval s"
    "timecmp ?t = last_irq s + interval s + interval s" "interval ?t = interval s" "sched_enabled ?t = sched_enabled s"
    "plic ?t = plic s"
    by (simp_all add: upd_thiscpu_def sbi_set_timer_def)
  moreover have "r_tp ?t < length (cpus ?t)" using c(1) by (simp add: sched_ok_def)
  ultimately show ?thesis by (intro that [of ?t]) simp_all
qed

end
