(* ===== verification/Trap_Properties.thy ===== *)
theory Trap_Properties
  imports Trap Task_Properties
begin

text \<open>
  What the trap handler, the timer and the interrupt controller promise together with the scheduler.
\<close>

section \<open>Timer interrupts\<close>

definition irq_frame :: "u64 \<Rightarrow> ktrapframe" where
  "irq_frame irq = \<lparr>kt_sepc = 0, kt_sstatus = 0, kt_scause = push_bit 63 1 OR irq\<rparr>"

text \<open>The scheduler leaves the rest of the state alone.\<close>

lemma yielded_more: "yielded s t \<Longrightarrow> sched.more t = sched.more s"
  by (simp add: yielded_def)

lemma trap_fields_more:
  assumes "sched.more t = sched.more (s :: 'd trapsys)"
  shows "kernel_tick t = kernel_tick s" "last_irq t = last_irq s" "interval t = interval s" "timecmp t = timecmp s"
    "sched_enabled t = sched_enabled s" "plic t = plic s" "sie t = sie s" "stvec t = stvec s"
  using assms by (cases s; cases t; simp)+

lemma scause_bits:
  assumes "irq = SupervisorSoft \<or> irq = SupervisorTimer"
  shows "(push_bit 63 1 OR irq) AND push_bit 63 1 \<noteq> 0" "(push_bit 63 1 OR irq) AND 0x3FF = irq"
  using assms by (auto simp: SupervisorSoft_def SupervisorTimer_def)

lemma busy_yield:
  assumes "sched_ok s" and "busy s"
  obtains t where "sched_yield s = Inr t" and "yielded s t" and "sched_ok t" and "busy t" and "ring t = rotate1 (ring s)"
proof -
  have c: "compute (\<lambda>r. r) s = s" by (simp add: compute_def)
  obtain t where t: "sched_yield s = Inr t" "yielded s t" "sched_ok t" using sched_yield_step [OF assms(1)] by blast
  moreover obtain u where "sched_yield s = Inr u" "busy u" "ring u = rotate1 (ring s)"
    using slice_step [OF assms, of "\<lambda>r. r"] c by metis
  ultimately show ?thesis using that by auto
qed

lemma timer_trap:
  assumes "sched_ok s" and "busy s" and "sched_enabled s"
  obtains t where "kerneltrap M (irq_frame SupervisorTimer) s = Inr t" and "sched_ok t" and "busy t"
    and "ring t = rotate1 (ring s)" and "kernel_tick t = kernel_tick s + 1" and "last_irq t = last_irq s + interval s"
    and "timecmp t = last_irq t + interval s" and "interval t = interval s" and "sched_enabled t"
    and "need_resched (thiscpu t)"
proof -
  obtain u where u: "handle_timer s = Inr u" "sched_ok u" "ring u = ring s" "busy u = busy s" "need_resched (thiscpu u)"
    "kernel_tick u = kernel_tick s + 1" "last_irq u = last_irq s + interval s" "timecmp u = last_irq u + interval s"
    "interval u = interval s" "sched_enabled u = sched_enabled s" "r_tp u < length (cpus u)"
    using handle_timer_eq [OF assms(1)] by metis
  obtain t where t: "sched_yield u = Inr t" "yielded u t" "sched_ok t" "busy t" "ring t = rotate1 (ring u)"
    using busy_yield [of u] u assms(2) by metis
  have nr: "need_resched (thiscpu t)" using t(2) u(5) by (simp add: yielded_def)
  have h: "handle_irq M SupervisorTimer s = Inr u"
    using u(1) by (simp add: handle_irq_def SupervisorTimer_def SupervisorSoft_def)
  have "kerneltrap M (irq_frame SupervisorTimer) s = Inr t"
    using u(5,10,11) t(1) assms(3) scause_bits [of SupervisorTimer] h
    by (simp add: kerneltrap_def irq_frame_def)
  then show ?thesis
    using t u nr assms(3) trap_fields_more [OF yielded_more [OF t(2)]] by (intro that [of t]) simp_all
qed

fun run_traps :: "'d machine \<Rightarrow> ktrapframe list \<Rightarrow> 'd trapsys \<Rightarrow> 'd trapsys res" where
  "run_traps M [] s = Inr s"
| "run_traps M (k # ks) s = rbind (kerneltrap M k s) (run_traps M ks)"

lemma timer_traps:
  assumes "sched_ok s" and "busy s" and "sched_enabled s" and "timecmp s = last_irq s + interval s"
  obtains t where "run_traps M (replicate n (irq_frame SupervisorTimer)) s = Inr t" and "sched_ok t" and "busy t"
    and "ring t = rotate n (ring s)" and "kernel_tick t = kernel_tick s + of_nat n"
    and "last_irq t = last_irq s + of_nat n * interval s" and "timecmp t = last_irq t + interval s"
    and "interval t = interval s" and "sched_enabled t"
  using assms
proof (induction n arbitrary: s thesis)
  case 0
  show ?case by (rule 0(1) [of s]) (simp_all add: 0(2-5))
next
  case (Suc n)
  obtain u where u: "kerneltrap M (irq_frame SupervisorTimer) s = Inr u" "sched_ok u" "busy u" "ring u = rotate1 (ring s)"
    "kernel_tick u = kernel_tick s + 1" "last_irq u = last_irq s + interval s" "timecmp u = last_irq u + interval s"
    "interval u = interval s" "sched_enabled u"
    using timer_trap [OF Suc(3-5)] by metis
  obtain t where t: "run_traps M (replicate n (irq_frame SupervisorTimer)) u = Inr t" "sched_ok t" "busy t"
    "ring t = rotate n (ring u)" "kernel_tick t = kernel_tick u + of_nat n"
    "last_irq t = last_irq u + of_nat n * interval u" "timecmp t = last_irq t + interval u" "interval t = interval u"
    "sched_enabled t"
    using Suc(1) [OF _ u(2,3,9)] u(7,8) by metis
  show ?case
    using t u by (intro Suc(2) [of t]) (simp_all add: rotate1_rotate_swap [symmetric] algebra_simps)
qed

text \<open>
  C12: The timer preempts. From \<^verbatim>\<open>timer_init\<close> on, the n-th timer interrupt counts one tick, sets the next deadline
  one interval of 100000 counts after the last deadline, whenever it is served, so that the period does not drift, and
  passes the hart to the next process: after n of them the ring has turned by n places.
\<close>

theorem timer_interrupts:
  assumes "sched_ok s" and "busy s" and "sched_enabled s"
  shows "\<exists>t. run_traps M (replicate n (irq_frame SupervisorTimer)) (timer_init M s) = Inr t \<and> sched_ok t \<and>
    ring t = rotate n (ring s) \<and> kernel_tick t = r_time M div 100000 + of_nat n \<and>
    timecmp t = r_time M + of_nat (n + 1) * 100000"
proof -
  let ?i = "timer_init M s"
  have v: "hart ?i = hart s" "proc_at ?i = proc_at s" "runqs ?i = runqs s" "cpus ?i = cpus s" "sched_enabled ?i = sched_enabled s"
    "interval ?i = 100000" "last_irq ?i = r_time M" "timecmp ?i = last_irq ?i + interval ?i"
    "kernel_tick ?i = r_time M div 100000"
    by (simp_all add: timer_init_def sbi_set_timer_def interval_value)
  have "cpus ?i = (cpus s)[r_tp s := (thiscpu s)\<lparr>need_resched := need_resched (thiscpu s)\<rparr>]"
    by (simp add: v(4) thiscpu_def)
  note c = sched_ok_cong [OF v(1,2,3) this assms(1)]
  obtain t where "run_traps M (replicate n (irq_frame SupervisorTimer)) ?i = Inr t" "sched_ok t"
    "ring t = rotate n (ring ?i)" "kernel_tick t = kernel_tick ?i + of_nat n"
    "last_irq t = last_irq ?i + of_nat n * interval ?i" "timecmp t = last_irq t + interval ?i"
    using timer_traps [of ?i M n] c assms v by metis
  then show ?thesis using c(2) v by (intro exI [of _ t]) (simp add: algebra_simps)
qed

definition demo_plic :: "unit plic" where
  "demo_plic = \<lparr>up = True, priority = (\<lambda>_. 0), enable = (\<lambda>_ _. 0), threshold = (\<lambda>_. 0), device = ()\<rparr>"

definition demo_machine :: "unit machine" where
  "demo_machine = \<lparr>r_time = 500000, r_mhartid = Inr 0, plic_dev = \<lparr>claim = (\<lambda>_ d. (1, d)), complete = (\<lambda>_ _ d. d)\<rparr>,
     virtio_isr = Inr\<rparr>"

definition demo_trapsys :: "unit trapsys" where
  "demo_trapsys = sched.extend demo_sched \<lparr>sie = 0, stvec = 0, kernel_tick = 0, last_irq = 0, interval = 0, timecmp = 0,
     sched_enabled = True, plic = demo_plic\<rparr>"

lemma demo_trapsys_ok: "sched_ok demo_trapsys" "busy demo_trapsys" "sched_enabled demo_trapsys"
  "ring demo_trapsys = [0x100, 0x200, 0x300]"
proof -
  have "sched_ok demo_trapsys \<longleftrightarrow> sched_ok demo_sched" "busy demo_trapsys \<longleftrightarrow> busy demo_sched"
    "ring demo_trapsys = ring demo_sched"
    by (simp_all add: sched_ok_def sched_view demo_trapsys_def sched.extend_def busy_def ring_def)
  then show "sched_ok demo_trapsys" "busy demo_trapsys" "ring demo_trapsys = [0x100, 0x200, 0x300]"
    using demo_sched_ok demo_ring by simp_all
  show "sched_enabled demo_trapsys" by (simp add: demo_trapsys_def sched.extend_def)
qed

theorem timer_interrupts_witness:
  "\<exists>t. run_traps demo_machine (replicate 2 (irq_frame SupervisorTimer)) (timer_init demo_machine demo_trapsys) = Inr t \<and>
     ring t = [0x300, 0x100, 0x200] \<and> kernel_tick t = 7 \<and> timecmp t = 800000"
proof -
  have "r_time demo_machine = 500000" by (simp add: demo_machine_def)
  moreover have "rotate 2 (ring demo_trapsys) = [0x300, 0x100, 0x200]"
    by (simp add: demo_trapsys_ok(4) numeral_2_eq_2)
  ultimately show ?thesis
    using timer_interrupts [OF demo_trapsys_ok(1-3), of demo_machine 2] by auto
qed

section \<open>Other traps\<close>

text \<open>A trap that is no interrupt, and an interrupt without a handler, stop the kernel whatever its state.\<close>

lemma kerneltrap_exception:
  "kt_scause ktf AND push_bit 63 1 = 0 \<Longrightarrow> \<exists>m. kerneltrap M ktf s = Inl (Panic m)"
  by (auto simp: kerneltrap_def kernel_exception_def Let_def)

lemma kerneltrap_unknown:
  assumes "kt_scause ktf AND push_bit 63 1 \<noteq> 0"
    and "kt_scause ktf AND 0x3FF \<notin> {SupervisorSoft, SupervisorTimer, SupervisorExternal}"
  shows "kerneltrap M ktf s = Inl (Panic ''unknown kernel interrupt'')"
  using assms by (simp add: kerneltrap_def handle_irq_def)

section \<open>External interrupts\<close>

text \<open>
  On a hart that may read its number, an external interrupt claims one request of the supervisor context of
  that hart, runs the disk's routine exactly for request 1, and completes the same request in the same context; a claim
  of 0 is not completed. Where the number may not be read, as in supervisor mode, the fault of the read is the outcome.
\<close>

theorem external_interrupt_completed:
  assumes "up (plic s)"
  shows "(\<forall>h i d e. r_mhartid M = Inr h \<and> unat h < CPU_NUM \<and>
      claim (plic_dev M) (PLIC_CTX (unat h) CHR ''S'') (device (plic s)) = (i, d) \<and> unat i < PLIC_MAX_IRQ_NUM \<and>
      (if i = 1 then virtio_isr M d = Inr e else e = d) \<longrightarrow>
      handle_external M s = Inr (s\<lparr>plic := (plic s)\<lparr>device :=
        (if i = 0 then d else complete (plic_dev M) (PLIC_CTX (unat h) CHR ''S'') i e)\<rparr>\<rparr>)) \<and>
    (\<forall>e. r_mhartid M = Inl e \<longrightarrow> handle_external M s = Inl e)"
  using assms
  by (auto simp: handle_external_def plic_claim_def plic_complete_def assert_def valid_mode_def valid_irq_def
      regs_access_def word_gt_0 Let_def)

theorem external_interrupt_completed_witness:
  "handle_external demo_machine demo_trapsys = Inr demo_trapsys"
proof -
  have u: "up (plic demo_trapsys)" by (simp add: demo_trapsys_def sched.extend_def demo_plic_def)
  have c: "claim (plic_dev demo_machine) n d = (1, d)" "complete (plic_dev demo_machine) n i d = d"
    "virtio_isr demo_machine d = Inr d" "r_mhartid demo_machine = Inr 0" for n i d
    by (simp_all add: demo_machine_def)
  show ?thesis
    using external_interrupt_completed [OF u, of demo_machine, THEN conjunct1, rule_format,
        of 0 1 "device (plic demo_trapsys)" "device (plic demo_trapsys)"]
    by (simp add: c CPU_NUM_def PLIC_MAX_IRQ_NUM_def)
qed

section \<open>The request to reschedule\<close>

text \<open>
  The interrupts that \<^verbatim>\<open>kerneltrap\<close> has a case for, and a machine on which external ones are served: the hart may
  read its number, claims are numbers of interrupts, and the disk's routine returns.
\<close>

definition irq_of :: "ktrapframe \<Rightarrow> u64" where
  "irq_of ktf = kt_scause ktf AND 0x3FF"

definition handled :: "ktrapframe \<Rightarrow> bool" where
  "handled ktf \<longleftrightarrow> kt_scause ktf AND push_bit 63 1 \<noteq> 0 \<and>
     irq_of ktf \<in> {SupervisorSoft, SupervisorTimer, SupervisorExternal}"

definition external_served :: "'d machine \<Rightarrow> bool" where
  "external_served M \<longleftrightarrow> (\<exists>h. r_mhartid M = Inr h \<and> unat h < CPU_NUM \<and>
     (\<forall>d i e. claim (plic_dev M) (PLIC_CTX (unat h) CHR ''S'') d = (i, e) \<longrightarrow> unat i < PLIC_MAX_IRQ_NUM \<and>
        (\<exists>e'. virtio_isr M e = Inr e')))"

lemma handle_external_served:
  assumes "external_served M" and "up (plic s)"
  obtains d where "handle_external M s = Inr (s\<lparr>plic := (plic s)\<lparr>device := d\<rparr>\<rparr>)"
proof -
  obtain h where h: "r_mhartid M = Inr h" "unat h < CPU_NUM"
    "\<And>d i e. claim (plic_dev M) (PLIC_CTX (unat h) CHR ''S'') d = (i, e) \<Longrightarrow> unat i < PLIC_MAX_IRQ_NUM \<and> (\<exists>e'. virtio_isr M e = Inr e')"
    using assms(1) unfolding external_served_def by blast
  obtain i d where c: "claim (plic_dev M) (PLIC_CTX (unat h) CHR ''S'') (device (plic s)) = (i, d)"
    by (cases "claim (plic_dev M) (PLIC_CTX (unat h) CHR ''S'') (device (plic s))")
  obtain e where "if i = 1 then virtio_isr M d = Inr e else e = d"
    using h(3) [OF c] by metis
  then show ?thesis
    using external_interrupt_completed [OF assms(2), of M, THEN conjunct1, rule_format, of h i d e] h(1,2) h(3) [OF c] c that
    by blast
qed

text \<open>Every handled interrupt yields once the flag is set, and a timer interrupt sets it.\<close>

lemma handled_trap_yields:
  assumes ok: "sched_ok s" "busy s" "sched_enabled s" "up (plic s)" and "handled k"
    and "irq_of k = SupervisorExternal \<Longrightarrow> external_served M" and "need_resched (thiscpu s) \<or> irq_of k = SupervisorTimer"
  obtains t where "kerneltrap M k s = Inr t" and "sched_ok t" and "busy t" and "sched_enabled t" and "up (plic t)"
    and "need_resched (thiscpu t)" and "ring t = rotate1 (ring s)"
    and "kernel_tick t = kernel_tick s + (if irq_of k = SupervisorTimer then 1 else 0)"
proof -
  have ext: "\<exists>u. handle_external M s = Inr u \<and> sched_ok u \<and> busy u \<and> sched_enabled u \<and> up (plic u) \<and>
      ring u = ring s \<and> need_resched (thiscpu u) = need_resched (thiscpu s) \<and> kernel_tick u = kernel_tick s"
    if x: "irq_of k = SupervisorExternal"
  proof -
    obtain d where d: "handle_external M s = Inr (s\<lparr>plic := (plic s)\<lparr>device := d\<rparr>\<rparr>)"
      by (rule handle_external_served [OF assms(6) [OF x] ok(4)])
    let ?u = "s\<lparr>plic := (plic s)\<lparr>device := d\<rparr>\<rparr>"
    have "cpus ?u = (cpus s)[r_tp s := (thiscpu s)\<lparr>need_resched := need_resched (thiscpu s)\<rparr>]"
      by (simp add: thiscpu_def)
    note sc = sched_ok_cong [OF _ _ _ this ok(1)]
    show ?thesis using d sc ok by auto
  qed
  have "\<exists>u. handle_irq M (irq_of k) s = Inr u \<and> sched_ok u \<and> busy u \<and> sched_enabled u \<and> up (plic u) \<and> ring u = ring s \<and>
      need_resched (thiscpu u) \<and> kernel_tick u = kernel_tick s + (if irq_of k = SupervisorTimer then 1 else 0)"
    using assms(5) unfolding handled_def
  proof (elim conjE insertE emptyE)
    assume "irq_of k = SupervisorSoft"
    then show ?thesis using assms by (simp add: handle_irq_def SupervisorSoft_def SupervisorTimer_def)
  next
    assume "irq_of k = SupervisorTimer"
    then show ?thesis
      using handle_timer_eq [OF ok(1)] ok by (simp add: handle_irq_def SupervisorTimer_def SupervisorSoft_def) metis
  next
    assume x: "irq_of k = SupervisorExternal"
    then show ?thesis
      using ext assms(7) by (auto simp: handle_irq_def SupervisorTimer_def SupervisorSoft_def SupervisorExternal_def)
  qed
  then obtain u where u: "handle_irq M (irq_of k) s = Inr u" "sched_ok u" "busy u" "sched_enabled u" "up (plic u)"
    "ring u = ring s" "need_resched (thiscpu u)" "kernel_tick u = kernel_tick s + (if irq_of k = SupervisorTimer then 1 else 0)"
    by blast
  obtain t where t: "sched_yield u = Inr t" "yielded u t" "sched_ok t" "busy t" "ring t = rotate1 (ring u)"
    using busy_yield [OF u(2,3)] by metis
  have "r_tp u < length (cpus u)" using u(2) by (simp add: sched_ok_def)
  then have "kerneltrap M k s = Inr t"
    using assms(5) u(1,4,7) t(1) by (simp add: kerneltrap_def handled_def irq_of_def Let_def)
  moreover have "need_resched (thiscpu t)" using t(2) u(7) by (simp add: yielded_def)
  ultimately show ?thesis
    using t u trap_fields_more [OF yielded_more [OF t(2)]] by (intro that [of t]) simp_all
qed

lemma handled_traps_yield:
  assumes "sched_ok s" "busy s" "sched_enabled s" "up (plic s)" "need_resched (thiscpu s)"
    and "\<forall>k\<in>set ks. handled k \<and> (irq_of k = SupervisorExternal \<longrightarrow> external_served M)"
  shows "\<exists>t. run_traps M ks s = Inr t \<and> sched_ok t \<and> busy t \<and> need_resched (thiscpu t) \<and>
    ring t = rotate (length ks) (ring s) \<and>
    kernel_tick t = kernel_tick s + of_nat (length (filter (\<lambda>k. irq_of k = SupervisorTimer) ks))"
  using assms
proof (induction ks arbitrary: s)
  case (Cons k ks)
  obtain u where u: "kerneltrap M k s = Inr u" "sched_ok u" "busy u" "sched_enabled u" "up (plic u)"
    "need_resched (thiscpu u)" "ring u = rotate1 (ring s)"
    "kernel_tick u = kernel_tick s + (if irq_of k = SupervisorTimer then 1 else 0)"
    using handled_trap_yields [OF Cons(2-5), of k M] Cons(6,7) by (metis list.set_intros(1))
  obtain t where "run_traps M ks u = Inr t" "sched_ok t" "busy t" "need_resched (thiscpu t)"
    "ring t = rotate (length ks) (ring u)"
    "kernel_tick t = kernel_tick u + of_nat (length (filter (\<lambda>k. irq_of k = SupervisorTimer) ks))"
    using Cons(1) [OF u(2-6)] Cons(7) by (meson list.set_intros(2))
  then show ?case
    using u(1,7,8) by (simp add: rotate1_rotate_swap [symmetric] algebra_simps)
qed simp

text \<open>
  C31: Neither a yield nor a trap clears \<^verbatim>\<open>need_resched\<close>. From the first timer interrupt on, every interrupt that is handled
  passes the hart to the next process, not only those of the timer: whatever sequence of software, timer and
  external interrupts follows, the ring turns once for each of them, while the ticks count the timer's alone, and the flag is
  still set in the end.
\<close>

theorem resched_never_cleared:
  assumes "sched_ok s" and "busy s" and "sched_enabled s" and "up (plic s)"
    and "handled k" and "irq_of k = SupervisorTimer"
    and "\<forall>k\<in>set ks. handled k \<and> (irq_of k = SupervisorExternal \<longrightarrow> external_served M)"
  shows "\<exists>t. run_traps M (k # ks) s = Inr t \<and> sched_ok t \<and> busy t \<and> need_resched (thiscpu t) \<and>
    ring t = rotate (Suc (length ks)) (ring s) \<and>
    kernel_tick t = kernel_tick s + 1 + of_nat (length (filter (\<lambda>k. irq_of k = SupervisorTimer) ks))"
proof -
  have x: "irq_of k = SupervisorExternal \<Longrightarrow> external_served M"
    using assms(6) by (simp add: SupervisorTimer_def SupervisorExternal_def)
  obtain u where u: "kerneltrap M k s = Inr u" "sched_ok u" "busy u" "sched_enabled u" "up (plic u)"
    "need_resched (thiscpu u)" "ring u = rotate1 (ring s)" "kernel_tick u = kernel_tick s + 1"
    by (rule handled_trap_yields [OF assms(1-5) x disjI2 [OF assms(6)]]) (simp_all add: assms(6))
  obtain t where "run_traps M ks u = Inr t" "sched_ok t" "busy t" "need_resched (thiscpu t)"
    "ring t = rotate (length ks) (ring u)"
    "kernel_tick t = kernel_tick u + of_nat (length (filter (\<lambda>k. irq_of k = SupervisorTimer) ks))"
    using handled_traps_yield [OF u(2-6) assms(7)] by blast
  then show ?thesis
    using u(1,7,8) by (simp add: rotate1_rotate_swap [symmetric])
qed

theorem resched_never_cleared_witness:
  "\<exists>t. run_traps demo_machine (map irq_frame [SupervisorTimer, SupervisorSoft, SupervisorExternal]) demo_trapsys = Inr t \<and>
     ring t = [0x100, 0x200, 0x300] \<and> need_resched (thiscpu t) \<and> kernel_tick t = kernel_tick demo_trapsys + 1"
proof -
  have f: "handled (irq_frame q) \<and> irq_of (irq_frame q) = q" if "q \<in> {SupervisorSoft, SupervisorTimer, SupervisorExternal}" for q
    using that by (auto simp: handled_def irq_of_def irq_frame_def SupervisorSoft_def SupervisorTimer_def SupervisorExternal_def)
  have "up (plic demo_trapsys)" by (simp add: demo_trapsys_def sched.extend_def demo_plic_def)
  moreover have "external_served demo_machine"
    by (simp add: external_served_def demo_machine_def CPU_NUM_def PLIC_MAX_IRQ_NUM_def)
  ultimately obtain t where
    "run_traps demo_machine (irq_frame SupervisorTimer # map irq_frame [SupervisorSoft, SupervisorExternal]) demo_trapsys = Inr t"
    "need_resched (thiscpu t)" "ring t = rotate 3 (ring demo_trapsys)" "kernel_tick t = kernel_tick demo_trapsys + 1"
    using resched_never_cleared [OF demo_trapsys_ok(1-3), of "irq_frame SupervisorTimer"
        "map irq_frame [SupervisorSoft, SupervisorExternal]" demo_machine] f
    by (auto simp: numeral_3_eq_3 SupervisorSoft_def SupervisorTimer_def SupervisorExternal_def)
  then show ?thesis by (intro exI [of _ t]) (simp add: demo_trapsys_ok(4) numeral_3_eq_3)
qed

section \<open>The interrupt controller\<close>

text \<open>
  \<^verbatim>\<open>plic_enable\<close> and \<^verbatim>\<open>plic_disable\<close> add and remove one interrupt of one context and leave every other
  interrupt of every context as it is; arguments outside the bounds are refused by an assertion before any access.
\<close>

theorem plic_enable_exact:
  assumes "up p"
  shows "(valid_mode m \<and> unat h < CPU_NUM \<and> valid_irq i \<longrightarrow>
      (\<exists>q. plic_enable m h i p = Inr q \<and> priority q = priority p \<and> threshold q = threshold p \<and> device q = device p \<and>
         (\<forall>c j. enabled q c j \<longleftrightarrow> enabled p c j \<or> c = PLIC_CTX (unat h) m \<and> j = unat i)) \<and>
      (\<exists>q. plic_disable m h i p = Inr q \<and> priority q = priority p \<and> threshold q = threshold p \<and> device q = device p \<and>
         (\<forall>c j. enabled q c j \<longleftrightarrow> enabled p c j \<and> \<not> (c = PLIC_CTX (unat h) m \<and> j = unat i)))) \<and>
    (\<not> (valid_mode m \<and> unat h < CPU_NUM \<and> valid_irq i) \<longrightarrow>
      plic_enable m h i p = Inl (Panic ''dynamic assertion failed'') \<and>
      plic_disable m h i p = Inl (Panic ''dynamic assertion failed''))"
  using assms
  by (auto simp: plic_enable_def plic_disable_def assert_def regs_access_def enabled_set enabled_clear valid_irq_def Let_def)

theorem plic_enable_exact_witness:
  "\<exists>q. plic_enable CHR ''S'' 0 1 demo_plic = Inr q \<and> enabled q 1 1 \<and> \<not> enabled q 0 1"
proof -
  have "up demo_plic" "\<not> enabled demo_plic 0 1"
    by (simp_all add: demo_plic_def enabled_def irq_enabled_def bm_bit_def)
  then show ?thesis
    using plic_enable_exact [of demo_plic "CHR ''S''" 0 1]
    by (auto simp: valid_mode_def CPU_NUM_def valid_irq_def PLIC_MAX_IRQ_NUM_def PLIC_CTX_def)
qed

end
