(* ===== verification/Printf.thy ===== *)
theory Printf
  imports Spinlock
begin

text \<open>
  Formatted output, \<^verbatim>\<open>src/misc/printf.c\<close> (a formatter by M. Paland), in the configuration of the file: no floating
  point, \<^verbatim>\<open>long\<close>, \<^verbatim>\<open>long long\<close> and pointers of 64 bits. Strings are lists of characters without the final zero.
  A conversion buffer is the list of its characters so far. Output goes through a function of the character, the
  index, the limit and the state behind it, as in the source; \<open>sink\<close> is such a function with its limit. Reading an
  argument that the caller did not pass, or of the wrong kind, and reading the format past its end are accesses out of
  bounds.
\<close>

section \<open>Configuration\<close>

definition PRINTF_NTOA_BUFFER_SIZE :: nat where "PRINTF_NTOA_BUFFER_SIZE = 32"

definition FLAGS_ZEROPAD :: u32 where "FLAGS_ZEROPAD = 1"
definition FLAGS_LEFT :: u32 where "FLAGS_LEFT = 2"
definition FLAGS_PLUS :: u32 where "FLAGS_PLUS = 4"
definition FLAGS_SPACE :: u32 where "FLAGS_SPACE = 8"
definition FLAGS_HASH :: u32 where "FLAGS_HASH = 16"
definition FLAGS_UPPERCASE :: u32 where "FLAGS_UPPERCASE = 32"
definition FLAGS_CHAR :: u32 where "FLAGS_CHAR = 64"
definition FLAGS_SHORT :: u32 where "FLAGS_SHORT = 128"
definition FLAGS_LONG :: u32 where "FLAGS_LONG = 256"
definition FLAGS_LONG_LONG :: u32 where "FLAGS_LONG_LONG = 512"
definition FLAGS_PRECISION :: u32 where "FLAGS_PRECISION = 1024"

lemmas flag_defs = FLAGS_ZEROPAD_def FLAGS_LEFT_def FLAGS_PLUS_def FLAGS_SPACE_def FLAGS_HASH_def
  FLAGS_UPPERCASE_def FLAGS_CHAR_def FLAGS_SHORT_def FLAGS_LONG_def FLAGS_LONG_LONG_def FLAGS_PRECISION_def

section \<open>Output\<close>

type_synonym 's out_fct_type = "char \<Rightarrow> u64 \<Rightarrow> u64 \<Rightarrow> 's \<Rightarrow> 's"
type_synonym 's sink = "'s out_fct_type \<times> u64"

text \<open>The memory of characters, with the buffer at its address.\<close>

type_synonym cmem = "addr \<Rightarrow> char"

definition out_buffer :: "addr \<Rightarrow> cmem out_fct_type" where
  "out_buffer buffer c idx maxlen m = (if idx < maxlen then m(buffer + idx := c) else m)"

definition out_null :: "'s out_fct_type" where
  "out_null c idx maxlen s = s"

text \<open>The console: the characters sent to the firmware.\<close>

definition out_char :: "string out_fct_type" where
  "out_char c idx maxlen console = (if c \<noteq> CHR 0x00 then console @ [c] else console)"

definition out_fct :: "(char \<Rightarrow> 's \<Rightarrow> 's) \<Rightarrow> 's out_fct_type" where
  "out_fct fct c idx maxlen s = (if c \<noteq> CHR 0x00 then fct c s else s)"

text \<open>\<^verbatim>\<open>out(c, buffer, idx++, maxlen)\<close>, for one character and for several.\<close>

definition put :: "'s sink \<Rightarrow> char \<Rightarrow> u64 \<times> 's \<Rightarrow> u64 \<times> 's" where
  "put k c = (\<lambda>(idx, s). (idx + 1, fst k c idx (snd k) s))"

definition puts :: "'s sink \<Rightarrow> string \<Rightarrow> u64 \<times> 's \<Rightarrow> u64 \<times> 's" where
  "puts k cs p = fold (put k) cs p"

definition spaces :: "'s sink \<Rightarrow> nat \<Rightarrow> u64 \<times> 's \<Rightarrow> u64 \<times> 's" where
  "spaces k n p = puts k (replicate n CHR '' '') p"

definition strnlen_s :: "string \<Rightarrow> u64 \<Rightarrow> u32" where
  "strnlen_s str maxsize = of_nat (min (length str) (unat maxsize))"

definition is_digit :: "char \<Rightarrow> bool" where
  "is_digit ch \<longleftrightarrow> 48 \<le> (of_char ch :: nat) \<and> (of_char ch :: nat) \<le> 57"

fun atoi :: "string \<Rightarrow> u32 \<Rightarrow> u32 \<times> string" where
  "atoi [] i = (i, [])"
| "atoi (c # cs) i = (if is_digit c then atoi cs (i * 10 + (of_nat (of_char c) - 48)) else (i, c # cs))"

section \<open>Integers\<close>

definition out_rev :: "'s sink \<Rightarrow> string \<Rightarrow> u32 \<Rightarrow> u32 \<Rightarrow> u64 \<times> 's \<Rightarrow> u64 \<times> 's" where
  "out_rev k buf width flags p =
     (let start_idx = fst p;
          p = (if flags AND FLAGS_LEFT = 0 \<and> flags AND FLAGS_ZEROPAD = 0 then spaces k (unat width - length buf) p else p);
          p = puts k (rev buf) p
      in if flags AND FLAGS_LEFT \<noteq> 0 then spaces k (unat width - unat (fst p - start_idx)) p else p)"

text \<open>\<^verbatim>\<open>while (len < n && len < PRINTF_NTOA_BUFFER_SIZE) buf[len++] = '0'\<close>.\<close>

definition pad_zero :: "nat \<Rightarrow> string \<Rightarrow> string" where
  "pad_zero n buf = buf @ replicate (min n PRINTF_NTOA_BUFFER_SIZE - length buf) CHR ''0''"

definition push_char :: "char \<Rightarrow> string \<Rightarrow> string" where
  "push_char c buf = (if length buf < PRINTF_NTOA_BUFFER_SIZE then buf @ [c] else buf)"

definition add_hash :: "string \<Rightarrow> u32 \<Rightarrow> u32 \<Rightarrow> u32 \<Rightarrow> u32 \<Rightarrow> string" where
  "add_hash buf base prec width flags =
     (let buf = (if flags AND FLAGS_PRECISION = 0 \<and> buf \<noteq> [] \<and> (length buf = unat prec \<or> length buf = unat width)
                 then let buf = butlast buf in if buf \<noteq> [] \<and> base = 16 then butlast buf else buf
                 else buf);
          buf = (if base = 16 \<and> flags AND FLAGS_UPPERCASE = 0 then push_char CHR ''x'' buf
                 else if base = 16 \<and> flags AND FLAGS_UPPERCASE \<noteq> 0 then push_char CHR ''X'' buf
                 else if base = 2 then push_char CHR ''b'' buf else buf)
      in push_char CHR ''0'' buf)"

definition add_sign :: "string \<Rightarrow> bool \<Rightarrow> u32 \<Rightarrow> string" where
  "add_sign buf negative flags =
     (if negative then push_char CHR ''-'' buf
      else if flags AND FLAGS_PLUS \<noteq> 0 then push_char CHR ''+'' buf
      else if flags AND FLAGS_SPACE \<noteq> 0 then push_char CHR '' '' buf
      else buf)"

definition ntoa_format ::
  "'s sink \<Rightarrow> string \<Rightarrow> bool \<Rightarrow> u32 \<Rightarrow> u32 \<Rightarrow> u32 \<Rightarrow> u32 \<Rightarrow> u64 \<times> 's \<Rightarrow> u64 \<times> 's" where
  "ntoa_format k buf negative base prec width flags p =
     (let (buf, width) =
            (if flags AND FLAGS_LEFT = 0 then
               let width = (if width \<noteq> 0 \<and> flags AND FLAGS_ZEROPAD \<noteq> 0 \<and>
                              (negative \<or> flags AND (FLAGS_PLUS OR FLAGS_SPACE) \<noteq> 0) then width - 1 else width);
                   buf = pad_zero (unat prec) buf
               in (if flags AND FLAGS_ZEROPAD \<noteq> 0 then pad_zero (unat width) buf else buf, width)
             else (buf, width));
          buf = (if flags AND FLAGS_HASH \<noteq> 0 then add_hash buf base prec width flags else buf);
          buf = add_sign buf negative flags
      in out_rev k buf width flags p)"

definition digit_char :: "u32 \<Rightarrow> nat \<Rightarrow> char" where
  "digit_char flags digit =
     (if digit < 10 then char_of (48 + digit)
      else char_of ((if flags AND FLAGS_UPPERCASE \<noteq> 0 then 65 else 97) + digit - 10))"

text \<open>The \<^verbatim>\<open>do\<close> loop that produces the digits, the last one first; \<open>room\<close> is what is left of the buffer.\<close>

fun digit_loop :: "nat \<Rightarrow> u64 \<Rightarrow> u64 \<Rightarrow> u32 \<Rightarrow> string" where
  "digit_loop 0 v base flags = []"
| "digit_loop (Suc room) v base flags =
     digit_char flags (unat (v mod base)) # (if v div base \<noteq> 0 then digit_loop room (v div base) base flags else [])"

definition ntoa_long ::
  "'s sink \<Rightarrow> u64 \<Rightarrow> bool \<Rightarrow> u64 \<Rightarrow> u32 \<Rightarrow> u32 \<Rightarrow> u32 \<Rightarrow> u64 \<times> 's \<Rightarrow> u64 \<times> 's" where
  "ntoa_long k v negative base prec width flags p =
     (let flags = (if v = 0 then flags AND NOT FLAGS_HASH else flags);
          buf = (if flags AND FLAGS_PRECISION = 0 \<or> v \<noteq> 0
                 then digit_loop PRINTF_NTOA_BUFFER_SIZE v base flags else [])
      in ntoa_format k buf negative (ucast base) prec width flags p)"

definition ntoa_long_long ::
  "'s sink \<Rightarrow> u64 \<Rightarrow> bool \<Rightarrow> u64 \<Rightarrow> u32 \<Rightarrow> u32 \<Rightarrow> u32 \<Rightarrow> u64 \<times> 's \<Rightarrow> u64 \<times> 's" where
  "ntoa_long_long k v negative base prec width flags p =
     (let flags = (if v = 0 then flags AND NOT FLAGS_HASH else flags);
          buf = (if flags AND FLAGS_PRECISION = 0 \<or> v \<noteq> 0
                 then digit_loop PRINTF_NTOA_BUFFER_SIZE v base flags else [])
      in ntoa_format k buf negative (ucast base) prec width flags p)"

section \<open>Format specifications\<close>

text \<open>The arguments of a call: words, and strings (\<open>None\<close> is the null pointer).\<close>

datatype arg = Word u64 | Str "string option"

fun next_word :: "arg list \<Rightarrow> (u64 \<times> arg list) res" where
  "next_word (Word w # args) = Inr (w, args)"
| "next_word _ = Inl Out_Of_Bounds"

fun next_str :: "arg list \<Rightarrow> (string option \<times> arg list) res" where
  "next_str (Str s # args) = Inr (s, args)"
| "next_str _ = Inl Out_Of_Bounds"

fun parse_flags :: "string \<Rightarrow> u32 \<Rightarrow> u32 \<times> string" where
  "parse_flags [] flags = (flags, [])"
| "parse_flags (c # cs) flags =
     (if c = CHR ''0'' then parse_flags cs (flags OR FLAGS_ZEROPAD)
      else if c = CHR ''-'' then parse_flags cs (flags OR FLAGS_LEFT)
      else if c = CHR ''+'' then parse_flags cs (flags OR FLAGS_PLUS)
      else if c = CHR '' '' then parse_flags cs (flags OR FLAGS_SPACE)
      else if c = CHR ''#'' then parse_flags cs (flags OR FLAGS_HASH)
      else (flags, c # cs))"

definition parse_width :: "string \<Rightarrow> u32 \<Rightarrow> arg list \<Rightarrow> (u32 \<times> u32 \<times> string \<times> arg list) res" where
  "parse_width fmt flags args =
     (case fmt of
        [] \<Rightarrow> Inr (flags, 0, fmt, args)
      | c # cs \<Rightarrow>
          if is_digit c then let (w, f) = atoi fmt 0 in Inr (flags, w, f, args)
          else if c = CHR ''*'' then
            rbind (next_word args) (\<lambda>(v, args).
              let w = ucast v :: u32
              in if sint w < 0 then Inr (flags OR FLAGS_LEFT, - w, cs, args) else Inr (flags, w, cs, args))
          else Inr (flags, 0, fmt, args))"

definition parse_precision :: "string \<Rightarrow> u32 \<Rightarrow> arg list \<Rightarrow> (u32 \<times> u32 \<times> string \<times> arg list) res" where
  "parse_precision fmt flags args =
     (case fmt of
        [] \<Rightarrow> Inr (flags, 0, fmt, args)
      | d # fmt' \<Rightarrow>
          if d \<noteq> CHR ''.'' then Inr (flags, 0, fmt, args)
          else
            let flags = flags OR FLAGS_PRECISION
            in (case fmt' of
                  [] \<Rightarrow> Inr (flags, 0, fmt', args)
                | c # cs \<Rightarrow>
                    if is_digit c then let (p, f) = atoi fmt' 0 in Inr (flags, p, f, args)
                    else if c = CHR ''*'' then
                      rbind (next_word args) (\<lambda>(v, args).
                        let prec = ucast v :: u32
                        in Inr (flags, if sint prec > 0 then prec else 0, cs, args))
                    else Inr (flags, 0, fmt', args)))"

definition parse_length :: "string \<Rightarrow> u32 \<Rightarrow> u32 \<times> string" where
  "parse_length fmt flags =
     (case fmt of
        [] \<Rightarrow> (flags, fmt)
      | c # cs \<Rightarrow>
          if c = CHR ''l'' then
            let flags = flags OR FLAGS_LONG
            in (case cs of d # ds \<Rightarrow> if d = CHR ''l'' then (flags OR FLAGS_LONG_LONG, ds) else (flags, cs) | [] \<Rightarrow> (flags, cs))
          else if c = CHR ''h'' then
            let flags = flags OR FLAGS_SHORT
            in (case cs of d # ds \<Rightarrow> if d = CHR ''h'' then (flags OR FLAGS_CHAR, ds) else (flags, cs) | [] \<Rightarrow> (flags, cs))
          else if c = CHR ''t'' \<or> c = CHR ''j'' \<or> c = CHR ''z'' then (flags OR FLAGS_LONG, cs)
          else (flags, fmt))"

section \<open>Conversions\<close>

text \<open>
  \<^verbatim>\<open>char\<close> is unsigned on this machine. The value of a signed conversion is its magnitude, with 0 - v wrapping around
  for the least number of each width.
\<close>

definition signed_value :: "u32 \<Rightarrow> u64 \<Rightarrow> u64 \<times> bool" where
  "signed_value flags w =
     (if flags AND (FLAGS_LONG_LONG OR FLAGS_LONG) \<noteq> 0 then (if sint w > 0 then w else 0 - w, sint w < 0)
      else
        let v = (if flags AND FLAGS_CHAR \<noteq> 0 then ucast (ucast w :: u8)
                 else if flags AND FLAGS_SHORT \<noteq> 0 then scast (ucast w :: u16)
                 else ucast w) :: u32
        in (ucast (if sint v > 0 then v else 0 - v), sint v < 0))"

definition unsigned_value :: "u32 \<Rightarrow> u64 \<Rightarrow> u64" where
  "unsigned_value flags w =
     (if flags AND (FLAGS_LONG_LONG OR FLAGS_LONG) \<noteq> 0 then w
      else if flags AND FLAGS_CHAR \<noteq> 0 then ucast (ucast w :: u8)
      else if flags AND FLAGS_SHORT \<noteq> 0 then ucast (ucast w :: u16)
      else ucast (ucast w :: u32))"

definition ntoa :: "'s sink \<Rightarrow> u64 \<Rightarrow> bool \<Rightarrow> u64 \<Rightarrow> u32 \<Rightarrow> u32 \<Rightarrow> u32 \<Rightarrow> u64 \<times> 's \<Rightarrow> u64 \<times> 's" where
  "ntoa k v negative base prec width flags p =
     (if flags AND FLAGS_LONG_LONG \<noteq> 0 then ntoa_long_long k v negative base prec width flags p
      else ntoa_long k v negative base prec width flags p)"

definition conv_integer :: "'s sink \<Rightarrow> char \<Rightarrow> u32 \<Rightarrow> u32 \<Rightarrow> u32 \<Rightarrow> u64 \<Rightarrow> u64 \<times> 's \<Rightarrow> u64 \<times> 's" where
  "conv_integer k c flags width prec w p =
     (let base = (if c = CHR ''x'' \<or> c = CHR ''X'' then 16 else if c = CHR ''o'' then 8
                  else if c = CHR ''b'' then 2 else 10) :: u64;
          flags = (if base = 10 then flags AND NOT FLAGS_HASH else flags);
          flags = (if c = CHR ''X'' then flags OR FLAGS_UPPERCASE else flags);
          flags = (if c \<noteq> CHR ''i'' \<and> c \<noteq> CHR ''d'' then flags AND NOT (FLAGS_PLUS OR FLAGS_SPACE) else flags);
          flags = (if flags AND FLAGS_PRECISION \<noteq> 0 then flags AND NOT FLAGS_ZEROPAD else flags)
      in if c = CHR ''i'' \<or> c = CHR ''d'' then
           let (v, negative) = signed_value flags w in ntoa k v negative base prec width flags p
         else ntoa k (unsigned_value flags w) False base prec width flags p)"

definition conv_char :: "'s sink \<Rightarrow> u32 \<Rightarrow> u32 \<Rightarrow> u64 \<Rightarrow> u64 \<times> 's \<Rightarrow> u64 \<times> 's" where
  "conv_char k flags width w p =
     (let p = (if flags AND FLAGS_LEFT = 0 then spaces k (unat width - 1) p else p);
          p = put k (char_of (unat (ucast w :: u8))) p
      in if flags AND FLAGS_LEFT \<noteq> 0 then spaces k (unat width - 1) p else p)"

definition conv_string :: "'s sink \<Rightarrow> u32 \<Rightarrow> u32 \<Rightarrow> u32 \<Rightarrow> string \<Rightarrow> u64 \<times> 's \<Rightarrow> u64 \<times> 's" where
  "conv_string k flags width prec str p =
     (let l = strnlen_s str (if prec \<noteq> 0 then ucast prec else - 1);
          l = (if flags AND FLAGS_PRECISION \<noteq> 0 then (if l < prec then l else prec) else l);
          p = (if flags AND FLAGS_LEFT = 0 then spaces k (unat width - unat l) p else p);
          p = puts k (if flags AND FLAGS_PRECISION \<noteq> 0 then take (unat prec) str else str) p
      in if flags AND FLAGS_LEFT \<noteq> 0 then spaces k (unat width - unat l) p else p)"

text \<open>The switch on the specifier, with the rest of the format after it.\<close>

definition convert ::
  "'s sink \<Rightarrow> string \<Rightarrow> u32 \<Rightarrow> u32 \<Rightarrow> u32 \<Rightarrow> arg list \<Rightarrow> u64 \<times> 's \<Rightarrow> (string \<times> arg list \<times> u64 \<times> 's) res" where
  "convert k fmt flags width prec args p =
     (case fmt of
        [] \<Rightarrow> Inl Out_Of_Bounds
      | c # cs \<Rightarrow>
          if c \<in> set ''diuxXob'' then
            rbind (next_word args) (\<lambda>(w, args). Inr (cs, args, conv_integer k c flags width prec w p))
          else if c = CHR ''c'' then
            rbind (next_word args) (\<lambda>(w, args). Inr (cs, args, conv_char k flags width w p))
          else if c = CHR ''s'' then
            rbind (next_str args) (\<lambda>(s, args).
              case s of None \<Rightarrow> Inl Null_Deref | Some str \<Rightarrow> Inr (cs, args, conv_string k flags width prec str p))
          else if c = CHR ''p'' then
            rbind (next_word args) (\<lambda>(w, args).
              Inr (cs, args, ntoa_long_long k w False 16 prec 16 (flags OR FLAGS_ZEROPAD OR FLAGS_UPPERCASE) p))
          else Inr (cs, args, put k c p))"

lemma atoi_shorter: "length (snd (atoi fmt i)) \<le> length fmt"
  by (induction fmt i rule: atoi.induct) auto

lemma parse_flags_shorter: "length (snd (parse_flags fmt flags)) \<le> length fmt"
  by (induction fmt flags rule: parse_flags.induct) auto

lemma parse_width_shorter: "parse_width fmt flags args = Inr (fl, w, f, a) \<Longrightarrow> length f \<le> length fmt"
  using atoi_shorter [of fmt 0]
  by (auto simp: parse_width_def Let_def rbind_eq_Inr_iff split: list.splits if_splits prod.splits)

lemma parse_precision_shorter: "parse_precision fmt flags args = Inr (fl, w, f, a) \<Longrightarrow> length f \<le> length fmt"
  using atoi_shorter [of "tl fmt" 0]
  by (auto simp: parse_precision_def Let_def rbind_eq_Inr_iff split: list.splits if_splits prod.splits)

lemma parse_length_shorter: "length (snd (parse_length fmt flags)) \<le> length fmt"
  by (auto simp: parse_length_def Let_def split: list.splits)

lemma convert_shorter: "convert k fmt flags w prec args p = Inr (f, a, q) \<Longrightarrow> length f < length fmt"
  by (auto simp: convert_def rbind_eq_Inr_iff split: list.splits if_splits option.splits prod.splits)

text \<open>One specification, after its percent sign.\<close>

definition one_spec ::
  "'s sink \<Rightarrow> string \<Rightarrow> arg list \<Rightarrow> u64 \<times> 's \<Rightarrow> (string \<times> arg list \<times> u64 \<times> 's) res" where
  "one_spec k fmt args p =
     (let (flags, fmt) = parse_flags fmt 0
      in rbind (parse_width fmt flags args) (\<lambda>(flags, width, fmt, args).
         rbind (parse_precision fmt flags args) (\<lambda>(flags, prec, fmt, args).
           let (flags, fmt) = parse_length fmt flags
           in convert k fmt flags width prec args p)))"

lemma one_spec_shorter:
  assumes "one_spec k fmt args p = Inr (f, a, q)"
  shows "length f < length fmt"
proof -
  obtain fl f1 where 1: "parse_flags fmt 0 = (fl, f1)" by (cases "parse_flags fmt 0")
  obtain fl2 w f2 a2 where 2: "parse_width f1 fl args = Inr (fl2, w, f2, a2)"
    using assms 1 by (auto simp: one_spec_def)
  obtain fl3 r f3 a3 where 3: "parse_precision f2 fl2 a2 = Inr (fl3, r, f3, a3)"
    using assms 1 2 by (auto simp: one_spec_def)
  obtain fl4 f4 where 4: "parse_length f3 fl3 = (fl4, f4)" by (cases "parse_length f3 fl3")
  have "convert k f4 fl4 w r a3 p = Inr (f, a, q)" using assms 1 2 3 4 by (simp add: one_spec_def)
  then show ?thesis
    using convert_shorter parse_length_shorter [of f3 fl3] 4 parse_precision_shorter [OF 3] parse_width_shorter [OF 2]
      parse_flags_shorter [of fmt 0] 1 by fastforce
qed

function fmt_loop :: "'s sink \<Rightarrow> string \<Rightarrow> arg list \<Rightarrow> u64 \<times> 's \<Rightarrow> (u64 \<times> 's) res" where
  "fmt_loop k [] args p = Inr p"
| "fmt_loop k (c # cs) args p =
     (if c \<noteq> CHR ''%'' then fmt_loop k cs args (put k c p)
      else rbind (one_spec k cs args p) (\<lambda>(fmt, args, p). fmt_loop k fmt args p))"
  by pat_completeness auto

termination
  by (relation "measure (\<lambda>(k, fmt, args, p). length fmt)") (auto dest: one_spec_shorter)

section \<open>Entry points\<close>

text \<open>The result is \<^verbatim>\<open>(int)idx\<close>; \<open>buffer\<close> is only tested for null here.\<close>

definition vsnprintf_core ::
  "'s out_fct_type \<Rightarrow> addr \<Rightarrow> u64 \<Rightarrow> string \<Rightarrow> arg list \<Rightarrow> 's \<Rightarrow> (int \<times> 's) res" where
  "vsnprintf_core out buffer maxlen fmt args s =
     (let out = (if buffer = NULL then out_null else out)
      in rbind (fmt_loop (out, maxlen) fmt args (0, s)) (\<lambda>(idx, s).
           Inr (sint (ucast idx :: u32), out CHR 0x00 (if idx < maxlen then idx else maxlen - 1) maxlen s)))"

text \<open>\<^verbatim>\<open>local\<close> is the address of the one-byte array that the console functions pass as their buffer.\<close>

definition printf :: "addr \<Rightarrow> string \<Rightarrow> arg list \<Rightarrow> hart \<times> spinlock \<times> string \<Rightarrow> (int \<times> hart \<times> spinlock \<times> string) res" where
  "printf local fmt args = (\<lambda>(c, printf_lock, console).
     rbind (spinlock_acquire (c, printf_lock)) (\<lambda>(c, printf_lock).
     rbind (vsnprintf_core out_char local (- 1) fmt args console) (\<lambda>(ret, console).
     rbind (spinlock_release (c, printf_lock)) (\<lambda>(c, printf_lock). Inr (ret, c, printf_lock, console)))))"

definition vprintf :: "addr \<Rightarrow> string \<Rightarrow> arg list \<Rightarrow> string \<Rightarrow> (int \<times> string) res" where
  "vprintf local fmt args console = vsnprintf_core out_char local (- 1) fmt args console"

definition sprintf :: "addr \<Rightarrow> string \<Rightarrow> arg list \<Rightarrow> cmem \<Rightarrow> (int \<times> cmem) res" where
  "sprintf buffer fmt args m = vsnprintf_core (out_buffer buffer) buffer (- 1) fmt args m"

definition snprintf :: "addr \<Rightarrow> u64 \<Rightarrow> string \<Rightarrow> arg list \<Rightarrow> cmem \<Rightarrow> (int \<times> cmem) res" where
  "snprintf buffer count fmt args m = vsnprintf_core (out_buffer buffer) buffer count fmt args m"

definition vsnprintf :: "addr \<Rightarrow> u64 \<Rightarrow> string \<Rightarrow> arg list \<Rightarrow> cmem \<Rightarrow> (int \<times> cmem) res" where
  "vsnprintf buffer count fmt args m = vsnprintf_core (out_buffer buffer) buffer count fmt args m"

definition fctprintf :: "(char \<Rightarrow> 's \<Rightarrow> 's) \<Rightarrow> addr \<Rightarrow> string \<Rightarrow> arg list \<Rightarrow> 's \<Rightarrow> (int \<times> 's) res" where
  "fctprintf fct out_fct_wrap fmt args s = vsnprintf_core (out_fct fct) out_fct_wrap (- 1) fmt args s"

end
