(* ===== verification/Printf_Correct.thy ===== *)
theory Printf_Correct
  imports Printf
begin

text \<open>
  The formatter emits one stream of characters that depends on the format and its arguments only. \<open>emits F cs\<close>: the
  step \<open>F\<close> of the formatter emits \<open>cs\<close>, one after the other, whatever the sink is. From that follow the
  contents of a buffer of any size, and the text of numbers.
\<close>

section \<open>Emission\<close>

lemma puts_Nil [simp]: "puts k [] p = p"
  by (simp add: puts_def)

lemma puts_Cons [simp]: "puts k (c # cs) p = puts k cs (put k c p)"
  by (simp add: puts_def)

lemma puts_append: "puts k (cs @ ds) p = puts k ds (puts k cs p)"
  by (simp add: puts_def)

lemma put_puts: "put k c p = puts k [c] p"
  by simp

lemma fst_put: "fst (put k c p) = fst p + 1"
  by (simp add: put_def split: prod.splits)

lemma fst_puts: "fst (puts k cs p) = fst p + of_nat (length cs)"
  by (induction cs arbitrary: p) (auto simp: fst_put)

section \<open>Streams\<close>

text \<open>What each step emits.\<close>

definition rev_stream :: "string \<Rightarrow> u32 \<Rightarrow> u32 \<Rightarrow> string" where
  "rev_stream buf width flags =
     (let w = unat width - length buf
      in (if flags AND FLAGS_LEFT = 0 \<and> flags AND FLAGS_ZEROPAD = 0 then replicate w CHR '' '' else []) @ rev buf @
         (if flags AND FLAGS_LEFT \<noteq> 0 then replicate w CHR '' '' else []))"

lemma out_rev_puts:
  assumes "length buf \<le> 32"
  shows "out_rev k buf width flags p = puts k (rev_stream buf width flags) p"
proof -
  have n: "unat (of_nat (length buf) :: u64) = length buf"
    using assms by (simp add: unat_of_nat take_bit_nat_eq_self)
  show ?thesis
  proof (cases "flags AND FLAGS_LEFT = 0")
    case True
    then show ?thesis by (simp add: out_rev_def rev_stream_def spaces_def puts_append Let_def)
  next
    case False
    then show ?thesis
      using n by (simp add: out_rev_def rev_stream_def spaces_def puts_append fst_puts Let_def)
  qed
qed

lemma length_pad_zero: "length buf \<le> 32 \<Longrightarrow> length (pad_zero n buf) \<le> 32"
  by (simp add: pad_zero_def PRINTF_NTOA_BUFFER_SIZE_def)

lemma length_push_char: "length buf \<le> 32 \<Longrightarrow> length (push_char c buf) \<le> 32"
  by (simp add: push_char_def PRINTF_NTOA_BUFFER_SIZE_def)

lemma length_butlast_le: "length buf \<le> 32 \<Longrightarrow> length (butlast buf) \<le> 32"
  by simp

lemmas buffer_bounds = length_pad_zero length_push_char length_butlast_le

lemma length_add_hash: "length buf \<le> 32 \<Longrightarrow> length (add_hash buf base prec width flags) \<le> 32"
  by (simp add: add_hash_def Let_def buffer_bounds)

lemma length_add_sign: "length buf \<le> 32 \<Longrightarrow> length (add_sign buf negative flags) \<le> 32"
  by (simp add: add_sign_def buffer_bounds)

lemma length_digit_loop: "length (digit_loop room v base flags) \<le> room"
  by (induction room v base flags rule: digit_loop.induct) auto

text \<open>The collecting sink: it appends every character it gets.\<close>

definition collect :: "string out_fct_type" where
  "collect c idx maxlen s = s @ [c]"

text \<open>What a step emits, read off from the collecting sink.\<close>

definition emitted :: "(string sink \<Rightarrow> u64 \<times> string \<Rightarrow> u64 \<times> string) \<Rightarrow> string" where
  "emitted F = snd (F (collect, 0) (0, []))"

lemma snd_puts_collect: "snd (puts (collect, n) cs p) = snd p @ cs"
  by (induction cs arbitrary: p) (auto simp: put_def collect_def split: prod.splits)

lemma emitted_puts: "emitted (\<lambda>k p. puts k cs p) = cs"
  by (simp add: emitted_def snd_puts_collect)

lemma ntoa_format_emits:
  assumes "length buf \<le> 32"
  shows "ntoa_format k buf neg base prec width flags p =
    puts k (emitted (\<lambda>k p. ntoa_format k buf neg base prec width flags p)) p"
proof -
  let ?wb = "if flags AND FLAGS_LEFT = 0 then
       let width = (if width \<noteq> 0 \<and> flags AND FLAGS_ZEROPAD \<noteq> 0 \<and>
                      (neg \<or> flags AND (FLAGS_PLUS OR FLAGS_SPACE) \<noteq> 0) then width - 1 else width);
           buf = pad_zero (unat prec) buf
       in (if flags AND FLAGS_ZEROPAD \<noteq> 0 then pad_zero (unat width) buf else buf, width)
     else (buf, width)"
  define b where "b = add_sign (if flags AND FLAGS_HASH \<noteq> 0 then add_hash (fst ?wb) base prec (snd ?wb) flags
    else fst ?wb) neg flags"
  have "length (fst ?wb) \<le> 32" using assms by (simp add: Let_def buffer_bounds)
  then have b: "length b \<le> 32" by (simp add: b_def length_add_sign length_add_hash)
  have "ntoa_format k' buf neg base prec width flags p = out_rev k' b (snd ?wb) flags p" for k' :: "'b sink" and p
    by (simp add: ntoa_format_def b_def Let_def)
  moreover have "ntoa_format k buf neg base prec width flags p = out_rev k b (snd ?wb) flags p" for k :: "string sink" and p
    by (simp add: ntoa_format_def b_def Let_def)
  moreover have "ntoa_format k buf neg base prec width flags p = out_rev k b (snd ?wb) flags p"
    by (simp add: ntoa_format_def b_def Let_def)
  ultimately show ?thesis by (simp add: out_rev_puts [OF b] emitted_puts)
qed

lemma ntoa_buffer: "length (if P then digit_loop PRINTF_NTOA_BUFFER_SIZE v base flags else []) \<le> 32"
  using length_digit_loop [of 32] by (simp add: PRINTF_NTOA_BUFFER_SIZE_def)

lemma ntoa_emits:
  "ntoa_long k v neg base prec width flags p = puts k (emitted (\<lambda>k p. ntoa_long k v neg base prec width flags p)) p"
  "ntoa_long_long k v neg base prec width flags p =
     puts k (emitted (\<lambda>k p. ntoa_long_long k v neg base prec width flags p)) p"
  unfolding ntoa_long_def ntoa_long_long_def Let_def
  by (rule ntoa_format_emits [OF ntoa_buffer])+

lemma ntoa_step_emits:
  "ntoa k v neg base prec width flags p = puts k (emitted (\<lambda>k p. ntoa k v neg base prec width flags p)) p"
proof (cases "flags AND FLAGS_LONG_LONG \<noteq> 0")
  case True
  show ?thesis unfolding ntoa_def if_P [OF True] by (rule ntoa_emits)
next
  case False
  show ?thesis unfolding ntoa_def if_not_P [OF False] by (rule ntoa_emits)
qed

lemma conv_integer_emits:
  "conv_integer k c flags width prec w p = puts k (emitted (\<lambda>k p. conv_integer k c flags width prec w p)) p"
proof (cases "c = CHR ''i'' \<or> c = CHR ''d''")
  case True
  show ?thesis unfolding conv_integer_def Let_def split_beta if_P [OF True] by (intro ntoa_step_emits)
next
  case False
  show ?thesis unfolding conv_integer_def Let_def if_not_P [OF False] by (intro ntoa_step_emits)
qed

lemma conv_char_emits:
  "conv_char k flags width w p = puts k (emitted (\<lambda>k p. conv_char k flags width w p)) p"
  by (simp add: conv_char_def emitted_def spaces_def put_puts puts_append [symmetric] snd_puts_collect del: puts_Cons)

lemma conv_string_emits:
  "conv_string k flags width prec str p = puts k (emitted (\<lambda>k p. conv_string k flags width prec str p)) p"
  by (simp add: conv_string_def emitted_def spaces_def puts_append [symmetric] snd_puts_collect Let_def)

lemma put_emits: "put k c p = puts k (emitted (\<lambda>k p. put k c p)) p"
  by (simp add: emitted_def put_def collect_def split: prod.splits)

text \<open>The steps that can fail.\<close>

definition conv_text :: "string \<Rightarrow> u32 \<Rightarrow> u32 \<Rightarrow> u32 \<Rightarrow> arg list \<Rightarrow> (string \<times> arg list \<times> string) res" where
  "conv_text fmt flags width prec args =
     rbind (convert (collect, 0) fmt flags width prec args (0, [])) (\<lambda>(f, a, q). Inr (f, a, snd q))"

definition spec_text :: "string \<Rightarrow> arg list \<Rightarrow> (string \<times> arg list \<times> string) res" where
  "spec_text fmt args = rbind (one_spec (collect, 0) fmt args (0, [])) (\<lambda>(f, a, q). Inr (f, a, snd q))"

lemma snd_step: "snd (F (collect, 0) (0, [])) = emitted F"
  by (simp add: emitted_def)

lemma convert_emits:
  "convert k fmt flags width prec args p =
     rbind (conv_text fmt flags width prec args) (\<lambda>(f, a, cs). Inr (f, a, puts k cs p))"
proof (cases fmt)
  case Nil
  then show ?thesis by (simp add: convert_def conv_text_def)
next
  case (Cons c cs)
  let ?n = "next_word args" and ?s = "next_str args"
  show ?thesis
    using conv_integer_emits [of k c flags width prec _ p] conv_char_emits [of k flags width _ p]
      conv_string_emits [of k flags width prec _ p] put_emits [of k c p]
      ntoa_emits(2) [of k _ False 16 prec 16 "flags OR FLAGS_ZEROPAD OR FLAGS_UPPERCASE" p]
    by (cases ?n; cases ?s) (auto simp: Cons convert_def conv_text_def emitted_def split: option.splits)
qed

lemma one_spec_emits:
  "one_spec k fmt args p = rbind (spec_text fmt args) (\<lambda>(f, a, cs). Inr (f, a, puts k cs p))"
proof -
  have c: "convert (collect, 0) fmt fl w r a (0, []) = rbind (conv_text fmt fl w r a) (\<lambda>(f, a, cs). Inr (f, a, puts (collect, 0) cs (0, [])))"
    for fmt fl w r a
    by (rule convert_emits)
  show ?thesis
    unfolding one_spec_def spec_text_def c convert_emits [of k]
    by (simp add: rbind_assoc split_beta snd_puts_collect cong: rbind_cong)
qed

section \<open>The text of a call\<close>

lemma spec_text_shorter: "spec_text fmt args = Inr (f, a, t) \<Longrightarrow> length f < length fmt"
  by (auto simp: spec_text_def rbind_eq_Inr_iff dest: one_spec_shorter)

text \<open>The text that a format and its arguments stand for, without any sink.\<close>

function fmt_text :: "string \<Rightarrow> arg list \<Rightarrow> string res" where
  "fmt_text [] args = Inr []"
| "fmt_text (c # cs) args =
     (if c \<noteq> CHR ''%'' then rbind (fmt_text cs args) (\<lambda>t. Inr (c # t))
      else rbind (spec_text cs args) (\<lambda>(fmt, args, t). rbind (fmt_text fmt args) (\<lambda>u. Inr (t @ u))))"
  by pat_completeness auto

termination
  by (relation "measure (\<lambda>(fmt, args). length fmt)") (auto dest: spec_text_shorter)

lemma fmt_loop_text: "fmt_loop k fmt args p = rbind (fmt_text fmt args) (\<lambda>t. Inr (puts k t p))"
proof (induction fmt args arbitrary: p rule: fmt_text.induct)
  case (1 args)
  show ?case by simp
next
  case (2 c cs args)
  show ?case
  proof (cases "c = CHR ''%''")
    case True
    show ?thesis
    proof (cases "spec_text cs args")
      case (Inr r)
      then obtain f a t where r: "spec_text cs args = Inr (f, a, t)" by (cases r) auto
      have "fmt_loop k f a (puts k t p) = rbind (fmt_text f a) (\<lambda>u. Inr (puts k u (puts k t p)))"
        by (rule 2(2) [of "(f, a, t)" f "(a, t)" a t]) (simp_all add: True r)
      then show ?thesis using r True by (simp add: one_spec_emits [of k cs] rbind_assoc puts_append)
    qed (simp add: True one_spec_emits [of k cs])
  next
    case False
    then show ?thesis using 2(1) by (simp add: rbind_assoc)
  qed
qed

section \<open>Buffers\<close>

text \<open>What a buffer of \<open>n\<close> characters at \<open>b\<close> holds after the text was sent to it.\<close>

lemma offset_unat: "a = b + x \<longleftrightarrow> unat (a - b) = unat (x :: addr)"
proof -
  have "a = b + x \<longleftrightarrow> a - b = x" by (auto simp: algebra_simps)
  then show ?thesis by (simp add: word_unat_eq_iff)
qed

lemma put_buffer: "put (out_buffer b, n) c (i, m) = (i + 1, if i < n then m(b + i := c) else m)"
  by (simp add: put_def out_buffer_def)

lemma puts_buffer:
  assumes "length t < 2 ^ 64"
  shows "puts (out_buffer b, n) t (0, m) = (of_nat (length t),
    \<lambda>a. let i = unat (a - b) in if i < length t \<and> i < unat n then t ! i else m a)"
  using assms
proof (induction t rule: rev_induct)
  case Nil
  show ?case by simp
next
  case (snoc c t)
  have l: "unat (of_nat (length t) :: u64) = length t" using snoc(2) by (simp add: unat_of_nat take_bit_nat_eq_self)
  have i: "a = b + of_nat (length t) \<longleftrightarrow> unat (a - b) = length t" for a :: addr
    by (simp add: offset_unat l)
  have lt: "(of_nat (length t) :: u64) < n \<longleftrightarrow> length t < unat n" by (simp add: word_less_nat_alt l)
  have "puts (out_buffer b, n) (t @ [c]) (0, m) = put (out_buffer b, n) c (puts (out_buffer b, n) t (0, m))"
    by (simp add: puts_append)
  then show ?case
    using snoc lt by (auto simp: put_buffer i nth_append fun_eq_iff Let_def less_Suc_eq)
qed

definition terminated :: "addr \<Rightarrow> nat \<Rightarrow> string \<Rightarrow> cmem \<Rightarrow> cmem" where
  "terminated b n t m =
     (\<lambda>a. let i = unat (a - b); e = min (length t) (n - 1)
          in if i < e then t ! i else if i = e \<and> 0 < n then CHR 0x00 else m a)"

lemma vsnprintf_core_buffer:
  assumes "fmt_text fmt args = Inr t" and "length t < 2 ^ 31" and "b \<noteq> NULL"
  shows "vsnprintf_core (out_buffer b) b n fmt args m = Inr (int (length t), terminated b (unat n) t m)"
proof -
  have l: "unat (of_nat (length t) :: u64) = length t" using assms(2) by (simp add: unat_of_nat take_bit_nat_eq_self)
  have r: "sint (ucast (of_nat (length t) :: u64) :: u32) = int (length t)"
  proof -
    have "ucast (of_nat (length t) :: u64) = (of_nat (length t) :: u32)" 
      using assms(2) by (simp add: unsigned_of_nat take_bit_nat_eq_self)
    also have "sint \<dots> = int (length t)"
      using assms(2) by (simp add: signed_of_nat signed_take_bit_int_eq_self)
    finally show ?thesis .
  qed
  have lt: "(of_nat (length t) :: u64) < n \<longleftrightarrow> length t < unat n" by (simp add: word_less_nat_alt l)
  have i: "a = b + x \<longleftrightarrow> unat (a - b) = unat x" for a x :: addr
    by (rule offset_unat)
  note eval = vsnprintf_core_def fmt_loop_text puts_buffer [of t, OF order.strict_trans [OF assms(2)]] r terminated_def
    out_buffer_def
  show ?thesis
  proof (cases "n = 0")
    case True
    then show ?thesis using assms(1,3) lt by (simp add: eval fun_eq_iff Let_def)
  next
    case False
    then have n1: "unat (n - 1) = unat n - 1" "n - 1 < n" "0 < unat n"
      by (simp_all add: word_less_nat_alt unat_minus_one unat_gt_0)
    show ?thesis
      using assms(1,3) lt l n1 by (auto simp: eval i fun_eq_iff Let_def)
  qed
qed

end
