(* ===== verification/Printf_Properties.thy ===== *)
theory Printf_Properties
  imports Printf_Correct
begin

text \<open>
  What the formatter promises: buffers are never overrun and always terminated, and printed numbers read back as
  the numbers they are, except in base 2.
\<close>

section \<open>Reading numbers\<close>

definition digit_val :: "char \<Rightarrow> nat" where
  "digit_val c = (let n = of_char c in if 97 \<le> n then n - 87 else if 65 \<le> n then n - 55 else n - 48)"

definition read_digits :: "nat \<Rightarrow> string \<Rightarrow> nat" where
  "read_digits b t = fold (\<lambda>c v. v * b + digit_val c) t 0"

fun read_int :: "string \<Rightarrow> int" where
  "read_int [] = 0"
| "read_int (c # cs) = (if c = CHR ''-'' then - int (read_digits 10 cs) else int (read_digits 10 (c # cs)))"

lemma digit_val_char: "d < 16 \<Longrightarrow> digit_val (digit_char flags d) = d"
  by (auto simp: digit_val_def digit_char_def Let_def)

lemma digit_char_not_minus: "d < 16 \<Longrightarrow> digit_char flags d \<noteq> CHR ''-''"
proof -
  assume d: "d < 16"
  have "of_char (digit_char flags d) \<noteq> (45 :: nat)" using d by (auto simp: digit_char_def)
  then show ?thesis by auto
qed

lemma read_digits_snoc: "read_digits b (t @ [c]) = read_digits b t * b + digit_val c"
  by (simp add: read_digits_def)

lemma read_digits_zeros: "read_digits b (replicate n CHR ''0'' @ t) = read_digits b t"
  by (induction n) (simp_all add: read_digits_def digit_val_def Let_def)

lemma digit_loop_value:
  assumes "unat base = b" and "2 \<le> b" and "b \<le> 16" and "0 < room"
  shows "read_digits b (rev (digit_loop room v base flags)) = unat v mod b ^ room"
  using assms(4)
proof (induction room arbitrary: v)
  case (Suc room)
  have d: "digit_val (digit_char flags (unat (v mod base))) = unat v mod b"
    using assms(1-3) by (subst digit_val_char) (simp_all add: unat_mod order.strict_trans2 [OF mod_less_divisor])
  show ?case
  proof (cases "v div base = 0")
    case True
    then have "unat v div b = 0" using assms(1) by (metis unat_div unat_0)
    then have "unat v < b" using assms(2) by (simp add: div_eq_0_iff)
    moreover have "b \<le> b ^ Suc room" using assms(2) by (intro self_le_power) simp_all
    ultimately have "unat v mod b = unat v" "unat v mod b ^ Suc room = unat v" by (simp_all del: power_Suc)
    then show ?thesis using True d by (simp add: read_digits_def del: power_Suc)
  next
    case False
    show ?thesis
    proof (cases "room = 0")
      case True
      then show ?thesis using d by (simp add: read_digits_def)
    next
      case nz: False
      have "unat v mod b ^ Suc room = b * (unat v div b mod b ^ room) + unat v mod b"
        by (simp add: mod_mult2_eq)
      then show ?thesis
        using Suc(1) [of "v div base"] nz False d assms(1) by (simp add: read_digits_snoc unat_div)
    qed
  qed
qed simp

lemma digit_loop_length:
  assumes "unat base = b" and "2 \<le> b" and "unat v < b ^ k" and "0 < k"
  shows "length (digit_loop room v base flags) \<le> k"
  using assms(3,4)
proof (induction room arbitrary: v k)
  case (Suc room)
  show ?case
  proof (cases "v div base = 0")
    case False
    then have "unat v div b \<noteq> 0" using assms(1) by (metis unat_div unat_eq_0)
    then have "b \<le> unat v" by (simp add: div_eq_0_iff not_less)
    then obtain j where j: "k = Suc j" "0 < j" using Suc(2,3) assms(2) by (cases k; cases "k - 1") auto
    have "unat v div b < b ^ j" using Suc(2) j(1) assms(2) by (simp add: less_mult_imp_div_less mult.commute)
    then show ?thesis using Suc(1) [of "v div base" j] j assms(1) False by (simp add: unat_div)
  qed (use Suc in simp)
qed simp

lemma digit_loop_digits: "unat base \<le> 16 \<Longrightarrow> 0 < unat base \<Longrightarrow> CHR ''-'' \<notin> set (digit_loop room v base flags)"
  using digit_char_not_minus
  by (induction room v base flags rule: digit_loop.induct)
     (auto simp: unat_mod order.strict_trans2 [OF mod_less_divisor] dest!: sym [of "CHR ''-''"])

section \<open>Plain conversions\<close>

text \<open>Without width, precision and flags other than the size of the argument.\<close>

lemma ntoa_format_plain:
  assumes "flags AND (FLAGS_LEFT OR FLAGS_ZEROPAD OR FLAGS_HASH) = 0" and "length buf \<le> 32"
  shows "snd (ntoa_format (collect, 0) buf neg base 0 0 flags (0, [])) = rev (add_sign buf neg flags)"
proof -
  have f: "flags AND FLAGS_LEFT = 0" "flags AND FLAGS_ZEROPAD = 0" "flags AND FLAGS_HASH = 0"
    using assms(1) by (metis bit.conj_disj_distrib bit.conj_zero_right or_eq_0_iff)+
  show ?thesis
    using assms(2) f
    by (simp add: ntoa_format_def pad_zero_def out_rev_puts rev_stream_def snd_puts_collect length_add_sign)
qed

lemma digits_add_sign:
  assumes "length ds < 32" and "flags AND (FLAGS_PLUS OR FLAGS_SPACE) = 0"
  shows "rev (add_sign ds neg flags) = (if neg then CHR ''-'' # rev ds else rev ds)"
proof -
  have "flags AND FLAGS_PLUS = 0" "flags AND FLAGS_SPACE = 0"
    using assms(2) by (metis bit.conj_disj_distrib or_eq_0_iff)+
  then show ?thesis using assms(1) by (simp add: add_sign_def push_char_def PRINTF_NTOA_BUFFER_SIZE_def)
qed

definition plain_flags :: "u32 \<Rightarrow> bool" where
  "plain_flags flags \<longleftrightarrow> flags AND (FLAGS_LEFT OR FLAGS_ZEROPAD OR FLAGS_HASH) = 0 \<and>
     flags AND (FLAGS_PLUS OR FLAGS_SPACE) = 0 \<and> flags AND FLAGS_PRECISION = 0"

text \<open>The digits of a number in bases 10 and 16 always fit the conversion buffer.\<close>

lemma digits_fit:
  assumes "10 \<le> unat base" and "unat base \<le> 16"
  shows "length (digit_loop 32 v base flags) < 32"
proof -
  have "unat v < 2 ^ 64" using unat_lt [of v] by simp
  also have "(2 :: nat) ^ 64 \<le> 10 ^ 20" by simp
  also have "(10 :: nat) ^ 20 \<le> unat base ^ 20" using assms(1) by (rule power_mono) simp
  finally have "length (digit_loop 32 v base flags) \<le> 20" using assms(1) by (intro digit_loop_length) auto
  then show ?thesis by simp
qed

lemma digits_value:
  assumes "10 \<le> unat base" and "unat base \<le> 16"
  shows "read_digits (unat base) (rev (digit_loop 32 v base flags)) = unat v"
proof -
  have "unat v < 2 ^ 64" using unat_lt [of v] by simp
  also have "(2 :: nat) ^ 64 \<le> 10 ^ 32" by simp
  also have "(10 :: nat) ^ 32 \<le> unat base ^ 32" using assms(1) by (rule power_mono) simp
  finally show ?thesis using digit_loop_value [OF refl, of base 32 v flags] assms by simp
qed

lemma ntoa_long_plain:
  assumes "plain_flags flags" and "10 \<le> unat base" and "unat base \<le> 16"
  shows "snd (ntoa_long (collect, 0) v neg base 0 0 flags (0, [])) =
    (if neg then [CHR ''-''] else []) @ rev (digit_loop 32 v base (if v = 0 then flags AND NOT FLAGS_HASH else flags))"
proof -
  define fl where "fl = (if v = 0 then flags AND NOT FLAGS_HASH else flags)"
  have "fl AND m = 0" if "flags AND m = 0" for m proof -
    have "(flags AND NOT FLAGS_HASH) AND m = (flags AND m) AND NOT FLAGS_HASH" by (simp only: ac_simps)
    then show ?thesis using that by (simp add: fl_def)
  qed
  then have p: "fl AND (FLAGS_LEFT OR FLAGS_ZEROPAD OR FLAGS_HASH) = 0" "fl AND (FLAGS_PLUS OR FLAGS_SPACE) = 0"
    "fl AND FLAGS_PRECISION = 0"
    using assms(1) by (auto simp: plain_flags_def)
  have l: "length (digit_loop 32 v base fl) < 32" by (rule digits_fit [OF assms(2,3)])
  then show ?thesis
    using p by (simp add: ntoa_long_def fl_def [symmetric] ntoa_format_plain digits_add_sign PRINTF_NTOA_BUFFER_SIZE_def)
qed

lemma ntoa_long_long_same: "ntoa_long_long = ntoa_long"
  by (simp add: fun_eq_iff ntoa_long_long_def ntoa_long_def)

lemma magnitude:
  fixes v :: "'a::len word"
  shows "int (unat (if 0 < sint v then v else 0 - v)) = \<bar>sint v\<bar>"
proof -
  have b: "- (2 ^ (LENGTH('a) - 1)) \<le> sint v" "sint v < 2 ^ (LENGTH('a) - 1)"
    using sint_greater_eq [of v] sint_less [of v] by simp_all
  have "(2 :: int) ^ (LENGTH('a) - 1) < 2 ^ LENGTH('a)" by (rule power_strict_increasing) simp_all
  then have "\<bar>sint v\<bar> < 2 ^ LENGTH('a)" using b by linarith
  then have t: "take_bit LENGTH('a) \<bar>sint v\<bar> = \<bar>sint v\<bar>" by (intro take_bit_int_eq_self) simp_all
  have "(if 0 < sint v then v else 0 - v) = word_of_int \<bar>sint v\<bar>" by (simp add: word_of_int_minus [symmetric] del: word_of_int_minus)
  then have "uint (if 0 < sint v then v else 0 - v) = \<bar>sint v\<bar>" using t by (simp only: uint_word_of_int_eq)
  then show ?thesis by simp
qed

lemma read_int_digits:
  assumes "10 \<le> unat base" and "unat base \<le> 16" and "ds = digit_loop 32 v base flags"
  shows "read_int (CHR ''-'' # rev ds) = - int (read_digits 10 (rev ds))"
    "read_int (rev ds) = int (read_digits 10 (rev ds))"
proof -
  show "read_int (CHR ''-'' # rev ds) = - int (read_digits 10 (rev ds))" by simp
  have "CHR ''-'' \<notin> set (rev ds)" using digit_loop_digits assms by simp
  then show "read_int (rev ds) = int (read_digits 10 (rev ds))" by (cases "rev ds") (auto simp: read_digits_def)
qed

lemmas parsing = spec_text_def one_spec_def parse_width_def parse_precision_def parse_length_def convert_def is_digit_def
  conv_integer_def ntoa_def ntoa_long_long_same

lemma plain_sizes: "plain_flags 0" "plain_flags FLAGS_LONG"
  by (simp_all add: plain_flags_def flag_defs)

text \<open>The text of one integer conversion.\<close>

lemma text_conv:
  "fmt_text ''%d'' [Word w] = Inr (snd (case signed_value 0 w of (v, neg) \<Rightarrow> ntoa_long (collect, 0) v neg 10 0 0 0 (0, [])))"
  "fmt_text ''%ld'' [Word w] = Inr (snd (case signed_value FLAGS_LONG w of (v, neg) \<Rightarrow>
     ntoa_long (collect, 0) v neg 10 0 0 FLAGS_LONG (0, [])))"
  "fmt_text ''%lu'' [Word w] = Inr (snd (ntoa_long (collect, 0) w False 10 0 0 FLAGS_LONG (0, [])))"
  "fmt_text ''%lx'' [Word w] = Inr (snd (ntoa_long (collect, 0) w False 16 0 0 FLAGS_LONG (0, [])))"
  "fmt_text ''%lb'' [Word w] = Inr (snd (ntoa_long (collect, 0) w False 2 0 0 FLAGS_LONG (0, [])))"
  by (simp_all add: parsing unsigned_value_def flag_defs)

text \<open>
  C15: Numbers print as they are: the text of \<^verbatim>\<open>%d\<close>, \<^verbatim>\<open>%ld\<close>, \<^verbatim>\<open>%lu\<close> and \<^verbatim>\<open>%lx\<close> reads back as the argument, for every
  argument, the least integers included. \<^verbatim>\<open>%lb\<close> prints only the low 32 bits: its digits do not fit the conversion buffer.
\<close>

theorem printf_numbers_read_back:
  "(\<exists>t. fmt_text ''%d'' [Word w] = Inr t \<and> read_int t = sint (ucast w :: u32)) \<and>
   (\<exists>t. fmt_text ''%ld'' [Word w] = Inr t \<and> read_int t = sint w) \<and>
   (\<exists>t. fmt_text ''%lu'' [Word w] = Inr t \<and> read_digits 10 t = unat w) \<and>
   (\<exists>t. fmt_text ''%lx'' [Word w] = Inr t \<and> read_digits 16 t = unat w) \<and>
   (\<exists>t. fmt_text ''%lb'' [Word w] = Inr t \<and> read_digits 2 t = unat w mod 2 ^ 32)"
proof (intro conjI)
  define rd where "rd v neg flags = snd (ntoa_long (collect, 0) v neg 10 0 0 flags (0, []))" for v neg flags
  have int: "read_int (rd v neg flags) = (if neg then - int (unat v) else int (unat v))" if "plain_flags flags" for v neg flags
    using digits_value [of 10 v] that
    by (simp add: rd_def ntoa_long_plain read_int_digits(2) [of 10 _ v] digits_value [of 10 v, simplified])
  have m: "int (unat (if 0 < sint v then v else 0 - v)) = \<bar>sint v\<bar>" for v :: u64 by (rule magnitude)
  have m32: "int (unat (ucast (if 0 < sint v then v else 0 - v) :: u64)) = \<bar>sint v\<bar>" for v :: u32
  proof -
    have "unat (ucast x :: u64) = unat x" for x :: u32 by (rule unat_ucast_up) simp
    then show ?thesis using magnitude [of v] by simp
  qed
  have no_hash: "FLAGS_LONG AND NOT FLAGS_HASH = FLAGS_LONG" by (simp add: flag_defs)
  show "\<exists>t. fmt_text ''%ld'' [Word w] = Inr t \<and> read_int t = sint w"
    using int [OF plain_sizes(2)] m [of w]
    unfolding text_conv by (auto simp: signed_value_def flag_defs rd_def Let_def)
  show "\<exists>t. fmt_text ''%d'' [Word w] = Inr t \<and> read_int t = sint (ucast w :: u32)"
    using int [OF plain_sizes(1)] m32 [of "ucast w"]
    unfolding text_conv by (auto simp: signed_value_def flag_defs rd_def Let_def)
  show "\<exists>t. fmt_text ''%lu'' [Word w] = Inr t \<and> read_digits 10 t = unat w"
    using digits_value [of 10 w] unfolding text_conv by (simp add: ntoa_long_plain plain_sizes)
  show "\<exists>t. fmt_text ''%lx'' [Word w] = Inr t \<and> read_digits 16 t = unat w"
    using digits_value [of 16 w] unfolding text_conv by (simp add: ntoa_long_plain plain_sizes)
  have "FLAGS_LONG AND m = 0" if "m \<in> {FLAGS_LEFT OR FLAGS_ZEROPAD OR FLAGS_HASH, FLAGS_PLUS, FLAGS_SPACE, FLAGS_PRECISION}" for m
    using that by (auto simp: flag_defs)
  moreover have "ntoa_long (collect, 0) w False 2 0 0 FLAGS_LONG (0, []) =
      ntoa_format (collect, 0) (digit_loop 32 w 2 FLAGS_LONG) False 2 0 0 FLAGS_LONG (0, [])"
    using calculation by (cases "w = 0") (simp_all add: ntoa_long_def no_hash PRINTF_NTOA_BUFFER_SIZE_def)
  ultimately show "\<exists>t. fmt_text ''%lb'' [Word w] = Inr t \<and> read_digits 2 t = unat w mod 2 ^ 32"
    using digit_loop_value [of 2 2 32 w FLAGS_LONG] length_digit_loop [of 32 w 2 FLAGS_LONG]
    unfolding text_conv by (simp add: ntoa_format_plain add_sign_def)
qed

section \<open>Buffers\<close>

text \<open>
  C17: \<^verbatim>\<open>snprintf\<close> writes the first \<open>count - 1\<close> characters of the text and a final zero, or the whole text and a zero
  when it fits, and nothing outside the \<open>count\<close> bytes of the buffer (nothing at all for a count of 0); it returns the
  length of the whole text, so a caller can see that it was cut.
\<close>

theorem snprintf_bounded:
  assumes "fmt_text fmt args = Inr t" and "length t < 2 ^ 31" and "buffer \<noteq> NULL"
  shows "\<exists>m'. snprintf buffer count fmt args m = Inr (int (length t), m') \<and>
    (\<forall>a. m' a = (let i = unat (a - buffer); e = min (length t) (unat count - 1)
         in if i < e then t ! i else if i = e \<and> 0 < count then CHR 0x00 else m a))"
  using vsnprintf_core_buffer [OF assms, of count m]
  by (auto simp: snprintf_def terminated_def Let_def word_less_nat_alt)

theorem snprintf_bounded_witness:
  "\<exists>m'. snprintf 0x1000 4 ''abc%c'' [Word 100] (\<lambda>_. CHR ''z'') = Inr (4, m') \<and>
     m' 0x1002 = CHR ''c'' \<and> m' 0x1003 = CHR 0x00 \<and> m' 0x1004 = CHR ''z''"
proof -
  have t: "fmt_text ''abc%c'' [Word 100] = Inr ''abcd''"
    by (simp add: parsing conv_char_def spaces_def flag_defs put_def collect_def char_of_def bit_0)
  have l: "length ''abcd'' < 2 ^ 31" "(0x1000 :: addr) \<noteq> NULL" by simp_all
  obtain m' where m: "snprintf 0x1000 4 ''abc%c'' [Word 100] (\<lambda>_. CHR ''z'') = Inr (int (length ''abcd''), m')"
    "\<And>a. m' a = (let i = unat (a - 0x1000); e = min (length ''abcd'') (unat (4 :: u64) - 1)
      in if i < e then ''abcd'' ! i else if i = e \<and> 0 < (4 :: u64) then CHR 0x00 else CHR ''z'')"
    using snprintf_bounded [OF t l, of 4 "\<lambda>_. CHR ''z''"] by blast
  have "m' 0x1002 = CHR ''c''" "m' 0x1003 = CHR 0x00" "m' 0x1004 = CHR ''z''"
    by (simp_all add: m(2))
  then show ?thesis using m(1) by simp
qed

text \<open>
  A format that ends in a lone percent sign is read past its end: the terminator is taken for a specifier and skipped.
\<close>

lemma printf_trailing_percent:
  assumes "CHR ''%'' \<notin> set cs"
  shows "fmt_text (cs @ ''%'') args = Inl Out_Of_Bounds"
  using assms by (induction cs) (auto simp: parsing)

text \<open>On the console, \<^verbatim>\<open>printf\<close> sends the text without its zero characters, and gives its lock back.\<close>

lemma puts_console: "snd (puts (out_char, n) t p) = snd p @ filter (\<lambda>c. c \<noteq> CHR 0x00) t"
  by (induction t arbitrary: p) (auto simp: put_def out_char_def split: prod.splits)

lemma printf_console:
  assumes "fmt_text fmt args = Inr t" and "lock_free lk" and "hart_ok c" and "local \<noteq> NULL"
  shows "\<exists>n. printf local fmt args (c, lk, console) =
    Inr (n, leave c, unhold lk, console @ filter (\<lambda>c. c \<noteq> CHR 0x00) t)"
  using assms puts_console [of "- 1" t "(0, console)"]
  by (cases "puts (out_char, - 1) t (0, console)")
     (simp add: printf_def lock_simps vsnprintf_core_def fmt_loop_text out_char_def)

end
