(* ===== verification/Spec2Isabelle.thy ===== *)
theory Spec2Isabelle
  imports Memory_Properties Foundation_Properties Store_Properties String_Properties Vm_Properties
    Storage_Properties Digest_Properties Fs_Properties Lz4_Properties Virtio_Properties Kthread_Properties Trap_Properties Printf_Properties
begin

text \<open>
  NoobKernel: a small RISC-V kernel for the QEMU virt machine, modelled as far as its C code goes.

  1. The program and how its parts interact.
  Memory. \<^verbatim>\<open>pm_init\<close> (\<^verbatim>\<open>src/mm/pm.c\<close>) lays out the page descriptors with the early heap (\<^verbatim>\<open>early.c\<close>) and starts the
  buddy allocator (\<^verbatim>\<open>buddy.c\<close>), which serves blocks of pages; the slab caches (\<^verbatim>\<open>slab.c\<close>) cut objects out of buddy
  blocks; \<^verbatim>\<open>kmalloc\<close> and its relatives (\<^verbatim>\<open>kalloc.c\<close>) choose a cache or the buddy allocator by size. Page tables
  (\<^verbatim>\<open>pagetable.c\<close>, \<^verbatim>\<open>vm.c\<close>) and memory areas (\<^verbatim>\<open>vma.c\<close>) take their pages and nodes from that heap.
  Concurrency. Every shared structure has a spinlock (\<^verbatim>\<open>src/sync/spinlock.c\<close>) whose critical sections switch
  interrupts off with a nesting counter (\<^verbatim>\<open>intr_off\<close>, \<^verbatim>\<open>intr_on\<close> of \<^verbatim>\<open>src/trap/trap.c\<close>).
  Tasks. The timer (\<^verbatim>\<open>src/hal/timer.c\<close>) interrupts through \<^verbatim>\<open>kerneltrap\<close> (\<^verbatim>\<open>trap.c\<close>) and makes the scheduler
  (\<^verbatim>\<open>src/task/sched.c\<close>, \<^verbatim>\<open>switch.S\<close>) pass the hart to the next process of its run queue; \<^verbatim>\<open>proc.c\<close> and
  \<^verbatim>\<open>kthread.c\<close> create and end processes; the interrupt controller driver is \<^verbatim>\<open>src/hal/plic.c\<close>.
  Storage. Block devices register with \<^verbatim>\<open>src/hal/blk.c\<close>; the block cache (\<^verbatim>\<open>src/mm/bcache.c\<close>) reads and writes
  through them; the virtio disk (\<^verbatim>\<open>src/hal/virtio\<close>) is such a device, on a virtqueue shared with the hardware.
  Files. \<^verbatim>\<open>src/fs\<close> holds super blocks, inodes, directory entries, open files, descriptor tables, mounts and the
  path walk, over operation tables that a file system would supply.
  Services. Hash tables, radix trees, strings, digests, LZ4, error codes and formatted output (\<^verbatim>\<open>src/misc\<close>).

  2. Which theory models what.
  Kernel_Prelude: machine integers, the outcomes of kernel code (\<open>fault\<close>), the result type with \<open>rbind\<close>, loops over
  addresses, lemmas on words and lists. Align_Math: configuration constants, alignment, logarithm, byte order, time
  conversion. Bitmap, Klist, Atomic: \<^verbatim>\<open>bitmap.h\<close>, \<^verbatim>\<open>list.h\<close> on a pointer memory, \<^verbatim>\<open>atomic.h\<close>. Spinlock: the lock
  functions on one hart, and the protocol of any number of harts as a step relation.
  Phys_Mem, Buddy, Buddy_Blocks, Buddy_Correct: page descriptors, early heap, buddy allocator, its invariant
  (the free and the allocated blocks tile the managed region) and its proofs. Slab, Slab_Correct, Kalloc,
  Kalloc_Correct: slab caches and the heap. Pagetable, Pagetable_Correct, Vma: page tables as a memory of entries,
  memory areas as the list of their nodes. Memory_Properties, Foundation_Properties, Vm_Properties state the properties.
  Sched, Sched_Correct: processes, run queues, yields and context switches, with the invariant \<open>sched_ok\<close>.
  Pid: \<^verbatim>\<open>alloc_pid\<close>, alone and interleaved. Proc: creation and release of processes and kernel threads over the
  file-system layer, the memory areas and the heap. Plic, Trap: interrupt controller, timer, trap handler.
  Task_Properties, Kthread_Properties, Trap_Properties state the properties.
  Kv_Store, Hashtable, Radix_Tree, Store_Properties: the interface \<open>kv_store\<close> of a store of words under words as a
  locale, interpreted on the hash table and on the radix tree. Cstring, String_Properties: \<^verbatim>\<open>string.c\<close> on a byte
  memory. Block_Stream, Sha2, Sha2_Correct, Digest_Properties: the interface \<open>block_digest\<close> of a digest that is fed in
  pieces as a locale, interpreted on SHA-256 and SHA-512, against the definitions of FIPS 180-4. Lz4, Lz4_Correct,
  Lz4_Properties: compressor and decompressor. Errno: error codes, error pointers, messages. Printf, Printf_Correct,
  Printf_Properties: the formatter.
  Blk, Bcache, Storage_Properties: device registry and block cache. Virtq, Virtq_Correct, Virtio, Virtio_Blk,
  Virtio_Properties: virtqueue, device negotiation, the disk driver.
  Fs_State, Super, Inode, Dentry, Open_File, Fd_Table, Mount, Namei, Vfs, Fs_Correct, Fs_Properties: the file-system
  layer, one theory per source file; Fs_State holds the one state of the layer and all its locks.

  3. How state and code correspond.
  A structure is a record, with the fields of the source under the same names, prefixed where a name is taken;
  structures live in maps from addresses, and an intrusive list is the HOL list of the addresses of its members, on
  the strength of the refinement of \<^verbatim>\<open>list.h\<close> in Klist. The links of a node that a theory needs to know about (on a
  list, unlinked, never initialised) are a field of type \<open>link\<close>; unlinking a node with stale links is the
  outcome \<open>Bad_List\<close>. A function of the source is a function from the state to \<open>fault + result \<times> state\<close>. Faults are
  the panics and assertions, null dereferences, accesses outside an array, corrupted lists and waiting for ever
  (\<open>Spin\<close>). Integers are words of the width of the source where wrap-around can matter, sizes of arrays in the
  model are natural numbers. Each lock is acquired and released where the source does it, with its effect on the nesting
  counter of the hart. Code that is not in the repository is a parameter: the operations of a file system and the heap
  as seen by the file layer (record \<open>env\<close>), the device registers (record \<open>mmio\<close>), the device behind a block
  device, the interrupt routine, the time and the hart number (record \<open>machine\<close>). Where one component calls another
  that is modelled (heap on slab on buddy, processes on files and page tables, traps on the scheduler) the
  definitions are composed; the slab caches get the buddy allocator as functions, which \<open>kops\<close> of Kalloc
  ties together.

  4. What the lemmas show.
  The invariants of the allocators, the caches, the page tables, the virtqueue, the descriptor table and the
  scheduler are preserved by their operations; the stores and the descriptor table refine maps; digests agree with
  their standard for any split of the input; compression, page mappings, virtqueue chains, disk blocks, contexts and
  printed numbers round-trip; mutual exclusion and the uniqueness of process ids hold for every interleaving. Where the
  code does not do what it means to do, a theorem says what it does (for instance
  \<open>slab_layout_overrun\<close>, \<open>file_put_leaks\<close>, \<open>dentry_lookup_misses_insert\<close>, \<open>resched_never_cleared\<close>).

  5. Loops, fuel and termination.
  Loops with a bound are \<open>fun\<close> or \<open>function\<close> with a measure. \<open>merge_level\<close> of Buddy has the number of blocks on
  the list plus one as its fuel, as every round takes a block off the list. \<open>kops\<close> of Kalloc is indexed by the
  nesting depth of calls between slab caches and heap; the code nests once. Loops that wait for a device or another hart
  are \<open>partial_function (option)\<close>, and not returning is the fault \<open>Spin\<close>; the properties that say that such a
  loop returns prove it. \<open>alloc_pid\<close> is total on one hart (\<open>alloc_pid_total\<close>).

  6. Not modelled.
  Boot code and the assembly entry and exit of traps (\<^verbatim>\<open>entry.S\<close>, \<^verbatim>\<open>kernelvec.S\<close>, \<^verbatim>\<open>trampoline.S\<close>): register
  traffic without C semantics; of the assembly code only \<^verbatim>\<open>switch.S\<close> and \<^verbatim>\<open>kthread_entry.S\<close> are, as the scheduler
  rests on them. The accessors of control registers and firmware calls other than the ones the model needs
  (\<^verbatim>\<open>riscv.h\<close>, \<^verbatim>\<open>sbi.h\<close>): one instruction each. Memory orders and fences. \<^verbatim>\<open>main\<close>, which calls the initialisers
  in order, and the messages that are logged. The self test of \<^verbatim>\<open>virtio_blk.c\<close>.
  In the concurrent reading, the spinlock protocol and \<^verbatim>\<open>alloc_pid\<close> are interleaved step by step; all other code is
  modelled as one hart runs it inside its critical sections.
\<close>

end
